(* ===== verification/Prelude.thy ===== *)
theory Prelude
  imports Main "HOL-Library.AList" "HOL-Library.Sublist" "HOL-Library.Word"
    "HOL-Library.List_Lexorder" "HOL-Library.Char_ord"
begin

text \<open>
  Shared vocabulary of the development: results with errors as values, the JavaScript
  \<open>Map\<close> as an insertion-ordered association list, and the two interfaces that several
  components implement (a keyed store, and a store that hands out fencing numbers).
\<close>

section \<open>Results\<close>

text \<open>A function that may throw returns \<open>Inl\<close> of the error code or \<open>Inr\<close> of its value.\<close>

type_synonym ('e, 'a) result = "'e + 'a"

definition is_ok :: "('e, 'a) result \<Rightarrow> bool" where
  "is_ok r = (case r of Inl _ \<Rightarrow> False | Inr _ \<Rightarrow> True)"

lemma is_ok_simps [simp]: "\<not> is_ok (Inl e)" "is_ok (Inr x)"
  by (simp_all add: is_ok_def)

lemma is_okE [elim]: "is_ok r \<Longrightarrow> (\<And>x. r = Inr x \<Longrightarrow> P) \<Longrightarrow> P"
  by (cases r) auto

lemma not_is_ok: "\<not> is_ok r \<longleftrightarrow> (\<exists>e. r = Inl e)"
  by (cases r) auto

text \<open>\<open>guard c e r\<close> is the shape \<open>if (c) throw e\<close> followed by the rest of the body.\<close>

definition throw_if :: "bool \<Rightarrow> 'e \<Rightarrow> ('e, 'a) result \<Rightarrow> ('e, 'a) result" where
  "throw_if c e r = (if c then Inl e else r)"

definition and_then :: "('e, 'a) result \<Rightarrow> ('a \<Rightarrow> ('e, 'b) result) \<Rightarrow> ('e, 'b) result" where
  "and_then r f = (case r of Inl e \<Rightarrow> Inl e | Inr x \<Rightarrow> f x)"

named_theorems result_simps

lemma throw_if_simps [simp, result_simps]:
  "throw_if True e r = Inl e" "throw_if False e r = r"
  by (simp_all add: throw_if_def)

lemma throw_if_Inr [simp, result_simps]: "throw_if c e r = Inr x \<longleftrightarrow> \<not> c \<and> r = Inr x"
  by (simp add: throw_if_def)

lemma throw_if_Inl [result_simps]: "throw_if c e r = Inl e' \<longleftrightarrow> (c \<and> e' = e) \<or> (\<not> c \<and> r = Inl e')"
  by (auto simp: throw_if_def)

lemma and_then_simps [simp, result_simps]:
  "and_then (Inl e) f = Inl e" "and_then (Inr x) f = f x"
  by (simp_all add: and_then_def)

lemma and_then_Inr [result_simps]: "and_then r f = Inr y \<longleftrightarrow> (\<exists>x. r = Inr x \<and> f x = Inr y)"
  by (cases r) auto

lemma and_then_Inl [result_simps]:
  "and_then r f = Inl e \<longleftrightarrow> r = Inl e \<or> (\<exists>x. r = Inr x \<and> f x = Inl e)"
  by (cases r) auto

text \<open>\<open>traverse f xs\<close> runs a throwing function over an array, stopping at the first throw.\<close>

fun traverse :: "('a \<Rightarrow> ('e, 'b) result) \<Rightarrow> 'a list \<Rightarrow> ('e, 'b list) result" where
  "traverse f [] = Inr []"
| "traverse f (x # xs) =
     and_then (f x) (\<lambda>y. and_then (traverse f xs) (\<lambda>ys. Inr (y # ys)))"

lemma traverse_Inr:
  "traverse f xs = Inr ys \<longleftrightarrow> list_all2 (\<lambda>x y. f x = Inr y) xs ys"
proof (induction xs arbitrary: ys)
  case Nil
  then show ?case by auto
next
  case (Cons x xs)
  then show ?case by (cases ys) (auto simp: and_then_Inr)
qed

lemma traverse_length: "traverse f xs = Inr ys \<Longrightarrow> length ys = length xs"
  by (auto simp: traverse_Inr dest: list_all2_lengthD)

text \<open>A JavaScript string is truthy when it is present and not empty.\<close>

definition truthy_string :: "string option \<Rightarrow> string option" where
  "truthy_string v = (case v of None \<Rightarrow> None | Some s \<Rightarrow> if s = [] then None else Some s)"

lemma truthy_string_simps [simp]:
  "truthy_string None = None" "truthy_string (Some []) = None"
  "truthy_string (Some (c # cs)) = Some (c # cs)"
  by (simp_all add: truthy_string_def)

lemma truthy_string_Some [simp]: "truthy_string v = Some s \<longleftrightarrow> v = Some s \<and> s \<noteq> []"
  by (cases v) (auto simp: truthy_string_def)

section \<open>The JavaScript Map\<close>

text \<open>
  A \<open>Map\<close> iterates over its entries in insertion order; \<open>set\<close> on a present key keeps the
  key's place, and \<open>delete\<close> of the entry being visited does not disturb an iteration. The
  model is an association list with distinct keys: \<open>AList.update\<close> and \<open>AList.delete\<close> have
  exactly this order behaviour.
\<close>

type_synonym ('k, 'v) jsmap = "('k \<times> 'v) list"

abbreviation jm_get :: "('k, 'v) jsmap \<Rightarrow> 'k \<Rightarrow> 'v option" where
  "jm_get m k \<equiv> map_of m k"

abbreviation jm_set :: "'k \<Rightarrow> 'v \<Rightarrow> ('k, 'v) jsmap \<Rightarrow> ('k, 'v) jsmap" where
  "jm_set k v m \<equiv> AList.update k v m"

abbreviation jm_delete :: "'k \<Rightarrow> ('k, 'v) jsmap \<Rightarrow> ('k, 'v) jsmap" where
  "jm_delete k m \<equiv> AList.delete k m"

abbreviation jm_values :: "('k, 'v) jsmap \<Rightarrow> 'v list" where
  "jm_values m \<equiv> map snd m"

abbreviation jm_ok :: "('k, 'v) jsmap \<Rightarrow> bool" where
  "jm_ok m \<equiv> distinct (map fst m)"

declare map_of_eq_Some_iff [simp del]
declare Some_eq_map_of_iff [simp del]

lemma jm_get_set [simp]: "jm_get (jm_set k v m) k' = (if k' = k then Some v else jm_get m k')"
  by (simp add: update_conv')

lemma jm_get_delete [simp]: "jm_get (jm_delete k m) k' = (if k' = k then None else jm_get m k')"
  by (simp add: delete_conv')

lemma jm_ok_set [intro, simp]: "jm_ok m \<Longrightarrow> jm_ok (jm_set k v m)"
  by (rule distinct_update)

lemma jm_ok_delete [intro, simp]: "jm_ok m \<Longrightarrow> jm_ok (jm_delete k m)"
  by (rule distinct_delete)

lemma jm_in_set_iff: "jm_ok m \<Longrightarrow> (k, v) \<in> set m \<longleftrightarrow> jm_get m k = Some v"
  by (auto intro: map_of_is_SomeI dest: map_of_SomeD)

lemma jm_values_iff: "jm_ok m \<Longrightarrow> v \<in> set (jm_values m) \<longleftrightarrow> (\<exists>k. jm_get m k = Some v)"
  by (force simp: jm_in_set_iff [symmetric])

lemma jm_get_filter:
  "jm_ok m \<Longrightarrow> jm_get (filter P m) k =
     (case jm_get m k of None \<Rightarrow> None | Some v \<Rightarrow> if P (k, v) then Some v else None)"
  by (induction m) (auto split: option.splits simp: map_of_eq_None_iff)

lemma jm_ok_filter [intro, simp]: "jm_ok m \<Longrightarrow> jm_ok (filter P m)"
  by (induction m) auto

lemma jm_delete_length_le: "length (jm_delete k m) \<le> length m"
  by (rule length_delete_le)

lemma jm_delete_absent: "jm_get m k = None \<Longrightarrow> jm_delete k m = m"
  by (simp add: map_of_eq_None_iff)

lemma set_delete_values: "set (jm_values (jm_delete k m)) \<subseteq> set (jm_values m)"
  by (induction m) auto

lemma set_update_values: "set (jm_values (jm_set k v m)) \<subseteq> insert v (set (jm_values m))"
  by (induction m) auto

lemma update_middle:
  "k \<notin> fst ` set pre \<Longrightarrow> AList.update k v (pre @ (k, w) # es) = pre @ (k, v) # es"
  by (induction pre) auto

lemma map_of_map_values: "map_of (map (\<lambda>(k, v). (k, f v)) m) k = map_option f (map_of m k)"
  by (induction m) auto

text \<open>How \<open>set\<close> and \<open>delete\<close> change the number of entries with a property.\<close>

definition count_values :: "('v \<Rightarrow> bool) \<Rightarrow> ('k, 'v) jsmap \<Rightarrow> nat" where
  "count_values P m = length (filter P (jm_values m))"

lemma count_values_simps [simp]:
  "count_values P [] = 0"
  "count_values P ((k, v) # m) = (if P v then 1 else 0) + count_values P m"
  by (simp_all add: count_values_def)

lemma count_values_delete:
  "jm_ok m \<Longrightarrow> jm_get m k = Some v \<Longrightarrow>
     count_values P m = count_values P (jm_delete k m) + (if P v then 1 else 0)"
  by (induction m) (auto simp: jm_delete_absent map_of_eq_None_iff delete_id)

lemma count_values_insert:
  "jm_get m k = None \<Longrightarrow> count_values P (jm_set k v m) = count_values P m + (if P v then 1 else 0)"
  by (induction m) (auto split: if_splits)

lemma count_values_replace:
  "jm_get m k = Some v \<Longrightarrow>
     count_values P (jm_set k v' m) + (if P v then 1 else 0) = count_values P m + (if P v' then 1 else 0)"
  by (induction m) (auto split: if_splits)

text \<open>
  A \<open>Map\<close> used as a bounded memory: a remembered key moves to the end, and the oldest entries are
  dropped while there are more than \<open>limit\<close>.
\<close>

fun drop_oldest :: "nat \<Rightarrow> 'a list \<Rightarrow> 'a list" where
  "drop_oldest limit [] = []"
| "drop_oldest limit (x # xs) = (if limit < length (x # xs) then drop_oldest limit xs else x # xs)"

definition remember_bounded :: "nat \<Rightarrow> 'k \<Rightarrow> 'v \<Rightarrow> ('k, 'v) jsmap \<Rightarrow> ('k, 'v) jsmap" where
  "remember_bounded limit k v m = drop_oldest limit (jm_delete k m @ [(k, v)])"

lemma drop_oldest_drop: "drop_oldest limit xs = drop (length xs - limit) xs"
  by (induction xs) (auto simp: Suc_diff_le not_less)

lemma drop_oldest_length: "length (drop_oldest limit xs) = min limit (length xs)"
  by (simp add: drop_oldest_drop)

lemma remember_bounded_length: "length (remember_bounded limit k v m) \<le> limit"
  by (simp add: remember_bounded_def drop_oldest_length)

lemma jm_ok_drop: "jm_ok m \<Longrightarrow> jm_ok (drop n m)"
  by (simp add: drop_map [symmetric] distinct_drop)

lemma jm_ok_append_new: "jm_ok m \<Longrightarrow> jm_ok (jm_delete k m @ [(k, v)])"
proof -
  assume "jm_ok m"
  moreover have "k \<notin> fst ` set (jm_delete k m)" by (induction m) auto
  ultimately show ?thesis by (simp add: distinct_delete)
qed

lemma jm_ok_remember: "jm_ok m \<Longrightarrow> jm_ok (remember_bounded limit k v m)"
  unfolding remember_bounded_def drop_oldest_drop by (intro jm_ok_drop jm_ok_append_new)

lemma remember_bounded_new: "0 < limit \<Longrightarrow> (k, v) \<in> set (remember_bounded limit k v m)"
  by (simp add: remember_bounded_def drop_oldest_drop drop_append)

text \<open>The interface the stores rely on, stated once.\<close>

locale keyed_store =
  fixes get :: "'m \<Rightarrow> 'k \<Rightarrow> 'v option"
    and put :: "'k \<Rightarrow> 'v \<Rightarrow> 'm \<Rightarrow> 'm"
    and del :: "'k \<Rightarrow> 'm \<Rightarrow> 'm"
    and ok :: "'m \<Rightarrow> bool"
  assumes get_put: "ok m \<Longrightarrow> get (put k v m) k' = (if k' = k then Some v else get m k')"
    and get_del: "ok m \<Longrightarrow> get (del k m) k' = (if k' = k then None else get m k')"
    and ok_put: "ok m \<Longrightarrow> ok (put k v m)"
    and ok_del: "ok m \<Longrightarrow> ok (del k m)"
begin

definition del_all :: "'k list \<Rightarrow> 'm \<Rightarrow> 'm" where
  "del_all ks m = fold del ks m"

lemma ok_del_all: "ok m \<Longrightarrow> ok (del_all ks m)"
  by (induction ks arbitrary: m) (auto simp: del_all_def ok_del)

lemma get_del_all:
  "ok m \<Longrightarrow> get (del_all ks m) k = (if k \<in> set ks then None else get m k)"
proof (induction ks arbitrary: m)
  case Nil
  then show ?case by (simp add: del_all_def)
next
  case (Cons x xs)
  then have "get (del_all xs (del x m)) k = (if k \<in> set xs then None else get (del x m) k)"
    by (simp add: ok_del)
  with Cons.prems show ?case by (simp add: del_all_def get_del)
qed

lemma put_then_del: "ok m \<Longrightarrow> get (del k (put k v m)) k' = get (del k m) k'"
  by (simp add: get_del get_put ok_put)

end

interpretation jm: keyed_store jm_get jm_set jm_delete jm_ok
  by unfold_locales simp_all

section \<open>Fencing numbers\<close>

text \<open>
  Lane leases hand out revisions and the surface registry hands out generations. Both keep
  the same contract: the number current for a key never goes down, and a reference
  \<open>(key, number)\<close> is honoured only while the number is the current one. A reference that
  has been overtaken is then refused for ever.
\<close>

locale fencing =
  fixes ok :: "'s \<Rightarrow> bool"
    and step :: "'op \<Rightarrow> 's \<Rightarrow> 's"
    and current :: "'s \<Rightarrow> 'k \<Rightarrow> nat"
    and honoured :: "'s \<Rightarrow> 'k \<Rightarrow> nat \<Rightarrow> bool"
  assumes ok_step: "ok s \<Longrightarrow> ok (step op s)"
    and current_mono: "ok s \<Longrightarrow> current s k \<le> current (step op s) k"
    and honoured_current: "ok s \<Longrightarrow> honoured s k n \<Longrightarrow> n = current s k"
begin

lemma ok_run: "ok s \<Longrightarrow> ok (fold step ops s)"
  by (induction ops arbitrary: s) (auto simp: ok_step)

lemma current_run_mono: "ok s \<Longrightarrow> current s k \<le> current (fold step ops s) k"
proof (induction ops arbitrary: s)
  case Nil
  then show ?case by simp
next
  case (Cons op ops)
  have "current s k \<le> current (step op s) k" using Cons.prems by (rule current_mono)
  also have "\<dots> \<le> current (fold step ops (step op s)) k"
    using Cons.prems by (intro Cons.IH ok_step)
  finally show ?case by simp
qed

lemma overtaken_refused:
  assumes "ok s" and "n < current s k"
  shows "\<not> honoured (fold step ops s) k n"
proof
  assume "honoured (fold step ops s) k n"
  with ok_run [OF assms(1)] have "n = current (fold step ops s) k" by (rule honoured_current)
  with current_run_mono [OF assms(1), of k ops] assms(2) show False by simp
qed

lemma honoured_throughout:
  assumes "ok s" and "honoured s k n" and "honoured (fold step (ops @ ops') s) k n"
  shows "current (fold step ops s) k = n"
proof -
  from assms(1,2) have "n = current s k" by (rule honoured_current)
  moreover from assms(1) have "current s k \<le> current (fold step ops s) k" by (rule current_run_mono)
  moreover have "current (fold step ops s) k \<le> current (fold step (ops @ ops') s) k"
    using current_run_mono [OF ok_run [OF assms(1)], where ops = ops'] by simp
  moreover have "n = current (fold step (ops @ ops') s) k"
    using ok_run [OF assms(1)] assms(3) by (rule honoured_current)
  ultimately show ?thesis by simp
qed

end

section \<open>Withdrawal\<close>

text \<open>
  Capability leases and approvals are authority that can be taken back. A withdrawing
  operation hits some of the live entries, which stop being live, and leaves the others as
  they were: a sequence of withdrawals never creates or changes a live entry.
\<close>

locale withdrawal =
  fixes ok :: "'s \<Rightarrow> bool"
    and live :: "'s \<Rightarrow> 'k \<Rightarrow> 'v option"
    and op :: "'x \<Rightarrow> 's \<Rightarrow> 's"
    and hits :: "'x \<Rightarrow> 'v \<Rightarrow> bool"
  assumes ok_op: "ok s \<Longrightarrow> ok (op x s)"
    and live_op: "ok s \<Longrightarrow> live (op x s) k =
      (case live s k of None \<Rightarrow> None | Some v \<Rightarrow> if hits x v then None else Some v)"
begin

lemma ok_ops: "ok s \<Longrightarrow> ok (fold op xs s)"
  by (induction xs arbitrary: s) (auto simp: ok_op)

lemma live_ops:
  "ok s \<Longrightarrow> live (fold op xs s) k =
     (case live s k of None \<Rightarrow> None | Some v \<Rightarrow> if \<exists>x \<in> set xs. hits x v then None else Some v)"
proof (induction xs arbitrary: s)
  case Nil
  then show ?case by (simp split: option.splits)
next
  case (Cons x xs)
  then have "live (fold op xs (op x s)) k =
    (case live (op x s) k of None \<Rightarrow> None | Some v \<Rightarrow> if \<exists>x \<in> set xs. hits x v then None else Some v)"
    by (simp add: ok_op)
  with Cons.prems show ?case by (simp add: live_op split: option.splits)
qed

lemma live_ops_Some:
  "ok s \<Longrightarrow> live (fold op xs s) k = Some v \<longleftrightarrow> live s k = Some v \<and> (\<forall>x \<in> set xs. \<not> hits x v)"
  by (auto simp: live_ops split: option.splits if_splits)

lemma op_idem: "ok s \<Longrightarrow> live (op x (op x s)) k = live (op x s) k"
  by (simp add: live_op ok_op split: option.splits)

lemma op_commute: "ok s \<Longrightarrow> live (op x (op y s)) k = live (op y (op x s)) k"
  by (cases "live s k") (auto simp: live_op ok_op)

end

end
