(* ===== verification/LaneLeases.thy ===== *)
theory LaneLeases
  imports Prelude
begin

text \<open>
  Lane leases (\<open>src/src/control/leases.ts\<close>): which actor may type into a pane. Each
  delegation or takeover replaces the pane's lease and raises its revision. Times are
  milliseconds since the epoch; an ISO string of the code stands for its millisecond.
  The clock is read once per operation, and that reading is the argument \<open>now\<close>.
\<close>

datatype actor_kind = Human | Psyche

record lane_lease =
  ll_paneId :: string
  ll_actorId :: string
  ll_actorKind :: actor_kind
  ll_taskId :: "string option"
  ll_revision :: nat
  ll_expiresAt :: int

record lane_store =
  ls_leases :: "(string, lane_lease) jsmap"
  ls_revisions :: "(string, nat) jsmap"

datatype lane_error = LaneRevisionMismatch | LaneConflict | LaneExpired

definition lane_init :: lane_store where
  "lane_init = \<lparr>ls_leases = [], ls_revisions = []\<rparr>"

definition lane_replace ::
  "int \<Rightarrow> string \<Rightarrow> string \<Rightarrow> actor_kind \<Rightarrow> int \<Rightarrow> string option \<Rightarrow> lane_store \<Rightarrow> lane_lease \<times> lane_store"
where
  "lane_replace now paneId actorId kind ttlMs taskId s =
    (let revision = (case jm_get (ls_revisions s) paneId of None \<Rightarrow> 0 | Some r \<Rightarrow> r) + 1;
         lease = \<lparr>ll_paneId = paneId, ll_actorId = actorId, ll_actorKind = kind,
                  ll_taskId = truthy_string taskId, ll_revision = revision,
                  ll_expiresAt = now + ttlMs\<rparr>
     in (lease, s\<lparr>ls_revisions := jm_set paneId revision (ls_revisions s),
                  ls_leases := jm_set paneId lease (ls_leases s)\<rparr>))"

definition lane_delegate :: "int \<Rightarrow> string \<Rightarrow> string \<Rightarrow> string \<Rightarrow> int \<Rightarrow> lane_store \<Rightarrow> lane_lease \<times> lane_store" where
  "lane_delegate now paneId actorId taskId ttlMs s =
     lane_replace now paneId actorId Psyche ttlMs (Some taskId) s"

definition takeover_ttl :: int where
  "takeover_ttl = 24 * 60 * 60 * 1000"

definition lane_takeover :: "int \<Rightarrow> string \<Rightarrow> string \<Rightarrow> lane_store \<Rightarrow> lane_lease \<times> lane_store" where
  "lane_takeover now paneId actorId s = lane_replace now paneId actorId Human takeover_ttl None s"

definition lane_assert ::
  "int \<Rightarrow> string \<Rightarrow> string \<Rightarrow> actor_kind \<Rightarrow> nat \<Rightarrow> lane_store \<Rightarrow> (lane_error, lane_lease) result"
where
  "lane_assert now paneId actorId kind revision s =
    (case jm_get (ls_leases s) paneId of
       None \<Rightarrow> Inl LaneRevisionMismatch
     | Some lease \<Rightarrow>
         throw_if (ll_revision lease \<noteq> revision) LaneRevisionMismatch
        (throw_if (ll_actorId lease \<noteq> actorId \<or> ll_actorKind lease \<noteq> kind) LaneConflict
        (throw_if (ll_expiresAt lease \<le> now) LaneExpired
        (Inr lease))))"

definition assert_automation :: "int \<Rightarrow> string \<Rightarrow> string \<Rightarrow> nat \<Rightarrow> lane_store \<Rightarrow> (lane_error, lane_lease) result" where
  "assert_automation now paneId actorId revision s = lane_assert now paneId actorId Psyche revision s"

definition assert_human :: "int \<Rightarrow> string \<Rightarrow> string \<Rightarrow> nat \<Rightarrow> lane_store \<Rightarrow> (lane_error, lane_lease) result" where
  "assert_human now paneId actorId revision s = lane_assert now paneId actorId Human revision s"

definition lane_snapshot :: "lane_store \<Rightarrow> (string, lane_lease) jsmap" where
  "lane_snapshot s = ls_leases s"

text \<open>A run of the store: the two operations that change it, each with its clock reading.\<close>

datatype lane_op =
    Delegate int string string string int
  | Takeover int string string

fun lane_step :: "lane_op \<Rightarrow> lane_store \<Rightarrow> lane_store" where
  "lane_step (Delegate now paneId actorId taskId ttlMs) s =
     snd (lane_delegate now paneId actorId taskId ttlMs s)"
| "lane_step (Takeover now paneId actorId) s = snd (lane_takeover now paneId actorId s)"

section \<open>The invariant\<close>

definition lane_revision :: "lane_store \<Rightarrow> string \<Rightarrow> nat" where
  "lane_revision s paneId = (case jm_get (ls_revisions s) paneId of None \<Rightarrow> 0 | Some r \<Rightarrow> r)"

definition lane_ok :: "lane_store \<Rightarrow> bool" where
  "lane_ok s \<longleftrightarrow> jm_ok (ls_leases s) \<and> jm_ok (ls_revisions s) \<and>
     (\<forall>p l. jm_get (ls_leases s) p = Some l \<longrightarrow>
        ll_paneId l = p \<and> ll_revision l = lane_revision s p \<and> 0 < ll_revision l)"

lemma lane_ok_init: "lane_ok lane_init"
  by (simp add: lane_ok_def lane_init_def)

lemma lane_replace_simps:
  "ls_leases (snd (lane_replace now p a k ttl t s)) =
     jm_set p (fst (lane_replace now p a k ttl t s)) (ls_leases s)"
  "lane_revision (snd (lane_replace now p a k ttl t s)) q =
     (if q = p then lane_revision s p + 1 else lane_revision s q)"
  "ll_paneId (fst (lane_replace now p a k ttl t s)) = p"
  "ll_actorId (fst (lane_replace now p a k ttl t s)) = a"
  "ll_actorKind (fst (lane_replace now p a k ttl t s)) = k"
  "ll_revision (fst (lane_replace now p a k ttl t s)) = lane_revision s p + 1"
  "ll_expiresAt (fst (lane_replace now p a k ttl t s)) = now + ttl"
  by (auto simp: lane_replace_def lane_revision_def Let_def)

lemma lane_replace_ok_revisions:
  "jm_ok (ls_revisions s) \<Longrightarrow> jm_ok (ls_revisions (snd (lane_replace now p a k ttl t s)))"
  by (simp add: lane_replace_def Let_def)

lemma lane_ok_replace: "lane_ok s \<Longrightarrow> lane_ok (snd (lane_replace now p a k ttl t s))"
  by (fastforce simp: lane_ok_def lane_replace_simps lane_replace_ok_revisions)

lemma lane_step_replace:
  "\<exists>now p a k ttl t. lane_step op s = snd (lane_replace now p a k ttl t s)"
  by (cases op) (simp_all only: lane_step.simps lane_delegate_def lane_takeover_def, blast+)

lemma lane_ok_step: "lane_ok s \<Longrightarrow> lane_ok (lane_step op s)"
  using lane_step_replace [of op s] by (auto intro: lane_ok_replace)

lemma lane_revision_step: "lane_revision s p \<le> lane_revision (lane_step op s) p"
  using lane_step_replace [of op s] by (auto simp: lane_replace_simps)

lemma lane_assert_Inr:
  "lane_assert now p a k r s = Inr l \<longleftrightarrow>
     jm_get (ls_leases s) p = Some l \<and> ll_revision l = r \<and> ll_actorId l = a \<and>
     ll_actorKind l = k \<and> now < ll_expiresAt l"
  by (auto simp: lane_assert_def split: option.splits)

text \<open>A revision is honoured when some actor could still assert it at some time.\<close>

definition lane_honoured :: "lane_store \<Rightarrow> string \<Rightarrow> nat \<Rightarrow> bool" where
  "lane_honoured s p r \<longleftrightarrow> (\<exists>now a k. is_ok (lane_assert now p a k r s))"

lemma lane_honoured_iff:
  "lane_honoured s p r \<longleftrightarrow> (\<exists>l. jm_get (ls_leases s) p = Some l \<and> ll_revision l = r)"
proof
  assume "lane_honoured s p r"
  then show "\<exists>l. jm_get (ls_leases s) p = Some l \<and> ll_revision l = r"
    by (auto simp: lane_honoured_def lane_assert_Inr elim!: is_okE)
next
  assume "\<exists>l. jm_get (ls_leases s) p = Some l \<and> ll_revision l = r"
  then obtain l where l: "jm_get (ls_leases s) p = Some l" "ll_revision l = r" by auto
  then have "lane_assert (ll_expiresAt l - 1) p (ll_actorId l) (ll_actorKind l) r s = Inr l"
    by (simp add: lane_assert_Inr)
  then have "is_ok (lane_assert (ll_expiresAt l - 1) p (ll_actorId l) (ll_actorKind l) r s)"
    by simp
  then show "lane_honoured s p r" unfolding lane_honoured_def by blast
qed

lemma lane_honoured_current: "lane_ok s \<Longrightarrow> lane_honoured s p r \<Longrightarrow> r = lane_revision s p"
  by (auto simp: lane_honoured_iff lane_ok_def)

interpretation lane: fencing lane_ok lane_step lane_revision lane_honoured
  by unfold_locales (simp_all add: lane_ok_step lane_revision_step lane_honoured_current)

section \<open>Properties\<close>

text \<open>
  A lane revision that has been overtaken by a delegation or takeover is refused ever
  after: no actor, at any time and after any further operations, can assert it again.
\<close>
theorem stale_lane_revision_refused:
  assumes "lane_ok s" and "r < lane_revision s p"
  shows "\<not> is_ok (lane_assert now p a k r (fold lane_step ops s))"
  using lane.overtaken_refused [OF assms] by (auto simp: lane_honoured_def)

lemma stale_lane_revision_refused_witness:
  "\<not> is_ok (lane_assert 5 ''p'' ''agent'' Psyche 1
     (fold lane_step [Delegate 4 ''p'' ''agent'' ''t'' 1000]
       (lane_step (Takeover 3 ''p'' ''me'') (lane_step (Delegate 2 ''p'' ''agent'' ''t'' 1000) lane_init))))"
proof (rule stale_lane_revision_refused)
  show "lane_ok (lane_step (Takeover 3 ''p'' ''me'') (lane_step (Delegate 2 ''p'' ''agent'' ''t'' 1000) lane_init))"
    by (intro lane_ok_step lane_ok_init)
  show "1 < lane_revision (lane_step (Takeover 3 ''p'' ''me'')
      (lane_step (Delegate 2 ''p'' ''agent'' ''t'' 1000) lane_init)) ''p''"
    by (simp add: lane_takeover_def lane_delegate_def lane_replace_simps)
qed

text \<open>
  C34. A human takeover of a pane shuts automation out of it: until somebody delegates that
  pane again, no automation assertion on it succeeds, for any actor, revision or time.
\<close>
theorem takeover_excludes_automation:
  assumes "\<And>now a t ttl. Delegate now p a t ttl \<notin> set ops"
  shows "\<not> is_ok (assert_automation now p a r (fold lane_step ops (snd (lane_takeover t0 p h s))))"
proof -
  have "\<exists>l. jm_get (ls_leases (fold lane_step ops s0)) p = Some l \<and> ll_actorKind l = Human"
    if "\<exists>l. jm_get (ls_leases s0) p = Some l \<and> ll_actorKind l = Human" for s0
    using assms that
  proof (induction ops arbitrary: s0)
    case Nil
    then show ?case by simp
  next
    case (Cons op ops)
    have "\<exists>l. jm_get (ls_leases (lane_step op s0)) p = Some l \<and> ll_actorKind l = Human"
      using Cons.prems by (cases op) (auto simp: lane_takeover_def lane_delegate_def lane_replace_simps)
    then have "\<exists>l. jm_get (ls_leases (fold lane_step ops (lane_step op s0))) p = Some l \<and>
        ll_actorKind l = Human"
      by (rule Cons.IH [rotated]) (use Cons.prems(1) in auto)
    then show ?case by simp
  qed
  from this [of "snd (lane_takeover t0 p h s)"] show ?thesis
    by (auto simp: assert_automation_def lane_assert_Inr lane_takeover_def lane_replace_simps elim!: is_okE)
qed

lemma takeover_excludes_automation_witness:
  "\<not> is_ok (assert_automation 4 ''p'' ''agent'' 2
     (fold lane_step [Delegate 3 ''q'' ''agent'' ''t'' 1000] (snd (lane_takeover 2 ''p'' ''me'' lane_init))))"
  by (rule takeover_excludes_automation) simp

end
