(* ===== verification/ControlTypes.thy ===== *)
theory ControlTypes
  imports Prelude
begin

text \<open>
  The types the stores of the control plane share: capabilities and targets
  (\<open>src/src/control/capabilityLeases.ts\<close>) and the limits (\<open>src/src/control/limits.ts\<close>).
  Identifiers are compared, tested for emptiness and measured in UTF-8 bytes, so a string
  of the code is modelled by its UTF-8 bytes.
\<close>

datatype surface_capability =
    PaneObserve | PaneInput | PaneInterrupt | PaneFocus | PaneResize | PaneCreate | PaneClose
  | BrowserInspect | BrowserScreenshot | BrowserNavigate | BrowserInteract | BrowserHistory
  | BrowserClose | BrowserScript

text \<open>The wire name of a capability and the set \<open>CAPABILITIES\<close> of \<open>approvals.ts\<close>.\<close>

fun capability_name :: "surface_capability \<Rightarrow> string" where
  "capability_name PaneObserve = ''pane.observe''"
| "capability_name PaneInput = ''pane.input''"
| "capability_name PaneInterrupt = ''pane.interrupt''"
| "capability_name PaneFocus = ''pane.focus''"
| "capability_name PaneResize = ''pane.resize''"
| "capability_name PaneCreate = ''pane.create''"
| "capability_name PaneClose = ''pane.close''"
| "capability_name BrowserInspect = ''browser.inspect''"
| "capability_name BrowserScreenshot = ''browser.screenshot''"
| "capability_name BrowserNavigate = ''browser.navigate''"
| "capability_name BrowserInteract = ''browser.interact''"
| "capability_name BrowserHistory = ''browser.history''"
| "capability_name BrowserClose = ''browser.close''"
| "capability_name BrowserScript = ''browser.script''"

definition CAPABILITIES :: "surface_capability list" where
  "CAPABILITIES = [PaneObserve, PaneInput, PaneInterrupt, PaneFocus, PaneResize, PaneCreate, PaneClose,
     BrowserInspect, BrowserScreenshot, BrowserNavigate, BrowserInteract, BrowserHistory, BrowserClose,
     BrowserScript]"

definition parse_capability :: "string \<Rightarrow> surface_capability option" where
  "parse_capability s = find (\<lambda>c. capability_name c = s) CAPABILITIES"

lemma capability_name_inj [simp]: "capability_name c = capability_name d \<longleftrightarrow> c = d"
  by (cases c; cases d) simp_all

lemma parse_capability_Some [simp]: "parse_capability s = Some c \<longleftrightarrow> s = capability_name c"
proof
  assume "parse_capability s = Some c"
  then show "s = capability_name c" by (auto simp: parse_capability_def find_Some_iff)
next
  assume "s = capability_name c"
  then show "parse_capability s = Some c" by (cases c) (simp_all add: parse_capability_def CAPABILITIES_def)
qed

datatype surface_kind = PaneKind | BrowserTabKind

datatype lease_target =
    ProjectTarget (target_id: string)
  | SurfaceTarget (target_kind: surface_kind) (target_id: string) (target_generation: nat)

text \<open>
  \<open>targetsEqual\<close> compares kind, then id, then (for a surface) the generation. On this
  datatype it is equality, which is proved rather than assumed.
\<close>

fun targets_equal :: "lease_target \<Rightarrow> lease_target \<Rightarrow> bool" where
  "targets_equal (ProjectTarget i) (ProjectTarget j) = (i = j)"
| "targets_equal (SurfaceTarget k i g) (SurfaceTarget k' i' g') = (k = k' \<and> i = i' \<and> g = g')"
| "targets_equal _ _ = False"

lemma targets_equal_iff [simp]: "targets_equal s t \<longleftrightarrow> s = t"
  by (cases s; cases t) auto

record control_limits =
  leaseTtlMs :: int
  leaseRequestRecords :: nat
  leaseRequestPending :: nat
  leaseRequestGrants :: nat
  leaseRequestCapabilitiesPerGrant :: nat
  leaseRequestTextBytes :: nat
  leaseRequestCapabilityBytes :: nat
  approvalTtlMs :: int
  paneOutputBytes :: nat
  paneOutputChunks :: nat
  semanticNodes :: nat
  semanticDepth :: nat
  accessibleNameBytes :: nat
  snapshotTtlMs :: int
  screenshotBytes :: nat
  scriptSourceBytes :: nat
  scriptResultBytes :: nat
  actionTimeoutMs :: int
  scriptTimeoutMs :: int
  pendingCommands :: nat
  resourceQueueDepth :: nat

definition AGENT_CONTROL_LIMITS :: control_limits where
  "AGENT_CONTROL_LIMITS = \<lparr>
     leaseTtlMs = 30 * 60000,
     leaseRequestRecords = 1000,
     leaseRequestPending = 100,
     leaseRequestGrants = 32,
     leaseRequestCapabilitiesPerGrant = 12,
     leaseRequestTextBytes = 128,
     leaseRequestCapabilityBytes = 64,
     approvalTtlMs = 5 * 60000,
     paneOutputBytes = 64 * 1024,
     paneOutputChunks = 512,
     semanticNodes = 2000,
     semanticDepth = 32,
     accessibleNameBytes = 512,
     snapshotTtlMs = 30000,
     screenshotBytes = 4 * 1024 * 1024,
     scriptSourceBytes = 64 * 1024,
     scriptResultBytes = 256 * 1024,
     actionTimeoutMs = 15000,
     scriptTimeoutMs = 5000,
     pendingCommands = 256,
     resourceQueueDepth = 64\<rparr>"

end
