(* ===== verification/CapabilityLeases.thy ===== *)
theory CapabilityLeases
  imports ControlTypes
begin

text \<open>
  The capability lease store (\<open>src/src/control/capabilityLeases.ts\<close>).

  Operations that read the clock several times take \<open>clk\<close>: \<open>clk i\<close> is the i-th reading
  (from 0) made during that call, so that no assumption ties the readings of one call
  together unless a lemma states it. The identifier \<open>randomUUID()\<close> would return is the
  argument \<open>fresh\<close>.
\<close>

type_synonym readings = "nat \<Rightarrow> int"

record grant_item =
  gi_target :: lease_target
  gi_capabilities :: "surface_capability list"

record capability_lease =
  cl_id :: string
  cl_requestId :: string
  cl_revision :: nat
  cl_ownerEpoch :: int
  cl_actorId :: string
  cl_taskId :: string
  cl_grantedBy :: string
  cl_grants :: "grant_item list"
  cl_createdAt :: int
  cl_expiresAt :: int

datatype lease_end = EndExpired | EndRevoked

record lease_history_entry =
  he_lease :: capability_lease
  he_status :: lease_end
  he_endedAt :: int

record lease_grant_input =
  gr_requestId :: string
  gr_actorId :: string
  gr_taskId :: string
  gr_grantedBy :: string
  gr_grants :: "grant_item list"
  gr_ttlMs :: int

record lease_assertion =
  as_leaseId :: string
  as_revision :: nat
  as_ownerEpoch :: int
  as_actorId :: string
  as_taskId :: string
  as_target :: lease_target
  as_capability :: surface_capability

datatype cap_error =
    LeaseMissing | LeaseExpired | LeaseRevisionMismatch | OwnerRestarted | CapabilityDenied

record cap_store =
  cs_leases :: "(string, capability_lease) jsmap"
  cs_byRequest :: "(string, string) jsmap"
  cs_history :: "lease_history_entry list"
  cs_historyLimit :: nat
  cs_historyTtl :: int
  cs_ownerEpoch :: int

definition CAPABILITY_LEASE_HISTORY_LIMIT :: nat where
  "CAPABILITY_LEASE_HISTORY_LIMIT = 100"

definition CAPABILITY_LEASE_HISTORY_TTL_MS :: int where
  "CAPABILITY_LEASE_HISTORY_TTL_MS = 24 * 60 * 60000"

definition cap_init :: "int \<Rightarrow> nat option \<Rightarrow> int option \<Rightarrow> cap_store" where
  "cap_init epoch limit ttl = \<lparr>cs_leases = [], cs_byRequest = [], cs_history = [],
     cs_historyLimit = (case limit of None \<Rightarrow> CAPABILITY_LEASE_HISTORY_LIMIT | Some n \<Rightarrow> n),
     cs_historyTtl = (case ttl of None \<Rightarrow> CAPABILITY_LEASE_HISTORY_TTL_MS | Some t \<Rightarrow> t),
     cs_ownerEpoch = epoch\<rparr>"

section \<open>Ending a lease\<close>

fun prune_entries :: "nat \<Rightarrow> int \<Rightarrow> lease_history_entry list \<Rightarrow> lease_history_entry list" where
  "prune_entries limit cutoff [] = []"
| "prune_entries limit cutoff (e # es) =
     (if limit < length (e # es) \<or> he_endedAt e < cutoff
      then prune_entries limit cutoff es else e # es)"

definition prune_history :: "int \<Rightarrow> cap_store \<Rightarrow> cap_store" where
  "prune_history now s =
     s\<lparr>cs_history := prune_entries (cs_historyLimit s) (now - cs_historyTtl s) (cs_history s)\<rparr>"

text \<open>\<open>invalidate\<close> reads the clock twice: for \<open>endedAt\<close> and in \<open>pruneHistory\<close>.\<close>

definition invalidate ::
  "int \<Rightarrow> int \<Rightarrow> string \<Rightarrow> lease_end \<Rightarrow> cap_store \<Rightarrow> capability_lease option \<times> cap_store"
where
  "invalidate endedAt pruneAt leaseId status s =
    (case jm_get (cs_leases s) leaseId of
       None \<Rightarrow> (None, s)
     | Some lease \<Rightarrow>
         (Some lease,
          prune_history pruneAt
            (s\<lparr>cs_leases := jm_delete leaseId (cs_leases s),
               cs_byRequest := jm_delete (cl_requestId lease) (cs_byRequest s),
               cs_history := cs_history s @
                 [\<lparr>he_lease = lease, he_status = status, he_endedAt = endedAt\<rparr>]\<rparr>)))"

text \<open>
  The loops of \<open>snapshot\<close>, \<open>revokeTarget\<close>, \<open>revokeActorTask\<close> and \<open>revokeAll\<close>: visit the
  leases in order and end those that match. \<open>i\<close> counts the clock readings made so far.
\<close>

fun invalidate_where ::
  "readings \<Rightarrow> nat \<Rightarrow> (capability_lease \<Rightarrow> bool) \<Rightarrow> lease_end \<Rightarrow> capability_lease list \<Rightarrow>
   cap_store \<Rightarrow> capability_lease list \<times> cap_store"
where
  "invalidate_where clk i P status [] s = ([], s)"
| "invalidate_where clk i P status (l # ls) s =
     (if P l
      then (let (revoked, s') =
                  invalidate_where clk (i + 2) P status ls
                    (snd (invalidate (clk i) (clk (Suc i)) (cl_id l) status s))
            in (l # revoked, s'))
      else invalidate_where clk i P status ls s)"

definition lease_covers :: "lease_target \<Rightarrow> capability_lease \<Rightarrow> bool" where
  "lease_covers t l = list_ex (\<lambda>g. targets_equal (gi_target g) t) (cl_grants l)"

definition cap_snapshot :: "readings \<Rightarrow> cap_store \<Rightarrow> capability_lease list \<times> cap_store" where
  "cap_snapshot clk s =
    (let s' = snd (invalidate_where clk 1 (\<lambda>l. cl_expiresAt l \<le> clk 0) EndExpired
                     (jm_values (cs_leases s)) s)
     in (jm_values (cs_leases s'), s'))"

definition cap_release :: "readings \<Rightarrow> string \<Rightarrow> cap_store \<Rightarrow> capability_lease option \<times> cap_store" where
  "cap_release clk leaseId s = invalidate (clk 0) (clk 1) leaseId EndRevoked s"

definition cap_revoke :: "readings \<Rightarrow> string \<Rightarrow> cap_store \<Rightarrow> capability_lease option \<times> cap_store" where
  "cap_revoke clk leaseId s = invalidate (clk 0) (clk 1) leaseId EndRevoked s"

definition revoke_target :: "readings \<Rightarrow> lease_target \<Rightarrow> cap_store \<Rightarrow> capability_lease list \<times> cap_store" where
  "revoke_target clk t s =
     invalidate_where clk 0 (lease_covers t) EndRevoked (jm_values (cs_leases s)) s"

definition revoke_actor_task ::
  "readings \<Rightarrow> string \<Rightarrow> string \<Rightarrow> cap_store \<Rightarrow> capability_lease list \<times> cap_store"
where
  "revoke_actor_task clk actorId taskId s =
     invalidate_where clk 0 (\<lambda>l. cl_actorId l = actorId \<and> cl_taskId l = taskId) EndRevoked
       (jm_values (cs_leases s)) s"

definition revoke_all :: "readings \<Rightarrow> cap_store \<Rightarrow> capability_lease list \<times> cap_store" where
  "revoke_all clk s =
    (let expired = filter (\<lambda>l. cl_expiresAt l \<le> clk 0) (jm_values (cs_leases s));
         (revoked, s') = cap_snapshot clk s
     in invalidate_where clk (1 + 2 * length expired) (\<lambda>_. True) EndRevoked revoked s')"

definition cap_history :: "int \<Rightarrow> cap_store \<Rightarrow> lease_history_entry list \<times> cap_store" where
  "cap_history now s = (let s' = prune_history now s in (cs_history s', s'))"

section \<open>Granting and asserting\<close>

text \<open>
  \<open>authorityKeys\<close> collects the JSON text of \<open>[kind, id, generation?, capability]\<close>; the model
  keeps the tuple. \<open>grantsEqual\<close> compares the two sets by size and inclusion.
\<close>

definition authority_keys :: "grant_item list \<Rightarrow> (lease_target \<times> surface_capability) list" where
  "authority_keys grants =
     remdups (concat (map (\<lambda>g. map (Pair (gi_target g)) (gi_capabilities g)) grants))"

definition grants_equal :: "grant_item list \<Rightarrow> grant_item list \<Rightarrow> bool" where
  "grants_equal left right =
    (let leftAuthority = authority_keys left; rightAuthority = authority_keys right
     in length leftAuthority = length rightAuthority \<and>
        list_all (\<lambda>key. key \<in> set rightAuthority) leftAuthority)"

definition assert_renewal_identity ::
  "int \<Rightarrow> capability_lease \<Rightarrow> lease_grant_input \<Rightarrow> (cap_error, unit) result"
where
  "assert_renewal_identity epoch previous input =
     throw_if (cl_ownerEpoch previous \<noteq> epoch) OwnerRestarted
    (throw_if (cl_actorId previous \<noteq> gr_actorId input \<or> cl_taskId previous \<noteq> gr_taskId input \<or>
               cl_grantedBy previous \<noteq> gr_grantedBy input \<or>
               \<not> grants_equal (cl_grants previous) (gr_grants input)) CapabilityDenied
    (Inr ()))"

definition clamp_ttl :: "int \<Rightarrow> int" where
  "clamp_ttl ttl = max 0 (min ttl (leaseTtlMs AGENT_CONTROL_LIMITS))"

definition live_previous ::
  "readings \<Rightarrow> string \<Rightarrow> cap_store \<Rightarrow> capability_lease option \<times> cap_store"
where
  "live_previous clk requestId s =
    (case Option.bind (truthy_string (jm_get (cs_byRequest s) requestId)) (jm_get (cs_leases s)) of
       None \<Rightarrow> (None, s)
     | Some p \<Rightarrow>
         if cl_expiresAt p \<le> clk 0
         then (None, snd (invalidate (clk 1) (clk 2) (cl_id p) EndExpired s))
         else (Some p, s))"

definition make_lease ::
  "int \<Rightarrow> string \<Rightarrow> int \<Rightarrow> lease_grant_input \<Rightarrow> capability_lease option \<Rightarrow> capability_lease"
where
  "make_lease now fresh epoch input previous =
    \<lparr>cl_id = (case previous of None \<Rightarrow> fresh | Some p \<Rightarrow> cl_id p),
     cl_requestId = gr_requestId input,
     cl_revision = (case previous of None \<Rightarrow> 0 | Some p \<Rightarrow> cl_revision p) + 1,
     cl_ownerEpoch = epoch,
     cl_actorId = gr_actorId input,
     cl_taskId = gr_taskId input,
     cl_grantedBy = gr_grantedBy input,
     cl_grants = (case previous of None \<Rightarrow> gr_grants input | Some p \<Rightarrow> cl_grants p),
     cl_createdAt = (case previous of None \<Rightarrow> now | Some p \<Rightarrow> cl_createdAt p),
     cl_expiresAt = now + clamp_ttl (gr_ttlMs input)\<rparr>"

definition cap_grant ::
  "readings \<Rightarrow> string \<Rightarrow> lease_grant_input \<Rightarrow> cap_store \<Rightarrow>
   (cap_error, capability_lease) result \<times> cap_store"
where
  "cap_grant clk fresh input s =
    (let (previous, s1) = live_previous clk (gr_requestId input) s;
         checked = (case previous of None \<Rightarrow> Inr ()
                    | Some p \<Rightarrow> assert_renewal_identity (cs_ownerEpoch s1) p input)
     in case checked of
          Inl e \<Rightarrow> (Inl e, s1)
        | Inr _ \<Rightarrow>
            (let lease = make_lease (clk 0) fresh (cs_ownerEpoch s1) input previous
             in (Inr lease,
                 s1\<lparr>cs_leases := jm_set (cl_id lease) lease (cs_leases s1),
                    cs_byRequest := jm_set (cl_requestId lease) (cl_id lease) (cs_byRequest s1)\<rparr>)))"

definition lease_authorizes :: "capability_lease \<Rightarrow> lease_assertion \<Rightarrow> bool" where
  "lease_authorizes l a \<longleftrightarrow> cl_actorId l = as_actorId a \<and> cl_taskId l = as_taskId a \<and>
     list_ex (\<lambda>g. targets_equal (gi_target g) (as_target a) \<and>
                  as_capability a \<in> set (gi_capabilities g)) (cl_grants l)"

definition cap_assert ::
  "readings \<Rightarrow> lease_assertion \<Rightarrow> cap_store \<Rightarrow> (cap_error, capability_lease) result \<times> cap_store"
where
  "cap_assert clk a s =
    (case jm_get (cs_leases s) (as_leaseId a) of
       None \<Rightarrow> (Inl LeaseMissing, s)
     | Some lease \<Rightarrow>
         if cl_ownerEpoch lease \<noteq> cs_ownerEpoch s \<or> as_ownerEpoch a \<noteq> cs_ownerEpoch s
         then (Inl OwnerRestarted, s)
         else if cl_revision lease \<noteq> as_revision a then (Inl LeaseRevisionMismatch, s)
         else if cl_expiresAt lease \<le> clk 0
         then (Inl LeaseExpired, snd (invalidate (clk 1) (clk 2) (cl_id lease) EndExpired s))
         else if \<not> lease_authorizes lease a then (Inl CapabilityDenied, s)
         else (Inr lease, s))"

definition cap_get :: "string \<Rightarrow> cap_store \<Rightarrow> capability_lease option" where
  "cap_get leaseId s = jm_get (cs_leases s) leaseId"

section \<open>The invariant\<close>

text \<open>
  The two maps index the same leases: the key of a lease is its id, its request id leads
  back to it, and every request id leads to a lease. Leases belong to the store's owner
  epoch, and the history holds at most \<open>historyLimit\<close> entries.
\<close>

definition cap_index :: "(string, capability_lease) jsmap \<Rightarrow> (string, string) jsmap \<Rightarrow> int \<Rightarrow> bool" where
  "cap_index leases byRequest epoch \<longleftrightarrow>
     (\<forall>i l. jm_get leases i = Some l \<longrightarrow>
        cl_id l = i \<and> i \<noteq> [] \<and> cl_ownerEpoch l = epoch \<and> 0 < cl_revision l \<and>
        jm_get byRequest (cl_requestId l) = Some i) \<and>
     (\<forall>r i. jm_get byRequest r = Some i \<longrightarrow>
        (\<exists>l. jm_get leases i = Some l \<and> cl_requestId l = r))"

definition cap_ok :: "cap_store \<Rightarrow> bool" where
  "cap_ok s \<longleftrightarrow> jm_ok (cs_leases s) \<and> jm_ok (cs_byRequest s) \<and>
     cap_index (cs_leases s) (cs_byRequest s) (cs_ownerEpoch s) \<and>
     length (cs_history s) \<le> cs_historyLimit s"

lemma cap_ok_init: "cap_ok (cap_init epoch limit ttl)"
  by (simp add: cap_ok_def cap_index_def cap_init_def)

lemma prune_entries_suffix: "\<exists>ds. es = ds @ prune_entries limit cutoff es"
proof (induction es)
  case Nil
  then show ?case by simp
next
  case (Cons e es)
  then obtain ds where "es = ds @ prune_entries limit cutoff es" by blast
  then have "e # es = (e # ds) @ prune_entries limit cutoff es" by simp
  then show ?case
    by (cases "limit < length (e # es) \<or> he_endedAt e < cutoff") (metis prune_entries.simps(2), simp)
qed

lemma prune_entries_length: "length (prune_entries limit cutoff es) \<le> limit"
  by (induction es) auto

lemma prune_entries_head:
  "prune_entries limit cutoff es = e # es' \<Longrightarrow> cutoff \<le> he_endedAt e"
  by (induction es) (auto split: if_splits)

lemma prune_history_simps [simp]:
  "cs_leases (prune_history now s) = cs_leases s"
  "cs_byRequest (prune_history now s) = cs_byRequest s"
  "cs_historyLimit (prune_history now s) = cs_historyLimit s"
  "cs_historyTtl (prune_history now s) = cs_historyTtl s"
  "cs_ownerEpoch (prune_history now s) = cs_ownerEpoch s"
  "length (cs_history (prune_history now s)) \<le> cs_historyLimit s"
  by (simp_all add: prune_history_def prune_entries_length)

lemma invalidate_simps [simp]:
  "cs_leases (snd (invalidate e p i st s)) = jm_delete i (cs_leases s)"
  "cs_ownerEpoch (snd (invalidate e p i st s)) = cs_ownerEpoch s"
  "cs_historyLimit (snd (invalidate e p i st s)) = cs_historyLimit s"
  "fst (invalidate e p i st s) = jm_get (cs_leases s) i"
  by (auto simp: invalidate_def jm_delete_absent split: option.splits)

lemma invalidate_byRequest:
  "cs_byRequest (snd (invalidate e p i st s)) =
     (case jm_get (cs_leases s) i of None \<Rightarrow> cs_byRequest s
      | Some l \<Rightarrow> jm_delete (cl_requestId l) (cs_byRequest s))"
  by (simp add: invalidate_def split: option.splits)

lemma cap_okD:
  assumes "cap_ok s" and "jm_get (cs_leases s) i = Some l"
  shows "cl_id l = i" "i \<noteq> []" "cl_ownerEpoch l = cs_ownerEpoch s" "0 < cl_revision l"
    "jm_get (cs_byRequest s) (cl_requestId l) = Some i"
  using assms by (auto simp: cap_ok_def cap_index_def)

lemma cap_ok_request:
  assumes "cap_ok s" and "jm_get (cs_byRequest s) r = Some i"
  obtains l where "jm_get (cs_leases s) i = Some l" "cl_requestId l = r"
  using assms unfolding cap_ok_def cap_index_def by blast

lemma cap_ok_maps: "cap_ok s \<Longrightarrow> jm_ok (cs_leases s)" "cap_ok s \<Longrightarrow> jm_ok (cs_byRequest s)"
  by (simp_all add: cap_ok_def)

lemma cap_ok_prune: "cap_ok s \<Longrightarrow> cap_ok (prune_history now s)"
  by (simp add: cap_ok_def)

lemma cap_ok_invalidate:
  assumes ok: "cap_ok s"
  shows "cap_ok (snd (invalidate e p i st s))"
proof (cases "jm_get (cs_leases s) i")
  case None
  with ok show ?thesis by (simp add: invalidate_def)
next
  case (Some l)
  note D = cap_okD [OF ok]
  let ?leases = "jm_delete i (cs_leases s)" and ?byReq = "jm_delete (cl_requestId l) (cs_byRequest s)"
  have 1: "cl_id m = j \<and> j \<noteq> [] \<and> cl_ownerEpoch m = cs_ownerEpoch s \<and> 0 < cl_revision m \<and>
      jm_get ?byReq (cl_requestId m) = Some j"
    if "jm_get ?leases j = Some m" for j m
  proof -
    from that have m: "jm_get (cs_leases s) j = Some m" "j \<noteq> i" by (auto split: if_splits)
    with D(5) [OF m(1)] D(5) [OF Some] have "cl_requestId m \<noteq> cl_requestId l" by auto
    with D [OF m(1)] show ?thesis by simp
  qed
  have 2: "\<exists>m. jm_get ?leases j = Some m \<and> cl_requestId m = r"
    if "jm_get ?byReq r = Some j" for r j
  proof -
    from that have r: "jm_get (cs_byRequest s) r = Some j" "r \<noteq> cl_requestId l"
      by (auto split: if_splits)
    obtain m where "jm_get (cs_leases s) j = Some m" "cl_requestId m = r"
      using cap_ok_request [OF ok r(1)] .
    with r(2) Some show ?thesis by (intro exI [of _ m]) auto
  qed
  from 1 2 have "cap_index ?leases ?byReq (cs_ownerEpoch s)" unfolding cap_index_def by blast
  with cap_ok_maps [OF ok] show ?thesis
    using Some by (simp add: invalidate_def cap_ok_def prune_history_def prune_entries_length)
qed

lemma invalidate_where_leases:
  "cs_leases (snd (invalidate_where clk i P st ls s)) =
     jm.del_all (map cl_id (filter P ls)) (cs_leases s)"
  by (induction clk i P st ls s rule: invalidate_where.induct)
    (auto simp: jm.del_all_def Let_def split: prod.splits)

lemma invalidate_where_fst: "fst (invalidate_where clk i P st ls s) = filter P ls"
  by (induction clk i P st ls s rule: invalidate_where.induct)
    (auto simp: Let_def split: prod.splits)

lemma invalidate_where_frame [simp]:
  "cs_ownerEpoch (snd (invalidate_where clk i P st ls s)) = cs_ownerEpoch s"
  by (induction clk i P st ls s rule: invalidate_where.induct)
    (auto simp: Let_def split: prod.splits)

lemma cap_ok_invalidate_where:
  "cap_ok s \<Longrightarrow> cap_ok (snd (invalidate_where clk i P st ls s))"
  by (induction clk i P st ls s rule: invalidate_where.induct)
    (auto simp: Let_def cap_ok_invalidate split: prod.splits)

text \<open>What a loop over all leases leaves: the leases that do not match, unchanged.\<close>

lemma invalidate_where_get:
  assumes ok: "cap_ok s"
  shows "jm_get (cs_leases (snd (invalidate_where clk i P st (jm_values (cs_leases s)) s))) k =
    (case jm_get (cs_leases s) k of None \<Rightarrow> None | Some l \<Rightarrow> if P l then None else Some l)"
proof -
  let ?ids = "map cl_id (filter P (jm_values (cs_leases s)))"
  have "k \<in> set ?ids \<longleftrightarrow> (\<exists>l \<in> set (jm_values (cs_leases s)). P l \<and> cl_id l = k)"
    by auto
  also have "\<dots> \<longleftrightarrow> (\<exists>l. jm_get (cs_leases s) k = Some l \<and> P l)"
    using cap_okD(1) [OF ok] unfolding Bex_def jm_values_iff [OF cap_ok_maps(1) [OF ok]] by blast
  finally show ?thesis
    using cap_ok_maps(1) [OF ok]
    by (simp add: invalidate_where_leases jm.get_del_all split: option.splits)
qed

section \<open>Withdrawals\<close>

text \<open>The operations that only end leases, and what each of them hits.\<close>

datatype cap_withdrawal =
    WRevoke readings string
  | WTarget readings lease_target
  | WActorTask readings string string
  | WExpire readings
  | WAll readings

fun cap_withdraw :: "cap_withdrawal \<Rightarrow> cap_store \<Rightarrow> cap_store" where
  "cap_withdraw (WRevoke clk i) s = snd (cap_revoke clk i s)"
| "cap_withdraw (WTarget clk t) s = snd (revoke_target clk t s)"
| "cap_withdraw (WActorTask clk a t) s = snd (revoke_actor_task clk a t s)"
| "cap_withdraw (WExpire clk) s = snd (cap_snapshot clk s)"
| "cap_withdraw (WAll clk) s = snd (revoke_all clk s)"

fun withdraw_hits :: "cap_withdrawal \<Rightarrow> capability_lease \<Rightarrow> bool" where
  "withdraw_hits (WRevoke clk i) l = (cl_id l = i)"
| "withdraw_hits (WTarget clk t) l = lease_covers t l"
| "withdraw_hits (WActorTask clk a t) l = (cl_actorId l = a \<and> cl_taskId l = t)"
| "withdraw_hits (WExpire clk) l = (cl_expiresAt l \<le> clk 0)"
| "withdraw_hits (WAll clk) l = True"

definition cap_live :: "cap_store \<Rightarrow> string \<Rightarrow> capability_lease option" where
  "cap_live s i = jm_get (cs_leases s) i"

lemma cap_snapshot_simps:
  "snd (cap_snapshot clk s) = snd (invalidate_where clk 1 (\<lambda>l. cl_expiresAt l \<le> clk 0) EndExpired
     (jm_values (cs_leases s)) s)"
  "fst (cap_snapshot clk s) = jm_values (cs_leases (snd (cap_snapshot clk s)))"
  by (simp_all add: cap_snapshot_def Let_def)

lemma revoke_all_snd:
  "\<exists>i. snd (revoke_all clk s) = snd (invalidate_where clk i (\<lambda>_. True) EndRevoked
     (jm_values (cs_leases (snd (cap_snapshot clk s)))) (snd (cap_snapshot clk s)))"
  by (auto simp: revoke_all_def Let_def cap_snapshot_simps(2) [symmetric] split: prod.splits)

lemma cap_ok_withdraw: "cap_ok s \<Longrightarrow> cap_ok (cap_withdraw w s)"
  using revoke_all_snd [of _ s]
  by (cases w) (auto simp: cap_revoke_def revoke_target_def revoke_actor_task_def
      cap_snapshot_simps(1) cap_ok_invalidate cap_ok_invalidate_where, metis cap_ok_invalidate_where)

lemma cap_live_withdraw:
  assumes ok: "cap_ok s"
  shows "cap_live (cap_withdraw w s) k =
    (case cap_live s k of None \<Rightarrow> None | Some l \<Rightarrow> if withdraw_hits w l then None else Some l)"
proof (cases w)
  case (WRevoke clk i)
  then show ?thesis
    using cap_okD(1) [OF ok, of k]
    by (auto simp: cap_live_def cap_revoke_def split: option.splits)
next
  case (WAll clk)
  have "cap_ok (snd (cap_snapshot clk s))"
    using ok by (simp add: cap_snapshot_simps(1) cap_ok_invalidate_where)
  then have "cap_live (snd (revoke_all clk s)) k = None"
    using revoke_all_snd [of clk s]
    by (auto simp: cap_live_def invalidate_where_get split: option.splits)
  with WAll show ?thesis by (simp split: option.splits)
qed (simp_all add: cap_live_def revoke_target_def revoke_actor_task_def cap_snapshot_simps(1)
      invalidate_where_get [OF ok] split: option.splits)

interpretation cap_wd: withdrawal cap_ok cap_live cap_withdraw withdraw_hits
  by unfold_locales (simp_all add: cap_ok_withdraw cap_live_withdraw)

section \<open>Grants and assertions\<close>

lemma distinct_authority_keys: "distinct (authority_keys gs)"
  by (simp add: authority_keys_def)

lemma set_authority_keys:
  "(t, c) \<in> set (authority_keys gs) \<longleftrightarrow> (\<exists>g \<in> set gs. gi_target g = t \<and> c \<in> set (gi_capabilities g))"
  by (auto simp: authority_keys_def)

lemma grants_equal_iff:
  "grants_equal l r \<longleftrightarrow> set (authority_keys l) = set (authority_keys r)"
proof
  assume e: "grants_equal l r"
  then have "set (authority_keys l) \<subseteq> set (authority_keys r)"
    by (auto simp: grants_equal_def Let_def list_all_iff)
  moreover have "card (set (authority_keys l)) = card (set (authority_keys r))"
    using e distinct_authority_keys [of l] distinct_authority_keys [of r]
    by (simp add: grants_equal_def Let_def distinct_card)
  ultimately show "set (authority_keys l) = set (authority_keys r)"
    by (simp add: card_subset_eq)
next
  assume e: "set (authority_keys l) = set (authority_keys r)"
  then have "length (authority_keys l) = length (authority_keys r)"
    by (metis distinct_authority_keys distinct_card)
  with e show "grants_equal l r"
    by (simp add: grants_equal_def Let_def list_all_iff)
qed

lemma lease_authorizes_iff:
  "lease_authorizes l a \<longleftrightarrow> cl_actorId l = as_actorId a \<and> cl_taskId l = as_taskId a \<and>
     (as_target a, as_capability a) \<in> set (authority_keys (cl_grants l))"
  by (auto simp: lease_authorizes_def set_authority_keys list_ex_iff)

lemma authorizes_covers: "lease_authorizes l a \<Longrightarrow> lease_covers (as_target a) l"
  by (auto simp: lease_authorizes_def lease_covers_def list_ex_iff)

lemma live_previous_snd:
  "cap_ok s \<Longrightarrow> cap_ok (snd (live_previous clk r s))"
  "cs_ownerEpoch (snd (live_previous clk r s)) = cs_ownerEpoch s"
  by (auto simp: live_previous_def cap_ok_invalidate split: option.splits)

lemma live_previous_fst:
  assumes "cap_ok s" and "fst (live_previous clk r s) = Some p"
  shows "snd (live_previous clk r s) = s" "jm_get (cs_byRequest s) r = Some (cl_id p)"
    "jm_get (cs_leases s) (cl_id p) = Some p" "cl_requestId p = r" "clk 0 < cl_expiresAt p"
proof -
  from assms(2) obtain i where i: "jm_get (cs_byRequest s) r = Some i" "jm_get (cs_leases s) i = Some p"
    and e: "clk 0 < cl_expiresAt p" "snd (live_previous clk r s) = s"
    by (auto simp: live_previous_def split: option.splits if_splits bind_splits)
  from cap_ok_request [OF assms(1) i(1)] i(2) have "cl_requestId p = r" by force
  with i e cap_okD(1) [OF assms(1) i(2)]
  show "snd (live_previous clk r s) = s" "jm_get (cs_byRequest s) r = Some (cl_id p)"
    "jm_get (cs_leases s) (cl_id p) = Some p" "cl_requestId p = r" "clk 0 < cl_expiresAt p"
    by simp_all
qed

lemma live_previous_None:
  assumes "cap_ok s" and "fst (live_previous clk r s) = None"
  shows "jm_get (cs_byRequest (snd (live_previous clk r s))) r = None"
proof (cases "jm_get (cs_byRequest s) r")
  case None
  then show ?thesis by (simp add: live_previous_def)
next
  case (Some i)
  obtain l where l: "jm_get (cs_leases s) i = Some l" "cl_requestId l = r"
    using cap_ok_request [OF assms(1) Some] .
  with assms Some cap_okD [OF assms(1) l(1)] show ?thesis
    by (auto simp: live_previous_def truthy_string_def invalidate_byRequest split: if_splits)
qed

lemma cap_ok_put:
  assumes ok: "cap_ok s" and l: "cl_id l \<noteq> []" "cl_ownerEpoch l = cs_ownerEpoch s" "0 < cl_revision l"
    and key: "jm_get (cs_byRequest s) (cl_requestId l) = Some (cl_id l) \<or>
      jm_get (cs_byRequest s) (cl_requestId l) = None \<and> jm_get (cs_leases s) (cl_id l) = None"
  shows "cap_ok (s\<lparr>cs_leases := jm_set (cl_id l) l (cs_leases s),
                  cs_byRequest := jm_set (cl_requestId l) (cl_id l) (cs_byRequest s)\<rparr>)"
proof -
  let ?leases = "jm_set (cl_id l) l (cs_leases s)"
    and ?byReq = "jm_set (cl_requestId l) (cl_id l) (cs_byRequest s)"
  have 1: "cl_id m = j \<and> j \<noteq> [] \<and> cl_ownerEpoch m = cs_ownerEpoch s \<and> 0 < cl_revision m \<and>
      jm_get ?byReq (cl_requestId m) = Some j"
    if "jm_get ?leases j = Some m" for j m
  proof (cases "j = cl_id l")
    case True
    with that l show ?thesis by simp
  next
    case False
    with that have m: "jm_get (cs_leases s) j = Some m" by simp
    with False key cap_okD(5) [OF ok m] have "cl_requestId m \<noteq> cl_requestId l" by auto
    with cap_okD [OF ok m] show ?thesis by simp
  qed
  have 2: "\<exists>m. jm_get ?leases j = Some m \<and> cl_requestId m = r"
    if "jm_get ?byReq r = Some j" for r j
  proof (cases "r = cl_requestId l")
    case True
    with that show ?thesis by simp
  next
    case False
    with that have r: "jm_get (cs_byRequest s) r = Some j" by simp
    then obtain m where m: "jm_get (cs_leases s) j = Some m" "cl_requestId m = r"
      using cap_ok_request [OF ok] by blast
    from key have "j \<noteq> cl_id l"
    proof
      assume "jm_get (cs_byRequest s) (cl_requestId l) = Some (cl_id l)"
      then obtain m' where "jm_get (cs_leases s) (cl_id l) = Some m'" "cl_requestId m' = cl_requestId l"
        using cap_ok_request [OF ok] by blast
      with m False show ?thesis by auto
    qed (use m in auto)
    with m show ?thesis by simp
  qed
  have "length (cs_history s) \<le> cs_historyLimit s" using ok by (simp add: cap_ok_def)
  moreover from 1 2 have "cap_index ?leases ?byReq (cs_ownerEpoch s)" unfolding cap_index_def by blast
  ultimately show ?thesis using cap_ok_maps [OF ok] by (simp add: cap_ok_def)
qed

lemma cap_grant_cases:
  assumes ok: "cap_ok s"
  obtains (renewed) p where "fst (live_previous clk (gr_requestId input) s) = Some p"
      "jm_get (cs_leases s) (cl_id p) = Some p" "cl_requestId p = gr_requestId input"
      "clk 0 < cl_expiresAt p"
      "cap_grant clk fresh input s =
        (case assert_renewal_identity (cs_ownerEpoch s) p input of Inl e \<Rightarrow> (Inl e, s)
         | Inr _ \<Rightarrow> (let l = make_lease (clk 0) fresh (cs_ownerEpoch s) input (Some p)
                    in (Inr l, s\<lparr>cs_leases := jm_set (cl_id l) l (cs_leases s),
                         cs_byRequest := jm_set (cl_requestId l) (cl_id l) (cs_byRequest s)\<rparr>)))"
  | (created) s1 where "fst (live_previous clk (gr_requestId input) s) = None"
      "s1 = snd (live_previous clk (gr_requestId input) s)" "cap_ok s1"
      "cs_ownerEpoch s1 = cs_ownerEpoch s"
      "jm_get (cs_byRequest s1) (gr_requestId input) = None"
      "cap_grant clk fresh input s =
        (let l = make_lease (clk 0) fresh (cs_ownerEpoch s) input None
         in (Inr l, s1\<lparr>cs_leases := jm_set (cl_id l) l (cs_leases s1),
              cs_byRequest := jm_set (cl_requestId l) (cl_id l) (cs_byRequest s1)\<rparr>))"
proof (cases "live_previous clk (gr_requestId input) s")
  case (Pair prev s1)
  show ?thesis
  proof (cases prev)
    case None
    with Pair show ?thesis
      using live_previous_snd(1) [OF ok, of clk "gr_requestId input"]
        live_previous_None [OF ok, of clk "gr_requestId input"]
        live_previous_snd(2) [of clk "gr_requestId input" s]
      by (intro created [of s1]) (simp_all add: cap_grant_def Let_def)
  next
    case (Some p)
    with Pair have "fst (live_previous clk (gr_requestId input) s) = Some p" by simp
    from this live_previous_fst [OF ok this] Pair Some show ?thesis
      by (intro renewed [of p]) (simp_all add: cap_grant_def Let_def split: sum.splits)
  qed
qed

lemma live_previous_leases:
  "cap_ok s \<Longrightarrow> jm_get (cs_leases (snd (live_previous clk r s))) k = Some l \<Longrightarrow>
     jm_get (cs_leases s) k = Some l"
  by (auto simp: live_previous_def split: option.splits if_splits)

lemma cap_ok_grant:
  assumes ok: "cap_ok s" and fresh: "fresh \<noteq> []" "jm_get (cs_leases s) fresh = None"
  shows "cap_ok (snd (cap_grant clk fresh input s))"
  using ok
proof (cases rule: cap_grant_cases [of s clk input fresh])
  case (renewed p)
  then show ?thesis
    using ok cap_okD [OF ok renewed(2)]
      cap_ok_put [OF ok, of "make_lease (clk 0) fresh (cs_ownerEpoch s) input (Some p)"]
    by (auto simp: Let_def make_lease_def split: sum.splits)
next
  case (created s1)
  have "jm_get (cs_leases s1) fresh = None"
    using live_previous_leases [OF ok] created(2) fresh(2) by (metis option.exhaust_sel option.distinct(1))
  then show ?thesis
    using created fresh cap_ok_put [OF created(3), of "make_lease (clk 0) fresh (cs_ownerEpoch s) input None"]
    by (simp add: Let_def make_lease_def)
qed

lemma cap_ok_assert: "cap_ok s \<Longrightarrow> cap_ok (snd (cap_assert clk a s))"
  by (auto simp: cap_assert_def cap_ok_invalidate split: option.splits)

section \<open>Runs\<close>

text \<open>
  Everything that can happen to a store. A grant draws its identifier from
  \<open>randomUUID()\<close>, whose documented behaviour is that the identifier is not empty and is not
  in use.
\<close>

datatype cap_op =
    CGrant readings string lease_grant_input
  | CAssert readings lease_assertion
  | CWithdraw cap_withdrawal
  | CHistory int

fun cap_step :: "cap_op \<Rightarrow> cap_store \<Rightarrow> cap_store" where
  "cap_step (CGrant clk fresh input) s = snd (cap_grant clk fresh input s)"
| "cap_step (CAssert clk a) s = snd (cap_assert clk a s)"
| "cap_step (CWithdraw w) s = cap_withdraw w s"
| "cap_step (CHistory now) s = snd (cap_history now s)"

fun fresh_for :: "cap_op \<Rightarrow> cap_store \<Rightarrow> bool" where
  "fresh_for (CGrant clk fresh input) s = (fresh \<noteq> [] \<and> jm_get (cs_leases s) fresh = None)"
| "fresh_for _ s = True"

inductive cap_run :: "cap_store \<Rightarrow> cap_op list \<Rightarrow> cap_store \<Rightarrow> bool" where
  cap_run_nil: "cap_run s [] s"
| cap_run_snoc: "cap_run s ops s' \<Longrightarrow> fresh_for op s' \<Longrightarrow> cap_run s (ops @ [op]) (cap_step op s')"

lemma cap_ok_step: "cap_ok s \<Longrightarrow> fresh_for op s \<Longrightarrow> cap_ok (cap_step op s)"
  by (cases op)
    (simp_all add: cap_ok_grant cap_ok_assert cap_ok_withdraw cap_history_def Let_def cap_ok_prune)

lemma cap_run_ok: "cap_run s ops s' \<Longrightarrow> cap_ok s \<Longrightarrow> cap_ok s'"
  by (induction rule: cap_run.induct) (auto intro: cap_ok_step)

text \<open>Where the leases of a step come from: an old lease, or the lease just granted.\<close>

lemma grant_leases:
  assumes ok: "cap_ok s" and l: "jm_get (cs_leases (snd (cap_grant clk fresh input s))) i = Some l"
  shows "jm_get (cs_leases s) i = Some l \<or> fst (cap_grant clk fresh input s) = Inr l \<and> cl_id l = i"
  using ok
proof (cases rule: cap_grant_cases [of s clk input fresh])
  case (renewed p)
  with l show ?thesis by (auto simp: Let_def split: sum.splits if_splits)
next
  case (created s1)
  with l show ?thesis
    by (auto simp: Let_def split: if_splits dest: live_previous_leases [OF ok])
qed

lemma granted_lease:
  assumes ok: "cap_ok s" and g: "fst (cap_grant clk fresh input s) = Inr l"
  shows "cl_id l = fresh \<and> cl_grants l = gr_grants input \<and> cl_revision l = 1 \<or>
      (\<exists>p. jm_get (cs_leases s) (cl_id l) = Some p \<and> cl_grants l = cl_grants p \<and>
         cl_revision l = cl_revision p + 1)"
    "cl_expiresAt l = clk 0 + clamp_ttl (gr_ttlMs input)"
  using ok g
  by (cases rule: cap_grant_cases [of s clk input fresh];
      force simp: Let_def make_lease_def split: sum.splits)+

lemma withdraw_leases:
  "cap_ok s \<Longrightarrow> jm_get (cs_leases (cap_withdraw w s)) i = Some l \<Longrightarrow> jm_get (cs_leases s) i = Some l"
  using cap_live_withdraw [of s w i] by (auto simp: cap_live_def split: option.splits if_splits)

lemma assert_leases:
  "jm_get (cs_leases (snd (cap_assert clk a s))) i = Some l \<Longrightarrow> jm_get (cs_leases s) i = Some l"
  by (auto simp: cap_assert_def split: option.splits if_splits)

lemma step_leases:
  assumes "cap_ok s" and "jm_get (cs_leases (cap_step op s)) i = Some l"
  shows "jm_get (cs_leases s) i = Some l \<or>
    (\<exists>clk fresh input. op = CGrant clk fresh input \<and> cl_id l = i \<and>
       fst (cap_grant clk fresh input s) = Inr l)"
  using assms
  by (cases op) (auto dest: grant_leases withdraw_leases assert_leases simp: cap_history_def Let_def)

lemma step_covers:
  assumes "cap_ok s" and "jm_get (cs_leases (cap_step op s)) i = Some l" and "lease_covers t l"
  obtains (old) j l' where "jm_get (cs_leases s) j = Some l'" "lease_covers t l'"
  | (granted) clk fresh input where "op = CGrant clk fresh input"
      "list_ex (\<lambda>g. gi_target g = t) (gr_grants input)"
  using step_leases [OF assms(1,2)]
proof (elim disjE exE conjE)
  assume "jm_get (cs_leases s) i = Some l"
  then show thesis using assms(3) by (rule old)
next
  fix clk fresh input
  assume op: "op = CGrant clk fresh input" and g: "fst (cap_grant clk fresh input s) = Inr l"
  from granted_lease(1) [OF assms(1) g] show thesis
  proof (elim disjE exE conjE)
    assume "cl_grants l = gr_grants input"
    with op assms(3) show thesis by (intro granted) (simp_all add: lease_covers_def)
  next
    fix p assume "jm_get (cs_leases s) (cl_id l) = Some p" "cl_grants l = cl_grants p"
    with assms(3) show thesis by (intro old) (simp_all add: lease_covers_def)
  qed
qed

lemma cap_assert_Inr:
  "fst (cap_assert clk a s) = Inr l \<longleftrightarrow>
     jm_get (cs_leases s) (as_leaseId a) = Some l \<and> cl_ownerEpoch l = cs_ownerEpoch s \<and>
     as_ownerEpoch a = cs_ownerEpoch s \<and> cl_revision l = as_revision a \<and>
     clk 0 < cl_expiresAt l \<and> lease_authorizes l a"
  by (auto simp: cap_assert_def split: option.splits)

section \<open>Properties\<close>

text \<open>
  C31. An assertion succeeds exactly when the named lease is in the store, lease, caller and
  store agree on the owner epoch, the revision is the lease's current one, the lease has not
  expired, and some grant of the lease names the asserted target with the asserted
  capability for this actor and task; it then returns the lease and changes nothing.
\<close>
theorem cap_assert_exact:
  "cap_assert clk a s = (Inr l, s') \<longleftrightarrow>
     s' = s \<and> jm_get (cs_leases s) (as_leaseId a) = Some l \<and>
     cl_ownerEpoch l = cs_ownerEpoch s \<and> as_ownerEpoch a = cs_ownerEpoch s \<and>
     cl_revision l = as_revision a \<and> clk 0 < cl_expiresAt l \<and>
     cl_actorId l = as_actorId a \<and> cl_taskId l = as_taskId a \<and>
     (\<exists>g \<in> set (cl_grants l). gi_target g = as_target a \<and> as_capability a \<in> set (gi_capabilities g))"
  by (auto simp: cap_assert_def lease_authorizes_def list_ex_iff split: option.splits)

text \<open>
  Whatever operations are run from a new store (with identifiers not in use), the two
  maps stay an index of the same leases and the history stays within its limit.
\<close>
lemma cap_store_invariant:
  assumes "cap_run (cap_init epoch limit ttl) ops s"
  shows "cap_ok s"
  using assms cap_ok_init by (rule cap_run_ok)

definition demo_grant :: lease_grant_input where
  "demo_grant = \<lparr>gr_requestId = ''req'', gr_actorId = ''agent'', gr_taskId = ''task'',
     gr_grantedBy = ''op'',
     gr_grants = [\<lparr>gi_target = SurfaceTarget PaneKind ''p1'' 1, gi_capabilities = [PaneInput]\<rparr>],
     gr_ttlMs = 1000\<rparr>"

lemmas cap_eval =
  cap_grant_def live_previous_def cap_init_def make_lease_def Let_def demo_grant_def
  clamp_ttl_def AGENT_CONTROL_LIMITS_def assert_renewal_identity_def

lemma cap_store_invariant_witness:
  "cap_ok (cap_step (CGrant (\<lambda>_. 5) ''uuid'' demo_grant) (cap_init 7 None None))"
proof -
  have "cap_run (cap_init 7 None None) ([] @ [CGrant (\<lambda>_. 5) ''uuid'' demo_grant])
      (cap_step (CGrant (\<lambda>_. 5) ''uuid'' demo_grant) (cap_init 7 None None))"
    by (rule cap_run_snoc [OF cap_run_nil]) (simp add: cap_init_def)
  then show ?thesis by (rule cap_store_invariant)
qed

text \<open>
  Renewing a live lease keeps its identifier, grants, creation time, actor and task and
  raises its revision by one; the request must name the same set of target and capability
  pairs. After it, the old revision is refused and every other lease is as before.
\<close>
lemma cap_renewal:
  assumes "cap_ok s" and "jm_get (cs_leases s) i = Some p"
    and "gr_requestId input = cl_requestId p" and "clk 0 < cl_expiresAt p"
    and "cap_grant clk fresh input s = (Inr l, s')"
  shows "cl_id l = i \<and> cl_grants l = cl_grants p \<and> cl_createdAt l = cl_createdAt p \<and>
      cl_actorId l = cl_actorId p \<and> cl_taskId l = cl_taskId p \<and>
      cl_revision l = cl_revision p + 1 \<and>
      set (authority_keys (gr_grants input)) = set (authority_keys (cl_grants p)) \<and>
      (\<forall>a clk'. as_leaseId a = i \<and> as_revision a = cl_revision p \<longrightarrow> \<not> is_ok (fst (cap_assert clk' a s'))) \<and>
      (\<forall>j. j \<noteq> i \<longrightarrow> jm_get (cs_leases s') j = jm_get (cs_leases s) j)"
proof -
  have "live_previous clk (gr_requestId input) s = (Some p, s)"
    using assms cap_okD [OF assms(1,2)] by (simp add: live_previous_def truthy_string_def)
  with assms(5) have id: "assert_renewal_identity (cs_ownerEpoch s) p input = Inr ()"
    and l: "l = make_lease (clk 0) fresh (cs_ownerEpoch s) input (Some p)"
    and s': "cs_leases s' = jm_set (cl_id l) l (cs_leases s)"
    by (auto simp: cap_grant_def Let_def split: sum.splits)
  from l have l_id: "cl_id l = i" "cl_revision l = cl_revision p + 1"
    using cap_okD(1) [OF assms(1,2)] by (simp_all add: make_lease_def)
  moreover from id l have "cl_grants l = cl_grants p" "cl_createdAt l = cl_createdAt p"
    "cl_actorId l = cl_actorId p" "cl_taskId l = cl_taskId p"
    "set (authority_keys (gr_grants input)) = set (authority_keys (cl_grants p))"
    by (simp_all add: make_lease_def assert_renewal_identity_def grants_equal_iff)
  moreover have "\<not> is_ok (fst (cap_assert clk' a s'))"
    if "as_leaseId a = i \<and> as_revision a = cl_revision p" for a clk'
    using that l_id s' by (auto simp: cap_assert_def)
  ultimately show ?thesis using s' by simp
qed

lemma cap_renewal_witness:
  "let s = snd (cap_grant (\<lambda>_. 5) ''uuid'' demo_grant (cap_init 7 None None));
       (r, s') = cap_grant (\<lambda>_. 6) ''uuid2'' demo_grant s
   in \<exists>l. r = Inr l \<and> cl_id l = ''uuid'' \<and> cl_revision l = 2"
proof -
  let ?s = "snd (cap_grant (\<lambda>_. 5) ''uuid'' demo_grant (cap_init 7 None None))"
  let ?p = "make_lease 5 ''uuid'' 7 demo_grant None"
  let ?g = "cap_grant (\<lambda>_. 6) ''uuid2'' demo_grant ?s"
  let ?l = "make_lease 6 ''uuid2'' 7 demo_grant (Some ?p)"
  have ok: "cap_ok ?s" by (rule cap_ok_grant [OF cap_ok_init]) (simp_all add: cap_init_def)
  have p: "jm_get (cs_leases ?s) ''uuid'' = Some ?p" by (simp add: cap_eval)
  have "fst ?g = Inr ?l" by (simp add: cap_eval grants_equal_iff)
  then have g: "?g = (Inr ?l, snd ?g)" by (metis prod.collapse)
  have "cl_id ?l = ''uuid'' \<and> cl_revision ?l = cl_revision ?p + 1"
    using cap_renewal [OF ok p _ _ g]
    by (simp add: make_lease_def demo_grant_def clamp_ttl_def AGENT_CONTROL_LIMITS_def)
  then show ?thesis
    unfolding Let_def by (subst g) (simp add: make_lease_def)
qed

text \<open>
  C32. Once a target has been revoked, no assertion about it succeeds, whatever happens next,
  until a grant that names the target is made: the revocation is complete and lasting.
\<close>
theorem revoked_target_stays_revoked:
  assumes "cap_ok s" and "cap_run (snd (revoke_target clk t s)) ops s'"
    and "\<And>clk' fresh input. CGrant clk' fresh input \<in> set ops \<Longrightarrow>
           \<not> list_ex (\<lambda>g. gi_target g = t) (gr_grants input)"
    and "as_target a = t"
  shows "\<not> is_ok (fst (cap_assert clk'' a s'))"
proof -
  have ok0: "cap_ok (snd (revoke_target clk t s))"
    using cap_ok_withdraw [OF assms(1), of "WTarget clk t"] by simp
  have start: "\<not> lease_covers t l" if "jm_get (cs_leases (snd (revoke_target clk t s))) i = Some l" for i l
    using that by (auto simp: revoke_target_def invalidate_where_get [OF assms(1)] split: option.splits if_splits)
  have "cap_ok s' \<and> (\<forall>i l. jm_get (cs_leases s') i = Some l \<longrightarrow> \<not> lease_covers t l)"
    using assms(2,3) start
  proof (induction "snd (revoke_target clk t s)" ops s' rule: cap_run.induct)
    case cap_run_nil
    then show ?case using ok0 by blast
  next
    case (cap_run_snoc ops s1 op)
    then have IH: "cap_ok s1" "\<And>i l. jm_get (cs_leases s1) i = Some l \<Longrightarrow> \<not> lease_covers t l"
      by (auto simp del: fold_simps)
    have "\<not> lease_covers t l" if "jm_get (cs_leases (cap_step op s1)) i = Some l" for i l
    proof
      assume "lease_covers t l"
      with IH(1) that show False
      proof (cases rule: step_covers)
        case (old j l')
        with IH(2) show False by blast
      next
        case (granted clk' fresh input)
        with cap_run_snoc.prems(1) [of clk' fresh input] show False by simp
      qed
    qed
    with IH(1) cap_run_snoc.hyps(3) show ?case by (auto intro: cap_ok_step)
  qed
  with assms(4) show ?thesis
    using authorizes_covers by (fastforce simp: cap_assert_Inr elim!: is_okE)
qed

lemma revoked_target_stays_revoked_witness:
  "\<not> is_ok (fst (cap_assert (\<lambda>_. 6)
      \<lparr>as_leaseId = ''uuid'', as_revision = 1, as_ownerEpoch = 7, as_actorId = ''agent'',
       as_taskId = ''task'', as_target = SurfaceTarget PaneKind ''p1'' 1, as_capability = PaneInput\<rparr>
      (snd (revoke_target (\<lambda>_. 6) (SurfaceTarget PaneKind ''p1'' 1)
        (snd (cap_grant (\<lambda>_. 5) ''uuid'' demo_grant (cap_init 7 None None)))))))"
  by (rule revoked_target_stays_revoked [OF cap_ok_grant [OF cap_ok_init] cap_run_nil])
    (simp_all add: cap_init_def)

text \<open>
  A revoked (or released) lease identifier is dead: no run of the store brings a lease
  with that identifier back, not even a renewal of the same request, unless the identifier
  generator repeats it.
\<close>
lemma revoked_lease_stays_dead:
  assumes "cap_ok s" and "cap_run (snd (cap_revoke clk i s)) ops s'"
    and "\<And>clk' input. CGrant clk' i input \<notin> set ops"
  shows "cap_get i s' = None"
proof -
  have ok0: "cap_ok (snd (cap_revoke clk i s))"
    using cap_ok_withdraw [OF assms(1), of "WRevoke clk i"] by simp
  have "cap_ok s' \<and> jm_get (cs_leases s') i = None"
    using assms(2,3)
  proof (induction "snd (cap_revoke clk i s)" ops s' rule: cap_run.induct)
    case cap_run_nil
    then show ?case using ok0 by (simp add: cap_revoke_def)
  next
    case (cap_run_snoc ops s1 op)
    then have IH: "cap_ok s1" "jm_get (cs_leases s1) i = None" by auto
    have "jm_get (cs_leases (cap_step op s1)) i \<noteq> Some l" for l
    proof
      assume "jm_get (cs_leases (cap_step op s1)) i = Some l"
      from step_leases [OF IH(1) this] IH(2) obtain clk' fresh input where
        g: "op = CGrant clk' fresh input" "cl_id l = i" "fst (cap_grant clk' fresh input s1) = Inr l"
        by auto
      with granted_lease(1) [OF IH(1) g(3)] IH(2) have "fresh = i" by auto
      with g(1) cap_run_snoc.prems [of clk' input] show False by simp
    qed
    with IH(1) cap_run_snoc.hyps(3) show ?case by (auto intro: cap_ok_step)
  qed
  then show ?thesis by (simp add: cap_get_def)
qed

lemma revoked_lease_stays_dead_witness:
  "cap_get ''uuid'' (cap_step (CGrant (\<lambda>_. 9) ''uuid2'' demo_grant)
     (snd (cap_revoke (\<lambda>_. 6) ''uuid''
       (snd (cap_grant (\<lambda>_. 5) ''uuid'' demo_grant (cap_init 7 None None)))))) = None"
proof -
  let ?s = "snd (cap_grant (\<lambda>_. 5) ''uuid'' demo_grant (cap_init 7 None None))"
  let ?op = "CGrant (\<lambda>_. 9) ''uuid2'' demo_grant"
  have ok: "cap_ok ?s" by (rule cap_ok_grant [OF cap_ok_init]) (simp_all add: cap_init_def)
  have "cap_run (snd (cap_revoke (\<lambda>_. 6) ''uuid'' ?s)) ([] @ [?op])
      (cap_step ?op (snd (cap_revoke (\<lambda>_. 6) ''uuid'' ?s)))"
    by (rule cap_run_snoc [OF cap_run_nil]) (simp add: cap_revoke_def cap_eval)
  then show ?thesis by (rule revoked_lease_stays_dead [OF ok]) simp
qed



text \<open>
  Revoking a live lease returns it, removes it, and leaves it as the newest entry of the
  history with the time it ended, whenever the history keeps anything and the second clock
  reading is within the history's time to live of the first.
\<close>
theorem revocation_recorded:
  assumes "jm_get (cs_leases s) i = Some l" and "0 < cs_historyLimit s"
    and "clk 1 - cs_historyTtl s \<le> clk 0"
  shows "fst (cap_revoke clk i s) = Some l \<and> cap_get i (snd (cap_revoke clk i s)) = None \<and>
    (\<exists>older. suffix older (cs_history s) \<and> cs_history (snd (cap_revoke clk i s)) =
       older @ [\<lparr>he_lease = l, he_status = EndRevoked, he_endedAt = clk 0\<rparr>])"
proof -
  let ?e = "\<lparr>he_lease = l, he_status = EndRevoked, he_endedAt = clk 0\<rparr>"
  let ?c = "clk 1 - cs_historyTtl s"
  have "\<exists>older. suffix older es \<and> prune_entries (cs_historyLimit s) ?c (es @ [?e]) = older @ [?e]" for es
  proof (induction es)
    case Nil
    with assms(2,3) show ?case by simp
  next
    case (Cons e es)
    then show ?case by (auto simp: suffix_Cons)
  qed
  with assms(1) show ?thesis
    by (simp add: cap_revoke_def cap_get_def invalidate_def prune_history_def)
qed

lemma revocation_recorded_witness:
  "\<exists>l. fst (cap_revoke (\<lambda>_. 6) ''uuid''
     (snd (cap_grant (\<lambda>_. 5) ''uuid'' demo_grant (cap_init 7 None None)))) = Some l \<and> cl_id l = ''uuid''"
proof -
  let ?s = "snd (cap_grant (\<lambda>_. 5) ''uuid'' demo_grant (cap_init 7 None None))"
  have "jm_get (cs_leases ?s) ''uuid'' = Some (make_lease 5 ''uuid'' 7 demo_grant None)"
    by (simp add: cap_eval)
  from revocation_recorded [OF this, of "\<lambda>_. 6"] show ?thesis
    by (simp add: cap_eval CAPABILITY_LEASE_HISTORY_LIMIT_def CAPABILITY_LEASE_HISTORY_TTL_MS_def)
qed

end
