(* ===== verification/Surfaces.thy ===== *)
theory Surfaces
  imports ControlTypes
begin

text \<open>
  The surface registry (\<open>src/src/control/surfaces.ts\<close>): panes and browser tabs by id, each
  with a generation that rises whenever the id comes to mean another resource.

  The payload fields the registry only carries (titles, urls, roots, \<dots>) are kept in the
  records; \<open>generation\<close> and \<open>kind\<close> of an input are ignored by the code and are not part of
  the input records here.
\<close>

record pane_input =
  pi_id :: string
  pi_projectRoot :: string
  pi_worktreeRoot :: string
  pi_tmuxPaneId :: string
  pi_title :: "string option"
  pi_agent :: "string option"
  pi_writable :: bool
  pi_outputSequence :: nat

record browser_input =
  bi_id :: string
  bi_projectRoot :: string
  bi_worktreeRoot :: string
  bi_providerId :: string
  bi_webviewLabel :: string
  bi_url :: string
  bi_title :: string
  bi_loading :: bool
  bi_viewport :: "int \<times> int"

datatype surface =
    PaneSurface (surface_generation: nat) (pane_of: pane_input)
  | BrowserTabSurface (surface_generation: nat) (tab_of: browser_input)

fun surface_id :: "surface \<Rightarrow> string" where
  "surface_id (PaneSurface g p) = pi_id p"
| "surface_id (BrowserTabSurface g b) = bi_id b"

fun surface_kind_of :: "surface \<Rightarrow> surface_kind" where
  "surface_kind_of (PaneSurface g p) = PaneKind"
| "surface_kind_of (BrowserTabSurface g b) = BrowserTabKind"

fun surface_project :: "surface \<Rightarrow> string" where
  "surface_project (PaneSurface g p) = pi_projectRoot p"
| "surface_project (BrowserTabSurface g b) = bi_projectRoot b"

record surface_registry =
  sr_resources :: "(string, surface) jsmap"
  sr_generations :: "(string, nat) jsmap"

datatype surface_error = ResourceMissing | ResourceReplaced

definition surface_init :: surface_registry where
  "surface_init = \<lparr>sr_resources = [], sr_generations = []\<rparr>"

text \<open>What ties an id to a resource: the tmux pane, or the provider and its webview.\<close>

fun pane_rebinds :: "surface \<Rightarrow> pane_input \<Rightarrow> bool" where
  "pane_rebinds (PaneSurface g p) input = (pi_tmuxPaneId p \<noteq> pi_tmuxPaneId input)"
| "pane_rebinds (BrowserTabSurface g b) input = True"

fun tab_rebinds :: "surface \<Rightarrow> browser_input \<Rightarrow> bool" where
  "tab_rebinds (PaneSurface g p) input = True"
| "tab_rebinds (BrowserTabSurface g b) input =
     (bi_providerId b \<noteq> bi_providerId input \<or> bi_webviewLabel b \<noteq> bi_webviewLabel input)"

definition last_generation :: "surface_registry \<Rightarrow> string \<Rightarrow> nat" where
  "last_generation r i = (case jm_get (sr_generations r) i of None \<Rightarrow> 0 | Some g \<Rightarrow> g)"

definition store_surface :: "surface \<Rightarrow> surface_registry \<Rightarrow> surface_registry" where
  "store_surface s r = r\<lparr>sr_resources := jm_set (surface_id s) s (sr_resources r),
     sr_generations := jm_set (surface_id s) (surface_generation s) (sr_generations r)\<rparr>"

definition upsert_pane :: "pane_input \<Rightarrow> surface_registry \<Rightarrow> surface \<times> surface_registry" where
  "upsert_pane input r =
    (let generation = (case jm_get (sr_resources r) (pi_id input) of
           Some previous \<Rightarrow> surface_generation previous + (if pane_rebinds previous input then 1 else 0)
         | None \<Rightarrow> last_generation r (pi_id input) + 1);
         resource = PaneSurface generation input
     in (resource, store_surface resource r))"

definition upsert_browser_tab :: "browser_input \<Rightarrow> surface_registry \<Rightarrow> surface \<times> surface_registry" where
  "upsert_browser_tab input r =
    (let generation = (case jm_get (sr_resources r) (bi_id input) of
           Some previous \<Rightarrow> surface_generation previous + (if tab_rebinds previous input then 1 else 0)
         | None \<Rightarrow> last_generation r (bi_id input) + 1);
         resource = BrowserTabSurface generation input
     in (resource, store_surface resource r))"

definition require_surface :: "string \<Rightarrow> nat \<Rightarrow> surface_registry \<Rightarrow> (surface_error, surface) result" where
  "require_surface i generation r =
    (case jm_get (sr_resources r) i of
       None \<Rightarrow> Inl ResourceMissing
     | Some resource \<Rightarrow>
         throw_if (surface_generation resource \<noteq> generation) ResourceReplaced (Inr resource))"

definition get_surface :: "string \<Rightarrow> surface_registry \<Rightarrow> surface option" where
  "get_surface i r = jm_get (sr_resources r) i"

definition list_surfaces :: "surface_registry \<Rightarrow> surface list" where
  "list_surfaces r = jm_values (sr_resources r)"

definition remove_surface :: "string \<Rightarrow> surface_registry \<Rightarrow> surface option \<times> surface_registry" where
  "remove_surface i r =
    (case jm_get (sr_resources r) i of
       None \<Rightarrow> (None, r)
     | Some resource \<Rightarrow> (Some resource, r\<lparr>sr_resources := jm_delete i (sr_resources r)\<rparr>))"

fun provided_by :: "string \<Rightarrow> surface \<Rightarrow> bool" where
  "provided_by providerId (PaneSurface g p) = False"
| "provided_by providerId (BrowserTabSurface g b) = (bi_providerId b = providerId)"

definition remove_by_provider :: "string \<Rightarrow> surface_registry \<Rightarrow> surface list \<times> surface_registry" where
  "remove_by_provider providerId r =
    (let removed = filter (\<lambda>(i, s). provided_by providerId s) (sr_resources r)
     in (map snd removed,
         r\<lparr>sr_resources := fold jm_delete (map fst removed) (sr_resources r)\<rparr>))"

datatype surface_op =
    UpsertPane pane_input
  | UpsertTab browser_input
  | RemoveSurface string
  | RemoveByProvider string

fun surface_step :: "surface_op \<Rightarrow> surface_registry \<Rightarrow> surface_registry" where
  "surface_step (UpsertPane input) r = snd (upsert_pane input r)"
| "surface_step (UpsertTab input) r = snd (upsert_browser_tab input r)"
| "surface_step (RemoveSurface i) r = snd (remove_surface i r)"
| "surface_step (RemoveByProvider p) r = snd (remove_by_provider p r)"

section \<open>The invariant\<close>

text \<open>
  Keys are the ids of their resources, and the generation recorded for an id, which survives
  the removal of the resource, is the generation of the resource it names.
\<close>

definition surface_ok :: "surface_registry \<Rightarrow> bool" where
  "surface_ok r \<longleftrightarrow> jm_ok (sr_resources r) \<and> jm_ok (sr_generations r) \<and>
     (\<forall>i s. jm_get (sr_resources r) i = Some s \<longrightarrow>
        surface_id s = i \<and> surface_generation s = last_generation r i \<and> 0 < surface_generation s)"

lemma surface_ok_init: "surface_ok surface_init"
  by (simp add: surface_ok_def surface_init_def)

lemma surface_okD:
  assumes "surface_ok r" and "jm_get (sr_resources r) i = Some s"
  shows "surface_id s = i" "surface_generation s = last_generation r i" "0 < surface_generation s"
  using assms unfolding surface_ok_def by blast+

lemma surface_ok_maps: "surface_ok r \<Longrightarrow> jm_ok (sr_resources r)" "surface_ok r \<Longrightarrow> jm_ok (sr_generations r)"
  by (simp_all only: surface_ok_def)

lemma store_surface_simps:
  "jm_get (sr_resources (store_surface s r)) i =
     (if i = surface_id s then Some s else jm_get (sr_resources r) i)"
  "last_generation (store_surface s r) i =
     (if i = surface_id s then surface_generation s else last_generation r i)"
  by (auto simp: store_surface_def last_generation_def)

lemma surface_ok_store:
  assumes "surface_ok r" and "0 < surface_generation s"
  shows "surface_ok (store_surface s r)"
proof -
  have "jm_ok (sr_resources (store_surface s r))" "jm_ok (sr_generations (store_surface s r))"
    using assms(1) by (simp_all add: store_surface_def surface_ok_def)
  then show ?thesis
    using surface_okD [OF assms(1)] assms(2)
    unfolding surface_ok_def by (auto simp: store_surface_simps split: if_splits)
qed

text \<open>The generation an upsert stores, in terms of the recorded one.\<close>

lemma upsert_pane_eq:
  assumes "surface_ok r"
  obtains g where "upsert_pane input r = (PaneSurface g input, store_surface (PaneSurface g input) r)"
    "last_generation r (pi_id input) \<le> g" "0 < g"
  using surface_okD [OF assms] that
  by (cases "jm_get (sr_resources r) (pi_id input)") (auto simp: upsert_pane_def Let_def)

lemma upsert_tab_eq:
  assumes "surface_ok r"
  obtains g where "upsert_browser_tab input r =
      (BrowserTabSurface g input, store_surface (BrowserTabSurface g input) r)"
    "last_generation r (bi_id input) \<le> g" "0 < g"
  using surface_okD [OF assms] that
  by (cases "jm_get (sr_resources r) (bi_id input)") (auto simp: upsert_browser_tab_def Let_def)

lemma remove_by_provider_get:
  "surface_ok r \<Longrightarrow> jm_get (sr_resources (snd (remove_by_provider p r))) i =
     (case jm_get (sr_resources r) i of None \<Rightarrow> None
      | Some s \<Rightarrow> if provided_by p s then None else Some s)"
proof -
  assume ok: "surface_ok r"
  let ?ids = "map fst (filter (\<lambda>(i, s). provided_by p s) (sr_resources r))"
  have "i \<in> set ?ids \<longleftrightarrow> (\<exists>s. (i, s) \<in> set (sr_resources r) \<and> provided_by p s)"
    by (auto simp: image_iff)
  also have "\<dots> \<longleftrightarrow> (\<exists>s. jm_get (sr_resources r) i = Some s \<and> provided_by p s)"
    by (simp add: jm_in_set_iff [OF surface_ok_maps(1) [OF ok]])
  finally have hit: "i \<in> set ?ids \<longleftrightarrow> (\<exists>s. jm_get (sr_resources r) i = Some s \<and> provided_by p s)" .
  have "jm_get (sr_resources (snd (remove_by_provider p r))) i =
      (if i \<in> set ?ids then None else jm_get (sr_resources r) i)"
    by (simp add: remove_by_provider_def Let_def jm.get_del_all [OF surface_ok_maps(1) [OF ok], unfolded jm.del_all_def]
        del: set_map set_filter)
  then show ?thesis unfolding hit by (simp split: option.splits)
qed

lemma removal_simps [simp]:
  "last_generation (snd (remove_surface i r)) j = last_generation r j"
  "last_generation (snd (remove_by_provider p r)) j = last_generation r j"
  "sr_generations (snd (remove_surface i r)) = sr_generations r"
  "sr_generations (snd (remove_by_provider p r)) = sr_generations r"
  by (auto simp: remove_surface_def remove_by_provider_def last_generation_def Let_def split: option.splits)

lemma remove_surface_get:
  "jm_get (sr_resources (snd (remove_surface i r))) j =
     (if j = i then None else jm_get (sr_resources r) j)"
  by (auto simp: remove_surface_def split: option.splits)

lemma surface_ok_remove:
  assumes "surface_ok r"
  shows "surface_ok (snd (remove_surface i r))"
proof -
  have "jm_ok (sr_resources (snd (remove_surface i r)))"
    by (simp add: remove_surface_def surface_ok_maps [OF assms] split: option.splits)
  then show ?thesis
    using assms surface_okD [OF assms] unfolding surface_ok_def
    by (auto simp: remove_surface_get split: if_splits)
qed

lemma surface_ok_remove_provider:
  assumes "surface_ok r"
  shows "surface_ok (snd (remove_by_provider p r))"
proof -
  have "jm_ok (sr_resources (snd (remove_by_provider p r)))"
    by (simp add: remove_by_provider_def Let_def jm.ok_del_all [unfolded jm.del_all_def] surface_ok_maps [OF assms])
  then show ?thesis
    using assms surface_okD [OF assms] unfolding surface_ok_def
    by (auto simp: remove_by_provider_get [OF assms] split: option.splits if_splits)
qed

lemma surface_ok_step: "surface_ok r \<Longrightarrow> surface_ok (surface_step op r)"
proof (cases op)
  case (UpsertPane input)
  assume ok: "surface_ok r"
  show ?thesis using UpsertPane ok
    by (cases rule: upsert_pane_eq [OF ok, where input = input]) (simp add: surface_ok_store)
next
  case (UpsertTab input)
  assume ok: "surface_ok r"
  show ?thesis using UpsertTab ok
    by (cases rule: upsert_tab_eq [OF ok, where input = input]) (simp add: surface_ok_store)
qed (simp_all add: surface_ok_remove surface_ok_remove_provider)

lemma last_generation_step: "surface_ok r \<Longrightarrow> last_generation r i \<le> last_generation (surface_step op r) i"
proof (cases op)
  case (UpsertPane input)
  assume ok: "surface_ok r"
  show ?thesis using UpsertPane
    by (cases rule: upsert_pane_eq [OF ok, where input = input]) (simp add: store_surface_simps)
next
  case (UpsertTab input)
  assume ok: "surface_ok r"
  show ?thesis using UpsertTab
    by (cases rule: upsert_tab_eq [OF ok, where input = input]) (simp add: store_surface_simps)
qed simp_all

definition surface_honoured :: "surface_registry \<Rightarrow> string \<Rightarrow> nat \<Rightarrow> bool" where
  "surface_honoured r i g \<longleftrightarrow> is_ok (require_surface i g r)"

lemma require_surface_Inr:
  "require_surface i g r = Inr s \<longleftrightarrow> jm_get (sr_resources r) i = Some s \<and> surface_generation s = g"
  by (auto simp: require_surface_def split: option.splits)

lemma surface_honoured_current: "surface_ok r \<Longrightarrow> surface_honoured r i g \<Longrightarrow> g = last_generation r i"
  by (auto simp: surface_honoured_def require_surface_Inr surface_okD elim!: is_okE)

interpretation surf: fencing surface_ok surface_step last_generation surface_honoured
  by unfold_locales (simp_all add: surface_ok_step last_generation_step surface_honoured_current)

section \<open>Properties\<close>


definition demo_pane :: "string \<Rightarrow> pane_input" where
  "demo_pane tmux = \<lparr>pi_id = ''p1'', pi_projectRoot = ''/w'', pi_worktreeRoot = ''/w'',
     pi_tmuxPaneId = tmux, pi_title = None, pi_agent = None, pi_writable = True, pi_outputSequence = 0\<rparr>"

lemmas surface_eval =
  upsert_pane_def upsert_browser_tab_def store_surface_def last_generation_def surface_init_def
  demo_pane_def Let_def require_surface_def remove_surface_def


text \<open>
  Registering a pane again raises its generation exactly when the id was absent, named a
  browser tab, or was bound to another tmux pane; otherwise references stay valid. The new
  reference is honoured and other ids are untouched.
\<close>
theorem upsert_pane_generation:
  assumes "surface_ok r" and "upsert_pane input r = (s, r')"
  shows "surface_generation s = last_generation r (pi_id input) +
      (case get_surface (pi_id input) r of
         Some (PaneSurface _ p) \<Rightarrow> if pi_tmuxPaneId p = pi_tmuxPaneId input then 0 else 1
       | _ \<Rightarrow> 1) \<and>
    require_surface (pi_id input) (surface_generation s) r' = Inr s \<and>
    (\<forall>i g. i \<noteq> pi_id input \<longrightarrow> require_surface i g r' = require_surface i g r)"
proof -
  from assms(2) have s: "s = PaneSurface (surface_generation s) input" and r': "r' = store_surface s r"
    by (auto simp: upsert_pane_def Let_def)
  have id: "surface_id s = pi_id input" by (subst s) simp
  have "surface_generation s = last_generation r (pi_id input) +
      (case get_surface (pi_id input) r of
         Some (PaneSurface _ p) \<Rightarrow> if pi_tmuxPaneId p = pi_tmuxPaneId input then 0 else 1
       | _ \<Rightarrow> 1)"
    using assms(2) surface_okD(2) [OF assms(1), of "pi_id input"]
    by (auto simp: upsert_pane_def Let_def get_surface_def split: option.splits surface.splits)
  moreover have "require_surface (pi_id input) (surface_generation s) r' = Inr s"
    by (simp add: require_surface_Inr r' store_surface_simps id)
  moreover have "require_surface i g r' = require_surface i g r" if "i \<noteq> pi_id input" for i g
    using that by (simp add: require_surface_def r' store_surface_simps id)
  ultimately show ?thesis by blast
qed

lemma upsert_pane_generation_witness:
  "fst (upsert_pane (demo_pane ''%1'') surface_init) = PaneSurface 1 (demo_pane ''%1'')"
proof -
  let ?u = "upsert_pane (demo_pane ''%1'') surface_init"
  have "surface_generation (fst ?u) = 1"
    using upsert_pane_generation [OF surface_ok_init, of "demo_pane ''%1''" "fst ?u" "snd ?u"]
    by (simp add: last_generation_def get_surface_def surface_init_def)
  then show ?thesis by (simp add: upsert_pane_def Let_def)
qed

text \<open>
  When a browser provider goes away, its tabs and only its tabs leave the registry: the
  returned list is the tabs it provided, in registration order, and every other surface can
  still be required as before.
\<close>
theorem remove_by_provider_exact:
  assumes "surface_ok r" and "remove_by_provider p r = (removed, r')"
  shows "removed = filter (provided_by p) (list_surfaces r) \<and>
    (\<forall>i. get_surface i r' =
       (case get_surface i r of None \<Rightarrow> None | Some s \<Rightarrow> if provided_by p s then None else Some s))"
proof -
  from assms(2) have "removed = map snd (filter (\<lambda>(i, s). provided_by p s) (sr_resources r))"
    and r': "r' = snd (remove_by_provider p r)"
    by (auto simp: remove_by_provider_def Let_def)
  then have "removed = filter (provided_by p) (list_surfaces r)"
    by (simp add: list_surfaces_def filter_map comp_def case_prod_unfold)
  with r' remove_by_provider_get [OF assms(1)] show ?thesis by (simp add: get_surface_def)
qed

lemma remove_by_provider_exact_witness:
  "fst (remove_by_provider ''prov'' (surface_step (UpsertPane (demo_pane ''%1'')) surface_init)) = []"
proof -
  let ?r = "surface_step (UpsertPane (demo_pane ''%1'')) surface_init"
  have "surface_ok ?r" by (intro surface_ok_step surface_ok_init)
  from remove_by_provider_exact [OF this, of "''prov''" "fst (remove_by_provider ''prov'' ?r)" "snd (remove_by_provider ''prov'' ?r)"]
  show ?thesis by (simp add: surface_eval list_surfaces_def)
qed

end
