(* ===== verification/JsValues.thy ===== *)
theory JsValues
  imports Prelude
begin

text \<open>
  JavaScript values as the code inspects them at run time: what \<open>typeof\<close>, the property
  reads and the key checks of the control plane can see. A \<open>JsObj\<close> is a plain data object
  (own enumerable string-keyed data properties only); \<open>JsBranded\<close> is an object in a module's
  private \<open>WeakSet\<close>; \<open>JsOpaque\<close> is any other object or function. Numbers are integers
  (\<open>JsInt\<close>) or not (\<open>JsFrac\<close>); the code never computes with the latter.
\<close>

datatype 'b jsval =
    JsUndef | JsNull | JsBool bool | JsInt int | JsFrac | JsStr string
  | JsArr "'b jsval list" | JsObj "(string \<times> 'b jsval) list" | JsBranded 'b | JsOpaque

text \<open>Reading a property that is absent gives \<open>undefined\<close>.\<close>

definition js_get :: "(string \<times> 'b jsval) list \<Rightarrow> string \<Rightarrow> 'b jsval" where
  "js_get obj k = (case map_of obj k of None \<Rightarrow> JsUndef | Some v \<Rightarrow> v)"

definition MAX_SAFE_INTEGER :: int where
  "MAX_SAFE_INTEGER = 2 ^ 53 - 1"

fun is_safe_integer :: "'b jsval \<Rightarrow> bool" where
  "is_safe_integer (JsInt i) = (\<bar>i\<bar> \<le> MAX_SAFE_INTEGER)"
| "is_safe_integer _ = False"

fun is_nonempty_string :: "'b jsval \<Rightarrow> bool" where
  "is_nonempty_string (JsStr s) = (s \<noteq> [])"
| "is_nonempty_string _ = False"

fun js_string :: "'b jsval \<Rightarrow> string" where
  "js_string (JsStr s) = s" | "js_string _ = []"

fun js_int :: "'b jsval \<Rightarrow> int" where
  "js_int (JsInt i) = i" | "js_int _ = 0"

lemma is_nonempty_string_iff: "is_nonempty_string v \<longleftrightarrow> (\<exists>s. v = JsStr s \<and> s \<noteq> [])"
  by (cases v) auto

lemma js_get_simps [simp]:
  "js_get [] k = JsUndef"
  "js_get ((k', v) # obj) k = (if k = k' then v else js_get obj k)"
  by (simp_all add: js_get_def)

section \<open>White space\<close>

text \<open>
  \<open>String.prototype.trim\<close> on UTF-8 bytes: the length in bytes of the white space character
  (or line terminator) at the start, 0 when there is none.
\<close>

definition wide_spaces :: "string list" where
  "wide_spaces =
    [[CHR 0xC2, CHR 0xA0], [CHR 0xE1, CHR 0x9A, CHR 0x80],
     [CHR 0xE2, CHR 0x80, CHR 0x80], [CHR 0xE2, CHR 0x80, CHR 0x81], [CHR 0xE2, CHR 0x80, CHR 0x82],
     [CHR 0xE2, CHR 0x80, CHR 0x83], [CHR 0xE2, CHR 0x80, CHR 0x84], [CHR 0xE2, CHR 0x80, CHR 0x85],
     [CHR 0xE2, CHR 0x80, CHR 0x86], [CHR 0xE2, CHR 0x80, CHR 0x87], [CHR 0xE2, CHR 0x80, CHR 0x88],
     [CHR 0xE2, CHR 0x80, CHR 0x89], [CHR 0xE2, CHR 0x80, CHR 0x8A], [CHR 0xE2, CHR 0x80, CHR 0xA8],
     [CHR 0xE2, CHR 0x80, CHR 0xA9], [CHR 0xE2, CHR 0x80, CHR 0xAF], [CHR 0xE2, CHR 0x81, CHR 0x9F],
     [CHR 0xE3, CHR 0x80, CHR 0x80], [CHR 0xEF, CHR 0xBB, CHR 0xBF]]"

definition ascii_space :: "char \<Rightarrow> bool" where
  "ascii_space c \<longleftrightarrow> (let n = (of_char c :: nat) in n = 32 \<or> 9 \<le> n \<and> n \<le> 13)"

definition space_length :: "string \<Rightarrow> nat" where
  "space_length s =
    (case s of [] \<Rightarrow> 0
     | c # _ \<Rightarrow> if ascii_space c then 1
               else (case find (\<lambda>w. prefix w s) wide_spaces of None \<Rightarrow> 0 | Some w \<Rightarrow> length w))"

function trim_start :: "string \<Rightarrow> string" where
  "trim_start s = (if space_length s = 0 then s else trim_start (drop (space_length s) s))"
  by auto
termination
proof (relation "measure length")
  fix s assume n: "space_length s \<noteq> 0"
  then have "s \<noteq> []" by (intro notI) (simp add: space_length_def)
  with n show "(drop (space_length s) s, s) \<in> measure length" by simp
qed simp

declare trim_start.simps [simp del]

text \<open>\<open>s.trim().length === 0\<close>.\<close>

definition js_blank :: "string \<Rightarrow> bool" where
  "js_blank s \<longleftrightarrow> trim_start s = []"

lemma js_blank_Nil [simp]: "js_blank []"
  unfolding js_blank_def by (subst trim_start.simps) (simp add: space_length_def)

lemma trim_start_visible: "space_length s = 0 \<Longrightarrow> trim_start s = s"
  by (subst trim_start.simps) simp

section \<open>Shape checks\<close>

text \<open>
  \<open>assertAllowedKeys\<close> and \<open>assertExactKeys\<close> of \<open>approvals.ts\<close>: the object must be a plain data
  object whose keys are the required ones plus at most the optional ones.
\<close>

definition plain_members :: "'e \<Rightarrow> 'b jsval \<Rightarrow> ('e, (string \<times> 'b jsval) list) result" where
  "plain_members err v = (case v of JsObj ms \<Rightarrow> Inr ms | _ \<Rightarrow> Inl err)"

definition assert_allowed_keys ::
  "'e \<Rightarrow> string list \<Rightarrow> string list \<Rightarrow> 'b jsval \<Rightarrow> ('e, (string \<times> 'b jsval) list) result"
where
  "assert_allowed_keys err required optional v =
    and_then (plain_members err v) (\<lambda>ms.
      throw_if (list_ex (\<lambda>k. k \<notin> set (required @ optional)) (map fst ms) \<or>
                list_ex (\<lambda>k. k \<notin> set (map fst ms)) required) err
      (Inr ms))"

definition assert_exact_keys ::
  "'e \<Rightarrow> string list \<Rightarrow> 'b jsval \<Rightarrow> ('e, (string \<times> 'b jsval) list) result"
where
  "assert_exact_keys err expected v =
    and_then (plain_members err v) (\<lambda>ms.
      throw_if (sort (map fst ms) \<noteq> sort expected) err (Inr ms))"

lemma assert_allowed_keysE:
  assumes "assert_allowed_keys err required optional v = Inr ms"
  obtains "v = JsObj ms" "fst ` set ms \<subseteq> set required \<union> set optional" "set required \<subseteq> fst ` set ms"
proof
  from assms show v: "v = JsObj ms"
    by (cases v) (auto simp: assert_allowed_keys_def plain_members_def)
  from assms v have "\<not> list_ex (\<lambda>k. k \<notin> set (required @ optional)) (map fst ms)"
    "\<not> list_ex (\<lambda>k. k \<notin> set (map fst ms)) required"
    by (simp_all add: assert_allowed_keys_def plain_members_def del: set_append list_ex_iff)
  then show "fst ` set ms \<subseteq> set required \<union> set optional" "set required \<subseteq> fst ` set ms"
    by (auto simp: list_ex_iff)
qed

end
