(* ===== verification/Json.thy ===== *)
theory Json
  imports Prelude
begin

text \<open>
  JSON values and the part of \<open>JSON.stringify\<close> the code relies on: no white space, members
  in the order of the object, strings escaped as ECMAScript prescribes. Numbers are the
  integers the code serialises. The main result is that the text determines the value.
\<close>

datatype json =
    JNull
  | JBool bool
  | JNum int
  | JStr string
  | JArr "json list"
  | JObj "(string \<times> json) list"

section \<open>Rendering\<close>

definition hex_digit :: "nat \<Rightarrow> char" where
  "hex_digit n = (if n < 10 then char_of (48 + n) else char_of (87 + n))"

definition escape_char :: "char \<Rightarrow> string" where
  "escape_char c =
    (let n = (of_char c :: nat) in
     if n = 34 then [CHR 0x5C, CHR 0x22]
     else if n = 92 then [CHR 0x5C, CHR 0x5C]
     else if n = 8 then [CHR 0x5C, CHR ''b'']
     else if n = 9 then [CHR 0x5C, CHR ''t'']
     else if n = 10 then [CHR 0x5C, CHR ''n'']
     else if n = 12 then [CHR 0x5C, CHR ''f'']
     else if n = 13 then [CHR 0x5C, CHR ''r'']
     else if n < 32 then [CHR 0x5C, CHR ''u'', CHR ''0'', CHR ''0'', hex_digit (n div 16), hex_digit (n mod 16)]
     else [c])"

definition quote :: "string \<Rightarrow> string" where
  "quote s = CHR 0x22 # concat (map escape_char s) @ [CHR 0x22]"

fun show_nat :: "nat \<Rightarrow> string" where
  "show_nat n = (if n < 10 then [char_of (48 + n)] else show_nat (n div 10) @ [char_of (48 + n mod 10)])"

declare show_nat.simps [simp del]

definition show_int :: "int \<Rightarrow> string" where
  "show_int i = (if i < 0 then CHR ''-'' # show_nat (nat (- i)) else show_nat (nat i))"

definition commas :: "string list \<Rightarrow> string" where
  "commas ss = (case ss of [] \<Rightarrow> [] | s # ss' \<Rightarrow> s @ concat (map (\<lambda>t. CHR '','' # t) ss'))"

fun stringify :: "json \<Rightarrow> string" where
  "stringify JNull = ''null''"
| "stringify (JBool b) = (if b then ''true'' else ''false'')"
| "stringify (JNum i) = show_int i"
| "stringify (JStr s) = quote s"
| "stringify (JArr xs) = CHR ''['' # commas (map stringify xs) @ '']''"
| "stringify (JObj ms) = CHR ''{'' # commas (map (\<lambda>(k, v). quote k @ CHR '':'' # stringify v) ms) @ ''}''"

text \<open>\<open>sortObjectKeys\<close> and \<open>stableKeyJson\<close> of \<open>src/src/control/approvals.ts\<close>.\<close>

fun sort_object_keys :: "json \<Rightarrow> json" where
  "sort_object_keys (JArr xs) = JArr (map sort_object_keys xs)"
| "sort_object_keys (JObj ms) = JObj (sort_key fst (map (\<lambda>(k, v). (k, sort_object_keys v)) ms))"
| "sort_object_keys j = j"

definition stable_key_json :: "json \<Rightarrow> string" where
  "stable_key_json j = stringify (sort_object_keys j)"

section \<open>Unique readability\<close>

text \<open>A decoder for one escaped character shows that the escapes are a prefix code.\<close>

definition unhex :: "char \<Rightarrow> nat" where
  "unhex c = (if of_char c < (58::nat) then of_char c - 48 else of_char c - 87)"

fun unescape :: "string \<Rightarrow> (char \<times> string) option" where
  "unescape [] = None"
| "unescape (x # xs) =
    (if x \<noteq> CHR 0x5C then Some (x, xs)
     else case xs of [] \<Rightarrow> None | y # ys \<Rightarrow>
       (if y = CHR ''b'' then Some (char_of (8::nat), ys)
        else if y = CHR ''t'' then Some (char_of (9::nat), ys)
        else if y = CHR ''n'' then Some (char_of (10::nat), ys)
        else if y = CHR ''f'' then Some (char_of (12::nat), ys)
        else if y = CHR ''r'' then Some (char_of (13::nat), ys)
        else if y = CHR ''u'' then Some (char_of (16 * unhex (ys ! 2) + unhex (ys ! 3)), drop 4 ys)
        else Some (y, ys)))"

lemma char_code_iff: "of_char c = n \<longleftrightarrow> n < 256 \<and> c = char_of (n::nat)"
  by (metis char_of_mod_256 mod_less of_char_mod_256 of_char_of char_of_char mod_less_divisor zero_less_numeral)

lemma unhex_hex_digit: "n < 16 \<Longrightarrow> unhex (hex_digit n) = n"
  by (simp add: unhex_def hex_digit_def)

lemma quote_chars: "char_of (34::nat) = CHR 0x22" "char_of (92::nat) = CHR 0x5C"
  using char_of_char [of "CHR 0x22", where 'a = nat] char_of_char [of "CHR 0x5C", where 'a = nat] by simp_all

lemma unescape_escape: "unescape (escape_char c @ r) = Some (c, r)"
proof -
  let ?n = "of_char c :: nat"
  have c: "c = char_of ?n" by simp
  show ?thesis
  proof (cases "?n \<in> {8, 9, 10, 12, 13, 34, 92}")
    case True
    then have "c \<in> char_of ` {8::nat, 9, 10, 12, 13, 34, 92}" using c by (metis imageI)
    then consider "c = char_of (8::nat)" | "c = char_of (9::nat)" | "c = char_of (10::nat)"
      | "c = char_of (12::nat)" | "c = char_of (13::nat)" | "c = CHR 0x22" | "c = CHR 0x5C"
      using quote_chars by auto
    then show ?thesis by cases (simp_all add: escape_char_def)
  next
    case False
    show ?thesis
    proof (cases "?n < 32")
      case True
      with False have "escape_char c = [CHR 0x5C, CHR ''u'', CHR ''0'', CHR ''0'', hex_digit (?n div 16), hex_digit (?n mod 16)]"
        by (simp add: escape_char_def Let_def)
      moreover have "16 * (?n div 16) + ?n mod 16 = ?n" by simp
      moreover have "?n div 16 < 16" using True by (intro less_mult_imp_div_less) simp
      ultimately show ?thesis using c by (simp add: unhex_hex_digit)
    next
      case high: False
      with False have "escape_char c = [c]" by (simp add: escape_char_def Let_def)
      moreover have "c \<noteq> CHR 0x5C" using False by auto
      ultimately show ?thesis by simp
    qed
  qed
qed

lemma escape_char_start: "escape_char c \<noteq> []" "hd (escape_char c) \<noteq> CHR 0x22"
  by (auto simp: escape_char_def Let_def)

lemma escapes_unique:
  "concat (map escape_char s) @ CHR 0x22 # r = concat (map escape_char s') @ CHR 0x22 # r' \<Longrightarrow> s = s' \<and> r = r'"
proof (induction s arbitrary: s')
  case Nil
  then show ?case
  proof (cases s')
    case (Cons c cs)
    with Nil escape_char_start [of c] show ?thesis by (cases "escape_char c") auto
  qed simp
next
  case (Cons c cs)
  show ?case
  proof (cases s')
    case Nil
    with Cons.prems escape_char_start [of c] show ?thesis by (cases "escape_char c") auto
  next
    case (Cons d ds)
    let ?l = "concat (map escape_char cs) @ CHR 0x22 # r" and ?r = "concat (map escape_char ds) @ CHR 0x22 # r'"
    from Cons.prems Cons have "escape_char c @ ?l = escape_char d @ ?r" by simp
    then have "unescape (escape_char c @ ?l) = unescape (escape_char d @ ?r)" by (rule arg_cong)
    then have "c = d" "?l = ?r" by (simp_all only: unescape_escape option.inject prod.inject)
    with Cons.IH [OF \<open>?l = ?r\<close>] Cons show ?thesis by simp
  qed
qed

lemma quote_unique: "quote s @ r = quote s' @ r' \<Longrightarrow> s = s' \<and> r = r'"
  using escapes_unique [of s r s' r'] by (simp add: quote_def)

definition is_digit :: "char \<Rightarrow> bool" where
  "is_digit c \<longleftrightarrow> 48 \<le> (of_char c :: nat) \<and> (of_char c :: nat) < 58"

lemma digit_char: "n < 10 \<Longrightarrow> is_digit (char_of (48 + n :: nat)) \<and> of_char (char_of (48 + n :: nat) :: char) = 48 + n"
  by (simp add: is_digit_def)

lemma show_nat_digits: "list_all is_digit (show_nat n) \<and> show_nat n \<noteq> []"
proof (induction n rule: show_nat.induct)
  case (1 n)
  then show ?case
    by (subst (1 2) show_nat.simps) (auto simp: digit_char)
qed

definition nat_value :: "string \<Rightarrow> nat" where
  "nat_value = foldl (\<lambda>a c. 10 * a + (of_char c - 48)) 0"

lemma nat_value_show: "nat_value (show_nat n) = n"
proof (induction n rule: show_nat.induct)
  case (1 n)
  show ?case
  proof (cases "n < 10")
    case True
    then show ?thesis by (subst show_nat.simps) (simp add: nat_value_def)
  next
    case False
    with 1 have "nat_value (show_nat (n div 10)) = n div 10" by simp
    moreover have "of_char (char_of (48 + n mod 10) :: char) = (48 + n mod 10 :: nat)"
      by (rule digit_char [THEN conjunct2]) simp
    ultimately show ?thesis using False
      by (subst show_nat.simps) (simp add: nat_value_def)
  qed
qed

lemma digits_unique:
  "\<lbrakk>list_all is_digit a; list_all is_digit b; r = [] \<or> \<not> is_digit (hd r); r' = [] \<or> \<not> is_digit (hd r');
    a @ r = b @ r'\<rbrakk> \<Longrightarrow> a = b \<and> r = r'"
proof (induction a arbitrary: b)
  case Nil
  then show ?case by (cases b) auto
next
  case (Cons x xs)
  then show ?case by (cases b) (auto simp del: append_eq_append_conv)
qed

lemma show_nat_unique:
  assumes "show_nat m @ r = show_nat n @ r'" "r = [] \<or> \<not> is_digit (hd r)" "r' = [] \<or> \<not> is_digit (hd r')"
  shows "m = n \<and> r = r'"
  using digits_unique [OF _ _ assms(2,3,1)] show_nat_digits nat_value_show by metis

lemma show_int_unique:
  assumes "show_int i @ r = show_int j @ r'" "r = [] \<or> \<not> is_digit (hd r)" "r' = [] \<or> \<not> is_digit (hd r')"
  shows "i = j \<and> r = r'"
proof -
  have sign: "show_nat n @ a \<noteq> CHR ''-'' # b" for n a b
    using show_nat_digits [of n] by (cases "show_nat n") (auto simp: is_digit_def)
  show ?thesis
  proof (cases "i < 0"; cases "j < 0")
    assume "i < 0" "j < 0"
    with assms show_nat_unique [OF _ assms(2,3), of "nat (- i)" "nat (- j)"] show ?thesis
      by (auto simp: show_int_def)
  next
    assume "\<not> i < 0" "\<not> j < 0"
    with assms show_nat_unique [OF _ assms(2,3), of "nat i" "nat j"] show ?thesis
      by (auto simp: show_int_def)
  next
    assume "i < 0" "\<not> j < 0"
    with assms(1) sign [of "nat j" r'] show ?thesis by (simp add: show_int_def) (metis)
  next
    assume "\<not> i < 0" "j < 0"
    with assms(1) sign [of "nat i" r] show ?thesis by (simp add: show_int_def)
  qed
qed

definition ends_value :: "string \<Rightarrow> bool" where
  "ends_value r \<longleftrightarrow> r = [] \<or> hd r \<in> {CHR '','', CHR '']'', CHR ''}''}"

lemma ends_value_digit: "ends_value r \<Longrightarrow> r = [] \<or> \<not> is_digit (hd r)"
  by (auto simp: ends_value_def is_digit_def)

lemma commas_tail_unique:
  assumes "\<And>x y r r'. x \<in> set xs \<Longrightarrow> f x @ r = f y @ r' \<Longrightarrow> ends_value r \<Longrightarrow> ends_value r' \<Longrightarrow> x = y \<and> r = r'"
    and "c \<in> {CHR '']'', CHR ''}''}"
    and "concat (map (\<lambda>x. CHR '','' # f x) xs) @ c # r = concat (map (\<lambda>x. CHR '','' # f x) ys) @ c # r'"
  shows "xs = ys \<and> r = r'"
  using assms(1,3)
proof (induction xs arbitrary: ys)
  case Nil
  then show ?case using assms(2) by (cases ys) auto
next
  case (Cons x xs)
  have ev: "ends_value (concat (map (\<lambda>x. CHR '','' # f x) zs) @ c # s)" for zs s
    using assms(2) by (cases zs) (auto simp: ends_value_def)
  show ?case
  proof (cases ys)
    case Nil
    with Cons.prems(2) assms(2) show ?thesis by auto
  next
    case (Cons y ys')
    with Cons.prems(2) have "f x @ (concat (map (\<lambda>x. CHR '','' # f x) xs) @ c # r) =
        f y @ (concat (map (\<lambda>x. CHR '','' # f x) ys') @ c # r')" by simp
    from Cons.prems(1) [OF _ this ev ev] have "x = y"
      "concat (map (\<lambda>x. CHR '','' # f x) xs) @ c # r = concat (map (\<lambda>x. CHR '','' # f x) ys') @ c # r'"
      by auto
    with Cons.IH [of ys'] Cons.prems(1) Cons show ?thesis by (metis list.set_intros(2))
  qed
qed

lemma commas_unique:
  assumes u: "\<And>x y r r'. x \<in> set xs \<Longrightarrow> f x @ r = f y @ r' \<Longrightarrow> ends_value r \<Longrightarrow> ends_value r' \<Longrightarrow> x = y \<and> r = r'"
    and c: "c \<in> {CHR '']'', CHR ''}''}" and start: "\<And>x r. f x @ r \<noteq> [] \<and> hd (f x @ r) \<noteq> c"
    and eq: "commas (map f xs) @ c # r = commas (map f ys) @ c # r'"
  shows "xs = ys \<and> r = r'"
proof -
  have ev: "ends_value (concat (map (\<lambda>x. CHR '','' # f x) zs) @ c # s)" for zs s
    using c by (cases zs) (auto simp: ends_value_def)
  have tails: "concat (map (\<lambda>t. CHR '','' # t) (map f zs)) = concat (map (\<lambda>x. CHR '','' # f x) zs)" for zs
    by (simp add: comp_def)
  show ?thesis
  proof (cases xs; cases ys)
    fix y ys' assume "xs = []" "ys = y # ys'"
    with eq start [of y "concat (map (\<lambda>x. CHR '','' # f x) ys') @ c # r'"] show ?thesis
      by (auto simp: commas_def comp_def) (metis list.sel(1))
  next
    fix x xs' assume "xs = x # xs'" "ys = []"
    with eq start [of x "concat (map (\<lambda>x. CHR '','' # f x) xs') @ c # r"] show ?thesis
      by (auto simp: commas_def comp_def)
  next
    fix x xs' y ys' assume xs: "xs = x # xs'" and ys: "ys = y # ys'"
    with eq have "f x @ (concat (map (\<lambda>x. CHR '','' # f x) xs') @ c # r) =
        f y @ (concat (map (\<lambda>x. CHR '','' # f x) ys') @ c # r')"
      by (simp add: commas_def comp_def)
    from u [OF _ this ev ev] xs have "x = y"
      "concat (map (\<lambda>x. CHR '','' # f x) xs') @ c # r = concat (map (\<lambda>x. CHR '','' # f x) ys') @ c # r'"
      by auto
    with commas_tail_unique [of xs' f c r ys' r'] u c xs ys show ?thesis by (metis list.set_intros(2))
  qed (use eq in \<open>simp add: commas_def\<close>)
qed

text \<open>The first character of a text tells which kind of value it renders.\<close>

definition value_kind :: "json \<Rightarrow> nat" where
  "value_kind j = (case j of JNull \<Rightarrow> 0 | JBool _ \<Rightarrow> 1 | JNum _ \<Rightarrow> 2 | JStr _ \<Rightarrow> 3 | JArr _ \<Rightarrow> 4 | JObj _ \<Rightarrow> 5)"

definition char_kind :: "char \<Rightarrow> nat" where
  "char_kind c =
    (if c = CHR ''n'' then 0 else if c = CHR ''t'' \<or> c = CHR ''f'' then 1
     else if c = CHR 0x22 then 3 else if c = CHR ''['' then 4 else if c = CHR ''{'' then 5
     else if is_digit c \<or> c = CHR ''-'' then 2 else 6)"

lemma show_int_start: "show_int i \<noteq> [] \<and> (is_digit (hd (show_int i)) \<or> hd (show_int i) = CHR ''-'')"
  using show_nat_digits [of "nat i"] by (cases "show_nat (nat i)") (auto simp: show_int_def)

lemma is_digit_kind: "is_digit c \<or> c = CHR ''-'' \<Longrightarrow> char_kind c = 2"
  by (auto simp: char_kind_def is_digit_def)

lemma stringify_start: "stringify j \<noteq> [] \<and> char_kind (hd (stringify j)) = value_kind j"
proof (cases j)
  case (JNum i)
  then show ?thesis using show_int_start [of i] is_digit_kind [of "hd (show_int i)"] by (simp add: value_kind_def)
qed (simp_all add: char_kind_def value_kind_def quote_def)

lemma stringify_hd: "stringify j @ r \<noteq> [] \<and> char_kind (hd (stringify j @ r)) = value_kind j"
  unfolding hd_append using stringify_start [of j] by simp

lemma stringify_kind:
  assumes "stringify j @ r = stringify j' @ r'"
  shows "value_kind j = value_kind j'"
proof -
  have "value_kind j = char_kind (hd (stringify j @ r))" by (simp only: stringify_hd)
  also have "\<dots> = value_kind j'" by (simp only: assms stringify_hd)
  finally show ?thesis .
qed

lemma stringify_no_close:
  assumes "c \<in> {CHR '']'', CHR ''}''}"
  shows "stringify j @ r \<noteq> [] \<and> hd (stringify j @ r) \<noteq> c"
proof -
  have "char_kind (CHR '']'') = 6" "char_kind (CHR ''}'') = 6" by (simp_all add: char_kind_def is_digit_def)
  with assms have "char_kind c = 6" by blast
  moreover have "value_kind j \<noteq> 6" by (cases j) (simp_all add: value_kind_def)
  ultimately show ?thesis using stringify_hd [of j r] by force
qed

lemma ends_value_no_digit: "ends_value r \<Longrightarrow> r = [] \<or> \<not> is_digit (hd r)"
  by (auto simp: ends_value_def is_digit_def)

lemma member_unique:
  assumes "quote k @ CHR '':'' # stringify v @ r = quote k' @ CHR '':'' # stringify v' @ r'"
    and "\<And>v' r r'. stringify v @ r = stringify v' @ r' \<Longrightarrow> ends_value r \<Longrightarrow> ends_value r' \<Longrightarrow> v = v' \<and> r = r'"
    and "ends_value r" and "ends_value r'"
  shows "k = k' \<and> v = v' \<and> r = r'"
  using quote_unique [OF assms(1)] assms(2-4) by auto

theorem stringify_unique:
  "stringify j @ r = stringify j' @ r' \<Longrightarrow> ends_value r \<Longrightarrow> ends_value r' \<Longrightarrow> j = j' \<and> r = r'"
proof (induction j arbitrary: j' r r')
  case JNull
  with stringify_kind [OF JNull(1)] show ?case by (cases j') (auto simp: value_kind_def)
next
  case (JBool b)
  with stringify_kind [OF JBool(1)] show ?case by (cases j') (auto simp: value_kind_def split: if_splits)
next
  case (JNum i)
  with stringify_kind [OF JNum(1)] show ?case
    using show_int_unique [OF _ ends_value_no_digit ends_value_no_digit, of i r _ r'] JNum
    by (cases j') (auto simp: value_kind_def)
next
  case (JStr s)
  with stringify_kind [OF JStr(1)] show ?case by (cases j') (auto simp: value_kind_def dest!: quote_unique)
next
  case (JArr xs)
  from stringify_kind [OF JArr(2)] obtain ys where j': "j' = JArr ys" by (cases j') (auto simp: value_kind_def)
  with JArr(2) have eq: "commas (map stringify xs) @ CHR '']'' # r = commas (map stringify ys) @ CHR '']'' # r'" by simp
  have "xs = ys \<and> r = r'"
    by (rule commas_unique [OF JArr(1) _ stringify_no_close eq]) auto
  with j' show ?case by simp
next
  case (JObj ms)
  from stringify_kind [OF JObj(2)] obtain ns where j': "j' = JObj ns" by (cases j') (auto simp: value_kind_def)
  let ?f = "\<lambda>(k, v). quote k @ CHR '':'' # stringify v"
  from JObj(2) j' have eq: "commas (map ?f ms) @ CHR ''}'' # r = commas (map ?f ns) @ CHR ''}'' # r'" by simp
  have u: "x = y \<and> a = b" if "x \<in> set ms" "?f x @ a = ?f y @ b" "ends_value a" "ends_value b" for x y a b
  proof -
    obtain k v k' v' where xy: "x = (k, v)" "y = (k', v')" by (cases x; cases y)
    have ih: "v = w \<and> c = d" if "stringify v @ c = stringify w @ d" "ends_value c" "ends_value d" for w c d
      using JObj(1) [OF \<open>x \<in> set ms\<close> _ that] xy by (simp add: snds.simps)
    have "quote k @ CHR '':'' # stringify v @ a = quote k' @ CHR '':'' # stringify v' @ b"
      using that(2) xy by simp
    from member_unique [OF this ih that(3,4)] xy show ?thesis by simp
  qed
  have start: "?f x @ a \<noteq> [] \<and> hd (?f x @ a) \<noteq> CHR ''}''" for x a by (cases x) (simp add: quote_def)
  have "ms = ns \<and> r = r'"
    by (rule commas_unique [where f = ?f and c = "CHR ''}''", OF _ _ start eq]) (use u in \<open>blast | simp\<close>)+
  with j' show ?case by simp
qed

corollary stringify_inj: "stringify j = stringify j' \<longleftrightarrow> j = j'"
  using stringify_unique [of j "[]" j' "[]"] by (auto simp: ends_value_def)

end
