(* ===== verification/Approvals.thy ===== *)
theory Approvals
  imports ControlTypes JsValues Json
begin

text \<open>
  The approval store (\<open>src/src/control/approvals.ts\<close>): requests bound to a digest of the whole
  intent, their resolution by an operator, their single consumption, expiry and revocation.
  The single clock reading of a call is the argument \<open>now\<close>, the identifier \<open>generateId()\<close>
  would return is \<open>fresh\<close>, and \<open>createHash('sha256')...digest('hex')\<close> is the parameter \<open>sha\<close>.
  Requests and assertions arrive as JavaScript values and are checked at run time.
\<close>

section \<open>Data\<close>

datatype approval_error =
    ApprovalMissing | ApprovalExpired | ApprovalDenied | ApprovalDigestMismatch
  | ApprovalIdentityMismatch | ApprovalActionConflict | ApprovalIdCollision
  | ApprovalPayloadInvalid | ApprovalCapacityExceeded

definition APPROVAL_ACTIVE_LIMIT :: nat where "APPROVAL_ACTIVE_LIMIT = 256"

definition APPROVAL_TERMINAL_LIMIT :: nat where "APPROVAL_TERMINAL_LIMIT = 1000"

datatype effect_kind =
    SubmitEffect | SecretInputEffect | UploadEffect | DownloadEffect | PermissionEffect
  | CloseEffect | ScriptEffect

record redacted_effect =
  ef_kind :: effect_kind
  ef_target :: string

type_synonym jsv = "redacted_effect jsval"

record approval_identity =
  ai_actionId :: string
  ai_ownerEpoch :: int
  ai_taskId :: string
  ai_actorId :: string
  ai_subjectId :: "string option"
  ai_leaseId :: string
  ai_leaseRevision :: int
  ai_resource :: lease_target
  ai_capability :: surface_capability
  ai_effect :: redacted_effect
  ai_executableDigest :: string

datatype approval_status = Pending | Approved | Denied | Consumed | Expired | Revoked

text \<open>The object spread \<open>...identity\<close> of the code is the field \<open>ap_identity\<close>.\<close>

record approval =
  ap_id :: string
  ap_status :: approval_status
  ap_identity :: approval_identity
  ap_payloadDigest :: string
  ap_createdAt :: int
  ap_expiresAt :: int
  ap_resolvedBy :: "string option"
  ap_resolvedAt :: "int option"
  ap_consumedAt :: "int option"

record consume_assertion =
  ca_approvalId :: string
  ca_payloadDigest :: string
  ca_identity :: approval_identity

record approval_store =
  as_approvals :: "(string, approval) jsmap"
  as_byAction :: "(string, string) jsmap"

definition approvals_init :: approval_store where
  "approvals_init = \<lparr>as_approvals = [], as_byAction = []\<rparr>"

fun effect_name :: "effect_kind \<Rightarrow> string" where
  "effect_name SubmitEffect = ''submit''"
| "effect_name SecretInputEffect = ''secret_input''"
| "effect_name UploadEffect = ''upload''"
| "effect_name DownloadEffect = ''download''"
| "effect_name PermissionEffect = ''permission_response''"
| "effect_name CloseEffect = ''close''"
| "effect_name ScriptEffect = ''script''"

fun is_active_status :: "approval_status \<Rightarrow> bool" where
  "is_active_status Pending = True"
| "is_active_status Approved = True"
| "is_active_status _ = False"

definition is_active :: "approval \<Rightarrow> bool" where
  "is_active a = is_active_status (ap_status a)"

definition is_terminal :: "approval \<Rightarrow> bool" where
  "is_terminal a \<longleftrightarrow> \<not> is_active a"

section \<open>Checking the input\<close>

definition identity_keys :: "string list" where
  "identity_keys = [''actionId'', ''ownerEpoch'', ''taskId'', ''actorId'', ''leaseId'', ''leaseRevision'',
     ''resource'', ''capability'', ''effect'', ''executablePayloadDigest'']"

definition is_hex :: "char \<Rightarrow> bool" where
  "is_hex c \<longleftrightarrow> (let n = (of_char c :: nat) in 48 \<le> n \<and> n \<le> 57 \<or> 97 \<le> n \<and> n \<le> 102)"

definition is_sha256 :: "string \<Rightarrow> bool" where
  "is_sha256 s \<longleftrightarrow> length s = 64 \<and> list_all is_hex s"

fun js_sha256 :: "jsv \<Rightarrow> bool" where
  "js_sha256 (JsStr s) = is_sha256 s" | "js_sha256 _ = False"

definition is_authority_integer :: "jsv \<Rightarrow> bool" where
  "is_authority_integer v \<longleftrightarrow> is_safe_integer v \<and> 0 \<le> js_int v"

fun js_capability :: "jsv \<Rightarrow> surface_capability option" where
  "js_capability (JsStr s) = parse_capability s" | "js_capability _ = None"

definition assert_identity_fields ::
  "(string \<times> jsv) list \<Rightarrow> (approval_error, surface_capability) result"
where
  "assert_identity_fields ms =
     throw_if (\<not> is_nonempty_string (js_get ms ''actionId'') \<or> \<not> is_nonempty_string (js_get ms ''taskId'') \<or>
               \<not> is_nonempty_string (js_get ms ''actorId'') \<or> \<not> is_nonempty_string (js_get ms ''leaseId''))
       ApprovalIdentityMismatch
    (throw_if (js_get ms ''subjectId'' \<noteq> JsUndef \<and> \<not> is_nonempty_string (js_get ms ''subjectId''))
       ApprovalIdentityMismatch
    (throw_if (\<not> is_authority_integer (js_get ms ''ownerEpoch'') \<or>
               \<not> is_authority_integer (js_get ms ''leaseRevision''))
       ApprovalIdentityMismatch
    (case js_capability (js_get ms ''capability'') of
       None \<Rightarrow> Inl ApprovalIdentityMismatch | Some c \<Rightarrow> Inr c)))"

definition copy_target :: "jsv \<Rightarrow> (approval_error, lease_target) result" where
  "copy_target v =
    and_then (plain_members ApprovalPayloadInvalid v) (\<lambda>ms.
     throw_if (\<not> is_nonempty_string (js_get ms ''id'')) ApprovalIdentityMismatch
      (if js_get ms ''kind'' = JsStr ''project''
       then and_then (assert_exact_keys ApprovalPayloadInvalid [''kind'', ''id''] v)
              (\<lambda>_. Inr (ProjectTarget (js_string (js_get ms ''id''))))
       else
         throw_if ((js_get ms ''kind'' \<noteq> JsStr ''pane'' \<and> js_get ms ''kind'' \<noteq> JsStr ''browser_tab'') \<or>
                   \<not> is_authority_integer (js_get ms ''generation''))
           ApprovalIdentityMismatch
        (and_then (assert_exact_keys ApprovalPayloadInvalid [''kind'', ''id'', ''generation''] v)
          (\<lambda>_. Inr (SurfaceTarget
                      (if js_get ms ''kind'' = JsStr ''pane'' then PaneKind else BrowserTabKind)
                      (js_string (js_get ms ''id'')) (nat (js_int (js_get ms ''generation''))))))))"

fun copy_effect :: "jsv \<Rightarrow> (approval_error, redacted_effect) result" where
  "copy_effect (JsBranded e) = Inr e"
| "copy_effect _ = Inl ApprovalPayloadInvalid"

definition copy_executable_digest :: "jsv \<Rightarrow> (approval_error, string) result" where
  "copy_executable_digest v = (if js_sha256 v then Inr (js_string v) else Inl ApprovalDigestMismatch)"

text \<open>The object literal both copiers build, in the order its members are evaluated.\<close>

definition build_identity ::
  "(string \<times> jsv) list \<Rightarrow> surface_capability \<Rightarrow> (approval_error, approval_identity) result"
where
  "build_identity ms cap =
    and_then (copy_target (js_get ms ''resource'')) (\<lambda>resource.
    and_then (copy_effect (js_get ms ''effect'')) (\<lambda>effect.
    and_then (copy_executable_digest (js_get ms ''executablePayloadDigest'')) (\<lambda>digest.
      Inr \<lparr>ai_actionId = js_string (js_get ms ''actionId''),
           ai_ownerEpoch = js_int (js_get ms ''ownerEpoch''),
           ai_taskId = js_string (js_get ms ''taskId''),
           ai_actorId = js_string (js_get ms ''actorId''),
           ai_subjectId = (case js_get ms ''subjectId'' of JsStr s \<Rightarrow> truthy_string (Some s) | _ \<Rightarrow> None),
           ai_leaseId = js_string (js_get ms ''leaseId''),
           ai_leaseRevision = js_int (js_get ms ''leaseRevision''),
           ai_resource = resource, ai_capability = cap, ai_effect = effect,
           ai_executableDigest = digest\<rparr>)))"

definition copy_identity :: "jsv \<Rightarrow> (approval_error, approval_identity) result" where
  "copy_identity input =
    and_then (assert_allowed_keys ApprovalPayloadInvalid identity_keys [''subjectId''] input) (\<lambda>ms.
    and_then (assert_identity_fields ms) (\<lambda>cap.
      build_identity ms cap))"

definition copy_assertion :: "jsv \<Rightarrow> (approval_error, consume_assertion) result" where
  "copy_assertion input =
    and_then (assert_allowed_keys ApprovalPayloadInvalid
                ([''approvalId'', ''payloadDigest''] @ identity_keys) [''subjectId''] input) (\<lambda>ms.
     throw_if (\<not> is_nonempty_string (js_get ms ''approvalId'')) ApprovalIdentityMismatch
    (and_then (assert_identity_fields ms) (\<lambda>cap.
     throw_if (\<not> js_sha256 (js_get ms ''payloadDigest'')) ApprovalDigestMismatch
    (and_then (build_identity ms cap) (\<lambda>identity.
      Inr \<lparr>ca_approvalId = js_string (js_get ms ''approvalId''),
           ca_payloadDigest = js_string (js_get ms ''payloadDigest''),
           ca_identity = identity\<rparr>)))))"

section \<open>The digest of an intent\<close>

fun resource_json :: "lease_target \<Rightarrow> json" where
  "resource_json (ProjectTarget i) = JObj [(''kind'', JStr ''project''), (''id'', JStr i)]"
| "resource_json (SurfaceTarget k i g) =
     JObj [(''kind'', JStr (case k of PaneKind \<Rightarrow> ''pane'' | BrowserTabKind \<Rightarrow> ''browser_tab'')),
           (''id'', JStr i), (''generation'', JNum (int g))]"

definition effect_json :: "redacted_effect \<Rightarrow> json" where
  "effect_json e = JObj [(''kind'', JStr (effect_name (ef_kind e))), (''target'', JStr (ef_target e))]"

definition identity_payload :: "approval_identity \<Rightarrow> json" where
  "identity_payload a = JObj
    ([(''actionId'', JStr (ai_actionId a)), (''ownerEpoch'', JNum (ai_ownerEpoch a)),
      (''taskId'', JStr (ai_taskId a)), (''actorId'', JStr (ai_actorId a))] @
     (case truthy_string (ai_subjectId a) of None \<Rightarrow> [] | Some s \<Rightarrow> [(''subjectId'', JStr s)]) @
     [(''leaseId'', JStr (ai_leaseId a)), (''leaseRevision'', JNum (ai_leaseRevision a)),
      (''resource'', resource_json (ai_resource a)),
      (''capability'', JStr (capability_name (ai_capability a))),
      (''effect'', effect_json (ai_effect a)),
      (''executablePayloadDigest'', JStr (ai_executableDigest a))])"

definition digest_identity :: "(string \<Rightarrow> string) \<Rightarrow> approval_identity \<Rightarrow> string" where
  "digest_identity sha a = sha (stable_key_json (identity_payload a))"

definition assert_digest :: "approval \<Rightarrow> string \<Rightarrow> (approval_error, unit) result" where
  "assert_digest a supplied = throw_if (ap_payloadDigest a \<noteq> supplied) ApprovalDigestMismatch (Inr ())"

definition assert_stored_digest :: "(string \<Rightarrow> string) \<Rightarrow> approval \<Rightarrow> (approval_error, unit) result" where
  "assert_stored_digest sha a =
     throw_if (ai_taskId (ap_identity a) = [] \<or> ai_actorId (ap_identity a) = []) ApprovalIdentityMismatch
    (throw_if (ai_subjectId (ap_identity a) = Some []) ApprovalIdentityMismatch
    (throw_if (digest_identity sha (ap_identity a) \<noteq> ap_payloadDigest a) ApprovalIdentityMismatch
    (Inr ())))"

definition assertion_matches :: "approval \<Rightarrow> consume_assertion \<Rightarrow> bool" where
  "assertion_matches ap assertion \<longleftrightarrow>
    (let a = ap_identity ap; b = ca_identity assertion in
       ai_ownerEpoch a = ai_ownerEpoch b \<and> ai_taskId a = ai_taskId b \<and> ai_actorId a = ai_actorId b \<and>
       ai_subjectId a = ai_subjectId b \<and> ai_leaseId a = ai_leaseId b \<and>
       ai_leaseRevision a = ai_leaseRevision b \<and> ai_capability a = ai_capability b \<and>
       ai_executableDigest a = ai_executableDigest b \<and>
       targets_equal (ai_resource a) (ai_resource b))"

section \<open>The store\<close>

text \<open>One deletion of \<open>pruneTerminal\<close>: the entry and, when it still points to it, its action's.\<close>

definition drop_approval :: "string \<Rightarrow> approval \<Rightarrow> approval_store \<Rightarrow> approval_store" where
  "drop_approval i a s =
    (let s1 = s\<lparr>as_approvals := jm_delete i (as_approvals s)\<rparr>
     in if jm_get (as_byAction s1) (ai_actionId (ap_identity a)) = Some i
        then s1\<lparr>as_byAction := jm_delete (ai_actionId (ap_identity a)) (as_byAction s1)\<rparr>
        else s1)"

fun prune_loop :: "(string \<times> approval) list \<Rightarrow> nat \<Rightarrow> approval_store \<Rightarrow> approval_store" where
  "prune_loop [] terminalCount s = s"
| "prune_loop ((i, a) # es) terminalCount s =
     (if \<not> is_terminal a then prune_loop es terminalCount s
      else if terminalCount - 1 \<le> APPROVAL_TERMINAL_LIMIT then drop_approval i a s
      else prune_loop es (terminalCount - 1) (drop_approval i a s))"

definition terminal_count :: "approval_store \<Rightarrow> nat" where
  "terminal_count s = length (filter is_terminal (jm_values (as_approvals s)))"

definition active_count :: "approval_store \<Rightarrow> nat" where
  "active_count s = length (filter is_active (jm_values (as_approvals s)))"

definition prune_terminal :: "approval_store \<Rightarrow> approval_store" where
  "prune_terminal s =
    (if terminal_count s \<le> APPROVAL_TERMINAL_LIMIT then s
     else prune_loop (as_approvals s) (terminal_count s) s)"

text \<open>The loops of \<open>expireAt\<close> and \<open>revokeWhere\<close>: replace the matching active approvals.\<close>

fun retire_where ::
  "(approval \<Rightarrow> bool) \<Rightarrow> approval_status \<Rightarrow> approval list \<Rightarrow> approval_store \<Rightarrow> approval list \<times> approval_store"
where
  "retire_where P status [] s = ([], s)"
| "retire_where P status (a # as) s =
     (if is_active a \<and> P a
      then let replacement = a\<lparr>ap_status := status\<rparr>;
               (retired, s') = retire_where P status as
                 (s\<lparr>as_approvals := jm_set (ap_id a) replacement (as_approvals s)\<rparr>)
           in (replacement # retired, s')
      else retire_where P status as s)"

definition expire_at :: "int \<Rightarrow> approval_store \<Rightarrow> approval list \<times> approval_store" where
  "expire_at now s =
    (let (expired, s') =
       retire_where (\<lambda>a. ap_expiresAt a \<le> now) Expired (jm_values (as_approvals s)) s
     in (expired, prune_terminal s'))"

definition revoke_where ::
  "(approval \<Rightarrow> bool) \<Rightarrow> int \<Rightarrow> approval_store \<Rightarrow> approval list \<times> approval_store"
where
  "revoke_where P now s =
    (let s1 = snd (expire_at now s);
         (revoked, s2) = retire_where P Revoked (jm_values (as_approvals s1)) s1
     in (revoked, prune_terminal s2))"

definition ap_expire :: "int \<Rightarrow> approval_store \<Rightarrow> approval list \<times> approval_store" where
  "ap_expire now s = expire_at now s"

definition revoke_for_lease :: "string \<Rightarrow> int \<Rightarrow> approval_store \<Rightarrow> approval list \<times> approval_store" where
  "revoke_for_lease leaseId now s =
     revoke_where (\<lambda>a. ai_leaseId (ap_identity a) = leaseId) now s"

definition revoke_for_approval_ids ::
  "jsv list \<Rightarrow> int \<Rightarrow> approval_store \<Rightarrow> approval list \<times> approval_store"
where
  "revoke_for_approval_ids approvalIds now s =
    (let ids = map js_string (filter is_nonempty_string approvalIds)
     in if ids = [] then ([], s) else revoke_where (\<lambda>a. ap_id a \<in> set ids) now s)"

definition ap_revoke_all :: "int \<Rightarrow> approval_store \<Rightarrow> approval list \<times> approval_store" where
  "ap_revoke_all now s = revoke_where (\<lambda>_. True) now s"

definition ap_peek :: "approval_store \<Rightarrow> approval list" where
  "ap_peek s = jm_values (as_approvals s)"

definition ap_snapshot :: "int \<Rightarrow> approval_store \<Rightarrow> approval list \<times> approval_store" where
  "ap_snapshot now s = (let s' = snd (expire_at now s) in (ap_peek s', s'))"

definition require_current ::
  "string \<Rightarrow> int \<Rightarrow> approval_store \<Rightarrow> (approval_error, approval) result \<times> approval_store"
where
  "require_current i now s =
    (case jm_get (as_approvals s) i of
       None \<Rightarrow> (Inl ApprovalMissing, s)
     | Some a \<Rightarrow>
         if is_active a \<and> ap_expiresAt a \<le> now
         then (Inl ApprovalExpired,
               prune_terminal (s\<lparr>as_approvals := jm_set i (a\<lparr>ap_status := Expired\<rparr>) (as_approvals s)\<rparr>))
         else if ap_status a = Expired then (Inl ApprovalExpired, s)
         else (Inr a, s))"

definition make_approval ::
  "(string \<Rightarrow> string) \<Rightarrow> string \<Rightarrow> approval_identity \<Rightarrow> int \<Rightarrow> approval"
where
  "make_approval sha fresh identity now =
    \<lparr>ap_id = fresh, ap_status = Pending, ap_identity = identity,
     ap_payloadDigest = digest_identity sha identity, ap_createdAt = now,
     ap_expiresAt = now + approvalTtlMs AGENT_CONTROL_LIMITS,
     ap_resolvedBy = None, ap_resolvedAt = None, ap_consumedAt = None\<rparr>"

definition request_at ::
  "(string \<Rightarrow> string) \<Rightarrow> string \<Rightarrow> jsv \<Rightarrow> int \<Rightarrow> approval_store \<Rightarrow>
   (approval_error, approval) result \<times> approval_store"
where
  "request_at sha fresh input now s =
    (case copy_identity input of
       Inl e \<Rightarrow> (Inl e, s)
     | Inr identity \<Rightarrow>
        (case truthy_string (jm_get (as_byAction s) (ai_actionId identity)) of
           Some existingId \<Rightarrow>
             (case jm_get (as_approvals s) existingId of
                Some existing \<Rightarrow>
                  if ap_payloadDigest existing = digest_identity sha identity then (Inr existing, s)
                  else (Inl ApprovalActionConflict, s)
              | None \<Rightarrow> (Inl ApprovalActionConflict, s))
         | None \<Rightarrow>
             if APPROVAL_ACTIVE_LIMIT \<le> active_count s then (Inl ApprovalCapacityExceeded, s)
             else if fresh = [] \<or> jm_get (as_approvals s) fresh \<noteq> None then (Inl ApprovalIdCollision, s)
             else let a = make_approval sha fresh identity now in
               (Inr a, s\<lparr>as_approvals := jm_set (ap_id a) a (as_approvals s),
                         as_byAction := jm_set (ai_actionId identity) (ap_id a) (as_byAction s)\<rparr>)))"

definition ap_request ::
  "(string \<Rightarrow> string) \<Rightarrow> string \<Rightarrow> jsv \<Rightarrow> int \<Rightarrow> approval_store \<Rightarrow>
   (approval_error, approval) result \<times> approval_store"
where
  "ap_request sha fresh input now s = request_at sha fresh input now (snd (expire_at now s))"

definition request_current ::
  "(string \<Rightarrow> string) \<Rightarrow> string \<Rightarrow> jsv \<Rightarrow> int \<Rightarrow> approval_store \<Rightarrow>
   (approval_error, approval) result \<times> approval_store"
where
  "request_current sha fresh input now s = request_at sha fresh input now s"

definition resolve ::
  "(string \<Rightarrow> string) \<Rightarrow> string \<Rightarrow> string \<Rightarrow> string \<Rightarrow> approval_status \<Rightarrow> int \<Rightarrow> approval_store \<Rightarrow>
   (approval_error, approval) result \<times> approval_store"
where
  "resolve sha i actorId payloadDigest status now s =
    (if actorId = [] \<or> js_blank actorId then (Inl ApprovalIdentityMismatch, s)
     else case require_current i now s of
       (Inl e, s1) \<Rightarrow> (Inl e, s1)
     | (Inr a, s1) \<Rightarrow>
        (case and_then (assert_digest a payloadDigest) (\<lambda>_. assert_stored_digest sha a) of
           Inl e \<Rightarrow> (Inl e, s1)
         | Inr _ \<Rightarrow>
            if ap_status a \<noteq> Pending then (Inl ApprovalDenied, s1)
            else let resolved = a\<lparr>ap_status := status, ap_resolvedBy := Some actorId,
                                   ap_resolvedAt := Some now\<rparr> in
              (Inr resolved,
               prune_terminal (s1\<lparr>as_approvals := jm_set i resolved (as_approvals s1)\<rparr>))))"

definition approve ::
  "(string \<Rightarrow> string) \<Rightarrow> string \<Rightarrow> string \<Rightarrow> string \<Rightarrow> int \<Rightarrow> approval_store \<Rightarrow>
   (approval_error, approval) result \<times> approval_store"
where
  "approve sha i actorId payloadDigest now s = resolve sha i actorId payloadDigest Approved now s"

definition deny ::
  "(string \<Rightarrow> string) \<Rightarrow> string \<Rightarrow> string \<Rightarrow> string \<Rightarrow> int \<Rightarrow> approval_store \<Rightarrow>
   (approval_error, approval) result \<times> approval_store"
where
  "deny sha i actorId payloadDigest now s = resolve sha i actorId payloadDigest Denied now s"

definition consume ::
  "(string \<Rightarrow> string) \<Rightarrow> jsv \<Rightarrow> int \<Rightarrow> approval_store \<Rightarrow>
   (approval_error, approval) result \<times> approval_store"
where
  "consume sha input now s =
    (case copy_assertion input of
       Inl e \<Rightarrow> (Inl e, s)
     | Inr assertion \<Rightarrow>
      (case require_current (ca_approvalId assertion) now s of
         (Inl e, s1) \<Rightarrow> (Inl e, s1)
       | (Inr a, s1) \<Rightarrow>
        (case assert_stored_digest sha a of
           Inl e \<Rightarrow> (Inl e, s1)
         | Inr _ \<Rightarrow>
            if \<not> assertion_matches a assertion then (Inl ApprovalIdentityMismatch, s1)
            else let assertedDigest = digest_identity sha (ca_identity assertion) in
              if assertedDigest \<noteq> ca_payloadDigest assertion \<or> assertedDigest \<noteq> ap_payloadDigest a
              then (Inl ApprovalDigestMismatch, s1)
              else if ap_status a \<noteq> Approved then (Inl ApprovalDenied, s1)
              else let consumed = a\<lparr>ap_status := Consumed, ap_consumedAt := Some now\<rparr> in
                (Inr consumed,
                 prune_terminal (s1\<lparr>as_approvals := jm_set (ap_id a) consumed (as_approvals s1)\<rparr>)))))"

section \<open>The invariant\<close>

text \<open>
  Every stored approval passed the checks of its request and still carries the digest of
  its identity. The index leads from an action to its approval and back. At most
  \<open>APPROVAL_ACTIVE_LIMIT\<close> approvals are active and \<open>APPROVAL_TERMINAL_LIMIT\<close> terminal.
\<close>

definition approval_ok :: "(string \<Rightarrow> string) \<Rightarrow> approval \<Rightarrow> bool" where
  "approval_ok sha a \<longleftrightarrow>
     ai_taskId (ap_identity a) \<noteq> [] \<and> ai_actorId (ap_identity a) \<noteq> [] \<and>
     ai_subjectId (ap_identity a) \<noteq> Some [] \<and>
     ap_payloadDigest a = digest_identity sha (ap_identity a)"

definition approval_index :: "(string, approval) jsmap \<Rightarrow> (string, string) jsmap \<Rightarrow> bool" where
  "approval_index approvals byAction \<longleftrightarrow>
     (\<forall>i a. jm_get approvals i = Some a \<longrightarrow>
        ap_id a = i \<and> i \<noteq> [] \<and> jm_get byAction (ai_actionId (ap_identity a)) = Some i) \<and>
     (\<forall>act i. jm_get byAction act = Some i \<longrightarrow>
        (\<exists>a. jm_get approvals i = Some a \<and> ai_actionId (ap_identity a) = act))"

definition approvals_wf :: "(string \<Rightarrow> string) \<Rightarrow> approval_store \<Rightarrow> bool" where
  "approvals_wf sha s \<longleftrightarrow> jm_ok (as_approvals s) \<and> jm_ok (as_byAction s) \<and>
     approval_index (as_approvals s) (as_byAction s) \<and>
     (\<forall>a \<in> set (jm_values (as_approvals s)). approval_ok sha a)"

definition approvals_ok :: "(string \<Rightarrow> string) \<Rightarrow> approval_store \<Rightarrow> bool" where
  "approvals_ok sha s \<longleftrightarrow> approvals_wf sha s \<and> active_count s \<le> APPROVAL_ACTIVE_LIMIT \<and>
     terminal_count s \<le> APPROVAL_TERMINAL_LIMIT"

lemma approval_indexI:
  assumes "\<And>i a. jm_get m i = Some a \<Longrightarrow>
      ap_id a = i \<and> i \<noteq> [] \<and> jm_get b (ai_actionId (ap_identity a)) = Some i"
    and "\<And>act i. jm_get b act = Some i \<Longrightarrow> \<exists>a. jm_get m i = Some a \<and> ai_actionId (ap_identity a) = act"
  shows "approval_index m b"
  unfolding approval_index_def using assms by blast

lemma approval_indexD:
  assumes "approval_index m b" and "jm_get m i = Some a"
  shows "ap_id a = i" "i \<noteq> []" "jm_get b (ai_actionId (ap_identity a)) = Some i"
  using assms unfolding approval_index_def by blast+

lemma approval_index_action:
  assumes "approval_index m b" and "jm_get b act = Some i"
  obtains a where "jm_get m i = Some a" "ai_actionId (ap_identity a) = act"
  using assms unfolding approval_index_def by blast

lemma approvals_ok_init: "approvals_ok sha approvals_init"
  by (simp add: approvals_ok_def approvals_wf_def approval_index_def approvals_init_def
      active_count_def terminal_count_def)

lemma approvals_wfI:
  assumes "jm_ok (as_approvals s)" "jm_ok (as_byAction s)"
    "approval_index (as_approvals s) (as_byAction s)"
    "\<And>a. a \<in> set (jm_values (as_approvals s)) \<Longrightarrow> approval_ok sha a"
  shows "approvals_wf sha s"
  unfolding approvals_wf_def using assms by blast

lemma approvals_wf_parts:
  assumes "approvals_wf sha s"
  shows "approval_index (as_approvals s) (as_byAction s)"
    "a \<in> set (jm_values (as_approvals s)) \<Longrightarrow> approval_ok sha a"
  using assms unfolding approvals_wf_def by blast+

lemma approvals_wf_maps:
  assumes "approvals_wf sha s"
  shows "jm_ok (as_approvals s)" "jm_ok (as_byAction s)"
  using assms by (simp_all add: approvals_wf_def)

lemma approvals_wfD:
  assumes "approvals_wf sha s" and "jm_get (as_approvals s) i = Some a"
  shows "ap_id a = i" "i \<noteq> []" "jm_get (as_byAction s) (ai_actionId (ap_identity a)) = Some i"
    "approval_ok sha a"
proof -
  show "ap_id a = i" "i \<noteq> []" "jm_get (as_byAction s) (ai_actionId (ap_identity a)) = Some i"
    using assms unfolding approvals_wf_def approval_index_def by blast+
  from assms(2) have "a \<in> set (jm_values (as_approvals s))" by (force dest: map_of_SomeD)
  then show "approval_ok sha a" using assms(1) unfolding approvals_wf_def by blast
qed

lemma approvals_wf_action:
  assumes "approvals_wf sha s" and "jm_get (as_byAction s) act = Some i"
  obtains a where "jm_get (as_approvals s) i = Some a" "ai_actionId (ap_identity a) = act"
  using assms unfolding approvals_wf_def approval_index_def by blast

text \<open>An entry of a well-formed store, read from the list.\<close>

lemma approvals_wf_entry:
  "approvals_wf sha s \<Longrightarrow> (i, a) \<in> set (as_approvals s) \<longleftrightarrow> jm_get (as_approvals s) i = Some a"
  by (rule jm_in_set_iff) (rule approvals_wf_maps)

text \<open>Replacing an approval by one with the same id and intent keeps the store well formed.\<close>

lemma approval_index_replace:
  assumes "approval_index m b" and "jm_get m i = Some a" and "ap_id a' = i"
    and "ap_identity a' = ap_identity a"
  shows "approval_index (jm_set i a' m) b"
proof (rule approval_indexI)
  fix j c assume j: "jm_get (jm_set i a' m) j = Some c"
  show "ap_id c = j \<and> j \<noteq> [] \<and> jm_get b (ai_actionId (ap_identity c)) = Some j"
  proof (cases "j = i")
    case True
    with j have "c = a'" by simp
    with True approval_indexD [OF assms(1,2)] assms(3,4) show ?thesis by simp
  next
    case False
    with j have "jm_get m j = Some c" by simp
    from approval_indexD [OF assms(1) this] show ?thesis by blast
  qed
next
  fix act j assume "jm_get b act = Some j"
  with assms(1) obtain c where c: "jm_get m j = Some c" "ai_actionId (ap_identity c) = act"
    by (rule approval_index_action)
  then show "\<exists>c. jm_get (jm_set i a' m) j = Some c \<and> ai_actionId (ap_identity c) = act"
    using assms(2,4) by (cases "j = i") auto
qed

lemma approvals_wf_replace:
  assumes wf: "approvals_wf sha s" and a: "jm_get (as_approvals s) i = Some a"
    and a': "ap_id a' = ap_id a" "ap_identity a' = ap_identity a" "ap_payloadDigest a' = ap_payloadDigest a"
  shows "approvals_wf sha (s\<lparr>as_approvals := jm_set i a' (as_approvals s)\<rparr>)"
proof (rule approvals_wfI)
  let ?s = "s\<lparr>as_approvals := jm_set i a' (as_approvals s)\<rparr>"
  have ok: "approval_ok sha a'" using approvals_wfD(4) [OF wf a] a' by (simp add: approval_ok_def)
  fix c assume "c \<in> set (jm_values (as_approvals ?s))"
  then have "c \<in> set (jm_values (jm_set i a' (as_approvals s)))" by simp
  moreover have "set (jm_values (jm_set i a' (as_approvals s))) \<subseteq> insert a' (set (jm_values (as_approvals s)))"
    using set_update_values [of i a' "as_approvals s"] by blast
  ultimately show "approval_ok sha c" using ok approvals_wf_parts(2) [OF wf] by blast
next
  show "approval_index (as_approvals (s\<lparr>as_approvals := jm_set i a' (as_approvals s)\<rparr>))
      (as_byAction (s\<lparr>as_approvals := jm_set i a' (as_approvals s)\<rparr>))"
    using approval_index_replace [OF approvals_wf_parts(1) [OF wf] a] approvals_wfD(1) [OF wf a] a' by simp
qed (use approvals_wf_maps [OF wf] in simp_all)

section \<open>Retiring and pruning\<close>

definition retire_entry ::
  "(approval \<Rightarrow> bool) \<Rightarrow> approval_status \<Rightarrow> approval \<Rightarrow> approval"
where
  "retire_entry P status a = (if is_active a \<and> P a then a\<lparr>ap_status := status\<rparr> else a)"

lemma retire_entry_simps [simp]:
  "ap_id (retire_entry P st a) = ap_id a"
  "ap_identity (retire_entry P st a) = ap_identity a"
  "ap_payloadDigest (retire_entry P st a) = ap_payloadDigest a"
  "ap_expiresAt (retire_entry P st a) = ap_expiresAt a"
  by (simp_all add: retire_entry_def)

lemma retire_where_approvals_aux:
  assumes "as_approvals s = pre @ es" and "distinct (map fst (pre @ es))"
    and "\<forall>(i, a) \<in> set es. ap_id a = i"
  shows "as_approvals (snd (retire_where P st (map snd es) s)) =
    pre @ map (\<lambda>(i, a). (i, retire_entry P st a)) es"
  using assms
proof (induction es arbitrary: pre s)
  case Nil
  then show ?case by simp
next
  case (Cons e es)
  obtain i a where e: "e = (i, a)" by (cases e)
  let ?a = "retire_entry P st a"
  let ?s = "s\<lparr>as_approvals := jm_set i (a\<lparr>ap_status := st\<rparr>) (as_approvals s)\<rparr>"
  have i: "i \<notin> fst ` set pre" "ap_id a = i" using Cons.prems e by auto
  have IH: "as_approvals (snd (retire_where P st (map snd es) t)) =
      (pre @ [(i, ?a)]) @ map (\<lambda>(i, a). (i, retire_entry P st a)) es"
    if "as_approvals t = (pre @ [(i, ?a)]) @ es" for t
    using Cons.IH [OF that] Cons.prems e by auto
  show ?case
  proof (cases "is_active a \<and> P a")
    case True
    then have "as_approvals ?s = (pre @ [(i, ?a)]) @ es"
      using Cons.prems(1) e i by (simp add: update_middle retire_entry_def)
    from IH [OF this] True e i show ?thesis by (simp add: Let_def split_beta)
  next
    case False
    then have "as_approvals s = (pre @ [(i, ?a)]) @ es"
      using Cons.prems(1) e if_not_P [OF False, of "a\<lparr>ap_status := st\<rparr>" a]
      by (simp only: retire_entry_def append.simps append_assoc)
    from IH [OF this] show ?thesis by (simp add: False e)
  qed
qed

lemma retire_where_byAction [simp]: "as_byAction (snd (retire_where P st as s)) = as_byAction s"
  by (induction as arbitrary: s) (auto simp: Let_def split_beta)

lemma retire_where_result:
  "fst (retire_where P st as s) = map (\<lambda>a. a\<lparr>ap_status := st\<rparr>) (filter (\<lambda>a. is_active a \<and> P a) as)"
  by (induction as arbitrary: s) (auto simp: Let_def split_beta)

definition retire_all :: "(approval \<Rightarrow> bool) \<Rightarrow> approval_status \<Rightarrow> approval_store \<Rightarrow> approval_store" where
  "retire_all P st s = snd (retire_where P st (jm_values (as_approvals s)) s)"

lemma retire_all_approvals:
  assumes "approvals_wf sha s"
  shows "as_approvals (retire_all P st s) = map (\<lambda>(i, a). (i, retire_entry P st a)) (as_approvals s)"
proof -
  have "\<forall>(i, a) \<in> set (as_approvals s). ap_id a = i"
    using approvals_wfD(1) [OF assms] approvals_wf_entry [OF assms] by blast
  then show ?thesis
    using retire_where_approvals_aux [of s "[]" "as_approvals s" P st] approvals_wf_maps [OF assms]
    by (simp add: retire_all_def)
qed

lemma retire_all_get:
  "approvals_wf sha s \<Longrightarrow>
     jm_get (as_approvals (retire_all P st s)) i = map_option (retire_entry P st) (jm_get (as_approvals s) i)"
  by (simp add: retire_all_approvals map_of_map_values)

lemma retire_all_wf:
  assumes "approvals_wf sha s"
  shows "approvals_wf sha (retire_all P st s)"
proof -
  have b: "as_byAction (retire_all P st s) = as_byAction s" by (simp add: retire_all_def)
  have ix: "approval_index (as_approvals s) (as_byAction s)" using assms unfolding approvals_wf_def by blast
  have "approval_index (as_approvals (retire_all P st s)) (as_byAction s)"
  proof (rule approval_indexI)
    fix i a assume "jm_get (as_approvals (retire_all P st s)) i = Some a"
    then obtain c where c: "jm_get (as_approvals s) i = Some c" "a = retire_entry P st c"
      by (auto simp: retire_all_get [OF assms])
    from approval_indexD [OF ix c(1)] c(2)
    show "ap_id a = i \<and> i \<noteq> [] \<and> jm_get (as_byAction s) (ai_actionId (ap_identity a)) = Some i" by simp
  next
    fix act i assume "jm_get (as_byAction s) act = Some i"
    with ix obtain c where "jm_get (as_approvals s) i = Some c" "ai_actionId (ap_identity c) = act"
      by (rule approval_index_action)
    then show "\<exists>a. jm_get (as_approvals (retire_all P st s)) i = Some a \<and> ai_actionId (ap_identity a) = act"
      by (simp add: retire_all_get [OF assms])
  qed
  moreover have "approval_ok sha a" if "a \<in> set (jm_values (as_approvals (retire_all P st s)))" for a
    using that assms unfolding approvals_wf_def
    by (auto simp: retire_all_approvals [OF assms] approval_ok_def)
  moreover have "jm_ok (as_approvals (retire_all P st s))"
    using approvals_wf_maps(1) [OF assms]
    by (simp add: retire_all_approvals [OF assms] split_beta comp_def)
  ultimately show ?thesis using assms b unfolding approvals_wf_def by simp
qed

lemma counts_def:
  "terminal_count s = count_values is_terminal (as_approvals s)"
  "active_count s = count_values is_active (as_approvals s)"
  by (simp_all add: terminal_count_def active_count_def count_values_def)

definition prunes :: "approval_store \<Rightarrow> approval_store \<Rightarrow> bool" where
  "prunes s s' \<longleftrightarrow> (\<forall>i. jm_get (as_approvals s') i = jm_get (as_approvals s) i \<or>
     (jm_get (as_approvals s') i = None \<and> (\<exists>a. jm_get (as_approvals s) i = Some a \<and> is_terminal a)))"

lemma prunes_refl [simp]: "prunes s s"
  by (simp add: prunes_def)

lemma prunes_trans: "prunes s t \<Longrightarrow> prunes t u \<Longrightarrow> prunes s u"
  unfolding prunes_def by metis

lemma prunes_Some:
  "prunes s s' \<Longrightarrow> jm_get (as_approvals s') i = Some a \<Longrightarrow> jm_get (as_approvals s) i = Some a"
  unfolding prunes_def by (metis option.distinct(1))

lemma prunes_active:
  "prunes s s' \<Longrightarrow> jm_get (as_approvals s) i = Some a \<Longrightarrow> is_active a \<Longrightarrow>
     jm_get (as_approvals s') i = Some a"
  unfolding prunes_def by (metis is_terminal_def option.inject)

lemma drop_approval_maps:
  assumes "approvals_wf sha s" and "jm_get (as_approvals s) i = Some a"
  shows "as_approvals (drop_approval i a s) = jm_delete i (as_approvals s)"
    "as_byAction (drop_approval i a s) = jm_delete (ai_actionId (ap_identity a)) (as_byAction s)"
  using approvals_wfD(3) [OF assms] by (simp_all add: drop_approval_def)

lemma drop_approval_wf:
  assumes wf: "approvals_wf sha s" and a: "jm_get (as_approvals s) i = Some a"
  shows "approvals_wf sha (drop_approval i a s)"
proof (rule approvals_wfI; (unfold drop_approval_maps [OF assms])?)
  show "approval_index (jm_delete i (as_approvals s)) (jm_delete (ai_actionId (ap_identity a)) (as_byAction s))"
  proof (rule approval_indexI)
    fix j c assume "jm_get (jm_delete i (as_approvals s)) j = Some c"
    then have j: "j \<noteq> i" "jm_get (as_approvals s) j = Some c" by (auto split: if_splits)
    with approvals_wfD [OF wf j(2)] approvals_wfD(3) [OF wf a]
    show "ap_id c = j \<and> j \<noteq> [] \<and> jm_get (jm_delete (ai_actionId (ap_identity a)) (as_byAction s))
        (ai_actionId (ap_identity c)) = Some j" by auto
  next
    fix act j assume "jm_get (jm_delete (ai_actionId (ap_identity a)) (as_byAction s)) act = Some j"
    then have act: "act \<noteq> ai_actionId (ap_identity a)" "jm_get (as_byAction s) act = Some j"
      by (auto split: if_splits)
    from wf act(2) obtain c where c: "jm_get (as_approvals s) j = Some c" "ai_actionId (ap_identity c) = act"
      by (rule approvals_wf_action)
    with act(1) a have "j \<noteq> i" by auto
    with c show "\<exists>c. jm_get (jm_delete i (as_approvals s)) j = Some c \<and> ai_actionId (ap_identity c) = act"
      by simp
  qed
next
  fix c assume "c \<in> set (jm_values (jm_delete i (as_approvals s)))"
  then have "c \<in> set (jm_values (as_approvals s))" using set_delete_values by fast
  then show "approval_ok sha c" by (rule approvals_wf_parts(2) [OF wf])
qed (use approvals_wf_maps [OF wf] in simp_all)

lemma drop_approval_prunes:
  assumes "approvals_wf sha s" and "jm_get (as_approvals s) i = Some a" and "is_terminal a"
  shows "prunes s (drop_approval i a s)"
  unfolding prunes_def drop_approval_maps [OF assms(1,2)] using assms(2,3) by simp

lemma drop_approval_counts:
  assumes "approvals_wf sha s" and "jm_get (as_approvals s) i = Some a" and "is_terminal a"
  shows "terminal_count s = Suc (terminal_count (drop_approval i a s))"
    "active_count (drop_approval i a s) = active_count s"
  using count_values_delete [OF approvals_wf_maps(1) [OF assms(1)] assms(2)] assms(3)
  by (simp_all add: counts_def drop_approval_maps [OF assms(1,2)] is_terminal_def)

lemma prune_loop_correct:
  assumes "approvals_wf sha s" and "\<forall>(i, a) \<in> set es. jm_get (as_approvals s) i = Some a"
    and "distinct (map fst es)" and "n = terminal_count s" and "APPROVAL_TERMINAL_LIMIT < n"
    and "n \<le> APPROVAL_TERMINAL_LIMIT + count_values is_terminal es"
  shows "approvals_wf sha (prune_loop es n s) \<and> prunes s (prune_loop es n s) \<and>
    terminal_count (prune_loop es n s) \<le> APPROVAL_TERMINAL_LIMIT \<and>
    active_count (prune_loop es n s) = active_count s"
  using assms
proof (induction es arbitrary: n s)
  case Nil
  then show ?case by simp
next
  case (Cons e es)
  obtain i a where e: "e = (i, a)" by (cases e)
  have a: "jm_get (as_approvals s) i = Some a" using Cons.prems(2) e by simp
  show ?case
  proof (cases "is_terminal a")
    case False
    with Cons e show ?thesis by simp
  next
    case True
    let ?d = "drop_approval i a s"
    note d = drop_approval_wf [OF Cons.prems(1) a] drop_approval_prunes [OF Cons.prems(1) a True]
      drop_approval_counts [OF Cons.prems(1) a True]
    show ?thesis
    proof (cases "n - 1 \<le> APPROVAL_TERMINAL_LIMIT")
      case True
      with \<open>is_terminal a\<close> d Cons.prems(4) e show ?thesis by simp
    next
      case False
      have "\<forall>(j, c) \<in> set es. jm_get (as_approvals ?d) j = Some c"
      proof (clarify)
        fix j c assume jc: "(j, c) \<in> set es"
        then have "j \<noteq> i" using Cons.prems(3) e by force
        moreover have "jm_get (as_approvals s) j = Some c" using Cons.prems(2) jc by auto
        ultimately show "jm_get (as_approvals ?d) j = Some c"
          by (simp add: drop_approval_maps [OF Cons.prems(1) a])
      qed
      then have "approvals_wf sha (prune_loop es (n - 1) ?d) \<and> prunes ?d (prune_loop es (n - 1) ?d) \<and>
          terminal_count (prune_loop es (n - 1) ?d) \<le> APPROVAL_TERMINAL_LIMIT \<and>
          active_count (prune_loop es (n - 1) ?d) = active_count ?d"
        using Cons.prems(3-6) e False d by (intro Cons.IH) (auto simp: \<open>is_terminal a\<close>)
      with \<open>is_terminal a\<close> False d(2,4) e prunes_trans show ?thesis by auto
    qed
  qed
qed

lemma prune_terminal_correct:
  assumes "approvals_wf sha s"
  shows "approvals_wf sha (prune_terminal s)" "prunes s (prune_terminal s)"
    "terminal_count (prune_terminal s) \<le> APPROVAL_TERMINAL_LIMIT"
    "active_count (prune_terminal s) = active_count s"
proof -
  have all: "\<forall>(i, a) \<in> set (as_approvals s). jm_get (as_approvals s) i = Some a"
    using approvals_wf_entry [OF assms] by blast
  have "approvals_wf sha (prune_terminal s) \<and> prunes s (prune_terminal s) \<and>
      terminal_count (prune_terminal s) \<le> APPROVAL_TERMINAL_LIMIT \<and>
      active_count (prune_terminal s) = active_count s"
  proof (cases "terminal_count s \<le> APPROVAL_TERMINAL_LIMIT")
    case True
    with assms show ?thesis by (simp add: prune_terminal_def)
  next
    case False
    with prune_loop_correct [OF assms all approvals_wf_maps(1) [OF assms] refl]
    show ?thesis by (simp add: prune_terminal_def counts_def(1))
  qed
  then show "approvals_wf sha (prune_terminal s)" "prunes s (prune_terminal s)"
    "terminal_count (prune_terminal s) \<le> APPROVAL_TERMINAL_LIMIT"
    "active_count (prune_terminal s) = active_count s" by simp_all
qed

lemma prune_terminal_small [simp]: "terminal_count s \<le> APPROVAL_TERMINAL_LIMIT \<Longrightarrow> prune_terminal s = s"
  by (simp add: prune_terminal_def)

section \<open>Expiry and revocation\<close>

definition approval_live :: "approval_store \<Rightarrow> string \<Rightarrow> approval option" where
  "approval_live s i =
    (case jm_get (as_approvals s) i of None \<Rightarrow> None | Some a \<Rightarrow> if is_active a then Some a else None)"

lemma approval_live_Some:
  "approval_live s i = Some a \<longleftrightarrow> jm_get (as_approvals s) i = Some a \<and> is_active a"
  by (auto simp: approval_live_def split: option.splits)

lemma approval_live_prunes: "prunes s s' \<Longrightarrow> approval_live s' i = approval_live s i"
  unfolding approval_live_def prunes_def
  by (cases "jm_get (as_approvals s') i = jm_get (as_approvals s) i") (auto simp: is_terminal_def split: option.splits)

text \<open>Retiring followed by pruning, the body of both \<open>expireAt\<close> and \<open>revokeWhere\<close>.\<close>

definition retire :: "(approval \<Rightarrow> bool) \<Rightarrow> approval_status \<Rightarrow> approval_store \<Rightarrow> approval_store" where
  "retire P st s = prune_terminal (retire_all P st s)"

lemma expire_at_eq: "snd (expire_at now s) = retire (\<lambda>a. ap_expiresAt a \<le> now) Expired s"
  by (simp add: expire_at_def retire_def retire_all_def split_beta)

lemma revoke_where_eq: "snd (revoke_where P now s) = retire P Revoked (snd (expire_at now s))"
  by (simp add: revoke_where_def retire_def retire_all_def split_beta Let_def)

lemma count_active_retire:
  "\<not> is_active_status st \<Longrightarrow>
     count_values is_active (map (\<lambda>(i, a). (i, retire_entry P st a)) m) \<le> count_values is_active m"
  by (induction m) (auto simp: retire_entry_def is_active_def)

lemma retire_ok:
  assumes "approvals_ok sha s" and "\<not> is_active_status st"
  shows "approvals_ok sha (retire P st s)"
proof -
  have wf: "approvals_wf sha s" using assms(1) by (simp add: approvals_ok_def)
  note r = prune_terminal_correct [OF retire_all_wf [OF wf, of P st]]
  have "active_count (retire_all P st s) \<le> active_count s"
    using count_active_retire [OF assms(2)] by (simp add: counts_def retire_all_approvals [OF wf])
  with r assms(1) show ?thesis by (simp add: approvals_ok_def retire_def)
qed

lemma retire_lookup:
  assumes "approvals_wf sha s" and "jm_get (as_approvals (retire P st s)) i = Some a'"
  obtains a where "jm_get (as_approvals s) i = Some a" "a' = retire_entry P st a"
  using prunes_Some [OF prune_terminal_correct(2) [OF retire_all_wf [OF assms(1)]]] assms
  unfolding retire_def by (fastforce simp: retire_all_get)

lemma retire_live:
  assumes "approvals_wf sha s" and "\<not> is_active_status st"
  shows "approval_live (retire P st s) i =
    (case approval_live s i of None \<Rightarrow> None | Some a \<Rightarrow> if P a then None else Some a)"
proof -
  have "approval_live (retire P st s) i = approval_live (retire_all P st s) i"
    unfolding retire_def
    by (rule approval_live_prunes) (rule prune_terminal_correct(2) [OF retire_all_wf [OF assms(1)]])
  also have "\<dots> = (case approval_live s i of None \<Rightarrow> None | Some a \<Rightarrow> if P a then None else Some a)"
    using assms(2) by (cases "jm_get (as_approvals s) i")
      (auto simp: approval_live_def retire_all_get [OF assms(1)] retire_entry_def is_active_def)
  finally show ?thesis .
qed

lemma approvals_ok_wf: "approvals_ok sha s \<Longrightarrow> approvals_wf sha s"
  by (simp add: approvals_ok_def)

lemma expire_at_ok: "approvals_ok sha s \<Longrightarrow> approvals_ok sha (snd (expire_at now s))"
  by (simp add: expire_at_eq retire_ok)

lemma revoke_where_ok: "approvals_ok sha s \<Longrightarrow> approvals_ok sha (snd (revoke_where P now s))"
  by (simp add: revoke_where_eq retire_ok expire_at_ok)

lemma revoke_where_live:
  assumes "approvals_ok sha s"
  shows "approval_live (snd (revoke_where P now s)) i =
    (case approval_live s i of None \<Rightarrow> None
     | Some a \<Rightarrow> if P a \<or> ap_expiresAt a \<le> now then None else Some a)"
  using retire_live [OF approvals_ok_wf [OF assms], of Expired] retire_live [OF approvals_ok_wf [OF expire_at_ok [OF assms]], of Revoked]
  by (auto simp: revoke_where_eq expire_at_eq split: option.splits)

interpretation appr_wd: withdrawal "approvals_ok sha" approval_live
    "\<lambda>(P, now) s. snd (revoke_where P now s)" "\<lambda>(P, now) a. P a \<or> ap_expiresAt a \<le> now" for sha
  by unfold_locales (auto simp: revoke_where_ok revoke_where_live)

section \<open>The life of an approval\<close>

text \<open>The public operations as a datatype, with what each call reads from outside.\<close>

datatype approval_op =
    OpRequest string jsv int
  | OpRequestCurrent string jsv int
  | OpApprove string string string int
  | OpDeny string string string int
  | OpConsume jsv int
  | OpExpire int
  | OpRevokeForLease string int
  | OpRevokeForIds "jsv list" int
  | OpRevokeAll int
  | OpSnapshot int

fun ap_step :: "(string \<Rightarrow> string) \<Rightarrow> approval_op \<Rightarrow> approval_store \<Rightarrow> approval_store" where
  "ap_step sha (OpRequest fresh input now) s = snd (ap_request sha fresh input now s)"
| "ap_step sha (OpRequestCurrent fresh input now) s = snd (request_current sha fresh input now s)"
| "ap_step sha (OpApprove i actor digest now) s = snd (approve sha i actor digest now s)"
| "ap_step sha (OpDeny i actor digest now) s = snd (deny sha i actor digest now s)"
| "ap_step sha (OpConsume input now) s = snd (consume sha input now s)"
| "ap_step sha (OpExpire now) s = snd (ap_expire now s)"
| "ap_step sha (OpRevokeForLease leaseId now) s = snd (revoke_for_lease leaseId now s)"
| "ap_step sha (OpRevokeForIds rids now) s = snd (revoke_for_approval_ids rids now s)"
| "ap_step sha (OpRevokeAll now) s = snd (ap_revoke_all now s)"
| "ap_step sha (OpSnapshot now) s = snd (ap_snapshot now s)"

fun revoking :: "approval_op \<Rightarrow> bool" where
  "revoking (OpRevokeForLease _ _) = True"
| "revoking (OpRevokeForIds _ _) = True"
| "revoking (OpRevokeAll _) = True"
| "revoking _ = False"

text \<open>The state machine: what one operation may do to one stored approval.\<close>

inductive approval_change :: "approval_op \<Rightarrow> approval \<Rightarrow> approval \<Rightarrow> bool" where
  expires: "is_active a \<Longrightarrow> approval_change op a (a\<lparr>ap_status := Expired\<rparr>)"
| revokes: "is_active a \<Longrightarrow> revoking op \<Longrightarrow> approval_change op a (a\<lparr>ap_status := Revoked\<rparr>)"
| approves: "ap_status a = Pending \<Longrightarrow> now < ap_expiresAt a \<Longrightarrow> \<not> js_blank actor \<Longrightarrow>
    approval_change (OpApprove (ap_id a) actor (ap_payloadDigest a) now) a
      (a\<lparr>ap_status := Approved, ap_resolvedBy := Some actor, ap_resolvedAt := Some now\<rparr>)"
| denies: "ap_status a = Pending \<Longrightarrow> now < ap_expiresAt a \<Longrightarrow> \<not> js_blank actor \<Longrightarrow>
    approval_change (OpDeny (ap_id a) actor (ap_payloadDigest a) now) a
      (a\<lparr>ap_status := Denied, ap_resolvedBy := Some actor, ap_resolvedAt := Some now\<rparr>)"
| consumes: "ap_status a = Approved \<Longrightarrow> now < ap_expiresAt a \<Longrightarrow> copy_assertion input = Inr c \<Longrightarrow>
    ca_approvalId c = ap_id a \<Longrightarrow>
    approval_change (OpConsume input now) a (a\<lparr>ap_status := Consumed, ap_consumedAt := Some now\<rparr>)"

inductive_cases approval_changeE: "approval_change op a a'"

inductive approval_created :: "approval_op \<Rightarrow> string \<Rightarrow> approval \<Rightarrow> bool" where
  request: "copy_identity input = Inr identity \<Longrightarrow> i \<noteq> [] \<Longrightarrow>
    approval_created (OpRequest i input now) i (make_approval sha i identity now)"
| request_current: "copy_identity input = Inr identity \<Longrightarrow> i \<noteq> [] \<Longrightarrow>
    approval_created (OpRequestCurrent i input now) i (make_approval sha i identity now)"

lemma approval_change_keeps:
  "approval_change op a a' \<Longrightarrow> ap_id a' = ap_id a \<and> ap_identity a' = ap_identity a \<and>
     ap_payloadDigest a' = ap_payloadDigest a \<and> ap_createdAt a' = ap_createdAt a \<and>
     ap_expiresAt a' = ap_expiresAt a"
  by (erule approval_changeE) auto

lemma approval_change_active: "approval_change op a a' \<Longrightarrow> is_active a"
  by (erule approval_changeE) (auto simp: is_active_def)

lemma approval_change_refl_free: "approval_change op a a' \<Longrightarrow> ap_status a' \<noteq> ap_status a"
  by (erule approval_changeE) (auto simp: is_active_def)

text \<open>
  \<open>evolves op s s'\<close>: every approval of \<open>s'\<close> is new, or one of \<open>s\<close> changed at most by one move;
  an approval that is gone was terminal, or was made terminal by this very operation.
\<close>

definition evolves :: "approval_op \<Rightarrow> approval_store \<Rightarrow> approval_store \<Rightarrow> bool" where
  "evolves op s s' \<longleftrightarrow>
    (\<forall>i a'. jm_get (as_approvals s') i = Some a' \<longrightarrow>
       approval_created op i a' \<or>
       (\<exists>a. jm_get (as_approvals s) i = Some a \<and> (a' = a \<or> approval_change op a a'))) \<and>
    (\<forall>i a. jm_get (as_approvals s) i = Some a \<longrightarrow> jm_get (as_approvals s') i = None \<longrightarrow>
       is_terminal a \<or> (\<exists>a'. approval_change op a a' \<and> is_terminal a'))"

lemma evolves_Some:
  assumes "evolves op s s'" and "jm_get (as_approvals s') i = Some a'"
  obtains "approval_created op i a'"
    | a where "jm_get (as_approvals s) i = Some a" "a' = a \<or> approval_change op a a'"
  using assms unfolding evolves_def by blast

lemma evolves_None:
  assumes "evolves op s s'" and "jm_get (as_approvals s) i = Some a" "jm_get (as_approvals s') i = None"
  shows "is_terminal a \<or> (\<exists>a'. approval_change op a a' \<and> is_terminal a')"
  using assms unfolding evolves_def by blast

lemma evolvesI:
  assumes "\<And>i a'. jm_get (as_approvals t) i = Some a' \<Longrightarrow> approval_created op i a' \<or>
       (\<exists>a. jm_get (as_approvals s) i = Some a \<and> (a' = a \<or> approval_change op a a'))"
    and "\<And>i a. jm_get (as_approvals s) i = Some a \<Longrightarrow>
       \<exists>a'. jm_get (as_approvals t) i = Some a' \<and> (a' = a \<or> approval_change op a a')"
    and "prunes t s'"
  shows "evolves op s s'"
  unfolding evolves_def
proof (intro conjI allI impI)
  fix i a' assume "jm_get (as_approvals s') i = Some a'"
  with assms(3) have "jm_get (as_approvals t) i = Some a'" by (rule prunes_Some)
  then show "approval_created op i a' \<or>
       (\<exists>a. jm_get (as_approvals s) i = Some a \<and> (a' = a \<or> approval_change op a a'))"
    by (rule assms(1))
next
  fix i a assume a: "jm_get (as_approvals s) i = Some a" "jm_get (as_approvals s') i = None"
  from assms(2) [OF a(1)] obtain c where c: "jm_get (as_approvals t) i = Some c"
    "c = a \<or> approval_change op a c" by blast
  with assms(3) a(2) have "is_terminal c" by (metis option.distinct(1) option.inject prunes_def)
  with c(2) show "is_terminal a \<or> (\<exists>a'. approval_change op a a' \<and> is_terminal a')" by auto
qed

lemma evolves_refl [simp]: "evolves op s s"
  by (simp add: evolves_def)

lemma retire_evolves:
  assumes "approvals_wf sha s" and "\<And>a. is_active a \<Longrightarrow> approval_change op a (a\<lparr>ap_status := st\<rparr>)"
  shows "evolves op s (retire P st s)"
  unfolding retire_def
proof (rule evolvesI [OF _ _ prune_terminal_correct(2) [OF retire_all_wf [OF assms(1)]]])
  fix i a' assume "jm_get (as_approvals (retire_all P st s)) i = Some a'"
  then obtain a where "jm_get (as_approvals s) i = Some a" "a' = retire_entry P st a"
    by (auto simp: retire_all_get [OF assms(1)])
  then show "approval_created op i a' \<or>
       (\<exists>a. jm_get (as_approvals s) i = Some a \<and> (a' = a \<or> approval_change op a a'))"
    using assms(2) by (auto simp: retire_entry_def)
next
  fix i a assume "jm_get (as_approvals s) i = Some a"
  then show "\<exists>a'. jm_get (as_approvals (retire_all P st s)) i = Some a' \<and> (a' = a \<or> approval_change op a a')"
    using assms(2) by (simp add: retire_all_get [OF assms(1)] retire_entry_def)
qed

text \<open>An expiry pass first does not add a second move: what it changed is terminal.\<close>

lemma evolves_after_expiry:
  assumes wf: "approvals_wf sha s" and ev: "evolves op (retire P Expired s) u"
  shows "evolves op s u"
  unfolding evolves_def
proof (intro conjI allI impI)
  fix i a' assume "jm_get (as_approvals u) i = Some a'"
  with ev show "approval_created op i a' \<or>
       (\<exists>a. jm_get (as_approvals s) i = Some a \<and> (a' = a \<or> approval_change op a a'))"
  proof (cases rule: evolves_Some)
    case (2 c)
    from wf 2(1) obtain a where a: "jm_get (as_approvals s) i = Some a" "c = retire_entry P Expired a"
      by (rule retire_lookup)
    show ?thesis
    proof (cases "is_active a \<and> P a")
      case True
      with a have "\<not> is_active c" by (simp add: retire_entry_def is_active_def)
      with 2(2) approval_change_active have "a' = c" by blast
      with a True show ?thesis by (auto simp: retire_entry_def intro: expires)
    next
      case False
      then have "retire_entry P Expired a = a" unfolding retire_entry_def by (rule if_not_P)
      with a 2(2) show ?thesis by simp
    qed
  qed simp
next
  fix i a assume a: "jm_get (as_approvals s) i = Some a" and u: "jm_get (as_approvals u) i = None"
  show "is_terminal a \<or> (\<exists>a'. approval_change op a a' \<and> is_terminal a')"
  proof (cases "is_active a \<and> P a")
    case True
    moreover have "is_terminal (a\<lparr>ap_status := Expired\<rparr>)" by (simp add: is_terminal_def is_active_def)
    ultimately show ?thesis using expires by blast
  next
    case False
    show ?thesis
    proof (cases "is_active a")
      case True
      with a have "approval_live s i = Some a" by (simp add: approval_live_Some)
      with False True have "approval_live (retire P Expired s) i = Some a"
        by (simp add: retire_live [OF wf])
      then have "jm_get (as_approvals (retire P Expired s)) i = Some a" by (simp add: approval_live_Some)
      from evolves_None [OF ev this u] show ?thesis .
    qed (simp add: is_terminal_def)
  qed
qed

section \<open>Requests, resolutions and consumption\<close>

lemma assert_identity_fieldsD:
  assumes "assert_identity_fields ms = Inr cap"
  shows "is_nonempty_string (js_get ms ''actionId'')" "is_nonempty_string (js_get ms ''taskId'')"
    "is_nonempty_string (js_get ms ''actorId'')" "is_nonempty_string (js_get ms ''leaseId'')"
    "js_capability (js_get ms ''capability'') = Some cap"
  using assms by (simp_all add: assert_identity_fields_def split: option.splits)

lemma build_identityD:
  assumes "build_identity ms cap = Inr a"
  shows "ai_actionId a = js_string (js_get ms ''actionId'')" "ai_taskId a = js_string (js_get ms ''taskId'')"
    "ai_actorId a = js_string (js_get ms ''actorId'')" "ai_leaseId a = js_string (js_get ms ''leaseId'')"
    "ai_subjectId a \<noteq> Some []" "ai_capability a = cap"
    "js_get ms ''effect'' = JsBranded (ai_effect a)" "is_sha256 (ai_executableDigest a)"
proof -
  obtain r e d where b: "copy_target (js_get ms ''resource'') = Inr r" "copy_effect (js_get ms ''effect'') = Inr e"
    "copy_executable_digest (js_get ms ''executablePayloadDigest'') = Inr d"
    and a: "a = \<lparr>ai_actionId = js_string (js_get ms ''actionId''), ai_ownerEpoch = js_int (js_get ms ''ownerEpoch''),
      ai_taskId = js_string (js_get ms ''taskId''), ai_actorId = js_string (js_get ms ''actorId''),
      ai_subjectId = (case js_get ms ''subjectId'' of JsStr s \<Rightarrow> truthy_string (Some s) | _ \<Rightarrow> None),
      ai_leaseId = js_string (js_get ms ''leaseId''), ai_leaseRevision = js_int (js_get ms ''leaseRevision''),
      ai_resource = r, ai_capability = cap, ai_effect = e, ai_executableDigest = d\<rparr>"
    using assms unfolding build_identity_def and_then_Inr by auto
  show "js_get ms ''effect'' = JsBranded (ai_effect a)"
    using b(2) a by (cases "js_get ms ''effect''") auto
  show "is_sha256 (ai_executableDigest a)"
    using b(3) a by (cases "js_get ms ''executablePayloadDigest''") (auto simp: copy_executable_digest_def split: if_splits)
  show "ai_subjectId a \<noteq> Some []"
    using a by (cases "js_get ms ''subjectId''") auto
qed (use assms in \<open>auto simp: build_identity_def and_then_Inr\<close>)

lemma copy_identityD:
  assumes "copy_identity input = Inr a"
  shows "ai_actionId a \<noteq> []" "ai_taskId a \<noteq> []" "ai_actorId a \<noteq> []" "ai_leaseId a \<noteq> []"
    "ai_subjectId a \<noteq> Some []" "is_sha256 (ai_executableDigest a)"
proof -
  obtain ms cap where ms: "assert_identity_fields ms = Inr cap" "build_identity ms cap = Inr a"
    using assms unfolding copy_identity_def and_then_Inr by blast
  show "ai_actionId a \<noteq> []" "ai_taskId a \<noteq> []" "ai_actorId a \<noteq> []" "ai_leaseId a \<noteq> []"
    using assert_identity_fieldsD(1-4) [OF ms(1)] build_identityD(1-4) [OF ms(2)]
    by (auto simp: is_nonempty_string_iff)
  show "ai_subjectId a \<noteq> Some []" "is_sha256 (ai_executableDigest a)"
    using build_identityD(5,8) [OF ms(2)] by blast+
qed

lemma copy_assertion_subject:
  assumes "copy_assertion input = Inr c"
  shows "ai_subjectId (ca_identity c) \<noteq> Some []"
proof -
  obtain ms cap where "build_identity ms cap = Inr (ca_identity c)"
    using assms unfolding copy_assertion_def and_then_Inr by (auto simp: and_then_Inr)
  then show ?thesis by (rule build_identityD(5))
qed

text \<open>The cases in which a request returns.\<close>

lemma request_at_eq:
  assumes "approvals_wf sha s" and "request_at sha fresh input now s = (r, s')"
  obtains
    (bad) e where "r = Inl e" "s' = s"
  | (again) identity a where "copy_identity input = Inr identity" "r = Inr a" "s' = s"
      "jm_get (as_approvals s) (ap_id a) = Some a" "ai_actionId (ap_identity a) = ai_actionId identity"
      "ap_payloadDigest a = digest_identity sha identity"
  | (made) identity a where "copy_identity input = Inr identity" "r = Inr a"
      "a = make_approval sha fresh identity now" "fresh \<noteq> []" "jm_get (as_approvals s) fresh = None"
      "jm_get (as_byAction s) (ai_actionId identity) = None" "active_count s < APPROVAL_ACTIVE_LIMIT"
      "s' = s\<lparr>as_approvals := jm_set fresh a (as_approvals s),
              as_byAction := jm_set (ai_actionId identity) fresh (as_byAction s)\<rparr>"
proof (cases "copy_identity input")
  case (Inl e)
  with assms(2) have "r = Inl e" "s' = s" by (simp_all add: request_at_def)
  then show ?thesis by (rule bad)
next
  case (Inr identity)
  show ?thesis
  proof (cases "jm_get (as_byAction s) (ai_actionId identity)")
    case (Some i)
    with assms(1) obtain a where a: "jm_get (as_approvals s) i = Some a"
      "ai_actionId (ap_identity a) = ai_actionId identity" by (rule approvals_wf_action)
    from approvals_wfD [OF assms(1) a(1)] have i: "ap_id a = i" "i \<noteq> []" by simp_all
    then obtain c cs where "i = c # cs" by (cases i) auto
    with Some Inr a have "(r, s') = (if ap_payloadDigest a = digest_identity sha identity then (Inr a, s)
        else (Inl ApprovalActionConflict, s))"
      using assms(2) by (simp add: request_at_def)
    then show ?thesis using a i Inr again bad by (auto split: if_splits)
  next
    case None
    let ?a = "make_approval sha fresh identity now"
    have make_id: "ap_id ?a = fresh" by (simp add: make_approval_def)
    from None Inr have "(r, s') =
      (if APPROVAL_ACTIVE_LIMIT \<le> active_count s then (Inl ApprovalCapacityExceeded, s)
       else if fresh = [] \<or> jm_get (as_approvals s) fresh \<noteq> None then (Inl ApprovalIdCollision, s)
       else (Inr ?a, s\<lparr>as_approvals := jm_set fresh ?a (as_approvals s),
                      as_byAction := jm_set (ai_actionId identity) fresh (as_byAction s)\<rparr>))"
      unfolding assms(2) [symmetric] using Inr None make_id by (simp add: request_at_def Let_def)
    then show ?thesis
      using bad made [OF Inr _ refl _ _ None] by (auto split: if_splits)
  qed
qed

lemma insert_ok:
  assumes ok: "approvals_ok sha s" and new: "jm_get (as_approvals s) fresh = None" "fresh \<noteq> []"
    "jm_get (as_byAction s) (ai_actionId identity) = None" "active_count s < APPROVAL_ACTIVE_LIMIT"
    and identity: "copy_identity input = Inr identity" and a: "a = make_approval sha fresh identity now"
  shows "approvals_ok sha (s\<lparr>as_approvals := jm_set fresh a (as_approvals s),
      as_byAction := jm_set (ai_actionId identity) fresh (as_byAction s)\<rparr>)" (is "approvals_ok sha ?s")
proof -
  note wf = approvals_ok_wf [OF ok]
  have fields: "ap_id a = fresh" "ap_identity a = identity" "ap_status a = Pending"
    using a by (simp_all add: make_approval_def)
  have "approvals_wf sha ?s"
  proof (rule approvals_wfI)
    have "approval_index (jm_set fresh a (as_approvals s)) (jm_set (ai_actionId identity) fresh (as_byAction s))"
    proof (rule approval_indexI)
      fix i c assume c: "jm_get (jm_set fresh a (as_approvals s)) i = Some c"
      show "ap_id c = i \<and> i \<noteq> [] \<and>
        jm_get (jm_set (ai_actionId identity) fresh (as_byAction s)) (ai_actionId (ap_identity c)) = Some i"
      proof (cases "i = fresh")
        case True
        with c fields new show ?thesis by simp
      next
        case False
        with c have "jm_get (as_approvals s) i = Some c" by simp
        from approvals_wfD [OF wf this] new(3) show ?thesis by auto
      qed
    next
      fix act i assume act: "jm_get (jm_set (ai_actionId identity) fresh (as_byAction s)) act = Some i"
      show "\<exists>c. jm_get (jm_set fresh a (as_approvals s)) i = Some c \<and> ai_actionId (ap_identity c) = act"
      proof (cases "act = ai_actionId identity")
        case True
        with act fields show ?thesis by simp
      next
        case False
        with act have "jm_get (as_byAction s) act = Some i" by simp
        with wf obtain c where "jm_get (as_approvals s) i = Some c" "ai_actionId (ap_identity c) = act"
          by (rule approvals_wf_action)
        with new(1) show ?thesis by auto
      qed
    qed
    then show "approval_index (as_approvals ?s) (as_byAction ?s)" by simp
    fix c assume "c \<in> set (jm_values (as_approvals ?s))"
    then have "c \<in> set (jm_values (jm_set fresh a (as_approvals s)))" by simp
    with set_update_values [of fresh a] have "c = a \<or> c \<in> set (jm_values (as_approvals s))" by blast
    moreover have "approval_ok sha a"
      using copy_identityD [OF identity] a by (simp add: approval_ok_def make_approval_def)
    ultimately show "approval_ok sha c" using approvals_wf_parts(2) [OF wf] by blast
  qed (use approvals_wf_maps [OF wf] in simp_all)
  moreover have "terminal_count ?s = terminal_count s" "active_count ?s = Suc (active_count s)"
    using count_values_insert [OF new(1)] fields by (simp_all add: counts_def is_terminal_def is_active_def)
  ultimately show ?thesis using ok new(4) by (simp add: approvals_ok_def)
qed

lemma request_at_ok:
  assumes "approvals_ok sha s"
  shows "approvals_ok sha (snd (request_at sha fresh input now s))"
proof (cases "request_at sha fresh input now s")
  case (Pair r s')
  with approvals_ok_wf [OF assms] show ?thesis
  proof (cases rule: request_at_eq)
    case (made identity a)
    from insert_ok [OF assms made(5,4,6,7,1,3)] made(8) Pair show ?thesis by simp
  qed (use assms Pair in simp_all)
qed

lemma request_at_evolves:
  assumes wf: "approvals_wf sha s" and op: "op = OpRequest fresh input now \<or> op = OpRequestCurrent fresh input now"
  shows "evolves op s (snd (request_at sha fresh input now s))"
proof (cases "request_at sha fresh input now s")
  case (Pair r s')
  with wf show ?thesis
  proof (cases rule: request_at_eq)
    case (made identity a)
    have new: "approval_created op fresh a" using op made(1,3,4) by (auto intro: approval_created.intros)
    show ?thesis
      unfolding Pair snd_conv
    proof (rule evolvesI [of s'])
      fix i a' assume "jm_get (as_approvals s') i = Some a'"
      with new made(8) show "approval_created op i a' \<or>
         (\<exists>a. jm_get (as_approvals s) i = Some a \<and> (a' = a \<or> approval_change op a a'))"
        by (cases "i = fresh") auto
    next
      fix i c assume "jm_get (as_approvals s) i = Some c"
      with made(5,8) show "\<exists>a'. jm_get (as_approvals s') i = Some a' \<and> (a' = c \<or> approval_change op c a')"
        by (cases "i = fresh") auto
    qed simp
  qed (simp_all add: Pair)
qed


text \<open>Replacing a stored approval by its next state and pruning.\<close>

definition replace_approval :: "approval \<Rightarrow> approval_store \<Rightarrow> approval_store" where
  "replace_approval a' s =
     prune_terminal (s\<lparr>as_approvals := jm_set (ap_id a') a' (as_approvals s)\<rparr>)"

lemma replace_ok:
  assumes ok: "approvals_ok sha s" and a: "jm_get (as_approvals s) i = Some a"
    and a': "ap_id a' = ap_id a" "ap_identity a' = ap_identity a" "ap_payloadDigest a' = ap_payloadDigest a"
    and act: "is_active a"
  shows "approvals_ok sha (replace_approval a' s)"
proof -
  let ?s = "s\<lparr>as_approvals := jm_set (ap_id a') a' (as_approvals s)\<rparr>"
  note wf = approvals_ok_wf [OF ok]
  have i: "ap_id a' = i" using approvals_wfD(1) [OF wf a] a' by simp
  have wf': "approvals_wf sha ?s" using approvals_wf_replace [OF wf a a'] i by simp
  have "active_count ?s \<le> active_count s"
    using count_values_replace [OF a, of is_active a'] act i by (simp add: counts_def split: if_splits)
  with prune_terminal_correct [OF wf'] ok show ?thesis by (simp add: approvals_ok_def replace_approval_def)
qed

lemma replace_evolves:
  assumes wf: "approvals_wf sha s" and a: "jm_get (as_approvals s) i = Some a"
    and change: "approval_change op a a'"
  shows "evolves op s (replace_approval a' s)"
proof -
  let ?s = "s\<lparr>as_approvals := jm_set (ap_id a') a' (as_approvals s)\<rparr>"
  have i: "ap_id a' = i" using approvals_wfD(1) [OF wf a] approval_change_keeps [OF change] by simp
  have wf': "approvals_wf sha ?s"
    using approvals_wf_replace [OF wf a, of a'] approval_change_keeps [OF change] i by simp
  show ?thesis
    unfolding replace_approval_def
  proof (rule evolvesI [OF _ _ prune_terminal_correct(2) [OF wf']])
    fix j c assume "jm_get (as_approvals ?s) j = Some c"
    with a i change show "approval_created op j c \<or>
        (\<exists>a. jm_get (as_approvals s) j = Some a \<and> (c = a \<or> approval_change op a c))"
      by (cases "j = i") auto
  next
    fix j c assume "jm_get (as_approvals s) j = Some c"
    with a i change show "\<exists>c'. jm_get (as_approvals ?s) j = Some c' \<and> (c' = c \<or> approval_change op c c')"
      by (cases "j = i") auto
  qed
qed

lemma replace_lookup:
  assumes "approvals_wf sha s" and "jm_get (as_approvals s) i = Some a" and "ap_id a' = ap_id a"
    "ap_identity a' = ap_identity a" "ap_payloadDigest a' = ap_payloadDigest a"
  shows "jm_get (as_approvals (replace_approval a' s)) i \<in> {None, Some a'}"
proof -
  let ?s = "s\<lparr>as_approvals := jm_set (ap_id a') a' (as_approvals s)\<rparr>"
  have i: "ap_id a' = i" using approvals_wfD(1) [OF assms(1,2)] assms(3) by simp
  have wf': "approvals_wf sha ?s" using approvals_wf_replace [OF assms] i by simp
  have "jm_get (as_approvals ?s) i = Some a'" using i by simp
  with prune_terminal_correct(2) [OF wf'] show ?thesis
    unfolding prunes_def replace_approval_def by (metis insertCI)
qed

lemma require_current_eq:
  assumes "approvals_wf sha s" and "require_current i now s = (r, s')"
  obtains
    (missing) "r = Inl ApprovalMissing" "s' = s" "jm_get (as_approvals s) i = None"
  | (lapsed) a where "r = Inl ApprovalExpired" "jm_get (as_approvals s) i = Some a" "is_active a"
      "ap_expiresAt a \<le> now" "s' = replace_approval (a\<lparr>ap_status := Expired\<rparr>) s"
  | (expired) a where "r = Inl ApprovalExpired" "s' = s" "jm_get (as_approvals s) i = Some a"
      "ap_status a = Expired"
  | (found) a where "r = Inr a" "s' = s" "jm_get (as_approvals s) i = Some a"
      "ap_status a \<noteq> Expired" "is_active a \<longrightarrow> now < ap_expiresAt a"
proof (cases "jm_get (as_approvals s) i")
  case None
  with assms(2) missing show ?thesis by (simp add: require_current_def)
next
  case (Some a)
  from approvals_wfD(1) [OF assms(1) Some] have i: "ap_id a = i" .
  show ?thesis
  proof (cases "is_active a \<and> ap_expiresAt a \<le> now")
    case True
    with assms(2) Some i have "r = Inl ApprovalExpired" "s' = replace_approval (a\<lparr>ap_status := Expired\<rparr>) s"
      by (simp_all add: require_current_def replace_approval_def)
    with Some True lapsed show ?thesis by blast
  next
    case False
    with Some have "(r, s') = (if ap_status a = Expired then Inl ApprovalExpired else Inr a, s)"
      unfolding assms(2) [symmetric] by (simp add: require_current_def False)
    with Some False expired found show ?thesis by (auto split: if_splits)
  qed
qed

lemma lapsed_replace:
  assumes "approvals_ok sha s" "jm_get (as_approvals s) i = Some a" "is_active a"
  shows "approvals_ok sha (replace_approval (a\<lparr>ap_status := Expired\<rparr>) s)"
    "evolves op s (replace_approval (a\<lparr>ap_status := Expired\<rparr>) s)"
  using assms by (auto intro: replace_ok replace_evolves [OF approvals_ok_wf] expires)

text \<open>The cases in which a resolution returns.\<close>

lemma resolve_eq:
  assumes "approvals_ok sha s" and "resolve sha i actor digest status now s = (r, s')"
  obtains
    (bad) e where "r = Inl e" "s' = s"
  | (lapsed) a where "r = Inl ApprovalExpired" "jm_get (as_approvals s) i = Some a" "is_active a"
      "ap_expiresAt a \<le> now" "s' = replace_approval (a\<lparr>ap_status := Expired\<rparr>) s"
  | (resolved) a a' where "r = Inr a'" "jm_get (as_approvals s) i = Some a" "ap_status a = Pending"
      "now < ap_expiresAt a" "digest = ap_payloadDigest a" "\<not> js_blank actor" "ap_id a = i"
      "a' = a\<lparr>ap_status := status, ap_resolvedBy := Some actor, ap_resolvedAt := Some now\<rparr>"
      "s' = replace_approval a' s"
proof (cases "actor = [] \<or> js_blank actor")
  case True
  with assms(2) have "r = Inl ApprovalIdentityMismatch" "s' = s" by (simp_all add: resolve_def)
  then show ?thesis by (rule bad)
next
  case False
  note wf = approvals_ok_wf [OF assms(1)]
  obtain q s1 where q: "require_current i now s = (q, s1)" by (cases "require_current i now s")
  with wf show ?thesis
  proof (cases rule: require_current_eq)
    case missing
    with assms(2) False q have "r = Inl ApprovalMissing" "s' = s" by (simp_all add: resolve_def)
    then show ?thesis by (rule bad)
  next
    case (lapsed a)
    with assms(2) False q have "r = Inl ApprovalExpired" "s' = replace_approval (a\<lparr>ap_status := Expired\<rparr>) s"
      by (simp_all add: resolve_def)
    with lapsed that(2) show ?thesis by blast
  next
    case (expired a)
    with assms(2) False q have "r = Inl ApprovalExpired" "s' = s" by (simp_all add: resolve_def)
    then show ?thesis by (rule bad)
  next
    case (found a)
    show ?thesis
    proof (cases "and_then (assert_digest a digest) (\<lambda>_. assert_stored_digest sha a)")
      case (Inl e)
      with assms(2) False q found have "r = Inl e" "s' = s" by (simp_all add: resolve_def)
      then show ?thesis by (rule bad)
    next
      case (Inr u)
      let ?a = "a\<lparr>ap_status := status, ap_resolvedBy := Some actor, ap_resolvedAt := Some now\<rparr>"
      from approvals_wfD(1) [OF wf found(3)] have i: "ap_id a = i" .
      from Inr have d: "digest = ap_payloadDigest a" by (auto simp: and_then_Inr assert_digest_def)
      have "(r, s') = (if ap_status a \<noteq> Pending then (Inl ApprovalDenied, s) else (Inr ?a, replace_approval ?a s))"
        unfolding assms(2) [symmetric] using False q found Inr i
        by (simp add: resolve_def replace_approval_def Let_def)
      then show ?thesis
        using bad resolved [OF _ found(3) _ _ d _ i refl] found(5) False
        by (auto simp: is_active_def split: if_splits)
    qed
  qed
qed

lemma resolve_ok:
  assumes "approvals_ok sha s"
  shows "approvals_ok sha (snd (resolve sha i actor digest status now s))"
proof (cases "resolve sha i actor digest status now s")
  case (Pair r s')
  with assms show ?thesis
  proof (cases rule: resolve_eq)
    case (resolved a a')
    then have "approvals_ok sha s'"
      unfolding resolved(9) using assms by (intro replace_ok [of sha s i a]) (simp_all add: is_active_def)
    with Pair show ?thesis by simp
  qed (use assms Pair lapsed_replace(1) in auto)
qed

lemma resolve_evolves:
  assumes "approvals_ok sha s"
    and op: "status = Approved \<and> op = OpApprove i actor digest now \<or> status = Denied \<and> op = OpDeny i actor digest now"
  shows "evolves op s (snd (resolve sha i actor digest status now s))"
proof (cases "resolve sha i actor digest status now s")
  case (Pair r s')
  with assms(1) show ?thesis
  proof (cases rule: resolve_eq)
    case (resolved a a')
    from op have "approval_change op a a'"
      unfolding resolved(8) resolved(5) resolved(7) [symmetric]
      using approves [OF resolved(3,4,6)] denies [OF resolved(3,4,6)] by auto
    from replace_evolves [OF approvals_ok_wf [OF assms(1)] resolved(2) this] resolved(9) Pair
    show ?thesis by simp
  qed (use assms(1) Pair lapsed_replace(2) in auto)
qed

text \<open>The cases in which a consumption returns.\<close>

lemma assert_stored_digestD:
  "assert_stored_digest sha a = Inr u \<Longrightarrow> digest_identity sha (ap_identity a) = ap_payloadDigest a"
  by (simp add: assert_stored_digest_def)

lemma assert_stored_digest_ok: "approval_ok sha a \<Longrightarrow> assert_stored_digest sha a = Inr ()"
  by (simp add: assert_stored_digest_def approval_ok_def)

lemma consume_eq:
  assumes "approvals_ok sha s" and "consume sha input now s = (r, s')"
  obtains
    (bad) e where "r = Inl e" "s' = s"
  | (lapsed) a c where "r = Inl ApprovalExpired" "copy_assertion input = Inr c"
      "jm_get (as_approvals s) (ca_approvalId c) = Some a" "is_active a"
      "ap_expiresAt a \<le> now" "s' = replace_approval (a\<lparr>ap_status := Expired\<rparr>) s"
  | (consumed) a c a' where "r = Inr a'" "copy_assertion input = Inr c"
      "jm_get (as_approvals s) (ca_approvalId c) = Some a" "ap_status a = Approved" "now < ap_expiresAt a"
      "assertion_matches a c" "digest_identity sha (ca_identity c) = ap_payloadDigest a"
      "ca_payloadDigest c = ap_payloadDigest a" "ca_approvalId c = ap_id a"
      "a' = a\<lparr>ap_status := Consumed, ap_consumedAt := Some now\<rparr>" "s' = replace_approval a' s"
proof (cases "copy_assertion input")
  case (Inl e)
  with assms(2) have "r = Inl e" "s' = s" by (simp_all add: consume_def)
  then show ?thesis by (rule bad)
next
  case (Inr c)
  note wf = approvals_ok_wf [OF assms(1)]
  obtain q s1 where q: "require_current (ca_approvalId c) now s = (q, s1)"
    by (cases "require_current (ca_approvalId c) now s")
  with wf show ?thesis
  proof (cases rule: require_current_eq)
    case missing
    with assms(2) Inr q have "r = Inl ApprovalMissing" "s' = s" by (simp_all add: consume_def)
    then show ?thesis by (rule bad)
  next
    case (lapsed a)
    with assms(2) Inr q have "r = Inl ApprovalExpired" "s' = replace_approval (a\<lparr>ap_status := Expired\<rparr>) s"
      by (simp_all add: consume_def)
    with lapsed Inr that(2) show ?thesis by blast
  next
    case (expired a)
    with assms(2) Inr q have "r = Inl ApprovalExpired" "s' = s" by (simp_all add: consume_def)
    then show ?thesis by (rule bad)
  next
    case (found a)
    let ?a = "a\<lparr>ap_status := Consumed, ap_consumedAt := Some now\<rparr>"
    let ?d = "digest_identity sha (ca_identity c)"
    from approvals_wfD [OF wf found(3)] have i: "ap_id a = ca_approvalId c" and "approval_ok sha a" by auto
    then have "(r, s') =
      (if \<not> assertion_matches a c then (Inl ApprovalIdentityMismatch, s)
       else if ?d \<noteq> ca_payloadDigest c \<or> ?d \<noteq> ap_payloadDigest a then (Inl ApprovalDigestMismatch, s)
       else if ap_status a \<noteq> Approved then (Inl ApprovalDenied, s)
       else (Inr ?a, replace_approval ?a s))"
      unfolding assms(2) [symmetric] using Inr q found
      by (simp add: consume_def assert_stored_digest_ok replace_approval_def Let_def)
    then show ?thesis
      using bad consumed [OF _ Inr found(3) _ _ _ _ _ i [symmetric] refl] found(5)
      by (auto simp: is_active_def split: if_splits)
  qed
qed

lemma consume_ok:
  assumes "approvals_ok sha s"
  shows "approvals_ok sha (snd (consume sha input now s))"
proof (cases "consume sha input now s")
  case (Pair r s')
  with assms show ?thesis
  proof (cases rule: consume_eq)
    case (consumed a c a')
    then have "approvals_ok sha s'"
      unfolding consumed(11) using assms by (intro replace_ok [OF _ consumed(3)]) (simp_all add: is_active_def)
    with Pair show ?thesis by simp
  qed (use assms Pair lapsed_replace(1) in auto)
qed

lemma consume_evolves:
  assumes "approvals_ok sha s"
  shows "evolves (OpConsume input now) s (snd (consume sha input now s))"
proof (cases "consume sha input now s")
  case (Pair r s')
  with assms show ?thesis
  proof (cases rule: consume_eq)
    case (consumed a c a')
    have "approval_change (OpConsume input now) a a'"
      unfolding consumed(10) by (rule consumes [OF consumed(4,5,2,9)])
    from replace_evolves [OF approvals_ok_wf [OF assms] consumed(3) this] consumed(11) Pair
    show ?thesis by simp
  qed (use assms Pair lapsed_replace(2) in auto)
qed

section \<open>Every operation\<close>

lemma revoke_where_evolves:
  assumes "approvals_ok sha s" and "revoking op"
  shows "evolves op s (snd (revoke_where P now s))"
proof -
  have "evolves op (snd (expire_at now s)) (snd (revoke_where P now s))"
    unfolding revoke_where_eq using assms
    by (intro retire_evolves [OF approvals_ok_wf [OF expire_at_ok]] revokes)
  then show ?thesis
    using evolves_after_expiry [OF approvals_ok_wf [OF assms(1)]] by (simp add: expire_at_eq)
qed

lemma ap_step_correct:
  assumes ok: "approvals_ok sha s"
  shows "approvals_ok sha (ap_step sha op s) \<and> evolves op s (ap_step sha op s)"
proof (cases op)
  case (OpRequest fresh input now)
  have "evolves op (snd (expire_at now s)) (snd (ap_request sha fresh input now s))"
    unfolding ap_request_def using OpRequest
    by (intro request_at_evolves [OF approvals_ok_wf [OF expire_at_ok [OF ok]]]) simp
  then have "evolves op s (snd (ap_request sha fresh input now s))"
    using evolves_after_expiry [OF approvals_ok_wf [OF ok]] by (simp add: expire_at_eq)
  with OpRequest request_at_ok [OF expire_at_ok [OF ok]] show ?thesis by (simp add: ap_request_def)
next
  case (OpRequestCurrent fresh input now)
  with request_at_ok [OF ok] request_at_evolves [OF approvals_ok_wf [OF ok]] show ?thesis
    by (simp add: request_current_def)
next
  case (OpApprove i actor digest now)
  with resolve_ok [OF ok] resolve_evolves [OF ok, of Approved] show ?thesis by (simp add: approve_def)
next
  case (OpDeny i actor digest now)
  with resolve_ok [OF ok] resolve_evolves [OF ok, of Denied] show ?thesis by (simp add: deny_def)
next
  case (OpConsume input now)
  with consume_ok [OF ok] consume_evolves [OF ok] show ?thesis by simp
next
  case (OpExpire now)
  with expire_at_ok [OF ok] retire_evolves [OF approvals_ok_wf [OF ok]] expires show ?thesis
    by (simp add: ap_expire_def expire_at_eq)
next
  case (OpRevokeForLease leaseId now)
  with revoke_where_ok [OF ok] revoke_where_evolves [OF ok] show ?thesis by (simp add: revoke_for_lease_def)
next
  case (OpRevokeForIds rids now)
  with revoke_where_ok [OF ok] revoke_where_evolves [OF ok] ok show ?thesis
    by (simp add: revoke_for_approval_ids_def Let_def)
next
  case (OpRevokeAll now)
  with revoke_where_ok [OF ok] revoke_where_evolves [OF ok] show ?thesis by (simp add: ap_revoke_all_def)
next
  case (OpSnapshot now)
  with expire_at_ok [OF ok] retire_evolves [OF approvals_ok_wf [OF ok]] expires show ?thesis
    by (simp add: ap_snapshot_def expire_at_eq Let_def)
qed

lemmas ap_step_ok = ap_step_correct [THEN conjunct1]
  and ap_step_evolves = ap_step_correct [THEN conjunct2]

lemma ap_run_ok: "approvals_ok sha s \<Longrightarrow> approvals_ok sha (fold (ap_step sha) ops s)"
  by (induction ops arbitrary: s) (auto simp: ap_step_ok)

end
