(* ===== verification/ApprovalProperties.thy ===== *)
theory ApprovalProperties
  imports Approvals
begin

text \<open>
  What the approval store guarantees: the digest determines the intent it was computed from,
  consumption is exact, bound to the requested intent, preceded by an operator's approval and
  possible once, the life cycle, the bounds and the effect of revocation.
\<close>

section \<open>The digest determines the intent\<close>

lemma map_of_sorted_members:
  assumes "distinct (map fst ms)"
  shows "map_of (sort_key fst (map (\<lambda>(k, v). (k, f v)) ms)) k = map_option f (map_of ms k)"
proof -
  let ?l = "map (\<lambda>(k, v). (k, f v)) ms"
  have d: "distinct (map fst ?l)" using assms by (simp add: split_beta comp_def)
  then have "distinct (map fst (sort_key fst ?l))"
    by (metis distinct_map distinct_sort set_sort)
  then have "map_of (sort_key fst ?l) = map_of ?l"
    using d by (metis map_of_eqI map_of_inject_set set_sort)
  then show ?thesis by (simp add: map_of_map_values)
qed

lemma sorted_members_eq:
  assumes "sort_object_keys (JObj ms) = sort_object_keys (JObj ns)"
    and "distinct (map fst ms)" and "distinct (map fst ns)"
  shows "map_option sort_object_keys (map_of ms k) = map_option sort_object_keys (map_of ns k)"
  using assms map_of_sorted_members [OF assms(2), of sort_object_keys k]
    map_of_sorted_members [OF assms(3), of sort_object_keys k] by simp

lemma effect_name_inj [simp]: "effect_name k = effect_name k' \<longleftrightarrow> k = k'"
  by (cases k; cases k') simp_all

lemma resource_json_inj:
  assumes "sort_object_keys (resource_json r) = sort_object_keys (resource_json r')"
  shows "r = r'"
proof -
  obtain ms ns where m: "resource_json r = JObj ms" "resource_json r' = JObj ns"
    "distinct (map fst ms)" "distinct (map fst ns)"
    by (cases r; cases r') auto
  note f = sorted_members_eq [OF assms [unfolded m(1,2)] m(3,4)]
  from f [of "''kind''"] f [of "''id''"] f [of "''generation''"] m show ?thesis
    by (cases r; cases r') (auto split: surface_kind.splits)
qed

lemma effect_json_inj:
  assumes "sort_object_keys (effect_json e) = sort_object_keys (effect_json e')"
  shows "e = e'"
proof -
  note f = sorted_members_eq [OF assms [unfolded effect_json_def]]
  from f [of "''kind''"] f [of "''target''"] show ?thesis by simp
qed

lemma identity_payload_fields:
  obtains ms where "identity_payload a = JObj ms" "distinct (map fst ms)"
    "map_of ms ''actionId'' = Some (JStr (ai_actionId a))"
    "map_of ms ''ownerEpoch'' = Some (JNum (ai_ownerEpoch a))"
    "map_of ms ''taskId'' = Some (JStr (ai_taskId a))"
    "map_of ms ''actorId'' = Some (JStr (ai_actorId a))"
    "map_of ms ''subjectId'' = map_option JStr (truthy_string (ai_subjectId a))"
    "map_of ms ''leaseId'' = Some (JStr (ai_leaseId a))"
    "map_of ms ''leaseRevision'' = Some (JNum (ai_leaseRevision a))"
    "map_of ms ''resource'' = Some (resource_json (ai_resource a))"
    "map_of ms ''capability'' = Some (JStr (capability_name (ai_capability a)))"
    "map_of ms ''effect'' = Some (effect_json (ai_effect a))"
    "map_of ms ''executablePayloadDigest'' = Some (JStr (ai_executableDigest a))"
proof (cases "truthy_string (ai_subjectId a)")
  case None
  show ?thesis by (rule that [OF identity_payload_def]) (simp_all add: None)
next
  case (Some s)
  show ?thesis by (rule that [OF identity_payload_def]) (simp_all add: Some)
qed

lemma identity_payload_inj:
  assumes "stable_key_json (identity_payload a) = stable_key_json (identity_payload b)"
    and "ai_subjectId a \<noteq> Some []" and "ai_subjectId b \<noteq> Some []"
  shows "a = b"
proof -
  obtain ms where ms: "identity_payload a = JObj ms" "distinct (map fst ms)"
    "map_of ms ''actionId'' = Some (JStr (ai_actionId a))"
    "map_of ms ''ownerEpoch'' = Some (JNum (ai_ownerEpoch a))"
    "map_of ms ''taskId'' = Some (JStr (ai_taskId a))"
    "map_of ms ''actorId'' = Some (JStr (ai_actorId a))"
    "map_of ms ''subjectId'' = map_option JStr (truthy_string (ai_subjectId a))"
    "map_of ms ''leaseId'' = Some (JStr (ai_leaseId a))"
    "map_of ms ''leaseRevision'' = Some (JNum (ai_leaseRevision a))"
    "map_of ms ''resource'' = Some (resource_json (ai_resource a))"
    "map_of ms ''capability'' = Some (JStr (capability_name (ai_capability a)))"
    "map_of ms ''effect'' = Some (effect_json (ai_effect a))"
    "map_of ms ''executablePayloadDigest'' = Some (JStr (ai_executableDigest a))"
    by (rule identity_payload_fields)
  obtain ns where ns: "identity_payload b = JObj ns" "distinct (map fst ns)"
    "map_of ns ''actionId'' = Some (JStr (ai_actionId b))"
    "map_of ns ''ownerEpoch'' = Some (JNum (ai_ownerEpoch b))"
    "map_of ns ''taskId'' = Some (JStr (ai_taskId b))"
    "map_of ns ''actorId'' = Some (JStr (ai_actorId b))"
    "map_of ns ''subjectId'' = map_option JStr (truthy_string (ai_subjectId b))"
    "map_of ns ''leaseId'' = Some (JStr (ai_leaseId b))"
    "map_of ns ''leaseRevision'' = Some (JNum (ai_leaseRevision b))"
    "map_of ns ''resource'' = Some (resource_json (ai_resource b))"
    "map_of ns ''capability'' = Some (JStr (capability_name (ai_capability b)))"
    "map_of ns ''effect'' = Some (effect_json (ai_effect b))"
    "map_of ns ''executablePayloadDigest'' = Some (JStr (ai_executableDigest b))"
    by (rule identity_payload_fields)
  have "sort_object_keys (JObj ms) = sort_object_keys (JObj ns)"
    using assms(1) unfolding stable_key_json_def stringify_inj ms(1) ns(1) .
  note f = sorted_members_eq [OF this ms(2) ns(2)]
  have opt: "truthy_string x = x" if "x \<noteq> Some []" for x using that by (cases x) (auto simp: truthy_string_def)
  have js: "map_option sort_object_keys (map_option JStr x) = map_option JStr x" for x by (cases x) simp_all
  have "map_option JStr (ai_subjectId a) = map_option JStr (ai_subjectId b)"
    using f [of "''subjectId''"] opt assms(2,3) by (simp add: ms(7) ns(7) js)
  then have "ai_subjectId a = ai_subjectId b"
    by (metis json.inject(3) option.inj_map_strong)
  moreover have "ai_resource a = ai_resource b"
    using f [of "''resource''"] by (auto simp: ms(10) ns(10) intro: resource_json_inj)
  moreover have "ai_effect a = ai_effect b"
    using f [of "''effect''"] by (auto simp: ms(12) ns(12) intro: effect_json_inj)
  moreover have "ai_actionId a = ai_actionId b" using f [of "''actionId''"] by (simp add: ms(3) ns(3))
  moreover have "ai_ownerEpoch a = ai_ownerEpoch b" using f [of "''ownerEpoch''"] by (simp add: ms(4) ns(4))
  moreover have "ai_taskId a = ai_taskId b" using f [of "''taskId''"] by (simp add: ms(5) ns(5))
  moreover have "ai_actorId a = ai_actorId b" using f [of "''actorId''"] by (simp add: ms(6) ns(6))
  moreover have "ai_leaseId a = ai_leaseId b" using f [of "''leaseId''"] by (simp add: ms(8) ns(8))
  moreover have "ai_leaseRevision a = ai_leaseRevision b" using f [of "''leaseRevision''"] by (simp add: ms(9) ns(9))
  moreover have "ai_capability a = ai_capability b" using f [of "''capability''"] by (simp add: ms(11) ns(11))
  moreover have "ai_executableDigest a = ai_executableDigest b"
    using f [of "''executablePayloadDigest''"] by (simp add: ms(13) ns(13))
  ultimately show ?thesis by (cases a; cases b) simp
qed

section \<open>A concrete store\<close>

text \<open>
  A constant digest is enough for the examples: the hypothesis on \<open>sha\<close> compares the digests of
  the two intents at hand only.
\<close>

definition demo_sha :: "string \<Rightarrow> string" where
  "demo_sha _ = replicate 64 (CHR ''a'')"

definition demo_effect :: redacted_effect where
  "demo_effect = \<lparr>ef_kind = CloseEffect, ef_target = ''pane''\<rparr>"

definition demo_members :: "string \<Rightarrow> (string \<times> jsv) list" where
  "demo_members act =
    [(''actionId'', JsStr act), (''ownerEpoch'', JsInt 3), (''taskId'', JsStr ''t''), (''actorId'', JsStr ''agent''),
     (''leaseId'', JsStr ''l''), (''leaseRevision'', JsInt 1),
     (''resource'', JsObj [(''kind'', JsStr ''pane''), (''id'', JsStr ''p''), (''generation'', JsInt 2)]),
     (''capability'', JsStr ''pane.close''), (''effect'', JsBranded demo_effect),
     (''executablePayloadDigest'', JsStr (replicate 64 (CHR ''a'')))]"

definition demo_request :: "string \<Rightarrow> jsv" where
  "demo_request act = JsObj (demo_members act)"

definition demo_consume :: "string \<Rightarrow> string \<Rightarrow> jsv" where
  "demo_consume i act = JsObj ([(''approvalId'', JsStr i), (''payloadDigest'', JsStr (replicate 64 (CHR ''a'')))]
     @ demo_members act)"

definition demo_identity :: "string \<Rightarrow> approval_identity" where
  "demo_identity act = \<lparr>ai_actionId = act, ai_ownerEpoch = 3, ai_taskId = ''t'', ai_actorId = ''agent'',
     ai_subjectId = None, ai_leaseId = ''l'', ai_leaseRevision = 1, ai_resource = SurfaceTarget PaneKind ''p'' 2,
     ai_capability = PaneClose, ai_effect = demo_effect, ai_executableDigest = replicate 64 (CHR ''a'')\<rparr>"

lemma demo_sha_hex: "is_sha256 (replicate 64 (CHR ''a''))"
  by (simp add: is_sha256_def is_hex_def list_all_iff)

lemma demo_digest [simp]: "digest_identity demo_sha a = replicate 64 (CHR ''a'')"
  by (simp add: digest_identity_def demo_sha_def)

lemma demo_fields: "act \<noteq> [] \<Longrightarrow> assert_identity_fields (demo_members act) = Inr PaneClose"
  by (simp add: assert_identity_fields_def demo_members_def is_authority_integer_def MAX_SAFE_INTEGER_def
      parse_capability_def CAPABILITIES_def)

lemma demo_target: "copy_target (JsObj [(''kind'', JsStr ''pane''), (''id'', JsStr ''p''), (''generation'', JsInt 2)]) =
    Inr (SurfaceTarget PaneKind ''p'' 2)"
  by (simp add: copy_target_def plain_members_def is_authority_integer_def MAX_SAFE_INTEGER_def
      assert_exact_keys_def)

lemma demo_build: "build_identity (demo_members act) PaneClose = Inr (demo_identity act)"
  by (simp add: build_identity_def demo_members_def demo_target copy_executable_digest_def demo_sha_hex
      demo_identity_def)

lemma demo_copy_identity: "act \<noteq> [] \<Longrightarrow> copy_identity (demo_request act) = Inr (demo_identity act)"
  using demo_fields [of act] demo_build [of act]
  by (simp add: copy_identity_def demo_request_def assert_allowed_keys_def plain_members_def identity_keys_def
      demo_members_def)

lemma demo_copy_assertion:
  assumes "act \<noteq> []" "i \<noteq> []"
  shows "copy_assertion (demo_consume i act) =
    Inr \<lparr>ca_approvalId = i, ca_payloadDigest = replicate 64 (CHR ''a''), ca_identity = demo_identity act\<rparr>"
proof -
  let ?ms = "[(''approvalId'', JsStr i), (''payloadDigest'', JsStr (replicate 64 (CHR ''a'')))] @ demo_members act"
  have get: "js_get ?ms k = js_get (demo_members act) k" if "k \<notin> {''approvalId'', ''payloadDigest''}" for k
    using that by auto
  have fields: "assert_identity_fields ?ms = Inr PaneClose"
    using demo_fields [OF assms(1)] unfolding assert_identity_fields_def by (subst (1 2 3 4 5 6 7 8 9) get) simp_all
  have build: "build_identity ?ms PaneClose = Inr (demo_identity act)"
    using demo_build [of act] unfolding build_identity_def by (simp add: get del: append_Cons append_Nil)
  have keys: "assert_allowed_keys ApprovalPayloadInvalid ([''approvalId'', ''payloadDigest''] @ identity_keys)
      [''subjectId''] (JsObj ?ms) = Inr ?ms"
    by (simp add: assert_allowed_keys_def plain_members_def identity_keys_def demo_members_def)
  have "js_get ?ms ''approvalId'' = JsStr i" "js_get ?ms ''payloadDigest'' = JsStr (replicate 64 (CHR ''a''))"
    by simp_all
  with assms(2) show ?thesis
    unfolding copy_assertion_def demo_consume_def keys and_then_simps fields build
    by (simp add: demo_sha_hex del: js_get_simps append_Cons append_Nil)
qed

definition demo_approval :: "approval_status \<Rightarrow> approval" where
  "demo_approval status = \<lparr>ap_id = ''x'', ap_status = status, ap_identity = demo_identity ''act'',
     ap_payloadDigest = replicate 64 (CHR ''a''), ap_createdAt = 0, ap_expiresAt = 300000,
     ap_resolvedBy = Some ''op'', ap_resolvedAt = Some 1, ap_consumedAt = (if status = Consumed then Some 2 else None)\<rparr>"

definition demo_store :: "approval_status \<Rightarrow> approval_store" where
  "demo_store status = \<lparr>as_approvals = [(''x'', demo_approval status)], as_byAction = [(''act'', ''x'')]\<rparr>"

definition demo_history :: "approval_op list" where
  "demo_history = [OpRequest ''x'' (demo_request ''act'') 0, OpApprove ''x'' ''op'' (replicate 64 (CHR ''a'')) 1]"

lemma demo_visible: "\<not> js_blank ''op''"
  unfolding js_blank_def
  by (subst trim_start_visible)
    (simp_all add: space_length_def ascii_space_def wide_spaces_def)

lemma demo_approved: "fold (ap_step demo_sha) demo_history approvals_init = demo_store Approved"
proof -
  have "ap_step demo_sha (OpRequest ''x'' (demo_request ''act'') 0) approvals_init =
    \<lparr>as_approvals = [(''x'', make_approval demo_sha ''x'' (demo_identity ''act'') 0)], as_byAction = [(''act'', ''x'')]\<rparr>"
    by (simp add: ap_request_def request_at_def expire_at_def approvals_init_def demo_copy_identity Let_def
        active_count_def terminal_count_def prune_terminal_def demo_identity_def make_approval_def APPROVAL_ACTIVE_LIMIT_def)
  then show ?thesis
    by (simp add: demo_history_def approve_def resolve_def demo_visible require_current_def make_approval_def
        is_active_def AGENT_CONTROL_LIMITS_def assert_digest_def assert_stored_digest_def demo_identity_def
        prune_terminal_def terminal_count_def is_terminal_def demo_store_def demo_approval_def Let_def)
qed

lemma demo_ok: "approvals_ok demo_sha (demo_store Approved)"
  using ap_run_ok [OF approvals_ok_init, of demo_sha demo_history] by (simp add: demo_approved)

lemma demo_consumed:
  "consume demo_sha (demo_consume ''x'' ''act'') 2 (demo_store Approved) =
     (Inr (demo_approval Consumed), demo_store Consumed)"
  by (simp add: consume_def demo_copy_assertion require_current_def demo_store_def demo_approval_def
      is_active_def assert_stored_digest_def assertion_matches_def demo_identity_def Let_def
      prune_terminal_def terminal_count_def is_terminal_def APPROVAL_TERMINAL_LIMIT_def)

section \<open>Properties\<close>

text \<open>
  C27. A consumption succeeds exactly when the assertion is well formed and names a stored approval
  that is approved, has not lapsed, agrees with the assertion field by field, and whose digest is
  both the asserted one and the one recomputed from the assertion. In every other case it fails.
\<close>
theorem consume_success_exact:
  assumes "approvals_ok sha s"
  shows "is_ok (fst (consume sha input now s)) \<longleftrightarrow>
    (\<exists>c a. copy_assertion input = Inr c \<and> jm_get (as_approvals s) (ca_approvalId c) = Some a \<and>
       ap_status a = Approved \<and> now < ap_expiresAt a \<and> assertion_matches a c \<and>
       digest_identity sha (ca_identity c) = ca_payloadDigest c \<and>
       ca_payloadDigest c = ap_payloadDigest a)"
proof
  assume ok: "is_ok (fst (consume sha input now s))"
  obtain r s' where r: "consume sha input now s = (r, s')" by (cases "consume sha input now s")
  from assms r show "\<exists>c a. copy_assertion input = Inr c \<and> jm_get (as_approvals s) (ca_approvalId c) = Some a \<and>
       ap_status a = Approved \<and> now < ap_expiresAt a \<and> assertion_matches a c \<and>
       digest_identity sha (ca_identity c) = ca_payloadDigest c \<and> ca_payloadDigest c = ap_payloadDigest a"
    by (cases rule: consume_eq) (use ok r in auto)
next
  assume "\<exists>c a. copy_assertion input = Inr c \<and> jm_get (as_approvals s) (ca_approvalId c) = Some a \<and>
       ap_status a = Approved \<and> now < ap_expiresAt a \<and> assertion_matches a c \<and>
       digest_identity sha (ca_identity c) = ca_payloadDigest c \<and> ca_payloadDigest c = ap_payloadDigest a"
  then obtain c a where "copy_assertion input = Inr c" and a: "jm_get (as_approvals s) (ca_approvalId c) = Some a"
    "ap_status a = Approved" "now < ap_expiresAt a" "assertion_matches a c"
    "digest_identity sha (ca_identity c) = ca_payloadDigest c" "ca_payloadDigest c = ap_payloadDigest a" by blast
  with approvals_wfD(4) [OF approvals_ok_wf [OF assms] a(1)] show "is_ok (fst (consume sha input now s))"
    by (simp add: consume_def require_current_def assert_stored_digest_ok is_active_def Let_def)
qed

lemma consume_success_exact_witness:
  "is_ok (fst (consume demo_sha (demo_consume ''x'' ''act'') 2 (demo_store Approved))) \<and>
   \<not> is_ok (fst (consume demo_sha (demo_consume ''x'' ''act'') 300000 (demo_store Approved)))"
  using consume_success_exact [OF demo_ok, of "demo_consume ''x'' ''act''" 2]
    consume_success_exact [OF demo_ok, of "demo_consume ''x'' ''act''" 300000]
  by (simp add: demo_copy_assertion demo_store_def demo_approval_def assertion_matches_def demo_identity_def)

text \<open>
  C28. What is consumed is what was requested: when the digest function does not confuse the two
  intents, a successful consumption asserted the stored identity in full, the action id and the
  redacted effect included, although \<open>assertionMatches\<close> compares neither of the two.
\<close>
theorem consume_binds_intent:
  assumes "approvals_ok sha s" and "consume sha input now s = (Inr a', s')"
    and "copy_assertion input = Inr c"
    and "sha (stable_key_json (identity_payload (ca_identity c))) =
         sha (stable_key_json (identity_payload (ap_identity a'))) \<Longrightarrow>
         stable_key_json (identity_payload (ca_identity c)) = stable_key_json (identity_payload (ap_identity a'))"
  shows "\<exists>a. jm_get (as_approvals s) (ca_approvalId c) = Some a \<and> ap_status a = Approved \<and>
    ap_identity a = ca_identity c \<and> a' = a\<lparr>ap_status := Consumed, ap_consumedAt := Some now\<rparr>"
  using assms(1,2)
proof (cases rule: consume_eq)
  case (consumed a c' a'')
  have c: "c' = c" and a'': "a'' = a'" using consumed(1,2) assms(3) by simp_all
  have ok: "approval_ok sha a" by (rule approvals_wfD(4) [OF approvals_ok_wf [OF assms(1)] consumed(3)])
  have id: "ap_identity a' = ap_identity a" "ap_id a' = ap_id a" "ap_payloadDigest a' = ap_payloadDigest a"
    using consumed(10) a'' by simp_all
  from ok have "sha (stable_key_json (identity_payload (ap_identity a'))) = ap_payloadDigest a"
    by (simp add: id approval_ok_def digest_identity_def)
  with consumed(7) c have "stable_key_json (identity_payload (ca_identity c)) =
      stable_key_json (identity_payload (ap_identity a'))"
    by (intro assms(4)) (simp add: digest_identity_def)
  moreover have "ai_subjectId (ca_identity c) \<noteq> Some []" by (rule copy_assertion_subject [OF assms(3)])
  moreover have "ai_subjectId (ap_identity a') \<noteq> Some []" using ok by (simp add: id approval_ok_def)
  ultimately have "ca_identity c = ap_identity a'" by (rule identity_payload_inj)
  then show ?thesis using consumed(3,4,10) c a'' id by auto
qed simp_all

lemma consume_binds_intent_witness:
  "\<exists>a. jm_get (as_approvals (demo_store Approved)) ''x'' = Some a \<and> ap_status a = Approved \<and>
    ap_identity a = demo_identity ''act'' \<and> demo_approval Consumed = a\<lparr>ap_status := Consumed, ap_consumedAt := Some 2\<rparr>"
  using consume_binds_intent [OF demo_ok demo_consumed demo_copy_assertion]
  by (simp add: demo_approval_def)

text \<open>The identifier a request would use.\<close>

fun fresh_id :: "approval_op \<Rightarrow> string option" where
  "fresh_id (OpRequest fresh _ _) = Some fresh"
| "fresh_id (OpRequestCurrent fresh _ _) = Some fresh"
| "fresh_id _ = None"

lemma approval_created_fresh: "approval_created op i a \<Longrightarrow> fresh_id op = Some i \<and> ap_status a = Pending"
  by (erule approval_created.cases) (simp_all add: make_approval_def)

text \<open>A terminal approval stays as it is until it is pruned.\<close>

lemma terminal_run:
  assumes "approvals_ok sha s" and "jm_get (as_approvals s) i \<in> {None, Some a}" and "is_terminal a"
    and "\<forall>op \<in> set ops. fresh_id op \<noteq> Some i"
  shows "jm_get (as_approvals (fold (ap_step sha) ops s)) i \<in> {None, Some a}"
  using assms
proof (induction ops arbitrary: s)
  case Nil
  then show ?case by simp
next
  case (Cons op ops)
  have "jm_get (as_approvals (ap_step sha op s)) i \<in> {None, Some a}"
  proof (cases "jm_get (as_approvals (ap_step sha op s)) i")
    case (Some a')
    with ap_step_evolves [OF Cons.prems(1)] show ?thesis
    proof (cases rule: evolves_Some)
      case 1
      with approval_created_fresh Cons.prems(4) show ?thesis by fastforce
    next
      case (2 c)
      with Cons.prems(2) have "c = a" by simp
      with 2(2) Cons.prems(3) approval_change_active have "a' = a" by (auto simp: is_terminal_def)
      with Some show ?thesis by simp
    qed
  qed simp
  with Cons show ?case by (simp add: ap_step_ok)
qed

text \<open>
  C29. An approval is consumed at most once: after a successful consumption, whatever operations
  follow, no later consumption returns that approval again. The identifiers of later requests are
  assumed to differ from it, which \<open>randomUUID\<close> provides.
\<close>
theorem approval_consumed_once:
  assumes "approvals_ok sha s" and "consume sha input now s = (Inr a, s')"
    and "\<forall>op \<in> set ops. fresh_id op \<noteq> Some (ap_id a)"
    and "fst (consume sha input' now' (fold (ap_step sha) ops s')) = Inr b"
  shows "ap_id b \<noteq> ap_id a"
  using assms(1,2)
proof (cases rule: consume_eq)
  case (consumed c0 c a')
  let ?t = "fold (ap_step sha) ops s'"
  have ok: "approvals_ok sha s'" using consume_ok [OF assms(1), of input now] assms(2) by simp
  have a: "a' = a" "ap_id a = ap_id c0" "is_terminal a"
    using consumed(1,10) by (simp_all add: is_terminal_def is_active_def)
  have "jm_get (as_approvals s') (ap_id a) \<in> {None, Some a}"
    using replace_lookup [OF approvals_ok_wf [OF assms(1)] consumed(3), of a'] consumed(9,10,11) a by simp
  from terminal_run [OF ok this a(3) assms(3)]
  have t: "jm_get (as_approvals ?t) (ap_id a) \<in> {None, Some a}" .
  obtain t' where "consume sha input' now' ?t = (Inr b, t')"
    using assms(4) by (cases "consume sha input' now' ?t") simp
  with ap_run_ok [OF ok] show ?thesis
  proof (cases rule: consume_eq)
    case (consumed d c' b')
    then have "jm_get (as_approvals ?t) (ap_id b) = Some d" "is_active d" by (simp_all add: is_active_def)
    with t a(3) show ?thesis by (auto simp: is_terminal_def)
  qed simp_all
qed simp_all

lemma approval_consumed_once_witness:
  "fst (consume demo_sha (demo_consume ''x'' ''act'') 3 (ap_step demo_sha (OpExpire 2) (demo_store Consumed))) \<noteq>
     Inr (demo_approval Consumed)"
  using approval_consumed_once [OF demo_ok demo_consumed, of "[OpExpire 2]" "demo_consume ''x'' ''act''" 3
      "demo_approval Consumed"]
  by auto



text \<open>
  The store is bounded: whatever operations are applied to a new store, at most 256 approvals are
  active, at most 1000 are terminal, and the two maps have distinct keys that index each other.
\<close>
theorem approval_store_bounded:
  "length (as_approvals (fold (ap_step sha) ops approvals_init)) \<le> 1256 \<and>
   active_count (fold (ap_step sha) ops approvals_init) \<le> APPROVAL_ACTIVE_LIMIT \<and>
   terminal_count (fold (ap_step sha) ops approvals_init) \<le> APPROVAL_TERMINAL_LIMIT \<and>
   approval_index (as_approvals (fold (ap_step sha) ops approvals_init))
     (as_byAction (fold (ap_step sha) ops approvals_init))"
proof -
  let ?s = "fold (ap_step sha) ops approvals_init"
  have ok: "approvals_ok sha ?s" by (rule ap_run_ok) (rule approvals_ok_init)
  have "length (as_approvals s) = active_count s + terminal_count s" for s
    using sum_length_filter_compl [of is_active "jm_values (as_approvals s)"]
    by (simp add: active_count_def terminal_count_def is_terminal_def [abs_def])
  with ok approvals_wf_parts(1) [OF approvals_ok_wf [OF ok]] show ?thesis
    by (simp add: approvals_ok_def APPROVAL_ACTIVE_LIMIT_def APPROVAL_TERMINAL_LIMIT_def)
qed

text \<open>An approval that is or was approved was approved by an operation of the run.\<close>

lemma approved_in_history:
  "jm_get (as_approvals (fold (ap_step sha) ops approvals_init)) i = Some a \<Longrightarrow>
   ap_status a \<in> {Approved, Consumed} \<Longrightarrow>
   \<exists>actor now. OpApprove i actor (ap_payloadDigest a) now \<in> set ops \<and> \<not> js_blank actor"
proof (induction ops arbitrary: a rule: rev_induct)
  case Nil
  then show ?case by (simp add: approvals_init_def)
next
  case (snoc op ops)
  let ?s = "fold (ap_step sha) ops approvals_init"
  have ok: "approvals_ok sha ?s" by (rule ap_run_ok) (rule approvals_ok_init)
  from snoc.prems(1) have "jm_get (as_approvals (ap_step sha op ?s)) i = Some a" by simp
  with ap_step_evolves [OF ok] show ?case
  proof (cases rule: evolves_Some)
    case 1
    with approval_created_fresh snoc.prems(2) show ?thesis by fastforce
  next
    case (2 c)
    show ?thesis
    proof (cases "ap_status c \<in> {Approved, Consumed}")
      case True
      from 2(2) approval_change_keeps have "ap_payloadDigest a = ap_payloadDigest c" by blast
      with snoc.IH [OF 2(1) True] show ?thesis by auto
    next
      case False
      with 2(2) snoc.prems(2) have "approval_change op c a" by auto
      then show ?thesis
      proof (cases rule: approval_change.cases)
        case (approves now actor)
        with approvals_wfD(1) [OF approvals_ok_wf [OF ok] 2(1)] show ?thesis by auto
      qed (use False snoc.prems(2) in auto)
    qed
  qed
qed

text \<open>
  Nothing is consumed without an operator: if a consumption succeeds after some run of the
  store, then the run contains an approval of that very approval, for its digest, by an operator whose
  identity is not blank.
\<close>
theorem consumption_needs_operator:
  assumes "consume sha input now (fold (ap_step sha) ops approvals_init) = (Inr a, s')"
  shows "\<exists>actor at. OpApprove (ap_id a) actor (ap_payloadDigest a) at \<in> set ops \<and> \<not> js_blank actor"
proof -
  let ?s = "fold (ap_step sha) ops approvals_init"
  have ok: "approvals_ok sha ?s" by (rule ap_run_ok) (rule approvals_ok_init)
  from ok assms show ?thesis
  proof (cases rule: consume_eq)
    case (consumed c0 c a')
    with approved_in_history [of sha ops "ap_id a" c0] show ?thesis by auto
  qed simp_all
qed

lemma consumption_needs_operator_witness:
  "\<exists>actor at. OpApprove ''x'' actor (replicate 64 (CHR ''a'')) at \<in> set demo_history"
  using consumption_needs_operator [of demo_sha "demo_consume ''x'' ''act''" 2 demo_history] demo_consumed
  by (auto simp: demo_approved demo_approval_def)

text \<open>
  Revoking for a lease withdraws exactly the active approvals of that lease (and those whose time
  has run out): afterwards no approval of the lease is active, and every other active approval is
  what it was. What the call reports are the approvals it revoked.
\<close>
theorem revoke_for_lease_exact:
  assumes "approvals_ok sha s"
  shows "approval_live (snd (revoke_for_lease leaseId now s)) i =
      (case approval_live s i of None \<Rightarrow> None
       | Some a \<Rightarrow> if ai_leaseId (ap_identity a) = leaseId \<or> ap_expiresAt a \<le> now then None else Some a) \<and>
    (a \<in> set (fst (revoke_for_lease leaseId now s)) \<longleftrightarrow>
       (\<exists>b. approval_live s (ap_id b) = Some b \<and> ai_leaseId (ap_identity b) = leaseId \<and>
            now < ap_expiresAt b \<and> a = b\<lparr>ap_status := Revoked\<rparr>))"
proof
  show "approval_live (snd (revoke_for_lease leaseId now s)) i =
      (case approval_live s i of None \<Rightarrow> None
       | Some a \<Rightarrow> if ai_leaseId (ap_identity a) = leaseId \<or> ap_expiresAt a \<le> now then None else Some a)"
    unfolding revoke_for_lease_def by (rule revoke_where_live [OF assms])
  let ?e = "snd (expire_at now s)"
  have wf: "approvals_wf sha ?e" by (rule approvals_ok_wf) (rule expire_at_ok [OF assms])
  have "a \<in> set (fst (revoke_for_lease leaseId now s)) \<longleftrightarrow>
      (\<exists>b \<in> set (jm_values (as_approvals ?e)). is_active b \<and> ai_leaseId (ap_identity b) = leaseId \<and>
         a = b\<lparr>ap_status := Revoked\<rparr>)"
    by (auto simp: revoke_for_lease_def revoke_where_def Let_def split_beta retire_where_result)
  also have "\<dots> \<longleftrightarrow> (\<exists>b. approval_live ?e (ap_id b) = Some b \<and> ai_leaseId (ap_identity b) = leaseId \<and>
         a = b\<lparr>ap_status := Revoked\<rparr>)"
    using approvals_wfD(1) [OF wf] jm_values_iff [OF approvals_wf_maps(1) [OF wf]]
    unfolding approval_live_Some by metis
  finally have reported: "a \<in> set (fst (revoke_for_lease leaseId now s)) \<longleftrightarrow>
      (\<exists>b. approval_live ?e (ap_id b) = Some b \<and> ai_leaseId (ap_identity b) = leaseId \<and>
         a = b\<lparr>ap_status := Revoked\<rparr>)" .
  have "approval_live ?e (ap_id b) = Some b \<longleftrightarrow> approval_live s (ap_id b) = Some b \<and> now < ap_expiresAt b" for b
    by (auto simp: expire_at_eq retire_live [OF approvals_ok_wf [OF assms]] split: option.splits)
  with reported show "a \<in> set (fst (revoke_for_lease leaseId now s)) \<longleftrightarrow>
       (\<exists>b. approval_live s (ap_id b) = Some b \<and> ai_leaseId (ap_identity b) = leaseId \<and>
            now < ap_expiresAt b \<and> a = b\<lparr>ap_status := Revoked\<rparr>)" by auto
qed

lemma revoke_for_lease_exact_witness:
  "approval_live (snd (revoke_for_lease ''l'' 5 (demo_store Approved))) ''x'' = None"
  using revoke_for_lease_exact [OF demo_ok, of "''l''" 5 "''x''" "demo_approval Approved"]
  by (simp add: demo_store_def demo_approval_def demo_identity_def approval_live_def is_active_def)

text \<open>
  Requests are idempotent by action: a request whose action id is already stored returns the stored
  approval when the digest agrees, is refused as a conflict when it does not, and leaves the store
  unchanged either way; so an action id never has two approvals.
\<close>
lemma request_idempotent_or_conflict:
  assumes "approvals_ok sha s" and "copy_identity input = Inr identity"
    and "jm_get (as_approvals s) i = Some a" and "ai_actionId (ap_identity a) = ai_actionId identity"
  shows "request_current sha fresh input now s =
    (if ap_payloadDigest a = digest_identity sha identity then (Inr a, s) else (Inl ApprovalActionConflict, s))"
proof -
  note a = approvals_wfD [OF approvals_ok_wf [OF assms(1)] assms(3)]
  then obtain c cs where "i = c # cs" by (cases i) auto
  with a assms show ?thesis by (simp add: request_current_def request_at_def)
qed

lemma request_idempotent_or_conflict_witness:
  "request_current demo_sha ''y'' (demo_request ''act'') 7 (demo_store Approved) =
     (Inr (demo_approval Approved), demo_store Approved)"
proof -
  have g: "jm_get (as_approvals (demo_store Approved)) ''x'' = Some (demo_approval Approved)"
    by (simp add: demo_store_def)
  show ?thesis
    using request_idempotent_or_conflict [OF demo_ok demo_copy_identity g, of "''act''" "''y''" 7]
    by (simp add: demo_approval_def demo_identity_def)
qed

end
