(* ===== verification/Redaction.thy ===== *)
theory Redaction
  imports Approvals
begin

text \<open>
  How an approval effect is made fit to be shown and stored
  (\<open>createRedactedApprovalEffect\<close> and \<open>normalizeEffectTarget\<close> of \<open>src/src/control/approvals.ts\<close>).
  Text is UTF-8; the regular expressions are written out as functions on bytes. The platform's
  URL parser is the parameter \<open>clean_url\<close>: for a text it gives the path name and the URL printed
  after user name, password, query and fragment were emptied, \<open>None\<close> when the constructor throws.
\<close>

section \<open>Text\<close>

definition REDACTED :: string where "REDACTED = ''[redacted]''"

definition ascii_lower :: "string \<Rightarrow> string" where
  "ascii_lower s = map (\<lambda>c. let n = (of_char c :: nat) in if 65 \<le> n \<and> n \<le> 90 then char_of (n + 32) else c) s"

text \<open>\<open>toLowerCase\<close> as far as it can produce ASCII: the Kelvin sign becomes \<open>k\<close>.\<close>

fun lower_label :: "string \<Rightarrow> string" where
  "lower_label (a # b # c # s) =
    (if a = CHR 0xE2 \<and> b = CHR 0x84 \<and> c = CHR 0xAA then CHR ''k'' # lower_label s
     else ascii_lower [a] @ lower_label (b # c # s))"
| "lower_label s = ascii_lower s"

fun split_on :: "char \<Rightarrow> string \<Rightarrow> string list" where
  "split_on d [] = [[]]"
| "split_on d (c # s) =
    (if c = d then [] # split_on d s
     else case split_on d s of [] \<Rightarrow> [[c]] | w # ws \<Rightarrow> (c # w) # ws)"

definition strip_cr :: "string \<Rightarrow> string" where
  "strip_cr s = (if s \<noteq> [] \<and> last s = CHR 0x0D then butlast s else s)"

text \<open>\<open>source.split(/\r?\n/)\<close>: the carriage return before a line feed belongs to the separator.\<close>

definition split_lines :: "string \<Rightarrow> string list" where
  "split_lines s = (let ls = split_on (CHR 0x0A) s in map strip_cr (butlast ls) @ [last ls])"

definition control_length :: "string \<Rightarrow> nat" where
  "control_length s =
    (case s of [] \<Rightarrow> 0
     | c # rest \<Rightarrow>
        let n = (of_char c :: nat) in
        if n \<le> 31 \<or> n = 127 then 1
        else if n = 194 then (case rest of [] \<Rightarrow> 0 | d # _ \<Rightarrow>
            let k = (of_char d :: nat) in if 128 \<le> k \<and> k \<le> 159 then 2 else 0)
        else 0)"

text \<open>Replacing every maximal run of matching characters by one space.\<close>

function skip_run :: "(string \<Rightarrow> nat) \<Rightarrow> string \<Rightarrow> string" where
  "skip_run m s = (if s = [] \<or> m s = 0 then s else skip_run m (drop (m s) s))"
  by auto
termination by (relation "measure (\<lambda>(m, s). length s)") auto

declare skip_run.simps [simp del]

lemma skip_run_length: "length (skip_run m s) \<le> length s"
  by (induction m s rule: skip_run.induct) (subst skip_run.simps, auto)

function squeeze :: "(string \<Rightarrow> nat) \<Rightarrow> string \<Rightarrow> string" where
  "squeeze m [] = []"
| "squeeze m (c # s) =
    (if m (c # s) = 0 then c # squeeze m s else CHR '' '' # squeeze m (skip_run m (drop (m (c # s) - 1) s)))"
  by pat_completeness auto
termination
proof (relation "measure (\<lambda>(m, s). length s)")
  fix m :: "string \<Rightarrow> nat" and c s
  have "length (skip_run m (drop (m (c # s) - 1) s)) \<le> length s"
    by (rule le_trans [OF skip_run_length]) simp
  then show "((m, skip_run m (drop (m (c # s) - 1) s)), m, c # s) \<in> measure (\<lambda>(m, s). length s)"
    by simp
qed simp_all

definition space_length_end :: "string \<Rightarrow> nat" where
  "space_length_end s =
    (if s = [] then 0
     else if ascii_space (last s) then 1
     else (case find (\<lambda>w. suffix w s) wide_spaces of None \<Rightarrow> 0 | Some w \<Rightarrow> length w))"

function trim_end :: "string \<Rightarrow> string" where
  "trim_end s = (if s = [] \<or> space_length_end s = 0 then s else trim_end (take (length s - space_length_end s) s))"
  by auto
termination by (relation "measure length") auto

declare trim_end.simps [simp del]

definition js_trim :: "string \<Rightarrow> string" where
  "js_trim s = trim_end (trim_start s)"

definition is_continuation :: "char \<Rightarrow> bool" where
  "is_continuation c \<longleftrightarrow> (let n = (of_char c :: nat) in 128 \<le> n \<and> n < 192)"

text \<open>\<open>truncateUtf8\<close>: whole characters while they fit.\<close>

function take_characters :: "nat \<Rightarrow> string \<Rightarrow> string" where
  "take_characters maxBytes [] = []"
| "take_characters maxBytes (c # s) =
    (let character = c # takeWhile is_continuation s in
     if maxBytes < length character then []
     else character @ take_characters (maxBytes - length character) (dropWhile is_continuation s))"
  by pat_completeness auto
termination
  by (relation "measure (\<lambda>(n, s). length s)") (auto simp: le_imp_less_Suc length_dropWhile_le)

definition truncate_utf8 :: "string \<Rightarrow> nat \<Rightarrow> string" where
  "truncate_utf8 v maxBytes =
    (if length v \<le> maxBytes then v
     else case take_characters maxBytes v of [] \<Rightarrow> REDACTED | c # cs \<Rightarrow> c # cs)"

section \<open>What counts as sensitive\<close>

definition sensitive_words :: "string list" where
  "sensitive_words = [''password'', ''passwd'', ''secret'', ''token'', ''apikey'', ''api key'', ''api_key'', ''api-key'',
     ''authorization'', ''bearer'', ''cookie'', ''localstorage'', ''document.'']"

definition is_letter :: "char \<Rightarrow> bool" where
  "is_letter c \<longleftrightarrow> (let n = (of_char c :: nat) in 65 \<le> n \<and> n \<le> 90 \<or> 97 \<le> n \<and> n \<le> 122)"

definition is_token_char :: "char \<Rightarrow> bool" where
  "is_token_char c \<longleftrightarrow> is_letter c \<or> is_digit c \<or> c \<in> {CHR ''+'', CHR ''/'', CHR ''_'', CHR ''='', CHR ''-''}"

definition token_run :: "string \<Rightarrow> bool" where
  "token_run s \<longleftrightarrow> (let r = takeWhile is_token_char s in
     20 \<le> length r \<and> list_ex is_letter r \<and> list_ex is_digit r)"

definition contains_sensitive_target :: "string \<Rightarrow> bool" where
  "contains_sensitive_target v \<longleftrightarrow>
     list_ex (\<lambda>s. list_ex (\<lambda>w. prefix w (ascii_lower s)) sensitive_words) (suffixes v) \<or>
     list_ex token_run (suffixes v)"

section \<open>Normalising a target\<close>

definition strip_slash :: "string \<Rightarrow> string \<Rightarrow> string" where
  "strip_slash pathname s =
     (if pathname \<noteq> ''/'' \<and> s \<noteq> [] \<and> last s = CHR ''/'' then butlast s else s)"

definition sanitize_http_target :: "(string \<Rightarrow> (string \<times> string) option) \<Rightarrow> string \<Rightarrow> string" where
  "sanitize_http_target clean_url target =
    (case clean_url target of
       None \<Rightarrow> REDACTED
     | Some (pathname, printed) \<Rightarrow>
         if contains_sensitive_target pathname then REDACTED
         else truncate_utf8 (strip_slash pathname printed) (accessibleNameBytes AGENT_CONTROL_LIMITS))"

definition is_label_char :: "char \<Rightarrow> bool" where
  "is_label_char c \<longleftrightarrow> (let n = (of_char c :: nat) in 97 \<le> n \<and> n \<le> 122 \<or> 48 \<le> n \<and> n \<le> 57)"

text \<open>\<open>/^[a-z][a-z0-9]*(?:[._-][a-z0-9]+)*$/\<close>; \<open>sep\<close> says that a separator was just read.\<close>

fun label_rest :: "bool \<Rightarrow> string \<Rightarrow> bool" where
  "label_rest sep [] = (\<not> sep)"
| "label_rest sep (c # s) =
    (if is_label_char c then label_rest False s
     else c \<in> {CHR ''.'', CHR ''_'', CHR ''-''} \<and> \<not> sep \<and> label_rest True s)"

definition is_safe_permission_label :: "string \<Rightarrow> bool" where
  "is_safe_permission_label v \<longleftrightarrow>
     1 \<le> length v \<and> length v \<le> 64 \<and>
     (case v of [] \<Rightarrow> False | c # s \<Rightarrow> 97 \<le> (of_char c :: nat) \<and> (of_char c :: nat) \<le> 122 \<and> label_rest False s) \<and>
     \<not> contains_sensitive_target v"

definition starts_http :: "string \<Rightarrow> bool" where
  "starts_http s \<longleftrightarrow> prefix ''http://'' (ascii_lower s) \<or> prefix ''https://'' (ascii_lower s)"

text \<open>
  \<open>/^(allow|deny)\s+([^\r\n]+?)\s+for\s+(https?:\/\/\S+)$/i\<close> on a text whose white space is single
  spaces: the first word, the words between, \<open>for\<close>, and the address as the last word.
\<close>

definition http_word :: "string \<Rightarrow> bool" where
  "http_word w \<longleftrightarrow> starts_http w \<and>
     (if prefix ''https://'' (ascii_lower w) then 8 < length w else 7 < length w)"

definition join_words :: "string list \<Rightarrow> string" where
  "join_words ws = (case ws of [] \<Rightarrow> [] | w # ws' \<Rightarrow> w @ concat (map (\<lambda>v. CHR '' '' # v) ws'))"

definition match_permission :: "string \<Rightarrow> (string \<times> string \<times> string) option" where
  "match_permission target =
    (let ws = split_on (CHR '' '') target; n = length ws in
     if 4 \<le> n \<and> ascii_lower (hd ws) \<in> {''allow'', ''deny''} \<and> ascii_lower (ws ! (n - 2)) = ''for'' \<and>
        http_word (last ws)
     then Some (hd ws, join_words (take (n - 3) (tl ws)), last ws) else None)"

definition base_name :: "string \<Rightarrow> string" where
  "base_name target =
    (let portable = map (\<lambda>c. if c = CHR 0x5C then CHR ''/'' else c) target in
     if CHR ''/'' \<in> set portable
     then let b = last (split_on (CHR ''/'') portable) in
          (if b = [] \<or> b = ''.'' \<or> b = ''..'' then REDACTED else b)
     else target)"

definition one_line :: "string \<Rightarrow> string" where
  "one_line source = js_trim (squeeze space_length (squeeze control_length source))"

definition normalize_effect_target ::
  "(string \<Rightarrow> (string \<times> string) option) \<Rightarrow> effect_kind \<Rightarrow> string \<Rightarrow> string"
where
  "normalize_effect_target clean_url kind source =
    (let hadMultipleLines = 1 < length (filter (\<lambda>l. \<not> js_blank l) (split_lines source));
         target = one_line source in
     if target = [] then REDACTED
     else if kind = ScriptEffect \<or> kind = SecretInputEffect then REDACTED
     else if kind = PermissionEffect then
       (case match_permission target of
          None \<Rightarrow> REDACTED
        | Some (decision, permission, address) \<Rightarrow>
            let label = lower_label permission in
            if \<not> is_safe_permission_label label then REDACTED
            else let origin = sanitize_http_target clean_url address in
              if origin = REDACTED then origin
              else truncate_utf8 (ascii_lower decision @ '' '' @ label @ '' for '' @ origin)
                     (accessibleNameBytes AGENT_CONTROL_LIMITS))
     else if starts_http target then sanitize_http_target clean_url target
     else
       let target' = (if kind = UploadEffect \<or> kind = DownloadEffect then base_name target else target) in
       if hadMultipleLines \<or> contains_sensitive_target target' then REDACTED
       else truncate_utf8 target' (accessibleNameBytes AGENT_CONTROL_LIMITS))"

definition parse_effect_kind :: "string \<Rightarrow> effect_kind option" where
  "parse_effect_kind s = find (\<lambda>k. effect_name k = s)
     [SubmitEffect, SecretInputEffect, UploadEffect, DownloadEffect, PermissionEffect, CloseEffect, ScriptEffect]"

definition create_redacted_effect ::
  "(string \<Rightarrow> (string \<times> string) option) \<Rightarrow> jsv \<Rightarrow> (approval_error, redacted_effect) result"
where
  "create_redacted_effect clean_url input =
    and_then (assert_exact_keys ApprovalPayloadInvalid [''kind'', ''target''] input) (\<lambda>ms.
     (case (js_get ms ''kind'', js_get ms ''target'') of
        (JsStr k, JsStr target) \<Rightarrow>
          (case parse_effect_kind k of
             None \<Rightarrow> Inl ApprovalPayloadInvalid
           | Some kind \<Rightarrow> Inr \<lparr>ef_kind = kind, ef_target = normalize_effect_target clean_url kind target\<rparr>)
      | _ \<Rightarrow> Inl ApprovalPayloadInvalid))"


section \<open>Truncation\<close>

lemma take_characters_prefix: "prefix (take_characters n s) s"
proof (induction n s rule: take_characters.induct)
  case (2 n c s)
  show ?case
  proof (cases "n < length (c # takeWhile is_continuation s)")
    case False
    have "prefix ((c # takeWhile is_continuation s) @ take_characters (n - length (c # takeWhile is_continuation s)) (dropWhile is_continuation s))
        ((c # takeWhile is_continuation s) @ dropWhile is_continuation s)"
      using 2 [OF refl False] by (simp only: same_prefix_prefix)
    then show ?thesis using False by (simp add: Let_def)
  qed (simp add: Let_def)
qed simp

lemma take_characters_length: "length (take_characters n s) \<le> n"
proof (induction n s rule: take_characters.induct)
  case (2 n c s)
  show ?case
  proof (cases "n < length (c # takeWhile is_continuation s)")
    case False
    with 2 [OF refl False] show ?thesis by (simp add: Let_def)
  qed (simp add: Let_def)
qed simp

declare take_characters.simps [simp del]

lemma truncate_utf8_cases:
  "truncate_utf8 v n = REDACTED \<or> prefix (truncate_utf8 v n) v \<and> length (truncate_utf8 v n) \<le> n"
  using take_characters_prefix [of n v] take_characters_length [of n v]
  by (auto simp: truncate_utf8_def split: list.split)

lemma redacted_length: "length REDACTED = 10"
  by (simp add: REDACTED_def)

lemma truncate_utf8_length: "10 \<le> n \<Longrightarrow> length (truncate_utf8 v n) \<le> n"
  using truncate_utf8_cases [of v n] by (auto simp: redacted_length)

section \<open>Sensitive text\<close>

lemma ascii_lower_append [simp]: "ascii_lower (s @ t) = ascii_lower s @ ascii_lower t"
  by (simp add: ascii_lower_def)

lemma takeWhile_mono_prefix: "prefix (takeWhile P s) (takeWhile P (s @ t))"
  by (induction s) auto

lemma token_run_append: "token_run s \<Longrightarrow> token_run (s @ t)"
proof -
  assume a: "token_run s"
  obtain u where u: "takeWhile is_token_char (s @ t) = takeWhile is_token_char s @ u"
    using takeWhile_mono_prefix [of is_token_char s t] by (auto simp: prefix_def)
  from a show ?thesis by (auto simp: token_run_def Let_def u)
qed

lemma sensitive_prefix:
  assumes "prefix v w" "contains_sensitive_target v"
  shows "contains_sensitive_target w"
proof -
  obtain t where w: "w = v @ t" using assms(1) by (auto simp: prefix_def)
  have suf: "suffix s v \<Longrightarrow> suffix (s @ t) w" for s by (auto simp: suffix_def w)
  have "(\<exists>s. suffix s v \<and> list_ex (\<lambda>x. prefix x (ascii_lower s)) sensitive_words) \<or> (\<exists>s. suffix s v \<and> token_run s)"
    using assms(2) by (auto simp: contains_sensitive_target_def list_ex_iff)
  then show ?thesis
  proof
    assume "\<exists>s. suffix s v \<and> list_ex (\<lambda>x. prefix x (ascii_lower s)) sensitive_words"
    then obtain s where s: "suffix s v" "list_ex (\<lambda>x. prefix x (ascii_lower s)) sensitive_words" by blast
    from s(2) have "list_ex (\<lambda>x. prefix x (ascii_lower (s @ t))) sensitive_words"
      unfolding ascii_lower_append list_ex_iff by (meson prefix_prefix)
    then show ?thesis unfolding contains_sensitive_target_def list_ex_iff [of _ "suffixes w"]
      using suf [OF s(1)] by (intro disjI1 bexI [of _ "s @ t"]) simp_all
  next
    assume "\<exists>s. suffix s v \<and> token_run s"
    then obtain s where s: "suffix s v" "token_run s" by blast
    with suf [OF s(1)] token_run_append [OF s(2)] show ?thesis
      unfolding contains_sensitive_target_def list_ex_iff [of _ "suffixes w"]
      by (intro disjI2 bexI [of _ "s @ t"]) simp_all
  qed
qed

lemma redacted_not_sensitive: "\<not> contains_sensitive_target REDACTED"
  by (simp add: contains_sensitive_target_def REDACTED_def sensitive_words_def ascii_lower_def
      token_run_def is_token_char_def is_letter_def is_digit_def)

lemma truncate_not_sensitive: "\<not> contains_sensitive_target v \<Longrightarrow> \<not> contains_sensitive_target (truncate_utf8 v n)"
  using truncate_utf8_cases [of v n] sensitive_prefix redacted_not_sensitive by metis

section \<open>Printable text\<close>

definition printable :: "char \<Rightarrow> bool" where
  "printable c \<longleftrightarrow> (let n = (of_char c :: nat) in 31 < n \<and> n \<noteq> 127)"

lemma skip_run_set: "set (skip_run m s) \<subseteq> set s"
proof (induction m s rule: skip_run.induct)
  case (1 m s)
  then show ?case by (subst skip_run.simps) (auto dest: in_set_dropD)
qed

lemma squeeze_set: "set (squeeze m s) \<subseteq> insert (CHR '' '') (set s)"
proof (induction m s rule: squeeze.induct)
  case (2 m c s)
  have "set (skip_run m (drop (m (c # s) - 1) s)) \<subseteq> set s"
    using skip_run_set set_drop_subset by (rule subset_trans)
  with 2 show ?case by auto
qed simp

lemma squeeze_control_printable: "list_all printable (squeeze control_length s)"
proof (induction control_length s rule: squeeze.induct)
  case (2 c s)
  have "control_length (c # s) = 0 \<Longrightarrow> printable c"
    by (auto simp: control_length_def printable_def Let_def split: if_splits)
  moreover have "printable (CHR '' '')" by (simp add: printable_def)
  ultimately show ?case using 2 by simp
qed simp

lemma trim_end_prefix: "prefix (trim_end s) s"
proof (induction s rule: trim_end.induct)
  case (1 s)
  show ?case
  proof (cases "s = [] \<or> space_length_end s = 0")
    case False
    with 1 have "prefix (trim_end (take (length s - space_length_end s) s)) (take (length s - space_length_end s) s)" by simp
    then have "prefix (trim_end (take (length s - space_length_end s) s)) s" by (rule prefix_order.trans) (rule take_is_prefix)
    with False show ?thesis by (subst trim_end.simps) simp
  qed (subst trim_end.simps, simp)
qed

lemma trim_start_suffix: "suffix (trim_start s) s"
proof (induction s rule: trim_start.induct)
  case (1 s)
  show ?case
  proof (cases "space_length s = 0")
    case False
    with 1 have "suffix (trim_start (drop (space_length s) s)) (drop (space_length s) s)" by simp
    then have "suffix (trim_start (drop (space_length s) s)) s" by (rule suffix_order.trans) (rule suffix_drop)
    with False show ?thesis by (subst trim_start.simps) simp
  qed (subst trim_start.simps, simp)
qed

lemma one_line_printable: "list_all printable (one_line s)"
proof -
  let ?t = "squeeze space_length (squeeze control_length s)"
  have "set (one_line s) \<subseteq> set ?t"
    unfolding one_line_def js_trim_def
    using set_mono_prefix [OF trim_end_prefix] set_mono_suffix [OF trim_start_suffix] by blast
  also have "\<dots> \<subseteq> insert (CHR '' '') (set (squeeze control_length s))" by (rule squeeze_set)
  finally show ?thesis using squeeze_control_printable [of s] by (auto simp: list_all_iff printable_def)
qed

lemma redacted_printable: "list_all printable REDACTED"
  by (simp add: REDACTED_def printable_def)

lemma split_on_set: "w \<in> set (split_on d s) \<Longrightarrow> set w \<subseteq> set s"
proof (induction s arbitrary: w)
  case (Cons c s)
  show ?case
  proof (cases "split_on d s")
    case Nil
    with Cons.prems show ?thesis by (auto split: if_splits)
  next
    case (Cons x xs)
    with Cons.IH have ih: "\<And>v. v = x \<or> v \<in> set xs \<Longrightarrow> set v \<subseteq> set s" by auto
    have "w = [] \<or> w = x \<or> w \<in> set xs \<or> w = c # x"
      using Cons Cons.prems by (auto split: if_splits)
    with ih [of x] ih [of w] show ?thesis by auto
  qed
qed simp

lemma split_on_nonempty: "split_on d s \<noteq> []"
  by (induction s) (auto split: list.splits)

lemma base_name_printable: "list_all printable s \<Longrightarrow> list_all printable (base_name s)"
proof -
  assume s: "list_all printable s"
  let ?p = "map (\<lambda>c. if c = CHR 0x5C then CHR ''/'' else c) s"
  have p: "list_all printable ?p" using s by (auto simp: list_all_iff printable_def)
  have "set (last (split_on (CHR ''/'') ?p)) \<subseteq> set ?p"
    by (rule split_on_set) (rule last_in_set [OF split_on_nonempty])
  then have "list_all printable (last (split_on (CHR ''/'') ?p))" using p by (auto simp: list_all_iff)
  then show ?thesis using s redacted_printable by (auto simp: base_name_def Let_def)
qed

lemma truncate_printable: "list_all printable s \<Longrightarrow> list_all printable (truncate_utf8 s n)"
  using truncate_utf8_cases [of s n] redacted_printable set_mono_prefix
  by (metis (no_types, opaque_lifting) list_all_iff subsetD)

section \<open>The promise\<close>

lemma redacted_ok: "length REDACTED \<le> 512 \<and> \<not> contains_sensitive_target REDACTED"
  using redacted_not_sensitive by (simp add: redacted_length)

lemma bytes_limit: "accessibleNameBytes AGENT_CONTROL_LIMITS = 512"
  by (simp add: AGENT_CONTROL_LIMITS_def)

lemma truncate_bound: "length (truncate_utf8 v (accessibleNameBytes AGENT_CONTROL_LIMITS)) \<le> 512"
  using truncate_utf8_length [of 512 v] by (simp add: bytes_limit)

lemma sanitize_bound: "length (sanitize_http_target clean_url v) \<le> 512"
  using truncate_bound redacted_ok by (simp add: sanitize_http_target_def split: option.split)

lemma normalize_bound: "length (normalize_effect_target clean_url kind source) \<le> 512"
  using truncate_bound redacted_ok sanitize_bound
  by (simp add: normalize_effect_target_def Let_def split: option.split prod.split)

lemma normalize_hidden:
  "kind = ScriptEffect \<or> kind = SecretInputEffect \<Longrightarrow> normalize_effect_target clean_url kind source = REDACTED"
  by (simp add: normalize_effect_target_def Let_def)

lemma normalize_plain:
  assumes "kind \<noteq> PermissionEffect" "\<not> starts_http (one_line source)"
  shows "\<not> contains_sensitive_target (normalize_effect_target clean_url kind source)"
    and "list_all printable (normalize_effect_target clean_url kind source)"
  using assms redacted_not_sensitive truncate_not_sensitive redacted_printable
    truncate_printable one_line_printable base_name_printable
  by (simp_all add: normalize_effect_target_def Let_def)

lemma parse_effect_kind_name: "parse_effect_kind k = Some kind \<Longrightarrow> k = effect_name kind"
  unfolding parse_effect_kind_def find_Some_iff by blast

lemma create_redacted_effectD:
  assumes "create_redacted_effect clean_url (JsObj ms) = Inr e" and "js_get ms ''target'' = JsStr source"
  shows "\<exists>k kind. js_get ms ''kind'' = JsStr k \<and> parse_effect_kind k = Some kind \<and>
    e = \<lparr>ef_kind = kind, ef_target = normalize_effect_target clean_url kind source\<rparr>"
proof (cases "assert_exact_keys ApprovalPayloadInvalid [''kind'', ''target''] (JsObj ms)")
  case (Inl err)
  with assms(1) show ?thesis by (simp add: create_redacted_effect_def)
next
  case (Inr ms')
  then have [simp]: "ms' = ms" by (simp add: assert_exact_keys_def plain_members_def throw_if_def split: if_splits)
  show ?thesis
  proof (cases "js_get ms ''kind''")
    case (JsStr k)
    with Inr assms show ?thesis by (cases "parse_effect_kind k") (simp_all add: create_redacted_effect_def)
  qed (use Inr assms in \<open>simp_all add: create_redacted_effect_def\<close>)
qed

text \<open>
  C36. Redaction keeps its promise for every effect that can be created: a script or a secret input
  shows nothing, every target has at most 512 bytes, and a target that is neither a permission
  decision nor an address contains no sensitive word, no token-like run and no control byte.
\<close>
theorem redacted_effect_safe:
  assumes "create_redacted_effect clean_url (JsObj ms) = Inr e" and "js_get ms ''target'' = JsStr source"
  shows "(ef_kind e = ScriptEffect \<or> ef_kind e = SecretInputEffect \<longrightarrow> ef_target e = REDACTED) \<and>
    length (ef_target e) \<le> 512 \<and>
    (ef_kind e \<noteq> PermissionEffect \<and> \<not> starts_http (one_line source) \<longrightarrow>
      \<not> contains_sensitive_target (ef_target e) \<and> list_all printable (ef_target e))"
proof -
  obtain k kind where i: "js_get ms ''kind'' = JsStr k" "parse_effect_kind k = Some kind"
      "e = \<lparr>ef_kind = kind, ef_target = normalize_effect_target clean_url kind source\<rparr>"
    using create_redacted_effectD [OF assms] by blast
  show ?thesis using normalize_hidden normalize_bound normalize_plain by (simp add: i(3))
qed

definition demo_effect_members :: "(string \<times> jsv) list" where
  "demo_effect_members = [(''kind'', JsStr ''submit''), (''target'', JsStr ''Buy'')]"

lemma demo_one_line: "one_line ''Buy'' = ''Buy''"
proof -
  have c: "squeeze control_length ''Buy'' = ''Buy''" by (simp add: control_length_def)
  have w: "squeeze space_length ''Buy'' = ''Buy''" by (simp add: space_length_def ascii_space_def wide_spaces_def)
  have t: "trim_start ''Buy'' = ''Buy''"
    by (rule trim_start_visible) (simp add: space_length_def ascii_space_def wide_spaces_def)
  have e: "trim_end ''Buy'' = ''Buy''"
    by (subst trim_end.simps) (simp add: space_length_end_def ascii_space_def wide_spaces_def suffix_def)
  show ?thesis by (simp only: one_line_def js_trim_def c w t e)
qed

lemma demo_plain: "\<not> contains_sensitive_target ''Buy''" "\<not> starts_http ''Buy''"
  by (simp_all add: contains_sensitive_target_def sensitive_words_def ascii_lower_def starts_http_def
      token_run_def is_token_char_def is_letter_def is_digit_def)

lemma demo_effect_target:
  "normalize_effect_target (\<lambda>_. None) SubmitEffect ''Buy'' = ''Buy''"
  using demo_plain
  by (simp add: normalize_effect_target_def demo_one_line Let_def split_lines_def truncate_utf8_def bytes_limit)

lemma redacted_effect_safe_witness:
  "create_redacted_effect (\<lambda>_. None) (JsObj demo_effect_members) =
     Inr \<lparr>ef_kind = SubmitEffect, ef_target = ''Buy''\<rparr> \<and> \<not> contains_sensitive_target ''Buy''"
proof -
  have e: "create_redacted_effect (\<lambda>_. None) (JsObj demo_effect_members) = Inr \<lparr>ef_kind = SubmitEffect, ef_target = ''Buy''\<rparr>"
    using demo_effect_target by (simp add: create_redacted_effect_def demo_effect_members_def assert_exact_keys_def
        plain_members_def parse_effect_kind_def)
  have t: "js_get demo_effect_members ''target'' = JsStr ''Buy''" by (simp add: demo_effect_members_def)
  from redacted_effect_safe [OF e t] e demo_one_line demo_plain(2) show ?thesis by simp
qed
end
