(* ===== verification/BoundedJson.thy ===== *)
theory BoundedJson
  imports Json
begin

text \<open>
  The bounded JSON gate (\<open>src/src/control/boundedJson.ts\<close>) that script arguments and provider results
  pass. The value to check is described by what the checks can see of it; numbers that are finite
  but not integers are left out, as in \<open>Json\<close>.
\<close>

section \<open>Values before the check\<close>

text \<open>
  \<open>RawForeign\<close> stands for everything \<open>visit\<close> rejects where it meets it: a non-finite number, \<open>undefined\<close>,
  a function, symbol or bigint, an accessor or hidden property, an array hole, a native object or
  array, and a reference to an object that is being visited (a cycle). A \<open>RawObj\<close> or \<open>RawArr\<close> whose
  own properties are out of order (a symbol key, an array with a named property) has the flag \<open>False\<close>.
\<close>

datatype raw =
    RawNull | RawBool bool | RawInt int | RawStr string
  | RawArr bool "raw list" | RawObj bool "(string \<times> raw) list" | RawForeign

definition MAX_JSON_DEPTH :: nat where "MAX_JSON_DEPTH = 64"

definition MAX_JSON_NODES :: nat where "MAX_JSON_NODES = 100000"

text \<open>
  \<open>visit\<close> with the counter \<open>nodes\<close> as state; \<open>None\<close> is a throw (every throw carries \<open>invalidCode\<close>).
\<close>

fun visit :: "nat \<Rightarrow> raw \<Rightarrow> nat \<Rightarrow> nat option"
  and visit_items :: "nat \<Rightarrow> raw list \<Rightarrow> nat \<Rightarrow> nat option"
  and visit_members :: "nat \<Rightarrow> (string \<times> raw) list \<Rightarrow> nat \<Rightarrow> nat option"
where
  "visit depth item nodes =
    (if MAX_JSON_NODES < nodes + 1 \<or> MAX_JSON_DEPTH < depth then None
     else case item of
       RawNull \<Rightarrow> Some (nodes + 1)
     | RawBool b \<Rightarrow> Some (nodes + 1)
     | RawInt i \<Rightarrow> Some (nodes + 1)
     | RawStr s \<Rightarrow> Some (nodes + 1)
     | RawArr plain xs \<Rightarrow> if plain then visit_items (depth + 1) xs (nodes + 1) else None
     | RawObj plain ms \<Rightarrow> if plain then visit_members (depth + 1) ms (nodes + 1) else None
     | RawForeign \<Rightarrow> None)"
| "visit_items depth [] nodes = Some nodes"
| "visit_items depth (x # xs) nodes =
     (case visit depth x nodes of None \<Rightarrow> None | Some n \<Rightarrow> visit_items depth xs n)"
| "visit_members depth [] nodes = Some nodes"
| "visit_members depth ((k, x) # ms) nodes =
     (case visit depth x nodes of None \<Rightarrow> None | Some n \<Rightarrow> visit_members depth ms n)"

declare visit.simps [simp del]

text \<open>What \<open>JSON.parse(JSON.stringify(value))\<close> gives for a value that passed the visit.\<close>

fun plain_json :: "raw \<Rightarrow> json" where
  "plain_json RawNull = JNull"
| "plain_json (RawBool b) = JBool b"
| "plain_json (RawInt i) = JNum i"
| "plain_json (RawStr s) = JStr s"
| "plain_json (RawArr p xs) = JArr (map plain_json xs)"
| "plain_json (RawObj p ms) = JObj (map (\<lambda>(k, v). (k, plain_json v)) ms)"
| "plain_json RawForeign = JNull"

definition canonicalize_bounded_json ::
  "nat \<Rightarrow> 'e \<Rightarrow> 'e \<Rightarrow> raw \<Rightarrow> ('e, json \<times> nat) result"
where
  "canonicalize_bounded_json maxBytes invalidCode sizeCode v =
    (case visit 0 v 0 of
       None \<Rightarrow> Inl invalidCode
     | Some _ \<Rightarrow>
         let encoded = stringify (plain_json v); bytes = length encoded in
           if maxBytes < bytes then Inl sizeCode else Inr (plain_json v, bytes))"

section \<open>The specification\<close>

fun raw_of :: "json \<Rightarrow> raw" where
  "raw_of JNull = RawNull"
| "raw_of (JBool b) = RawBool b"
| "raw_of (JNum i) = RawInt i"
| "raw_of (JStr s) = RawStr s"
| "raw_of (JArr xs) = RawArr True (map raw_of xs)"
| "raw_of (JObj ms) = RawObj True (map (\<lambda>(k, v). (k, raw_of v)) ms)"

fun json_nodes :: "json \<Rightarrow> nat" where
  "json_nodes (JArr xs) = Suc (sum_list (map json_nodes xs))"
| "json_nodes (JObj ms) = Suc (sum_list (map (\<lambda>(k, v). json_nodes v) ms))"
| "json_nodes j = 1"

text \<open>\<open>json_depth j \<le> d\<close>: no value sits deeper than \<open>d\<close> containers.\<close>

fun json_within :: "nat \<Rightarrow> json \<Rightarrow> bool" where
  "json_within d (JArr xs) = (xs = [] \<or> 0 < d \<and> list_all (json_within (d - 1)) xs)"
| "json_within d (JObj ms) = (ms = [] \<or> 0 < d \<and> list_all (\<lambda>(k, v). json_within (d - 1) v) ms)"
| "json_within d j = True"

lemma plain_raw [simp]: "plain_json (raw_of j) = j"
proof (induction j)
  case (JObj ms)
  have "map ((\<lambda>(k, v). (k, plain_json v)) \<circ> (\<lambda>(k, v). (k, raw_of v))) ms = ms"
    by (rule map_idI) (use JObj in auto)
  then show ?case by simp
qed (simp_all add: map_idI)

lemma json_nodes_pos: "0 < json_nodes j"
  by (cases j) simp_all

lemma plain_raw_items [simp]: "map plain_json (map raw_of js) = js"
  by (simp add: map_idI)

text \<open>A visit that succeeds saw raw JSON within both bounds, and counted its nodes.\<close>

lemma visit_sound:
  "visit depth v n = Some n' \<Longrightarrow>
     depth \<le> MAX_JSON_DEPTH \<and> v = raw_of (plain_json v) \<and> n' = n + json_nodes (plain_json v) \<and>
     n' \<le> MAX_JSON_NODES \<and> json_within (MAX_JSON_DEPTH - depth) (plain_json v)"
  "visit_items depth xs n = Some n' \<Longrightarrow> n \<le> MAX_JSON_NODES \<Longrightarrow>
     xs = map (\<lambda>x. raw_of (plain_json x)) xs \<and> n' = n + sum_list (map (json_nodes \<circ> plain_json) xs) \<and>
     n' \<le> MAX_JSON_NODES \<and> (xs = [] \<or> depth \<le> MAX_JSON_DEPTH) \<and>
     list_all (\<lambda>x. json_within (MAX_JSON_DEPTH - depth) (plain_json x)) xs"
  "visit_members depth ms n = Some n' \<Longrightarrow> n \<le> MAX_JSON_NODES \<Longrightarrow>
     ms = map (\<lambda>(k, x). (k, raw_of (plain_json x))) ms \<and>
     n' = n + sum_list (map (\<lambda>(k, x). json_nodes (plain_json x)) ms) \<and>
     n' \<le> MAX_JSON_NODES \<and> (ms = [] \<or> depth \<le> MAX_JSON_DEPTH) \<and>
     list_all (\<lambda>(k, x). json_within (MAX_JSON_DEPTH - depth) (plain_json x)) ms"
proof (induction depth v n and depth xs n and depth ms n arbitrary: n' and n' and n'
    rule: visit_visit_items_visit_members.induct)
  case (1 depth item nodes)
  have b: "nodes + 1 \<le> MAX_JSON_NODES" "depth \<le> MAX_JSON_DEPTH"
    using "1.prems" by (auto simp: visit.simps split: if_splits)
  then have nb: "\<not> (MAX_JSON_NODES < nodes + 1 \<or> MAX_JSON_DEPTH < depth)" by simp
  show ?case
  proof (cases item)
    case (RawArr plain xs)
    with "1.prems" nb have p: plain and v: "visit_items (depth + 1) xs (nodes + 1) = Some n'"
      by (auto simp: visit.simps split: if_splits)
    from "1.IH"(1) [OF nb RawArr p v b(1)] RawArr p b(2) show ?thesis
      by (auto simp: list.pred_map comp_def)
  next
    case (RawObj plain ms)
    with "1.prems" nb have p: plain and v: "visit_members (depth + 1) ms (nodes + 1) = Some n'"
      by (auto simp: visit.simps split: if_splits)
    from "1.IH"(2) [OF nb RawObj p v b(1)] RawObj p b(2) show ?thesis
      by (auto simp: list.pred_map comp_def split_def)
  qed (use "1.prems" b in \<open>auto simp: visit.simps split: if_splits\<close>)
next
  case (3 depth x xs nodes)
  then obtain m where m: "visit depth x nodes = Some m" "visit_items depth xs m = Some n'"
    by (auto split: option.splits)
  from "3.IH"(1) [OF m(1)] "3.IH"(2) [OF m(1) m(2)] show ?case by auto
next
  case (5 depth k x ms nodes)
  then obtain m where m: "visit depth x nodes = Some m" "visit_members depth ms m = Some n'"
    by (auto split: option.splits)
  from "5.IH"(1) [OF m(1)] "5.IH"(2) [OF m(1) m(2)] show ?case by auto
qed auto

lemma visit_items_complete:
  assumes "\<And>x m. x \<in> set js \<Longrightarrow> m + json_nodes x \<le> MAX_JSON_NODES \<Longrightarrow>
      visit depth (raw_of x) m = Some (m + json_nodes x)"
    and "n + sum_list (map json_nodes js) \<le> MAX_JSON_NODES"
  shows "visit_items depth (map raw_of js) n = Some (n + sum_list (map json_nodes js))"
  using assms
proof (induction js arbitrary: n)
  case (Cons j js)
  have "visit depth (raw_of j) n = Some (n + json_nodes j)" using Cons.prems by simp
  moreover have "visit_items depth (map raw_of js) (n + json_nodes j) = Some (n + json_nodes j + sum_list (map json_nodes js))"
    using Cons.prems by (intro Cons.IH) simp_all
  ultimately show ?case by (simp add: add.assoc)
qed simp

lemma visit_members_complete:
  assumes "\<And>k x m. (k, x) \<in> set js \<Longrightarrow> m + json_nodes x \<le> MAX_JSON_NODES \<Longrightarrow>
      visit depth (raw_of x) m = Some (m + json_nodes x)"
    and "n + sum_list (map (\<lambda>(k, v). json_nodes v) js) \<le> MAX_JSON_NODES"
  shows "visit_members depth (map (\<lambda>(k, v). (k, raw_of v)) js) n = Some (n + sum_list (map (\<lambda>(k, v). json_nodes v) js))"
  using assms
proof (induction js arbitrary: n)
  case (Cons kj js)
  obtain k j where kj [simp]: "kj = (k, j)" by (cases kj)
  have "visit depth (raw_of j) n = Some (n + json_nodes j)" using Cons.prems(2) by (intro Cons.prems(1)) auto
  moreover have "visit_members depth (map (\<lambda>(k, v). (k, raw_of v)) js) (n + json_nodes j) =
      Some (n + json_nodes j + sum_list (map (\<lambda>(k, v). json_nodes v) js))"
  proof (rule Cons.IH)
    show "\<And>k x m. (k, x) \<in> set js \<Longrightarrow> m + json_nodes x \<le> MAX_JSON_NODES \<Longrightarrow>
        visit depth (raw_of x) m = Some (m + json_nodes x)"
      using Cons.prems(1) by (metis list.set_intros(2))
  qed (use Cons.prems(2) in simp)
  ultimately show ?case by (simp add: add.assoc)
qed simp

lemma visit_complete:
  "depth \<le> MAX_JSON_DEPTH \<Longrightarrow> n + json_nodes j \<le> MAX_JSON_NODES \<Longrightarrow>
     json_within (MAX_JSON_DEPTH - depth) j \<Longrightarrow> visit depth (raw_of j) n = Some (n + json_nodes j)"
proof (induction j arbitrary: depth n)
  case (JArr js)
  have "visit_items (depth + 1) (map raw_of js) (n + 1) = Some (n + 1 + sum_list (map json_nodes js))"
    using JArr.prems
    by (intro visit_items_complete JArr.IH) (auto simp: list_all_iff)
  with JArr.prems show ?case by (simp add: visit.simps)
next
  case (JObj ms)
  have "visit_members (depth + 1) (map (\<lambda>(k, v). (k, raw_of v)) ms) (n + 1) =
      Some (n + 1 + sum_list (map (\<lambda>(k, v). json_nodes v) ms))"
    using JObj.prems
    by (intro visit_members_complete JObj.IH) (auto simp: list_all_iff)
  with JObj.prems show ?case by (simp add: visit.simps)
qed (simp_all add: visit.simps)

lemma canonicalize_iff:
  "canonicalize_bounded_json maxBytes invalidCode sizeCode v = Inr (j, n) \<longleftrightarrow>
     v = raw_of j \<and> json_nodes j \<le> 100000 \<and> json_within 64 j \<and> n = length (stringify j) \<and> n \<le> maxBytes"
proof
  assume "canonicalize_bounded_json maxBytes invalidCode sizeCode v = Inr (j, n)"
  then obtain k where k: "visit 0 v 0 = Some k" "j = plain_json v" "n = length (stringify j)" "n \<le> maxBytes"
    by (auto simp: canonicalize_bounded_json_def Let_def split: option.splits if_splits)
  from visit_sound(1) [OF k(1)] k(2-4)
  show "v = raw_of j \<and> json_nodes j \<le> 100000 \<and> json_within 64 j \<and> n = length (stringify j) \<and> n \<le> maxBytes"
    by (auto simp: MAX_JSON_NODES_def MAX_JSON_DEPTH_def)
next
  assume a: "v = raw_of j \<and> json_nodes j \<le> 100000 \<and> json_within 64 j \<and> n = length (stringify j) \<and> n \<le> maxBytes"
  then have "visit 0 (raw_of j) 0 = Some (0 + json_nodes j)"
    by (intro visit_complete) (simp_all add: MAX_JSON_NODES_def MAX_JSON_DEPTH_def)
  with a show "canonicalize_bounded_json maxBytes invalidCode sizeCode v = Inr (j, n)"
    by (simp add: canonicalize_bounded_json_def)
qed

text \<open>
  C37. The gate is exactly its specification: it accepts a value precisely when the value is plain
  JSON data with at most 100000 nodes, nested at most 64 deep, whose text fits the byte limit; it
  then returns that very data with the length of its text, so checking the result again changes nothing.
\<close>
theorem bounded_json_exact:
  "canonicalize_bounded_json maxBytes invalidCode sizeCode v = Inr (j, n) \<longleftrightarrow>
     v = raw_of j \<and> json_nodes j \<le> 100000 \<and> json_within 64 j \<and> n = length (stringify j) \<and> n \<le> maxBytes"
  by (rule canonicalize_iff)

end
