(* ===== verification/Policy.thy ===== *)
theory Policy
  imports ControlTypes JsValues
begin

text \<open>
  The policy (\<open>src/src/control/policy.ts\<close>): which capability an action needs and whether it needs an
  approval. Actions arrive as JavaScript objects; element semantics count only when they come from
  \<open>createCanonicalElementSemantics\<close>, whose results are the branded values here.
\<close>

section \<open>Data\<close>

datatype policy_decision = Allow | NeedsApproval

record policy_classification =
  pc_decision :: policy_decision
  pc_capability :: surface_capability

record element_semantics =
  es_role :: "string option"
  es_submit :: "bool option"
  es_submitMethod :: "string option"
  es_submitDestination :: "string option"
  es_secret :: "bool option"

type_synonym action_value = "element_semantics jsval"

text \<open>
  \<open>capability_denied\<close>, or the \<open>TypeError\<close> raised when \<open>allowedByKind[action.kind]\<close> finds a member
  that the table inherits from \<open>Object.prototype\<close> and that has no \<open>includes\<close>.
\<close>

datatype policy_error = PolicyDenied | PolicyTypeError

abbreviation policy :: "policy_decision \<Rightarrow> surface_capability \<Rightarrow> policy_classification" where
  "policy d c \<equiv> \<lparr>pc_decision = d, pc_capability = c\<rparr>"

definition POLICY_paneInput :: policy_classification where "POLICY_paneInput = policy Allow PaneInput"
definition POLICY_paneInterrupt :: policy_classification where "POLICY_paneInterrupt = policy Allow PaneInterrupt"
definition POLICY_paneFocus :: policy_classification where "POLICY_paneFocus = policy Allow PaneFocus"
definition POLICY_paneResize :: policy_classification where "POLICY_paneResize = policy Allow PaneResize"
definition POLICY_paneCreate :: policy_classification where "POLICY_paneCreate = policy Allow PaneCreate"
definition POLICY_paneClose :: policy_classification where "POLICY_paneClose = policy NeedsApproval PaneClose"
definition POLICY_browserInteract :: policy_classification where "POLICY_browserInteract = policy Allow BrowserInteract"
definition POLICY_browserInteractApproval :: policy_classification where "POLICY_browserInteractApproval = policy NeedsApproval BrowserInteract"
definition POLICY_browserNavigate :: policy_classification where "POLICY_browserNavigate = policy Allow BrowserNavigate"
definition POLICY_browserHistory :: policy_classification where "POLICY_browserHistory = policy Allow BrowserHistory"
definition POLICY_browserScreenshot :: policy_classification where "POLICY_browserScreenshot = policy Allow BrowserScreenshot"
definition POLICY_browserClose :: policy_classification where "POLICY_browserClose = policy NeedsApproval BrowserClose"
definition POLICY_browserScript :: policy_classification where "POLICY_browserScript = policy NeedsApproval BrowserScript"

lemmas policy_table = POLICY_paneInput_def POLICY_paneInterrupt_def POLICY_paneFocus_def
  POLICY_paneResize_def POLICY_paneCreate_def POLICY_paneClose_def POLICY_browserInteract_def
  POLICY_browserInteractApproval_def POLICY_browserNavigate_def POLICY_browserHistory_def
  POLICY_browserScreenshot_def POLICY_browserClose_def POLICY_browserScript_def

section \<open>Canonical semantics\<close>

text \<open>\<open>String.length\<close> counts UTF-16 code units: none for a UTF-8 continuation byte, two for a four-byte lead.\<close>

definition utf16_length :: "string \<Rightarrow> nat" where
  "utf16_length s = (\<Sum>c \<leftarrow> s. let n = (of_char c :: nat) in
     if 128 \<le> n \<and> n < 192 then 0 else if 240 \<le> n then 2 else 1)"

definition optional_string :: "nat option \<Rightarrow> action_value \<Rightarrow> (policy_error, string option) result" where
  "optional_string bound v =
    (case v of JsUndef \<Rightarrow> Inr None
     | JsStr s \<Rightarrow> (case bound of
           None \<Rightarrow> Inr (Some s)
         | Some n \<Rightarrow> if n < utf16_length s then Inl PolicyDenied else Inr (Some s))
     | _ \<Rightarrow> Inl PolicyDenied)"

definition optional_bool :: "action_value \<Rightarrow> (policy_error, bool option) result" where
  "optional_bool v =
    (case v of JsUndef \<Rightarrow> Inr None | JsBool b \<Rightarrow> Inr (Some b) | _ \<Rightarrow> Inl PolicyDenied)"

definition create_canonical_semantics :: "action_value \<Rightarrow> (policy_error, element_semantics) result" where
  "create_canonical_semantics input =
    and_then (plain_members PolicyDenied input) (\<lambda>ms.
     throw_if (list_ex (\<lambda>k. k \<notin> set [''role'', ''submit'', ''submitMethod'', ''submitDestination'', ''secret''])
                (map fst ms)) PolicyDenied
    (and_then (optional_string None (js_get ms ''role'')) (\<lambda>role.
     and_then (optional_bool (js_get ms ''submit'')) (\<lambda>submit.
     and_then (optional_string (Some 16) (js_get ms ''submitMethod'')) (\<lambda>method.
     and_then (optional_string (Some 2048) (js_get ms ''submitDestination'')) (\<lambda>destination.
     and_then (optional_bool (js_get ms ''secret'')) (\<lambda>secret.
       Inr \<lparr>es_role = role, es_submit = submit, es_submitMethod = method,
            es_submitDestination = destination, es_secret = secret\<rparr>)))))))"

section \<open>Classification\<close>

text \<open>\<open>isAction\<close>: an object whose \<open>kind\<close> is a string.\<close>

definition action_of :: "action_value \<Rightarrow> (string \<times> (string \<times> action_value) list) option" where
  "action_of v =
    (case v of JsObj ms \<Rightarrow> (case js_get ms ''kind'' of JsStr kind \<Rightarrow> Some (kind, ms) | _ \<Rightarrow> None) | _ \<Rightarrow> None)"

definition object_prototype_members :: "string list" where
  "object_prototype_members = [''constructor'', ''__defineGetter__'', ''__defineSetter__'', ''hasOwnProperty'',
     ''__lookupGetter__'', ''__lookupSetter__'', ''isPrototypeOf'', ''propertyIsEnumerable'', ''toString'',
     ''valueOf'', ''__proto__'', ''toLocaleString'']"

definition assert_action_keys ::
  "string \<Rightarrow> (string \<times> action_value) list \<Rightarrow> (string \<times> string list) list \<Rightarrow> (policy_error, unit) result"
where
  "assert_action_keys kind ms allowedByKind =
    (case map_of allowedByKind kind of
       None \<Rightarrow> if kind \<in> set object_prototype_members then Inl PolicyTypeError else Inl PolicyDenied
     | Some allowed \<Rightarrow>
         throw_if (list_ex (\<lambda>k. k \<notin> set allowed) (map fst ms)) PolicyDenied (Inr ()))"

definition pane_action_keys :: "(string \<times> string list) list" where
  "pane_action_keys =
    [(''send_text'', [''kind'', ''text'']), (''send_keys'', [''kind'', ''keys'']),
     (''interrupt'', [''kind'', ''key'']), (''focus'', [''kind'']), (''resize'', [''kind'', ''cols'', ''rows'']),
     (''create'', [''kind'', ''cwd'', ''title'', ''agent'', ''branch'']), (''close'', [''kind''])]"

definition classify_pane_action :: "action_value \<Rightarrow> (policy_error, policy_classification) result" where
  "classify_pane_action action =
    (case action_of action of
       None \<Rightarrow> Inl PolicyDenied
     | Some (kind, ms) \<Rightarrow>
        and_then (assert_action_keys kind ms pane_action_keys) (\<lambda>_.
          if kind = ''send_text'' \<or> kind = ''send_keys'' then Inr POLICY_paneInput
          else if kind = ''interrupt'' then Inr POLICY_paneInterrupt
          else if kind = ''focus'' then Inr POLICY_paneFocus
          else if kind = ''resize'' then Inr POLICY_paneResize
          else if kind = ''create'' then Inr POLICY_paneCreate
          else if kind = ''close'' then Inr POLICY_paneClose
          else Inl PolicyDenied))"

definition browser_policy_keys :: "(string \<times> string list) list" where
  "browser_policy_keys =
    [(''click'', [''kind'', ''semantic'']), (''type'', [''kind'', ''semantic'']),
     (''select'', [''kind'', ''semantic'']), (''submit'', [''kind'', ''semantic'']),
     (''upload'', [''kind'', ''semantic'']), (''download'', [''kind'', ''semantic'']),
     (''scroll'', [''kind'', ''semantic'']), (''focus'', [''kind'', ''semantic'']),
     (''permission_response'', [''kind'']), (''navigate'', [''kind'']), (''reload'', [''kind'']),
     (''back'', [''kind'']), (''forward'', [''kind'']), (''screenshot'', [''kind'']), (''close'', [''kind''])]"

fun canonical_semantics :: "action_value \<Rightarrow> element_semantics option" where
  "canonical_semantics (JsBranded e) = Some e" | "canonical_semantics _ = None"

text \<open>The \<open>switch\<close> of \<open>classifyBrowserAction\<close>.\<close>

definition browser_decision :: "string \<Rightarrow> action_value \<Rightarrow> (policy_error, policy_classification) result" where
  "browser_decision kind semantic =
    (if kind = ''click'' then
       (case Option.bind (canonical_semantics semantic) es_submit of
          None \<Rightarrow> Inl PolicyDenied
        | Some submit \<Rightarrow> Inr (if submit then POLICY_browserInteractApproval else POLICY_browserInteract))
     else if kind = ''type'' then
       (case Option.bind (canonical_semantics semantic) es_secret of
          None \<Rightarrow> Inl PolicyDenied
        | Some secret \<Rightarrow> Inr (if secret then POLICY_browserInteractApproval else POLICY_browserInteract))
     else if kind = ''select'' \<or> kind = ''scroll'' \<or> kind = ''focus'' then Inr POLICY_browserInteract
     else if kind = ''submit'' \<or> kind = ''upload'' \<or> kind = ''download'' \<or> kind = ''permission_response''
       then Inr POLICY_browserInteractApproval
     else if kind = ''navigate'' then Inr POLICY_browserNavigate
     else if kind = ''reload'' \<or> kind = ''back'' \<or> kind = ''forward'' then Inr POLICY_browserHistory
     else if kind = ''screenshot'' then Inr POLICY_browserScreenshot
     else if kind = ''close'' then Inr POLICY_browserClose
     else Inl PolicyDenied)"

definition classify_browser_action :: "action_value \<Rightarrow> (policy_error, policy_classification) result" where
  "classify_browser_action action =
    (case action_of action of
       None \<Rightarrow> Inl PolicyDenied
     | Some (kind, ms) \<Rightarrow>
        and_then (assert_action_keys kind ms browser_policy_keys) (\<lambda>_.
        let semantic = js_get ms ''semantic'' in
          throw_if (semantic \<noteq> JsUndef \<and> canonical_semantics semantic = None) PolicyDenied
            (browser_decision kind semantic)))"

definition browser_action_keys :: "(string \<times> string list) list" where
  "browser_action_keys =
    [(''click'', [''kind'', ''elementRef'', ''semantic'']),
     (''type'', [''kind'', ''elementRef'', ''text'', ''append'', ''semantic'']),
     (''select'', [''kind'', ''elementRef'', ''values'', ''semantic'']),
     (''submit'', [''kind'', ''elementRef'', ''semantic'']),
     (''upload'', [''kind'', ''elementRef'', ''path'', ''semantic'']),
     (''download'', [''kind'', ''elementRef'', ''destination'', ''semantic'']),
     (''scroll'', [''kind'', ''elementRef'', ''deltaX'', ''deltaY'']),
     (''focus'', [''kind'', ''elementRef'', ''semantic'']),
     (''permission_response'', [''kind'', ''permission'', ''origin'', ''decision'']),
     (''navigate'', [''kind'', ''url'']), (''reload'', [''kind'']), (''back'', [''kind'']),
     (''forward'', [''kind'']), (''screenshot'', [''kind'']), (''close'', [''kind''])]"

definition assert_browser_action_fields :: "action_value \<Rightarrow> (policy_error, unit) result" where
  "assert_browser_action_fields action =
    (case action_of action of
       None \<Rightarrow> Inl PolicyDenied
     | Some (kind, ms) \<Rightarrow> assert_action_keys kind ms browser_action_keys)"

definition classify_browser_script :: policy_classification where
  "classify_browser_script = POLICY_browserScript"

section \<open>Properties\<close>

lemma assert_action_keys_Inr:
  "assert_action_keys kind ms table = Inr u \<longleftrightarrow>
     (\<exists>allowed. map_of table kind = Some allowed \<and> fst ` set ms \<subseteq> set allowed)"
  by (auto simp: assert_action_keys_def list_ex_iff split: option.splits)

lemma map_of_Some_cases: "map_of ((k', v) # m) k = Some x \<longleftrightarrow> (if k = k' then x = v else map_of m k = Some x)"
  by auto

text \<open>What the browser policy calls dangerous, read off the canonical semantics.\<close>

definition consequential :: "string \<Rightarrow> element_semantics option \<Rightarrow> bool" where
  "consequential kind sem \<longleftrightarrow>
     kind \<in> {''submit'', ''upload'', ''download'', ''permission_response'', ''close''} \<or>
     kind = ''click'' \<and> Option.bind sem es_submit = Some True \<or>
     kind = ''type'' \<and> Option.bind sem es_secret = Some True"

definition browser_capability :: "string \<Rightarrow> surface_capability" where
  "browser_capability kind =
    (if kind = ''navigate'' then BrowserNavigate
     else if kind \<in> {''reload'', ''back'', ''forward''} then BrowserHistory
     else if kind = ''screenshot'' then BrowserScreenshot
     else if kind = ''close'' then BrowserClose else BrowserInteract)"

definition pane_capability :: "string \<Rightarrow> surface_capability" where
  "pane_capability kind =
    (if kind = ''interrupt'' then PaneInterrupt else if kind = ''focus'' then PaneFocus
     else if kind = ''resize'' then PaneResize else if kind = ''create'' then PaneCreate
     else if kind = ''close'' then PaneClose else PaneInput)"

lemma browser_policy_kinds:
  "map_of browser_policy_keys kind = Some allowed \<Longrightarrow>
     kind = ''click'' \<or> kind = ''type'' \<or> kind \<in> {''select'', ''submit'', ''upload'', ''download'', ''scroll'', ''focus'', ''permission_response'',
        ''navigate'', ''reload'', ''back'', ''forward'', ''screenshot'', ''close''}"
  by (drule map_of_SomeD) (auto simp: browser_policy_keys_def)

lemma pane_action_kinds:
  "map_of pane_action_keys kind = Some allowed \<Longrightarrow>
     kind \<in> {''send_text'', ''send_keys'', ''interrupt'', ''focus'', ''resize'', ''create'', ''close''}"
  by (drule map_of_SomeD) (auto simp: pane_action_keys_def)

definition known_keys :: "(string \<times> string list) list \<Rightarrow> string \<Rightarrow> (string \<times> action_value) list \<Rightarrow> bool" where
  "known_keys table kind ms \<longleftrightarrow>
     (case map_of table kind of None \<Rightarrow> False | Some allowed \<Rightarrow> fst ` set ms \<subseteq> set allowed)"

lemma known_keysE:
  assumes "known_keys table kind ms"
  obtains allowed where "map_of table kind = Some allowed"
  using assms by (cases "map_of table kind") (simp_all add: known_keys_def)

lemma assert_action_keys_known: "assert_action_keys kind ms table = Inr u \<longleftrightarrow> known_keys table kind ms"
  by (auto simp: assert_action_keys_Inr known_keys_def split: option.splits)

lemma assert_action_keys_unknown:
  "\<not> known_keys table kind ms \<Longrightarrow> \<exists>e. assert_action_keys kind ms table = Inl e"
  using assert_action_keys_known [of kind ms table] by (cases "assert_action_keys kind ms table") auto

text \<open>The body of \<open>classifyBrowserAction\<close> once the keys are known.\<close>

definition browser_semantics_ok :: "string \<Rightarrow> action_value \<Rightarrow> bool" where
  "browser_semantics_ok kind semantic \<longleftrightarrow>
     (semantic = JsUndef \<or> canonical_semantics semantic \<noteq> None) \<and>
     (kind \<noteq> ''click'' \<or> Option.bind (canonical_semantics semantic) es_submit \<noteq> None) \<and>
     (kind \<noteq> ''type'' \<or> Option.bind (canonical_semantics semantic) es_secret \<noteq> None)"

lemma classify_browser_gate:
  assumes "js_get ms ''kind'' = JsStr kind" and "known_keys browser_policy_keys kind ms"
  shows "classify_browser_action (JsObj ms) =
    throw_if (js_get ms ''semantic'' \<noteq> JsUndef \<and> canonical_semantics (js_get ms ''semantic'') = None)
      PolicyDenied (browser_decision kind (js_get ms ''semantic''))"
proof -
  have keys: "assert_action_keys kind ms browser_policy_keys = Inr ()" using assms(2) assert_action_keys_known by blast
  show ?thesis
    unfolding classify_browser_action_def action_of_def jsval.case option.case assms(1) prod.case keys
      and_then_simps Let_def by (rule refl)
qed

lemma browser_decision_click:
  "browser_decision ''click'' semantic =
    (case Option.bind (canonical_semantics semantic) es_submit of None \<Rightarrow> Inl PolicyDenied
     | Some submit \<Rightarrow> Inr (policy (if submit then NeedsApproval else Allow) BrowserInteract))"
  by (simp add: browser_decision_def policy_table split: option.split)

lemma browser_decision_type:
  "browser_decision ''type'' semantic =
    (case Option.bind (canonical_semantics semantic) es_secret of None \<Rightarrow> Inl PolicyDenied
     | Some secret \<Rightarrow> Inr (policy (if secret then NeedsApproval else Allow) BrowserInteract))"
  by (simp add: browser_decision_def policy_table split: option.split)

lemma browser_decision_other:
  "kind \<in> {''select'', ''submit'', ''upload'', ''download'', ''scroll'', ''focus'', ''permission_response'',
      ''navigate'', ''reload'', ''back'', ''forward'', ''screenshot'', ''close''} \<Longrightarrow>
   browser_decision kind semantic = Inr (policy (if kind \<in> {''submit'', ''upload'', ''download'',
      ''permission_response'', ''close''} then NeedsApproval else Allow) (browser_capability kind))"
  by (elim insertE emptyE; hypsubst) (simp_all add: browser_decision_def policy_table browser_capability_def)

lemma consequential_click:
  "consequential ''click'' sem \<longleftrightarrow> Option.bind sem es_submit = Some True" "browser_capability ''click'' = BrowserInteract"
  by (simp_all add: consequential_def browser_capability_def)

lemma consequential_type:
  "consequential ''type'' sem \<longleftrightarrow> Option.bind sem es_secret = Some True" "browser_capability ''type'' = BrowserInteract"
  by (simp_all add: consequential_def browser_capability_def)

lemma browser_semantics_click:
  "browser_semantics_ok ''click'' v \<longleftrightarrow> Option.bind (canonical_semantics v) es_submit \<noteq> None"
  by (cases v) (simp_all add: browser_semantics_ok_def)

lemma browser_semantics_type:
  "browser_semantics_ok ''type'' v \<longleftrightarrow> Option.bind (canonical_semantics v) es_secret \<noteq> None"
  by (cases v) (simp_all add: browser_semantics_ok_def)

lemma classify_browser_known:
  assumes "js_get ms ''kind'' = JsStr kind" and "known_keys browser_policy_keys kind ms"
  shows "classify_browser_action (JsObj ms) =
    (if browser_semantics_ok kind (js_get ms ''semantic'')
     then Inr (policy (if consequential kind (canonical_semantics (js_get ms ''semantic''))
                       then NeedsApproval else Allow) (browser_capability kind))
     else Inl PolicyDenied)"
proof -
  let ?sem = "js_get ms ''semantic''"
  from assms(2) obtain allowed where "map_of browser_policy_keys kind = Some allowed" by (rule known_keysE)
  from browser_policy_kinds [OF this]
  consider "kind = ''click''" | "kind = ''type''"
    | (other) "kind \<in> {''select'', ''submit'', ''upload'', ''download'', ''scroll'', ''focus'', ''permission_response'',
        ''navigate'', ''reload'', ''back'', ''forward'', ''screenshot'', ''close''}" by (elim disjE)
  then show ?thesis
  proof cases
    case 1
    have gate: "(?sem \<noteq> JsUndef \<and> canonical_semantics ?sem = None) \<longrightarrow> Option.bind (canonical_semantics ?sem) es_submit = None"
      by simp
    show ?thesis
      unfolding classify_browser_gate [OF assms] 1 browser_decision_click browser_semantics_click consequential_click
      using gate by (cases "Option.bind (canonical_semantics ?sem) es_submit") (auto simp: throw_if_def)
  next
    case 2
    have gate: "(?sem \<noteq> JsUndef \<and> canonical_semantics ?sem = None) \<longrightarrow> Option.bind (canonical_semantics ?sem) es_secret = None"
      by simp
    show ?thesis
      unfolding classify_browser_gate [OF assms] 2 browser_decision_type browser_semantics_type consequential_type
      using gate by (cases "Option.bind (canonical_semantics ?sem) es_secret") (auto simp: throw_if_def)
  next
    case other
    then have k: "kind \<noteq> ''click''" "kind \<noteq> ''type''" by auto
    show ?thesis
      unfolding classify_browser_gate [OF assms] browser_decision_other [OF other] browser_semantics_ok_def
        consequential_def
      using k by (simp add: throw_if_def)
  qed
qed

text \<open>
  The browser policy is exact and fails closed: an action is classified only when its kind is in
  the table, it has no other keys, its semantics (if any) are canonical, a click says whether it
  submits and a typing whether it is secret; it then needs approval exactly when it is
  consequential, and gets the capability of its kind.
\<close>
lemma browser_policy_exact:
  "classify_browser_action action = Inr p \<longleftrightarrow>
    (\<exists>ms kind. action = JsObj ms \<and> js_get ms ''kind'' = JsStr kind \<and> known_keys browser_policy_keys kind ms \<and>
       browser_semantics_ok kind (js_get ms ''semantic'') \<and>
       p = policy (if consequential kind (canonical_semantics (js_get ms ''semantic'')) then NeedsApproval else Allow)
             (browser_capability kind))"
proof (cases "action_of action")
  case None
  then show ?thesis
    by (auto simp: classify_browser_action_def action_of_def)
next
  case (Some km)
  then obtain ms kind where a: "action = JsObj ms" "js_get ms ''kind'' = JsStr kind" "km = (kind, ms)"
    by (auto simp: action_of_def split: jsval.splits)
  show ?thesis
  proof (cases "known_keys browser_policy_keys kind ms")
    case True
    with classify_browser_known [OF a(2) True] a show ?thesis by auto
  next
    case False
    with assert_action_keys_unknown obtain e where "assert_action_keys kind ms browser_policy_keys = Inl e" by blast
    with False a show ?thesis by (auto simp: classify_browser_action_def action_of_def)
  qed
qed

text \<open>
  The pane policy is exact: an action is classified only when its kind is in the table and it has no
  other keys; closing a pane is the one action that needs an approval, and each kind gets its own
  capability.
\<close>
theorem pane_policy_exact:
  "classify_pane_action action = Inr p \<longleftrightarrow>
    (\<exists>ms kind. action = JsObj ms \<and> js_get ms ''kind'' = JsStr kind \<and> known_keys pane_action_keys kind ms \<and>
       p = policy (if kind = ''close'' then NeedsApproval else Allow) (pane_capability kind))"
proof (cases "action_of action")
  case None
  then show ?thesis by (auto simp: classify_pane_action_def action_of_def)
next
  case (Some km)
  then obtain ms kind where a: "action = JsObj ms" "js_get ms ''kind'' = JsStr kind" "km = (kind, ms)"
    by (auto simp: action_of_def split: jsval.splits)
  show ?thesis
  proof (cases "known_keys pane_action_keys kind ms")
    case True
    then have kinds: "kind \<in> {''send_text'', ''send_keys'', ''interrupt'', ''focus'', ''resize'', ''create'', ''close''}"
      by (rule known_keysE) (rule pane_action_kinds)
    have keys: "assert_action_keys kind ms pane_action_keys = Inr ()" using True assert_action_keys_known by blast
    have "classify_pane_action action =
        Inr (policy (if kind = ''close'' then NeedsApproval else Allow) (pane_capability kind))"
      unfolding classify_pane_action_def action_of_def a(1) jsval.case option.case a(2) prod.case keys and_then_simps
      using kinds by (elim insertE emptyE; hypsubst) (simp_all add: policy_table pane_capability_def)
    with a True show ?thesis by auto
  next
    case False
    with assert_action_keys_unknown obtain e where "assert_action_keys kind ms pane_action_keys = Inl e" by blast
    with False a show ?thesis by (auto simp: classify_pane_action_def action_of_def)
  qed
qed

text \<open>
  Canonical semantics are what the object said: a canonical value is made only from a plain object
  with known keys of the right types and lengths, and every field is the member of that name.
\<close>
theorem canonical_semantics_faithful:
  assumes "create_canonical_semantics input = Inr e"
  shows "\<exists>ms. input = JsObj ms \<and>
    js_get ms ''role'' = (case es_role e of None \<Rightarrow> JsUndef | Some s \<Rightarrow> JsStr s) \<and>
    js_get ms ''submit'' = (case es_submit e of None \<Rightarrow> JsUndef | Some b \<Rightarrow> JsBool b) \<and>
    js_get ms ''secret'' = (case es_secret e of None \<Rightarrow> JsUndef | Some b \<Rightarrow> JsBool b) \<and>
    js_get ms ''submitMethod'' = (case es_submitMethod e of None \<Rightarrow> JsUndef | Some s \<Rightarrow> JsStr s) \<and>
    js_get ms ''submitDestination'' = (case es_submitDestination e of None \<Rightarrow> JsUndef | Some s \<Rightarrow> JsStr s) \<and>
    utf16_length (case es_submitMethod e of None \<Rightarrow> [] | Some s \<Rightarrow> s) \<le> 16 \<and>
    utf16_length (case es_submitDestination e of None \<Rightarrow> [] | Some s \<Rightarrow> s) \<le> 2048"
proof -
  have str: "optional_string b v = Inr r \<longleftrightarrow> v = (case r of None \<Rightarrow> JsUndef | Some s \<Rightarrow> JsStr s) \<and>
      (case b of None \<Rightarrow> True | Some n \<Rightarrow> utf16_length (case r of None \<Rightarrow> [] | Some s \<Rightarrow> s) \<le> n)" for b v r
    by (cases v; cases r; cases b) (auto simp: optional_string_def utf16_length_def)
  have bool: "optional_bool v = Inr r \<longleftrightarrow> v = (case r of None \<Rightarrow> JsUndef | Some b \<Rightarrow> JsBool b)" for v r
    by (cases v; cases r) (auto simp: optional_bool_def)
  from assms obtain ms where ms: "input = JsObj ms"
    by (cases input) (simp_all add: create_canonical_semantics_def plain_members_def)
  from assms have "optional_string None (js_get ms ''role'') = Inr (es_role e)"
    "optional_bool (js_get ms ''submit'') = Inr (es_submit e)"
    "optional_string (Some 16) (js_get ms ''submitMethod'') = Inr (es_submitMethod e)"
    "optional_string (Some 2048) (js_get ms ''submitDestination'') = Inr (es_submitDestination e)"
    "optional_bool (js_get ms ''secret'') = Inr (es_secret e)"
    unfolding create_canonical_semantics_def ms plain_members_def jsval.case and_then_simps
      throw_if_Inr and_then_Inr by auto
  with ms show ?thesis unfolding str bool option.case by blast
qed

lemma canonical_semantics_faithful_witness:
  "\<exists>ms. JsObj [(''submit'', JsBool True)] = (JsObj ms :: action_value) \<and> js_get ms ''submit'' = JsBool True"
  using canonical_semantics_faithful [of "JsObj [(''submit'', JsBool True)]"]
  by (simp add: create_canonical_semantics_def plain_members_def optional_string_def optional_bool_def)

end
