(* ===== verification/SurfaceActions.thy ===== *)
theory SurfaceActions
  imports CapabilityLeases Surfaces Policy Redaction BoundedJson
begin

text \<open>
  What a surface action is (the command, its target, capability, effect and digest), the receipts
  it leaves, and the pure helpers of \<open>src/src/control/runtime.ts\<close> that compute them, with
  \<open>src/src/control/effectCodes.ts\<close>. The state that these are checked against is in \<open>Runtime\<close>.

  A thrown error is the value of its \<open>code\<close> (\<open>None\<close> for an error without one); messages are left out.
  The commands carry JSON, so the values they hold are of type \<open>json\<close>.
\<close>

type_synonym error_code = "string option"

section \<open>Commands\<close>

datatype control_actor_kind = HumanActor | PsycheActor | CompatibilityActor

datatype surface_payload =
    ObservePayload string nat "int option"
  | PanePayload "string option" "nat option" "string option" "(string \<times> json) list"
  | InspectPayload string nat "bool option"
  | BrowserPayload string nat "string option" "(string \<times> json) list"
  | ScriptPayload string nat string "json option"

text \<open>
  \<open>ac_expiresAt\<close> is \<open>Date.parse(expiresAt)\<close>, \<open>None\<close> when the field is absent, empty or not a date
  (the code's comparison is then false).
\<close>

record action_command =
  ac_id :: string
  ac_key :: string
  ac_projectRoot :: string
  ac_actorKind :: control_actor_kind
  ac_actorId :: string
  ac_ownerEpoch :: int
  ac_createdAt :: string
  ac_expiresAt :: "int option"
  ac_taskId :: string
  ac_leaseId :: string
  ac_leaseRevision :: nat
  ac_payload :: surface_payload

text \<open>A JSON value as the code inspects it.\<close>

fun to_js :: "json \<Rightarrow> 'b jsval" where
  "to_js JNull = JsNull"
| "to_js (JBool b) = JsBool b"
| "to_js (JNum i) = JsInt i"
| "to_js (JStr s) = JsStr s"
| "to_js (JArr xs) = JsArr (map to_js xs)"
| "to_js (JObj ms) = JsObj (map (\<lambda>(k, v). (k, to_js v)) ms)"

definition member_js :: "(string \<times> json) list \<Rightarrow> string \<Rightarrow> 'b jsval" where
  "member_js ms k = (case map_of ms k of None \<Rightarrow> JsUndef | Some j \<Rightarrow> to_js j)"

definition member_string :: "(string \<times> json) list \<Rightarrow> string \<Rightarrow> string option" where
  "member_string ms k = (case map_of ms k of Some (JStr s) \<Rightarrow> Some s | _ \<Rightarrow> None)"

text \<open>A value inserted into a template literal.\<close>

fun template_text :: "json \<Rightarrow> string" where
  "template_text JNull = ''null''"
| "template_text (JBool b) = (if b then ''true'' else ''false'')"
| "template_text (JNum i) = show_int i"
| "template_text (JStr s) = s"
| "template_text (JArr xs) = commas (map (\<lambda>x. if x = JNull then [] else template_text x) xs)"
| "template_text (JObj ms) = ''[object Object]''"

definition member_text :: "(string \<times> json) list \<Rightarrow> string \<Rightarrow> string" where
  "member_text ms k = (case map_of ms k of None \<Rightarrow> ''undefined'' | Some j \<Rightarrow> template_text j)"

section \<open>Targets and capabilities\<close>

definition resource_key :: "lease_target \<Rightarrow> string" where
  "resource_key t =
    (case t of ProjectTarget i \<Rightarrow> ''project:'' @ i
     | SurfaceTarget k i g \<Rightarrow> (case k of PaneKind \<Rightarrow> ''pane'' | BrowserTabKind \<Rightarrow> ''browser_tab'') @ '':'' @ i @ '':'' @ show_nat g)"

text \<open>The target as \<open>prepareSurfaceAction\<close> computes it.\<close>

definition action_target :: "surface_payload \<Rightarrow> (error_code, lease_target) result" where
  "action_target p =
    (case p of
       ObservePayload paneId generation _ \<Rightarrow> Inr (SurfaceTarget PaneKind paneId generation)
     | PanePayload paneId generation projectId action \<Rightarrow>
         if member_string action ''kind'' = Some ''create'' then
           (case truthy_string projectId of None \<Rightarrow> Inl (Some ''resource_missing'') | Some i \<Rightarrow> Inr (ProjectTarget i))
         else (case (truthy_string paneId, generation) of
             (Some i, Some g) \<Rightarrow> Inr (SurfaceTarget PaneKind i g)
           | _ \<Rightarrow> Inl (Some ''resource_missing''))
     | InspectPayload tabId generation _ \<Rightarrow> Inr (SurfaceTarget BrowserTabKind tabId generation)
     | BrowserPayload tabId generation _ _ \<Rightarrow> Inr (SurfaceTarget BrowserTabKind tabId generation)
     | ScriptPayload tabId generation _ _ \<Rightarrow> Inr (SurfaceTarget BrowserTabKind tabId generation))"

definition target_for_surface_action :: "action_command \<Rightarrow> lease_target" where
  "target_for_surface_action c =
    (case ac_payload c of
       ObservePayload paneId generation _ \<Rightarrow> SurfaceTarget PaneKind paneId generation
     | PanePayload paneId generation projectId action \<Rightarrow>
         if member_string action ''kind'' = Some ''create''
         then ProjectTarget (case projectId of None \<Rightarrow> ac_projectRoot c | Some i \<Rightarrow> i)
         else SurfaceTarget PaneKind (case paneId of None \<Rightarrow> ''[missing-pane]'' | Some i \<Rightarrow> i)
                (case generation of None \<Rightarrow> 0 | Some g \<Rightarrow> g)
     | InspectPayload tabId generation _ \<Rightarrow> SurfaceTarget BrowserTabKind tabId generation
     | BrowserPayload tabId generation _ _ \<Rightarrow> SurfaceTarget BrowserTabKind tabId generation
     | ScriptPayload tabId generation _ _ \<Rightarrow> SurfaceTarget BrowserTabKind tabId generation)"

definition target_for_surface_ownership :: "action_command \<Rightarrow> lease_target option" where
  "target_for_surface_ownership c =
    (case ac_payload c of
       ObservePayload paneId generation _ \<Rightarrow> Some (SurfaceTarget PaneKind paneId generation)
     | PanePayload paneId generation projectId action \<Rightarrow>
         if member_string action ''kind'' = Some ''create'' then Some (ProjectTarget (ac_projectRoot c))
         else (case (truthy_string paneId, generation) of
             (Some i, Some g) \<Rightarrow> Some (SurfaceTarget PaneKind i g)
           | _ \<Rightarrow> None)
     | InspectPayload tabId generation _ \<Rightarrow> Some (SurfaceTarget BrowserTabKind tabId generation)
     | BrowserPayload tabId generation _ _ \<Rightarrow> Some (SurfaceTarget BrowserTabKind tabId generation)
     | ScriptPayload tabId generation _ _ \<Rightarrow> Some (SurfaceTarget BrowserTabKind tabId generation))"

definition pane_kind_capability :: "string \<Rightarrow> surface_capability option" where
  "pane_kind_capability kind =
    (if kind = ''send_text'' \<or> kind = ''send_keys'' then Some PaneInput
     else if kind = ''interrupt'' then Some PaneInterrupt
     else if kind = ''focus'' then Some PaneFocus
     else if kind = ''resize'' then Some PaneResize
     else if kind = ''create'' then Some PaneCreate
     else if kind = ''close'' then Some PaneClose else None)"

definition browser_kind_capability :: "string \<Rightarrow> surface_capability option" where
  "browser_kind_capability kind =
    (if kind = ''click'' \<or> kind = ''type'' \<or> kind = ''select'' \<or> kind = ''submit'' \<or> kind = ''upload'' \<or>
        kind = ''download'' \<or> kind = ''scroll'' \<or> kind = ''focus'' \<or> kind = ''permission_response''
       then Some BrowserInteract
     else if kind = ''navigate'' then Some BrowserNavigate
     else if kind = ''reload'' \<or> kind = ''back'' \<or> kind = ''forward'' then Some BrowserHistory
     else if kind = ''screenshot'' then Some BrowserScreenshot
     else if kind = ''close'' then Some BrowserClose else None)"

definition inspect_capability :: "bool option \<Rightarrow> surface_capability" where
  "inspect_capability includeScreenshot = (if includeScreenshot = Some True then BrowserScreenshot else BrowserInspect)"

definition capability_for_surface_command :: "action_command \<Rightarrow> surface_capability option" where
  "capability_for_surface_command c =
    (case ac_payload c of
       ObservePayload _ _ _ \<Rightarrow> Some PaneObserve
     | PanePayload _ _ _ action \<Rightarrow> Option.bind (member_string action ''kind'') pane_kind_capability
     | InspectPayload _ _ shot \<Rightarrow> Some (inspect_capability shot)
     | BrowserPayload _ _ _ action \<Rightarrow> Option.bind (member_string action ''kind'') browser_kind_capability
     | ScriptPayload _ _ _ _ \<Rightarrow> Some BrowserScript)"

section \<open>The digest of a payload\<close>

text \<open>
  \<open>Object.keys(value).sort()\<close> compares UTF-16 code units: in UTF-8 the characters from U+E000 on
  (lead bytes EE and EF) come after the supplementary ones (lead bytes F0 to F4).
  \<open>Object.fromEntries\<close> then puts array-index keys first, in numeric order.
\<close>

definition utf16_order :: "string \<Rightarrow> nat list" where
  "utf16_order s = map (\<lambda>c. let n = (of_char c :: nat) in if n = 238 \<or> n = 239 then n + 16 else n) s"

definition is_array_index :: "string \<Rightarrow> bool" where
  "is_array_index s \<longleftrightarrow> s \<noteq> [] \<and> list_all is_digit s \<and> (s = ''0'' \<or> hd s \<noteq> CHR ''0'') \<and>
     nat_value s < 2 ^ 32 - 1"

definition own_key_order :: "(string \<times> json) list \<Rightarrow> (string \<times> json) list" where
  "own_key_order ms = sort_key (\<lambda>(k, v). nat_value k) (filter (\<lambda>(k, v). is_array_index k) ms) @
     filter (\<lambda>(k, v). \<not> is_array_index k) ms"

fun sort_runtime_keys :: "json \<Rightarrow> json" where
  "sort_runtime_keys (JArr xs) = JArr (map sort_runtime_keys xs)"
| "sort_runtime_keys (JObj ms) =
     JObj (own_key_order (sort_key (\<lambda>(k, v). utf16_order k) (map (\<lambda>(k, v). (k, sort_runtime_keys v)) ms)))"
| "sort_runtime_keys j = j"

definition stable_runtime_json :: "json \<Rightarrow> string" where
  "stable_runtime_json j = stringify (sort_runtime_keys j)"

definition opt_member :: "string \<Rightarrow> ('a \<Rightarrow> json) \<Rightarrow> 'a option \<Rightarrow> (string \<times> json) list" where
  "opt_member k f v = (case v of None \<Rightarrow> [] | Some x \<Rightarrow> [(k, f x)])"

definition semantics_json :: "element_semantics \<Rightarrow> json" where
  "semantics_json e = JObj
    (opt_member ''role'' JStr (es_role e) @ opt_member ''submit'' JBool (es_submit e) @
     opt_member ''submitMethod'' JStr (es_submitMethod e) @
     opt_member ''submitDestination'' JStr (es_submitDestination e) @
     opt_member ''secret'' JBool (es_secret e))"

text \<open>
  The payload as an object: the authorization members and those of the kind. A client's own
  \<open>semantic\<close> never counts; the canonical one replaces it.
\<close>

definition digest_action :: "(string \<times> json) list \<Rightarrow> element_semantics option \<Rightarrow> json" where
  "digest_action action semantic = JObj
     (filter (\<lambda>(k, v). k \<noteq> ''semantic'') action @ opt_member ''semantic'' semantics_json semantic)"

definition payload_json :: "action_command \<Rightarrow> element_semantics option \<Rightarrow> json" where
  "payload_json c semantic = JObj
    ([(''taskId'', JStr (ac_taskId c)), (''leaseId'', JStr (ac_leaseId c)),
      (''leaseRevision'', JNum (int (ac_leaseRevision c)))] @
     (case ac_payload c of
        ObservePayload paneId generation after \<Rightarrow>
          [(''paneId'', JStr paneId), (''generation'', JNum (int generation))] @ opt_member ''afterSequence'' JNum after
      | PanePayload paneId generation projectId action \<Rightarrow>
          opt_member ''paneId'' JStr paneId @ opt_member ''generation'' (JNum \<circ> int) generation @
          opt_member ''projectId'' JStr projectId @ [(''action'', JObj action)]
      | InspectPayload tabId generation shot \<Rightarrow>
          [(''tabId'', JStr tabId), (''generation'', JNum (int generation))] @ opt_member ''includeScreenshot'' JBool shot
      | BrowserPayload tabId generation snapshotId action \<Rightarrow>
          [(''tabId'', JStr tabId), (''generation'', JNum (int generation))] @ opt_member ''snapshotId'' JStr snapshotId @
          [(''action'', digest_action action semantic)]
      | ScriptPayload tabId generation source args \<Rightarrow>
          [(''tabId'', JStr tabId), (''generation'', JNum (int generation)), (''source'', JStr source)] @
          opt_member ''args'' id args))"

definition digest_executable_payload :: "(string \<Rightarrow> string) \<Rightarrow> action_command \<Rightarrow> element_semantics option \<Rightarrow> string" where
  "digest_executable_payload sha c semantic = sha (stable_runtime_json (payload_json c semantic))"

text \<open>What the browser backend gets: the payload without the client's \<open>semantic\<close>.\<close>

definition executable_browser_payload :: "surface_payload \<Rightarrow> surface_payload" where
  "executable_browser_payload p =
    (case p of BrowserPayload tabId generation snapshotId action \<Rightarrow>
       BrowserPayload tabId generation snapshotId (filter (\<lambda>(k, v). k \<noteq> ''semantic'') action)
     | _ \<Rightarrow> p)"

section \<open>The prepared action\<close>

record action_context =
  cx_command :: action_command
  cx_target :: lease_target
  cx_classification :: policy_classification
  cx_effect :: "redacted_effect option"
  cx_digest :: string

text \<open>
  What the runtime is given from outside: SHA-256, the URL parser, and the lookup of an element in
  the semantic snapshot store (\<open>None\<close> when the runtime was created without one).
\<close>

type_synonym semantics_lookup =
  "string \<Rightarrow> nat \<Rightarrow> string \<Rightarrow> string \<Rightarrow> (error_code, element_semantics) result"

record platform =
  pf_sha :: "string \<Rightarrow> string"
  pf_cleanUrl :: "string \<Rightarrow> (string \<times> string) option"

definition effect_source :: "effect_kind \<Rightarrow> 'b jsval \<Rightarrow> 'b jsval" where
  "effect_source kind target = JsObj [(''kind'', JsStr (effect_name kind)), (''target'', target)]"

fun approval_code :: "approval_error \<Rightarrow> error_code" where
  "approval_code ApprovalMissing = Some ''approval_missing''"
| "approval_code ApprovalExpired = Some ''approval_expired''"
| "approval_code ApprovalDenied = Some ''approval_denied''"
| "approval_code ApprovalDigestMismatch = Some ''approval_digest_mismatch''"
| "approval_code ApprovalIdentityMismatch = Some ''approval_identity_mismatch''"
| "approval_code ApprovalActionConflict = Some ''approval_action_conflict''"
| "approval_code ApprovalIdCollision = Some ''approval_id_collision''"
| "approval_code ApprovalPayloadInvalid = Some ''approval_payload_invalid''"
| "approval_code ApprovalCapacityExceeded = Some ''approval_capacity_exceeded''"

fun cap_code :: "cap_error \<Rightarrow> error_code" where
  "cap_code LeaseMissing = Some ''lease_missing''"
| "cap_code LeaseExpired = Some ''lease_expired''"
| "cap_code LeaseRevisionMismatch = Some ''lease_revision_mismatch''"
| "cap_code OwnerRestarted = Some ''owner_restarted''"
| "cap_code CapabilityDenied = Some ''capability_denied''"

fun surface_code :: "surface_error \<Rightarrow> error_code" where
  "surface_code ResourceMissing = Some ''resource_missing''"
| "surface_code ResourceReplaced = Some ''resource_replaced''"

fun policy_code :: "policy_error \<Rightarrow> error_code" where
  "policy_code PolicyDenied = Some ''capability_denied''"
| "policy_code PolicyTypeError = None"

definition with_code :: "('e \<Rightarrow> error_code) \<Rightarrow> ('e, 'a) result \<Rightarrow> (error_code, 'a) result" where
  "with_code f r = (case r of Inl e \<Rightarrow> Inl (f e) | Inr x \<Rightarrow> Inr x)"

definition redacted :: "platform \<Rightarrow> effect_kind \<Rightarrow> jsv \<Rightarrow> (error_code, redacted_effect option) result" where
  "redacted pf kind target =
     and_then (with_code approval_code (create_redacted_effect (pf_cleanUrl pf) (effect_source kind target)))
       (\<lambda>e. Inr (Some e))"

definition approval_effect_for_browser_action ::
  "platform \<Rightarrow> (string \<times> json) list \<Rightarrow> element_semantics option \<Rightarrow> (error_code, redacted_effect option) result"
where
  "approval_effect_for_browser_action pf action semantic =
    (let kind = member_string action ''kind'' in
     if kind = Some ''click'' then
       (if Option.bind semantic es_submit = Some True then redacted pf SubmitEffect (member_js action ''elementRef'') else Inr None)
     else if kind = Some ''type'' then
       (if Option.bind semantic es_secret = Some True then redacted pf SecretInputEffect (member_js action ''elementRef'') else Inr None)
     else if kind = Some ''submit'' then redacted pf SubmitEffect (member_js action ''elementRef'')
     else if kind = Some ''upload'' then redacted pf UploadEffect (member_js action ''path'')
     else if kind = Some ''download'' then redacted pf DownloadEffect (member_js action ''destination'')
     else if kind = Some ''permission_response'' then
       redacted pf PermissionEffect (JsStr (member_text action ''decision'' @ '' '' @ member_text action ''permission'' @
         '' for '' @ member_text action ''origin''))
     else if kind = Some ''close'' then redacted pf CloseEffect (JsStr ''browser tab'')
     else Inr None)"

definition assert_command_current :: "int \<Rightarrow> int \<Rightarrow> action_command \<Rightarrow> (error_code, unit) result" where
  "assert_command_current epoch now c =
     throw_if (ac_ownerEpoch c \<noteq> epoch) (Some ''stale_owner_epoch'')
    (throw_if (case ac_expiresAt c of None \<Rightarrow> False | Some at \<Rightarrow> at \<le> now) (Some ''action_expired'') (Inr ()))"

text \<open>The element's semantics, when the action names an element.\<close>

definition lookup_semantics ::
  "semantics_lookup option \<Rightarrow> string \<Rightarrow> nat \<Rightarrow> string option \<Rightarrow> (string \<times> json) list \<Rightarrow>
   (error_code, element_semantics option) result"
where
  "lookup_semantics resolver tabId generation snapshotId action =
    (if map_of action ''elementRef'' = None then Inr None
     else case (truthy_string snapshotId, resolver) of
       (Some snapshot, Some lookup) \<Rightarrow>
         and_then (lookup tabId generation snapshot (member_text action ''elementRef'')) (\<lambda>e. Inr (Some e))
     | _ \<Rightarrow> Inl (Some ''snapshot_missing''))"

definition semantic_member :: "element_semantics option \<Rightarrow> (string \<times> action_value) list" where
  "semantic_member semantic = (case semantic of None \<Rightarrow> [] | Some e \<Rightarrow> [(''semantic'', JsBranded e)])"

text \<open>The \<open>switch\<close> of \<open>prepareSurfaceAction\<close>: classification, effect, canonical semantics and the command to run.\<close>

definition describe_action ::
  "platform \<Rightarrow> semantics_lookup option \<Rightarrow> action_command \<Rightarrow> (error_code, action_context) result"
where
  "describe_action pf resolver c =
    and_then (case ac_payload c of PanePayload _ _ _ _ \<Rightarrow> Inr () | BrowserPayload _ _ _ _ \<Rightarrow> Inr ()
              | ScriptPayload _ _ source _ \<Rightarrow>
                  throw_if (scriptSourceBytes AGENT_CONTROL_LIMITS < length source) (Some ''script_source_too_large'') (Inr ())
              | _ \<Rightarrow> Inr ()) (\<lambda>_.
    and_then (action_target (ac_payload c)) (\<lambda>target.
    (case ac_payload c of
       ObservePayload _ _ _ \<Rightarrow>
         Inr \<lparr>cx_command = c, cx_target = target, cx_classification = policy Allow PaneObserve, cx_effect = None,
              cx_digest = digest_executable_payload (pf_sha pf) c None\<rparr>
     | PanePayload paneId generation projectId action \<Rightarrow>
         and_then (with_code policy_code (classify_pane_action (to_js (JObj action)))) (\<lambda>cls.
         and_then (if pc_decision cls = NeedsApproval then redacted pf CloseEffect (JsStr (target_id target)) else Inr None) (\<lambda>effect.
           Inr \<lparr>cx_command = c, cx_target = target, cx_classification = cls, cx_effect = effect,
                cx_digest = digest_executable_payload (pf_sha pf) c None\<rparr>))
     | InspectPayload _ _ shot \<Rightarrow>
         Inr \<lparr>cx_command = c, cx_target = target, cx_classification = policy Allow (inspect_capability shot),
              cx_effect = None, cx_digest = digest_executable_payload (pf_sha pf) c None\<rparr>
     | BrowserPayload tabId generation snapshotId action \<Rightarrow>
         and_then (with_code policy_code (assert_browser_action_fields (to_js (JObj action)))) (\<lambda>_.
         and_then (lookup_semantics resolver tabId generation snapshotId action) (\<lambda>semantic.
         and_then (with_code policy_code (classify_browser_action
                     (JsObj ((''kind'', member_js action ''kind'') # semantic_member semantic)))) (\<lambda>cls.
         and_then (approval_effect_for_browser_action pf action semantic) (\<lambda>effect.
           Inr \<lparr>cx_command = c, cx_target = target, cx_classification = cls, cx_effect = effect,
                cx_digest = digest_executable_payload (pf_sha pf) c semantic\<rparr>))))
     | ScriptPayload tabId generation source args \<Rightarrow>
         and_then (case args of None \<Rightarrow> Inr c
                   | Some a \<Rightarrow> and_then (canonicalize_bounded_json (scriptResultBytes AGENT_CONTROL_LIMITS)
                         (Some ''script_args_invalid'') (Some ''script_args_too_large'') (raw_of a))
                       (\<lambda>(canonical, bytes).
                          Inr (c\<lparr>ac_payload := ScriptPayload tabId generation source (Some canonical)\<rparr>))) (\<lambda>prepared.
         and_then (redacted pf ScriptEffect (JsStr source)) (\<lambda>effect.
           Inr \<lparr>cx_command = prepared, cx_target = target, cx_classification = classify_browser_script,
                cx_effect = effect, cx_digest = digest_executable_payload (pf_sha pf) prepared None\<rparr>)))))"

definition contexts_match :: "action_context \<Rightarrow> action_context \<Rightarrow> bool" where
  "contexts_match left right \<longleftrightarrow>
     resource_key (cx_target left) = resource_key (cx_target right) \<and>
     pc_decision (cx_classification left) = pc_decision (cx_classification right) \<and>
     pc_capability (cx_classification left) = pc_capability (cx_classification right) \<and>
     cx_digest left = cx_digest right \<and> cx_effect left = cx_effect right"

section \<open>Receipts\<close>

datatype receipt_state =
    StQueued | StRunning | StApprovalRequired | StSucceeded | StFailed | StDenied | StExpired | StUnknown

record script_metadata =
  sm_sourceDigest :: string
  sm_sourceBytes :: nat
  sm_resultBytes :: nat
  sm_durationMs :: int

record receipt_ownership =
  ro_taskId :: string
  ro_actorId :: string
  ro_lease :: "(string \<times> nat) option"

record action_receipt =
  rc_actionId :: string
  rc_state :: receipt_state
  rc_resource :: lease_target
  rc_createdAt :: string
  rc_ownership :: "receipt_ownership option"
  rc_completedAt :: "int option"
  rc_code :: "string option"
  rc_message :: "string option"
  rc_value :: "raw option"
  rc_script :: "script_metadata option"

record receipt_details =
  rd_code :: "string option"
  rd_value :: "raw option"
  rd_script :: "script_metadata option"

definition coded :: "string \<Rightarrow> receipt_details" where
  "coded code = \<lparr>rd_code = Some code, rd_value = None, rd_script = None\<rparr>"

definition valued :: "raw \<Rightarrow> receipt_details" where
  "valued v = \<lparr>rd_code = None, rd_value = Some v, rd_script = None\<rparr>"

definition trusted_ownership :: "action_command \<Rightarrow> receipt_ownership" where
  "trusted_ownership c = \<lparr>ro_taskId = ac_taskId c, ro_actorId = ac_actorId c,
     ro_lease = Some (ac_leaseId c, ac_leaseRevision c)\<rparr>"

definition make_receipt ::
  "int \<Rightarrow> action_command \<Rightarrow> lease_target \<Rightarrow> receipt_state \<Rightarrow> receipt_details \<Rightarrow>
   receipt_ownership option \<Rightarrow> action_receipt"
where
  "make_receipt now c target state details ownership =
    \<lparr>rc_actionId = ac_id c, rc_state = state, rc_resource = target, rc_createdAt = ac_createdAt c,
     rc_ownership = ownership,
     rc_completedAt = (if state = StApprovalRequired then None else Some now),
     rc_code = rd_code details, rc_message = None, rc_value = rd_value details, rc_script = rd_script details\<rparr>"

definition redact_receipt :: "action_receipt \<Rightarrow> action_receipt" where
  "redact_receipt r = r\<lparr>rc_value := None, rc_message := None\<rparr>"

text \<open>The receipt of a script: the result envelope is checked and measured again.\<close>

definition envelope_field :: "string \<Rightarrow> (string \<times> json) list \<Rightarrow> json" where
  "envelope_field k ms = (case map_of ms k of None \<Rightarrow> JNull | Some j \<Rightarrow> j)"

definition bounded_number :: "int \<Rightarrow> json \<Rightarrow> int option" where
  "bounded_number limit j = (case j of JNum i \<Rightarrow> if 0 \<le> i \<and> i \<le> limit then Some i else None | _ \<Rightarrow> None)"

definition make_script_receipt ::
  "platform \<Rightarrow> int \<Rightarrow> action_command \<Rightarrow> lease_target \<Rightarrow> raw \<Rightarrow> receipt_ownership option \<Rightarrow>
   (error_code, action_receipt) result"
where
  "make_script_receipt pf now c target result ownership =
    and_then (canonicalize_bounded_json (scriptResultBytes AGENT_CONTROL_LIMITS + 1024)
                (Some ''serialization_failed'') (Some ''result_too_large'') result) (\<lambda>(envelope, bytes).
    (case envelope of
       JObj ms \<Rightarrow>
         throw_if (length ms \<noteq> 3 \<or> ''value'' \<notin> fst ` set ms \<or> ''resultBytes'' \<notin> fst ` set ms \<or>
                   ''durationMs'' \<notin> fst ` set ms) (Some ''serialization_failed'')
        (case (bounded_number (int (scriptResultBytes AGENT_CONTROL_LIMITS)) (envelope_field ''resultBytes'' ms),
               bounded_number (scriptTimeoutMs AGENT_CONTROL_LIMITS) (envelope_field ''durationMs'' ms)) of
           (Some resultBytes, Some durationMs) \<Rightarrow>
             and_then (canonicalize_bounded_json (scriptResultBytes AGENT_CONTROL_LIMITS)
                         (Some ''serialization_failed'') (Some ''result_too_large'')
                         (raw_of (envelope_field ''value'' ms))) (\<lambda>(v, valueBytes).
               throw_if (int valueBytes \<noteq> resultBytes) (Some ''serialization_failed'')
                (let source = (case ac_payload c of ScriptPayload _ _ source _ \<Rightarrow> source | _ \<Rightarrow> []) in
                 Inr (make_receipt now c target StSucceeded
                   \<lparr>rd_code = None, rd_value = Some (raw_of v),
                    rd_script = Some \<lparr>sm_sourceDigest = pf_sha pf source, sm_sourceBytes = length source,
                                      sm_resultBytes = nat resultBytes, sm_durationMs = durationMs\<rparr>\<rparr> ownership)))
         | _ \<Rightarrow> Inl (Some ''serialization_failed''))
     | _ \<Rightarrow> Inl (Some ''serialization_failed'')))"

text \<open>The form a receipt has in the journal.\<close>

record journal_resource =
  jr_kind :: "surface_kind option"
  jr_idDigest :: string
  jr_generation :: "nat option"

definition journal_resource :: "(string \<Rightarrow> string) \<Rightarrow> lease_target \<Rightarrow> journal_resource" where
  "journal_resource sha t =
    (case t of ProjectTarget i \<Rightarrow> \<lparr>jr_kind = None, jr_idDigest = sha i, jr_generation = None\<rparr>
     | SurfaceTarget k i g \<Rightarrow> \<lparr>jr_kind = Some k, jr_idDigest = sha i, jr_generation = Some g\<rparr>)"

record journal_receipt =
  jc_actionId :: string
  jc_state :: receipt_state
  jc_resource :: journal_resource
  jc_createdAt :: string
  jc_taskId :: "string option"
  jc_actorId :: "string option"
  jc_leaseId :: "string option"
  jc_leaseRevision :: "nat option"
  jc_completedAt :: "int option"
  jc_code :: "string option"
  jc_script :: "script_metadata option"

definition journal_receipt_metadata :: "(string \<Rightarrow> string) \<Rightarrow> action_receipt \<Rightarrow> journal_receipt" where
  "journal_receipt_metadata sha r =
    \<lparr>jc_actionId = rc_actionId r, jc_state = rc_state r, jc_resource = journal_resource sha (rc_resource r),
     jc_createdAt = rc_createdAt r,
     jc_taskId = truthy_string (map_option ro_taskId (rc_ownership r)),
     jc_actorId = truthy_string (map_option ro_actorId (rc_ownership r)),
     jc_leaseId = truthy_string (map_option fst (Option.bind (rc_ownership r) ro_lease)),
     jc_leaseRevision = map_option snd (Option.bind (rc_ownership r) ro_lease),
     jc_completedAt = rc_completedAt r, jc_code = truthy_string (rc_code r), jc_script = rc_script r\<rparr>"

section \<open>Outcomes\<close>

datatype 'v outcome =
    Succeeded 'v | Failed string | Unknown string | Rejected string

definition state_name :: "receipt_state \<Rightarrow> string" where
  "state_name st = (case st of StQueued \<Rightarrow> ''queued'' | StRunning \<Rightarrow> ''running''
     | StApprovalRequired \<Rightarrow> ''approval_required'' | StSucceeded \<Rightarrow> ''succeeded'' | StFailed \<Rightarrow> ''failed''
     | StDenied \<Rightarrow> ''denied'' | StExpired \<Rightarrow> ''expired'' | StUnknown \<Rightarrow> ''unknown'')"

definition outcome_for_receipt :: "action_receipt \<Rightarrow> action_receipt outcome" where
  "outcome_for_receipt r =
    (case rc_state r of
       StUnknown \<Rightarrow> Unknown (case rc_code r of None \<Rightarrow> ''effect_unknown'' | Some c \<Rightarrow> c)
     | StFailed \<Rightarrow> Failed (case rc_code r of None \<Rightarrow> ''action_failed'' | Some c \<Rightarrow> c)
     | StExpired \<Rightarrow> Failed (case rc_code r of None \<Rightarrow> ''action_expired'' | Some c \<Rightarrow> c)
     | StDenied \<Rightarrow> Failed (case rc_code r of None \<Rightarrow> ''action_denied'' | Some c \<Rightarrow> c)
     | _ \<Rightarrow> Succeeded r)"

definition failed_outcome :: "error_code \<Rightarrow> 'v outcome" where
  "failed_outcome e = Failed (case e of None \<Rightarrow> ''command_failed'' | Some c \<Rightarrow> c)"

definition STABLE_SURFACE_EFFECT_CODES :: "string list" where
  "STABLE_SURFACE_EFFECT_CODES =
    [''action_timeout'', ''args_too_large'', ''automation_failed'', ''backend_unavailable'', ''element_missing'',
     ''provider_busy'', ''provider_unavailable'', ''resource_missing'', ''resource_replaced'',
     ''mutation_not_allowed'', ''mutation_plan_invalid'', ''mutation_target_stale'', ''result_too_large'',
     ''script_source_too_large'', ''script_args_invalid'', ''script_args_too_large'', ''serialization_failed'',
     ''snapshot_too_large'', ''snapshot_stale'', ''target_unavailable'']"

definition is_stable_surface_effect_code :: "string \<Rightarrow> bool" where
  "is_stable_surface_effect_code c \<longleftrightarrow> c \<in> set STABLE_SURFACE_EFFECT_CODES"

definition stable_surface_effect_code :: "error_code \<Rightarrow> string" where
  "stable_surface_effect_code e =
    (let code = (case e of None \<Rightarrow> [] | Some c \<Rightarrow> c) in
     if is_stable_surface_effect_code code then code else ''effect_failed'')"

section \<open>Task subjects\<close>

record credential_reference =
  cr_taskId :: string
  cr_subjectId :: string
  cr_principalId :: string

definition task_subject_credential_reference :: "string \<Rightarrow> string \<Rightarrow> credential_reference option" where
  "task_subject_credential_reference taskId actorId =
    (if \<not> prefix ''task-subject:'' actorId then None
     else let subjectId = js_trim (drop (length ''task-subject:'') actorId) in
       if subjectId = [] then None
       else Some \<lparr>cr_taskId = taskId, cr_subjectId = subjectId, cr_principalId = actorId\<rparr>)"

definition task_subject_id :: "string \<Rightarrow> string \<Rightarrow> string option" where
  "task_subject_id taskId actorId = map_option cr_subjectId (task_subject_credential_reference taskId actorId)"

definition approval_matches_task_subject :: "approval \<Rightarrow> string \<Rightarrow> string \<Rightarrow> string option \<Rightarrow> bool" where
  "approval_matches_task_subject a taskId actorId subjectId \<longleftrightarrow>
     ai_taskId (ap_identity a) = taskId \<and>
     (ai_actorId (ap_identity a) = actorId \<or>
      subjectId \<noteq> None \<and> truthy_string (ai_subjectId (ap_identity a)) = subjectId)"

definition approval_lease_current :: "approval \<Rightarrow> capability_lease option \<Rightarrow> bool" where
  "approval_lease_current a lease \<longleftrightarrow>
    (case lease of None \<Rightarrow> False
     | Some l \<Rightarrow> cl_ownerEpoch l = ai_ownerEpoch (ap_identity a) \<and>
         int (cl_revision l) = ai_leaseRevision (ap_identity a) \<and>
         cl_actorId l = ai_actorId (ap_identity a) \<and> cl_taskId l = ai_taskId (ap_identity a))"

text \<open>\<open>isApprovalInvalidationError\<close>.\<close>

definition is_approval_invalidation_error :: "error_code \<Rightarrow> bool" where
  "is_approval_invalidation_error e \<longleftrightarrow>
     e = Some ''approval_denied'' \<or> e = Some ''approval_expired'' \<or> e = Some ''approval_missing'' \<or>
     e = Some ''approval_identity_mismatch''"
end
