(* ===== verification/OperationIdentity.thy ===== *)
theory OperationIdentity
  imports Policy Redaction
begin

text \<open>
  The identifiers an orchestration derives from a command
  (\<open>src/src/orchestration/operationIdentity.ts\<close>): SHA-256 over length-prefixed values, so that two
  different identities are hashed from different texts.
\<close>

text \<open>\<open>ORCHESTRATION_ERROR_CODES\<close> of \<open>src/src/orchestration/types.ts\<close>, as far as the model raises them.\<close>

datatype orchestration_error =
    InvalidOrchestrationRequest | ProjectScopeViolation | UnsupportedLaneMode | UnsupportedAgent

definition MAX_ORCHESTRATION_OPERATION_ID_LENGTH :: nat where
  "MAX_ORCHESTRATION_OPERATION_ID_LENGTH = 128"

definition tuple_part :: "string \<Rightarrow> string" where
  "tuple_part v = '':'' @ show_nat (length v) @ '':'' @ v"

definition tuple_text :: "string \<Rightarrow> string list \<Rightarrow> string" where
  "tuple_text domain vs = domain @ concat (map tuple_part vs)"

definition tuple_digest :: "(string \<Rightarrow> string) \<Rightarrow> string \<Rightarrow> string list \<Rightarrow> string" where
  "tuple_digest sha domain vs = sha (tuple_text domain vs)"

definition normalize_orchestration_operation_id :: "'b jsval \<Rightarrow> (orchestration_error, string) result" where
  "normalize_orchestration_operation_id v =
    (case v of
       JsStr s \<Rightarrow>
         let normalized = js_trim s in
         if normalized = [] \<or> MAX_ORCHESTRATION_OPERATION_ID_LENGTH < utf16_length normalized
         then Inl InvalidOrchestrationRequest else Inr normalized
     | _ \<Rightarrow> Inl InvalidOrchestrationRequest)"

definition derive_orchestration_operation_id :: "(string \<Rightarrow> string) \<Rightarrow> string \<Rightarrow> string" where
  "derive_orchestration_operation_id sha authority =
     ''orch-op-v1-'' @ tuple_digest sha ''psyche.orchestration.operation.v1'' [authority]"

definition daemon_authority ::
  "'b jsval \<Rightarrow> string \<Rightarrow> string \<Rightarrow> (orchestration_error, string list) result"
where
  "daemon_authority operationId connectionId requestId =
    (case operationId of
       JsUndef \<Rightarrow> Inr [''connection'', connectionId, requestId]
     | _ \<Rightarrow> and_then (normalize_orchestration_operation_id operationId) (\<lambda>i. Inr [''explicit'', i]))"

definition daemon_orchestration_control_idempotency_key ::
  "(string \<Rightarrow> string) \<Rightarrow> 'b jsval \<Rightarrow> 'b jsval \<Rightarrow> 'b jsval \<Rightarrow> (orchestration_error, string) result"
where
  "daemon_orchestration_control_idempotency_key sha operationId connectionId requestId =
    (case (connectionId, requestId) of
       (JsStr c, JsStr r) \<Rightarrow>
         and_then (daemon_authority operationId c r) (\<lambda>authority.
           Inr (''orch-daemon-v1-'' @ tuple_digest sha ''psyche.orchestration.daemon-control.v1'' authority))
     | _ \<Rightarrow> Inl InvalidOrchestrationRequest)"

datatype daemon_step = LeaseRequestStep | LeaseGrantStep

definition step_text :: "daemon_step \<Rightarrow> string" where
  "step_text st = (case st of LeaseRequestStep \<Rightarrow> ''lease-request'' | LeaseGrantStep \<Rightarrow> ''lease-grant'')"

definition daemon_orchestration_control_step_idempotency_key ::
  "(string \<Rightarrow> string) \<Rightarrow> string \<Rightarrow> string \<Rightarrow> daemon_step \<Rightarrow> string"
where
  "daemon_orchestration_control_step_idempotency_key sha executionKey connectionId st =
     ''orch-daemon-step-v1-'' @
       tuple_digest sha ''psyche.orchestration.daemon-control-step.v1'' [step_text st, connectionId, executionKey]"

definition bridge_pane_launch_request_id ::
  "(string \<Rightarrow> string) \<Rightarrow> 'b jsval \<Rightarrow> string \<Rightarrow> (orchestration_error, string) result"
where
  "bridge_pane_launch_request_id sha operationId laneId =
     and_then (normalize_orchestration_operation_id operationId) (\<lambda>i.
       Inr (''orch-pane-v1-'' @ tuple_digest sha ''psyche.orchestration.bridge-pane.v1'' [i, laneId]))"

definition orchestration_lane_result_key ::
  "(string \<Rightarrow> string) \<Rightarrow> 'b jsval \<Rightarrow> string \<Rightarrow> (orchestration_error, string) result"
where
  "orchestration_lane_result_key sha operationId laneId =
     and_then (normalize_orchestration_operation_id operationId) (\<lambda>i.
       Inr (''orch-lane-v1-'' @ tuple_digest sha ''psyche.orchestration.retained-lane.v1'' [i, laneId]))"

section \<open>The encoding is unambiguous\<close>

lemma digits_then_colon:
  assumes "show_nat m @ CHR '':'' # xs = show_nat n @ CHR '':'' # ys"
  shows "m = n \<and> xs = ys"
proof -
  have no: "CHR '':'' \<notin> set (show_nat k)" for k
  proof
    assume "CHR '':'' \<in> set (show_nat k)"
    with show_nat_digits [of k] have "is_digit (CHR '':'')" unfolding list_all_iff by blast
    then show False by (simp add: is_digit_def)
  qed
  have "takeWhile (\<lambda>c. c \<noteq> CHR '':'') (show_nat k @ CHR '':'' # zs) = show_nat k" for k zs
    using no [of k] by (subst takeWhile_append2) auto
  with assms have eq: "show_nat m = show_nat n" by metis
  then have "m = n" using nat_value_show by metis
  with assms show ?thesis by simp
qed

lemma tuple_parts_inj: "concat (map tuple_part xs) = concat (map tuple_part ys) \<longleftrightarrow> xs = ys"
proof (induction xs arbitrary: ys)
  case Nil
  then show ?case by (cases ys) (simp_all add: tuple_part_def)
next
  case (Cons x xs)
  show ?case
  proof (cases ys)
    case Nil
    then show ?thesis by (simp add: tuple_part_def)
  next
    case (Cons y ys')
    show ?thesis
    proof
      assume "concat (map tuple_part (x # xs)) = concat (map tuple_part ys)"
      then have "show_nat (length x) @ CHR '':'' # x @ concat (map tuple_part xs) =
          show_nat (length y) @ CHR '':'' # y @ concat (map tuple_part ys')"
        using Cons by (simp add: tuple_part_def)
      from digits_then_colon [OF this]
      have "length x = length y" "x @ concat (map tuple_part xs) = y @ concat (map tuple_part ys')" by auto
      then have "x = y" "concat (map tuple_part xs) = concat (map tuple_part ys')" by auto
      with \<open>ys = y # ys'\<close> Cons.IH [of ys'] show "x # xs = ys" by blast
    qed simp
  qed
qed

text \<open>The texts that are hashed for a request, and when keys made of them agree.\<close>

definition key_texts :: "'b jsval \<Rightarrow> string \<Rightarrow> string \<Rightarrow> string \<Rightarrow> string set" where
  "key_texts operationId connectionId requestId laneId =
    (case daemon_authority operationId connectionId requestId of
       Inl _ \<Rightarrow> {} | Inr a \<Rightarrow> {tuple_text ''psyche.orchestration.daemon-control.v1'' a}) \<union>
    (case normalize_orchestration_operation_id operationId of
       Inl _ \<Rightarrow> {}
     | Inr i \<Rightarrow> {tuple_text ''psyche.orchestration.bridge-pane.v1'' [i, laneId],
                  tuple_text ''psyche.orchestration.retained-lane.v1'' [i, laneId]})"

lemma tuple_text_inj [simp]: "tuple_text d xs = tuple_text d ys \<longleftrightarrow> xs = ys"
  by (simp add: tuple_text_def tuple_parts_inj)

lemma digest_unique:
  assumes "inj_on sha T" "tuple_text d xs \<in> T" "tuple_text d ys \<in> T" "tuple_digest sha d xs = tuple_digest sha d ys"
  shows "xs = ys"
  using assms by (metis inj_onD tuple_digest_def tuple_text_inj)

lemma authority_same:
  fixes o1 o2 :: "'b jsval"
  assumes "daemon_authority o1 c1 r1 = Inr a" "daemon_authority o2 c2 r2 = Inr a"
  shows "o1 = JsUndef \<and> o2 = JsUndef \<and> c1 = c2 \<and> r1 = r2 \<or>
     o1 \<noteq> JsUndef \<and> o2 \<noteq> JsUndef \<and> normalize_orchestration_operation_id o1 = normalize_orchestration_operation_id o2"
proof -
  have other: "daemon_authority v c r = and_then (normalize_orchestration_operation_id v) (\<lambda>i. Inr [''explicit'', i])"
    if "v \<noteq> JsUndef" for v :: "'b jsval" and c r using that by (cases v) (simp_all add: daemon_authority_def)
  have und: "daemon_authority JsUndef c r = Inr [''connection'', c, r]" for c r :: string
    by (simp add: daemon_authority_def)
  show ?thesis
    using assms by (cases "o1 = JsUndef"; cases "o2 = JsUndef") (auto simp: und other and_then_Inr)
qed

text \<open>
  C38. Two daemon requests with the same control key name the same explicit operation (up to
  surrounding white space) or are the same request of the same connection, and a pane launch key or
  a lane result key belongs to one operation and one lane, as long as SHA-256 does not map two of
  the hashed texts to one digest.
\<close>
theorem operation_keys_separate:
  fixes o1 o2 :: "'b jsval"
  assumes "inj_on sha (key_texts o1 c1 r1 l1 \<union> key_texts o2 c2 r2 l2)"
  shows "(daemon_orchestration_control_idempotency_key sha o1 (JsStr c1) (JsStr r1) = Inr k \<longrightarrow>
      daemon_orchestration_control_idempotency_key sha o2 (JsStr c2) (JsStr r2) = Inr k \<longrightarrow>
      (o1 = JsUndef \<and> o2 = JsUndef \<and> c1 = c2 \<and> r1 = r2 \<or>
       o1 \<noteq> JsUndef \<and> o2 \<noteq> JsUndef \<and>
       normalize_orchestration_operation_id o1 = normalize_orchestration_operation_id o2)) \<and>
    (bridge_pane_launch_request_id sha o1 l1 = Inr p \<longrightarrow> bridge_pane_launch_request_id sha o2 l2 = Inr p \<longrightarrow>
      l1 = l2 \<and> normalize_orchestration_operation_id o1 = normalize_orchestration_operation_id o2) \<and>
    (orchestration_lane_result_key sha o1 l1 = Inr q \<longrightarrow> orchestration_lane_result_key sha o2 l2 = Inr q \<longrightarrow>
      l1 = l2 \<and> normalize_orchestration_operation_id o1 = normalize_orchestration_operation_id o2)"
proof -
  have key: "o1 = JsUndef \<and> o2 = JsUndef \<and> c1 = c2 \<and> r1 = r2 \<or> o1 \<noteq> JsUndef \<and> o2 \<noteq> JsUndef \<and>
      normalize_orchestration_operation_id o1 = normalize_orchestration_operation_id o2"
    if k: "daemon_orchestration_control_idempotency_key sha o1 (JsStr c1) (JsStr r1) = Inr k"
      "daemon_orchestration_control_idempotency_key sha o2 (JsStr c2) (JsStr r2) = Inr k"
  proof -
    from k obtain a b where ab: "daemon_authority o1 c1 r1 = Inr a" "daemon_authority o2 c2 r2 = Inr b"
      and d: "tuple_digest sha ''psyche.orchestration.daemon-control.v1'' a = tuple_digest sha ''psyche.orchestration.daemon-control.v1'' b"
      by (auto simp: daemon_orchestration_control_idempotency_key_def and_then_Inr)
    have "a = b" by (rule digest_unique [OF assms _ _ d]) (simp_all add: key_texts_def ab)
    with ab show ?thesis using authority_same by blast
  qed
  have lane: "l1 = l2 \<and> normalize_orchestration_operation_id o1 = normalize_orchestration_operation_id o2"
    if "normalize_orchestration_operation_id o1 = Inr i" "normalize_orchestration_operation_id o2 = Inr j"
      and d: "tuple_digest sha d [i, l1] = tuple_digest sha d [j, l2]"
      and "d = ''psyche.orchestration.bridge-pane.v1'' \<or> d = ''psyche.orchestration.retained-lane.v1''" for i j d
  proof -
    have "[i, l1] = [j, l2]" by (rule digest_unique [OF assms _ _ d]) (use that in \<open>auto simp: key_texts_def\<close>)
    with that show ?thesis by simp
  qed
  have bridge: "l1 = l2 \<and> normalize_orchestration_operation_id o1 = normalize_orchestration_operation_id o2"
    if "bridge_pane_launch_request_id sha o1 l1 = Inr p" "bridge_pane_launch_request_id sha o2 l2 = Inr p"
  proof -
    from that obtain i j where ij: "normalize_orchestration_operation_id o1 = Inr i" "normalize_orchestration_operation_id o2 = Inr j"
      and "tuple_digest sha ''psyche.orchestration.bridge-pane.v1'' [i, l1] = tuple_digest sha ''psyche.orchestration.bridge-pane.v1'' [j, l2]"
      by (auto simp: bridge_pane_launch_request_id_def and_then_Inr)
    from lane [OF ij this(3)] show ?thesis by simp
  qed
  have retained: "l1 = l2 \<and> normalize_orchestration_operation_id o1 = normalize_orchestration_operation_id o2"
    if "orchestration_lane_result_key sha o1 l1 = Inr q" "orchestration_lane_result_key sha o2 l2 = Inr q"
  proof -
    from that obtain i j where ij: "normalize_orchestration_operation_id o1 = Inr i" "normalize_orchestration_operation_id o2 = Inr j"
      and "tuple_digest sha ''psyche.orchestration.retained-lane.v1'' [i, l1] = tuple_digest sha ''psyche.orchestration.retained-lane.v1'' [j, l2]"
      by (auto simp: orchestration_lane_result_key_def and_then_Inr)
    from lane [OF ij this(3)] show ?thesis by simp
  qed
  show ?thesis using key bridge retained by blast
qed

lemma operation_keys_separate_witness:
  "bridge_pane_launch_request_id id (JsStr ''op'' :: unit jsval) ''a'' \<noteq>
   bridge_pane_launch_request_id id (JsStr ''op'' :: unit jsval) ''b''"
proof
  let ?op = "JsStr ''op'' :: unit jsval"
  assume a: "bridge_pane_launch_request_id id ?op ''a'' = bridge_pane_launch_request_id id ?op ''b''"
  have "normalize_orchestration_operation_id ?op = Inr ''op''" by code_simp
  then obtain p where "bridge_pane_launch_request_id id ?op ''a'' = Inr p"
    by (simp add: bridge_pane_launch_request_id_def)
  with a have "''a'' = ''b''"
    using operation_keys_separate [of id ?op "[]" "[]" "''a''" ?op "[]" "[]" "''b''" "[]" p "[]"]
    by (simp only: inj_on_id)
  then show False by simp
qed

end
