(* ===== verification/Runtime.thy ===== *)
theory Runtime
  imports SurfaceActions LaneLeases OperationIdentity
begin

text \<open>
  The control runtime (\<open>ControlRuntime\<close> of \<open>src/src/control/runtime.ts\<close>): the stores it owns and the
  handlers that act on them. A handler takes what it reads from outside (clock, credential file,
  snapshot store, fresh identifiers, the result of an effect) as a \<open>rt_env\<close>, and the runtime as
  explicit state. A handler is one step, except at the wait for the resource queue: enqueueing an
  effect and running it are two steps, with any other steps between them. The journal's durability
  is not modelled here: an append succeeds.
\<close>

section \<open>State\<close>

record envelope =
  cm_id :: string
  cm_key :: string
  cm_projectRoot :: string
  cm_actorKind :: control_actor_kind
  cm_actorId :: string
  cm_ownerEpoch :: int
  cm_createdAt :: string

definition action_envelope :: "action_command \<Rightarrow> envelope" where
  "action_envelope c = \<lparr>cm_id = ac_id c, cm_key = ac_key c, cm_projectRoot = ac_projectRoot c,
     cm_actorKind = ac_actorKind c, cm_actorId = ac_actorId c, cm_ownerEpoch = ac_ownerEpoch c,
     cm_createdAt = ac_createdAt c\<rparr>"

datatype surface_command =
    LeaseRequest envelope string int "grant_item list"
  | LeaseGrant envelope string
  | LeaseRelease envelope string string nat
  | LeaseRevoke envelope string
  | ProviderUpsert envelope browser_input
  | ProviderRemove envelope string nat
  | ApprovalResolve envelope string string bool
  | SurfaceAction action_command

datatype request_status = RequestPending | RequestGranted | RequestReleased | RequestRevoked

record lease_request_record =
  lq_id :: string
  lq_ownerEpoch :: int
  lq_actorId :: string
  lq_taskId :: string
  lq_status :: request_status
  lq_createdAt :: string
  lq_ttlMs :: int
  lq_grants :: "grant_item list"

datatype reply =
    NoReply | RequestReply string | LeaseReply capability_lease | SurfaceReply surface
  | ReceiptReply action_receipt | ApprovalReply action_receipt string string
  | LaneReply string "string option" nat

record prompt_envelope =
  pe_promptId :: string
  pe_utf8 :: string
  pe_contentHash :: string

datatype pane_command_kind =
    PromptCommand prompt_envelope nat | InputCommand nat | InterruptCommand nat | OtherPaneCommand

record pane_command =
  pc_envelope :: envelope
  pc_paneId :: string
  pc_kind :: pane_command_kind

text \<open>
  The commands that bypass the queues: \<open>orchestration.execute\<close> (task, lease and revision of its
  authorization) and the others, whose payload the runtime passes on unread.
\<close>

datatype immediate_kind = OrchestrationCommand string string nat | OtherImmediate

record immediate_command =
  im_envelope :: envelope
  im_kind :: immediate_kind

datatype runtime_command =
    SurfaceCommand surface_command
  | DelegateCommand envelope string string string int
  | TakeoverCommand envelope string
  | PaneCommand pane_command
  | ImmediateCommand immediate_command

record command_record =
  kr_command :: runtime_command
  kr_outcome :: "reply outcome option"
  kr_sequence :: nat

text \<open>
  A queue entry: a surface effect (with the resolving command when it was approved) or a pane
  command with the fields of \<open>QueuedCommand\<close>.
\<close>

record queued_effect =
  qe_context :: action_context
  qe_resolver :: "envelope option"
  qe_approval :: "string option"

record pane_item =
  it_command :: pane_command
  it_automation :: bool
  it_generation :: nat
  it_preempted :: bool
  it_terminalized :: bool

datatype queue_entry = EffectEntry queued_effect | PaneEntry pane_item

record resource_queue =
  rq_target :: lease_target
  rq_entries :: "queue_entry list"
  rq_pendingEffects :: nat
  rq_quarantined :: bool

datatype runtime_event =
    EvRequested string string
  | EvTerminal string string "reply outcome" "journal_receipt option"
  | EvApprovalRequested string string string journal_resource surface_capability redacted_effect
  | EvDelegated string string string string nat
  | EvTakeover string string string nat

record runtime =
  rt_ownerEpoch :: int
  rt_surfaces :: surface_registry
  rt_leases :: cap_store
  rt_approvals :: approval_store
  rt_lanes :: lane_store
  rt_requests :: "(string, lease_request_record) jsmap"
  rt_tombstones :: "(string, unit) jsmap"
  rt_pending :: "(string, action_context) jsmap"
  rt_receipts :: "(string, string option \<times> action_receipt) jsmap"
  rt_queues :: "(string, resource_queue) jsmap"
  rt_barriers :: "(string, nat) jsmap"
  rt_outcomes :: "(string, reply outcome) jsmap"
  rt_records :: "(string, command_record) jsmap"
  rt_journal :: "runtime_event list"
  rt_effects :: "queued_effect list"
  rt_paneEffects :: "pane_command list"
  rt_immediateEffects :: "(immediate_command \<times> string option) list"

text \<open>
  \<open>rt_effects\<close>, \<open>rt_paneEffects\<close> and \<open>rt_immediateEffects\<close> log the calls of the side-effecting handlers
  (the last with the operation identifier it is given); the code keeps no such log. Time: \<open>en_now\<close> is what the runtime reads itself, \<open>en_clock p i\<close> the readings of the \<open>i\<close>-th store
  call of phase \<open>p\<close> of the step, so that no two calls are forced to read the same time.
\<close>

datatype credential_reply = CredentialError | CredentialNone | CredentialFound credential_reference

datatype effect_result = EffectValue raw | EffectThrow error_code bool

type_synonym clock = "nat \<Rightarrow> nat \<Rightarrow> readings"

record rt_env =
  en_platform :: platform
  en_now :: int
  en_clock :: clock
  en_credential :: "(string \<Rightarrow> credential_reply) option"
  en_semantics :: "semantics_lookup option"
  en_leaseId :: string
  en_approvalId :: string
  en_effect :: effect_result
  en_resolve :: "string \<Rightarrow> string"
  en_relative :: "string \<Rightarrow> string \<Rightarrow> string"
  en_isAbsolute :: "string \<Rightarrow> bool"

definition MAX_COMMAND_RECORDS :: nat where "MAX_COMMAND_RECORDS = 1000"

definition runtime_init :: "int \<Rightarrow> runtime" where
  "runtime_init epoch = \<lparr>rt_ownerEpoch = epoch, rt_surfaces = surface_init, rt_leases = cap_init epoch None None,
     rt_approvals = approvals_init, rt_lanes = lane_init, rt_requests = [], rt_tombstones = [], rt_pending = [],
     rt_receipts = [], rt_queues = [], rt_barriers = [], rt_outcomes = [], rt_records = [], rt_journal = [],
     rt_effects = [], rt_paneEffects = [], rt_immediateEffects = []\<rparr>"

text \<open>A step that may throw, and its sequencing.\<close>

type_synonym 'a action = "runtime \<Rightarrow> (error_code, 'a) result \<times> runtime"

definition and_do :: "'a action \<Rightarrow> ('a \<Rightarrow> 'b action) \<Rightarrow> 'b action" where
  "and_do f g s = (case f s of (Inl e, s') \<Rightarrow> (Inl e, s') | (Inr x, s') \<Rightarrow> g x s')"

definition pure_do :: "(error_code, 'a) result \<Rightarrow> 'a action" where
  "pure_do r s = (r, s)"

section \<open>Receipts, outcomes, tombstones\<close>

definition append_requested :: "string \<Rightarrow> string \<Rightarrow> runtime \<Rightarrow> runtime" where
  "append_requested cid key s = s\<lparr>rt_journal := rt_journal s @ [EvRequested cid key]\<rparr>"

definition remember_outcome :: "string \<Rightarrow> reply outcome \<Rightarrow> runtime \<Rightarrow> runtime" where
  "remember_outcome key o' s = s\<lparr>rt_outcomes := remember_bounded MAX_COMMAND_RECORDS key o' (rt_outcomes s)\<rparr>"

definition append_terminal ::
  "rt_env \<Rightarrow> string \<Rightarrow> string \<Rightarrow> reply outcome \<Rightarrow> action_receipt option \<Rightarrow> runtime \<Rightarrow> runtime"
where
  "append_terminal en cid key o' receipt s =
     remember_outcome key o'
       (s\<lparr>rt_journal := rt_journal s @
            [EvTerminal cid key o' (map_option (journal_receipt_metadata (pf_sha (en_platform en))) receipt)]\<rparr>)"

fun command_envelope :: "surface_command \<Rightarrow> envelope" where
  "command_envelope (LeaseRequest m _ _ _) = m"
| "command_envelope (LeaseGrant m _) = m"
| "command_envelope (LeaseRelease m _ _ _) = m"
| "command_envelope (LeaseRevoke m _) = m"
| "command_envelope (ProviderUpsert m _) = m"
| "command_envelope (ProviderRemove m _ _) = m"
| "command_envelope (ApprovalResolve m _ _ _) = m"
| "command_envelope (SurfaceAction c) = action_envelope c"

fun runtime_envelope :: "runtime_command \<Rightarrow> envelope" where
  "runtime_envelope (SurfaceCommand c) = command_envelope c"
| "runtime_envelope (DelegateCommand m _ _ _ _) = m"
| "runtime_envelope (TakeoverCommand m _) = m"
| "runtime_envelope (PaneCommand pc) = pc_envelope pc"
| "runtime_envelope (ImmediateCommand ic) = im_envelope ic"

definition is_surface_control :: "runtime_command \<Rightarrow> bool" where
  "is_surface_control c = (case c of SurfaceCommand _ \<Rightarrow> True | _ \<Rightarrow> False)"

text \<open>
  The envelopes of commands other than surface commands are retained for \<open>snapshot\<close>;
  the sequence number is that of the event just appended.
\<close>

definition retain_command_record :: "string \<Rightarrow> command_record \<Rightarrow> runtime \<Rightarrow> runtime" where
  "retain_command_record i r s = s\<lparr>rt_records := remember_bounded MAX_COMMAND_RECORDS i r (rt_records s)\<rparr>"

definition request_command :: "runtime_command \<Rightarrow> runtime \<Rightarrow> runtime" where
  "request_command c s =
    (let m = runtime_envelope c; s1 = append_requested (cm_id m) (cm_key m) s
     in if is_surface_control c then s1
        else retain_command_record (cm_id m)
               \<lparr>kr_command = c, kr_outcome = None, kr_sequence = length (rt_journal s1)\<rparr> s1)"

definition terminate_command :: "rt_env \<Rightarrow> runtime_command \<Rightarrow> reply outcome \<Rightarrow> runtime \<Rightarrow> runtime" where
  "terminate_command en c out s =
    (let m = runtime_envelope c; s1 = append_terminal en (cm_id m) (cm_key m) out None s;
         retained = \<lparr>kr_command = c, kr_outcome = Some out, kr_sequence = length (rt_journal s1)\<rparr>
     in if is_surface_control c then s1
        else (case jm_get (rt_records s1) (cm_id m) of
            None \<Rightarrow> retain_command_record (cm_id m) retained s1
          | Some r \<Rightarrow> s1\<lparr>rt_records := jm_set (cm_id m) (retained\<lparr>kr_command := kr_command r\<rparr>) (rt_records s1)\<rparr>))"

definition remember_receipt :: "action_receipt \<Rightarrow> string option \<Rightarrow> runtime \<Rightarrow> runtime" where
  "remember_receipt r taskId s =
     s\<lparr>rt_receipts := remember_bounded MAX_COMMAND_RECORDS (rc_actionId r) (taskId, redact_receipt r) (rt_receipts s)\<rparr>"

definition remember_lease_request_identity :: "string \<Rightarrow> runtime \<Rightarrow> runtime" where
  "remember_lease_request_identity requestId s =
     s\<lparr>rt_tombstones := remember_bounded (leaseRequestRecords AGENT_CONTROL_LIMITS) requestId () (rt_tombstones s)\<rparr>"

fun map_outcome :: "('v \<Rightarrow> 'w) \<Rightarrow> 'v outcome \<Rightarrow> 'w outcome" where
  "map_outcome f (Succeeded v) = Succeeded (f v)"
| "map_outcome f (Failed c) = Failed c"
| "map_outcome f (Unknown c) = Unknown c"
| "map_outcome f (Rejected c) = Rejected c"

definition receipt_outcome :: "action_receipt \<Rightarrow> reply outcome" where
  "receipt_outcome r = map_outcome ReceiptReply (outcome_for_receipt r)"

definition terminalize_validation_failure ::
  "rt_env \<Rightarrow> action_command \<Rightarrow> lease_target \<Rightarrow> string \<Rightarrow> receipt_ownership option \<Rightarrow> runtime \<Rightarrow> runtime"
where
  "terminalize_validation_failure en c target code ownership s =
    (let receipt = make_receipt (en_now en) c target StFailed (coded code) ownership
     in append_terminal en (ac_id c) (ac_key c) (receipt_outcome receipt) (Some receipt)
          (remember_receipt receipt (map_option ro_taskId ownership) s))"

section \<open>Approvals that end\<close>

definition approval_already_terminalized :: "string \<Rightarrow> runtime \<Rightarrow> bool" where
  "approval_already_terminalized actionId s =
    (case jm_get (rt_receipts s) actionId of None \<Rightarrow> False | Some (t, r) \<Rightarrow> rc_state r \<noteq> StApprovalRequired)"

definition forget_pending :: "string \<Rightarrow> runtime \<Rightarrow> runtime" where
  "forget_pending approvalId s = s\<lparr>rt_pending := jm_delete approvalId (rt_pending s)\<rparr>"

definition finalize_approval ::
  "rt_env \<Rightarrow> string \<Rightarrow> action_context option \<Rightarrow> string \<Rightarrow> runtime \<Rightarrow> runtime"
where
  "finalize_approval en code fallback approvalId s =
    (case (case jm_get (rt_pending s) approvalId of Some c \<Rightarrow> Some c | None \<Rightarrow> fallback) of
       None \<Rightarrow> s
     | Some context \<Rightarrow>
         if approval_already_terminalized (ac_id (cx_command context)) s then forget_pending approvalId s
         else forget_pending approvalId
           (terminalize_validation_failure en (cx_command context) (cx_target context) code
              (Some (trusted_ownership (cx_command context))) s))"

definition finalize_approvals :: "rt_env \<Rightarrow> string \<Rightarrow> approval list \<Rightarrow> runtime \<Rightarrow> runtime" where
  "finalize_approvals en code as s = fold (finalize_approval en code None) (map ap_id as) s"

definition prune_pending_approvals :: "approval list \<Rightarrow> runtime \<Rightarrow> runtime" where
  "prune_pending_approvals as s =
     s\<lparr>rt_pending := filter (\<lambda>(i, c). i \<in> set (map ap_id (filter is_active as))) (rt_pending s)\<rparr>"

definition stale_approval_ids :: "capability_lease list \<Rightarrow> approval list \<Rightarrow> string list" where
  "stale_approval_ids activeLeases as =
     map ap_id (filter (\<lambda>a. is_active a \<and>
       \<not> approval_lease_current a (map_of (rev (map (\<lambda>l. (cl_id l, l)) activeLeases)) (ai_leaseId (ap_identity a)))) as)"

text \<open>Two store calls of phase \<open>p\<close>: \<open>expire\<close> and \<open>revokeForApprovalIds\<close>; the leases come from the caller.\<close>

definition refresh_with :: "rt_env \<Rightarrow> nat \<Rightarrow> nat \<Rightarrow> capability_lease list \<Rightarrow> runtime \<Rightarrow> runtime" where
  "refresh_with en p i activeLeases s =
    (let (expired, ap1) = ap_expire (en_clock en p i 0) (rt_approvals s);
         s1 = finalize_approvals en ''approval_expired'' expired (s\<lparr>rt_approvals := ap1\<rparr>);
         (revoked, ap2) = revoke_for_approval_ids
            (map JsStr (stale_approval_ids activeLeases (ap_peek (rt_approvals s1)))) (en_clock en p (i + 1) 0) (rt_approvals s1);
         s2 = finalize_approvals en ''action_invalidated'' revoked (s1\<lparr>rt_approvals := ap2\<rparr>)
     in prune_pending_approvals (ap_peek (rt_approvals s2)) s2)"

definition refresh_approval_state :: "rt_env \<Rightarrow> nat \<Rightarrow> nat \<Rightarrow> runtime \<Rightarrow> runtime" where
  "refresh_approval_state en p i s =
    (let (leases, cs) = cap_snapshot (en_clock en p i) (rt_leases s)
     in refresh_with en p (i + 1) leases (s\<lparr>rt_leases := cs\<rparr>))"

definition revoke_approvals_for_lease :: "rt_env \<Rightarrow> nat \<Rightarrow> nat \<Rightarrow> string \<Rightarrow> runtime \<Rightarrow> runtime" where
  "revoke_approvals_for_lease en p i leaseId s =
    (let s1 = refresh_approval_state en p i s;
         (revoked, ap) = revoke_for_lease leaseId (en_clock en p (i + 3) 0) (rt_approvals s1)
     in finalize_approvals en ''action_invalidated'' revoked (s1\<lparr>rt_approvals := ap\<rparr>))"

text \<open>The loop after \<open>revokeTarget\<close> and \<open>revokeActorTask\<close>: four store calls per lease.\<close>

fun end_leases :: "rt_env \<Rightarrow> nat \<Rightarrow> nat \<Rightarrow> capability_lease list \<Rightarrow> runtime \<Rightarrow> runtime" where
  "end_leases en p i [] s = s"
| "end_leases en p i (l # ls) s =
     end_leases en p (i + 4) ls
       (remember_lease_request_identity (cl_requestId l) (revoke_approvals_for_lease en p i (cl_id l) s))"

definition rt_revoke_target :: "rt_env \<Rightarrow> nat \<Rightarrow> lease_target \<Rightarrow> runtime \<Rightarrow> runtime" where
  "rt_revoke_target en p target s =
    (let (revoked, cs) = revoke_target (en_clock en p 0) target (rt_leases s)
     in end_leases en p 1 revoked (s\<lparr>rt_leases := cs\<rparr>))"

section \<open>Task subjects\<close>

datatype subject_status = SubjectActive | SubjectInactive | SubjectUnavailable | SubjectUntracked

definition read_task_subject_status :: "rt_env \<Rightarrow> string \<Rightarrow> string \<Rightarrow> subject_status" where
  "read_task_subject_status en taskId actorId =
    (case en_credential en of
       None \<Rightarrow> SubjectUntracked
     | Some read \<Rightarrow>
        (case task_subject_credential_reference taskId actorId of
           None \<Rightarrow> SubjectUntracked
         | Some reference \<Rightarrow>
            (case read taskId of
               CredentialError \<Rightarrow> SubjectUnavailable
             | CredentialNone \<Rightarrow> SubjectInactive
             | CredentialFound current \<Rightarrow>
                 if cr_principalId current = cr_principalId reference \<and> cr_subjectId current = cr_subjectId reference
                 then SubjectActive else SubjectInactive)))"

definition revoke_approvals_for_task_subject :: "rt_env \<Rightarrow> nat \<Rightarrow> string \<Rightarrow> string \<Rightarrow> runtime \<Rightarrow> runtime" where
  "revoke_approvals_for_task_subject en p taskId actorId s =
    (let ids = map ap_id (filter (\<lambda>a. is_active a \<and>
                 approval_matches_task_subject a taskId actorId (task_subject_id taskId actorId)) (ap_peek (rt_approvals s)));
         (revoked, ap) = revoke_for_approval_ids (map JsStr ids) (en_clock en p 0 0) (rt_approvals s)
     in finalize_approvals en ''action_invalidated'' revoked (s\<lparr>rt_approvals := ap\<rparr>))"

definition forget_request :: "string \<Rightarrow> runtime \<Rightarrow> runtime" where
  "forget_request requestId s =
     remember_lease_request_identity requestId (s\<lparr>rt_requests := jm_delete requestId (rt_requests s)\<rparr>)"

definition invalidate_task_subject_authority :: "rt_env \<Rightarrow> nat \<Rightarrow> string \<Rightarrow> string \<Rightarrow> runtime \<Rightarrow> runtime" where
  "invalidate_task_subject_authority en p taskId actorId s =
    (let s1 = fold forget_request (map lq_id (filter (\<lambda>q. lq_taskId q = taskId \<and> lq_actorId q = actorId)
                (jm_values (rt_requests s)))) s;
         s2 = revoke_approvals_for_task_subject en p taskId actorId s1;
         (revoked, cs) = revoke_actor_task (en_clock en p 1) actorId taskId (rt_leases s2)
     in end_leases en p 2 revoked (s2\<lparr>rt_leases := cs\<rparr>))"

definition assert_task_subject_active :: "rt_env \<Rightarrow> nat \<Rightarrow> string \<Rightarrow> string \<Rightarrow> unit action" where
  "assert_task_subject_active en p taskId actorId s =
    (case read_task_subject_status en taskId actorId of
       SubjectActive \<Rightarrow> (Inr (), s)
     | SubjectUntracked \<Rightarrow> (Inr (), s)
     | SubjectInactive \<Rightarrow> (Inl (Some ''task_subject_inactive''), invalidate_task_subject_authority en p taskId actorId s)
     | SubjectUnavailable \<Rightarrow> (Inl (Some ''task_credential_unavailable''), s))"

section \<open>Checks\<close>

definition assert_capability_lease :: "rt_env \<Rightarrow> nat \<Rightarrow> lease_assertion \<Rightarrow> unit action" where
  "assert_capability_lease en p a =
    and_do (assert_task_subject_active en p (as_taskId a) (as_actorId a)) (\<lambda>_ s.
      (case cap_assert (en_clock en p 0) a (rt_leases s) of
         (Inl e, cs) \<Rightarrow> (Inl (cap_code e), s\<lparr>rt_leases := cs\<rparr>)
       | (Inr l, cs) \<Rightarrow> (Inr (), s\<lparr>rt_leases := cs\<rparr>)))"

text \<open>The pure part: is the target a registered surface of this project, in this generation?\<close>

definition check_surface :: "surface_registry \<Rightarrow> string \<Rightarrow> lease_target \<Rightarrow> (error_code, unit) result" where
  "check_surface r projectRoot target =
    (case target of
       ProjectTarget i \<Rightarrow> throw_if (i \<noteq> projectRoot) (Some ''resource_missing'') (Inr ())
     | SurfaceTarget k i g \<Rightarrow>
         and_then (with_code surface_code (require_surface i g r)) (\<lambda>resource.
           throw_if (surface_kind_of resource \<noteq> k) (Some ''resource_missing'')
          (throw_if (surface_project resource \<noteq> projectRoot) (Some ''resource_scope_mismatch'') (Inr ()))))"

definition action_assertion :: "action_command \<Rightarrow> lease_target \<Rightarrow> surface_capability \<Rightarrow> lease_assertion" where
  "action_assertion c target capability = \<lparr>as_leaseId = ac_leaseId c, as_revision = ac_leaseRevision c,
     as_ownerEpoch = ac_ownerEpoch c, as_actorId = ac_actorId c, as_taskId = ac_taskId c,
     as_target = target, as_capability = capability\<rparr>"

definition assert_surface_and_lease ::
  "rt_env \<Rightarrow> nat \<Rightarrow> action_command \<Rightarrow> lease_target \<Rightarrow> surface_capability \<Rightarrow> unit action"
where
  "assert_surface_and_lease en p c target capability s =
     and_do (pure_do (check_surface (rt_surfaces s) (ac_projectRoot c) target)) (\<lambda>_.
       assert_capability_lease en p (action_assertion c target capability)) s"

definition prepare_surface_action :: "rt_env \<Rightarrow> nat \<Rightarrow> action_command \<Rightarrow> action_context action" where
  "prepare_surface_action en p c s =
     and_do (pure_do (assert_command_current (rt_ownerEpoch s) (en_now en) c)) (\<lambda>_.
     and_do (pure_do (describe_action (en_platform en) (en_semantics en) c)) (\<lambda>ctx.
     and_do (assert_surface_and_lease en p c (cx_target ctx) (pc_capability (cx_classification ctx))) (\<lambda>_.
       pure_do (Inr ctx)))) s"

fun assert_grant_targets :: "surface_registry \<Rightarrow> string \<Rightarrow> grant_item list \<Rightarrow> (error_code, unit) result" where
  "assert_grant_targets r projectRoot [] = Inr ()"
| "assert_grant_targets r projectRoot (g # gs) =
     and_then
       (case gi_target g of
          ProjectTarget i \<Rightarrow> throw_if (i \<noteq> projectRoot \<or> list_ex (\<lambda>c. c \<noteq> PaneCreate) (gi_capabilities g))
            (Some ''capability_denied'') (Inr ())
        | SurfaceTarget k i n \<Rightarrow> check_surface r projectRoot (SurfaceTarget k i n))
       (\<lambda>_. assert_grant_targets r projectRoot gs)"

definition target_kind_name :: "lease_target \<Rightarrow> string" where
  "target_kind_name t = (case t of ProjectTarget _ \<Rightarrow> ''project''
     | SurfaceTarget k _ _ \<Rightarrow> (case k of PaneKind \<Rightarrow> ''pane'' | BrowserTabKind \<Rightarrow> ''browser_tab''))"

definition assert_lease_request_bounds :: "envelope \<Rightarrow> string \<Rightarrow> grant_item list \<Rightarrow> (error_code, unit) result" where
  "assert_lease_request_bounds m taskId grants =
    (let textValues = [cm_id m, cm_actorId m, taskId] @
           concat (map (\<lambda>g. [target_kind_name (gi_target g), target_id (gi_target g)]) grants);
         tooLarge = leaseRequestGrants AGENT_CONTROL_LIMITS < length grants \<or>
           list_ex (\<lambda>g. leaseRequestCapabilitiesPerGrant AGENT_CONTROL_LIMITS < length (gi_capabilities g) \<or>
             list_ex (\<lambda>c. leaseRequestCapabilityBytes AGENT_CONTROL_LIMITS < length (capability_name c)) (gi_capabilities g)) grants \<or>
           list_ex (\<lambda>v. leaseRequestTextBytes AGENT_CONTROL_LIMITS < length v) textValues
     in throw_if tooLarge (Some ''lease_request_too_large'') (Inr ()))"

definition assert_provider_resource_scope :: "rt_env \<Rightarrow> browser_input \<Rightarrow> string \<Rightarrow> (error_code, unit) result" where
  "assert_provider_resource_scope en resource projectRoot =
     throw_if (en_resolve en (bi_projectRoot resource) \<noteq> en_resolve en projectRoot) (Some ''resource_scope_mismatch'')
    (let relative = en_relative en (en_resolve en projectRoot) (en_resolve en (bi_worktreeRoot resource)) in
     throw_if (relative = ''..'' \<or> prefix ''../'' relative \<or> en_isAbsolute en relative)
       (Some ''resource_scope_mismatch'') (Inr ()))"

section \<open>Resource queues\<close>

definition new_queue :: "lease_target \<Rightarrow> resource_queue" where
  "new_queue target = \<lparr>rq_target = target, rq_entries = [], rq_pendingEffects = 0, rq_quarantined = False\<rparr>"

definition queue_for_resource :: "lease_target \<Rightarrow> runtime \<Rightarrow> resource_queue \<times> runtime" where
  "queue_for_resource target s =
    (case jm_get (rt_queues s) (resource_key target) of
       Some q \<Rightarrow> (q, s)
     | None \<Rightarrow> (new_queue target, s\<lparr>rt_queues := jm_set (resource_key target) (new_queue target) (rt_queues s)\<rparr>))"

definition set_queue :: "string \<Rightarrow> resource_queue \<Rightarrow> runtime \<Rightarrow> runtime" where
  "set_queue key q s = s\<lparr>rt_queues := jm_set key q (rt_queues s)\<rparr>"

text \<open>\<open>pruneResourceQueue\<close> once the last entry has left.\<close>

definition prune_resource_queue :: "string \<Rightarrow> runtime \<Rightarrow> runtime" where
  "prune_resource_queue key s =
    (case jm_get (rt_queues s) key of
       None \<Rightarrow> s
     | Some q \<Rightarrow>
         if rq_entries q = [] \<and> rq_pendingEffects q = 0 \<and> \<not> rq_quarantined q
         then s\<lparr>rt_queues := jm_delete key (rt_queues s)\<rparr> else s)"

text \<open>The receipt of an effect, and what its command (and the resolving command) answers.\<close>

definition complete_effect :: "rt_env \<Rightarrow> queued_effect \<Rightarrow> action_receipt \<Rightarrow> runtime \<Rightarrow> runtime" where
  "complete_effect en q receipt s =
    (let c = cx_command (qe_context q);
         s1 = append_terminal en (ac_id c) (ac_key c) (receipt_outcome receipt) (Some receipt) s
     in (case qe_resolver q of None \<Rightarrow> s1
         | Some m \<Rightarrow> append_terminal en (cm_id m) (cm_key m) (receipt_outcome receipt) (Some receipt) s1))"

definition effect_receipt :: "rt_env \<Rightarrow> action_context \<Rightarrow> receipt_state \<Rightarrow> receipt_details \<Rightarrow> action_receipt" where
  "effect_receipt en ctx state details =
     make_receipt (en_now en) (cx_command ctx) (cx_target ctx) state details (Some (trusted_ownership (cx_command ctx)))"

definition finish_effect :: "rt_env \<Rightarrow> queued_effect \<Rightarrow> action_receipt \<Rightarrow> runtime \<Rightarrow> runtime" where
  "finish_effect en q receipt s =
     complete_effect en q receipt (remember_receipt receipt (Some (ac_taskId (cx_command (qe_context q)))) s)"

text \<open>\<open>enqueueSurfaceEffect\<close> up to \<open>await prior\<close>.\<close>

definition enqueue_surface_effect :: "rt_env \<Rightarrow> queued_effect \<Rightarrow> runtime \<Rightarrow> runtime" where
  "enqueue_surface_effect en q s =
    (let ctx = qe_context q; key = resource_key (cx_target ctx); (queue, s1) = queue_for_resource (cx_target ctx) s
     in if rq_quarantined queue then finish_effect en q (effect_receipt en ctx StUnknown (coded ''effect_unknown'')) s1
        else if resourceQueueDepth AGENT_CONTROL_LIMITS \<le> rq_pendingEffects queue
        then finish_effect en q (effect_receipt en ctx StFailed (coded ''queue_full'')) s1
        else set_queue key (queue\<lparr>rq_pendingEffects := rq_pendingEffects queue + 1,
                                  rq_entries := rq_entries queue @ [EffectEntry q]\<rparr>) s1)"

text \<open>The rest of it: revalidation, then the effect, then its receipt.\<close>

definition revalidate :: "rt_env \<Rightarrow> action_context \<Rightarrow> unit action" where
  "revalidate en ctx s =
     and_do (pure_do (assert_command_current (rt_ownerEpoch s) (en_now en) (cx_command ctx))) (\<lambda>_.
     and_do (prepare_surface_action en 0 (cx_command ctx)) (\<lambda>current.
       pure_do (throw_if (\<not> contexts_match ctx current) (Some ''approval_identity_mismatch'') (Inr ())))) s"

definition receipt_of_result :: "rt_env \<Rightarrow> action_context \<Rightarrow> action_receipt" where
  "receipt_of_result en ctx =
    (case en_effect en of
       EffectThrow code ambiguous \<Rightarrow>
         effect_receipt en ctx (if ambiguous then StUnknown else StFailed)
           (coded (if ambiguous then ''effect_unknown'' else stable_surface_effect_code code))
     | EffectValue v \<Rightarrow>
        (case ac_payload (cx_command ctx) of
           ScriptPayload _ _ _ _ \<Rightarrow>
             (case make_script_receipt (en_platform en) (en_now en) (cx_command ctx) (cx_target ctx) v
                     (Some (trusted_ownership (cx_command ctx))) of
                Inr receipt \<Rightarrow> receipt
              | Inl e \<Rightarrow> effect_receipt en ctx StFailed (coded (stable_surface_effect_code e)))
         | _ \<Rightarrow> effect_receipt en ctx StSucceeded (valued v)))"

definition times_out :: "effect_result \<Rightarrow> bool" where
  "times_out r = (case r of EffectThrow code _ \<Rightarrow> code = Some ''effect_timeout'' | EffectValue _ \<Rightarrow> False)"

text \<open>\<open>finally\<close>: the entry leaves its queue.\<close>

definition leave_queue :: "string \<Rightarrow> bool \<Rightarrow> runtime \<Rightarrow> runtime" where
  "leave_queue key quarantine s =
    (case jm_get (rt_queues s) key of
       None \<Rightarrow> s
     | Some q \<Rightarrow> prune_resource_queue key (set_queue key (q\<lparr>rq_pendingEffects := rq_pendingEffects q - 1,
                    rq_entries := tl (rq_entries q), rq_quarantined := (rq_quarantined q \<or> quarantine)\<rparr>) s))"

definition run_surface_effect :: "rt_env \<Rightarrow> queued_effect \<Rightarrow> runtime \<Rightarrow> runtime" where
  "run_surface_effect en q s =
    (let ctx = qe_context q; key = resource_key (cx_target ctx)
     in (case revalidate en ctx s of
           (Inl e, s1) \<Rightarrow>
             finish_effect en q (effect_receipt en ctx StFailed (coded
                 (if pc_decision (cx_classification ctx) = NeedsApproval then ''action_invalidated''
                  else ''action_validation_failed''))) (leave_queue key False s1)
         | (Inr _, s1) \<Rightarrow>
             finish_effect en q (receipt_of_result en ctx)
               (leave_queue key (times_out (en_effect en)) (s1\<lparr>rt_effects := rt_effects s1 @ [q]\<rparr>))))"

section \<open>Surface commands\<close>

definition requires_operator :: "surface_command \<Rightarrow> bool" where
  "requires_operator cmd =
    (case cmd of LeaseGrant _ _ \<Rightarrow> True | LeaseRevoke _ _ \<Rightarrow> True | ApprovalResolve _ _ _ _ \<Rightarrow> True
     | ProviderUpsert _ _ \<Rightarrow> True | ProviderRemove _ _ _ \<Rightarrow> True | _ \<Rightarrow> False)"

text \<open>\<open>capabilityLeases.snapshot().some((lease) => lease.requestId === id)\<close>: the snapshot drops expired leases.\<close>

definition request_has_lease :: "rt_env \<Rightarrow> nat \<Rightarrow> string \<Rightarrow> bool action" where
  "request_has_lease en p requestId s =
    (let (leases, cs) = cap_snapshot (en_clock en p 0) (rt_leases s)
     in (Inr (list_ex (\<lambda>l. cl_requestId l = requestId) leases), s\<lparr>rt_leases := cs\<rparr>))"

definition lease_request :: "rt_env \<Rightarrow> envelope \<Rightarrow> string \<Rightarrow> int \<Rightarrow> grant_item list \<Rightarrow> reply action" where
  "lease_request en m taskId ttlMs grants =
    and_do (assert_task_subject_active en 0 taskId (cm_actorId m)) (\<lambda>_ s.
    and_do (if jm_get (rt_requests s) (cm_id m) \<noteq> None \<or> jm_get (rt_tombstones s) (cm_id m) \<noteq> None
            then pure_do (Inr True) else request_has_lease en 1 (cm_id m)) (\<lambda>known s.
     pure_do
      (throw_if known (Some ''lease_request_conflict'')
      (throw_if (leaseRequestPending AGENT_CONTROL_LIMITS \<le> length (rt_requests s)) (Some ''lease_request_capacity'')
      (and_then (assert_lease_request_bounds m taskId grants) (\<lambda>_. Inr (RequestReply (cm_id m)))))) s) s)"

definition request_record :: "envelope \<Rightarrow> string \<Rightarrow> int \<Rightarrow> grant_item list \<Rightarrow> lease_request_record" where
  "request_record m taskId ttlMs grants = \<lparr>lq_id = cm_id m, lq_ownerEpoch = cm_ownerEpoch m, lq_actorId = cm_actorId m,
     lq_taskId = taskId, lq_status = RequestPending, lq_createdAt = cm_createdAt m, lq_ttlMs = ttlMs, lq_grants = grants\<rparr>"

definition handle_lease_request :: "rt_env \<Rightarrow> envelope \<Rightarrow> string \<Rightarrow> int \<Rightarrow> grant_item list \<Rightarrow> reply action" where
  "handle_lease_request en m taskId ttlMs grants =
    and_do (lease_request en m taskId ttlMs grants) (\<lambda>r s.
      (Inr r, s\<lparr>rt_requests := jm_set (cm_id m) (request_record m taskId ttlMs grants) (rt_requests s)\<rparr>))"

definition handle_lease_grant :: "rt_env \<Rightarrow> envelope \<Rightarrow> string \<Rightarrow> reply action" where
  "handle_lease_grant en m requestId s =
    (case jm_get (rt_requests s) requestId of
       None \<Rightarrow>
         and_do (if jm_get (rt_tombstones s) requestId \<noteq> None then pure_do (Inr True)
                 else request_has_lease en 0 requestId) (\<lambda>known.
           pure_do (Inl (Some (if known then ''lease_request_consumed'' else ''lease_request_missing'')))) s
     | Some request \<Rightarrow>
         and_do (pure_do
           (throw_if (lq_ownerEpoch request \<noteq> rt_ownerEpoch s \<or> lq_ownerEpoch request \<noteq> cm_ownerEpoch m)
              (Some ''lease_request_stale'')
           (throw_if (lq_status request \<noteq> RequestPending) (Some ''lease_request_consumed'') (Inr ())))) (\<lambda>_.
         and_do (assert_task_subject_active en 0 (lq_taskId request) (lq_actorId request)) (\<lambda>_ s.
         and_do (pure_do (assert_grant_targets (rt_surfaces s) (cm_projectRoot m) (lq_grants request))) (\<lambda>_ s.
          (case cap_grant (en_clock en 0 0) (en_leaseId en)
                  \<lparr>gr_requestId = lq_id request, gr_actorId = lq_actorId request, gr_taskId = lq_taskId request,
                   gr_grantedBy = cm_actorId m, gr_grants = lq_grants request, gr_ttlMs = lq_ttlMs request\<rparr> (rt_leases s) of
             (Inl e, cs) \<Rightarrow> (Inl (cap_code e), s\<lparr>rt_leases := cs\<rparr>)
           | (Inr lease, cs) \<Rightarrow> (Inr (LeaseReply lease), forget_request (lq_id request) (s\<lparr>rt_leases := cs\<rparr>)))) s)) s)"

definition handle_lease_release :: "rt_env \<Rightarrow> envelope \<Rightarrow> string \<Rightarrow> string \<Rightarrow> nat \<Rightarrow> reply action" where
  "handle_lease_release en m taskId leaseId leaseRevision s =
    (let (leases, cs) = cap_snapshot (en_clock en 0 0) (rt_leases s); s1 = s\<lparr>rt_leases := cs\<rparr>
     in (case find (\<lambda>l. cl_id l = leaseId) leases of
           None \<Rightarrow> (Inl (Some ''capability_denied''), s1)
         | Some lease \<Rightarrow>
             if cl_actorId lease \<noteq> cm_actorId m \<or> cl_taskId lease \<noteq> taskId \<or> cl_revision lease \<noteq> leaseRevision
             then (Inl (Some ''capability_denied''), s1)
             else and_do (assert_task_subject_active en 1 taskId (cm_actorId m)) (\<lambda>_ s.
               let s2 = s\<lparr>rt_leases := snd (cap_release (en_clock en 2 0) (cl_id lease) (rt_leases s))\<rparr>
               in (Inr NoReply, remember_lease_request_identity (cl_requestId lease)
                     (revoke_approvals_for_lease en 2 1 (cl_id lease) s2))) s1))"

definition handle_lease_revoke :: "rt_env \<Rightarrow> string \<Rightarrow> reply action" where
  "handle_lease_revoke en leaseId s =
    (case cap_revoke (en_clock en 0 0) leaseId (rt_leases s) of
       (None, cs) \<Rightarrow> (Inr NoReply, s\<lparr>rt_leases := cs\<rparr>)
     | (Some lease, cs) \<Rightarrow> (Inr NoReply, remember_lease_request_identity (cl_requestId lease)
           (revoke_approvals_for_lease en 0 1 (cl_id lease) (s\<lparr>rt_leases := cs\<rparr>))))"

definition handle_provider_upsert :: "rt_env \<Rightarrow> envelope \<Rightarrow> browser_input \<Rightarrow> reply action" where
  "handle_provider_upsert en m input s =
     and_do (pure_do (assert_provider_resource_scope en input (cm_projectRoot m))) (\<lambda>_ s.
       let previous = get_surface (bi_id input) (rt_surfaces s);
           (resource, r) = upsert_browser_tab input (rt_surfaces s); s1 = s\<lparr>rt_surfaces := r\<rparr>
       in (Inr (SurfaceReply resource),
           (case previous of
              Some (BrowserTabSurface g b) \<Rightarrow>
                if g \<noteq> surface_generation resource
                then rt_revoke_target en 0 (SurfaceTarget BrowserTabKind (bi_id b) g) s1 else s1
            | _ \<Rightarrow> s1))) s"

definition handle_provider_remove :: "rt_env \<Rightarrow> string \<Rightarrow> nat \<Rightarrow> reply action" where
  "handle_provider_remove en i generation s =
     and_do (pure_do (with_code surface_code (require_surface i generation (rt_surfaces s)))) (\<lambda>current s.
       if surface_kind_of current \<noteq> BrowserTabKind then (Inl (Some ''resource_missing''), s)
       else (Inr NoReply,
             rt_revoke_target en 0 (SurfaceTarget BrowserTabKind (surface_id current) (surface_generation current))
               (s\<lparr>rt_surfaces := snd (remove_surface (surface_id current) (rt_surfaces s))\<rparr>))) s"

section \<open>Actions and their approval\<close>

text \<open>The object literals passed to \<open>requestCurrent\<close> and \<open>consume\<close>.\<close>

definition target_value :: "lease_target \<Rightarrow> jsv" where
  "target_value t = (case t of ProjectTarget i \<Rightarrow> JsObj [(''kind'', JsStr ''project''), (''id'', JsStr i)]
     | SurfaceTarget k i g \<Rightarrow> JsObj [(''kind'', JsStr (target_kind_name t)), (''id'', JsStr i), (''generation'', JsInt (int g))])"

definition intent_members :: "action_context \<Rightarrow> redacted_effect \<Rightarrow> (string \<times> jsv) list" where
  "intent_members ctx effect =
    (let c = cx_command ctx in
     [(''actionId'', JsStr (ac_id c)), (''ownerEpoch'', JsInt (ac_ownerEpoch c)), (''taskId'', JsStr (ac_taskId c)),
      (''actorId'', JsStr (ac_actorId c))] @
     (case task_subject_id (ac_taskId c) (ac_actorId c) of None \<Rightarrow> [] | Some i \<Rightarrow> [(''subjectId'', JsStr i)]) @
     [(''leaseId'', JsStr (ac_leaseId c)), (''leaseRevision'', JsInt (int (ac_leaseRevision c))),
      (''resource'', target_value (cx_target ctx)),
      (''capability'', JsStr (capability_name (pc_capability (cx_classification ctx)))),
      (''effect'', JsBranded effect), (''executablePayloadDigest'', JsStr (cx_digest ctx))])"

definition consume_value :: "string \<Rightarrow> string \<Rightarrow> action_context \<Rightarrow> redacted_effect \<Rightarrow> jsv" where
  "consume_value approvalId payloadDigest ctx effect =
     JsObj ([(''approvalId'', JsStr approvalId), (''payloadDigest'', JsStr payloadDigest)] @ intent_members ctx effect)"

definition lease_gives :: "capability_lease \<Rightarrow> lease_target \<Rightarrow> surface_capability \<Rightarrow> bool" where
  "lease_gives l target capability =
     list_ex (\<lambda>g. targets_equal (gi_target g) target \<and> capability \<in> set (gi_capabilities g)) (cl_grants l)"

definition trusted_validation_failure_ownership :: "action_command \<Rightarrow> runtime \<Rightarrow> receipt_ownership option" where
  "trusted_validation_failure_ownership c s =
    (case task_subject_credential_reference (ac_taskId c) (ac_actorId c) of
       None \<Rightarrow> None
     | Some reference \<Rightarrow>
         let ownership = \<lparr>ro_taskId = cr_taskId reference, ro_actorId = cr_principalId reference, ro_lease = None\<rparr>
         in (case (target_for_surface_ownership c, capability_for_surface_command c, cap_get (ac_leaseId c) (rt_leases s)) of
               (Some target, Some capability, Some lease) \<Rightarrow>
                 if cl_ownerEpoch lease \<noteq> rt_ownerEpoch s \<or> cl_actorId lease \<noteq> cr_principalId reference \<or>
                    cl_taskId lease \<noteq> cr_taskId reference \<or> \<not> lease_gives lease target capability
                 then Some ownership
                 else Some (ownership\<lparr>ro_lease := Some (cl_id lease, cl_revision lease)\<rparr>)
             | _ \<Rightarrow> Some ownership))"

definition validation_failure_code :: "error_code \<Rightarrow> string" where
  "validation_failure_code e =
    (if e = Some ''task_subject_inactive'' then ''action_invalidated''
     else if e = Some ''task_credential_unavailable'' then ''backend_unavailable''
     else if e = Some ''script_source_too_large'' \<or> e = Some ''script_args_invalid'' \<or> e = Some ''script_args_too_large''
       then the e
     else ''action_validation_failed'')"

definition request_approval :: "rt_env \<Rightarrow> action_context \<Rightarrow> reply action" where
  "request_approval en ctx s =
    (case cx_effect ctx of
       None \<Rightarrow> (Inl (Some ''approval_payload_invalid''), s)
     | Some effect \<Rightarrow>
        (let c = cx_command ctx; sha = pf_sha (en_platform en); s1 = refresh_approval_state en 1 0 s
         in (case request_current sha (en_approvalId en) (JsObj (intent_members ctx effect)) (en_clock en 1 3 0) (rt_approvals s1) of
               (Inl e, ap) \<Rightarrow> (Inl (approval_code e), s1\<lparr>rt_approvals := ap\<rparr>)
             | (Inr a, ap) \<Rightarrow>
                 let s2 = s1\<lparr>rt_approvals := ap,
                             rt_pending := (if jm_get (rt_pending s1) (ap_id a) = None
                                            then jm_set (ap_id a) ctx (rt_pending s1) else rt_pending s1),
                             rt_journal := rt_journal s1 @ [EvApprovalRequested (ac_id c) (ap_id a) (ap_payloadDigest a)
                                (journal_resource sha (ai_resource (ap_identity a))) (ai_capability (ap_identity a))
                                (ai_effect (ap_identity a))]\<rparr>;
                     receipt = effect_receipt en ctx StApprovalRequired
                       (valued (RawObj True [(''approvalId'', RawStr (ap_id a)), (''payloadDigest'', RawStr (ap_payloadDigest a))]))
                 in (Inr (ApprovalReply receipt (ap_id a) (ap_payloadDigest a)),
                     remember_receipt receipt (Some (ac_taskId c)) s2))))"

definition surface_action :: "rt_env \<Rightarrow> action_command \<Rightarrow> runtime \<Rightarrow> runtime" where
  "surface_action en c s =
    (let ownership = trusted_validation_failure_ownership c s;
         fail = (\<lambda>e s. if e = Some ''approval_action_conflict''
                       then append_terminal en (ac_id c) (ac_key c) (failed_outcome e) None s
                       else terminalize_validation_failure en c (target_for_surface_action c)
                              (validation_failure_code e) ownership s)
     in (case prepare_surface_action en 0 c s of
           (Inl e, s1) \<Rightarrow> fail e s1
         | (Inr ctx, s1) \<Rightarrow>
             if pc_decision (cx_classification ctx) = NeedsApproval
             then (case request_approval en ctx s1 of
                     (Inl e, s2) \<Rightarrow> fail e s2
                   | (Inr r, s2) \<Rightarrow> append_terminal en (ac_id c) (ac_key c) (Succeeded r)
                       (case r of ApprovalReply receipt _ _ \<Rightarrow> Some receipt | _ \<Rightarrow> None) s2)
             else enqueue_surface_effect en \<lparr>qe_context = ctx, qe_resolver = None, qe_approval = None\<rparr> s1))"

text \<open>\<open>resolveApproval\<close>: the outer action is the reply of the resolving command, unless it is left to the queue.\<close>

definition settle_approval ::
  "rt_env \<Rightarrow> envelope \<Rightarrow> string \<Rightarrow> action_context \<Rightarrow> approval \<Rightarrow> runtime \<Rightarrow> (error_code, unit) result \<times> runtime"
where
  "settle_approval en m payloadDigest ctx a s =
    (case cx_effect ctx of
       None \<Rightarrow> (Inl (Some ''approval_payload_invalid''), s)
     | Some effect \<Rightarrow>
        (case and_do (assert_surface_and_lease en 2 (cx_command ctx) (cx_target ctx) (pc_capability (cx_classification ctx)))
                (\<lambda>_ s. case consume (pf_sha (en_platform en)) (consume_value (ap_id a) payloadDigest ctx effect)
                              (en_clock en 3 0 0) (rt_approvals s) of
                    (Inl e, ap) \<Rightarrow> (Inl (approval_code e), s\<lparr>rt_approvals := ap\<rparr>)
                  | (Inr consumed, ap) \<Rightarrow> (Inr consumed, s\<lparr>rt_approvals := ap\<rparr>)) s of
           (Inl e, s1) \<Rightarrow>
             (Inl e, forget_pending (ap_id a) (revoke_approvals_for_lease en 4 0 (ai_leaseId (ap_identity a)) s1))
         | (Inr consumed, s1) \<Rightarrow>
             (Inr (), enqueue_surface_effect en
                \<lparr>qe_context = ctx, qe_resolver = Some m, qe_approval = Some (ap_id a)\<rparr> (forget_pending (ap_id a) s1))))"

definition deny_pending :: "rt_env \<Rightarrow> envelope \<Rightarrow> action_context \<Rightarrow> string \<Rightarrow> runtime \<Rightarrow> runtime" where
  "deny_pending en m ctx approvalId s =
    (let c = cx_command ctx; receipt = effect_receipt en ctx StDenied (coded ''approval_denied'');
         s1 = forget_pending approvalId (remember_receipt receipt (Some (ac_taskId c)) s)
     in append_terminal en (cm_id m) (cm_key m) (Succeeded (ReceiptReply receipt)) None
          (append_terminal en (ac_id c) (ac_key c) (receipt_outcome receipt) (Some receipt) s1))"

definition resolve_approval :: "rt_env \<Rightarrow> envelope \<Rightarrow> string \<Rightarrow> string \<Rightarrow> bool \<Rightarrow> runtime \<Rightarrow> runtime" where
  "resolve_approval en m approvalId payloadDigest approving s =
    (let context = jm_get (rt_pending s) approvalId;
         fail = (\<lambda>e. append_terminal en (cm_id m) (cm_key m) (failed_outcome e) None)
     in (case (case context of None \<Rightarrow> (Inr (), s)
               | Some ctx \<Rightarrow> assert_task_subject_active en 0 (ac_taskId (cx_command ctx)) (ac_actorId (cx_command ctx)) s) of
           (Inl e, s1) \<Rightarrow> fail e s1
         | (Inr _, s1) \<Rightarrow>
            (case (if approving then approve else deny) (pf_sha (en_platform en)) approvalId (cm_actorId m) payloadDigest
                    (en_clock en 1 0 0) (rt_approvals s1) of
               (Inl e, ap) \<Rightarrow>
                 let s2 = s1\<lparr>rt_approvals := ap\<rparr>; code = approval_code e in
                 fail code (if context \<noteq> None \<and> is_approval_invalidation_error code
                   then finalize_approval en (if e = ApprovalExpired then ''approval_expired'' else ''action_invalidated'')
                          context approvalId s2
                   else s2)
             | (Inr a, ap) \<Rightarrow>
                 let s2 = s1\<lparr>rt_approvals := ap\<rparr> in
                 (case context of
                    None \<Rightarrow> fail (Some ''approval_missing'') s2
                  | Some ctx \<Rightarrow>
                      if \<not> approving then deny_pending en m ctx (ap_id a) s2
                      else (case settle_approval en m payloadDigest ctx a s2 of
                              (Inl e, s3) \<Rightarrow> fail e s3
                            | (Inr _, s3) \<Rightarrow> s3)))))"

text \<open>\<open>executeSurfaceControlCommand\<close>.\<close>

definition simple_command :: "rt_env \<Rightarrow> surface_command \<Rightarrow> reply action" where
  "simple_command en cmd =
    (case cmd of
       LeaseRequest m taskId ttlMs grants \<Rightarrow> handle_lease_request en m taskId ttlMs grants
     | LeaseGrant m requestId \<Rightarrow> handle_lease_grant en m requestId
     | LeaseRelease m taskId leaseId revision \<Rightarrow> handle_lease_release en m taskId leaseId revision
     | LeaseRevoke m leaseId \<Rightarrow> handle_lease_revoke en leaseId
     | ProviderUpsert m input \<Rightarrow> handle_provider_upsert en m input
     | ProviderRemove m i generation \<Rightarrow> handle_provider_remove en i generation
     | _ \<Rightarrow> pure_do (Inr NoReply))"

definition execute_surface_command :: "rt_env \<Rightarrow> surface_command \<Rightarrow> runtime \<Rightarrow> runtime" where
  "execute_surface_command en cmd s =
    (let m = command_envelope cmd; s1 = append_requested (cm_id m) (cm_key m) s
     in if requires_operator cmd \<and> cm_actorKind m \<noteq> HumanActor
        then append_terminal en (cm_id m) (cm_key m) (Rejected ''operator_required'') None s1
        else (case cmd of
           SurfaceAction c \<Rightarrow> surface_action en c s1
         | ApprovalResolve m approvalId payloadDigest approving \<Rightarrow>
             resolve_approval en m approvalId payloadDigest approving s1
         | _ \<Rightarrow> (case simple_command en cmd s1 of
              (Inl e, s2) \<Rightarrow> append_terminal en (cm_id m) (cm_key m) (failed_outcome e) None s2
            | (Inr r, s2) \<Rightarrow> append_terminal en (cm_id m) (cm_key m) (Succeeded r) None s2)))"

section \<open>Pane commands\<close>

fun lane_code :: "lane_error \<Rightarrow> error_code" where
  "lane_code LaneRevisionMismatch = Some ''lease_revision_mismatch''"
| "lane_code LaneConflict = Some ''lease_conflict''"
| "lane_code LaneExpired = Some ''lease_expired''"

definition resource_target_for_pane :: "string \<Rightarrow> runtime \<Rightarrow> lease_target" where
  "resource_target_for_pane paneId s =
    (case get_surface paneId (rt_surfaces s) of
       Some (PaneSurface g p) \<Rightarrow> SurfaceTarget PaneKind paneId g
     | _ \<Rightarrow> SurfaceTarget PaneKind paneId 0)"

definition pane_barrier :: "string \<Rightarrow> runtime \<Rightarrow> nat" where
  "pane_barrier paneId s = (case jm_get (rt_barriers s) paneId of None \<Rightarrow> 0 | Some n \<Rightarrow> n)"

definition automation_preempted_outcome :: "reply outcome" where
  "automation_preempted_outcome = Rejected ''automation_preempted''"

definition enqueue_pane_command :: "pane_command \<Rightarrow> runtime \<Rightarrow> runtime" where
  "enqueue_pane_command pc s =
    (let target = resource_target_for_pane (pc_paneId pc) s; (queue, s1) = queue_for_resource target s; m = pc_envelope pc;
         item = \<lparr>it_command = pc, it_automation = (cm_actorKind m = PsycheActor),
                 it_generation = pane_barrier (pc_paneId pc) s, it_preempted = False, it_terminalized = False\<rparr>
     in request_command (PaneCommand pc)
          (set_queue (resource_key target) (queue\<lparr>rq_entries := rq_entries queue @ [PaneEntry item]\<rparr>) s1))"

definition assert_actor_lease :: "rt_env \<Rightarrow> string \<Rightarrow> envelope \<Rightarrow> nat \<Rightarrow> runtime \<Rightarrow> (error_code, lane_lease) result" where
  "assert_actor_lease en paneId m revision s = with_code lane_code
    (if cm_actorKind m = PsycheActor
     then assert_automation (en_clock en 0 0 0) paneId (cm_actorId m) revision (rt_lanes s)
     else assert_human (en_clock en 0 0 0) paneId (cm_actorId m) revision (rt_lanes s))"

text \<open>\<open>PromptDispatcher.dispatch\<close>: the declared hash is checked, then the prompt is sent.\<close>

definition prompt_outcome :: "rt_env \<Rightarrow> reply outcome" where
  "prompt_outcome en =
    (case en_effect en of
       EffectValue _ \<Rightarrow> Succeeded NoReply
     | EffectThrow _ ambiguous \<Rightarrow> if ambiguous then Unknown ''prompt_dispatch_ambiguous'' else Failed ''prompt_dispatch_failed'')"

definition call_pane_handler :: "pane_command \<Rightarrow> reply outcome \<Rightarrow> runtime \<Rightarrow> reply outcome \<times> runtime" where
  "call_pane_handler pc o' s = (o', s\<lparr>rt_paneEffects := rt_paneEffects s @ [pc]\<rparr>)"

definition plain_effect_outcome :: "rt_env \<Rightarrow> reply outcome" where
  "plain_effect_outcome en =
    (case en_effect en of EffectValue _ \<Rightarrow> Succeeded NoReply | EffectThrow code _ \<Rightarrow> failed_outcome code)"

text \<open>The pane cases of \<open>executeStartedCommand\<close>; the value a handler returns is left out.\<close>

definition execute_started_command :: "rt_env \<Rightarrow> pane_command \<Rightarrow> runtime \<Rightarrow> reply outcome \<times> runtime" where
  "execute_started_command en pc s =
    (case pc_kind pc of
       PromptCommand prompt revision \<Rightarrow>
         (case with_code lane_code (assert_automation (en_clock en 0 0 0) (pc_paneId pc) (cm_actorId (pc_envelope pc)) revision (rt_lanes s)) of
            Inl e \<Rightarrow> (failed_outcome e, s)
          | Inr _ \<Rightarrow>
              if pf_sha (en_platform en) (pe_utf8 prompt) \<noteq> pe_contentHash prompt then (Failed ''prompt_hash_mismatch'', s)
              else call_pane_handler pc (prompt_outcome en) s)
     | InputCommand revision \<Rightarrow>
         (case assert_actor_lease en (pc_paneId pc) (pc_envelope pc) revision s of
            Inl e \<Rightarrow> (failed_outcome e, s) | Inr _ \<Rightarrow> call_pane_handler pc (plain_effect_outcome en) s)
     | InterruptCommand revision \<Rightarrow>
         (case assert_actor_lease en (pc_paneId pc) (pc_envelope pc) revision s of
            Inl e \<Rightarrow> (failed_outcome e, s) | Inr _ \<Rightarrow> call_pane_handler pc (plain_effect_outcome en) s)
     | OtherPaneCommand \<Rightarrow> call_pane_handler pc (plain_effect_outcome en) s)"

definition is_stale_automation_generation :: "pane_item \<Rightarrow> runtime \<Rightarrow> bool" where
  "is_stale_automation_generation item s \<longleftrightarrow>
     it_automation item \<and> it_generation item \<noteq> pane_barrier (pc_paneId (it_command item)) s"

definition leave_pane_queue :: "string \<Rightarrow> runtime \<Rightarrow> runtime" where
  "leave_pane_queue key s =
    (case jm_get (rt_queues s) key of
       None \<Rightarrow> s
     | Some q \<Rightarrow> prune_resource_queue key (set_queue key (q\<lparr>rq_entries := tl (rq_entries q)\<rparr>) s))"

definition terminalize_item :: "rt_env \<Rightarrow> pane_item \<Rightarrow> reply outcome \<Rightarrow> runtime \<Rightarrow> runtime" where
  "terminalize_item en item o' s =
     terminate_command en (PaneCommand (it_command item)) o' s"

definition run_queued_item :: "rt_env \<Rightarrow> string \<Rightarrow> pane_item \<Rightarrow> runtime \<Rightarrow> runtime" where
  "run_queued_item en key item s =
     leave_pane_queue key
      (if it_terminalized item then s
       else if it_preempted item \<or> is_stale_automation_generation item s
       then terminalize_item en item automation_preempted_outcome s
       else (let (o', s1) = execute_started_command en (it_command item) s in terminalize_item en item o' s1))"

text \<open>One turn of a queue: its first entry.\<close>

definition run_queue :: "rt_env \<Rightarrow> string \<Rightarrow> runtime \<Rightarrow> runtime" where
  "run_queue en key s =
    (case jm_get (rt_queues s) key of
       None \<Rightarrow> s
     | Some q \<Rightarrow>
        (case rq_entries q of
           [] \<Rightarrow> s
         | EffectEntry e # _ \<Rightarrow> run_surface_effect en e s
         | PaneEntry item # _ \<Rightarrow> run_queued_item en key item s))"

section \<open>Delegation and takeover\<close>

definition execute_delegate :: "rt_env \<Rightarrow> envelope \<Rightarrow> string \<Rightarrow> string \<Rightarrow> string \<Rightarrow> int \<Rightarrow> runtime \<Rightarrow> runtime" where
  "execute_delegate en m paneId automationActorId taskId ttlMs s =
    (let c = DelegateCommand m paneId automationActorId taskId ttlMs; s1 = request_command c s
     in if cm_actorKind m \<noteq> HumanActor
        then terminate_command en c (Rejected ''human_actor_required'') s1
        else let (lease, ls) = lane_delegate (en_clock en 0 0 0) paneId automationActorId taskId ttlMs (rt_lanes s1)
          in terminate_command en c (Succeeded (LaneReply (ll_actorId lease) (ll_taskId lease) (ll_revision lease)))
               (s1\<lparr>rt_lanes := ls, rt_journal := rt_journal s1 @
                  [EvDelegated (cm_id m) (ll_paneId lease) (ll_actorId lease) taskId (ll_revision lease)]\<rparr>))"

definition bump_pane_barrier :: "string \<Rightarrow> runtime \<Rightarrow> runtime" where
  "bump_pane_barrier paneId s = s\<lparr>rt_barriers := jm_set paneId (pane_barrier paneId s + 1) (rt_barriers s)\<rparr>"

text \<open>
  \<open>preemptQueuedAutomation\<close>: what waits in the pane's queue. The entry that is running has left the
  queue in the model, so every entry there is one that has not started.
\<close>

fun preempt_entry :: "queue_entry \<Rightarrow> queue_entry" where
  "preempt_entry (EffectEntry e) = EffectEntry e"
| "preempt_entry (PaneEntry item) =
    (if it_automation item \<and> \<not> it_terminalized item
     then PaneEntry (item\<lparr>it_preempted := True, it_terminalized := True\<rparr>) else PaneEntry item)"

fun preempted_items :: "queue_entry list \<Rightarrow> pane_item list" where
  "preempted_items [] = []"
| "preempted_items (EffectEntry e # es) = preempted_items es"
| "preempted_items (PaneEntry item # es) =
    (if it_automation item \<and> \<not> it_terminalized item then item # preempted_items es else preempted_items es)"

definition preempt_queued_automation :: "rt_env \<Rightarrow> string \<Rightarrow> runtime \<Rightarrow> runtime" where
  "preempt_queued_automation en paneId s =
    (let key = resource_key (resource_target_for_pane paneId s)
     in (case jm_get (rt_queues s) key of
           None \<Rightarrow> s
         | Some q \<Rightarrow> fold (\<lambda>item. terminalize_item en item automation_preempted_outcome) (preempted_items (rq_entries q))
             (set_queue key (q\<lparr>rq_entries := map preempt_entry (rq_entries q)\<rparr>) s)))"

definition execute_takeover :: "rt_env \<Rightarrow> envelope \<Rightarrow> string \<Rightarrow> runtime \<Rightarrow> runtime" where
  "execute_takeover en m paneId s =
    (let c = TakeoverCommand m paneId; s1 = request_command c s;
         s2 = preempt_queued_automation en paneId (bump_pane_barrier paneId s1);
         (lease, ls) = lane_takeover (en_clock en 0 0 0) paneId (cm_actorId m) (rt_lanes s2);
         s3 = s2\<lparr>rt_lanes := ls\<rparr>;
         s4 = (case get_surface paneId (rt_surfaces s3) of
                 Some (PaneSurface g p) \<Rightarrow> rt_revoke_target en 1 (SurfaceTarget PaneKind (pi_id p) g) s3
               | _ \<Rightarrow> s3)
     in terminate_command en c (Succeeded (LaneReply (ll_actorId lease) None (ll_revision lease)))
          (s4\<lparr>rt_journal := rt_journal s4 @ [EvTakeover (cm_id m) (ll_paneId lease) (ll_actorId lease) (ll_revision lease)]\<rparr>))"

section \<open>Submission\<close>

definition reject_stale_owner_epoch :: "rt_env \<Rightarrow> runtime_command \<Rightarrow> runtime \<Rightarrow> runtime" where
  "reject_stale_owner_epoch en c s = terminate_command en c (Rejected ''stale_owner_epoch'') (request_command c s)"

text \<open>
  \<open>executeImmediateCommand\<close>. An orchestration is authorized by a lease on its project; its handler
  gets an operation identifier derived from the idempotency key.
\<close>

definition orchestration_assertion :: "envelope \<Rightarrow> string \<Rightarrow> string \<Rightarrow> nat \<Rightarrow> lease_assertion" where
  "orchestration_assertion m taskId leaseId revision = \<lparr>as_leaseId = leaseId, as_revision = revision,
     as_ownerEpoch = cm_ownerEpoch m, as_actorId = cm_actorId m, as_taskId = taskId,
     as_target = ProjectTarget (cm_projectRoot m), as_capability = PaneCreate\<rparr>"

definition call_immediate_handler ::
  "rt_env \<Rightarrow> immediate_command \<Rightarrow> string option \<Rightarrow> runtime \<Rightarrow> reply outcome \<times> runtime"
where
  "call_immediate_handler en ic operationId s =
     (plain_effect_outcome en, s\<lparr>rt_immediateEffects := rt_immediateEffects s @ [(ic, operationId)]\<rparr>)"

definition execute_started_immediate :: "rt_env \<Rightarrow> immediate_command \<Rightarrow> runtime \<Rightarrow> reply outcome \<times> runtime" where
  "execute_started_immediate en ic s =
    (case im_kind ic of
       OrchestrationCommand taskId leaseId revision \<Rightarrow>
         (case assert_capability_lease en 0 (orchestration_assertion (im_envelope ic) taskId leaseId revision) s of
            (Inl e, s1) \<Rightarrow> (failed_outcome e, s1)
          | (Inr _, s1) \<Rightarrow> call_immediate_handler en ic
              (Some (derive_orchestration_operation_id (pf_sha (en_platform en)) (cm_key (im_envelope ic)))) s1)
     | OtherImmediate \<Rightarrow> call_immediate_handler en ic None s)"

definition execute_immediate_command :: "rt_env \<Rightarrow> immediate_command \<Rightarrow> runtime \<Rightarrow> runtime" where
  "execute_immediate_command en ic s =
    (let (out, s1) = execute_started_immediate en ic (request_command (ImmediateCommand ic) s)
     in terminate_command en (ImmediateCommand ic) out s1)"

definition submit_fresh :: "rt_env \<Rightarrow> runtime_command \<Rightarrow> runtime \<Rightarrow> runtime" where
  "submit_fresh en c s =
    (let m = runtime_envelope c in
     if cm_ownerEpoch m < rt_ownerEpoch s \<or> is_surface_control c \<and> cm_ownerEpoch m \<noteq> rt_ownerEpoch s
     then reject_stale_owner_epoch en c s
     else (case c of
        SurfaceCommand cmd \<Rightarrow> execute_surface_command en cmd s
      | DelegateCommand m paneId actorId taskId ttlMs \<Rightarrow> execute_delegate en m paneId actorId taskId ttlMs s
      | TakeoverCommand m paneId \<Rightarrow> execute_takeover en m paneId s
      | PaneCommand pc \<Rightarrow> enqueue_pane_command pc s
      | ImmediateCommand ic \<Rightarrow> execute_immediate_command en ic s))"

definition prunable_queue :: "runtime \<Rightarrow> resource_queue \<Rightarrow> bool" where
  "prunable_queue s q \<longleftrightarrow> rq_quarantined q \<and> rq_entries q = [] \<and> rq_pendingEffects q = 0 \<and>
     (case rq_target q of ProjectTarget _ \<Rightarrow> False
      | SurfaceTarget k i g \<Rightarrow> (case get_surface i (rt_surfaces s) of None \<Rightarrow> True
          | Some current \<Rightarrow> surface_kind_of current \<noteq> k \<or> surface_generation current \<noteq> g))"

definition queued_pane_ids :: "runtime \<Rightarrow> string list" where
  "queued_pane_ids s = concat (map (\<lambda>q. case rq_target q of SurfaceTarget PaneKind i _ \<Rightarrow> [i] | _ \<Rightarrow> []) (jm_values (rt_queues s)))"

definition prune_retired_pane_barriers :: "runtime \<Rightarrow> runtime" where
  "prune_retired_pane_barriers s = s\<lparr>rt_barriers := filter (\<lambda>(paneId, n).
     get_surface paneId (rt_surfaces s) \<noteq> None \<or> paneId \<in> set (queued_pane_ids s)) (rt_barriers s)\<rparr>"

definition prune_inactive_resource_queues :: "runtime \<Rightarrow> runtime" where
  "prune_inactive_resource_queues s = prune_retired_pane_barriers
     (s\<lparr>rt_queues := filter (\<lambda>(key, q). \<not> prunable_queue s q) (rt_queues s)\<rparr>)"

section \<open>Reading\<close>

text \<open>
  \<open>snapshot\<close> also ends what has expired; the commands in it are those with an outcome.
\<close>

record control_snapshot =
  sn_ownerEpoch :: int
  sn_sequence :: nat
  sn_commands :: "(string \<times> command_record) list"
  sn_leases :: "(string, lane_lease) jsmap"
  sn_resources :: "surface list"
  sn_capabilityLeases :: "capability_lease list"
  sn_leaseHistory :: "lease_history_entry list"
  sn_leaseRequests :: "lease_request_record list"
  sn_approvals :: "approval list"
  sn_receipts :: "action_receipt list"

definition rt_snapshot :: "rt_env \<Rightarrow> runtime \<Rightarrow> control_snapshot \<times> runtime" where
  "rt_snapshot en s =
    (let (leases, cs) = cap_snapshot (en_clock en 0 0) (rt_leases s);
         s1 = refresh_with en 0 1 leases (s\<lparr>rt_leases := cs\<rparr>);
         (history, cs2) = cap_history (en_clock en 0 3 0) (rt_leases s1);
         s2 = s1\<lparr>rt_leases := cs2\<rparr>
     in (\<lparr>sn_ownerEpoch = rt_ownerEpoch s2, sn_sequence = length (rt_journal s2),
          sn_commands = filter (\<lambda>(i, r). kr_outcome r \<noteq> None) (rt_records s2),
          sn_leases = lane_snapshot (rt_lanes s2), sn_resources = list_surfaces (rt_surfaces s2),
          sn_capabilityLeases = leases, sn_leaseHistory = history,
          sn_leaseRequests = jm_values (rt_requests s2), sn_approvals = ap_peek (rt_approvals s2),
          sn_receipts = map snd (jm_values (rt_receipts s2))\<rparr>, s2))"

definition rt_receipt :: "string \<Rightarrow> runtime \<Rightarrow> action_receipt option" where
  "rt_receipt actionId s = map_option snd (jm_get (rt_receipts s) actionId)"

definition receipt_for_task :: "string \<Rightarrow> string \<Rightarrow> runtime \<Rightarrow> action_receipt option" where
  "receipt_for_task actionId taskId s =
    (case jm_get (rt_receipts s) actionId of
       None \<Rightarrow> None | Some (owner, receipt) \<Rightarrow> if owner = Some taskId then Some receipt else None)"

text \<open>
  A step of the runtime: a submitted command, a turn of a queue, a snapshot, a change in the
  surface registry (which the runtime shares with its host).
\<close>

datatype runtime_step =
    Submit runtime_command
  | RunQueue string
  | TakeSnapshot
  | SurfaceChange surface_op

text \<open>
  The keys of the commands that wait in a queue (\<open>pendingByIdempotencyKey\<close>): an approved effect
  stands for the command that resolved it. The journal's index leads to the last event with a key.
\<close>

fun entry_keys :: "queue_entry \<Rightarrow> string list" where
  "entry_keys (EffectEntry e) = [case qe_resolver e of None \<Rightarrow> ac_key (cx_command (qe_context e)) | Some m \<Rightarrow> cm_key m]"
| "entry_keys (PaneEntry item) = (if it_terminalized item then [] else [cm_key (pc_envelope (it_command item))])"

definition pending_keys :: "runtime \<Rightarrow> string list" where
  "pending_keys s = remdups (concat (map (\<lambda>q. concat (map entry_keys (rq_entries q))) (jm_values (rt_queues s))))"

fun event_key :: "runtime_event \<Rightarrow> string option" where
  "event_key (EvRequested cid key) = Some key"
| "event_key (EvTerminal cid key o' r) = Some key"
| "event_key _ = None"

definition journal_outcome :: "string \<Rightarrow> runtime \<Rightarrow> reply outcome option" where
  "journal_outcome key s =
    (case find (\<lambda>e. event_key e = Some key) (rev (rt_journal s)) of
       Some (EvTerminal cid k o' r) \<Rightarrow> Some o' | _ \<Rightarrow> None)"

text \<open>
  \<open>submit\<close> and \<open>lookupOutcomeOrSubmitFresh\<close>: a command with a known outcome, or one in progress, is
  not executed again; a fresh one is refused when 256 are in progress.
\<close>

definition submit :: "rt_env \<Rightarrow> runtime_command \<Rightarrow> runtime \<Rightarrow> runtime" where
  "submit en c s =
    (let s1 = prune_inactive_resource_queues s; key = cm_key (runtime_envelope c) in
     if jm_get (rt_outcomes s1) key \<noteq> None \<or> key \<in> set (pending_keys s1) then s1
     else (case journal_outcome key s1 of
        Some o' \<Rightarrow> remember_outcome key o' s1
      | None \<Rightarrow>
          if pendingCommands AGENT_CONTROL_LIMITS \<le> length (pending_keys s1) then s1
          else submit_fresh en c s1))"

fun runtime_exec :: "rt_env \<Rightarrow> runtime_step \<Rightarrow> runtime \<Rightarrow> runtime" where
  "runtime_exec en (Submit c) s = submit en c s"
| "runtime_exec en (RunQueue key) s = run_queue en key s"
| "runtime_exec en TakeSnapshot s = snd (rt_snapshot en s)"
| "runtime_exec en (SurfaceChange op) s = s\<lparr>rt_surfaces := surface_step op (rt_surfaces s)\<rparr>"
end
