(* ===== verification/RuntimeInvariants.thy ===== *)
theory RuntimeInvariants
  imports Runtime
begin

text \<open>
  What the runtime's helpers may do. Most of them are \<open>calm\<close>: they end leases, approvals and requests,
  remember receipts and outcomes within their limits, and touch nothing else. The handlers are then
  described by the few steps in them that are not calm.
\<close>

section \<open>Calm steps\<close>

definition rt_frame :: "runtime \<Rightarrow> int \<times> surface_registry \<times> lane_store \<times> (string, resource_queue) jsmap \<times>
    (string, nat) jsmap \<times> queued_effect list \<times> pane_command list \<times> (immediate_command \<times> string option) list" where
  "rt_frame s = (rt_ownerEpoch s, rt_surfaces s, rt_lanes s, rt_queues s, rt_barriers s, rt_effects s, rt_paneEffects s,
     rt_immediateEffects s)"

definition leases_shrink :: "cap_store \<Rightarrow> cap_store \<Rightarrow> bool" where
  "leases_shrink cs cs' \<longleftrightarrow> cs_ownerEpoch cs' = cs_ownerEpoch cs \<and>
     (cap_ok cs \<longrightarrow> cap_ok cs' \<and> (\<forall>i l. jm_get (cs_leases cs') i = Some l \<longrightarrow> jm_get (cs_leases cs) i = Some l))"

definition approvals_shrink :: "(string \<Rightarrow> string) \<Rightarrow> approval_store \<Rightarrow> approval_store \<Rightarrow> bool" where
  "approvals_shrink sha ap ap' \<longleftrightarrow> (approvals_ok sha ap \<longrightarrow>
     approvals_ok sha ap' \<and> (\<forall>i a. approval_live ap' i = Some a \<longrightarrow> approval_live ap i = Some a))"

text \<open>The bounded memories of the runtime.\<close>

definition memory_ok :: "runtime \<Rightarrow> bool" where
  "memory_ok s \<longleftrightarrow> jm_ok (rt_requests s) \<and> length (rt_requests s) \<le> leaseRequestPending AGENT_CONTROL_LIMITS \<and>
     jm_ok (rt_tombstones s) \<and> length (rt_tombstones s) \<le> leaseRequestRecords AGENT_CONTROL_LIMITS \<and>
     jm_ok (rt_receipts s) \<and> length (rt_receipts s) \<le> MAX_COMMAND_RECORDS \<and>
     jm_ok (rt_outcomes s) \<and> length (rt_outcomes s) \<le> MAX_COMMAND_RECORDS \<and>
     jm_ok (rt_records s) \<and> length (rt_records s) \<le> MAX_COMMAND_RECORDS \<and> jm_ok (rt_pending s)"

definition calm :: "(string \<Rightarrow> string) \<Rightarrow> runtime \<Rightarrow> runtime \<Rightarrow> bool" where
  "calm sha s s' \<longleftrightarrow> rt_frame s' = rt_frame s \<and> leases_shrink (rt_leases s) (rt_leases s') \<and>
     approvals_shrink sha (rt_approvals s) (rt_approvals s') \<and>
     set (rt_requests s') \<subseteq> set (rt_requests s) \<and> set (rt_pending s') \<subseteq> set (rt_pending s) \<and>
     (memory_ok s \<longrightarrow> memory_ok s')"

lemma leases_shrink_refl [simp]: "leases_shrink cs cs"
  by (simp add: leases_shrink_def)

lemma approvals_shrink_refl [simp]: "approvals_shrink sha ap ap"
  by (simp add: approvals_shrink_def)

lemma leases_shrink_trans: "leases_shrink a b \<Longrightarrow> leases_shrink b c \<Longrightarrow> leases_shrink a c"
  by (auto simp: leases_shrink_def)

lemma approvals_shrink_trans: "approvals_shrink sha a b \<Longrightarrow> approvals_shrink sha b c \<Longrightarrow> approvals_shrink sha a c"
  by (auto simp: approvals_shrink_def)

lemma calm_refl [simp]: "calm sha s s"
  by (simp add: calm_def)

lemma calm_trans [trans]: "calm sha a b \<Longrightarrow> calm sha b c \<Longrightarrow> calm sha a c"
  unfolding calm_def using leases_shrink_trans approvals_shrink_trans by (metis subset_trans)

lemma calm_fold: "(\<And>x s. calm sha s (f x s)) \<Longrightarrow> calm sha s (fold f xs s)"
  by (induction xs arbitrary: s) (auto intro: calm_trans)

lemma calm_frame:
  assumes "calm sha s s'"
  shows "rt_ownerEpoch s' = rt_ownerEpoch s" "rt_surfaces s' = rt_surfaces s" "rt_lanes s' = rt_lanes s"
    "rt_queues s' = rt_queues s" "rt_barriers s' = rt_barriers s" "rt_effects s' = rt_effects s"
    "rt_paneEffects s' = rt_paneEffects s" "rt_immediateEffects s' = rt_immediateEffects s"
  using assms by (simp_all add: calm_def rt_frame_def)

section \<open>The stores\<close>

lemma shrink_withdraw: "leases_shrink cs (cap_withdraw w cs)"
proof -
  have "cs_ownerEpoch (cap_withdraw w cs) = cs_ownerEpoch cs"
  proof (cases w)
    case (WAll clk)
    obtain i where e: "snd (revoke_all clk cs) = snd (invalidate_where clk i (\<lambda>_. True) EndRevoked
        (jm_values (cs_leases (snd (cap_snapshot clk cs)))) (snd (cap_snapshot clk cs)))"
      using revoke_all_snd [of clk cs] by blast
    have "cs_ownerEpoch (snd (cap_snapshot clk cs)) = cs_ownerEpoch cs"
      unfolding cap_snapshot_simps(1) by (rule invalidate_where_frame)
    then show ?thesis unfolding WAll cap_withdraw.simps e invalidate_where_frame .
  next
    case (WExpire clk)
    show ?thesis unfolding WExpire cap_withdraw.simps cap_snapshot_simps(1) by (rule invalidate_where_frame)
  next
    case (WTarget clk t)
    show ?thesis unfolding WTarget cap_withdraw.simps revoke_target_def by (rule invalidate_where_frame)
  next
    case (WActorTask clk a t)
    show ?thesis unfolding WActorTask cap_withdraw.simps revoke_actor_task_def by (rule invalidate_where_frame)
  next
    case (WRevoke clk i)
    show ?thesis unfolding WRevoke cap_withdraw.simps cap_revoke_def by simp
  qed
  then show ?thesis unfolding leases_shrink_def by (blast intro: cap_ok_withdraw withdraw_leases)
qed

lemma shrink_revoke_target: "revoke_target clk t cs = (ls, cs') \<Longrightarrow> leases_shrink cs cs'"
  using shrink_withdraw [of cs "WTarget clk t"] by simp

lemma shrink_revoke_actor_task: "revoke_actor_task clk a t cs = (ls, cs') \<Longrightarrow> leases_shrink cs cs'"
  using shrink_withdraw [of cs "WActorTask clk a t"] by simp

lemma shrink_snapshot: "cap_snapshot clk cs = (ls, cs') \<Longrightarrow> leases_shrink cs cs'"
  using shrink_withdraw [of cs "WExpire clk"] by simp

lemma shrink_revoke: "cap_revoke clk i cs = (l, cs') \<Longrightarrow> leases_shrink cs cs'"
  using shrink_withdraw [of cs "WRevoke clk i"] by simp

lemma shrink_release: "leases_shrink cs (snd (cap_release clk i cs))"
  using shrink_withdraw [of cs "WRevoke clk i"] by (simp add: cap_release_def cap_revoke_def)

lemma shrink_assert: "cap_assert clk a cs = (r, cs') \<Longrightarrow> leases_shrink cs cs'"
proof -
  assume a: "cap_assert clk a cs = (r, cs')"
  have "cs_ownerEpoch (snd (cap_assert clk a cs)) = cs_ownerEpoch cs"
    by (auto simp: cap_assert_def split: option.splits)
  moreover have "snd (cap_assert clk a cs) = cs'" using a by simp
  ultimately show ?thesis unfolding leases_shrink_def
    using cap_ok_assert [of cs clk a] assert_leases [of clk a cs] by blast
qed

lemma shrink_expire: "ap_expire now ap = (as, ap') \<Longrightarrow> approvals_shrink sha ap ap'"
proof -
  assume e: "ap_expire now ap = (as, ap')"
  { assume ok: "approvals_ok sha ap"
    have "approval_live (snd (expire_at now ap)) i =
        (case approval_live ap i of None \<Rightarrow> None | Some a \<Rightarrow> if ap_expiresAt a \<le> now then None else Some a)" for i
      using retire_live [OF approvals_ok_wf [OF ok], of Expired] by (simp add: expire_at_eq)
    then have "approval_live ap' i = Some a \<Longrightarrow> approval_live ap i = Some a" for i a
      using e by (auto simp: ap_expire_def split: option.splits if_splits)
    moreover have "approvals_ok sha ap'" using expire_at_ok [OF ok, of now] e by (simp add: ap_expire_def)
    ultimately have "approvals_ok sha ap' \<and> (\<forall>i a. approval_live ap' i = Some a \<longrightarrow> approval_live ap i = Some a)" by blast }
  then show ?thesis by (simp add: approvals_shrink_def)
qed

lemma shrink_revoke_where: "approvals_shrink sha ap (snd (revoke_where P now ap))"
  unfolding approvals_shrink_def
  by (auto simp: revoke_where_ok revoke_where_live split: option.splits if_splits)

lemma shrink_revoke_for_lease: "revoke_for_lease i now ap = (as, ap') \<Longrightarrow> approvals_shrink sha ap ap'"
  using shrink_revoke_where [of sha ap _ now] by (metis revoke_for_lease_def snd_conv)

lemma shrink_revoke_for_ids: "revoke_for_approval_ids ids now ap = (as, ap') \<Longrightarrow> approvals_shrink sha ap ap'"
  using shrink_revoke_where [of sha ap _ now]
  by (auto simp: revoke_for_approval_ids_def Let_def split: if_splits) (metis snd_conv)

section \<open>The helpers\<close>

lemmas frame_defs = calm_def rt_frame_def memory_ok_def

lemma calm_leases: "leases_shrink (rt_leases s) cs \<Longrightarrow> calm sha s (s\<lparr>rt_leases := cs\<rparr>)"
  by (simp add: frame_defs)

lemma calm_approvals: "approvals_shrink sha (rt_approvals s) ap \<Longrightarrow> calm sha s (s\<lparr>rt_approvals := ap\<rparr>)"
  by (simp add: frame_defs)

lemma calm_journal: "calm sha s (s\<lparr>rt_journal := j\<rparr>)"
  by (simp add: frame_defs)

lemma calm_append_requested: "calm sha s (append_requested cid key s)"
  by (simp add: append_requested_def calm_journal)

lemma calm_remember_outcome: "calm sha s (remember_outcome key out s)"
  by (simp add: remember_outcome_def frame_defs remember_bounded_length jm_ok_remember)

lemma calm_append_terminal: "calm sha s (append_terminal en cid key out r s)"
  unfolding append_terminal_def by (rule calm_trans [OF calm_journal calm_remember_outcome])

lemma calm_retain_record: "calm sha s (retain_command_record i r s)"
  by (simp add: retain_command_record_def frame_defs remember_bounded_length jm_ok_remember)

lemma calm_request_command: "calm sha s (request_command c s)"
  using calm_trans [OF calm_append_requested calm_retain_record] calm_append_requested
  by (auto simp: request_command_def Let_def)

lemma update_known_length: "jm_get m k = Some v \<Longrightarrow> length (AList.update k w m) = length m"
  by (induction m) (auto split: if_splits)

lemma calm_update_record: "jm_get (rt_records s) i = Some r \<Longrightarrow> calm sha s (s\<lparr>rt_records := jm_set i r' (rt_records s)\<rparr>)"
  by (auto simp: frame_defs update_known_length distinct_update)

lemma calm_terminate_command: "calm sha s (terminate_command en c out s)"
proof -
  let ?s1 = "append_terminal en (cm_id (runtime_envelope c)) (cm_key (runtime_envelope c)) out None s"
  have c1: "calm sha s ?s1" by (rule calm_append_terminal)
  show ?thesis
    using c1 calm_trans [OF c1 calm_retain_record] calm_trans [OF c1 calm_update_record]
    by (simp add: terminate_command_def Let_def split: option.split)
qed

lemma calm_remember_receipt: "calm sha s (remember_receipt r t s)"
  by (simp add: remember_receipt_def frame_defs remember_bounded_length jm_ok_remember)

lemma calm_remember_identity: "calm sha s (remember_lease_request_identity i s)"
  by (simp add: remember_lease_request_identity_def frame_defs remember_bounded_length jm_ok_remember)

lemma set_jm_delete: "set (jm_delete k m) \<subseteq> set m"
  by (induction m) auto

lemma calm_forget_pending: "calm sha s (forget_pending i s)"
  using set_jm_delete [of i "rt_pending s"] by (auto simp: forget_pending_def frame_defs)

lemma calm_drop_request: "calm sha s (s\<lparr>rt_requests := jm_delete i (rt_requests s)\<rparr>)"
  using set_jm_delete [of i "rt_requests s"] jm_delete_length_le [of i "rt_requests s"] by (auto simp: frame_defs)

lemma calm_forget_request: "calm sha s (forget_request i s)"
  unfolding forget_request_def by (rule calm_trans [OF calm_drop_request calm_remember_identity])

lemma calm_terminalize: "calm sha s (terminalize_validation_failure en c t code own s)"
  unfolding terminalize_validation_failure_def Let_def by (rule calm_trans [OF calm_remember_receipt calm_append_terminal])

lemma calm_finalize: "calm sha s (finalize_approval en code fb i s)"
proof -
  have "calm sha s (forget_pending i (terminalize_validation_failure en c t code own s))" for c t own
    by (rule calm_trans [OF calm_terminalize calm_forget_pending])
  then show ?thesis by (auto simp: finalize_approval_def calm_forget_pending split: option.split)
qed

lemma calm_finalize_all: "calm sha s (finalize_approvals en code as s)"
  unfolding finalize_approvals_def by (rule calm_fold) (rule calm_finalize)

lemma calm_prune_pending: "calm sha s (prune_pending_approvals as s)"
  by (auto simp: prune_pending_approvals_def frame_defs)

lemma calm_refresh_with: "calm sha s (refresh_with en p i ls s)"
proof -
  obtain expired ap1 where e: "ap_expire (en_clock en p i 0) (rt_approvals s) = (expired, ap1)" by fastforce
  let ?s1 = "finalize_approvals en ''approval_expired'' expired (s\<lparr>rt_approvals := ap1\<rparr>)"
  obtain revoked ap2 where r: "revoke_for_approval_ids (map JsStr (stale_approval_ids ls (ap_peek (rt_approvals ?s1))))
      (en_clock en p (i + 1) 0) (rt_approvals ?s1) = (revoked, ap2)" by fastforce
  have "calm sha s ?s1"
    by (rule calm_trans [OF calm_approvals [OF shrink_expire [OF e]] calm_finalize_all])
  also have "calm sha ?s1 (?s1\<lparr>rt_approvals := ap2\<rparr>)"
    by (rule calm_approvals [OF shrink_revoke_for_ids [OF r]])
  also have "calm sha \<dots> (finalize_approvals en ''action_invalidated'' revoked (?s1\<lparr>rt_approvals := ap2\<rparr>))"
    by (rule calm_finalize_all)
  finally show ?thesis
    using calm_trans [OF _ calm_prune_pending] e r by (simp add: refresh_with_def Let_def)
qed

lemma calm_refresh: "calm sha s (refresh_approval_state en p i s)"
proof -
  obtain ls cs where c: "cap_snapshot (en_clock en p i) (rt_leases s) = (ls, cs)" by fastforce
  from calm_trans [OF calm_leases [OF shrink_snapshot [OF c]] calm_refresh_with] c show ?thesis
    by (simp add: refresh_approval_state_def)
qed

lemma calm_revoke_for_lease: "calm sha s (revoke_approvals_for_lease en p i leaseId s)"
proof -
  let ?s1 = "refresh_approval_state en p i s"
  obtain rs ap where r: "revoke_for_lease leaseId (en_clock en p (i + 3) 0) (rt_approvals ?s1) = (rs, ap)" by fastforce
  from calm_trans [OF calm_refresh calm_trans [OF calm_approvals [OF shrink_revoke_for_lease [OF r]] calm_finalize_all]] r
  show ?thesis by (simp add: revoke_approvals_for_lease_def Let_def)
qed

lemma calm_end_leases: "calm sha s (end_leases en p i ls s)"
  by (induction ls arbitrary: i s)
    (auto intro: calm_trans [OF calm_trans [OF calm_revoke_for_lease calm_remember_identity]])

lemma calm_rt_revoke_target: "calm sha s (rt_revoke_target en p t s)"
proof -
  obtain ls cs where c: "revoke_target (en_clock en p 0) t (rt_leases s) = (ls, cs)" by fastforce
  from calm_trans [OF calm_leases [OF shrink_revoke_target [OF c]] calm_end_leases] c show ?thesis
    by (simp add: rt_revoke_target_def)
qed

lemma calm_invalidate_subject: "calm sha s (invalidate_task_subject_authority en p t a s)"
proof -
  have ap: "calm sha s (revoke_approvals_for_task_subject en p t a s)" for s
    unfolding revoke_approvals_for_task_subject_def Let_def
    by (auto split: prod.split intro: calm_trans [OF calm_approvals calm_finalize_all] dest: shrink_revoke_for_ids)
  have "calm sha s (fold forget_request is s)" for "is" by (rule calm_fold) (rule calm_forget_request)
  from calm_trans [OF this ap] have c: "calm sha s (revoke_approvals_for_task_subject en p t a (fold forget_request is s))" for "is" .
  show ?thesis
    unfolding invalidate_task_subject_authority_def Let_def
    by (auto split: prod.split intro!: calm_trans [OF c] calm_trans [OF calm_leases calm_end_leases] dest: shrink_revoke_actor_task)
qed

lemma calm_assert_subject: "assert_task_subject_active en p t a s = (r, s') \<Longrightarrow> calm sha s s'"
  by (auto simp: assert_task_subject_active_def calm_invalidate_subject split: subject_status.splits)

lemma and_do_cases:
  assumes "and_do f g s = (r, s')"
  obtains (threw) e where "f s = (Inl e, s')" "r = Inl e"
  | (went) x s1 where "f s = (Inr x, s1)" "g x s1 = (r, s')"
  using assms by (auto simp: and_do_def split: prod.splits sum.splits)

lemma pure_do_simp [simp]: "pure_do r s = (r, s)"
  by (simp add: pure_do_def)

section \<open>Checks that pass change nothing\<close>

definition subject_accepted :: "rt_env \<Rightarrow> string \<Rightarrow> string \<Rightarrow> bool" where
  "subject_accepted en taskId actorId \<longleftrightarrow>
     read_task_subject_status en taskId actorId = SubjectActive \<or>
     read_task_subject_status en taskId actorId = SubjectUntracked"

lemma assert_subject_Inr:
  "assert_task_subject_active en p t a s = (Inr u, s') \<longleftrightarrow> s' = s \<and> subject_accepted en t a"
  by (auto simp: assert_task_subject_active_def subject_accepted_def split: subject_status.splits)

lemma assert_lease_calm:
  assumes "assert_capability_lease en p a s = (r, s')"
  shows "calm sha s s'"
  using assms unfolding assert_capability_lease_def
proof (cases rule: and_do_cases)
  case (threw e)
  then show ?thesis by (auto dest: calm_assert_subject)
next
  case (went x s1)
  then have s1: "s1 = s" by (cases x) (simp add: assert_subject_Inr)
  obtain q cs where q: "cap_assert (en_clock en p 0) a (rt_leases s1) = (q, cs)" by fastforce
  with went(2) have "s' = s1\<lparr>rt_leases := cs\<rparr>" by (auto split: sum.splits)
  with calm_leases [OF shrink_assert [OF q]] s1 show ?thesis by simp
qed

lemma assert_lease_Inr:
  "assert_capability_lease en p a s = (Inr u, s') \<longleftrightarrow>
     s' = s \<and> subject_accepted en (as_taskId a) (as_actorId a) \<and>
     (\<exists>l. cap_assert (en_clock en p 0) a (rt_leases s) = (Inr l, rt_leases s))"
proof
  assume "assert_capability_lease en p a s = (Inr u, s')"
  then show "s' = s \<and> subject_accepted en (as_taskId a) (as_actorId a) \<and>
     (\<exists>l. cap_assert (en_clock en p 0) a (rt_leases s) = (Inr l, rt_leases s))"
    unfolding assert_capability_lease_def
  proof (cases rule: and_do_cases)
    case (went x s1)
    then have x: "s1 = s" "subject_accepted en (as_taskId a) (as_actorId a)"
      by (cases x, simp add: assert_subject_Inr)+
    from went(2) x obtain l cs where l: "cap_assert (en_clock en p 0) a (rt_leases s) = (Inr l, cs)"
      and s': "s' = s\<lparr>rt_leases := cs\<rparr>"
      by (auto split: prod.splits sum.splits)
    then have "cs = rt_leases s" by (auto simp: cap_assert_def split: option.splits if_splits)
    with l s' x show ?thesis by simp
  qed simp
next
  assume a: "s' = s \<and> subject_accepted en (as_taskId a) (as_actorId a) \<and>
     (\<exists>l. cap_assert (en_clock en p 0) a (rt_leases s) = (Inr l, rt_leases s))"
  then have "assert_task_subject_active en p (as_taskId a) (as_actorId a) s = (Inr (), s)"
    by (simp add: assert_subject_Inr)
  with a show "assert_capability_lease en p a s = (Inr u, s')"
    by (auto simp: assert_capability_lease_def and_do_def)
qed

lemma surface_and_lease_calm:
  assumes "assert_surface_and_lease en p c t cap s = (r, s')"
  shows "calm sha s s'"
  using assms unfolding assert_surface_and_lease_def
proof (cases rule: and_do_cases)
  case (went x s1)
  from went(1) have "s1 = s" by simp
  with went(2) assert_lease_calm show ?thesis by blast
qed simp

text \<open>What is checked before an action is accepted, and again before its effect.\<close>

definition action_allowed :: "rt_env \<Rightarrow> nat \<Rightarrow> action_command \<Rightarrow> lease_target \<Rightarrow> surface_capability \<Rightarrow> runtime \<Rightarrow> bool" where
  "action_allowed en p c target capability s \<longleftrightarrow>
     check_surface (rt_surfaces s) (ac_projectRoot c) target = Inr () \<and>
     subject_accepted en (ac_taskId c) (ac_actorId c) \<and>
     (\<exists>l. cap_assert (en_clock en p 0) (action_assertion c target capability) (rt_leases s) = (Inr l, rt_leases s))"

lemma surface_and_lease_Inr:
  "assert_surface_and_lease en p c t cap s = (Inr u, s') \<longleftrightarrow> s' = s \<and> action_allowed en p c t cap s"
  by (cases "check_surface (rt_surfaces s) (ac_projectRoot c) t")
    (auto simp: assert_surface_and_lease_def and_do_def assert_lease_Inr action_allowed_def action_assertion_def)

lemma prepare_calm:
  assumes "prepare_surface_action en p c s = (r, s')"
  shows "calm sha s s'"
  using assms unfolding prepare_surface_action_def
proof (cases rule: and_do_cases)
  case (went x s1)
  from went(1) have [simp]: "s1 = s" by simp
  from went(2) show ?thesis
  proof (cases rule: and_do_cases)
    case (went ctx s2)
    from went(1) have [simp]: "s2 = s" by simp
    from went(2) show ?thesis
    proof (cases rule: and_do_cases)
      case (went y s3)
      then show ?thesis using surface_and_lease_calm by auto
    qed (auto dest: surface_and_lease_calm)
  qed simp
qed simp

lemma prepare_Inr:
  "prepare_surface_action en p c s = (Inr ctx, s') \<longleftrightarrow>
     s' = s \<and> assert_command_current (rt_ownerEpoch s) (en_now en) c = Inr () \<and>
     describe_action (en_platform en) (en_semantics en) c = Inr ctx \<and>
     action_allowed en p c (cx_target ctx) (pc_capability (cx_classification ctx)) s"
proof (cases "assert_command_current (rt_ownerEpoch s) (en_now en) c")
  case (Inr u)
  show ?thesis
  proof (cases "describe_action (en_platform en) (en_semantics en) c")
    case Inr2: (Inr d)
    obtain r s1 where r: "assert_surface_and_lease en p c (cx_target d) (pc_capability (cx_classification d)) s = (r, s1)"
      by fastforce
    show ?thesis
    proof (cases r)
      case (Inl e)
      with r have "\<not> action_allowed en p c (cx_target d) (pc_capability (cx_classification d)) s"
        by (metis Inl_Inr_False Pair_inject surface_and_lease_Inr)
      with Inr Inr2 r Inl show ?thesis by (auto simp: prepare_surface_action_def and_do_def)
    next
      case Inr3: (Inr v)
      with r have "s1 = s \<and> action_allowed en p c (cx_target d) (pc_capability (cx_classification d)) s"
        by (simp add: surface_and_lease_Inr)
      with Inr Inr2 r Inr3 show ?thesis by (auto simp: prepare_surface_action_def and_do_def)
    qed
  qed (simp add: prepare_surface_action_def and_do_def Inr)
qed (simp add: prepare_surface_action_def and_do_def)

lemma revalidate_calm:
  assumes "revalidate en ctx s = (r, s')"
  shows "calm sha s s'"
  using assms unfolding revalidate_def
proof (cases rule: and_do_cases)
  case (went x s1)
  from went(1) have [simp]: "s1 = s" by simp
  from went(2) show ?thesis
  proof (cases rule: and_do_cases)
    case (went y s2)
    then show ?thesis using prepare_calm by auto
  qed (auto dest: prepare_calm)
qed simp

lemma revalidate_Inr:
  assumes "revalidate en ctx s = (Inr u, s')"
  shows "s' = s" and "assert_command_current (rt_ownerEpoch s) (en_now en) (cx_command ctx) = Inr ()"
    and "\<exists>current. describe_action (en_platform en) (en_semantics en) (cx_command ctx) = Inr current \<and>
      contexts_match ctx current \<and>
      action_allowed en 0 (cx_command ctx) (cx_target current) (pc_capability (cx_classification current)) s"
proof -
  obtain current s1 where p: "prepare_surface_action en 0 (cx_command ctx) s = (Inr current, s1)"
    and m: "contexts_match ctx current" and s': "s' = s1"
    using assms by (auto simp: revalidate_def and_do_def throw_if_def split: sum.splits prod.splits if_splits)
  from p [unfolded prepare_Inr] m s' show "s' = s"
    "assert_command_current (rt_ownerEpoch s) (en_now en) (cx_command ctx) = Inr ()"
    "\<exists>current. describe_action (en_platform en) (en_semantics en) (cx_command ctx) = Inr current \<and>
      contexts_match ctx current \<and>
      action_allowed en 0 (cx_command ctx) (cx_target current) (pc_capability (cx_classification current)) s"
    by blast+
qed

section \<open>Resource keys\<close>

lemma append_last_unique:
  assumes "xs @ c # ds = ys @ c # es" "c \<notin> set ds" "c \<notin> set es"
  shows "xs = ys \<and> ds = es"
  using assms
proof (induction xs arbitrary: ys)
  case Nil
  then show ?case by (cases ys) auto
next
  case (Cons x xs)
  show ?case
  proof (cases ys)
    case Nil
    with Cons.prems show ?thesis by auto
  next
    case (Cons y ys')
    with Cons.IH [of ys'] Cons.prems show ?thesis by simp
  qed
qed

lemma show_nat_no_colon: "CHR '':'' \<notin> set (show_nat n)"
proof
  assume "CHR '':'' \<in> set (show_nat n)"
  with show_nat_digits [of n] have "is_digit (CHR '':'')" unfolding list_all_iff by blast
  then show False by (simp add: is_digit_def)
qed

lemma show_nat_inj: "show_nat m = show_nat n \<longleftrightarrow> m = n"
  using nat_value_show by metis

lemma resource_key_inj: "resource_key t = resource_key t' \<longleftrightarrow> t = t'"
proof
  assume a: "resource_key t = resource_key t'"
  show "t = t'"
  proof (cases t)
    case (ProjectTarget i)
    with a show ?thesis by (cases t') (auto simp: resource_key_def split: surface_kind.splits)
  next
    case (SurfaceTarget k i g)
    with a obtain k' i' g' where t': "t' = SurfaceTarget k' i' g'"
      by (cases t') (auto simp: resource_key_def split: surface_kind.splits)
    from a SurfaceTarget t' have "k = k'" "i @ CHR '':'' # show_nat g = i' @ CHR '':'' # show_nat g'"
      by (auto simp: resource_key_def split: surface_kind.splits)
    with append_last_unique [OF this(2) show_nat_no_colon show_nat_no_colon] SurfaceTarget t' show_nat_inj
    show ?thesis by simp
  qed
qed simp

lemma contexts_match_same:
  "contexts_match x y \<longleftrightarrow> cx_target y = cx_target x \<and> cx_classification y = cx_classification x \<and>
     cx_digest y = cx_digest x \<and> cx_effect y = cx_effect x"
  by (auto simp: contexts_match_def resource_key_inj)

section \<open>What a handler may do\<close>

text \<open>
  A handler grants at most one lease, under the fresh identifier of the step, and makes at most one
  approval live, under its fresh identifier; everything else in the stores can only end.
\<close>

definition leases_evolve :: "string \<Rightarrow> cap_store \<Rightarrow> cap_store \<Rightarrow> bool" where
  "leases_evolve fresh cs cs' \<longleftrightarrow> cs_ownerEpoch cs' = cs_ownerEpoch cs \<and>
     (cap_ok cs \<longrightarrow> fresh \<noteq> [] \<longrightarrow> jm_get (cs_leases cs) fresh = None \<longrightarrow>
        cap_ok cs' \<and> (\<forall>i. i \<noteq> fresh \<longrightarrow> jm_get (cs_leases cs) i = None \<longrightarrow> jm_get (cs_leases cs') i = None))"

definition approvals_evolve :: "(string \<Rightarrow> string) \<Rightarrow> string \<Rightarrow> approval_store \<Rightarrow> approval_store \<Rightarrow> bool" where
  "approvals_evolve sha fresh ap ap' \<longleftrightarrow> (approvals_ok sha ap \<longrightarrow>
     approvals_ok sha ap' \<and> (\<forall>i. i \<noteq> fresh \<longrightarrow> approval_live ap i = None \<longrightarrow> approval_live ap' i = None))"

text \<open>A queue without its pane commands.\<close>

fun effects_of :: "queue_entry list \<Rightarrow> queued_effect list" where
  "effects_of [] = []"
| "effects_of (EffectEntry e # es) = e # effects_of es"
| "effects_of (PaneEntry item # es) = effects_of es"

definition queue_view :: "(string, resource_queue) jsmap \<Rightarrow> (string \<times> lease_target \<times> queued_effect list \<times> nat \<times> bool) list" where
  "queue_view = map (\<lambda>(k, q). (k, rq_target q, effects_of (rq_entries q), rq_pendingEffects q, rq_quarantined q))"

definition handled :: "(string \<Rightarrow> string) \<Rightarrow> rt_env \<Rightarrow> runtime \<Rightarrow> runtime \<Rightarrow> bool" where
  "handled sha en s s' \<longleftrightarrow> rt_ownerEpoch s' = rt_ownerEpoch s \<and> queue_view (rt_queues s') = queue_view (rt_queues s) \<and>
     rt_effects s' = rt_effects s \<and> rt_paneEffects s' = rt_paneEffects s \<and> rt_immediateEffects s' = rt_immediateEffects s \<and>
     leases_evolve (en_leaseId en) (rt_leases s) (rt_leases s') \<and>
     approvals_evolve sha (en_approvalId en) (rt_approvals s) (rt_approvals s') \<and>
     (memory_ok s \<longrightarrow> memory_ok s') \<and> (surface_ok (rt_surfaces s) \<longrightarrow> surface_ok (rt_surfaces s')) \<and>
     (lane_ok (rt_lanes s) \<longrightarrow> lane_ok (rt_lanes s'))"

lemma shrink_evolve: "leases_shrink cs cs' \<Longrightarrow> leases_evolve fresh cs cs'"
  unfolding leases_shrink_def leases_evolve_def by (metis not_None_eq)

lemma shrink_evolve_approvals: "approvals_shrink sha ap ap' \<Longrightarrow> approvals_evolve sha fresh ap ap'"
  unfolding approvals_shrink_def approvals_evolve_def by (metis not_None_eq)

lemma approvals_evolve_trans:
  "approvals_evolve sha f a b \<Longrightarrow> approvals_evolve sha f b c \<Longrightarrow> approvals_evolve sha f a c"
  by (auto simp: approvals_evolve_def)

lemma evolve_shrink: "leases_evolve f a b \<Longrightarrow> leases_shrink b c \<Longrightarrow> leases_evolve f a c"
  unfolding leases_shrink_def leases_evolve_def by (metis not_None_eq)

lemma shrink_then_evolve: "leases_shrink a b \<Longrightarrow> leases_evolve f b c \<Longrightarrow> leases_evolve f a c"
  unfolding leases_shrink_def leases_evolve_def by (metis not_None_eq)

lemma calm_is_handled: "calm sha s s' \<Longrightarrow> handled sha en s s'"
  by (simp add: calm_def rt_frame_def handled_def shrink_evolve shrink_evolve_approvals)

lemma handled_calm: "handled sha en a b \<Longrightarrow> calm sha b c \<Longrightarrow> handled sha en a c"
  unfolding handled_def calm_def rt_frame_def
  by (auto intro: evolve_shrink approvals_evolve_trans shrink_evolve_approvals)

lemma calm_handled: "calm sha a b \<Longrightarrow> handled sha en b c \<Longrightarrow> handled sha en a c"
  unfolding handled_def calm_def rt_frame_def
  by (auto intro: shrink_then_evolve approvals_evolve_trans shrink_evolve_approvals)

lemma handled_approvals:
  "approvals_evolve sha (en_approvalId en) (rt_approvals s) ap \<Longrightarrow> handled sha en s (s\<lparr>rt_approvals := ap\<rparr>)"
  by (simp add: handled_def memory_ok_def shrink_evolve)

text \<open>The operations of the approval store, by its own step theorem.\<close>

lemma evolve_step:
  assumes "\<And>i a. approval_created op i a \<Longrightarrow> i = fresh" and "ap_step sha op ap = ap'"
  shows "approvals_evolve sha fresh ap ap'"
  unfolding approvals_evolve_def
proof (intro impI conjI allI)
  assume ok: "approvals_ok sha ap"
  note step = ap_step_correct [OF ok, of op, unfolded assms(2)]
  then show "approvals_ok sha ap'" ..
  fix i assume i: "i \<noteq> fresh" "approval_live ap i = None"
  show "approval_live ap' i = None"
  proof (rule ccontr)
    assume "approval_live ap' i \<noteq> None"
    then obtain a' where a': "jm_get (as_approvals ap') i = Some a'" "is_active a'"
      by (auto simp: approval_live_Some)
    from step have "evolves op ap ap'" ..
    from this a'(1) show False
    proof (cases rule: evolves_Some)
      case 1
      with assms(1) i(1) show False by blast
    next
      case (2 a)
      then have "is_active a" using a'(2) approval_change_active by blast
      with 2(1) i(2) approval_live_Some [of ap i a] show False by simp
    qed
  qed
qed

inductive_cases approval_createdE: "approval_created op i a"

lemma evolve_resolve:
  "(if b then approve else deny) sha i actor digest now ap = (r, ap') \<Longrightarrow> approvals_evolve sha fresh ap ap'"
  using evolve_step [of "OpApprove i actor digest now" fresh sha ap ap']
    evolve_step [of "OpDeny i actor digest now" fresh sha ap ap']
  by (cases b) (auto elim: approval_createdE)

lemma evolve_consume: "consume sha input now ap = (r, ap') \<Longrightarrow> approvals_evolve sha fresh ap ap'"
  using evolve_step [of "OpConsume input now" fresh sha ap ap'] by (auto elim: approval_createdE)

lemma evolve_request: "request_current sha fresh input now ap = (r, ap') \<Longrightarrow> approvals_evolve sha fresh ap ap'"
  using evolve_step [of "OpRequestCurrent fresh input now" fresh sha ap ap'] by (auto elim: approval_createdE)

lemma evolve_grant: "cap_grant clk fresh input cs = (r, cs') \<Longrightarrow> leases_evolve fresh cs cs'"
proof -
  assume g: "cap_grant clk fresh input cs = (r, cs')"
  have e: "cs_ownerEpoch cs' = cs_ownerEpoch cs"
    using g by (auto simp: cap_grant_def live_previous_def Let_def split: option.splits sum.splits if_splits prod.splits)
  { assume ok: "cap_ok cs" and f: "fresh \<noteq> []" "jm_get (cs_leases cs) fresh = None"
    have "cap_ok cs'" using cap_ok_step [OF ok, of "CGrant clk fresh input"] f g by simp
    moreover have "jm_get (cs_leases cs') i = None" if i: "i \<noteq> fresh" "jm_get (cs_leases cs) i = None" for i
    proof (rule ccontr)
      assume "jm_get (cs_leases cs') i \<noteq> None"
      then obtain l where "jm_get (cs_leases cs') i = Some l" by blast
      with grant_leases [OF ok, of clk fresh input i l] g i have l: "fst (cap_grant clk fresh input cs) = Inr l" "cl_id l = i"
        by auto
      from granted_lease(1) [OF ok l(1)] l(2) i show False by auto
    qed
    ultimately have "cap_ok cs' \<and> (\<forall>i. i \<noteq> fresh \<longrightarrow> jm_get (cs_leases cs) i = None \<longrightarrow> jm_get (cs_leases cs') i = None)"
      by blast }
  with e show ?thesis by (simp add: leases_evolve_def)
qed

section \<open>The handlers\<close>

lemma request_has_lease_calm: "request_has_lease en p i s = (r, s') \<Longrightarrow> calm sha s s'"
  by (auto simp: request_has_lease_def split: prod.splits intro: calm_leases shrink_snapshot)

lemma lease_request_calm:
  assumes "lease_request en m t ttl gs s = (r, s')"
  shows "calm sha s s'" and "r = Inr x \<Longrightarrow> length (rt_requests s') < leaseRequestPending AGENT_CONTROL_LIMITS"
proof -
  have "calm sha s s' \<and> (r = Inr x \<longrightarrow> length (rt_requests s') < leaseRequestPending AGENT_CONTROL_LIMITS)"
    using assms unfolding lease_request_def
  proof (cases rule: and_do_cases)
    case (threw e)
    then show ?thesis by (auto dest: calm_assert_subject)
  next
    case (went u s1)
    from went(1) have c1: "calm sha s s1" by (auto dest: calm_assert_subject)
    from went(2) show ?thesis
    proof (cases rule: and_do_cases)
      case (threw e)
      then show ?thesis using calm_trans [OF c1] by (auto split: if_splits dest: request_has_lease_calm)
    next
      case (went known s2)
      then have "calm sha s1 s2" by (auto split: if_splits dest: request_has_lease_calm)
      with c1 have c2: "calm sha s s2" by (rule calm_trans)
      from went(2) have [simp]: "s' = s2" by simp
      from went(2) have "r = Inr x \<longrightarrow> length (rt_requests s2) < leaseRequestPending AGENT_CONTROL_LIMITS"
        by (auto simp: throw_if_Inr)
      with c2 show ?thesis by simp
    qed
  qed
  then show "calm sha s s'" "r = Inr x \<Longrightarrow> length (rt_requests s') < leaseRequestPending AGENT_CONTROL_LIMITS"
    by auto
qed

lemma length_update_le: "length (AList.update k v m) \<le> Suc (length m)"
  by (induction m) auto

lemma handled_lease_request:
  assumes "handle_lease_request en m t ttl gs s = (r, s')"
  shows "handled sha en s s'"
  using assms unfolding handle_lease_request_def
proof (cases rule: and_do_cases)
  case (threw e)
  then show ?thesis by (auto intro: calm_is_handled lease_request_calm)
next
  case (went x s1)
  have c: "calm sha s s1" and l: "length (rt_requests s1) < leaseRequestPending AGENT_CONTROL_LIMITS"
    using lease_request_calm [OF went(1)] by auto
  have "handled sha en s1 (s1\<lparr>rt_requests := jm_set (cm_id m) (request_record m t ttl gs) (rt_requests s1)\<rparr>)"
    using l length_update_le [of "cm_id m" "request_record m t ttl gs" "rt_requests s1"]
    by (auto simp: handled_def memory_ok_def shrink_evolve shrink_evolve_approvals distinct_update)
  with calm_handled [OF c] went(2) show ?thesis by auto
qed

lemma handled_lease_grant:
  assumes "handle_lease_grant en m i s = (r, s')"
  shows "handled sha en s s'"
proof (cases "jm_get (rt_requests s) i")
  case None
  with assms show ?thesis
    by (auto simp: handle_lease_grant_def and_do_def split: if_splits prod.splits sum.splits
        dest!: request_has_lease_calm [of _ _ _ _ _ _ sha] intro: calm_is_handled)
next
  case (Some request)
  define check where "check = throw_if (lq_ownerEpoch request \<noteq> rt_ownerEpoch s \<or> lq_ownerEpoch request \<noteq> cm_ownerEpoch m)
      (Some ''lease_request_stale'')
      (throw_if (lq_status request \<noteq> RequestPending) (Some ''lease_request_consumed'') (Inr ()))"
  note a = assms [unfolded handle_lease_grant_def Some, simplified, folded check_def]
  from a show ?thesis
  proof (cases rule: and_do_cases)
    case (threw e)
    then show ?thesis by (auto intro: calm_is_handled)
  next
    case (went u s1)
    then have [simp]: "s1 = s" by simp
    from went(2) show ?thesis
    proof (cases rule: and_do_cases)
      case (threw e)
      then show ?thesis by (auto dest: calm_assert_subject intro: calm_is_handled)
    next
      case (went v s2)
      from went(1) have c: "calm sha s s2" by (auto dest: calm_assert_subject)
      from went(2) show ?thesis
      proof (cases rule: and_do_cases)
        case (threw e)
        then show ?thesis using c by (auto intro: calm_is_handled)
      next
        case (went w s3)
        then have [simp]: "s3 = s2" by simp
        obtain q cs where g: "cap_grant (en_clock en 0 0) (en_leaseId en)
            \<lparr>gr_requestId = lq_id request, gr_actorId = lq_actorId request, gr_taskId = lq_taskId request,
             gr_grantedBy = cm_actorId m, gr_grants = lq_grants request, gr_ttlMs = lq_ttlMs request\<rparr> (rt_leases s2) = (q, cs)"
          by fastforce
        have h: "handled sha en s2 (s2\<lparr>rt_leases := cs\<rparr>)"
          using evolve_grant [OF g] by (simp add: handled_def memory_ok_def shrink_evolve_approvals)
        from went(2) g have "s' = s2\<lparr>rt_leases := cs\<rparr> \<or> s' = forget_request (lq_id request) (s2\<lparr>rt_leases := cs\<rparr>)"
          by (auto split: sum.splits)
        with h handled_calm [OF h calm_forget_request] calm_handled [OF c] show ?thesis by blast
      qed
    qed
  qed
qed

lemma calm_lease_release:
  assumes "handle_lease_release en m t i n s = (r, s')"
  shows "calm sha s s'"
proof -
  obtain ls cs where c: "cap_snapshot (en_clock en 0 0) (rt_leases s) = (ls, cs)" by fastforce
  let ?s1 = "s\<lparr>rt_leases := cs\<rparr>"
  have c1: "calm sha s ?s1" by (rule calm_leases [OF shrink_snapshot [OF c]])
  show ?thesis
  proof (cases "find (\<lambda>l. cl_id l = i) ls")
    case None
    with assms c c1 show ?thesis by (simp add: handle_lease_release_def)
  next
    case (Some lease)
    let ?rel = "\<lambda>s. s\<lparr>rt_leases := snd (cap_release (en_clock en 2 0) (cl_id lease) (rt_leases s))\<rparr>"
    have rel: "calm sha s (remember_lease_request_identity j (revoke_approvals_for_lease en 2 1 k (?rel s)))" for s j k
      by (rule calm_trans [OF calm_trans [OF calm_leases [OF shrink_release] calm_revoke_for_lease] calm_remember_identity])
    show ?thesis
    proof (cases "cl_actorId lease \<noteq> cm_actorId m \<or> cl_taskId lease \<noteq> t \<or> cl_revision lease \<noteq> n")
      case True
      then have "handle_lease_release en m t i n s = (Inl (Some ''capability_denied''), ?s1)"
        using c Some by (simp add: handle_lease_release_def)
      with assms c1 show ?thesis by simp
    next
      case False
      with assms c Some have "and_do (assert_task_subject_active en 1 t (cm_actorId m)) (\<lambda>_ s.
          (Inr NoReply, remember_lease_request_identity (cl_requestId lease)
             (revoke_approvals_for_lease en 2 1 (cl_id lease) (?rel s)))) ?s1 = (r, s')"
        by (simp add: handle_lease_release_def Let_def)
      then show ?thesis
      proof (cases rule: and_do_cases)
        case (threw e)
        then show ?thesis using calm_trans [OF c1] by (auto dest: calm_assert_subject)
      next
        case (went x s2)
        then have "calm sha ?s1 s2" by (auto dest: calm_assert_subject)
        from calm_trans [OF c1 calm_trans [OF this rel]] went(2) show ?thesis by auto
      qed
    qed
  qed
qed

lemma calm_lease_revoke: "handle_lease_revoke en i s = (r, s') \<Longrightarrow> calm sha s s'"
  by (auto simp: handle_lease_revoke_def split: prod.splits option.splits
      intro: calm_leases shrink_revoke calm_trans [OF calm_trans [OF calm_leases [OF shrink_revoke] calm_revoke_for_lease]
        calm_remember_identity])

lemma handled_surfaces:
  "(surface_ok (rt_surfaces s) \<Longrightarrow> surface_ok r) \<Longrightarrow> handled sha en s (s\<lparr>rt_surfaces := r\<rparr>)"
  by (simp add: handled_def memory_ok_def shrink_evolve shrink_evolve_approvals)

lemma handled_provider_upsert:
  assumes "handle_provider_upsert en m input s = (r, s')"
  shows "handled sha en s s'"
  using assms unfolding handle_provider_upsert_def
proof (cases rule: and_do_cases)
  case (threw e)
  then show ?thesis by (auto intro: calm_is_handled)
next
  case (went u s1)
  then have [simp]: "s1 = s" by simp
  obtain x reg where u: "upsert_browser_tab input (rt_surfaces s) = (x, reg)" by fastforce
  have "surface_ok (rt_surfaces s) \<Longrightarrow> surface_ok reg"
    using surface_ok_step [of "rt_surfaces s" "UpsertTab input"] u by simp
  then have h: "handled sha en s (s\<lparr>rt_surfaces := reg\<rparr>)" by (rule handled_surfaces)
  from went(2) u have "s' = s\<lparr>rt_surfaces := reg\<rparr> \<or> (\<exists>t. s' = rt_revoke_target en 0 t (s\<lparr>rt_surfaces := reg\<rparr>))"
    by (auto simp: Let_def split: option.splits surface.splits if_splits)
  with h handled_calm [OF h calm_rt_revoke_target] show ?thesis by blast
qed

lemma handled_provider_remove:
  assumes "handle_provider_remove en i g s = (r, s')"
  shows "handled sha en s s'"
  using assms unfolding handle_provider_remove_def
proof (cases rule: and_do_cases)
  case (threw e)
  then show ?thesis by (auto intro: calm_is_handled)
next
  case (went x s1)
  then have [simp]: "s1 = s" by simp
  let ?reg = "snd (remove_surface (surface_id x) (rt_surfaces s))"
  have "surface_ok (rt_surfaces s) \<Longrightarrow> surface_ok ?reg"
    using surface_ok_step [of "rt_surfaces s" "RemoveSurface (surface_id x)"] by simp
  then have h: "handled sha en s (s\<lparr>rt_surfaces := ?reg\<rparr>)" by (rule handled_surfaces)
  from went(2) have "s' = s \<or> (\<exists>t. s' = rt_revoke_target en 0 t (s\<lparr>rt_surfaces := ?reg\<rparr>))"
    by (auto split: if_splits)
  with handled_calm [OF h calm_rt_revoke_target] calm_is_handled [OF calm_refl] show ?thesis by blast
qed

lemma handled_simple_command:
  assumes "simple_command en cmd s = (r, s')"
  shows "handled sha en s s'"
  using assms unfolding simple_command_def
  by (cases cmd) (auto intro: handled_lease_request handled_lease_grant handled_provider_upsert handled_provider_remove
      calm_is_handled calm_lease_release calm_lease_revoke)

lemma handled_request_approval:
  assumes "request_approval en ctx s = (r, s')" and "pf_sha (en_platform en) = sha"
  shows "handled sha en s s'"
proof (cases "cx_effect ctx")
  case None
  with assms show ?thesis by (auto simp: request_approval_def intro: calm_is_handled)
next
  case (Some effect)
  let ?s1 = "refresh_approval_state en 1 0 s"
  obtain q ap where q: "request_current sha (en_approvalId en) (JsObj (intent_members ctx effect)) (en_clock en 1 3 0)
      (rt_approvals ?s1) = (q, ap)" by fastforce
  let ?s2 = "?s1\<lparr>rt_approvals := ap\<rparr>"
  have h: "handled sha en s ?s2"
    by (rule calm_handled [OF calm_refresh handled_approvals [OF evolve_request [OF q]]])
  have set_pending: "handled sha en s (?s2\<lparr>rt_pending := p, rt_journal := j\<rparr>)" if "jm_ok (rt_pending ?s1) \<Longrightarrow> jm_ok p" for p j
    using h that by (auto simp: handled_def memory_ok_def)
  show ?thesis
  proof (cases q)
    case (Inl e)
    with assms Some q h show ?thesis by (simp add: request_approval_def Let_def)
  next
    case (Inr a)
    from assms Some q Inr obtain p j rc t where s': "s' = remember_receipt rc t (?s2\<lparr>rt_pending := p, rt_journal := j\<rparr>)"
      and p: "p = (if jm_get (rt_pending ?s1) (ap_id a) = None then jm_set (ap_id a) ctx (rt_pending ?s1) else rt_pending ?s1)"
      by (fastforce simp: request_approval_def Let_def)
    have "jm_ok (rt_pending ?s1) \<Longrightarrow> jm_ok p" unfolding p by (simp add: distinct_update)
    from handled_calm [OF set_pending [OF this] calm_remember_receipt] s' show ?thesis by blast
  qed
qed

lemma calm_deny_pending: "calm sha s (deny_pending en m ctx i s)"
  unfolding deny_pending_def Let_def
  by (rule calm_trans [OF calm_trans [OF calm_trans [OF calm_remember_receipt calm_forget_pending] calm_append_terminal] calm_append_terminal])

lemma consume_value_id:
  assumes "copy_assertion (consume_value i digest ctx effect) = Inr c"
  shows "ca_approvalId c = i"
proof -
  have "js_get ([(''approvalId'', JsStr i), (''payloadDigest'', JsStr digest)] @ intent_members ctx effect) ''approvalId'' = JsStr i"
    by simp
  with assms show ?thesis
    by (auto simp: copy_assertion_def consume_value_def and_then_Inr throw_if_Inr
        elim!: assert_allowed_keysE)
qed

text \<open>A surface action is handled without touching the queues, or an effect that needs no approval is enqueued.\<close>

lemma surface_action_cases:
  assumes "pf_sha (en_platform en) = sha"
  obtains (settled) "handled sha en s (surface_action en c s)"
  | (queued) s1 q where "calm sha s s1" "surface_action en c s = enqueue_surface_effect en q s1" "qe_approval q = None"
      "pc_decision (cx_classification (qe_context q)) \<noteq> NeedsApproval"
proof -
  let ?own = "trusted_validation_failure_ownership c s"
  let ?fail = "\<lambda>e s. if e = Some ''approval_action_conflict''
                       then append_terminal en (ac_id c) (ac_key c) (failed_outcome e) None s
                       else terminalize_validation_failure en c (target_for_surface_action c)
                              (validation_failure_code e) ?own s"
  have fail: "calm sha s' (?fail e s')" for e s' by (simp add: calm_append_terminal calm_terminalize)
  obtain r s1 where p: "prepare_surface_action en 0 c s = (r, s1)" by fastforce
  have c1: "calm sha s s1" by (rule prepare_calm [OF p])
  show thesis
  proof (cases r)
    case (Inl e)
    with p have eq: "surface_action en c s = ?fail e s1" by (simp add: surface_action_def Let_def)
    show thesis by (rule settled, unfold eq, rule calm_is_handled [OF calm_trans [OF c1 fail]])
  next
    case (Inr ctx)
    show thesis
    proof (cases "pc_decision (cx_classification ctx) = NeedsApproval")
      case True
      obtain r2 s2 where q: "request_approval en ctx s1 = (r2, s2)" by fastforce
      have h: "handled sha en s s2" by (rule calm_handled [OF c1 handled_request_approval [OF q assms]])
      have "calm sha s2 (surface_action en c s)"
        using p Inr True q fail [of s2] calm_append_terminal
        by (cases r2) (simp_all add: surface_action_def Let_def)
      then show thesis by (rule settled [OF handled_calm [OF h]])
    next
      case False
      with p Inr have "surface_action en c s = enqueue_surface_effect en
          \<lparr>qe_context = ctx, qe_resolver = None, qe_approval = None\<rparr> s1"
        by (simp add: surface_action_def Let_def)
      with c1 False queued [of s1 "\<lparr>qe_context = ctx, qe_resolver = None, qe_approval = None\<rparr>"] show thesis by simp
    qed
  qed
qed

section \<open>Resolving an approval\<close>

lemma consume_ends:
  assumes "approvals_ok sha ap" and "consume sha (consume_value i digest ctx effect) now ap = (Inr c, ap')"
  shows "approval_live ap' i = None" "\<exists>a. approval_live ap i = Some a \<and> ap_status a = Approved \<and> now < ap_expiresAt a"
proof -
  from assms have "approval_live ap' i = None \<and> (\<exists>a. approval_live ap i = Some a \<and> ap_status a = Approved \<and> now < ap_expiresAt a)"
  proof (cases rule: consume_eq)
    case (consumed a asrt a')
    have i: "ca_approvalId asrt = i" by (rule consume_value_id [OF consumed(2)])
    have "jm_get (as_approvals ap') i \<in> {None, Some a'}"
      unfolding consumed(11) using replace_lookup [OF approvals_ok_wf [OF assms(1)] consumed(3), of a'] consumed(10) i by simp
    moreover have "\<not> is_active a'" using consumed(10) by (simp add: is_active_def)
    ultimately have "approval_live ap' i = None" by (auto simp: approval_live_def)
    moreover have "is_active a" using consumed(4) by (simp add: is_active_def)
    ultimately show ?thesis using consumed(3,4,5) i by (auto simp: approval_live_Some)
  qed simp_all
  then show "approval_live ap' i = None" "\<exists>a. approval_live ap i = Some a \<and> ap_status a = Approved \<and> now < ap_expiresAt a"
    by blast+
qed

lemma settle_cases:
  assumes "settle_approval en m digest ctx a s = (r, s')" and "pf_sha (en_platform en) = sha"
  obtains (failed) e where "r = Inl e" "handled sha en s s'"
  | (queued) effect ap c where "r = Inr ()" "cx_effect ctx = Some effect"
      "action_allowed en 2 (cx_command ctx) (cx_target ctx) (pc_capability (cx_classification ctx)) s"
      "consume sha (consume_value (ap_id a) digest ctx effect) (en_clock en 3 0 0) (rt_approvals s) = (Inr c, ap)"
      "s' = enqueue_surface_effect en \<lparr>qe_context = ctx, qe_resolver = Some m, qe_approval = Some (ap_id a)\<rparr>
              (forget_pending (ap_id a) (s\<lparr>rt_approvals := ap\<rparr>))"
proof (cases "cx_effect ctx")
  case None
  with assms(1) have "r = Inl (Some ''approval_payload_invalid'')" "s' = s" by (auto simp: settle_approval_def)
  with failed show ?thesis by (blast intro: calm_is_handled calm_refl)
next
  case (Some effect)
  let ?f = "assert_surface_and_lease en 2 (cx_command ctx) (cx_target ctx) (pc_capability (cx_classification ctx))"
  define g where "g = (\<lambda>(u :: unit) (s :: runtime). case consume sha (consume_value (ap_id a) digest ctx effect) (en_clock en 3 0 0) (rt_approvals s) of
      (Inl e, ap) \<Rightarrow> (Inl (approval_code e), s\<lparr>rt_approvals := ap\<rparr>)
    | (Inr consumed, ap) \<Rightarrow> (Inr consumed, s\<lparr>rt_approvals := ap\<rparr>))"
  obtain q s1 where q: "and_do ?f g s = (q, s1)" by fastforce
  have eq: "(r, s') = (case q of
      Inl e \<Rightarrow> (Inl e, forget_pending (ap_id a) (revoke_approvals_for_lease en 4 0 (ai_leaseId (ap_identity a)) s1))
    | Inr c \<Rightarrow> (Inr (), enqueue_surface_effect en \<lparr>qe_context = ctx, qe_resolver = Some m, qe_approval = Some (ap_id a)\<rparr>
        (forget_pending (ap_id a) s1)))"
    unfolding assms(1) [symmetric] settle_approval_def Some using q assms(2) by (simp add: g_def split: sum.split)
  have fail: thesis if e: "q = Inl e" and h: "handled sha en s s1" for e
  proof (rule failed)
    show "r = Inl e" using eq e by simp
    have "s' = forget_pending (ap_id a) (revoke_approvals_for_lease en 4 0 (ai_leaseId (ap_identity a)) s1)"
      using eq e by simp
    with handled_calm [OF h calm_trans [OF calm_revoke_for_lease calm_forget_pending]] show "handled sha en s s'" by simp
  qed
  from q show ?thesis
  proof (cases rule: and_do_cases)
    case (threw e)
    from threw(2) show ?thesis by (rule fail) (rule calm_is_handled [OF surface_and_lease_calm [OF threw(1)]])
  next
    case (went u s2)
    from went(1) have s2: "s2 = s"
      and allowed: "action_allowed en 2 (cx_command ctx) (cx_target ctx) (pc_capability (cx_classification ctx)) s"
      by (simp_all add: surface_and_lease_Inr)
    obtain c ap where c: "consume sha (consume_value (ap_id a) digest ctx effect) (en_clock en 3 0 0) (rt_approvals s) = (c, ap)"
      by fastforce
    have h: "handled sha en s (s\<lparr>rt_approvals := ap\<rparr>)" by (rule handled_approvals [OF evolve_consume [OF c]])
    show ?thesis
    proof (cases c)
      case (Inl e)
      with went(2) s2 c have "q = Inl (approval_code e)" "s1 = s\<lparr>rt_approvals := ap\<rparr>" by (auto simp: g_def)
      with h show ?thesis by (intro fail) simp_all
    next
      case (Inr v)
      with went(2) s2 c have "q = Inr v" "s1 = s\<lparr>rt_approvals := ap\<rparr>" by (auto simp: g_def)
      with eq Some allowed c Inr show ?thesis by (intro queued) auto
    qed
  qed
qed

lemma approvals_then_handled:
  "approvals_evolve sha (en_approvalId en) (rt_approvals s) ap \<Longrightarrow> handled sha en (s\<lparr>rt_approvals := ap\<rparr>) s' \<Longrightarrow> handled sha en s s'"
  by (auto simp: handled_def memory_ok_def intro: approvals_evolve_trans)

text \<open>
  An operator's decision is handled without touching the queues, or it approved a live approval whose
  consumption succeeded, and the effect is enqueued.
\<close>

lemma resolve_approval_cases:
  assumes "pf_sha (en_platform en) = sha"
  obtains (settled) "handled sha en s (resolve_approval en m i digest yes s)"
  | (queued) ctx a effect c ap1 ap2 where "yes" "jm_get (rt_pending s) i = Some ctx" "cx_effect ctx = Some effect"
      "approve sha i (cm_actorId m) digest (en_clock en 1 0 0) (rt_approvals s) = (Inr a, ap1)"
      "action_allowed en 2 (cx_command ctx) (cx_target ctx) (pc_capability (cx_classification ctx)) s"
      "consume sha (consume_value (ap_id a) digest ctx effect) (en_clock en 3 0 0) ap1 = (Inr c, ap2)"
      "resolve_approval en m i digest yes s =
         enqueue_surface_effect en \<lparr>qe_context = ctx, qe_resolver = Some m, qe_approval = Some (ap_id a)\<rparr>
           (forget_pending (ap_id a) (s\<lparr>rt_approvals := ap2\<rparr>))"
proof -
  let ?ctx = "jm_get (rt_pending s) i"
  let ?fail = "\<lambda>e. append_terminal en (cm_id m) (cm_key m) (failed_outcome e) None"
  obtain r s1 where subj: "(case ?ctx of None \<Rightarrow> (Inr (), s)
      | Some ctx \<Rightarrow> assert_task_subject_active en 0 (ac_taskId (cx_command ctx)) (ac_actorId (cx_command ctx)) s) = (r, s1)"
    by fastforce
  then have c1: "calm sha s s1" by (auto split: option.splits dest: calm_assert_subject)
  show thesis
  proof (cases r)
    case (Inl e)
    with subj have eq: "resolve_approval en m i digest yes s = ?fail e s1"
      unfolding resolve_approval_def Let_def by simp
    show thesis by (rule settled, unfold eq, rule calm_is_handled, rule calm_trans [OF c1 calm_append_terminal])
  next
    case (Inr u)
    with subj have [simp]: "s1 = s" by (cases r) (auto split: option.splits simp: assert_subject_Inr)
    obtain q ap where q: "(if yes then approve else deny) sha i (cm_actorId m) digest (en_clock en 1 0 0) (rt_approvals s) = (q, ap)"
      by fastforce
    let ?s2 = "s\<lparr>rt_approvals := ap\<rparr>"
    have h: "handled sha en s ?s2" by (rule handled_approvals [OF evolve_resolve [OF q]])
    show thesis
    proof (cases q)
      case Inl2: (Inl e)
      let ?code = "approval_code e"
      have "resolve_approval en m i digest yes s = ?fail ?code (if ?ctx \<noteq> None \<and> is_approval_invalidation_error ?code
          then finalize_approval en (if e = ApprovalExpired then ''approval_expired'' else ''action_invalidated'') ?ctx i ?s2
          else ?s2)"
        unfolding resolve_approval_def Let_def using subj Inr q Inl2 assms by simp
      moreover have "calm sha ?s2 (?fail ?code (if ?ctx \<noteq> None \<and> is_approval_invalidation_error ?code
          then finalize_approval en (if e = ApprovalExpired then ''approval_expired'' else ''action_invalidated'') ?ctx i ?s2
          else ?s2))"
        using calm_trans [OF calm_finalize calm_append_terminal] calm_append_terminal by simp
      ultimately show thesis using handled_calm [OF h] settled by simp
    next
      case Inr2: (Inr a)
      show thesis
      proof (cases ?ctx)
        case None
        have eq: "resolve_approval en m i digest yes s = ?fail (Some ''approval_missing'') ?s2"
          unfolding resolve_approval_def Let_def using subj Inr q Inr2 assms None by simp
        show thesis by (rule settled, unfold eq, rule handled_calm [OF h calm_append_terminal])
      next
        case (Some ctx)
        show thesis
        proof (cases yes)
          case False
          have eq: "resolve_approval en m i digest yes s = deny_pending en m ctx (ap_id a) ?s2"
            unfolding resolve_approval_def Let_def using subj Inr q Inr2 assms Some False by simp
          show thesis by (rule settled, unfold eq, rule handled_calm [OF h calm_deny_pending])
        next
          case True
          obtain r3 s3 where set: "settle_approval en m digest ctx a ?s2 = (r3, s3)" by fastforce
          have eq: "resolve_approval en m i digest yes s = (case r3 of Inl e \<Rightarrow> ?fail e s3 | Inr _ \<Rightarrow> s3)"
            unfolding resolve_approval_def Let_def using subj Inr q Inr2 assms Some True set by simp
          from set assms show thesis
          proof (cases rule: settle_cases)
            case (failed e)
            have "handled sha en s s3" by (rule approvals_then_handled [OF evolve_resolve [OF q] failed(2)])
            from handled_calm [OF this calm_append_terminal] eq failed(1) settled show thesis by simp
          next
            case set2: (queued effect ap2 c)
            show thesis
            proof (rule queued)
              show yes by (rule True)
              show "jm_get (rt_pending s) i = Some ctx" by (rule Some)
              show "cx_effect ctx = Some effect" by (rule set2(2))
              show "approve sha i (cm_actorId m) digest (en_clock en 1 0 0) (rt_approvals s) = (Inr a, ap)"
                using q True Inr2 by simp
              show "action_allowed en 2 (cx_command ctx) (cx_target ctx) (pc_capability (cx_classification ctx)) s"
                using set2(3) by (simp add: action_allowed_def)
              show "consume sha (consume_value (ap_id a) digest ctx effect) (en_clock en 3 0 0) ap = (Inr c, ap2)"
                using set2(4) by simp
              show "resolve_approval en m i digest yes s =
                  enqueue_surface_effect en \<lparr>qe_context = ctx, qe_resolver = Some m, qe_approval = Some (ap_id a)\<rparr>
                    (forget_pending (ap_id a) (s\<lparr>rt_approvals := ap2\<rparr>))"
                using eq set2(1,5) by simp
            qed
          qed
        qed
      qed
    qed
  qed
qed
end
