(* ===== verification/RuntimeSteps.thy ===== *)
theory RuntimeSteps
  imports RuntimeInvariants
begin

text \<open>
  The steps of the runtime, each in terms of what it does to the resource queues: most leave the
  waiting effects alone (\<open>handled\<close>), a submission may add one effect, and a turn of a queue takes one.
\<close>

section \<open>Delegation, takeover, snapshot\<close>

lemma handled_lanes: "(lane_ok (rt_lanes s) \<Longrightarrow> lane_ok l) \<Longrightarrow> handled sha en s (s\<lparr>rt_lanes := l\<rparr>)"
  by (simp add: handled_def memory_ok_def shrink_evolve shrink_evolve_approvals)

lemma lane_ok_takeover: "lane_takeover now p h ls = (l, ls') \<Longrightarrow> lane_ok ls \<Longrightarrow> lane_ok ls'"
  using lane_ok_step [of ls "Takeover now p h"] by simp

lemma lane_ok_delegate: "lane_delegate now p a t ttl ls = (l, ls') \<Longrightarrow> lane_ok ls \<Longrightarrow> lane_ok ls'"
  using lane_ok_step [of ls "Delegate now p a t ttl"] by simp

lemma handled_delegate: "handled sha en s (execute_delegate en m p a t ttl s)"
proof -
  let ?c = "DelegateCommand m p a t ttl"
  let ?s1 = "request_command ?c s"
  obtain l ls where d: "lane_delegate (en_clock en 0 0 0) p a t ttl (rt_lanes ?s1) = (l, ls)" by fastforce
  have h: "handled sha en s (?s1\<lparr>rt_lanes := ls\<rparr>)"
    by (rule calm_handled [OF calm_request_command handled_lanes [OF lane_ok_delegate [OF d]]])
  have "handled sha en s (terminate_command en ?c out (?s1\<lparr>rt_lanes := ls\<rparr>\<lparr>rt_journal := j\<rparr>))" for out j
    by (rule handled_calm [OF h calm_trans [OF calm_journal calm_terminate_command]])
  moreover have "handled sha en s (terminate_command en ?c out ?s1)" for out
    by (rule calm_is_handled [OF calm_trans [OF calm_request_command calm_terminate_command]])
  ultimately show ?thesis using d by (simp add: execute_delegate_def Let_def)
qed

lemma effects_of_preempt [simp]: "effects_of (map preempt_entry es) = effects_of es"
  by (induction es rule: effects_of.induct) simp_all

lemma queue_view_replace:
  assumes "jm_get m k = Some q" "rq_target q' = rq_target q" "effects_of (rq_entries q') = effects_of (rq_entries q)"
    "rq_pendingEffects q' = rq_pendingEffects q" "rq_quarantined q' = rq_quarantined q"
  shows "queue_view (jm_set k q' m) = queue_view m"
  using assms by (induction m) (auto simp: queue_view_def split: if_splits)

lemma handled_queues: "queue_view m = queue_view (rt_queues s) \<Longrightarrow> handled sha en s (s\<lparr>rt_queues := m\<rparr>)"
  by (simp add: handled_def memory_ok_def shrink_evolve shrink_evolve_approvals)

lemma handled_preempt: "handled sha en s (preempt_queued_automation en p s)"
proof (cases "jm_get (rt_queues s) (resource_key (resource_target_for_pane p s))")
  case None
  then show ?thesis by (simp add: preempt_queued_automation_def Let_def calm_is_handled)
next
  case (Some q)
  have "handled sha en s (set_queue k (q\<lparr>rq_entries := map preempt_entry (rq_entries q)\<rparr>) s)"
    if "jm_get (rt_queues s) k = Some q" for k
    unfolding set_queue_def by (rule handled_queues, rule queue_view_replace [OF that]) simp_all
  from this [OF Some] have "handled sha en s (fold (\<lambda>item. terminalize_item en item out) items
      (set_queue (resource_key (resource_target_for_pane p s)) (q\<lparr>rq_entries := map preempt_entry (rq_entries q)\<rparr>) s))" for out items
    by (rule handled_calm) (rule calm_fold, simp add: terminalize_item_def calm_terminate_command)
  with Some show ?thesis by (simp add: preempt_queued_automation_def Let_def)
qed

lemma handled_barrier: "handled sha en s (bump_pane_barrier p s)"
  by (simp add: bump_pane_barrier_def handled_def memory_ok_def shrink_evolve shrink_evolve_approvals)

text \<open>Two steps of which the first leaves the leases alone.\<close>

lemma handled_trans:
  "handled sha en a b \<Longrightarrow> leases_shrink (rt_leases a) (rt_leases b) \<Longrightarrow> handled sha en b c \<Longrightarrow> handled sha en a c"
  unfolding handled_def by (auto intro: shrink_then_evolve approvals_evolve_trans)

lemma terminalize_item_leases: "rt_leases (terminalize_item en item out s) = rt_leases s"
  by (simp add: terminalize_item_def terminate_command_def append_terminal_def remember_outcome_def
      retain_command_record_def Let_def split: option.split)

lemma preempt_leases: "rt_leases (preempt_queued_automation en p s) = rt_leases s"
proof -
  have "rt_leases (fold (\<lambda>item. terminalize_item en item out) items s) = rt_leases s" for items out s
    by (induction items arbitrary: s) (simp_all add: terminalize_item_leases)
  then show ?thesis by (simp add: preempt_queued_automation_def Let_def set_queue_def split: option.split)
qed

text \<open>The state of a takeover before the leases on the pane are revoked.\<close>

definition takeover_ready :: "rt_env \<Rightarrow> envelope \<Rightarrow> string \<Rightarrow> runtime \<Rightarrow> runtime" where
  "takeover_ready en m p s =
    (let s2 = preempt_queued_automation en p (bump_pane_barrier p (request_command (TakeoverCommand m p) s))
     in s2\<lparr>rt_lanes := snd (lane_takeover (en_clock en 0 0 0) p (cm_actorId m) (rt_lanes s2))\<rparr>)"

lemma handled_takeover_ready: "handled sha en s (takeover_ready en m p s)"
proof -
  let ?s1 = "request_command (TakeoverCommand m p) s"
  let ?s2 = "preempt_queued_automation en p (bump_pane_barrier p ?s1)"
  have h1: "handled sha en ?s1 ?s2"
    by (rule handled_trans [OF handled_barrier _ handled_preempt]) (simp add: bump_pane_barrier_def)
  have "handled sha en ?s2 (takeover_ready en m p s)"
    unfolding takeover_ready_def Let_def
    by (rule handled_lanes) (rule lane_ok_takeover, rule prod.collapse [symmetric])
  from handled_trans [OF h1 _ this] have "handled sha en ?s1 (takeover_ready en m p s)"
    by (simp add: preempt_leases bump_pane_barrier_def)
  with calm_request_command show ?thesis by (rule calm_handled)
qed

lemma takeover_eq:
  obtains out j where "execute_takeover en m p s = terminate_command en (TakeoverCommand m p) out
    ((case get_surface p (rt_surfaces (takeover_ready en m p s)) of
        Some (PaneSurface g x) \<Rightarrow> rt_revoke_target en 1 (SurfaceTarget PaneKind (pi_id x) g) (takeover_ready en m p s)
      | _ \<Rightarrow> takeover_ready en m p s)\<lparr>rt_journal := j\<rparr>)"
proof -
  obtain l ls where t: "lane_takeover (en_clock en 0 0 0) p (cm_actorId m)
      (rt_lanes (preempt_queued_automation en p (bump_pane_barrier p (request_command (TakeoverCommand m p) s)))) = (l, ls)"
    by fastforce
  then have ready: "takeover_ready en m p s =
      preempt_queued_automation en p (bump_pane_barrier p (request_command (TakeoverCommand m p) s))\<lparr>rt_lanes := ls\<rparr>"
    by (simp add: takeover_ready_def Let_def)
  show thesis by (rule that, unfold execute_takeover_def ready Let_def t prod.case, rule refl)
qed

lemma handled_takeover: "handled sha en s (execute_takeover en m p s)"
proof -
  have "calm sha (takeover_ready en m p s) (case get_surface p (rt_surfaces (takeover_ready en m p s)) of
      Some (PaneSurface g x) \<Rightarrow> rt_revoke_target en 1 (SurfaceTarget PaneKind (pi_id x) g) (takeover_ready en m p s)
    | _ \<Rightarrow> takeover_ready en m p s)" by (auto intro: calm_rt_revoke_target split: option.split surface.split)
  note c = calm_trans [OF this calm_trans [OF calm_journal calm_terminate_command]]
  obtain out j where e: "execute_takeover en m p s = terminate_command en (TakeoverCommand m p) out
    ((case get_surface p (rt_surfaces (takeover_ready en m p s)) of
        Some (PaneSurface g x) \<Rightarrow> rt_revoke_target en 1 (SurfaceTarget PaneKind (pi_id x) g) (takeover_ready en m p s)
      | _ \<Rightarrow> takeover_ready en m p s)\<lparr>rt_journal := j\<rparr>)" by (rule takeover_eq)
  show ?thesis unfolding e by (rule handled_calm [OF handled_takeover_ready c])
qed

lemma shrink_history: "cap_history now cs = (h, cs') \<Longrightarrow> leases_shrink cs cs'"
  by (auto simp: cap_history_def Let_def leases_shrink_def cap_ok_prune)

lemma calm_snapshot: "rt_snapshot en s = (v, s') \<Longrightarrow> calm sha s s'"
proof -
  assume r: "rt_snapshot en s = (v, s')"
  obtain ls cs where c: "cap_snapshot (en_clock en 0 0) (rt_leases s) = (ls, cs)" by fastforce
  let ?s1 = "refresh_with en 0 1 ls (s\<lparr>rt_leases := cs\<rparr>)"
  obtain h cs2 where h: "cap_history (en_clock en 0 3 0) (rt_leases ?s1) = (h, cs2)" by fastforce
  have "s' = ?s1\<lparr>rt_leases := cs2\<rparr>" using r c h by (auto simp: rt_snapshot_def Let_def)
  with calm_trans [OF calm_trans [OF calm_leases [OF shrink_snapshot [OF c]] calm_refresh_with] calm_leases [OF shrink_history [OF h]]]
  show ?thesis by simp
qed

section \<open>Immediate commands\<close>

lemma immediate_cases:
  obtains (refused) "calm sha s (execute_immediate_command en ic s)"
  | (called) s1 i where "calm sha s s1" "calm sha (s1\<lparr>rt_immediateEffects := rt_immediateEffects s @ [(ic, i)]\<rparr>) (execute_immediate_command en ic s)"
      "\<And>t l r. im_kind ic = OrchestrationCommand t l r \<Longrightarrow> s1 = request_command (ImmediateCommand ic) s \<and> subject_accepted en t (cm_actorId (im_envelope ic)) \<and>
         (\<exists>x. cap_assert (en_clock en 0 0) (orchestration_assertion (im_envelope ic) t l r) (rt_leases s) = (Inr x, rt_leases s))"
proof -
  let ?s0 = "request_command (ImmediateCommand ic) s"
  have c0: "calm sha s ?s0" by (rule calm_request_command)
  have leases: "rt_leases ?s0 = rt_leases s"
    by (simp add: request_command_def append_requested_def retain_command_record_def Let_def)
  have imm: "rt_immediateEffects ?s0 = rt_immediateEffects s" using calm_frame [OF c0] by simp
  show thesis
  proof (cases "im_kind ic")
    case OtherImmediate
    then have "execute_immediate_command en ic s = terminate_command en (ImmediateCommand ic) (plain_effect_outcome en)
        (?s0\<lparr>rt_immediateEffects := rt_immediateEffects s @ [(ic, None)]\<rparr>)"
      by (simp add: execute_immediate_command_def execute_started_immediate_def call_immediate_handler_def imm)
    with called [OF c0, of None] OtherImmediate calm_terminate_command show thesis by auto
  next
    case (OrchestrationCommand t l r)
    obtain q s1 where q: "assert_capability_lease en 0 (orchestration_assertion (im_envelope ic) t l r) ?s0 = (q, s1)" by fastforce
    show thesis
    proof (cases q)
      case (Inl e)
      then have "execute_immediate_command en ic s = terminate_command en (ImmediateCommand ic) (failed_outcome e) s1"
        using OrchestrationCommand q by (simp add: execute_immediate_command_def execute_started_immediate_def)
      with refused calm_trans [OF calm_trans [OF c0 assert_lease_calm [OF q]] calm_terminate_command] show thesis by simp
    next
      case (Inr u)
      with q have ok: "s1 = ?s0" "subject_accepted en t (cm_actorId (im_envelope ic))"
        "\<exists>x. cap_assert (en_clock en 0 0) (orchestration_assertion (im_envelope ic) t l r) (rt_leases s) = (Inr x, rt_leases s)"
        by (auto simp: assert_lease_Inr leases orchestration_assertion_def)
      let ?i = "derive_orchestration_operation_id (pf_sha (en_platform en)) (cm_key (im_envelope ic))"
      have "execute_immediate_command en ic s = terminate_command en (ImmediateCommand ic) (plain_effect_outcome en)
          (?s0\<lparr>rt_immediateEffects := rt_immediateEffects s @ [(ic, Some ?i)]\<rparr>)"
        using OrchestrationCommand q Inr ok(1)
        by (simp add: execute_immediate_command_def execute_started_immediate_def call_immediate_handler_def imm)
      with called [OF c0, of "Some ?i"] OrchestrationCommand ok calm_terminate_command show thesis by auto
    qed
  qed
qed

section \<open>Submission\<close>

definition cast_by_operator :: "rt_env \<Rightarrow> runtime_command \<Rightarrow> runtime \<Rightarrow> queued_effect \<Rightarrow> runtime \<Rightarrow> bool" where
  "cast_by_operator en c s q s1 \<longleftrightarrow>
    (\<exists>m i digest effect a x ap1 ap2. c = SurfaceCommand (ApprovalResolve m i digest True) \<and> cm_actorKind m = HumanActor \<and>
       jm_get (rt_pending s) i = Some (qe_context q) \<and> cx_effect (qe_context q) = Some effect \<and>
       approve (pf_sha (en_platform en)) i (cm_actorId m) digest (en_clock en 1 0 0) (rt_approvals s) = (Inr a, ap1) \<and>
       action_allowed en 2 (cx_command (qe_context q)) (cx_target (qe_context q))
         (pc_capability (cx_classification (qe_context q))) s \<and>
       consume (pf_sha (en_platform en)) (consume_value (ap_id a) digest (qe_context q) effect) (en_clock en 3 0 0) ap1 = (Inr x, ap2) \<and>
       qe_resolver q = Some m \<and> qe_approval q = Some (ap_id a) \<and>
       s1 = forget_pending (ap_id a) (append_requested (cm_id m) (cm_key m) s\<lparr>rt_approvals := ap2\<rparr>))"

lemma execute_surface_cases:
  assumes sha: "pf_sha (en_platform en) = sha"
  obtains (handled) "handled sha en s (execute_surface_command en cmd s)"
  | (free) s1 q where "calm sha s s1" "execute_surface_command en cmd s = enqueue_surface_effect en q s1"
      "qe_approval q = None" "pc_decision (cx_classification (qe_context q)) \<noteq> NeedsApproval"
  | (approved) s1 q where "cast_by_operator en (SurfaceCommand cmd) s q s1"
      "execute_surface_command en cmd s = enqueue_surface_effect en q s1"
proof -
  let ?m = "command_envelope cmd"
  let ?s1 = "append_requested (cm_id ?m) (cm_key ?m) s"
  have c1: "calm sha s ?s1" by (rule calm_append_requested)
  show thesis
  proof (cases "requires_operator cmd \<and> cm_actorKind ?m \<noteq> HumanActor")
    case True
    then have "execute_surface_command en cmd s = append_terminal en (cm_id ?m) (cm_key ?m) (Rejected ''operator_required'') None ?s1"
      by (simp add: execute_surface_command_def Let_def)
    with calm_is_handled [OF calm_trans [OF c1 calm_append_terminal]] handled show thesis by simp
  next
    case operator: False
    have base: "execute_surface_command en cmd s = (case cmd of
           SurfaceAction c \<Rightarrow> surface_action en c ?s1
         | ApprovalResolve m approvalId payloadDigest approving \<Rightarrow>
             resolve_approval en m approvalId payloadDigest approving ?s1
         | _ \<Rightarrow> (case simple_command en cmd ?s1 of
              (Inl e, s2) \<Rightarrow> append_terminal en (cm_id ?m) (cm_key ?m) (failed_outcome e) None s2
            | (Inr r, s2) \<Rightarrow> append_terminal en (cm_id ?m) (cm_key ?m) (Succeeded r) None s2))"
      unfolding execute_surface_command_def Let_def by (rule if_not_P [OF operator])
    have simple: thesis
      if "execute_surface_command en cmd s = (case simple_command en cmd ?s1 of
              (Inl e, s2) \<Rightarrow> append_terminal en (cm_id ?m) (cm_key ?m) (failed_outcome e) None s2
            | (Inr r, s2) \<Rightarrow> append_terminal en (cm_id ?m) (cm_key ?m) (Succeeded r) None s2)"
    proof -
      obtain r s2 where r: "simple_command en cmd ?s1 = (r, s2)" by fastforce
      from calm_handled [OF c1 handled_calm [OF handled_simple_command [OF r] calm_append_terminal]]
      have "handled sha en s (append_terminal en i k out None s2)" for i k out .
      with that r handled show thesis by (cases r) simp_all
    qed
    show thesis
    proof (cases cmd)
      case (SurfaceAction c)
      with operator have eq: "execute_surface_command en cmd s = surface_action en c ?s1"
        by (simp add: execute_surface_command_def Let_def requires_operator_def)
      from sha show thesis
      proof (cases rule: surface_action_cases [where s = ?s1 and c = c])
        case settled
        with calm_handled [OF c1] eq handled show thesis by simp
      next
        case (queued s2 q)
        with calm_trans [OF c1 queued(1)] eq free show thesis by simp
      qed
    next
      case (ApprovalResolve m i digest yes)
      with operator have eq: "execute_surface_command en cmd s = resolve_approval en m i digest yes ?s1"
        and human: "cm_actorKind m = HumanActor"
        by (simp_all add: execute_surface_command_def Let_def requires_operator_def)
      have same: "rt_pending ?s1 = rt_pending s" "rt_approvals ?s1 = rt_approvals s"
        "action_allowed en p x t cap ?s1 = action_allowed en p x t cap s" for p x t cap
        by (simp_all add: append_requested_def action_allowed_def)
      from sha show thesis
      proof (cases rule: resolve_approval_cases [where s = ?s1 and i = i and m = m and digest = digest and yes = yes])
        case settled
        with calm_handled [OF c1] eq handled show thesis by simp
      next
        case (queued ctx a effect x ap1 ap2)
        have "cast_by_operator en (SurfaceCommand cmd) s \<lparr>qe_context = ctx, qe_resolver = Some m, qe_approval = Some (ap_id a)\<rparr>
            (forget_pending (ap_id a) (?s1\<lparr>rt_approvals := ap2\<rparr>))"
          unfolding cast_by_operator_def using queued(1-6) human ApprovalResolve sha same
          by (intro exI [of _ m] exI [of _ i] exI [of _ digest] exI [of _ effect] exI [of _ a] exI [of _ x]
              exI [of _ ap1] exI [of _ ap2]) simp
        with approved queued(7) eq show thesis by simp
      qed
    qed (rule simple, subst base, simp)+
  qed
qed

lemma submit_cases:
  assumes sha: "pf_sha (en_platform en) = sha"
  obtains (handled) "handled sha en (prune_inactive_resource_queues s) (submit en c s)"
  | (free) s1 q where "calm sha (prune_inactive_resource_queues s) s1" "submit en c s = enqueue_surface_effect en q s1"
      "qe_approval q = None" "pc_decision (cx_classification (qe_context q)) \<noteq> NeedsApproval"
  | (approved) s1 q where "cast_by_operator en c (prune_inactive_resource_queues s) q s1"
      "submit en c s = enqueue_surface_effect en q s1"
  | (pane) pc where "c = PaneCommand pc" "submit en c s = enqueue_pane_command pc (prune_inactive_resource_queues s)"
  | (immediate) ic where "c = ImmediateCommand ic"
      "submit en c s = execute_immediate_command en ic (prune_inactive_resource_queues s)"
proof -
  let ?s = "prune_inactive_resource_queues s"
  have refused: "handled sha en ?s ?s" "handled sha en ?s (remember_outcome k out ?s)" for k out
    by (simp_all add: calm_is_handled calm_remember_outcome)
  show thesis
  proof (cases "submit en c s = ?s \<or> (\<exists>k out. submit en c s = remember_outcome k out ?s)")
    case True
    with refused handled show thesis by auto
  next
    case False
    then have eq: "submit en c s = submit_fresh en c ?s"
      by (auto simp: submit_def Let_def split: if_splits option.splits)
    let ?m = "runtime_envelope c"
    show thesis
    proof (cases "cm_ownerEpoch ?m < rt_ownerEpoch ?s \<or> is_surface_control c \<and> cm_ownerEpoch ?m \<noteq> rt_ownerEpoch ?s")
      case True
      then have "submit_fresh en c ?s = reject_stale_owner_epoch en c ?s" by (simp add: submit_fresh_def Let_def)
      with eq calm_is_handled [OF calm_trans [OF calm_request_command calm_terminate_command]] handled show thesis
        by (simp add: reject_stale_owner_epoch_def)
    next
      case False
      note fresh = eq [unfolded submit_fresh_def Let_def, unfolded if_not_P [OF False]]
      show thesis
      proof (cases c)
        case (SurfaceCommand cmd)
        with fresh have e: "submit en c s = execute_surface_command en cmd ?s" by simp
        from sha show thesis
        proof (cases rule: execute_surface_cases [where s = ?s and cmd = cmd])
          case handled
          with e that(1) show thesis by simp
        next
          case (free s1 q)
          with e that(2) show thesis by simp
        next
          case (approved s1 q)
          with e that(3) SurfaceCommand show thesis by simp
        qed
      next
        case (DelegateCommand m p a t ttl)
        with fresh have "submit en c s = execute_delegate en m p a t ttl ?s" by simp
        with handled handled_delegate show thesis by simp
      next
        case (TakeoverCommand m p)
        with fresh have "submit en c s = execute_takeover en m p ?s" by simp
        with handled handled_takeover show thesis by simp
      next
        case (PaneCommand pc)
        with fresh pane show thesis by simp
      next
        case (ImmediateCommand ic)
        with fresh immediate show thesis by simp
      qed
    qed
  qed
qed

end
