(* ===== verification/RuntimeSafety.thy ===== *)
theory RuntimeSafety
  imports RuntimeSteps
begin

text \<open>
  The invariant of the control runtime over any interleaving of submissions, queue turns, snapshots
  and changes of the surface registry, and the safety properties that rest on it.
\<close>

section \<open>The invariant\<close>

text \<open>
  An effect that needs approval carries the approval that was consumed for it and the operator who
  gave it. \<open>approval_uses i\<close> counts the effects, waiting or executed, that carry approval \<open>i\<close>.
\<close>

definition gate_ok :: "queued_effect \<Rightarrow> bool" where
  "gate_ok q \<longleftrightarrow>
    (case qe_approval q of
       None \<Rightarrow> pc_decision (cx_classification (qe_context q)) \<noteq> NeedsApproval
     | Some i \<Rightarrow> \<exists>m. qe_resolver q = Some m \<and> cm_actorKind m = HumanActor)"

definition queue_ok :: "string \<Rightarrow> resource_queue \<Rightarrow> bool" where
  "queue_ok k q \<longleftrightarrow> k = resource_key (rq_target q) \<and>
     (\<forall>e \<in> set (effects_of (rq_entries q)). cx_target (qe_context e) = rq_target q \<and> gate_ok e) \<and>
     rq_pendingEffects q = length (effects_of (rq_entries q)) \<and>
     rq_pendingEffects q \<le> resourceQueueDepth AGENT_CONTROL_LIMITS"

definition effect_uses :: "string \<Rightarrow> queued_effect list \<Rightarrow> nat" where
  "effect_uses i es = length (filter (\<lambda>e. qe_approval e = Some i) es)"

definition queue_uses :: "string \<Rightarrow> (string, resource_queue) jsmap \<Rightarrow> nat" where
  "queue_uses i m = (\<Sum>(k, q) \<leftarrow> m. effect_uses i (effects_of (rq_entries q)))"

definition approval_uses :: "string \<Rightarrow> runtime \<Rightarrow> nat" where
  "approval_uses i s = queue_uses i (rt_queues s) + effect_uses i (rt_effects s)"

definition queues_ok :: "(string, resource_queue) jsmap \<Rightarrow> bool" where
  "queues_ok m \<longleftrightarrow> jm_ok m \<and> (\<forall>k q. jm_get m k = Some q \<longrightarrow> queue_ok k q)"

definition stores_ok :: "(string \<Rightarrow> string) \<Rightarrow> runtime \<Rightarrow> bool" where
  "stores_ok sha s \<longleftrightarrow> memory_ok s \<and> cap_ok (rt_leases s) \<and> approvals_ok sha (rt_approvals s) \<and>
     lane_ok (rt_lanes s) \<and> surface_ok (rt_surfaces s) \<and> cs_ownerEpoch (rt_leases s) = rt_ownerEpoch s"

definition runtime_ok :: "(string \<Rightarrow> string) \<Rightarrow> runtime \<Rightarrow> bool" where
  "runtime_ok sha s \<longleftrightarrow> stores_ok sha s \<and> queues_ok (rt_queues s) \<and> list_all gate_ok (rt_effects s) \<and>
     (\<forall>i. approval_uses i s \<le> 1 \<and> (0 < approval_uses i s \<longrightarrow> approval_live (rt_approvals s) i = None))"

lemma runtime_okI:
  assumes "stores_ok sha s" "queues_ok (rt_queues s)" "list_all gate_ok (rt_effects s)"
    "\<And>i. approval_uses i s \<le> 1" "\<And>i. 0 < approval_uses i s \<Longrightarrow> approval_live (rt_approvals s) i = None"
  shows "runtime_ok sha s"
  using assms by (simp add: runtime_ok_def)

lemma runtime_okD:
  assumes "runtime_ok sha s"
  shows "stores_ok sha s" "queues_ok (rt_queues s)" "list_all gate_ok (rt_effects s)"
    "approval_uses i s \<le> 1" "0 < approval_uses i s \<Longrightarrow> approval_live (rt_approvals s) i = None"
  using assms by (simp_all add: runtime_ok_def)

lemma runtime_ok_init: "runtime_ok sha (runtime_init epoch)"
  by (simp add: runtime_ok_def runtime_init_def stores_ok_def memory_ok_def queues_ok_def approval_uses_def
      queue_uses_def effect_uses_def cap_ok_init approvals_ok_init lane_ok_init surface_ok_init)
    (simp add: cap_init_def)

section \<open>Queues\<close>

lemma queues_okD: "queues_ok m \<Longrightarrow> jm_get m k = Some q \<Longrightarrow> queue_ok k q"
  by (simp add: queues_ok_def)

lemma queues_ok_set: "queues_ok m \<Longrightarrow> queue_ok k q \<Longrightarrow> queues_ok (jm_set k q m)"
  by (auto simp: queues_ok_def distinct_update split: if_splits)

lemma queues_ok_filter: "queues_ok m \<Longrightarrow> queues_ok (filter P m)"
  by (auto simp: queues_ok_def jm_get_filter split: option.splits if_splits)

lemma queues_ok_delete: "queues_ok m \<Longrightarrow> queues_ok (jm_delete k m)"
  by (auto simp: queues_ok_def split: if_splits)

lemma queue_uses_set:
  "jm_get m k = Some q \<Longrightarrow> queue_uses i (jm_set k q' m) + effect_uses i (effects_of (rq_entries q)) =
     queue_uses i m + effect_uses i (effects_of (rq_entries q'))"
  by (induction m) (auto simp: queue_uses_def)

lemma queue_uses_new:
  "jm_get m k = None \<Longrightarrow> queue_uses i (jm_set k q' m) = queue_uses i m + effect_uses i (effects_of (rq_entries q'))"
  by (induction m) (auto simp: queue_uses_def split: if_splits)

lemma queue_uses_filter: "queue_uses i (filter P m) \<le> queue_uses i m"
  by (induction m) (auto simp: queue_uses_def)

lemma queue_uses_delete: "queue_uses i (jm_delete k m) \<le> queue_uses i m"
  by (induction m) (auto simp: queue_uses_def)

lemma queue_view_uses: "queue_view m' = queue_view m \<Longrightarrow> queue_uses i m' = queue_uses i m"
proof (induction m arbitrary: m')
  case Nil
  then show ?case by (simp add: queue_view_def)
next
  case (Cons x m)
  then obtain x' n where m': "m' = x' # n" by (cases m') (auto simp: queue_view_def)
  with Cons.prems have "queue_view n = queue_view m" "effects_of (rq_entries (snd x')) = effects_of (rq_entries (snd x))"
    by (auto simp: queue_view_def split: prod.splits)
  with Cons.IH [of n] m' show ?case by (auto simp: queue_uses_def split: prod.splits)
qed

lemma queue_view_get:
  assumes "queue_view m' = queue_view m"
  shows "(case jm_get m' k of None \<Rightarrow> jm_get m k = None
    | Some q' \<Rightarrow> \<exists>q. jm_get m k = Some q \<and> rq_target q' = rq_target q \<and> effects_of (rq_entries q') = effects_of (rq_entries q) \<and>
        rq_pendingEffects q' = rq_pendingEffects q \<and> rq_quarantined q' = rq_quarantined q)"
  using assms
proof (induction m arbitrary: m')
  case Nil
  then show ?case by (simp add: queue_view_def)
next
  case (Cons x m)
  then obtain x' n where m': "m' = x' # n" by (cases m') (auto simp: queue_view_def)
  with Cons.prems have "queue_view n = queue_view m" "fst x' = fst x" "rq_target (snd x') = rq_target (snd x)"
    "effects_of (rq_entries (snd x')) = effects_of (rq_entries (snd x))"
    "rq_pendingEffects (snd x') = rq_pendingEffects (snd x)" "rq_quarantined (snd x') = rq_quarantined (snd x)"
    by (auto simp: queue_view_def split: prod.splits)
  with Cons.IH [of n] m' show ?case by (cases x; cases x') (auto split: option.splits)
qed

lemma queue_view_keys: "queue_view m' = queue_view m \<Longrightarrow> map fst m' = map fst m"
proof -
  have "map fst m = map fst (queue_view m)" for m by (induction m) (auto simp: queue_view_def)
  then show "queue_view m' = queue_view m \<Longrightarrow> map fst m' = map fst m" by metis
qed

lemma queue_view_ok: "queue_view m' = queue_view m \<Longrightarrow> queues_ok m \<Longrightarrow> queues_ok m'"
proof -
  assume v: "queue_view m' = queue_view m" and ok: "queues_ok m"
  have "queue_ok k q'" if "jm_get m' k = Some q'" for k q'
  proof -
    from queue_view_get [OF v, of k] that obtain q where q: "jm_get m k = Some q" and "rq_target q' = rq_target q"
      "effects_of (rq_entries q') = effects_of (rq_entries q)" "rq_pendingEffects q' = rq_pendingEffects q" by auto
    with queues_okD [OF ok q] show ?thesis by (simp add: queue_ok_def)
  qed
  with ok queue_view_keys [OF v] show ?thesis by (simp add: queues_ok_def)
qed

text \<open>Steps that add no effect keep the invariant.\<close>

definition fresh_env :: "rt_env \<Rightarrow> runtime \<Rightarrow> bool" where
  "fresh_env en s \<longleftrightarrow> en_leaseId en \<noteq> [] \<and> jm_get (cs_leases (rt_leases s)) (en_leaseId en) = None \<and>
     approval_uses (en_approvalId en) s = 0"

lemma stores_ok_handled:
  assumes "stores_ok sha s" "handled sha en s s'" "en_leaseId en \<noteq> []"
    "jm_get (cs_leases (rt_leases s)) (en_leaseId en) = None"
  shows "stores_ok sha s'"
  using assms by (auto simp: stores_ok_def handled_def leases_evolve_def approvals_evolve_def)

lemma runtime_ok_handled:
  assumes ok: "runtime_ok sha s" and h: "handled sha en s s'" and fresh: "fresh_env en s"
  shows "runtime_ok sha s'"
proof (rule runtime_okI)
  show "stores_ok sha s'"
    using stores_ok_handled [OF runtime_okD(1) [OF ok] h] fresh by (simp add: fresh_env_def)
  have v: "queue_view (rt_queues s') = queue_view (rt_queues s)" and e: "rt_effects s' = rt_effects s"
    using h by (simp_all add: handled_def)
  show "queues_ok (rt_queues s')" by (rule queue_view_ok [OF v runtime_okD(2) [OF ok]])
  show "list_all gate_ok (rt_effects s')" using runtime_okD(3) [OF ok] e by simp
  have u: "approval_uses i s' = approval_uses i s" for i
    by (simp add: approval_uses_def queue_view_uses [OF v] e)
  show "approval_uses i s' \<le> 1" for i using runtime_okD(4) [OF ok] u by simp
  show "approval_live (rt_approvals s') i = None" if "0 < approval_uses i s'" for i
  proof -
    have used: "0 < approval_uses i s" using that u by simp
    then have "i \<noteq> en_approvalId en" using fresh by (auto simp: fresh_env_def)
    moreover have "approval_live (rt_approvals s) i = None" by (rule runtime_okD(5) [OF ok used])
    moreover have "approvals_ok sha (rt_approvals s)" using runtime_okD(1) [OF ok] by (simp add: stores_ok_def)
    ultimately show ?thesis using h by (auto simp: handled_def approvals_evolve_def)
  qed
qed

lemma calm_uses: "calm sha s s' \<Longrightarrow> approval_uses i s' = approval_uses i s"
  by (simp add: approval_uses_def calm_frame)

lemma stores_ok_calm: "stores_ok sha s \<Longrightarrow> calm sha s s' \<Longrightarrow> stores_ok sha s'"
  by (auto simp: stores_ok_def calm_def rt_frame_def leases_shrink_def approvals_shrink_def)

lemma runtime_ok_calm:
  assumes ok: "runtime_ok sha s" and c: "calm sha s s'"
  shows "runtime_ok sha s'"
proof (rule runtime_okI)
  show "stores_ok sha s'" by (rule stores_ok_calm [OF runtime_okD(1) [OF ok] c])
  show "queues_ok (rt_queues s')" "list_all gate_ok (rt_effects s')" "\<And>i. approval_uses i s' \<le> 1"
    using runtime_okD(2-4) [OF ok] by (simp_all add: calm_frame [OF c] calm_uses [OF c])
  fix i assume "0 < approval_uses i s'"
  then have "approval_live (rt_approvals s) i = None" using runtime_okD(5) [OF ok] by (simp add: calm_uses [OF c])
  moreover have "approvals_ok sha (rt_approvals s)" using runtime_okD(1) [OF ok] by (simp add: stores_ok_def)
  ultimately show "approval_live (rt_approvals s') i = None"
    using c by (cases "approval_live (rt_approvals s') i") (auto simp: calm_def approvals_shrink_def)
qed

lemma runtime_ok_queues:
  assumes ok: "runtime_ok sha s" and q: "queues_ok m" and u: "\<And>i. queue_uses i m \<le> queue_uses i (rt_queues s)"
  shows "runtime_ok sha (s\<lparr>rt_queues := m\<rparr>)"
proof (rule runtime_okI)
  have le: "approval_uses i (s\<lparr>rt_queues := m\<rparr>) \<le> approval_uses i s" for i using u by (simp add: approval_uses_def)
  show "stores_ok sha (s\<lparr>rt_queues := m\<rparr>)" using runtime_okD(1) [OF ok] by (simp add: stores_ok_def memory_ok_def)
  show "queues_ok (rt_queues (s\<lparr>rt_queues := m\<rparr>))" using q by simp
  show "list_all gate_ok (rt_effects (s\<lparr>rt_queues := m\<rparr>))" using runtime_okD(3) [OF ok] by simp
  show "approval_uses i (s\<lparr>rt_queues := m\<rparr>) \<le> 1" for i using le_trans [OF le runtime_okD(4) [OF ok]] .
  show "approval_live (rt_approvals (s\<lparr>rt_queues := m\<rparr>)) i = None" if "0 < approval_uses i (s\<lparr>rt_queues := m\<rparr>)" for i
    using runtime_okD(5) [OF ok, of i] less_le_trans [OF that le] by simp
qed

section \<open>Entering and leaving a queue\<close>

lemma effects_of_append [simp]: "effects_of (xs @ ys) = effects_of xs @ effects_of ys"
  by (induction xs rule: effects_of.induct) simp_all

lemma effect_uses_simps [simp]:
  "effect_uses i [] = 0"
  "effect_uses i (e # es) = (if qe_approval e = Some i then 1 else 0) + effect_uses i es"
  "effect_uses i (es @ es') = effect_uses i es + effect_uses i es'"
  by (simp_all add: effect_uses_def)

lemma queue_for_resource_ok:
  assumes ok: "runtime_ok sha s" and q: "queue_for_resource t s = (q, s1)"
  shows "runtime_ok sha s1" "jm_get (rt_queues s1) (resource_key t) = Some q" "queue_ok (resource_key t) q"
    "rq_target q = t" "approval_uses i s1 = approval_uses i s" "rt_approvals s1 = rt_approvals s"
    "rt_effects s1 = rt_effects s" "queues_ok (rt_queues s1)"
proof -
  have "runtime_ok sha s1 \<and> jm_get (rt_queues s1) (resource_key t) = Some q \<and> approval_uses i s1 = approval_uses i s \<and>
      rt_approvals s1 = rt_approvals s \<and> rt_effects s1 = rt_effects s"
  proof (cases "jm_get (rt_queues s) (resource_key t)")
    case None
    with q have s1: "s1 = s\<lparr>rt_queues := jm_set (resource_key t) (new_queue t) (rt_queues s)\<rparr>" "q = new_queue t"
      by (auto simp: queue_for_resource_def)
    have new: "queue_ok (resource_key t) (new_queue t)" by (simp add: queue_ok_def new_queue_def)
    have u: "queue_uses i (jm_set (resource_key t) (new_queue t) (rt_queues s)) = queue_uses i (rt_queues s)" for i
      by (simp add: queue_uses_new [OF None] new_queue_def)
    have "runtime_ok sha s1"
      unfolding s1(1) by (rule runtime_ok_queues [OF ok queues_ok_set [OF runtime_okD(2) [OF ok] new]]) (simp add: u)
    with s1 u show ?thesis by (simp add: approval_uses_def)
  next
    case (Some q')
    with q ok show ?thesis by (simp add: queue_for_resource_def)
  qed
  then show a: "runtime_ok sha s1" "jm_get (rt_queues s1) (resource_key t) = Some q" "approval_uses i s1 = approval_uses i s"
    "rt_approvals s1 = rt_approvals s" "rt_effects s1 = rt_effects s" by simp_all
  show k: "queue_ok (resource_key t) q" by (rule queues_okD [OF runtime_okD(2) [OF a(1)] a(2)])
  then show "rq_target q = t" by (simp add: queue_ok_def resource_key_inj)
  show "queues_ok (rt_queues s1)" by (rule runtime_okD(2) [OF a(1)])
qed

lemma calm_finish: "calm sha s (finish_effect en q r s)"
  unfolding finish_effect_def complete_effect_def Let_def
  by (auto split: option.split intro: calm_trans [OF calm_remember_receipt calm_append_terminal]
      calm_trans [OF calm_trans [OF calm_remember_receipt calm_append_terminal] calm_append_terminal])

lemma runtime_ok_enqueue:
  assumes ok: "runtime_ok sha s" and gate: "gate_ok e"
    and unused: "\<And>i. qe_approval e = Some i \<Longrightarrow> approval_uses i s = 0 \<and> approval_live (rt_approvals s) i = None"
  shows "runtime_ok sha (enqueue_surface_effect en e s)"
proof -
  let ?t = "cx_target (qe_context e)"
  let ?k = "resource_key ?t"
  obtain q s1 where q: "queue_for_resource ?t s = (q, s1)" by fastforce
  note s1 = queue_for_resource_ok [OF ok q]
  show ?thesis
  proof (cases "rq_quarantined q \<or> resourceQueueDepth AGENT_CONTROL_LIMITS \<le> rq_pendingEffects q")
    case True
    then obtain r where "enqueue_surface_effect en e s = finish_effect en e r s1"
      using q by (cases "rq_quarantined q") (simp_all add: enqueue_surface_effect_def Let_def)
    with runtime_ok_calm [OF s1(1) calm_finish] show ?thesis by simp
  next
    case False
    let ?q = "q\<lparr>rq_pendingEffects := rq_pendingEffects q + 1, rq_entries := rq_entries q @ [EffectEntry e]\<rparr>"
    let ?m = "jm_set ?k ?q (rt_queues s1)"
    have eq: "enqueue_surface_effect en e s = s1\<lparr>rt_queues := ?m\<rparr>"
      using False q by (simp add: enqueue_surface_effect_def Let_def set_queue_def)
    have u: "approval_uses i (s1\<lparr>rt_queues := ?m\<rparr>) = approval_uses i s + effect_uses i [e]" for i
      using queue_uses_set [OF s1(2), of i ?q] s1(5) [of i] by (simp add: approval_uses_def)
    show ?thesis unfolding eq
    proof (rule runtime_okI)
      show "stores_ok sha (s1\<lparr>rt_queues := ?m\<rparr>)" using runtime_okD(1) [OF s1(1)] by (simp add: stores_ok_def memory_ok_def)
      have "queue_ok ?k ?q" using s1(3,4) False gate by (auto simp: queue_ok_def)
      then show "queues_ok (rt_queues (s1\<lparr>rt_queues := ?m\<rparr>))" using queues_ok_set [OF s1(8)] by simp
      show "list_all gate_ok (rt_effects (s1\<lparr>rt_queues := ?m\<rparr>))" using runtime_okD(3) [OF s1(1)] by simp
      show "approval_uses i (s1\<lparr>rt_queues := ?m\<rparr>) \<le> 1" for i
        unfolding u using unused [of i] runtime_okD(4) [OF ok, of i] by auto
      show "approval_live (rt_approvals (s1\<lparr>rt_queues := ?m\<rparr>)) i = None"
        if "0 < approval_uses i (s1\<lparr>rt_queues := ?m\<rparr>)" for i
        using that unused [of i] runtime_okD(5) [OF ok, of i] unfolding u by (auto simp: s1(6) split: if_splits)
    qed
  qed
qed

lemma prune_queue_le:
  assumes "queues_ok (rt_queues s)"
  obtains m where "prune_resource_queue k s = s\<lparr>rt_queues := m\<rparr>" "queues_ok m" "\<And>i. queue_uses i m \<le> queue_uses i (rt_queues s)"
proof (cases "prune_resource_queue k s = s")
  case True
  with assms that [of "rt_queues s"] show thesis by simp
next
  case False
  then have "prune_resource_queue k s = s\<lparr>rt_queues := jm_delete k (rt_queues s)\<rparr>"
    by (auto simp: prune_resource_queue_def split: option.splits if_splits)
  with that queues_ok_delete [OF assms] queue_uses_delete show thesis by blast
qed

lemma replace_and_prune:
  assumes ok: "queues_ok (rt_queues s)" and q: "jm_get (rt_queues s) k = Some q" and q': "queue_ok k q'"
  obtains m where "prune_resource_queue k (set_queue k q' s) = s\<lparr>rt_queues := m\<rparr>" "queues_ok m"
    "\<And>i. queue_uses i m + effect_uses i (effects_of (rq_entries q)) \<le>
       queue_uses i (rt_queues s) + effect_uses i (effects_of (rq_entries q'))"
proof -
  let ?s = "set_queue k q' s"
  have "queues_ok (rt_queues ?s)" using queues_ok_set [OF ok q'] by (simp add: set_queue_def)
  then obtain m where m: "prune_resource_queue k ?s = ?s\<lparr>rt_queues := m\<rparr>" "queues_ok m"
    "\<And>i. queue_uses i m \<le> queue_uses i (rt_queues ?s)" by (rule prune_queue_le) blast
  have "queue_uses i m + effect_uses i (effects_of (rq_entries q)) \<le>
       queue_uses i (rt_queues s) + effect_uses i (effects_of (rq_entries q'))" for i
    using m(3) [of i] queue_uses_set [OF q, of i q'] by (simp add: set_queue_def)
  with that [of m] m show thesis by (simp add: set_queue_def)
qed

lemma leave_queue_cases:
  assumes ok: "queues_ok (rt_queues s)" and q: "jm_get (rt_queues s) k = Some q" and h: "rq_entries q = EffectEntry e # rest"
  obtains m where "leave_queue k b s = s\<lparr>rt_queues := m\<rparr>" "queues_ok m"
    "\<And>i. queue_uses i m + effect_uses i [e] \<le> queue_uses i (rt_queues s)"
proof -
  let ?q = "q\<lparr>rq_pendingEffects := rq_pendingEffects q - 1, rq_entries := tl (rq_entries q),
              rq_quarantined := (rq_quarantined q \<or> b)\<rparr>"
  have "queue_ok k ?q" using queues_okD [OF ok q] h by (auto simp: queue_ok_def)
  from replace_and_prune [OF ok q this] obtain m where m: "prune_resource_queue k (set_queue k ?q s) = s\<lparr>rt_queues := m\<rparr>" "queues_ok m"
    "\<And>i. queue_uses i m + effect_uses i (effects_of (rq_entries q)) \<le> queue_uses i (rt_queues s) + effect_uses i (effects_of (rq_entries ?q))"
    by blast
  have "queue_uses i m + effect_uses i [e] \<le> queue_uses i (rt_queues s)" for i
    using m(3) [of i] h by simp
  with m that q show thesis by (simp add: leave_queue_def)
qed

lemma leave_pane_queue_cases:
  assumes ok: "queues_ok (rt_queues s)" and q: "jm_get (rt_queues s) k = Some q" and h: "rq_entries q = PaneEntry item # rest"
  obtains m where "leave_pane_queue k s = s\<lparr>rt_queues := m\<rparr>" "queues_ok m"
    "\<And>i. queue_uses i m \<le> queue_uses i (rt_queues s)"
proof -
  let ?q = "q\<lparr>rq_entries := tl (rq_entries q)\<rparr>"
  have "queue_ok k ?q" using queues_okD [OF ok q] h by (auto simp: queue_ok_def)
  from replace_and_prune [OF ok q this] obtain m where m: "prune_resource_queue k (set_queue k ?q s) = s\<lparr>rt_queues := m\<rparr>" "queues_ok m"
    "\<And>i. queue_uses i m + effect_uses i (effects_of (rq_entries q)) \<le> queue_uses i (rt_queues s) + effect_uses i (effects_of (rq_entries ?q))"
    by blast
  from m(3) have "queue_uses i m \<le> queue_uses i (rt_queues s)" for i using h by simp
  with m that q show thesis by (simp add: leave_pane_queue_def)
qed

section \<open>Every step keeps the invariant\<close>

lemma runtime_ok_logs:
  "runtime_ok sha (s\<lparr>rt_paneEffects := x\<rparr>) \<longleftrightarrow> runtime_ok sha s"
  "runtime_ok sha (s\<lparr>rt_immediateEffects := y\<rparr>) \<longleftrightarrow> runtime_ok sha s"
  by (simp_all add: runtime_ok_def stores_ok_def memory_ok_def approval_uses_def)

lemma runtime_ok_enqueue_pane:
  assumes "runtime_ok sha s"
  shows "runtime_ok sha (enqueue_pane_command pc s)"
proof -
  let ?t = "resource_target_for_pane (pc_paneId pc) s"
  obtain q s1 where q: "queue_for_resource ?t s = (q, s1)" by fastforce
  note s1 = queue_for_resource_ok [OF assms q]
  obtain item where eq: "enqueue_pane_command pc s = request_command (PaneCommand pc)
      (set_queue (resource_key ?t) (q\<lparr>rq_entries := rq_entries q @ [PaneEntry item]\<rparr>) s1)"
    using q by (simp add: enqueue_pane_command_def Let_def)
  let ?q = "q\<lparr>rq_entries := rq_entries q @ [PaneEntry item]\<rparr>"
  have v: "queue_view (jm_set (resource_key ?t) ?q (rt_queues s1)) = queue_view (rt_queues s1)"
    by (rule queue_view_replace [OF s1(2)]) simp_all
  have "runtime_ok sha (set_queue (resource_key ?t) ?q s1)"
    unfolding set_queue_def
    by (rule runtime_ok_queues [OF s1(1) queue_view_ok [OF v s1(8)]]) (simp add: queue_view_uses [OF v])
  with eq runtime_ok_calm [OF _ calm_request_command] show ?thesis by simp
qed

lemma run_surface_effect_cases:
  obtains (refused) e s1 r where "revalidate en (qe_context q) s = (Inl e, s1)"
      "run_surface_effect en q s = finish_effect en q r (leave_queue (resource_key (cx_target (qe_context q))) False s1)"
  | (executed) u r b where "revalidate en (qe_context q) s = (Inr u, s)"
      "run_surface_effect en q s = finish_effect en q r
         (leave_queue (resource_key (cx_target (qe_context q))) b (s\<lparr>rt_effects := rt_effects s @ [q]\<rparr>))"
proof (cases "revalidate en (qe_context q) s")
  case (Pair v s1)
  show thesis
  proof (cases v)
    case (Inl e)
    from refused [of e s1] Pair Inl show thesis by (simp add: run_surface_effect_def Let_def)
  next
    case (Inr u)
    from Pair Inr have "s1 = s" using revalidate_Inr(1) by simp
    with executed Pair Inr show thesis by (simp add: run_surface_effect_def Let_def)
  qed
qed

text \<open>A turn moves the head out of its queue, perhaps to the log, in a state that is otherwise calm.\<close>

lemma run_effect_moves:
  assumes ok: "runtime_ok sha s" and q: "jm_get (rt_queues s) k = Some rq" and h: "rq_entries rq = EffectEntry e # rest"
  obtains (moves) s1 es m r where "calm sha s s1"
    "run_surface_effect en e s = finish_effect en e r (s1\<lparr>rt_effects := rt_effects s1 @ es, rt_queues := m\<rparr>)"
    "es = [] \<or> es = [e]" "queues_ok m" "\<And>i. queue_uses i m + effect_uses i [e] \<le> queue_uses i (rt_queues s1)"
proof -
  have "queue_ok k rq" by (rule queues_okD [OF runtime_okD(2) [OF ok] q])
  then have key: "resource_key (cx_target (qe_context e)) = k" using h by (auto simp: queue_ok_def)
  have leaves: thesis if c: "calm sha s s1" and es: "es = [] \<or> es = [e]"
    and eq: "run_surface_effect en e s = finish_effect en e r (leave_queue k b (s1\<lparr>rt_effects := rt_effects s1 @ es\<rparr>))" for s1 es r b
  proof -
    let ?s = "s1\<lparr>rt_effects := rt_effects s1 @ es\<rparr>"
    have "queues_ok (rt_queues ?s)" "jm_get (rt_queues ?s) k = Some rq"
      using runtime_okD(2) [OF runtime_ok_calm [OF ok c]] q by (simp_all add: calm_frame [OF c])
    from leave_queue_cases [OF this h, of b] obtain m
      where m: "leave_queue k b ?s = ?s\<lparr>rt_queues := m\<rparr>" "queues_ok m"
        "\<And>i. queue_uses i m + effect_uses i [e] \<le> queue_uses i (rt_queues ?s)" by blast
    have eq': "run_surface_effect en e s = finish_effect en e r (s1\<lparr>rt_effects := rt_effects s1 @ es, rt_queues := m\<rparr>)"
      unfolding eq m(1) by simp
    show thesis by (rule moves [OF c eq' es m(2)]) (use m(3) in simp)
  qed
  show thesis
  proof (cases rule: run_surface_effect_cases [of en e s])
    case (refused x s1 r)
    with key leaves [OF revalidate_calm [OF refused(1)], of "[]" r False] show thesis by simp
  next
    case (executed u r b)
    with key leaves [OF calm_refl, of "[e]" r b] show thesis by simp
  qed
qed

lemma run_effect_uses:
  assumes "runtime_ok sha s" "jm_get (rt_queues s) k = Some rq" "rq_entries rq = EffectEntry e # rest"
  shows "approval_uses i (run_surface_effect en e s) \<le> approval_uses i s"
proof -
  obtain s1 es m r where c: "calm sha s s1"
    and eq: "run_surface_effect en e s = finish_effect en e r (s1\<lparr>rt_effects := rt_effects s1 @ es, rt_queues := m\<rparr>)"
    and es: "es = [] \<or> es = [e]" and m: "\<And>i. queue_uses i m + effect_uses i [e] \<le> queue_uses i (rt_queues s1)"
    by (rule run_effect_moves [OF assms]) blast
  have "approval_uses i (s1\<lparr>rt_effects := rt_effects s1 @ es, rt_queues := m\<rparr>) \<le> approval_uses i s1"
    using es m [of i] by (auto simp: approval_uses_def)
  then show ?thesis unfolding eq calm_uses [OF calm_finish [of sha]] by (simp add: calm_uses [OF c])
qed

lemma runtime_ok_run_effect:
  assumes ok: "runtime_ok sha s" and q: "jm_get (rt_queues s) k = Some rq" and h: "rq_entries rq = EffectEntry e # rest"
  shows "runtime_ok sha (run_surface_effect en e s)"
proof -
  obtain s1 es m r where c: "calm sha s s1"
    and eq: "run_surface_effect en e s = finish_effect en e r (s1\<lparr>rt_effects := rt_effects s1 @ es, rt_queues := m\<rparr>)"
    and es: "es = [] \<or> es = [e]" and m: "queues_ok m" "\<And>i. queue_uses i m + effect_uses i [e] \<le> queue_uses i (rt_queues s1)"
    by (rule run_effect_moves [OF assms]) blast
  let ?s = "s1\<lparr>rt_effects := rt_effects s1 @ es, rt_queues := m\<rparr>"
  have gate: "gate_ok e" using queues_okD [OF runtime_okD(2) [OF ok] q] h by (auto simp: queue_ok_def)
  note ok1 = runtime_ok_calm [OF ok c]
  have le: "approval_uses i ?s \<le> approval_uses i s1" for i using es m(2) [of i] by (auto simp: approval_uses_def)
  have "runtime_ok sha ?s"
  proof (rule runtime_okI)
    show "stores_ok sha ?s" using runtime_okD(1) [OF ok1] by (simp add: stores_ok_def memory_ok_def)
    show "queues_ok (rt_queues ?s)" using m(1) by simp
    show "list_all gate_ok (rt_effects ?s)" using runtime_okD(3) [OF ok1] gate es by auto
    show "approval_uses i ?s \<le> 1" for i by (rule le_trans [OF le runtime_okD(4) [OF ok1]])
    show "approval_live (rt_approvals ?s) i = None" if "0 < approval_uses i ?s" for i
      using runtime_okD(5) [OF ok1, of i] less_le_trans [OF that le] by simp
  qed
  from runtime_ok_calm [OF this calm_finish] eq show ?thesis by simp
qed

lemma run_item_cases:
  obtains s1 ps where "run_queued_item en k item s = leave_pane_queue k s1" "calm sha (s\<lparr>rt_paneEffects := ps\<rparr>) s1"
proof -
  have same: "calm sha (s\<lparr>rt_paneEffects := rt_paneEffects s\<rparr>) (terminalize_item en item out s)" for out
    by (simp add: terminalize_item_def calm_terminate_command)
  obtain out s1 where e: "execute_started_command en (it_command item) s = (out, s1)" by fastforce
  then obtain ps where "s1 = s\<lparr>rt_paneEffects := ps\<rparr>"
    by (auto simp: execute_started_command_def call_pane_handler_def split: pane_command_kind.splits sum.splits if_splits)
      (metis runtime.surjective runtime.update_convs(16))+
  with e have "calm sha (s\<lparr>rt_paneEffects := ps\<rparr>) (terminalize_item en item out s1)"
    by (simp add: terminalize_item_def calm_terminate_command)
  with e that same show thesis
    by (cases "it_terminalized item"; cases "it_preempted item \<or> is_stale_automation_generation item s")
      (fastforce simp: run_queued_item_def intro: that [of s "rt_paneEffects s"])+
qed

lemma run_item_moves:
  assumes ok: "runtime_ok sha s" and q: "jm_get (rt_queues s) k = Some rq" and h: "rq_entries rq = PaneEntry item # rest"
  shows "runtime_ok sha (run_queued_item en k item s) \<and>
    approval_uses i (run_queued_item en k item s) \<le> approval_uses i s"
proof -
  obtain s1 ps where s1: "run_queued_item en k item s = leave_pane_queue k s1" "calm sha (s\<lparr>rt_paneEffects := ps\<rparr>) s1"
    by (rule run_item_cases)
  from ok have "runtime_ok sha (s\<lparr>rt_paneEffects := ps\<rparr>)" by (simp add: runtime_ok_logs)
  note ok1 = runtime_ok_calm [OF this s1(2)]
  have u: "approval_uses i s1 = approval_uses i s" using calm_uses [OF s1(2), of i] by (simp add: approval_uses_def)
  have "jm_get (rt_queues s1) k = Some rq" using q calm_frame(4) [OF s1(2)] by simp
  from leave_pane_queue_cases [OF runtime_okD(2) [OF ok1] this h] obtain m
    where m: "leave_pane_queue k s1 = s1\<lparr>rt_queues := m\<rparr>" "queues_ok m" "\<And>i. queue_uses i m \<le> queue_uses i (rt_queues s1)"
    by blast
  have "approval_uses i (s1\<lparr>rt_queues := m\<rparr>) \<le> approval_uses i s" using m(3) [of i] u by (simp add: approval_uses_def)
  with runtime_ok_queues [OF ok1 m(2,3)] s1(1) m(1) show ?thesis by simp
qed

lemmas runtime_ok_run_item = run_item_moves [THEN conjunct1]
lemmas run_item_uses = run_item_moves [THEN conjunct2]

lemma run_queue_cases:
  obtains (idle) "run_queue en k s = s"
  | (effect) rq e rest where "jm_get (rt_queues s) k = Some rq" "rq_entries rq = EffectEntry e # rest"
      "run_queue en k s = run_surface_effect en e s"
  | (pane) rq item rest where "jm_get (rt_queues s) k = Some rq" "rq_entries rq = PaneEntry item # rest"
      "run_queue en k s = run_queued_item en k item s"
proof (cases "jm_get (rt_queues s) k")
  case None
  then show thesis by (intro idle) (simp add: run_queue_def)
next
  case (Some rq)
  show thesis
  proof (cases "rq_entries rq")
    case Nil
    with Some show thesis by (intro idle) (simp add: run_queue_def)
  next
    case (Cons x rest)
    with Some effect pane show thesis by (cases x) (simp_all add: run_queue_def)
  qed
qed

lemma runtime_ok_prune: "runtime_ok sha s \<Longrightarrow> runtime_ok sha (prune_inactive_resource_queues s)"
proof -
  assume ok: "runtime_ok sha s"
  have "runtime_ok sha (s\<lparr>rt_queues := filter P (rt_queues s)\<rparr>)" for P
    by (rule runtime_ok_queues [OF ok queues_ok_filter [OF runtime_okD(2) [OF ok]] queue_uses_filter])
  moreover have "runtime_ok sha (s\<lparr>rt_barriers := b\<rparr>) = runtime_ok sha s" for s :: runtime and b
    by (simp add: runtime_ok_def stores_ok_def memory_ok_def approval_uses_def)
  ultimately show ?thesis by (simp add: prune_inactive_resource_queues_def prune_retired_pane_barriers_def)
qed

lemma prune_frame:
  "rt_leases (prune_inactive_resource_queues s) = rt_leases s" "rt_approvals (prune_inactive_resource_queues s) = rt_approvals s"
  "rt_effects (prune_inactive_resource_queues s) = rt_effects s" "rt_pending (prune_inactive_resource_queues s) = rt_pending s"
  "rt_surfaces (prune_inactive_resource_queues s) = rt_surfaces s" "rt_ownerEpoch (prune_inactive_resource_queues s) = rt_ownerEpoch s"
  "rt_immediateEffects (prune_inactive_resource_queues s) = rt_immediateEffects s"
  "rt_paneEffects (prune_inactive_resource_queues s) = rt_paneEffects s"
  "rt_lanes (prune_inactive_resource_queues s) = rt_lanes s"
  by (simp_all add: prune_inactive_resource_queues_def prune_retired_pane_barriers_def)

lemma fresh_prune: "fresh_env en s \<Longrightarrow> fresh_env en (prune_inactive_resource_queues s)"
proof -
  have "queue_uses i (rt_queues (prune_inactive_resource_queues s)) \<le> queue_uses i (rt_queues s)" for i
    by (simp add: prune_inactive_resource_queues_def prune_retired_pane_barriers_def queue_uses_filter)
  then have "approval_uses i (prune_inactive_resource_queues s) \<le> approval_uses i s" for i
    by (simp add: approval_uses_def prune_frame)
  then show "fresh_env en s \<Longrightarrow> fresh_env en (prune_inactive_resource_queues s)"
    by (simp add: fresh_env_def prune_frame) (metis le_zero_eq)
qed

lemma operator_effect_ok:
  assumes ok: "runtime_ok sha s" and sha: "pf_sha (en_platform en) = sha" and cast: "cast_by_operator en c s q s1"
  shows "runtime_ok sha s1" "gate_ok q"
    "qe_approval q = Some i \<Longrightarrow> approval_uses i s1 = 0 \<and> approval_live (rt_approvals s1) i = None"
proof -
  obtain m j digest effect a x ap1 ap2 where human: "cm_actorKind m = HumanActor"
    and ap1: "approve sha j (cm_actorId m) digest (en_clock en 1 0 0) (rt_approvals s) = (Inr a, ap1)"
    and ap2: "consume sha (consume_value (ap_id a) digest (qe_context q) effect) (en_clock en 3 0 0) ap1 = (Inr x, ap2)"
    and q: "qe_resolver q = Some m" "qe_approval q = Some (ap_id a)"
    and s1: "s1 = forget_pending (ap_id a) (append_requested (cm_id m) (cm_key m) s\<lparr>rt_approvals := ap2\<rparr>)"
    using cast sha unfolding cast_by_operator_def by blast
  have aok: "approvals_ok sha (rt_approvals s)" using runtime_okD(1) [OF ok] by (simp add: stores_ok_def)
  let ?fresh = "ap_id a"
  have ev: "approvals_evolve sha f (rt_approvals s) ap1" for f
    using evolve_resolve [of True sha j "cm_actorId m" digest "en_clock en 1 0 0" "rt_approvals s" "Inr a" ap1 f] ap1 by simp
  have ap1ok: "approvals_ok sha ap1" using ev aok by (simp add: approvals_evolve_def)
  have ended: "approval_live ap2 (ap_id a) = None" "approval_live ap1 (ap_id a) \<noteq> None"
    using consume_ends [OF ap1ok ap2] by auto
  have live: "approval_live (rt_approvals s) (ap_id a) \<noteq> None"
  proof
    assume "approval_live (rt_approvals s) (ap_id a) = None"
    with ev [of "ap_id a @ ''x''"] aok ended(2) show False by (simp add: approvals_evolve_def)
  qed
  have unused: "approval_uses (ap_id a) s = 0" using runtime_okD(5) [OF ok, of "ap_id a"] live by auto
  have shrink: "approval_live ap2 i = None" if "approval_live (rt_approvals s) i = None" for i
    using that ev [of "i @ ''x''"] evolve_consume [OF ap2, of "i @ ''x''"] aok ap1ok by (simp add: approvals_evolve_def)
  have ap2ok: "approvals_ok sha ap2" using evolve_consume [OF ap2] ap1ok by (simp add: approvals_evolve_def)
  let ?s2 = "append_requested (cm_id m) (cm_key m) s\<lparr>rt_approvals := ap2\<rparr>"
  have "runtime_ok sha (append_requested (cm_id m) (cm_key m) s)" by (rule runtime_ok_calm [OF ok calm_append_requested])
  then have s2: "runtime_ok sha ?s2"
    using ap2ok shrink by (simp add: runtime_ok_def stores_ok_def memory_ok_def approval_uses_def append_requested_def)
  then show "runtime_ok sha s1" unfolding s1 by (rule runtime_ok_calm [OF _ calm_forget_pending])
  show "gate_ok q" using q human by (simp add: gate_ok_def)
  show "approval_uses i s1 = 0 \<and> approval_live (rt_approvals s1) i = None" if "qe_approval q = Some i"
    using that q unused ended(1)
    by (simp add: s1 forget_pending_def append_requested_def approval_uses_def)
qed

lemma runtime_ok_submit:
  assumes ok: "runtime_ok sha s" and sha: "pf_sha (en_platform en) = sha" and fresh: "fresh_env en s"
  shows "runtime_ok sha (submit en c s)"
proof -
  note ok0 = runtime_ok_prune [OF ok]
  from sha show ?thesis
  proof (cases rule: submit_cases [where s = s and c = c])
    case handled
    with runtime_ok_handled [OF ok0 _ fresh_prune [OF fresh]] show ?thesis by blast
  next
    case (free s1 q)
    have "gate_ok q" using free(3,4) by (simp add: gate_ok_def)
    then show ?thesis
      unfolding free(2) by (rule runtime_ok_enqueue [OF runtime_ok_calm [OF ok0 free(1)]]) (simp add: free(3))
  next
    case (approved s1 q)
    note op = operator_effect_ok [OF ok0 sha approved(1)]
    from runtime_ok_enqueue [OF op(1,2)] op(3) approved(2) show ?thesis by simp
  next
    case (pane pc)
    with runtime_ok_enqueue_pane [OF ok0] show ?thesis by simp
  next
    case (immediate ic)
    show ?thesis unfolding immediate(2)
    proof (cases rule: immediate_cases [of sha "prune_inactive_resource_queues s" en ic])
      case refused
      with runtime_ok_calm [OF ok0] show "runtime_ok sha (execute_immediate_command en ic (prune_inactive_resource_queues s))" by simp
    next
      case (called s1 i)
      have "runtime_ok sha (s1\<lparr>rt_immediateEffects := y\<rparr>)" for y
        using runtime_ok_calm [OF ok0 called(1)] by (simp add: runtime_ok_logs)
      with runtime_ok_calm called(2) show "runtime_ok sha (execute_immediate_command en ic (prune_inactive_resource_queues s))" by blast
    qed
  qed
qed

lemma runtime_ok_step:
  assumes ok: "runtime_ok sha s" and sha: "pf_sha (en_platform en) = sha" and fresh: "fresh_env en s"
  shows "runtime_ok sha (runtime_exec en st s)"
proof (cases st)
  case (Submit c)
  with runtime_ok_submit [OF assms] show ?thesis by simp
next
  case (RunQueue k)
  show ?thesis
  proof (cases rule: run_queue_cases [of en k s])
    case idle
    with ok RunQueue show ?thesis by simp
  next
    case (effect rq e rest)
    with runtime_ok_run_effect [OF ok effect(1,2)] RunQueue show ?thesis by simp
  next
    case (pane rq item rest)
    with runtime_ok_run_item [OF ok pane(1,2)] RunQueue show ?thesis by simp
  qed
next
  case TakeSnapshot
  with runtime_ok_calm [OF ok calm_snapshot [OF prod.collapse [symmetric]]] show ?thesis by simp
next
  case (SurfaceChange op)
  have "surface_ok (surface_step op (rt_surfaces s))"
    using runtime_okD(1) [OF ok] by (simp add: stores_ok_def surface_ok_step)
  with ok SurfaceChange show ?thesis by (simp add: runtime_ok_def stores_ok_def memory_ok_def approval_uses_def)
qed

end
