(* ===== verification/RuntimeProperties.thy ===== *)
theory RuntimeProperties
  imports RuntimeSafety ApprovalProperties
begin

text \<open>
  The properties of the control runtime over runs: what a side effect needs, what approval and
  revocation guarantee, and the bounds of the runtime's memories.
\<close>

section \<open>Runs\<close>

text \<open>
  A run: each step with what it reads from outside. SHA-256 is the same throughout, and
  \<open>randomUUID\<close> gives identifiers that are not in use.
\<close>

inductive runtime_run :: "(string \<Rightarrow> string) \<Rightarrow> runtime \<Rightarrow> (rt_env \<times> runtime_step) list \<Rightarrow> runtime \<Rightarrow> bool"
  for sha
where
  run_done: "runtime_run sha s [] s"
| run_step: "runtime_run sha s ((en, st) # tr) s'"
    if "pf_sha (en_platform en) = sha" "fresh_env en s" "runtime_run sha (runtime_exec en st s) tr s'"

inductive_cases runtime_runE: "runtime_run sha s (x # tr) s'"

lemma runtime_run_ok: "runtime_run sha s tr s' \<Longrightarrow> runtime_ok sha s \<Longrightarrow> runtime_ok sha s'"
  by (induction rule: runtime_run.induct) (auto intro: runtime_ok_step)

section \<open>When an effect runs\<close>

text \<open>The lease a command names covers the target and capability at time \<open>now\<close>.\<close>

definition lease_covers_action :: "int \<Rightarrow> action_command \<Rightarrow> lease_target \<Rightarrow> surface_capability \<Rightarrow> cap_store \<Rightarrow> bool" where
  "lease_covers_action now c t capability cs \<longleftrightarrow>
     (\<exists>l. jm_get (cs_leases cs) (ac_leaseId c) = Some l \<and> cl_ownerEpoch l = cs_ownerEpoch cs \<and>
        ac_ownerEpoch c = cs_ownerEpoch cs \<and> cl_revision l = ac_leaseRevision c \<and> now < cl_expiresAt l \<and>
        cl_actorId l = ac_actorId c \<and> cl_taskId l = ac_taskId c \<and>
        (\<exists>g \<in> set (cl_grants l). gi_target g = t \<and> capability \<in> set (gi_capabilities g)))"

text \<open>The target is a registered surface of the command's project, in the generation it names.\<close>

definition target_registered :: "action_command \<Rightarrow> lease_target \<Rightarrow> surface_registry \<Rightarrow> bool" where
  "target_registered c t r \<longleftrightarrow>
    (case t of
       ProjectTarget i \<Rightarrow> i = ac_projectRoot c
     | SurfaceTarget k i g \<Rightarrow> \<exists>x. get_surface i r = Some x \<and> surface_generation x = g \<and> surface_kind_of x = k \<and>
         surface_project x = ac_projectRoot c)"

lemma check_surface_iff: "check_surface r (ac_projectRoot c) t = Inr () \<longleftrightarrow> target_registered c t r"
  by (cases t) (auto simp: check_surface_def target_registered_def throw_if_Inr and_then_Inr require_surface_def
      get_surface_def with_code_def split: option.splits sum.splits)

lemma action_allowed_iff:
  "action_allowed en p c t capability s \<longleftrightarrow>
     target_registered c t (rt_surfaces s) \<and> subject_accepted en (ac_taskId c) (ac_actorId c) \<and>
     lease_covers_action (en_clock en p 0 0) c t capability (rt_leases s)"
  by (auto simp: action_allowed_def check_surface_iff action_assertion_def lease_covers_action_def cap_assert_def
      lease_authorizes_def list_ex_iff split: option.splits)

definition effect_authorized :: "rt_env \<Rightarrow> queued_effect \<Rightarrow> runtime \<Rightarrow> bool" where
  "effect_authorized en q s \<longleftrightarrow>
    (let c = cx_command (qe_context q) in
     ac_ownerEpoch c = rt_ownerEpoch s \<and> (\<forall>at. ac_expiresAt c = Some at \<longrightarrow> en_now en < at) \<and>
     target_registered c (cx_target (qe_context q)) (rt_surfaces s) \<and>
     subject_accepted en (ac_taskId c) (ac_actorId c) \<and>
     lease_covers_action (en_clock en 0 0 0) c (cx_target (qe_context q))
       (pc_capability (cx_classification (qe_context q))) (rt_leases s))"

lemma finish_effects: "rt_effects (finish_effect en q r s) = rt_effects s"
  by (rule calm_frame(6) [OF calm_finish])

lemma leave_effects [simp]: "rt_effects (leave_queue k b s) = rt_effects s"
  by (simp add: leave_queue_def prune_resource_queue_def set_queue_def split: option.split)

lemma leave_pane_effects [simp]: "rt_effects (leave_pane_queue k s) = rt_effects s"
  by (simp add: leave_pane_queue_def prune_resource_queue_def set_queue_def split: option.split)

lemma queue_for_resource_effects: "queue_for_resource t s = (q, s1) \<Longrightarrow> rt_effects s1 = rt_effects s \<and> rt_leases s1 = rt_leases s"
  by (auto simp: queue_for_resource_def split: option.splits)

lemma enqueue_effects: "rt_effects (enqueue_surface_effect en q s) = rt_effects s"
  by (auto simp: enqueue_surface_effect_def Let_def finish_effects set_queue_def dest: queue_for_resource_effects split: prod.split)

lemma enqueue_pane_effects: "rt_effects (enqueue_pane_command pc s) = rt_effects s"
proof -
  obtain q s1 where "queue_for_resource (resource_target_for_pane (pc_paneId pc) s) s = (q, s1)" by fastforce
  with queue_for_resource_effects [OF this] calm_frame(6) [OF calm_request_command] show ?thesis
    by (simp add: enqueue_pane_command_def Let_def set_queue_def)
qed

lemma cast_effects: "cast_by_operator en c s q s1 \<Longrightarrow> rt_effects s1 = rt_effects s \<and> rt_leases s1 = rt_leases s"
  by (auto simp: cast_by_operator_def forget_pending_def append_requested_def)

lemma submit_effects: "rt_effects (submit en c s) = rt_effects s"
proof -
  have sha: "pf_sha (en_platform en) = pf_sha (en_platform en)" ..
  then show ?thesis
  proof (cases rule: submit_cases [where s = s and c = c])
    case handled
    then show ?thesis by (simp add: handled_def prune_frame)
  next
    case (free s1 q)
    then show ?thesis by (simp add: enqueue_effects calm_frame(6) [OF free(1)] prune_frame)
  next
    case (approved s1 q)
    then show ?thesis by (simp add: enqueue_effects cast_effects [OF approved(1)] prune_frame)
  next
    case (pane pc)
    then show ?thesis by (simp add: enqueue_pane_effects prune_frame)
  next
    case (immediate ic)
    show ?thesis unfolding immediate(2)
    proof (cases rule: immediate_cases [of undefined "prune_inactive_resource_queues s" en ic])
      case refused
      then show "rt_effects (execute_immediate_command en ic (prune_inactive_resource_queues s)) = rt_effects s"
        by (simp add: calm_frame(6) prune_frame)
    next
      case (called s1 i)
      then show "rt_effects (execute_immediate_command en ic (prune_inactive_resource_queues s)) = rt_effects s"
        using calm_frame(6) [OF called(1)] calm_frame(6) [OF called(2)] by (simp add: prune_frame)
    qed
  qed
qed

lemma effect_step:
  assumes "rt_effects (runtime_exec en st s) \<noteq> rt_effects s"
  shows "\<exists>k rq q rest. st = RunQueue k \<and> jm_get (rt_queues s) k = Some rq \<and> rq_entries rq = EffectEntry q # rest \<and>
    rt_effects (runtime_exec en st s) = rt_effects s @ [q] \<and> effect_authorized en q s"
proof (cases st)
  case (Submit c)
  with assms show ?thesis by (simp add: submit_effects)
next
  case TakeSnapshot
  with assms calm_frame(6) [OF calm_snapshot [OF prod.collapse [symmetric]]] show ?thesis by simp
next
  case (SurfaceChange op)
  with assms show ?thesis by simp
next
  case (RunQueue k)
  show ?thesis
  proof (cases rule: run_queue_cases [of en k s])
    case idle
    with assms RunQueue show ?thesis by simp
  next
    case (pane rq item rest)
    obtain s1 ps where "run_queued_item en k item s = leave_pane_queue k s1" "calm id (s\<lparr>rt_paneEffects := ps\<rparr>) s1"
      by (rule run_item_cases)
    with assms RunQueue pane(3) calm_frame(6) [OF this(2)] show ?thesis by simp
  next
    case (effect rq q rest)
    show ?thesis
    proof (cases rule: run_surface_effect_cases [of en q s])
      case (refused e s1 r)
      with assms RunQueue effect(3) calm_frame(6) [OF revalidate_calm [OF refused(1)]] show ?thesis
        by (simp add: finish_effects)
    next
      case (executed u r b)
      let ?x = "qe_context q"
      obtain current where current: "contexts_match ?x current"
        "action_allowed en 0 (cx_command ?x) (cx_target current) (pc_capability (cx_classification current)) s"
        using revalidate_Inr(3) [OF executed(1)] by blast
      then have "action_allowed en 0 (cx_command ?x) (cx_target ?x) (pc_capability (cx_classification ?x)) s"
        by (simp add: contexts_match_same)
      moreover have "ac_ownerEpoch (cx_command ?x) = rt_ownerEpoch s \<and>
          (\<forall>at. ac_expiresAt (cx_command ?x) = Some at \<longrightarrow> en_now en < at)"
        using revalidate_Inr(2) [OF executed(1)] by (auto simp: assert_command_current_def throw_if_Inr split: option.splits)
      ultimately have "effect_authorized en q s" by (simp add: effect_authorized_def action_allowed_iff)
      moreover have "rt_effects (runtime_exec en st s) = rt_effects s @ [q]"
        using executed(2) effect(3) RunQueue by (simp add: finish_effects)
      ultimately show ?thesis using RunQueue effect by blast
    qed
  qed
qed

text \<open>
  C1. A side effect on a surface runs only as the head of its resource queue, and only when at that
  moment the command belongs to the current owner epoch and has not expired, its target is still
  registered in the generation and project it names, its task subject is active (or not tracked), and
  the lease it names is in the store, unexpired, in the named revision, held by its actor for its
  task, and grants the classified capability on exactly that target. Submissions, snapshots and
  registry changes never run one.
\<close>
theorem effect_runs_only_authorized:
  assumes "rt_effects (runtime_exec en st s) \<noteq> rt_effects s"
  shows "\<exists>k rq q rest. st = RunQueue k \<and> jm_get (rt_queues s) k = Some rq \<and> rq_entries rq = EffectEntry q # rest \<and>
    rt_effects (runtime_exec en st s) = rt_effects s @ [q] \<and> effect_authorized en q s"
  using assms by (rule effect_step)

section \<open>What happens to the leases\<close>

lemma calm_evolve: "calm sha s s' \<Longrightarrow> leases_evolve f (rt_leases s) (rt_leases s')"
  by (simp add: calm_def shrink_evolve)

lemma enqueue_leases: "leases_shrink (rt_leases s) (rt_leases (enqueue_surface_effect en q s))"
proof -
  obtain rq s1 where rq: "queue_for_resource (cx_target (qe_context q)) s = (rq, s1)" by fastforce
  have "leases_shrink (rt_leases s1) (rt_leases (finish_effect en q r s1))" for r
    using calm_finish [of undefined s1 en q r] by (simp add: calm_def)
  with queue_for_resource_effects [OF rq] rq show ?thesis
    by (auto simp: enqueue_surface_effect_def Let_def set_queue_def)
qed

lemma enqueue_pane_leases: "rt_leases (enqueue_pane_command pc s) = rt_leases s"
proof -
  obtain q s1 where "queue_for_resource (resource_target_for_pane (pc_paneId pc) s) s = (q, s1)" by fastforce
  with queue_for_resource_effects [OF this] show ?thesis
    by (simp add: enqueue_pane_command_def Let_def set_queue_def request_command_def append_requested_def
        retain_command_record_def)
qed

lemma leave_leases [simp]: "rt_leases (leave_queue k b s) = rt_leases s" "rt_leases (leave_pane_queue k s) = rt_leases s"
  by (simp_all add: leave_queue_def leave_pane_queue_def prune_resource_queue_def set_queue_def split: option.split)

lemma submit_leases: "leases_evolve (en_leaseId en) (rt_leases s) (rt_leases (submit en c s))"
proof -
  have sha: "pf_sha (en_platform en) = pf_sha (en_platform en)" ..
  then show ?thesis
  proof (cases rule: submit_cases [where s = s and c = c])
    case handled
    then show ?thesis by (simp add: handled_def prune_frame)
  next
    case (free s1 q)
    have "leases_shrink (rt_leases s) (rt_leases s1)" using free(1) by (simp add: calm_def prune_frame)
    from leases_shrink_trans [OF this enqueue_leases] free(2) show ?thesis by (simp add: shrink_evolve)
  next
    case (approved s1 q)
    from cast_effects [OF approved(1)] enqueue_leases [of s1 en q] approved(2) show ?thesis
      by (simp add: prune_frame shrink_evolve)
  next
    case (pane pc)
    then show ?thesis by (simp add: enqueue_pane_leases prune_frame shrink_evolve)
  next
    case (immediate ic)
    let ?s = "prune_inactive_resource_queues s"
    have "leases_shrink (rt_leases ?s) (rt_leases (execute_immediate_command en ic ?s))"
    proof (cases rule: immediate_cases [of undefined ?s en ic])
      case refused
      then show ?thesis by (simp add: calm_def)
    next
      case (called s1 i)
      from called(1,2) have "leases_shrink (rt_leases ?s) (rt_leases s1)"
        "leases_shrink (rt_leases s1) (rt_leases (execute_immediate_command en ic ?s))"
        by (simp_all add: calm_def)
      then show ?thesis by (rule leases_shrink_trans)
    qed
    with immediate(2) show ?thesis by (simp add: prune_frame shrink_evolve)
  qed
qed

lemma exec_leases: "leases_evolve (en_leaseId en) (rt_leases s) (rt_leases (runtime_exec en st s))"
proof (cases st)
  case (Submit c)
  then show ?thesis by (simp add: submit_leases)
next
  case TakeSnapshot
  then show ?thesis using calm_evolve [OF calm_snapshot [OF prod.collapse [symmetric]]] by simp
next
  case (SurfaceChange op)
  then show ?thesis by (simp add: shrink_evolve)
next
  case (RunQueue k)
  show ?thesis
  proof (cases rule: run_queue_cases [of en k s])
    case idle
    with RunQueue show ?thesis by (simp add: shrink_evolve)
  next
    case (pane rq item rest)
    obtain s1 ps where "run_queued_item en k item s = leave_pane_queue k s1" "calm undefined (s\<lparr>rt_paneEffects := ps\<rparr>) s1"
      by (rule run_item_cases)
    with calm_evolve [OF this(2)] RunQueue pane(3) show ?thesis by simp
  next
    case (effect rq q rest)
    have fin: "leases_shrink (rt_leases s1) (rt_leases (finish_effect en q r s1))" for s1 r
      using calm_finish [of undefined s1 en q r] by (simp add: calm_def)
    show ?thesis
    proof (cases rule: run_surface_effect_cases [of en q s])
      case (refused e s1 r)
      have "leases_shrink (rt_leases s) (rt_leases s1)"
        using revalidate_calm [OF refused(1), of undefined] by (simp add: calm_def)
      from leases_shrink_trans [OF this] fin [of "leave_queue (resource_key (cx_target (qe_context q))) False s1" r]
        refused(2) effect(3) RunQueue show ?thesis by (simp add: shrink_evolve)
    next
      case (executed u r b)
      with fin [of "leave_queue (resource_key (cx_target (qe_context q))) b (s\<lparr>rt_effects := rt_effects s @ [q]\<rparr>)" r]
        effect(3) RunQueue show ?thesis by (simp add: shrink_evolve)
    qed
  qed
qed

lemma dead_lease_step:
  assumes "runtime_ok sha s" "fresh_env en s" "jm_get (cs_leases (rt_leases s)) i = None" "en_leaseId en \<noteq> i"
  shows "jm_get (cs_leases (rt_leases (runtime_exec en st s))) i = None"
  using exec_leases [of en s st] runtime_okD(1) [OF assms(1)] assms(2-4)
  by (auto simp: leases_evolve_def stores_ok_def fresh_env_def)

text \<open>
  C2. Once a lease has left the store (released, revoked, expired, or ended by a takeover, a replaced
  surface or an inactive task), no effect runs under it any more: not a later command, and not one
  that was already waiting in a queue when the lease ended.
\<close>
theorem dead_lease_runs_nothing:
  assumes "runtime_run sha s tr s'" and "runtime_ok sha s"
    and "jm_get (cs_leases (rt_leases s)) i = None" and "\<forall>(en, st) \<in> set tr. en_leaseId en \<noteq> i"
  shows "\<exists>new. rt_effects s' = rt_effects s @ new \<and>
    (\<forall>q \<in> set new. ac_leaseId (cx_command (qe_context q)) \<noteq> i)"
  using assms
proof (induction rule: runtime_run.induct)
  case (run_done s)
  then show ?case by simp
next
  case (run_step en s st tr s')
  let ?s = "runtime_exec en st s"
  have dead: "jm_get (cs_leases (rt_leases ?s)) i = None"
    using dead_lease_step [OF run_step.prems(1) run_step.hyps(2) run_step.prems(2)] run_step.prems(3) by simp
  have "runtime_ok sha ?s" by (rule runtime_ok_step [OF run_step.prems(1) run_step.hyps(1,2)])
  from run_step.IH [OF this dead] run_step.prems(3) obtain new where new: "rt_effects s' = rt_effects ?s @ new"
    "\<forall>q \<in> set new. ac_leaseId (cx_command (qe_context q)) \<noteq> i" by auto
  show ?case
  proof (cases "rt_effects ?s = rt_effects s")
    case True
    with new show ?thesis by simp
  next
    case False
    obtain q where q: "rt_effects ?s = rt_effects s @ [q]" "effect_authorized en q s"
      using effect_step [OF False] by blast
    from q(2) run_step.prems(2) have "ac_leaseId (cx_command (qe_context q)) \<noteq> i"
      by (auto simp: effect_authorized_def lease_covers_action_def Let_def)
    with new q(1) show ?thesis by auto
  qed
qed

section \<open>Approved effects\<close>

text \<open>
  C3. In every run from the start, each executed effect that the policy gates carries an approval and
  the operator's command that resolved it, no approval is used for two effects (executed or waiting),
  and an approval that was used is no longer pending or approved.
\<close>
theorem gated_effects_approved_once:
  assumes "runtime_run sha (runtime_init epoch) tr s"
  shows "(\<forall>q \<in> set (rt_effects s). pc_decision (cx_classification (qe_context q)) = NeedsApproval \<longrightarrow>
       (\<exists>i m. qe_approval q = Some i \<and> qe_resolver q = Some m \<and> cm_actorKind m = HumanActor)) \<and>
    (\<forall>i. length (filter (\<lambda>q. qe_approval q = Some i)
        (rt_effects s @ concat (map (\<lambda>(k, rq). effects_of (rq_entries rq)) (rt_queues s)))) \<le> 1) \<and>
    (\<forall>q \<in> set (rt_effects s). \<forall>i a. qe_approval q = Some i \<longrightarrow>
       jm_get (as_approvals (rt_approvals s)) i = Some a \<longrightarrow> \<not> is_active a)"
proof -
  have ok: "runtime_ok sha s" using assms runtime_ok_init by (rule runtime_run_ok)
  have gate: "gate_ok q" if "q \<in> set (rt_effects s)" for q
    using runtime_okD(3) [OF ok] that by (simp add: list_all_iff)
  have uses: "length (filter (\<lambda>q. qe_approval q = Some i) (concat (map (\<lambda>(k, rq). effects_of (rq_entries rq)) m))) = queue_uses i m"
    for i and m :: "(string, resource_queue) jsmap"
    by (induction m) (auto simp: queue_uses_def effect_uses_def)
  have once: "length (filter (\<lambda>q. qe_approval q = Some i)
      (rt_effects s @ concat (map (\<lambda>(k, rq). effects_of (rq_entries rq)) (rt_queues s)))) \<le> 1" for i
    using runtime_okD(4) [OF ok, of i] by (simp add: approval_uses_def uses effect_uses_def)
  have ended: "\<not> is_active a" if q: "q \<in> set (rt_effects s)" "qe_approval q = Some i"
    and a: "jm_get (as_approvals (rt_approvals s)) i = Some a" for q i a
  proof
    assume "is_active a"
    with a have "approval_live (rt_approvals s) i = Some a" by (simp add: approval_live_Some)
    moreover have "filter (\<lambda>q. qe_approval q = Some i) (rt_effects s) \<noteq> []" using q by (auto simp: filter_empty_conv)
    then have "0 < approval_uses i s" by (simp add: approval_uses_def effect_uses_def)
    then have "approval_live (rt_approvals s) i = None" by (rule runtime_okD(5) [OF ok])
    ultimately show False by simp
  qed
  show ?thesis
    using gate once ended by (fastforce simp: gate_ok_def split: option.splits)
qed

lemma prune_uses: "approval_uses i (prune_inactive_resource_queues s) \<le> approval_uses i s"
  unfolding approval_uses_def prune_frame
  by (simp add: prune_inactive_resource_queues_def prune_retired_pane_barriers_def queue_uses_filter)

lemma enqueue_uses:
  assumes "runtime_ok sha s"
  shows "approval_uses i (enqueue_surface_effect en q s) \<le> approval_uses i s + (if qe_approval q = Some i then 1 else 0)"
proof -
  let ?t = "cx_target (qe_context q)"
  obtain rq s1 where rq: "queue_for_resource ?t s = (rq, s1)" by fastforce
  note s1 = queue_for_resource_ok [OF assms rq]
  have "approval_uses i (finish_effect en q r s1) = approval_uses i s" for r
    using calm_uses [OF calm_finish [of undefined]] s1(5) by simp
  moreover have "approval_uses i (set_queue (resource_key ?t) (rq\<lparr>rq_pendingEffects := rq_pendingEffects rq + 1,
      rq_entries := rq_entries rq @ [EffectEntry q]\<rparr>) s1) = approval_uses i s + effect_uses i [q]"
    using queue_uses_set [OF s1(2), of i "rq\<lparr>rq_pendingEffects := rq_pendingEffects rq + 1,
      rq_entries := rq_entries rq @ [EffectEntry q]\<rparr>"] s1(5) [of i] by (simp add: approval_uses_def set_queue_def)
  ultimately show ?thesis using rq by (auto simp: enqueue_surface_effect_def Let_def)
qed

lemma enqueue_pane_uses: "runtime_ok sha s \<Longrightarrow> approval_uses i (enqueue_pane_command pc s) = approval_uses i s"
proof -
  assume ok: "runtime_ok sha s"
  let ?t = "resource_target_for_pane (pc_paneId pc) s"
  obtain q s1 where q: "queue_for_resource ?t s = (q, s1)" by fastforce
  note s1 = queue_for_resource_ok [OF ok q]
  obtain q' where eq: "enqueue_pane_command pc s = request_command (PaneCommand pc) (set_queue (resource_key ?t) q' s1)"
    and q': "effects_of (rq_entries q') = effects_of (rq_entries q)"
    using q that by (simp add: enqueue_pane_command_def Let_def)
  show ?thesis
    unfolding eq calm_uses [OF calm_request_command [of undefined]]
    using queue_uses_set [OF s1(2), of i q'] q' s1(5) [of i] by (simp add: approval_uses_def set_queue_def)
qed

text \<open>Only a submission adds to the uses of an approval.\<close>

lemma uses_step:
  assumes "runtime_ok sha s"
  shows "approval_uses i (runtime_exec en st s) \<le> approval_uses i s \<or> (\<exists>c. st = Submit c)"
proof (cases st)
  case TakeSnapshot
  have "calm undefined s (snd (rt_snapshot en s))" by (rule calm_snapshot [OF prod.collapse [symmetric]])
  from calm_uses [OF this, of i] TakeSnapshot show ?thesis by simp
next
  case (SurfaceChange op)
  then show ?thesis by (simp add: approval_uses_def)
next
  case (RunQueue k)
  show ?thesis
  proof (cases rule: run_queue_cases [of en k s])
    case idle
    with RunQueue show ?thesis by simp
  next
    case (effect rq q rest)
    with run_effect_uses [OF assms effect(1,2)] RunQueue show ?thesis by simp
  next
    case (pane rq item rest)
    with run_item_uses [OF assms pane(1,2)] RunQueue show ?thesis by simp
  qed
qed simp

text \<open>What an effect's approval stands for, when the effect is enqueued.\<close>

lemma cast_approval:
  assumes ok: "runtime_ok sha s" and sha: "pf_sha (en_platform en) = sha" and cast: "cast_by_operator en c s q s1"
    and i: "qe_approval q = Some i"
  obtains m digest effect a asrt where "c = SurfaceCommand (ApprovalResolve m i digest True)" "cm_actorKind m = HumanActor"
    "jm_get (rt_pending s) i = Some (qe_context q)" "cx_effect (qe_context q) = Some effect"
    "jm_get (as_approvals (rt_approvals s)) i = Some a" "ap_status a = Pending" "en_clock en 1 0 0 < ap_expiresAt a"
    "ap_payloadDigest a = digest" "copy_assertion (consume_value i digest (qe_context q) effect) = Inr asrt"
    "digest_identity sha (ca_identity asrt) = digest"
    "action_allowed en 2 (cx_command (qe_context q)) (cx_target (qe_context q)) (pc_capability (cx_classification (qe_context q))) s"
proof -
  obtain m j digest effect a x ap1 ap2 where c: "c = SurfaceCommand (ApprovalResolve m j digest True)"
    and human: "cm_actorKind m = HumanActor" and pending: "jm_get (rt_pending s) j = Some (qe_context q)"
    and effect: "cx_effect (qe_context q) = Some effect"
    and ap1: "approve sha j (cm_actorId m) digest (en_clock en 1 0 0) (rt_approvals s) = (Inr a, ap1)"
    and allowed: "action_allowed en 2 (cx_command (qe_context q)) (cx_target (qe_context q)) (pc_capability (cx_classification (qe_context q))) s"
    and ap2: "consume sha (consume_value (ap_id a) digest (qe_context q) effect) (en_clock en 3 0 0) ap1 = (Inr x, ap2)"
    and ia: "ap_id a = i"
    using cast sha i unfolding cast_by_operator_def by auto
  have aok: "approvals_ok sha (rt_approvals s)" using runtime_okD(1) [OF ok] by (simp add: stores_ok_def)
  from aok ap1 [unfolded approve_def] show thesis
  proof (cases rule: resolve_eq)
    case (resolved a0 a1)
    have j: "j = i" using resolved(1,7,8) ia by simp
    have a: "ap_payloadDigest a = digest" using resolved(1,5,8) by simp
    have lookup: "jm_get (as_approvals ap1) i \<in> {None, Some a}"
      using replace_lookup [OF approvals_ok_wf [OF aok] resolved(2), of a1] resolved j by simp
    have "approvals_ok sha ap1"
      using evolve_resolve [of True sha j "cm_actorId m" digest "en_clock en 1 0 0" "rt_approvals s" "Inr a" ap1 "[]"] ap1 aok
      by (simp add: approvals_evolve_def)
    from this ap2 show thesis
    proof (cases rule: consume_eq)
      case (consumed b asrt b')
      have "ca_approvalId asrt = ap_id a" by (rule consume_value_id [OF consumed(2)])
      with consumed(3) lookup ia have "b = a" by auto
      with consumed(2,7) a ia have asrt: "copy_assertion (consume_value i digest (qe_context q) effect) = Inr asrt"
        "digest_identity sha (ca_identity asrt) = digest" by auto
      show thesis
        by (rule that [OF c [unfolded j] human pending [unfolded j] effect resolved(2) [unfolded j] resolved(3,4)
              resolved(5) [symmetric] asrt allowed])
    qed simp_all
  qed simp_all
qed

text \<open>
  C4. An approval comes to be used only by the operator's approval of that very request: the step is
  an \<open>approval.resolve\<close> command of a human actor for this approval, which was pending and not lapsed,
  with its payload digest; the effect that is enqueued is the action retained for it, whose intent has
  that digest, and whose surface, task subject and lease were checked again in the same step.
\<close>
theorem approval_used_by_operator:
  assumes "runtime_ok sha s" and "pf_sha (en_platform en) = sha" and "fresh_env en s"
    and "approval_uses i s < approval_uses i (runtime_exec en st s)"
  shows "\<exists>m digest ctx effect a asrt. st = Submit (SurfaceCommand (ApprovalResolve m i digest True)) \<and>
    cm_actorKind m = HumanActor \<and> jm_get (rt_pending s) i = Some ctx \<and> cx_effect ctx = Some effect \<and>
    jm_get (as_approvals (rt_approvals s)) i = Some a \<and> ap_status a = Pending \<and> en_clock en 1 0 0 < ap_expiresAt a \<and>
    ap_payloadDigest a = digest \<and> copy_assertion (consume_value i digest ctx effect) = Inr asrt \<and>
    digest_identity sha (ca_identity asrt) = digest \<and>
    action_allowed en 2 (cx_command ctx) (cx_target ctx) (pc_capability (cx_classification ctx)) s"
proof -
  let ?s = "prune_inactive_resource_queues s"
  have ok0: "runtime_ok sha ?s" by (rule runtime_ok_prune [OF assms(1)])
  have le: "approval_uses i ?s \<le> approval_uses i s" by (rule prune_uses)
  have "\<not> approval_uses i (runtime_exec en st s) \<le> approval_uses i s" using assms(4) by (simp only: not_le)
  with uses_step [OF assms(1), of i en st] obtain c where c: "st = Submit c" by blast
  then have "approval_uses i ?s < approval_uses i (submit en c s)" using le_less_trans [OF le assms(4)] by simp
  note st = c this
  from assms(2) show ?thesis
  proof (cases rule: submit_cases [where s = s and c = c])
    case handled
    then have "queue_view (rt_queues (submit en c s)) = queue_view (rt_queues ?s)" "rt_effects (submit en c s) = rt_effects ?s"
      unfolding handled_def by blast+
    then have "approval_uses i (submit en c s) = approval_uses i ?s"
      unfolding approval_uses_def using queue_view_uses by metis
    with st(2) show ?thesis by simp
  next
    case (free s1 q)
    have "approval_uses i (submit en c s) \<le> approval_uses i s1"
      using enqueue_uses [OF runtime_ok_calm [OF ok0 free(1)], of i en q] free(2,3) by simp
    with st(2) calm_uses [OF free(1)] show ?thesis by simp
  next
    case (approved s1 q)
    note op = operator_effect_ok [OF ok0 assms(2) approved(1)]
    have "approval_uses i s1 = approval_uses i ?s"
      using approved(1) by (auto simp: cast_by_operator_def approval_uses_def forget_pending_def append_requested_def)
    with st(2) approved(2) enqueue_uses [OF op(1), of i en q] have i: "qe_approval q = Some i"
      by (auto split: if_splits)
    obtain m digest effect a asrt where x: "c = SurfaceCommand (ApprovalResolve m i digest True)" "cm_actorKind m = HumanActor"
      "jm_get (rt_pending ?s) i = Some (qe_context q)" "cx_effect (qe_context q) = Some effect"
      "jm_get (as_approvals (rt_approvals ?s)) i = Some a" "ap_status a = Pending" "en_clock en 1 0 0 < ap_expiresAt a"
      "ap_payloadDigest a = digest" "copy_assertion (consume_value i digest (qe_context q) effect) = Inr asrt"
      "digest_identity sha (ca_identity asrt) = digest"
      "action_allowed en 2 (cx_command (qe_context q)) (cx_target (qe_context q)) (pc_capability (cx_classification (qe_context q))) ?s"
      by (rule cast_approval [OF ok0 assms(2) approved(1) i])
    then have "action_allowed en 2 (cx_command (qe_context q)) (cx_target (qe_context q)) (pc_capability (cx_classification (qe_context q))) s"
      by (simp add: action_allowed_def prune_frame)
    moreover have "st = Submit (SurfaceCommand (ApprovalResolve m i digest True))" using st(1) x(1) by simp
    ultimately show ?thesis using x(2-10) unfolding prune_frame by blast
  next
    case (pane pc)
    with st(2) enqueue_pane_uses [OF ok0, of i pc] show ?thesis by simp
  next
    case (immediate ic)
    have "approval_uses i (execute_immediate_command en ic ?s) = approval_uses i ?s"
    proof (cases rule: immediate_cases [of sha ?s en ic])
      case refused
      then show ?thesis by (rule calm_uses)
    next
      case (called s1 j)
      from calm_uses [OF called(1)] calm_uses [OF called(2)] show ?thesis by (simp add: approval_uses_def)
    qed
    with st(2) immediate(2) show ?thesis by simp
  qed
qed

section \<open>Takeover\<close>

lemma revoke_target_uncovers:
  assumes "cap_ok cs" "revoke_target clk t cs = (ls, cs')" "jm_get (cs_leases cs') i = Some l"
  shows "\<not> list_ex (\<lambda>g. gi_target g = t) (cl_grants l)"
proof
  assume a: "list_ex (\<lambda>g. gi_target g = t) (cl_grants l)"
  have "cs' = snd (revoke_target clk t cs)" using assms(2) by simp
  with assms(3) a show False
    by (auto simp: revoke_target_def invalidate_where_get [OF assms(1)] lease_covers_def split: option.splits if_splits)
qed

lemma takeover_ready_frame:
  "rt_leases (takeover_ready en m p s) = rt_leases s" "rt_surfaces (takeover_ready en m p s) = rt_surfaces s"
proof -
  let ?s1 = "bump_pane_barrier p (request_command (TakeoverCommand m p) s)"
  have "rt_surfaces (fold (\<lambda>item. terminalize_item en item out) items s) = rt_surfaces s" for items out s
    by (rule calm_frame(2) [OF calm_fold]) (simp add: terminalize_item_def calm_terminate_command)
  then have "rt_surfaces (preempt_queued_automation en p s) = rt_surfaces s" for s
    by (simp add: preempt_queued_automation_def Let_def set_queue_def split: option.split)
  then show "rt_surfaces (takeover_ready en m p s) = rt_surfaces s"
    using calm_frame(2) [OF calm_request_command] by (simp add: takeover_ready_def Let_def bump_pane_barrier_def)
  have "rt_leases (request_command c s) = rt_leases s" for c
    by (simp add: request_command_def append_requested_def retain_command_record_def Let_def)
  then show "rt_leases (takeover_ready en m p s) = rt_leases s"
    by (simp add: takeover_ready_def Let_def preempt_leases bump_pane_barrier_def)
qed

lemma preempted_queue:
  assumes "get_surface p (rt_surfaces s) = Some (PaneSurface g x)"
    and "jm_get (rt_queues (takeover_ready en m p s)) (resource_key (SurfaceTarget PaneKind p g)) = Some rq"
    and "PaneEntry item \<in> set (rq_entries rq)" "it_automation item"
  shows "it_terminalized item"
proof -
  let ?s1 = "bump_pane_barrier p (request_command (TakeoverCommand m p) s)"
  let ?k = "resource_key (SurfaceTarget PaneKind p g)"
  have k: "resource_key (resource_target_for_pane p ?s1) = ?k"
    using assms(1) calm_frame(2) [OF calm_request_command] by (simp add: resource_target_for_pane_def bump_pane_barrier_def)
  have fold: "rt_queues (fold (\<lambda>item. terminalize_item en item out) items s) = rt_queues s" for items out s
    by (rule calm_frame(4) [OF calm_fold]) (simp add: terminalize_item_def calm_terminate_command)
  from assms(2) obtain q where q: "jm_get (rt_queues ?s1) ?k = Some q" "rq = q\<lparr>rq_entries := map preempt_entry (rq_entries q)\<rparr>"
    by (auto simp: takeover_ready_def Let_def preempt_queued_automation_def k fold set_queue_def split: option.splits)
  from assms(3) q(2) obtain e where "PaneEntry item = preempt_entry e" by auto
  with assms(4) show ?thesis by (cases e) (auto split: if_splits)
qed

text \<open>
  C5. A takeover silences the agents of a registered pane: afterwards no lease in the store grants
  anything on the pane, the pane's lane is a human's, so no automation can assert it, every automation
  command that waited in the pane's queue has been terminalized, and no queued effect on the pane is
  authorized.
\<close>
theorem takeover_silences_agents:
  assumes "runtime_ok sha s" and "get_surface p (rt_surfaces s) = Some (PaneSurface g x)"
    and "execute_takeover en m p s = s'"
  shows "(\<forall>i l. jm_get (cs_leases (rt_leases s')) i = Some l \<longrightarrow>
       (\<forall>gr \<in> set (cl_grants l). gi_target gr \<noteq> SurfaceTarget PaneKind p g)) \<and>
    (\<forall>now a r. \<not> is_ok (assert_automation now p a r (rt_lanes s'))) \<and>
    (\<forall>rq item. jm_get (rt_queues s') (resource_key (SurfaceTarget PaneKind p g)) = Some rq \<longrightarrow>
       PaneEntry item \<in> set (rq_entries rq) \<longrightarrow> it_automation item \<longrightarrow> it_terminalized item) \<and>
    (\<forall>en' q. cx_target (qe_context q) = SurfaceTarget PaneKind p g \<longrightarrow> \<not> effect_authorized en' q s')"
proof -
  let ?r = "takeover_ready en m p s"
  let ?t = "SurfaceTarget PaneKind p g"
  have sok: "surface_ok (rt_surfaces s)" and cok: "cap_ok (rt_leases s)"
    using runtime_okD(1) [OF assms(1)] by (simp_all add: stores_ok_def)
  have "pi_id x = p" using surface_okD(1) [OF sok, of p] assms(2) by (auto simp: get_surface_def)
  with assms(2) takeover_ready_frame(2) obtain out j where
    s': "s' = terminate_command en (TakeoverCommand m p) out (rt_revoke_target en 1 ?t ?r\<lparr>rt_journal := j\<rparr>)"
    using takeover_eq [of en m p s thesis] unfolding assms(3) [symmetric]
    by (metis (no_types, lifting) option.simps(5) surface.simps(5) takeover_eq)
  obtain ls cs where cs: "revoke_target (en_clock en 1 0) ?t (rt_leases ?r) = (ls, cs)" by fastforce
  have c: "calm sha (?r\<lparr>rt_leases := cs\<rparr>) s'"
    unfolding s' rt_revoke_target_def cs Let_def prod.case
    by (rule calm_trans [OF calm_end_leases calm_trans [OF calm_journal calm_terminate_command]])
  have cs_ok: "cap_ok cs" using shrink_revoke_target [OF cs] cok by (simp add: leases_shrink_def takeover_ready_frame)
  have lease: "\<forall>gr \<in> set (cl_grants l). gi_target gr \<noteq> ?t" if l: "jm_get (cs_leases (rt_leases s')) i = Some l" for i l
  proof -
    have "jm_get (cs_leases cs) i = Some l" using c l cs_ok by (auto simp: calm_def leases_shrink_def)
    from revoke_target_uncovers [OF _ cs this] cok show ?thesis by (simp add: takeover_ready_frame list_ex_iff)
  qed
  have lane: "\<not> is_ok (assert_automation now p a r (rt_lanes s'))" for now a r
  proof -
    have "rt_lanes s' = rt_lanes ?r" using calm_frame(3) [OF c] by simp
    moreover obtain ls0 where "rt_lanes ?r = snd (lane_takeover (en_clock en 0 0 0) p (cm_actorId m) ls0)"
      by (simp add: takeover_ready_def Let_def)
    ultimately show ?thesis
      by (auto simp: assert_automation_def lane_takeover_def lane_assert_def lane_replace_simps elim!: is_okE
          split: option.splits if_splits)
  qed
  have queue: "it_terminalized item" if "jm_get (rt_queues s') (resource_key ?t) = Some rq"
    "PaneEntry item \<in> set (rq_entries rq)" "it_automation item" for rq item
    using preempted_queue [OF assms(2) _ that(2,3), of en m] that(1) calm_frame(4) [OF c] by simp
  have "\<not> effect_authorized en' q s'" if "cx_target (qe_context q) = ?t" for en' q
    using lease that by (auto simp: effect_authorized_def lease_covers_action_def Let_def)
  with lease lane queue show ?thesis by blast
qed

section \<open>Refusals and bounds\<close>

lemma remember_bounded_get:
  assumes "0 < limit"
  shows "jm_get (remember_bounded limit k v m) k = Some v"
proof -
  have none: "jm_get (jm_delete k m) k = None" by simp
  let ?n = "length (jm_delete k m @ [(k, v)]) - limit"
  have "k \<notin> fst ` set (jm_delete k m)" using none unfolding map_of_eq_None_iff .
  then have "k \<notin> fst ` set (drop ?n (jm_delete k m))" using set_drop_subset by fast
  then have "jm_get (drop ?n (jm_delete k m)) k = None" by (simp add: map_of_eq_None_iff)
  moreover have "drop ?n (jm_delete k m @ [(k, v)]) = drop ?n (jm_delete k m) @ [(k, v)]" using assms by simp
  ultimately show ?thesis by (simp add: remember_bounded_def drop_oldest_drop map_add_def)
qed

lemma refusal_frame:
  assumes "s' = append_terminal en i k (Rejected code) None (append_requested i k s) \<or>
    s' = terminate_command en c (Rejected code) (request_command c s) \<and> i = cm_id (runtime_envelope c) \<and> k = cm_key (runtime_envelope c)"
  shows "rt_frame s' = rt_frame s \<and> rt_leases s' = rt_leases s \<and> rt_approvals s' = rt_approvals s \<and>
     rt_requests s' = rt_requests s \<and> rt_tombstones s' = rt_tombstones s \<and> rt_pending s' = rt_pending s \<and>
     rt_receipts s' = rt_receipts s \<and> jm_get (rt_outcomes s') k = Some (Rejected code) \<and>
     rt_journal s' = rt_journal s @ [EvRequested i k, EvTerminal i k (Rejected code) None]"
proof -
  have pos: "0 < MAX_COMMAND_RECORDS" by (simp add: MAX_COMMAND_RECORDS_def)
  from assms show ?thesis
    by (auto simp: append_terminal_def append_requested_def remember_outcome_def rt_frame_def remember_bounded_get [OF pos]
        terminate_command_def request_command_def retain_command_record_def Let_def split: option.splits)
qed

text \<open>
  C6. A command of a stale owner epoch, a surface command of any other epoch, an operator's command
  from an actor that is not human, and a delegation by one that is not, are rejected with their code;
  the request and the rejection are journaled, and the stores, queues, requests, pending approvals,
  receipts and effects stay as they were.
\<close>
theorem refused_commands_change_nothing:
  assumes "cm_ownerEpoch (runtime_envelope c) < rt_ownerEpoch s \<or>
      is_surface_control c \<and> cm_ownerEpoch (runtime_envelope c) \<noteq> rt_ownerEpoch s \<or>
      (\<exists>cmd. c = SurfaceCommand cmd \<and> requires_operator cmd \<and> cm_actorKind (command_envelope cmd) \<noteq> HumanActor) \<or>
      (\<exists>m p a t ttl. c = DelegateCommand m p a t ttl \<and> cm_actorKind m \<noteq> HumanActor)"
  shows "\<exists>code \<in> {''stale_owner_epoch'', ''operator_required'', ''human_actor_required''}.
    (let m = runtime_envelope c; s' = submit_fresh en c s in
     rt_frame s' = rt_frame s \<and> rt_leases s' = rt_leases s \<and> rt_approvals s' = rt_approvals s \<and>
     rt_requests s' = rt_requests s \<and> rt_tombstones s' = rt_tombstones s \<and> rt_pending s' = rt_pending s \<and>
     rt_receipts s' = rt_receipts s \<and> jm_get (rt_outcomes s') (cm_key m) = Some (Rejected code) \<and>
     rt_journal s' = rt_journal s @ [EvRequested (cm_id m) (cm_key m), EvTerminal (cm_id m) (cm_key m) (Rejected code) None])"
proof -
  let ?m = "runtime_envelope c"
  show ?thesis
  proof (cases "cm_ownerEpoch ?m < rt_ownerEpoch s \<or> is_surface_control c \<and> cm_ownerEpoch ?m \<noteq> rt_ownerEpoch s")
    case True
    then have "submit_fresh en c s = terminate_command en c (Rejected ''stale_owner_epoch'') (request_command c s)"
      by (simp add: submit_fresh_def Let_def reject_stale_owner_epoch_def)
    from refusal_frame [OF disjI2 [OF conjI [OF this conjI [OF refl refl]]]] show ?thesis
      by (intro bexI [of _ "''stale_owner_epoch''"]) (simp_all only: Let_def, simp)
  next
    case False
    note fresh = submit_fresh_def [of en c s, unfolded Let_def, unfolded if_not_P [OF False]]
    from False assms consider
      cmd where "c = SurfaceCommand cmd" "requires_operator cmd" "cm_actorKind (command_envelope cmd) \<noteq> HumanActor"
      | m p a t ttl where "c = DelegateCommand m p a t ttl" "cm_actorKind m \<noteq> HumanActor" by blast
    then show ?thesis
    proof cases
      case 1
      then have "submit_fresh en c s = append_terminal en (cm_id ?m) (cm_key ?m) (Rejected ''operator_required'') None
          (append_requested (cm_id ?m) (cm_key ?m) s)"
        unfolding fresh by (simp add: execute_surface_command_def Let_def)
      from refusal_frame [OF disjI1 [OF this]] show ?thesis
        by (intro bexI [of _ "''operator_required''"]) (simp_all only: Let_def, simp)
    next
      case 2
      then have "submit_fresh en c s = terminate_command en c (Rejected ''human_actor_required'') (request_command c s)"
        unfolding fresh by (simp add: execute_delegate_def Let_def)
      from refusal_frame [OF disjI2 [OF conjI [OF this conjI [OF refl refl]]]] show ?thesis
        by (intro bexI [of _ "''human_actor_required''"]) (simp_all only: Let_def, simp)
    qed
  qed
qed

text \<open>
  C7. Over every run from the start the runtime's memories keep their limits (100 pending lease
  requests, 1,000 spent request identities, receipts, outcomes and command records, 64 effects per
  resource), each resource queue is filed under its own resource and counts exactly the effects that
  wait in it, all of them for that resource, and the stores keep their invariants.
\<close>
theorem runtime_stays_bounded:
  assumes "runtime_run sha (runtime_init epoch) tr s"
  shows "length (rt_requests s) \<le> 100 \<and> length (rt_tombstones s) \<le> 1000 \<and> length (rt_receipts s) \<le> 1000 \<and>
    length (rt_outcomes s) \<le> 1000 \<and> length (rt_records s) \<le> 1000 \<and>
    (\<forall>k rq. jm_get (rt_queues s) k = Some rq \<longrightarrow> k = resource_key (rq_target rq) \<and> rq_pendingEffects rq \<le> 64 \<and>
       rq_pendingEffects rq = length (effects_of (rq_entries rq)) \<and>
       (\<forall>q \<in> set (effects_of (rq_entries rq)). cx_target (qe_context q) = rq_target rq)) \<and>
    cap_ok (rt_leases s) \<and> approvals_ok sha (rt_approvals s) \<and> lane_ok (rt_lanes s) \<and> surface_ok (rt_surfaces s)"
proof -
  have ok: "runtime_ok sha s" using assms runtime_ok_init by (rule runtime_run_ok)
  have "k = resource_key (rq_target rq) \<and> rq_pendingEffects rq \<le> 64 \<and>
       rq_pendingEffects rq = length (effects_of (rq_entries rq)) \<and>
       (\<forall>q \<in> set (effects_of (rq_entries rq)). cx_target (qe_context q) = rq_target rq)"
    if "jm_get (rt_queues s) k = Some rq" for k rq
    using queues_okD [OF runtime_okD(2) [OF ok] that] unfolding queue_ok_def AGENT_CONTROL_LIMITS_def by auto
  moreover have "length (rt_requests s) \<le> 100 \<and> length (rt_tombstones s) \<le> 1000 \<and> length (rt_receipts s) \<le> 1000 \<and>
      length (rt_outcomes s) \<le> 1000 \<and> length (rt_records s) \<le> 1000 \<and>
      cap_ok (rt_leases s) \<and> approvals_ok sha (rt_approvals s) \<and> lane_ok (rt_lanes s) \<and> surface_ok (rt_surfaces s)"
    using runtime_okD(1) [OF ok]
    by (simp add: stores_ok_def memory_ok_def AGENT_CONTROL_LIMITS_def MAX_COMMAND_RECORDS_def)
  ultimately show ?thesis by blast
qed

section \<open>The properties on a small runtime\<close>

text \<open>
  A pane, a lease on it, and an observation of it that waits in the pane's queue. \<open>demo_env\<close> reads the
  time 5 throughout.
\<close>

definition demo_env :: rt_env where
  "demo_env = \<lparr>en_platform = \<lparr>pf_sha = demo_sha, pf_cleanUrl = (\<lambda>_. None)\<rparr>, en_now = 5, en_clock = (\<lambda>_ _ _. 5),
     en_credential = None, en_semantics = None, en_leaseId = ''L2'', en_approvalId = ''A2'',
     en_effect = EffectValue RawNull, en_resolve = id, en_relative = (\<lambda>_ _. []), en_isAbsolute = (\<lambda>_. False)\<rparr>"

definition demo_observe :: action_command where
  "demo_observe = \<lparr>ac_id = ''c1'', ac_key = ''k1'', ac_projectRoot = ''/w'', ac_actorKind = PsycheActor, ac_actorId = ''agent'',
     ac_ownerEpoch = 1, ac_createdAt = ''now'', ac_expiresAt = Some 9, ac_taskId = ''task'', ac_leaseId = ''L1'',
     ac_leaseRevision = 1, ac_payload = ObservePayload ''p1'' 1 None\<rparr>"

definition demo_queued :: queued_effect where
  "demo_queued = \<lparr>qe_context = \<lparr>cx_command = demo_observe, cx_target = SurfaceTarget PaneKind ''p1'' 1,
       cx_classification = policy Allow PaneObserve, cx_effect = None,
       cx_digest = digest_executable_payload demo_sha demo_observe None\<rparr>,
     qe_resolver = None, qe_approval = None\<rparr>"

definition demo_lease :: capability_lease where
  "demo_lease = \<lparr>cl_id = ''L1'', cl_requestId = ''r1'', cl_revision = 1, cl_ownerEpoch = 1, cl_actorId = ''agent'',
     cl_taskId = ''task'', cl_grantedBy = ''op'',
     cl_grants = [\<lparr>gi_target = SurfaceTarget PaneKind ''p1'' 1, gi_capabilities = [PaneObserve]\<rparr>],
     cl_createdAt = 0, cl_expiresAt = 100\<rparr>"

definition demo_ready :: runtime where
  "demo_ready = (runtime_init 1)
     \<lparr>rt_surfaces := \<lparr>sr_resources = [(''p1'', PaneSurface 1 (demo_pane ''%1''))], sr_generations = [(''p1'', 1)]\<rparr>,
      rt_leases := (cap_init 1 None None)\<lparr>cs_leases := [(''L1'', demo_lease)], cs_byRequest := [(''r1'', ''L1'')]\<rparr>,
      rt_queues := [(''pane:p1:1'', \<lparr>rq_target = SurfaceTarget PaneKind ''p1'' 1, rq_entries = [EffectEntry demo_queued],
         rq_pendingEffects = 1, rq_quarantined = False\<rparr>)]\<rparr>"

lemma demo_authorized: "action_allowed demo_env 0 demo_observe (SurfaceTarget PaneKind ''p1'' 1) PaneObserve demo_ready"
  by (simp add: action_allowed_iff target_registered_def demo_ready_def get_surface_def demo_pane_def demo_observe_def
      subject_accepted_def read_task_subject_status_def demo_env_def lease_covers_action_def demo_lease_def cap_init_def)

lemma demo_revalidates: "revalidate demo_env (qe_context demo_queued) demo_ready = (Inr (), demo_ready)"
proof -
  let ?ctx = "qe_context demo_queued"
  have desc: "describe_action (en_platform demo_env) (en_semantics demo_env) demo_observe = Inr ?ctx"
    by (simp add: describe_action_def demo_observe_def demo_env_def demo_queued_def action_target_def)
  have now: "assert_command_current (rt_ownerEpoch demo_ready) (en_now demo_env) demo_observe = Inr ()"
    by (simp add: assert_command_current_def demo_observe_def demo_env_def demo_ready_def runtime_init_def throw_if_def)
  have cmd: "cx_command ?ctx = demo_observe" "cx_target ?ctx = SurfaceTarget PaneKind ''p1'' 1"
    "pc_capability (cx_classification ?ctx) = PaneObserve"
    by (simp_all add: demo_queued_def)
  have "prepare_surface_action demo_env 0 demo_observe demo_ready = (Inr ?ctx, demo_ready)"
    using desc now demo_authorized cmd by (simp add: prepare_Inr)
  then show ?thesis
    by (simp add: revalidate_def and_do_def cmd now contexts_match_same throw_if_def)
qed

lemma demo_runs: "rt_effects (runtime_exec demo_env (RunQueue ''pane:p1:1'') demo_ready) = [demo_queued]"
proof -
  have "run_queue demo_env ''pane:p1:1'' demo_ready = run_surface_effect demo_env demo_queued demo_ready"
    by (simp add: run_queue_def demo_ready_def)
  then show ?thesis
    by (simp add: run_surface_effect_def Let_def demo_revalidates finish_effects)
      (simp add: demo_ready_def runtime_init_def)
qed

lemma effect_runs_only_authorized_witness:
  "lease_covers_action 5 demo_observe (SurfaceTarget PaneKind ''p1'' 1) PaneObserve (rt_leases demo_ready)"
proof -
  have "rt_effects (runtime_exec demo_env (RunQueue ''pane:p1:1'') demo_ready) \<noteq> rt_effects demo_ready"
    unfolding demo_runs by (simp add: demo_ready_def runtime_init_def)
  from effect_runs_only_authorized [OF this] obtain q where "effect_authorized demo_env q demo_ready" "[demo_queued] = [] @ [q]"
    unfolding demo_runs by (auto simp: demo_ready_def runtime_init_def)
  then have "effect_authorized demo_env demo_queued demo_ready" by simp
  then show ?thesis by (simp add: effect_authorized_def Let_def demo_queued_def demo_env_def)
qed

lemma demo_keys: "resource_key (SurfaceTarget PaneKind ''p1'' 1) = ''pane:p1:1''"
proof -
  have "show_nat 1 = ''1''" by code_simp
  then show ?thesis by (simp add: resource_key_def)
qed

lemma demo_surface_ok: "surface_ok \<lparr>sr_resources = [(''p1'', PaneSurface 1 (demo_pane ''%1''))], sr_generations = [(''p1'', 1)]\<rparr>"
  by (auto simp: surface_ok_def last_generation_def demo_pane_def)

lemma demo_ready_ok: "runtime_ok demo_sha demo_ready"
proof (rule runtime_okI)
  have "cap_ok ((cap_init 1 None None)\<lparr>cs_leases := [(''L1'', demo_lease)], cs_byRequest := [(''r1'', ''L1'')]\<rparr>)"
    by (auto simp: cap_ok_def cap_index_def cap_init_def demo_lease_def split: if_splits)
  then show "stores_ok demo_sha demo_ready"
    using approvals_ok_init lane_ok_init demo_surface_ok
    by (simp add: stores_ok_def demo_ready_def runtime_init_def memory_ok_def) (simp add: cap_init_def)
  have "queue_ok ''pane:p1:1'' \<lparr>rq_target = SurfaceTarget PaneKind ''p1'' 1, rq_entries = [EffectEntry demo_queued],
      rq_pendingEffects = 1, rq_quarantined = False\<rparr>"
    using demo_keys by (simp add: queue_ok_def gate_ok_def demo_queued_def AGENT_CONTROL_LIMITS_def)
  then show "queues_ok (rt_queues demo_ready)" by (simp add: demo_ready_def queues_ok_def)
  show "list_all gate_ok (rt_effects demo_ready)" by (simp add: demo_ready_def runtime_init_def)
  show "approval_uses i demo_ready \<le> 1" "0 < approval_uses i demo_ready \<Longrightarrow> approval_live (rt_approvals demo_ready) i = None" for i
    by (simp_all add: approval_uses_def queue_uses_def demo_ready_def runtime_init_def demo_queued_def)
qed

lemma demo_fresh: "fresh_env demo_env demo_ready"
  by (simp add: fresh_env_def demo_env_def demo_ready_def cap_init_def approval_uses_def queue_uses_def runtime_init_def demo_queued_def)

lemma dead_lease_runs_nothing_witness:
  "\<exists>new. rt_effects (runtime_exec demo_env (RunQueue ''pane:p1:1'') demo_ready) = rt_effects demo_ready @ new \<and>
    (\<forall>q \<in> set new. ac_leaseId (cx_command (qe_context q)) \<noteq> ''L0'')"
proof (rule dead_lease_runs_nothing)
  have "pf_sha (en_platform demo_env) = demo_sha" by (simp add: demo_env_def)
  then show "runtime_run demo_sha demo_ready [(demo_env, RunQueue ''pane:p1:1'')] (runtime_exec demo_env (RunQueue ''pane:p1:1'') demo_ready)"
    by (rule run_step [OF _ demo_fresh run_done])
  show "runtime_ok demo_sha demo_ready" by (rule demo_ready_ok)
  show "jm_get (cs_leases (rt_leases demo_ready)) ''L0'' = None" by (simp add: demo_ready_def)
  show "\<forall>(en, st) \<in> set [(demo_env, RunQueue ''pane:p1:1'')]. en_leaseId en \<noteq> ''L0''" by (simp add: demo_env_def)
qed

definition demo_operator :: envelope where
  "demo_operator = \<lparr>cm_id = ''c9'', cm_key = ''k9'', cm_projectRoot = ''/w'', cm_actorKind = HumanActor, cm_actorId = ''op'',
     cm_ownerEpoch = 3, cm_createdAt = ''now''\<rparr>"

lemma takeover_silences_agents_witness:
  "\<not> effect_authorized demo_env demo_queued (execute_takeover demo_env demo_operator ''p1'' demo_ready)"
proof -
  have "get_surface ''p1'' (rt_surfaces demo_ready) = Some (PaneSurface 1 (demo_pane ''%1''))"
    by (simp add: get_surface_def demo_ready_def)
  from takeover_silences_agents [OF demo_ready_ok this refl, of demo_env demo_operator] show ?thesis
    by (simp add: demo_queued_def)
qed

lemma runtime_stays_bounded_witness:
  "length (rt_outcomes (runtime_exec demo_env (Submit (TakeoverCommand demo_operator ''p1'')) (runtime_init 3))) \<le> 1000"
proof -
  have sha: "pf_sha (en_platform demo_env) = demo_sha" by (simp add: demo_env_def)
  have fresh: "fresh_env demo_env (runtime_init 3)"
    by (simp add: fresh_env_def demo_env_def cap_init_def approval_uses_def queue_uses_def runtime_init_def)
  from runtime_stays_bounded [OF run_step [OF sha fresh run_done]] show ?thesis by blast
qed

lemma refused_commands_change_nothing_witness:
  "rt_leases (submit_fresh demo_env (DelegateCommand (demo_operator\<lparr>cm_actorKind := PsycheActor\<rparr>) ''p1'' ''a'' ''t'' 9) (runtime_init 3)) =
   rt_leases (runtime_init 3)"
proof -
  let ?c = "DelegateCommand (demo_operator\<lparr>cm_actorKind := PsycheActor\<rparr>) ''p1'' ''a'' ''t'' 9"
  have "cm_ownerEpoch (runtime_envelope ?c) < rt_ownerEpoch (runtime_init 3) \<or>
      is_surface_control ?c \<and> cm_ownerEpoch (runtime_envelope ?c) \<noteq> rt_ownerEpoch (runtime_init 3) \<or>
      (\<exists>cmd. ?c = SurfaceCommand cmd \<and> requires_operator cmd \<and> cm_actorKind (command_envelope cmd) \<noteq> HumanActor) \<or>
      (\<exists>m p a t ttl. ?c = DelegateCommand m p a t ttl \<and> cm_actorKind m \<noteq> HumanActor)"
    by simp
  from refused_commands_change_nothing [OF this, of demo_env] show ?thesis by (auto simp: Let_def)
qed

text \<open>A request to close a pane that waits for approval \<open>x\<close>, and the operator who approves it.\<close>

definition demo_close :: action_command where
  "demo_close = \<lparr>ac_id = ''act'', ac_key = ''k2'', ac_projectRoot = ''/w'', ac_actorKind = PsycheActor, ac_actorId = ''agent'',
     ac_ownerEpoch = 3, ac_createdAt = ''now'', ac_expiresAt = None, ac_taskId = ''t'', ac_leaseId = ''l'',
     ac_leaseRevision = 1, ac_payload = PanePayload (Some ''p'') (Some 2) None [(''kind'', JStr ''close'')]\<rparr>"

definition demo_context :: action_context where
  "demo_context = \<lparr>cx_command = demo_close, cx_target = SurfaceTarget PaneKind ''p'' 2,
     cx_classification = policy NeedsApproval PaneClose, cx_effect = Some demo_effect,
     cx_digest = replicate 64 (CHR ''a'')\<rparr>"

definition demo_pending :: approval_store where
  "demo_pending = ap_step demo_sha (OpRequest ''x'' (demo_request ''act'') 0) approvals_init"

definition demo_gated :: runtime where
  "demo_gated = (runtime_init 3)
     \<lparr>rt_surfaces := \<lparr>sr_resources = [(''p'', PaneSurface 2 ((demo_pane ''%1'')\<lparr>pi_id := ''p''\<rparr>))], sr_generations = [(''p'', 2)]\<rparr>,
      rt_leases := (cap_init 3 None None)\<lparr>cs_leases := [(''l'', demo_lease\<lparr>cl_id := ''l'', cl_ownerEpoch := 3, cl_taskId := ''t'',
         cl_grants := [\<lparr>gi_target = SurfaceTarget PaneKind ''p'' 2, gi_capabilities = [PaneClose]\<rparr>]\<rparr>)], cs_byRequest := [(''r1'', ''l'')]\<rparr>,
      rt_approvals := demo_pending, rt_pending := [(''x'', demo_context)]\<rparr>"

definition demo_later :: rt_env where
  "demo_later = demo_env\<lparr>en_clock := (\<lambda>p _ _. if p = 1 then 1 else 2)\<rparr>"

abbreviation demo_approve :: surface_command where
  "demo_approve \<equiv> ApprovalResolve demo_operator ''x'' (replicate 64 (CHR ''a'')) True"

lemma demo_gated_ok: "runtime_ok demo_sha demo_gated"
proof (rule runtime_okI)
  have "cap_ok ((cap_init 3 None None)\<lparr>cs_leases := [(''l'', demo_lease\<lparr>cl_id := ''l'', cl_ownerEpoch := 3, cl_taskId := ''t'',
         cl_grants := [\<lparr>gi_target = SurfaceTarget PaneKind ''p'' 2, gi_capabilities = [PaneClose]\<rparr>]\<rparr>)], cs_byRequest := [(''r1'', ''l'')]\<rparr>)"
    by (auto simp: cap_ok_def cap_index_def cap_init_def demo_lease_def split: if_splits)
  moreover have "approvals_ok demo_sha demo_pending"
    using ap_run_ok [OF approvals_ok_init, of demo_sha "[OpRequest ''x'' (demo_request ''act'') 0]"] by (simp add: demo_pending_def)
  moreover have "surface_ok \<lparr>sr_resources = [(''p'', PaneSurface 2 ((demo_pane ''%1'')\<lparr>pi_id := ''p''\<rparr>))], sr_generations = [(''p'', 2)]\<rparr>"
    by (auto simp: surface_ok_def last_generation_def demo_pane_def)
  ultimately show "stores_ok demo_sha demo_gated"
    using lane_ok_init
    by (simp add: stores_ok_def demo_gated_def runtime_init_def memory_ok_def AGENT_CONTROL_LIMITS_def) (simp add: cap_init_def)
qed (simp_all add: demo_gated_def runtime_init_def queues_ok_def approval_uses_def queue_uses_def)

lemma demo_approves: "approve demo_sha ''x'' ''op'' (replicate 64 (CHR ''a'')) 1 demo_pending = (Inr (demo_approval Approved), demo_store Approved)"
proof -
  have "ap_step demo_sha (OpRequest ''x'' (demo_request ''act'') 0) approvals_init =
    \<lparr>as_approvals = [(''x'', make_approval demo_sha ''x'' (demo_identity ''act'') 0)], as_byAction = [(''act'', ''x'')]\<rparr>"
    by (simp add: ap_request_def request_at_def expire_at_def approvals_init_def demo_copy_identity Let_def
        active_count_def terminal_count_def prune_terminal_def demo_identity_def make_approval_def APPROVAL_ACTIVE_LIMIT_def)
  then show ?thesis
    unfolding demo_pending_def
    by (simp add: approve_def resolve_def demo_visible require_current_def make_approval_def
        is_active_def AGENT_CONTROL_LIMITS_def assert_digest_def assert_stored_digest_def demo_identity_def
        prune_terminal_def terminal_count_def is_terminal_def demo_store_def demo_approval_def Let_def)
qed

lemma demo_consume_value: "consume_value ''x'' (replicate 64 (CHR ''a'')) demo_context demo_effect = demo_consume ''x'' ''act''"
  by (simp add: consume_value_def demo_consume_def intent_members_def demo_context_def demo_close_def demo_members_def
      target_value_def target_kind_name_def task_subject_id_def task_subject_credential_reference_def)

lemma demo_close_allowed: "action_allowed demo_later 2 demo_close (SurfaceTarget PaneKind ''p'' 2) PaneClose demo_gated"
  by (simp add: action_allowed_iff target_registered_def demo_gated_def get_surface_def demo_pane_def demo_close_def
      subject_accepted_def read_task_subject_status_def demo_later_def demo_env_def lease_covers_action_def demo_lease_def cap_init_def)

text \<open>What the approval of the close request does.\<close>

lemma demo_resolved:
  assumes "rt_approvals s = demo_pending" "jm_get (rt_pending s) ''x'' = Some demo_context"
    "action_allowed demo_later 2 demo_close (SurfaceTarget PaneKind ''p'' 2) PaneClose s"
  shows "resolve_approval demo_later demo_operator ''x'' (replicate 64 (CHR ''a'')) True s =
    enqueue_surface_effect demo_later \<lparr>qe_context = demo_context, qe_resolver = Some demo_operator, qe_approval = Some ''x''\<rparr>
      (forget_pending ''x'' (s\<lparr>rt_approvals := demo_store Consumed\<rparr>))"
proof -
  let ?digest = "replicate 64 (CHR ''a'')"
  have env: "pf_sha (en_platform demo_later) = demo_sha" "en_clock demo_later 1 0 0 = 1" "en_clock demo_later 3 0 0 = 2"
    by (simp_all add: demo_later_def demo_env_def)
  have ctx: "cx_command demo_context = demo_close" "cx_target demo_context = SurfaceTarget PaneKind ''p'' 2"
    "cx_effect demo_context = Some demo_effect" "pc_capability (cx_classification demo_context) = PaneClose"
    by (simp_all add: demo_context_def)
  have id: "ap_id (demo_approval Approved) = ''x''" "cm_actorId demo_operator = ''op''"
    by (simp_all add: demo_approval_def demo_operator_def)
  have subject: "assert_task_subject_active demo_later 0 (ac_taskId demo_close) (ac_actorId demo_close) s = (Inr (), s)"
    using assms(3) by (simp add: assert_subject_Inr action_allowed_def)
  let ?s = "s\<lparr>rt_approvals := demo_store Approved\<rparr>"
  have "action_allowed demo_later 2 demo_close (SurfaceTarget PaneKind ''p'' 2) PaneClose ?s"
    using assms(3) by (simp add: action_allowed_def)
  then have lease: "assert_surface_and_lease demo_later 2 demo_close (SurfaceTarget PaneKind ''p'' 2) PaneClose ?s = (Inr (), ?s)"
    by (simp add: surface_and_lease_Inr)
  have "settle_approval demo_later demo_operator ?digest demo_context (demo_approval Approved) ?s = (Inr (),
      enqueue_surface_effect demo_later \<lparr>qe_context = demo_context, qe_resolver = Some demo_operator, qe_approval = Some ''x''\<rparr>
        (forget_pending ''x'' (?s\<lparr>rt_approvals := demo_store Consumed\<rparr>)))"
    unfolding settle_approval_def and_do_def ctx option.case id demo_consume_value env lease
    by (simp add: demo_consumed)
  then show ?thesis
    unfolding resolve_approval_def Let_def assms option.case ctx subject prod.case sum.case if_True id env demo_approves
    by simp
qed

lemma demo_gated_step:
  "runtime_exec demo_later (Submit (SurfaceCommand demo_approve)) demo_gated =
    enqueue_surface_effect demo_later \<lparr>qe_context = demo_context, qe_resolver = Some demo_operator, qe_approval = Some ''x''\<rparr>
      (forget_pending ''x'' (append_requested ''c9'' ''k9'' demo_gated\<lparr>rt_approvals := demo_store Consumed\<rparr>))"
proof -
  have prune: "prune_inactive_resource_queues demo_gated = demo_gated"
    by (simp add: prune_inactive_resource_queues_def prune_retired_pane_barriers_def demo_gated_def runtime_init_def)
  have keys: "pending_keys demo_gated = []" "journal_outcome k demo_gated = None" "jm_get (rt_outcomes demo_gated) k = None" for k
    by (simp_all add: pending_keys_def journal_outcome_def demo_gated_def runtime_init_def)
  have "submit demo_later (SurfaceCommand demo_approve) demo_gated = submit_fresh demo_later (SurfaceCommand demo_approve) demo_gated"
    unfolding submit_def Let_def prune keys by (simp add: AGENT_CONTROL_LIMITS_def)
  also have "\<dots> = execute_surface_command demo_later demo_approve demo_gated"
    by (simp add: submit_fresh_def Let_def demo_operator_def demo_gated_def runtime_init_def)
  also have "\<dots> = resolve_approval demo_later demo_operator ''x'' (replicate 64 (CHR ''a'')) True (append_requested ''c9'' ''k9'' demo_gated)"
    by (simp add: execute_surface_command_def demo_operator_def)
  also have "\<dots> = enqueue_surface_effect demo_later \<lparr>qe_context = demo_context, qe_resolver = Some demo_operator, qe_approval = Some ''x''\<rparr>
      (forget_pending ''x'' (append_requested ''c9'' ''k9'' demo_gated\<lparr>rt_approvals := demo_store Consumed\<rparr>))"
  proof (rule demo_resolved)
    show "rt_approvals (append_requested ''c9'' ''k9'' demo_gated) = demo_pending"
      "jm_get (rt_pending (append_requested ''c9'' ''k9'' demo_gated)) ''x'' = Some demo_context"
      by (simp_all add: append_requested_def demo_gated_def)
    show "action_allowed demo_later 2 demo_close (SurfaceTarget PaneKind ''p'' 2) PaneClose (append_requested ''c9'' ''k9'' demo_gated)"
      using demo_close_allowed by (simp add: action_allowed_def append_requested_def)
  qed
  finally show ?thesis by simp
qed

lemma enqueue_first:
  assumes "rt_queues s = []" "rt_effects s = []"
  shows "approval_uses i (enqueue_surface_effect en q s) = effect_uses i [q]"
proof -
  let ?k = "resource_key (cx_target (qe_context q))"
  have "enqueue_surface_effect en q s =
      set_queue ?k ((new_queue (cx_target (qe_context q)))\<lparr>rq_pendingEffects := 1, rq_entries := [EffectEntry q]\<rparr>)
        (s\<lparr>rt_queues := [(?k, new_queue (cx_target (qe_context q)))]\<rparr>)"
    using assms(1) by (simp add: enqueue_surface_effect_def queue_for_resource_def new_queue_def AGENT_CONTROL_LIMITS_def Let_def)
  with assms(2) show ?thesis by (simp add: set_queue_def approval_uses_def queue_uses_def)
qed

lemma demo_gated_uses: "approval_uses ''x'' demo_gated < approval_uses ''x'' (runtime_exec demo_later (Submit (SurfaceCommand demo_approve)) demo_gated)"
proof -
  have "approval_uses ''x'' demo_gated = 0"
    by (simp add: approval_uses_def queue_uses_def demo_gated_def runtime_init_def)
  moreover have "approval_uses ''x'' (runtime_exec demo_later (Submit (SurfaceCommand demo_approve)) demo_gated) = 1"
    unfolding demo_gated_step
    by (subst enqueue_first) (simp_all add: forget_pending_def append_requested_def demo_gated_def runtime_init_def)
  ultimately show ?thesis by simp
qed

lemma approval_used_by_operator_witness:
  "\<exists>a. jm_get (as_approvals (rt_approvals demo_gated)) ''x'' = Some a \<and> ap_status a = Pending \<and>
     ap_payloadDigest a = replicate 64 (CHR ''a'')"
proof -
  have sha: "pf_sha (en_platform demo_later) = demo_sha" by (simp add: demo_later_def demo_env_def)
  have fresh: "fresh_env demo_later demo_gated"
    by (simp add: fresh_env_def demo_later_def demo_env_def demo_gated_def cap_init_def approval_uses_def queue_uses_def runtime_init_def)
  from approval_used_by_operator [OF demo_gated_ok sha fresh demo_gated_uses] show ?thesis
    by (elim exE conjE) (rule exI, intro conjI, assumption, assumption, simp)
qed

lemma gated_effects_approved_once_witness:
  "let s = runtime_exec demo_env (SurfaceChange (UpsertPane (demo_pane ''%1''))) (runtime_init 3) in
     length (filter (\<lambda>q. qe_approval q = Some ''x'')
       (rt_effects s @ concat (map (\<lambda>(k, rq). effects_of (rq_entries rq)) (rt_queues s)))) \<le> 1"
proof -
  have sha: "pf_sha (en_platform demo_env) = demo_sha" by (simp add: demo_env_def)
  have fresh: "fresh_env demo_env (runtime_init 3)"
    by (simp add: fresh_env_def demo_env_def cap_init_def approval_uses_def queue_uses_def runtime_init_def)
  from gated_effects_approved_once [OF run_step [OF sha fresh run_done]] show ?thesis unfolding Let_def by blast
qed

end
