(* ===== verification/RuntimeReplay.thy ===== *)
theory RuntimeReplay
  imports RuntimeProperties
begin

text \<open>
  Idempotency of the control runtime: over any run, a command key is taken up at most once, and a key
  that was taken up is answered in the journal or waits in a queue. The handlers never journal a
  request of their own, so it is enough to follow how far each of them \<open>extends\<close> the journal.
\<close>

section \<open>Requests and answers in the journal\<close>

fun requested_key :: "runtime_event \<Rightarrow> string option" where
  "requested_key (EvRequested cid key) = Some key"
| "requested_key _ = None"

definition requests :: "string \<Rightarrow> runtime_event list \<Rightarrow> nat" where
  "requests k j = length (filter (\<lambda>e. requested_key e = Some k) j)"

text \<open>The last event with the key is a terminal one.\<close>

definition answered :: "string \<Rightarrow> runtime_event list \<Rightarrow> bool" where
  "answered k j \<longleftrightarrow>
    (case find (\<lambda>e. event_key e = Some k) (rev j) of Some e \<Rightarrow> requested_key e = None | None \<Rightarrow> False)"

definition extends :: "runtime_event list \<Rightarrow> runtime_event list \<Rightarrow> bool" where
  "extends j j' \<longleftrightarrow> (\<exists>new. j' = j @ new \<and> list_all (\<lambda>e. requested_key e = None) new)"

lemma requested_event_key: "requested_key e = Some k \<Longrightarrow> event_key e = Some k"
  by (cases e) auto

lemma terminal_event: "event_key e = Some k \<Longrightarrow> requested_key e = None \<Longrightarrow> \<exists>cid out r. e = EvTerminal cid k out r"
  by (cases e) auto

lemma answered_outcome: "journal_outcome k s \<noteq> None \<longleftrightarrow> answered k (rt_journal s)"
proof (cases "find (\<lambda>e. event_key e = Some k) (rev (rt_journal s))")
  case None
  then show ?thesis by (simp add: journal_outcome_def answered_def)
next
  case (Some e)
  then have "event_key e = Some k" by (auto simp: find_Some_iff)
  with Some show ?thesis by (cases e) (simp_all add: journal_outcome_def answered_def)
qed

lemma answered_snoc [simp]:
  "answered k (j @ [e]) = (if event_key e = Some k then requested_key e = None else answered k j)"
  by (simp add: answered_def)

lemma answered_last [simp]:
  "event_key e = Some k \<Longrightarrow> requested_key e = None \<Longrightarrow> answered k (j @ [e])"
  "event_key e = Some k \<Longrightarrow> requested_key e = None \<Longrightarrow> answered k (j @ [d, e])"
  by (simp_all add: answered_def)

lemma requests_append [simp]: "requests k (j @ j') = requests k j + requests k j'"
  by (simp add: requests_def)

lemma requests_none: "list_all (\<lambda>e. requested_key e = None) new \<Longrightarrow> requests k new = 0"
  by (induction new) (auto simp: requests_def)

lemma extends_requests: "extends j j' \<Longrightarrow> requests k j' = requests k j"
  by (auto simp: extends_def requests_none)

lemma extends_answered: "extends j j' \<Longrightarrow> answered k j \<Longrightarrow> answered k j'"
proof -
  have "list_all (\<lambda>e. requested_key e = None) new \<Longrightarrow> answered k j \<Longrightarrow> answered k (j @ new)" for new
    by (induction new rule: rev_induct) (auto simp: answered_snoc simp flip: append_assoc)
  then show "extends j j' \<Longrightarrow> answered k j \<Longrightarrow> answered k j'" by (auto simp: extends_def)
qed

lemma extends_refl [simp, intro]: "extends j j"
  by (simp add: extends_def)

lemma extends_snoc [simp]: "requested_key e = None \<Longrightarrow> extends j j' \<Longrightarrow> extends j (j' @ [e])"
  by (auto simp: extends_def)

lemma extends_append [simp]: "extends j (j @ new) \<longleftrightarrow> list_all (\<lambda>e. requested_key e = None) new"
  by (simp add: extends_def)

lemma extends_cons [simp]: "requested_key e = None \<Longrightarrow> extends (j @ [d]) (j @ [d, e])"
  by (simp add: extends_def)

lemma extends_trans: "extends a b \<Longrightarrow> extends b c \<Longrightarrow> extends a c"
  by (auto simp: extends_def)

lemma extends_terminal: "extends (j @ [EvTerminal cid k out r]) j' \<Longrightarrow> answered k j'"
  by (erule extends_answered) (simp add: answered_snoc)

section \<open>The helpers extend the journal\<close>

text \<open>Each fact continues from any journal \<open>j\<close> that the state before already extends.\<close>

definition ext :: "runtime_event list \<Rightarrow> (string, resource_queue) jsmap \<Rightarrow> runtime \<Rightarrow> bool" where
  "ext j m s \<longleftrightarrow> extends j (rt_journal s) \<and> rt_queues s = m"

lemma ext_refl [simp]: "ext (rt_journal s) (rt_queues s) s"
  by (simp add: ext_def)

lemma ext_answered: "ext j m s \<Longrightarrow> answered k j \<Longrightarrow> answered k (rt_journal s)"
  by (auto simp: ext_def intro: extends_answered)

lemma ext_frame [simp]:
  "ext j m (s\<lparr>rt_leases := a\<rparr>) = ext j m s" "ext j m (s\<lparr>rt_approvals := b\<rparr>) = ext j m s" "ext j m (s\<lparr>rt_requests := c\<rparr>) = ext j m s"
  "ext j m (s\<lparr>rt_pending := d\<rparr>) = ext j m s" "ext j m (s\<lparr>rt_records := f\<rparr>) = ext j m s"
  "ext j m (s\<lparr>rt_surfaces := g\<rparr>) = ext j m s" "ext j m (s\<lparr>rt_lanes := h\<rparr>) = ext j m s" "ext j m (s\<lparr>rt_barriers := i\<rparr>) = ext j m s"
  "ext j m (s\<lparr>rt_effects := k\<rparr>) = ext j m s" "ext j m (s\<lparr>rt_paneEffects := l\<rparr>) = ext j m s"
  "ext j m (s\<lparr>rt_immediateEffects := n\<rparr>) = ext j m s"
  by (simp_all add: ext_def)

lemma ext_event [simp]: "requested_key e = None \<Longrightarrow> ext j m s \<Longrightarrow> ext j m (s\<lparr>rt_journal := rt_journal s @ [e]\<rparr>)"
  by (simp add: ext_def)

lemma remember_journal [simp]:
  "rt_journal (remember_outcome k out s) = rt_journal s" "rt_journal (remember_receipt rc t s) = rt_journal s"
  "rt_journal (remember_lease_request_identity i s) = rt_journal s" "rt_journal (forget_pending i s) = rt_journal s"
  "rt_journal (forget_request i s) = rt_journal s" "rt_journal (set_queue key q s) = rt_journal s"
  "rt_journal (bump_pane_barrier p s) = rt_journal s" "rt_journal (retain_command_record i rec s) = rt_journal s"
  "rt_journal (prune_resource_queue key s) = rt_journal s" "rt_journal (leave_queue key b s) = rt_journal s"
  "rt_journal (leave_pane_queue key s) = rt_journal s" "rt_journal (prune_pending_approvals as s) = rt_journal s"
  "rt_journal (prune_inactive_resource_queues s) = rt_journal s"
  by (simp_all add: remember_outcome_def remember_receipt_def remember_lease_request_identity_def forget_pending_def
      forget_request_def set_queue_def bump_pane_barrier_def retain_command_record_def prune_resource_queue_def
      leave_queue_def leave_pane_queue_def prune_pending_approvals_def prune_inactive_resource_queues_def
      prune_retired_pane_barriers_def split: option.split)

lemma remember_queues [simp]:
  "rt_queues (remember_outcome k out s) = rt_queues s" "rt_queues (remember_receipt rc t s) = rt_queues s"
  "rt_queues (remember_lease_request_identity i s) = rt_queues s" "rt_queues (forget_pending i s) = rt_queues s"
  "rt_queues (forget_request i s) = rt_queues s" "rt_queues (bump_pane_barrier p s) = rt_queues s"
  "rt_queues (retain_command_record i rec s) = rt_queues s" "rt_queues (prune_pending_approvals as s) = rt_queues s"
  "rt_queues (append_terminal en i k out r s) = rt_queues s" "rt_queues (terminate_command en c out s) = rt_queues s"
  "rt_queues (append_requested i k s) = rt_queues s" "rt_queues (request_command c s) = rt_queues s"
  by (simp_all add: remember_outcome_def remember_receipt_def remember_lease_request_identity_def forget_pending_def
      forget_request_def bump_pane_barrier_def retain_command_record_def prune_pending_approvals_def append_terminal_def
      terminate_command_def append_requested_def request_command_def Let_def split: option.split)

lemma terminal_journal [simp]:
  "rt_journal (append_terminal en i k out r s) =
     rt_journal s @ [EvTerminal i k out (map_option (journal_receipt_metadata (pf_sha (en_platform en))) r)]"
  by (simp add: append_terminal_def)

lemma terminate_journal [simp]:
  "rt_journal (terminate_command en c out s) =
     rt_journal s @ [EvTerminal (cm_id (runtime_envelope c)) (cm_key (runtime_envelope c)) out None]"
  by (simp add: terminate_command_def Let_def split: option.split)

lemma request_journal [simp]:
  "rt_journal (append_requested i k s) = rt_journal s @ [EvRequested i k]"
  "rt_journal (request_command c s) = rt_journal s @ [EvRequested (cm_id (runtime_envelope c)) (cm_key (runtime_envelope c))]"
  by (simp_all add: append_requested_def request_command_def Let_def)

lemma ext_terminal [simp]: "ext j m s \<Longrightarrow> ext j m (append_terminal en i k out r s)"
  "ext j m s \<Longrightarrow> ext j m (terminate_command en c out s)"
  by (simp_all add: ext_def)

lemma answered_terminal [simp]:
  "answered k (rt_journal (append_terminal en i k out r s))"
  by (simp add: answered_snoc)

lemma ext_remember [simp]:
  "ext j m (remember_outcome k out s) = ext j m s" "ext j m (remember_receipt rc t s) = ext j m s"
  "ext j m (remember_lease_request_identity i s) = ext j m s" "ext j m (forget_pending i s) = ext j m s"
  "ext j m (forget_request i s) = ext j m s" "ext j m (bump_pane_barrier p s) = ext j m s"
  "ext j m (prune_pending_approvals as s) = ext j m s"
  by (simp_all add: ext_def)

lemma ext_fold: "(\<And>x s. ext j m s \<Longrightarrow> ext j m (f x s)) \<Longrightarrow> ext j m s \<Longrightarrow> ext j m (fold f xs s)"
  by (induction xs arbitrary: s) auto

lemma ext_terminalize: "ext j m s \<Longrightarrow> ext j m (terminalize_validation_failure en c t code own s)"
  by (simp add: terminalize_validation_failure_def Let_def)

lemma ext_finalize: "ext j m s \<Longrightarrow> ext j m (finalize_approval en code fb i s)"
  by (simp add: finalize_approval_def ext_terminalize split: option.split)

lemma ext_finalize_all: "ext j m s \<Longrightarrow> ext j m (finalize_approvals en code as s)"
  unfolding finalize_approvals_def by (rule ext_fold) (auto intro: ext_finalize)

lemma ext_refresh_with: "ext j m s \<Longrightarrow> ext j m (refresh_with en p i ls s)"
  by (simp add: refresh_with_def Let_def ext_finalize_all split: prod.split)

lemma ext_refresh: "ext j m s \<Longrightarrow> ext j m (refresh_approval_state en p i s)"
  by (simp add: refresh_approval_state_def ext_refresh_with split: prod.split)

lemma ext_revoke_for_lease: "ext j m s \<Longrightarrow> ext j m (revoke_approvals_for_lease en p i l s)"
  by (simp add: revoke_approvals_for_lease_def Let_def ext_finalize_all ext_refresh split: prod.split)

lemma ext_end_leases: "ext j m s \<Longrightarrow> ext j m (end_leases en p i ls s)"
  by (induction ls arbitrary: i s) (simp_all add: ext_revoke_for_lease)

lemma ext_rt_revoke_target: "ext j m s \<Longrightarrow> ext j m (rt_revoke_target en p t s)"
  by (simp add: rt_revoke_target_def ext_end_leases split: prod.split)

lemma ext_invalidate_subject: "ext j m s \<Longrightarrow> ext j m (invalidate_task_subject_authority en p t a s)"
proof -
  assume e: "ext j m s"
  have "ext j m (fold forget_request is s)" for "is" using e by (intro ext_fold) simp_all
  then have "ext j m (revoke_approvals_for_task_subject en p t a (fold forget_request is s))" for "is"
    by (simp add: revoke_approvals_for_task_subject_def Let_def ext_finalize_all split: prod.split)
  then show ?thesis
    by (simp add: invalidate_task_subject_authority_def Let_def ext_end_leases split: prod.split)
qed

lemma ext_assert_subject: "assert_task_subject_active en p t a s = (r, s') \<Longrightarrow> ext j m s \<Longrightarrow> ext j m s'"
  by (auto simp: assert_task_subject_active_def ext_invalidate_subject split: subject_status.splits)

lemma ext_assert_lease: "assert_capability_lease en p a s = (r, s') \<Longrightarrow> ext j m s \<Longrightarrow> ext j m s'"
  unfolding assert_capability_lease_def
  by (erule and_do_cases) (auto split: prod.splits sum.splits dest: ext_assert_subject)

lemma ext_surface_and_lease: "assert_surface_and_lease en p c t cap s = (r, s') \<Longrightarrow> ext j m s \<Longrightarrow> ext j m s'"
  unfolding assert_surface_and_lease_def by (erule and_do_cases) (auto dest: ext_assert_lease)

lemma ext_prepare: "prepare_surface_action en p c s = (r, s') \<Longrightarrow> ext j m s \<Longrightarrow> ext j m s'"
  unfolding prepare_surface_action_def
  by (elim and_do_cases) (auto elim!: and_do_cases dest: ext_surface_and_lease)

lemma ext_revalidate: "revalidate en ctx s = (r, s') \<Longrightarrow> ext j m s \<Longrightarrow> ext j m s'"
  unfolding revalidate_def by (elim and_do_cases) (auto elim!: and_do_cases dest: ext_prepare)

section \<open>The handlers extend the journal\<close>

lemma ext_lease_request: "lease_request en m t ttl gs s = (r, s') \<Longrightarrow> ext j q s \<Longrightarrow> ext j q s'"
  unfolding lease_request_def
  by (elim and_do_cases)
    (auto simp: request_has_lease_def split: if_splits prod.splits elim!: and_do_cases dest: ext_assert_subject)

lemma ext_handle_request: "handle_lease_request en m t ttl gs s = (r, s') \<Longrightarrow> ext j q s \<Longrightarrow> ext j q s'"
  unfolding handle_lease_request_def by (elim and_do_cases) (auto dest: ext_lease_request)

lemma ext_grant:
  assumes "handle_lease_grant en m i s = (r, s')" "ext j q s"
  shows "ext j q s'"
proof (cases "jm_get (rt_requests s) i")
  case None
  with assms show ?thesis
    by (auto simp: handle_lease_grant_def and_do_def request_has_lease_def split: if_splits prod.splits sum.splits)
next
  case (Some request)
  have finish: "ext j q b" if "(case cap_grant clk f x (rt_leases a) of
      (Inl e, cs) \<Rightarrow> (Inl (cap_code e), a\<lparr>rt_leases := cs\<rparr>)
    | (Inr lease, cs) \<Rightarrow> (Inr (LeaseReply lease), forget_request (lq_id request) (a\<lparr>rt_leases := cs\<rparr>))) = (u, b)"
    "ext j q a" for clk f x a b u
    using that by (auto split: prod.splits sum.splits)
  from assms Some show ?thesis
    by (auto simp: handle_lease_grant_def elim!: and_do_cases)
      (blast dest: ext_assert_subject finish)+
qed

lemma ext_release:
  assumes "handle_lease_release en m t i n s = (r, s')" "ext j q s"
  shows "ext j q s'"
proof -
  obtain ls cs where c: "cap_snapshot (en_clock en 0 0) (rt_leases s) = (ls, cs)" by fastforce
  show ?thesis
    using assms c
    by (auto simp: handle_lease_release_def Let_def ext_revoke_for_lease split: option.splits if_splits
        elim!: and_do_cases dest: ext_assert_subject)
qed

lemma ext_lease_revoke: "handle_lease_revoke en i s = (r, s') \<Longrightarrow> ext j q s \<Longrightarrow> ext j q s'"
  by (auto simp: handle_lease_revoke_def ext_revoke_for_lease split: prod.splits option.splits)

lemma ext_provider_upsert: "handle_provider_upsert en m x s = (r, s') \<Longrightarrow> ext j q s \<Longrightarrow> ext j q s'"
  unfolding handle_provider_upsert_def
  by (elim and_do_cases) (auto simp: Let_def ext_rt_revoke_target split: prod.splits option.splits surface.splits if_splits)

lemma ext_provider_remove: "handle_provider_remove en i g s = (r, s') \<Longrightarrow> ext j q s \<Longrightarrow> ext j q s'"
  unfolding handle_provider_remove_def
  by (elim and_do_cases) (auto simp: ext_rt_revoke_target split: if_splits)

lemma ext_simple: "simple_command en cmd s = (r, s') \<Longrightarrow> ext j q s \<Longrightarrow> ext j q s'"
  unfolding simple_command_def
  by (cases cmd) (auto intro: ext_handle_request ext_grant ext_release ext_lease_revoke ext_provider_upsert ext_provider_remove)

lemma ext_request_approval:
  assumes "request_approval en ctx s = (r, s')" "ext j q s"
  shows "ext j q s'"
proof (cases "cx_effect ctx")
  case None
  with assms show ?thesis by (simp add: request_approval_def)
next
  case (Some effect)
  let ?s1 = "refresh_approval_state en 1 0 s"
  have e: "ext j q ?s1" by (rule ext_refresh [OF assms(2)])
  obtain x ap where x: "request_current (pf_sha (en_platform en)) (en_approvalId en) (JsObj (intent_members ctx effect))
      (en_clock en 1 3 0) (rt_approvals ?s1) = (x, ap)" by fastforce
  show ?thesis
    using assms(1) Some x e
    by (cases x) (auto simp: request_approval_def Let_def ext_def)
qed

lemma ext_finish: "ext j m s \<Longrightarrow> ext j m (finish_effect en q r s)"
  by (simp add: finish_effect_def complete_effect_def Let_def split: option.split)

text \<open>The key under which a queued effect waits.\<close>

definition effect_key :: "queued_effect \<Rightarrow> string" where
  "effect_key q = (case qe_resolver q of None \<Rightarrow> ac_key (cx_command (qe_context q)) | Some m \<Rightarrow> cm_key m)"

lemma finish_answers: "answered (effect_key q) (rt_journal (finish_effect en q r s))"
  by (simp add: finish_effect_def complete_effect_def Let_def effect_key_def answered_last split: option.split)

lemma describe_action_key:
  assumes "describe_action pf sem c = Inr ctx"
  shows "ac_key (cx_command ctx) = ac_key c"
  using assms
  by (cases "ac_payload c") (auto simp: describe_action_def result_simps split: option.splits prod.splits)

text \<open>A surface action is answered, or its effect is enqueued under the key of the action.\<close>

lemma surface_action_ext:
  assumes "ext j m s"
  obtains (settled) "ext j m (surface_action en c s)" "answered (ac_key c) (rt_journal (surface_action en c s))"
  | (queued) s1 q where "ext j m s1" "surface_action en c s = enqueue_surface_effect en q s1" "effect_key q = ac_key c"
proof -
  let ?own = "trusted_validation_failure_ownership c s"
  let ?fail = "\<lambda>e s. if e = Some ''approval_action_conflict''
                       then append_terminal en (ac_id c) (ac_key c) (failed_outcome e) None s
                       else terminalize_validation_failure en c (target_for_surface_action c)
                              (validation_failure_code e) ?own s"
  have fail: "ext j m s' \<Longrightarrow> ext j m (?fail e s')" "answered (ac_key c) (rt_journal (?fail e s'))" for e s'
    by (simp_all add: ext_terminalize) (simp_all add: terminalize_validation_failure_def Let_def answered_snoc)
  obtain r s1 where p: "prepare_surface_action en 0 c s = (r, s1)" by fastforce
  have c1: "ext j m s1" by (rule ext_prepare [OF p assms])
  show thesis
  proof (cases r)
    case (Inl e)
    with p have eq: "surface_action en c s = ?fail e s1" by (simp add: surface_action_def Let_def)
    show thesis by (rule settled; unfold eq) (rule fail(1) [OF c1], rule fail(2))
  next
    case (Inr ctx)
    with p have cmd: "ac_key (cx_command ctx) = ac_key c" by (auto simp: prepare_Inr dest: describe_action_key)
    show thesis
    proof (cases "pc_decision (cx_classification ctx) = NeedsApproval")
      case True
      obtain r2 s2 where q: "request_approval en ctx s1 = (r2, s2)" by fastforce
      have h: "ext j m s2" by (rule ext_request_approval [OF q c1])
      show thesis
      proof (cases r2)
        case (Inl e)
        with p Inr True q have eq: "surface_action en c s = ?fail e s2" by (simp add: surface_action_def Let_def)
        show thesis by (rule settled; unfold eq) (rule fail(1) [OF h], rule fail(2))
      next
        case (Inr x)
        with p \<open>r = Inr ctx\<close> True q obtain o' rc where
          "surface_action en c s = append_terminal en (ac_id c) (ac_key c) o' rc s2"
          by (simp add: surface_action_def Let_def)
        with h settled show thesis by simp
      qed
    next
      case False
      with p Inr have "surface_action en c s = enqueue_surface_effect en
          \<lparr>qe_context = ctx, qe_resolver = None, qe_approval = None\<rparr> s1"
        by (simp add: surface_action_def Let_def)
      with c1 cmd queued show thesis by (simp add: effect_key_def)
    qed
  qed
qed

lemma settle_ext:
  assumes "settle_approval en m digest ctx a s = (r, s')" and "ext j q s"
  obtains (failed) e where "r = Inl e" "ext j q s'"
  | (queued) s1 where "r = Inr ()" "ext j q s1"
      "s' = enqueue_surface_effect en \<lparr>qe_context = ctx, qe_resolver = Some m, qe_approval = Some (ap_id a)\<rparr> s1"
proof (cases "cx_effect ctx")
  case None
  with assms failed show ?thesis by (auto simp: settle_approval_def)
next
  case (Some effect)
  let ?f = "assert_surface_and_lease en 2 (cx_command ctx) (cx_target ctx) (pc_capability (cx_classification ctx))"
  define g where "g = (\<lambda>(u :: unit) (s :: runtime). case consume (pf_sha (en_platform en)) (consume_value (ap_id a) digest ctx effect)
        (en_clock en 3 0 0) (rt_approvals s) of
      (Inl e, ap) \<Rightarrow> (Inl (approval_code e), s\<lparr>rt_approvals := ap\<rparr>)
    | (Inr consumed, ap) \<Rightarrow> (Inr consumed, s\<lparr>rt_approvals := ap\<rparr>))"
  obtain w s1 where w: "and_do ?f g s = (w, s1)" by fastforce
  then have e1: "ext j q s1"
  proof (cases rule: and_do_cases)
    case (threw e)
    then show ?thesis using assms(2) by (auto dest: ext_surface_and_lease)
  next
    case (went x s2)
    from ext_surface_and_lease [OF went(1) assms(2)] went(2) show ?thesis
      by (auto simp: g_def split: prod.splits sum.splits)
  qed
  have eq: "(r, s') = (case w of
      Inl e \<Rightarrow> (Inl e, forget_pending (ap_id a) (revoke_approvals_for_lease en 4 0 (ai_leaseId (ap_identity a)) s1))
    | Inr c \<Rightarrow> (Inr (), enqueue_surface_effect en \<lparr>qe_context = ctx, qe_resolver = Some m, qe_approval = Some (ap_id a)\<rparr>
        (forget_pending (ap_id a) s1)))"
    unfolding assms(1) [symmetric] settle_approval_def Some using w by (simp add: g_def split: sum.split)
  show ?thesis
  proof (cases w)
    case (Inl e)
    with eq e1 failed show ?thesis by (simp add: ext_revoke_for_lease)
  next
    case (Inr c)
    with eq e1 queued [of "forget_pending (ap_id a) s1"] show ?thesis by simp
  qed
qed

text \<open>An operator's decision is answered, or the approved effect is enqueued under the operator's key.\<close>

lemma resolve_ext:
  assumes "ext j q s"
  obtains (settled) "ext j q (resolve_approval en m i digest yes s)"
      "answered (cm_key m) (rt_journal (resolve_approval en m i digest yes s))"
  | (queued) s1 e where "ext j q s1" "resolve_approval en m i digest yes s = enqueue_surface_effect en e s1"
      "effect_key e = cm_key m"
proof -
  let ?ctx = "jm_get (rt_pending s) i"
  let ?fail = "\<lambda>e. append_terminal en (cm_id m) (cm_key m) (failed_outcome e) None"
  have fails: thesis if "resolve_approval en m i digest yes s = ?fail e s'" "ext j q s'" for e s'
    by (rule settled; unfold that(1)) (use that(2) in simp_all)
  obtain r s1 where subj: "(case ?ctx of None \<Rightarrow> (Inr (), s)
      | Some ctx \<Rightarrow> assert_task_subject_active en 0 (ac_taskId (cx_command ctx)) (ac_actorId (cx_command ctx)) s) = (r, s1)"
    by fastforce
  then have e1: "ext j q s1" using assms by (auto split: option.splits dest: ext_assert_subject)
  show thesis
  proof (cases r)
    case (Inl e)
    with subj have "resolve_approval en m i digest yes s = ?fail e s1"
      unfolding resolve_approval_def Let_def by simp
    from this e1 show thesis by (rule fails)
  next
    case (Inr u)
    obtain w ap where w: "(if yes then approve else deny) (pf_sha (en_platform en)) i (cm_actorId m) digest (en_clock en 1 0 0)
        (rt_approvals s1) = (w, ap)" by fastforce
    let ?s2 = "s1\<lparr>rt_approvals := ap\<rparr>"
    note open_resolve = resolve_approval_def [of en m i digest yes s, unfolded Let_def]
    show thesis
    proof (cases w)
      case Inl2: (Inl e)
      have "resolve_approval en m i digest yes s = ?fail (approval_code e)
          (if ?ctx \<noteq> None \<and> is_approval_invalidation_error (approval_code e)
           then finalize_approval en (if e = ApprovalExpired then ''approval_expired'' else ''action_invalidated'') ?ctx i ?s2
           else ?s2)"
        unfolding open_resolve using subj Inr w Inl2 by simp
      from this show thesis by (rule fails) (use e1 in \<open>simp add: ext_finalize\<close>)
    next
      case Inr2: (Inr a)
      show thesis
      proof (cases ?ctx)
        case None
        have "resolve_approval en m i digest yes s = ?fail (Some ''approval_missing'') ?s2"
          unfolding open_resolve using subj Inr w Inr2 None by simp
        from this show thesis by (rule fails) (use e1 in simp)
      next
        case (Some ctx)
        show thesis
        proof (cases yes)
          case False
          have eq: "resolve_approval en m i digest yes s = deny_pending en m ctx (ap_id a) ?s2"
            unfolding open_resolve using subj Inr w Inr2 Some False by simp
          show thesis
            by (rule settled; unfold eq deny_pending_def Let_def) (use e1 in simp_all)
        next
          case True
          obtain r3 s3 where set: "settle_approval en m digest ctx a ?s2 = (r3, s3)" by fastforce
          have eq: "resolve_approval en m i digest yes s = (case r3 of Inl e \<Rightarrow> ?fail e s3 | Inr _ \<Rightarrow> s3)"
            unfolding open_resolve using subj Inr w Inr2 Some True set by simp
          have "ext j q ?s2" using e1 by simp
          from set this show thesis
          proof (cases rule: settle_ext)
            case (failed e)
            with eq have "resolve_approval en m i digest yes s = ?fail e s3" by simp
            from this failed(2) show thesis by (rule fails)
          next
            case set2: (queued s4)
            with eq have "resolve_approval en m i digest yes s = enqueue_surface_effect en
              \<lparr>qe_context = ctx, qe_resolver = Some m, qe_approval = Some (ap_id a)\<rparr> s4" by simp
            from queued [OF set2(2) this] show thesis by (simp add: effect_key_def)
          qed
        qed
      qed
    qed
  qed
qed

section \<open>Waiting keys\<close>

definition waits :: "string \<Rightarrow> (string, resource_queue) jsmap \<Rightarrow> bool" where
  "waits k m \<longleftrightarrow> (\<exists>key q e. jm_get m key = Some q \<and> e \<in> set (rq_entries q) \<and> k \<in> set (entry_keys e))"

lemma waitsI: "jm_get m key = Some q \<Longrightarrow> e \<in> set (rq_entries q) \<Longrightarrow> k \<in> set (entry_keys e) \<Longrightarrow> waits k m"
  unfolding waits_def by blast

lemma pending_waits: "jm_ok (rt_queues s) \<Longrightarrow> k \<in> set (pending_keys s) \<longleftrightarrow> waits k (rt_queues s)"
proof -
  assume ok: "jm_ok (rt_queues s)"
  have "k \<in> set (pending_keys s) \<longleftrightarrow> (\<exists>q \<in> set (jm_values (rt_queues s)). \<exists>e \<in> set (rq_entries q). k \<in> set (entry_keys e))"
    by (simp add: pending_keys_def)
  then show ?thesis unfolding waits_def jm_values_iff [OF ok] Bex_def by blast
qed

lemma waits_set:
  assumes "waits k m" and "\<And>q e. jm_get m key = Some q \<Longrightarrow> e \<in> set (rq_entries q) \<Longrightarrow> k \<in> set (entry_keys e) \<Longrightarrow>
    P \<or> (\<exists>e' \<in> set (rq_entries q'). k \<in> set (entry_keys e'))"
  shows "P \<or> waits k (jm_set key q' m)"
proof -
  obtain key' q e where w: "jm_get m key' = Some q" "e \<in> set (rq_entries q)" "k \<in> set (entry_keys e)"
    using assms(1) unfolding waits_def by blast
  show ?thesis
  proof (cases "key' = key")
    case True
    with assms(2) w consider P | e' where "e' \<in> set (rq_entries q')" "k \<in> set (entry_keys e')" by blast
    then show ?thesis by cases (auto intro: waitsI [of _ key q'])
  next
    case False
    with w have "jm_get (jm_set key q' m) key' = Some q" by simp
    with w show ?thesis by (auto intro: waitsI)
  qed
qed

lemma waits_delete: "waits k m \<Longrightarrow> jm_get m key = Some q \<Longrightarrow> rq_entries q = [] \<Longrightarrow> waits k (jm_delete key m)"
  unfolding waits_def by (elim exE conjE, rename_tac key' q' e, rule_tac x = key' in exI) auto

lemma waits_filter:
  "jm_ok m \<Longrightarrow> waits k m \<Longrightarrow> (\<And>key q. rq_entries q \<noteq> [] \<Longrightarrow> P (key, q)) \<Longrightarrow> waits k (filter P m)"
  unfolding waits_def
proof (elim exE conjE)
  fix key q e
  assume a: "jm_ok m" "\<And>key q. rq_entries q \<noteq> [] \<Longrightarrow> P (key, q)" "jm_get m key = Some q"
    "e \<in> set (rq_entries q)" "k \<in> set (entry_keys e)"
  then have "P (key, q)" by (intro a(2)) auto
  with a show "\<exists>key q e. jm_get (filter P m) key = Some q \<and> e \<in> set (rq_entries q) \<and> k \<in> set (entry_keys e)"
    by (intro exI [of _ key] exI [of _ q] exI [of _ e]) (simp add: jm_get_filter)
qed

lemma waits_prune: "waits k (rt_queues s) \<Longrightarrow> waits k (rt_queues (prune_resource_queue key s))"
  by (auto simp: prune_resource_queue_def intro: waits_delete split: option.split)

lemma waits_prune_inactive: "jm_ok (rt_queues s) \<Longrightarrow> waits k (rt_queues s) \<Longrightarrow> waits k (rt_queues (prune_inactive_resource_queues s))"
  by (auto simp: prune_inactive_resource_queues_def prune_retired_pane_barriers_def prunable_queue_def intro!: waits_filter)

text \<open>The key was taken up: its command is answered or waits.\<close>

definition taken :: "string \<Rightarrow> runtime \<Rightarrow> bool" where
  "taken k s \<longleftrightarrow> answered k (rt_journal s) \<or> waits k (rt_queues s)"

definition moves_on :: "runtime \<Rightarrow> runtime \<Rightarrow> bool" where
  "moves_on s s' \<longleftrightarrow> extends (rt_journal s) (rt_journal s') \<and> (\<forall>k. taken k s \<longrightarrow> taken k s')"

definition takes_up :: "string \<Rightarrow> runtime \<Rightarrow> runtime \<Rightarrow> bool" where
  "takes_up key s s' \<longleftrightarrow> (\<exists>i. extends (rt_journal s @ [EvRequested i key]) (rt_journal s')) \<and>
     (\<forall>k. k = key \<or> taken k s \<longrightarrow> taken k s')"

definition replay_ok :: "runtime \<Rightarrow> bool" where
  "replay_ok s \<longleftrightarrow> (\<forall>k. requests k (rt_journal s) \<le> 1 \<and> (0 < requests k (rt_journal s) \<longrightarrow> taken k s))"

lemma replay_moves: "replay_ok s \<Longrightarrow> moves_on s s' \<Longrightarrow> replay_ok s'"
  by (auto simp: replay_ok_def moves_on_def extends_requests)

lemma replay_takes:
  assumes "replay_ok s" "\<not> taken key s" "takes_up key s s'"
  shows "replay_ok s'"
  unfolding replay_ok_def
proof (intro allI conjI impI)
  fix k
  obtain i where e: "extends (rt_journal s @ [EvRequested i key]) (rt_journal s')" using assms(3) by (auto simp: takes_up_def)
  have n: "requests k (rt_journal s') = requests k (rt_journal s) + (if k = key then 1 else 0)"
    unfolding extends_requests [OF e] by (simp add: requests_def)
  have new: "requests key (rt_journal s) = 0" using assms(1,2) unfolding replay_ok_def by blast
  show "requests k (rt_journal s') \<le> 1"
    using n new assms(1) by (cases "k = key") (simp_all add: replay_ok_def)
  assume "0 < requests k (rt_journal s')"
  with n assms(1) have "k = key \<or> taken k s" by (auto simp: replay_ok_def split: if_splits)
  with assms(3) show "taken k s'" by (auto simp: takes_up_def)
qed

lemma moves_ext: "ext (rt_journal s) (rt_queues s) s' \<Longrightarrow> moves_on s s'"
  by (auto simp: moves_on_def taken_def ext_def dest: extends_answered)

lemma moves_trans: "moves_on a b \<Longrightarrow> moves_on b c \<Longrightarrow> moves_on a c"
  by (auto simp: moves_on_def intro: extends_trans)

lemma moves_prune_inactive: "jm_ok (rt_queues s) \<Longrightarrow> moves_on s (prune_inactive_resource_queues s)"
  by (auto simp: moves_on_def taken_def intro: waits_prune_inactive)

text \<open>Taking up a key, from the journal with its request on.\<close>

lemma takesI:
  assumes "extends (rt_journal s @ [EvRequested i key]) (rt_journal s')" "taken key s'"
    "\<And>k. waits k (rt_queues s) \<Longrightarrow> taken k s'"
  shows "takes_up key s s'"
proof -
  have "taken k s'" if "answered k (rt_journal s)" "k \<noteq> key" for k
    using extends_answered [OF assms(1), of k] that by (simp add: taken_def)
  with assms show ?thesis by (auto simp: takes_up_def taken_def)
qed

lemma takes_answered:
  assumes "ext (rt_journal s @ [EvRequested i key]) (rt_queues s) s'" "answered key (rt_journal s')"
  shows "takes_up key s s'"
  using assms by (intro takesI [of s i]) (auto simp: ext_def taken_def)

section \<open>Entering and leaving a queue\<close>

lemma queue_for_resource_waits:
  assumes "queue_for_resource t s = (q, s1)"
  shows "jm_get (rt_queues s1) (resource_key t) = Some q" "rt_journal s1 = rt_journal s"
    "waits k (rt_queues s) \<Longrightarrow> waits k (rt_queues s1)"
proof -
  show "jm_get (rt_queues s1) (resource_key t) = Some q" "rt_journal s1 = rt_journal s"
    using assms by (auto simp: queue_for_resource_def split: option.splits)
  show "waits k (rt_queues s1)" if w: "waits k (rt_queues s)"
  proof (cases "jm_get (rt_queues s) (resource_key t)")
    case None
    with assms waits_set [OF w, of "resource_key t" False "new_queue t"] show ?thesis
      by (auto simp: queue_for_resource_def)
  next
    case (Some q')
    with assms w show ?thesis by (simp add: queue_for_resource_def)
  qed
qed

lemma enqueue_takes:
  assumes "ext (rt_journal s @ [EvRequested i key]) (rt_queues s) s1" "effect_key q = key"
  shows "takes_up key s (enqueue_surface_effect en q s1)"
proof -
  let ?t = "cx_target (qe_context q)"
  let ?j = "rt_journal s @ [EvRequested i key]"
  let ?s' = "enqueue_surface_effect en q s1"
  obtain rq s2 where r: "queue_for_resource ?t s1 = (rq, s2)" by fastforce
  note s2 = queue_for_resource_waits [OF r]
  have e: "extends ?j (rt_journal s2)" and w: "waits k (rt_queues s) \<Longrightarrow> waits k (rt_queues s2)" for k
    using assms(1) s2 by (auto simp: ext_def)
  have "(\<exists>rc. ?s' = finish_effect en q rc s2) \<or> ?s' = set_queue (resource_key ?t)
      (rq\<lparr>rq_pendingEffects := rq_pendingEffects rq + 1, rq_entries := rq_entries rq @ [EffectEntry q]\<rparr>) s2"
    using r by (auto simp: enqueue_surface_effect_def Let_def)
  then show ?thesis
  proof (elim disjE exE)
    fix rc assume s': "?s' = finish_effect en q rc s2"
    have f: "ext (rt_journal s2) (rt_queues s2) (finish_effect en q rc s2)" by (intro ext_finish) simp
    show ?thesis unfolding s'
    proof (rule takesI)
      show "extends ?j (rt_journal (finish_effect en q rc s2))" using e f by (auto simp: ext_def intro: extends_trans)
      show "taken key (finish_effect en q rc s2)" using finish_answers [of q en rc s2] assms(2) by (simp add: taken_def)
      show "taken k (finish_effect en q rc s2)" if "waits k (rt_queues s)" for k
        using w [OF that] f by (simp add: ext_def taken_def)
    qed
  next
    let ?rq = "rq\<lparr>rq_pendingEffects := rq_pendingEffects rq + 1, rq_entries := rq_entries rq @ [EffectEntry q]\<rparr>"
    assume s': "?s' = set_queue (resource_key ?t) ?rq s2"
    show ?thesis unfolding s'
    proof (rule takesI)
      show "extends ?j (rt_journal (set_queue (resource_key ?t) ?rq s2))" using e by simp
      have "waits key (jm_set (resource_key ?t) ?rq (rt_queues s2))"
        using assms(2) by (intro waitsI [of _ "resource_key ?t" ?rq "EffectEntry q"]) (auto simp: effect_key_def)
      then show "taken key (set_queue (resource_key ?t) ?rq s2)" by (simp add: taken_def set_queue_def)
      show "taken k (set_queue (resource_key ?t) ?rq s2)" if "waits k (rt_queues s)" for k
        using waits_set [OF w [OF that], of "resource_key ?t" False ?rq] s2(1) by (auto simp: taken_def set_queue_def)
    qed
  qed
qed

lemma enqueue_pane_takes: "takes_up (cm_key (pc_envelope pc)) s (enqueue_pane_command pc s)"
proof -
  let ?t = "resource_target_for_pane (pc_paneId pc) s"
  let ?m = "pc_envelope pc"
  obtain rq s2 where r: "queue_for_resource ?t s = (rq, s2)" by fastforce
  note s2 = queue_for_resource_waits [OF r]
  obtain item where item: "it_command item = pc" "\<not> it_terminalized item"
    and s': "enqueue_pane_command pc s = request_command (PaneCommand pc)
      (set_queue (resource_key ?t) (rq\<lparr>rq_entries := rq_entries rq @ [PaneEntry item]\<rparr>) s2)"
  proof
    let ?item = "\<lparr>it_command = pc, it_automation = (cm_actorKind ?m = PsycheActor), it_generation = pane_barrier (pc_paneId pc) s,
        it_preempted = False, it_terminalized = False\<rparr>"
    show "it_command ?item = pc" "\<not> it_terminalized ?item" by simp_all
    show "enqueue_pane_command pc s = request_command (PaneCommand pc)
        (set_queue (resource_key ?t) (rq\<lparr>rq_entries := rq_entries rq @ [PaneEntry ?item]\<rparr>) s2)"
      using r by (simp add: enqueue_pane_command_def Let_def)
  qed
  let ?rq = "rq\<lparr>rq_entries := rq_entries rq @ [PaneEntry item]\<rparr>"
  show ?thesis
  proof (rule takesI)
    show "extends (rt_journal s @ [EvRequested (cm_id ?m) (cm_key ?m)]) (rt_journal (enqueue_pane_command pc s))"
      unfolding s' by (simp add: s2(2))
    have "waits (cm_key ?m) (jm_set (resource_key ?t) ?rq (rt_queues s2))"
      using item by (intro waitsI [of _ "resource_key ?t" ?rq "PaneEntry item"]) auto
    then show "taken (cm_key ?m) (enqueue_pane_command pc s)" unfolding s' by (simp add: taken_def set_queue_def)
    show "taken k (enqueue_pane_command pc s)" if "waits k (rt_queues s)" for k
      using waits_set [OF s2(3) [OF that], of "resource_key ?t" False ?rq] s2(1)
      unfolding s' by (auto simp: taken_def set_queue_def)
  qed
qed

text \<open>The head leaves its queue: its own keys must be answered, the others go on waiting.\<close>

lemma leave_waits:
  assumes "waits k (rt_queues s)" "jm_get (rt_queues s) key = Some q" "rq_entries q = e # rest" "rq_entries q' = rest"
  shows "k \<in> set (entry_keys e) \<or> waits k (rt_queues (prune_resource_queue key (set_queue key q' s)))"
proof -
  have "k \<in> set (entry_keys e) \<or> waits k (jm_set key q' (rt_queues s))"
    by (rule waits_set [OF assms(1)]) (use assms(2-4) in auto)
  then show ?thesis using waits_prune [of k "set_queue key q' s" key] by (auto simp: set_queue_def)
qed

section \<open>The turn of a queue\<close>

lemma run_effect_moves_on:
  assumes ok: "runtime_ok sha s" and q: "jm_get (rt_queues s) k = Some rq" and h: "rq_entries rq = EffectEntry e # rest"
  shows "moves_on s (run_surface_effect en e s)"
proof -
  have "queue_ok k rq" by (rule queues_okD [OF runtime_okD(2) [OF ok] q])
  then have key: "resource_key (cx_target (qe_context e)) = k" using h by (auto simp: queue_ok_def)
  have leaves: "moves_on s (finish_effect en e rc (leave_queue k b s1))" if s1: "ext (rt_journal s) (rt_queues s) s1" for s1 rc b
  proof -
    let ?s2 = "leave_queue k b s1"
    let ?s' = "finish_effect en e rc ?s2"
    have f: "ext (rt_journal ?s2) (rt_queues ?s2) ?s'" by (rule ext_finish [OF ext_refl])
    have j: "extends (rt_journal s) (rt_journal ?s')"
      using f s1 by (auto simp: ext_def intro: extends_trans)
    have "taken i ?s'" if "waits i (rt_queues s)" for i
    proof -
      have q1: "jm_get (rt_queues s1) k = Some rq" and w1: "waits i (rt_queues s1)" using q s1 that by (simp_all add: ext_def)
      let ?rq = "rq\<lparr>rq_pendingEffects := rq_pendingEffects rq - 1, rq_entries := tl (rq_entries rq),
                    rq_quarantined := (rq_quarantined rq \<or> b)\<rparr>"
      have "i \<in> set (entry_keys (EffectEntry e)) \<or> waits i (rt_queues (prune_resource_queue k (set_queue k ?rq s1)))"
        by (rule leave_waits [OF w1 q1 h]) (simp add: h)
      then have "i = effect_key e \<or> waits i (rt_queues ?s2)"
        using q1 by (auto simp: leave_queue_def effect_key_def)
      then show ?thesis using finish_answers [of e en rc ?s2] f by (auto simp: taken_def ext_def)
    qed
    then show ?thesis using j extends_answered [OF j] by (auto simp: moves_on_def taken_def)
  qed
  show ?thesis
  proof (cases rule: run_surface_effect_cases [of en e s])
    case (refused x s1 r)
    have "ext (rt_journal s) (rt_queues s) s1" by (rule ext_revalidate [OF refused(1)]) simp
    from leaves [OF this] refused(2) key show ?thesis by simp
  next
    case (executed u r b)
    with key leaves [of "s\<lparr>rt_effects := rt_effects s @ [e]\<rparr>" r b] show ?thesis by simp
  qed
qed

lemma run_item_moves_on:
  assumes q: "jm_get (rt_queues s) k = Some rq" and h: "rq_entries rq = PaneEntry item # rest"
  shows "moves_on s (run_queued_item en k item s)"
proof -
  let ?key = "cm_key (pc_envelope (it_command item))"
  have start: "ext j m s \<Longrightarrow> execute_started_command en pc s = (out, s1) \<Longrightarrow> ext j m s1" for j m pc out s1
    by (auto simp: execute_started_command_def call_pane_handler_def split: pane_command_kind.splits sum.splits if_splits)
  have "\<exists>s1. run_queued_item en k item s = leave_pane_queue k s1 \<and> ext (rt_journal s) (rt_queues s) s1 \<and>
    (it_terminalized item \<or> answered ?key (rt_journal s1))"
  proof (cases "it_terminalized item")
    case True
    then show ?thesis by (intro exI [of _ s]) (simp add: run_queued_item_def)
  next
    case False
    obtain out s2 where e: "execute_started_command en (it_command item) s = (out, s2)" by fastforce
    have e2: "ext (rt_journal s) (rt_queues s) s2" by (rule start [OF ext_refl e])
    have fin: "ext (rt_journal s) (rt_queues s) a \<Longrightarrow> ext (rt_journal s) (rt_queues s) (terminalize_item en item o' a) \<and>
        answered ?key (rt_journal (terminalize_item en item o' a))" for o' a
      by (simp add: terminalize_item_def)
    show ?thesis
    proof (cases "it_preempted item \<or> is_stale_automation_generation item s")
      case True
      with False have "run_queued_item en k item s = leave_pane_queue k (terminalize_item en item automation_preempted_outcome s)"
        by (auto simp: run_queued_item_def)
      with fin [OF ext_refl] show ?thesis by blast
    next
      case fresh: False
      with False e have "run_queued_item en k item s = leave_pane_queue k (terminalize_item en item out s2)"
        by (auto simp: run_queued_item_def)
      with fin [OF e2] show ?thesis by blast
    qed
  qed
  then obtain s1 where s1: "run_queued_item en k item s = leave_pane_queue k s1" "ext (rt_journal s) (rt_queues s) s1"
    "it_terminalized item \<or> answered ?key (rt_journal s1)" by blast
  let ?s' = "leave_pane_queue k s1"
  have "taken i ?s'" if "waits i (rt_queues s)" for i
  proof -
    have q1: "jm_get (rt_queues s1) k = Some rq" and w1: "waits i (rt_queues s1)" using q s1(2) that by (simp_all add: ext_def)
    have "i \<in> set (entry_keys (PaneEntry item)) \<or> waits i (rt_queues (prune_resource_queue k (set_queue k (rq\<lparr>rq_entries := tl (rq_entries rq)\<rparr>) s1)))"
      by (rule leave_waits [OF w1 q1 h]) (simp add: h)
    then show ?thesis using q1 s1(3) by (auto simp: leave_pane_queue_def taken_def split: if_splits)
  qed
  then show ?thesis
    using s1(1,2) extends_answered by (auto simp: moves_on_def taken_def ext_def)
qed

section \<open>Taking over\<close>

lemma terminalize_all_answers:
  "item \<in> set items \<Longrightarrow> answered (cm_key (pc_envelope (it_command item)))
     (rt_journal (fold (\<lambda>item. terminalize_item en item out) items s))"
proof (induction items arbitrary: s)
  case (Cons x xs)
  let ?s1 = "terminalize_item en x out s"
  have e: "ext (rt_journal ?s1) (rt_queues ?s1) (fold (\<lambda>item. terminalize_item en item out) xs ?s1)"
    by (rule ext_fold [OF _ ext_refl]) (simp add: terminalize_item_def)
  show ?case
  proof (cases "item = x")
    case True
    then have "answered (cm_key (pc_envelope (it_command item))) (rt_journal ?s1)" by (simp add: terminalize_item_def)
    with ext_answered [OF e] show ?thesis by simp
  next
    case False
    with Cons show ?thesis by simp
  qed
qed simp

lemma preempted_keys:
  "e \<in> set es \<Longrightarrow> k \<in> set (entry_keys e) \<Longrightarrow>
     (\<exists>item \<in> set (preempted_items es). cm_key (pc_envelope (it_command item)) = k) \<or>
     (\<exists>e' \<in> set (map preempt_entry es). k \<in> set (entry_keys e'))"
proof (induction es)
  case (Cons x xs)
  then show ?case by (cases "e = x"; cases x) (auto split: if_splits)
qed simp

lemma moves_preempt: "moves_on s (preempt_queued_automation en p s)"
proof (cases "jm_get (rt_queues s) (resource_key (resource_target_for_pane p s))")
  case None
  then show ?thesis by (simp add: preempt_queued_automation_def Let_def moves_ext)
next
  case (Some q)
  let ?k = "resource_key (resource_target_for_pane p s)"
  let ?q = "q\<lparr>rq_entries := map preempt_entry (rq_entries q)\<rparr>"
  let ?s1 = "set_queue ?k ?q s"
  let ?f = "fold (\<lambda>item. terminalize_item en item automation_preempted_outcome) (preempted_items (rq_entries q))"
  have e: "ext (rt_journal ?s1) (rt_queues ?s1) (?f ?s1)"
    by (rule ext_fold [OF _ ext_refl]) (simp add: terminalize_item_def)
  have "taken i (?f ?s1)" if w: "waits i (rt_queues s)" for i
  proof -
    let ?P = "\<exists>item \<in> set (preempted_items (rq_entries q)). cm_key (pc_envelope (it_command item)) = i"
    have "?P \<or> waits i (jm_set ?k ?q (rt_queues s))"
      by (rule waits_set [OF w]) (use Some preempted_keys in auto)
    then show ?thesis
    proof
      assume ?P
      with terminalize_all_answers [of _ "preempted_items (rq_entries q)" en automation_preempted_outcome ?s1]
      show ?thesis by (auto simp: taken_def)
    next
      assume "waits i (jm_set ?k ?q (rt_queues s))"
      with e show ?thesis by (simp add: taken_def ext_def set_queue_def)
    qed
  qed
  moreover have "extends (rt_journal s) (rt_journal (?f ?s1))" using e by (simp add: ext_def)
  moreover have "preempt_queued_automation en p s = ?f ?s1" using Some by (simp add: preempt_queued_automation_def Let_def)
  ultimately show ?thesis using extends_answered by (auto simp: moves_on_def taken_def)
qed

section \<open>Submission\<close>

text \<open>A command that journals its request first, moves on, and is answered last.\<close>

lemma command_takes:
  assumes "moves_on (request_command c s) s1" "ext (rt_journal s1) (rt_queues s1) s2"
  shows "takes_up (cm_key (runtime_envelope c)) s (terminate_command en c out s2)"
proof -
  let ?m = "runtime_envelope c"
  let ?s' = "terminate_command en c out s2"
  have e: "extends (rt_journal s @ [EvRequested (cm_id ?m) (cm_key ?m)]) (rt_journal s2)"
    using assms by (auto simp: moves_on_def ext_def intro: extends_trans)
  show ?thesis
  proof (rule takesI)
    show "extends (rt_journal s @ [EvRequested (cm_id ?m) (cm_key ?m)]) (rt_journal ?s')" using e by simp
    show "taken (cm_key ?m) ?s'" by (simp add: taken_def)
    show "taken k ?s'" if "waits k (rt_queues s)" for k
    proof -
      have "taken k (request_command c s)" using that by (simp add: taken_def)
      then have "taken k s1" using assms(1) by (simp add: moves_on_def)
      with assms(2) have "answered k (rt_journal s2) \<or> waits k (rt_queues s2)"
        by (auto simp: taken_def ext_def dest: extends_answered)
      moreover have "extends (rt_journal s2) (rt_journal ?s')" by simp
      ultimately show ?thesis using extends_answered by (auto simp: taken_def)
    qed
  qed
qed

lemma delegate_takes: "takes_up (cm_key m) s (execute_delegate en m p a t ttl s)"
proof -
  let ?c = "DelegateCommand m p a t ttl"
  let ?s1 = "request_command ?c s"
  obtain l ls where d: "lane_delegate (en_clock en 0 0 0) p a t ttl (rt_lanes ?s1) = (l, ls)" by fastforce
  have r: "moves_on ?s1 ?s1" by (rule moves_ext [OF ext_refl])
  have "takes_up (cm_key (runtime_envelope ?c)) s (terminate_command en ?c out ?s1)" for out
    by (rule command_takes [OF r ext_refl])
  moreover have "takes_up (cm_key (runtime_envelope ?c)) s
      (terminate_command en ?c out (?s1\<lparr>rt_lanes := ls, rt_journal := rt_journal ?s1 @ [EvDelegated i p' a' t' n]\<rparr>))" for out i p' a' t' n
    by (rule command_takes [OF r]) (simp add: ext_def)
  ultimately show ?thesis using d by (simp add: execute_delegate_def Let_def)
qed

lemma takeover_takes: "takes_up (cm_key m) s (execute_takeover en m p s)"
proof -
  let ?c = "TakeoverCommand m p"
  let ?s1 = "bump_pane_barrier p (request_command ?c s)"
  let ?s2 = "preempt_queued_automation en p ?s1"
  obtain l ls where t: "lane_takeover (en_clock en 0 0 0) p (cm_actorId m) (rt_lanes ?s2) = (l, ls)" by fastforce
  let ?s3 = "?s2\<lparr>rt_lanes := ls\<rparr>"
  define s4 where "s4 = (case get_surface p (rt_surfaces ?s3) of
                 Some (PaneSurface g x) \<Rightarrow> rt_revoke_target en 1 (SurfaceTarget PaneKind (pi_id x) g) ?s3
               | _ \<Rightarrow> ?s3)"
  have "moves_on (request_command ?c s) ?s1" by (rule moves_ext) (simp add: ext_def)
  from moves_trans [OF this moves_preempt] have "moves_on (request_command ?c s) ?s2" .
  moreover have "ext (rt_journal ?s2) (rt_queues ?s2) s4"
    unfolding s4_def by (auto intro!: ext_rt_revoke_target split: option.split surface.split)
  then have "ext (rt_journal ?s2) (rt_queues ?s2) (s4\<lparr>rt_journal := rt_journal s4 @ [EvTakeover i x y n]\<rparr>)" for i x y n
    by simp
  ultimately have "takes_up (cm_key (runtime_envelope ?c)) s
      (terminate_command en ?c out (s4\<lparr>rt_journal := rt_journal s4 @ [EvTakeover i x y n]\<rparr>))" for out i x y n
    by (rule command_takes)
  then show ?thesis unfolding execute_takeover_def Let_def t prod.case s4_def [symmetric] by simp
qed

lemma immediate_takes: "takes_up (cm_key (im_envelope ic)) s (execute_immediate_command en ic s)"
proof -
  let ?s1 = "request_command (ImmediateCommand ic) s"
  obtain out s2 where e: "execute_started_immediate en ic ?s1 = (out, s2)" by fastforce
  have run: "execute_started_immediate en ic a = (out, b) \<Longrightarrow> ext j m a \<Longrightarrow> ext j m b" for a b j m
    by (auto simp: execute_started_immediate_def call_immediate_handler_def split: immediate_kind.splits prod.splits sum.splits
        dest: ext_assert_lease)
  have "ext (rt_journal ?s1) (rt_queues ?s1) s2" by (rule run [OF e ext_refl])
  from command_takes [OF moves_ext [OF ext_refl] this, of en out] e show ?thesis
    by (simp add: execute_immediate_command_def)
qed

lemma surface_takes: "takes_up (cm_key (command_envelope cmd)) s (execute_surface_command en cmd s)"
proof -
  let ?m = "command_envelope cmd"
  let ?k = "cm_key ?m"
  let ?s1 = "append_requested (cm_id ?m) ?k s"
  let ?j = "rt_journal s @ [EvRequested (cm_id ?m) ?k]"
  have e1: "ext ?j (rt_queues s) ?s1" by (simp add: ext_def)
  have plain: "takes_up ?k s (append_terminal en i ?k out rc s2)" if "ext ?j (rt_queues s) s2" for i out rc s2
    by (rule takes_answered [of s "cm_id ?m"]) (use that in simp_all)
  show ?thesis
  proof (cases "requires_operator cmd \<and> cm_actorKind ?m \<noteq> HumanActor")
    case True
    with plain [OF e1] show ?thesis by (simp add: execute_surface_command_def Let_def)
  next
    case operator: False
    note exec = execute_surface_command_def [of en cmd s, unfolded Let_def, unfolded if_not_P [OF operator]]
    have simple: ?thesis if "execute_surface_command en cmd s = (case simple_command en cmd ?s1 of
        (Inl e, s2) \<Rightarrow> append_terminal en (cm_id ?m) ?k (failed_outcome e) None s2
      | (Inr r, s2) \<Rightarrow> append_terminal en (cm_id ?m) ?k (Succeeded r) None s2)"
    proof -
      obtain r s2 where r: "simple_command en cmd ?s1 = (r, s2)" by fastforce
      from plain [OF ext_simple [OF r e1]] that r show ?thesis by (cases r) simp_all
    qed
    show ?thesis
    proof (cases cmd)
      case (SurfaceAction c)
      then have eq: "execute_surface_command en cmd s = surface_action en c ?s1" and k: "?k = ac_key c"
        unfolding exec by (simp_all add: action_envelope_def)
      from e1 show ?thesis
      proof (cases rule: surface_action_ext [where en = en and c = c])
        case settled
        then show ?thesis unfolding eq by (intro takes_answered [of s "cm_id ?m"]) (simp_all add: k)
      next
        case (queued s2 q)
        from enqueue_takes [OF queued(1)] queued(2,3) k eq show ?thesis by simp
      qed
    next
      case (ApprovalResolve m i digest yes)
      then have eq: "execute_surface_command en cmd s = resolve_approval en m i digest yes ?s1" and k: "?k = cm_key m"
        unfolding exec by simp_all
      from e1 show ?thesis
      proof (cases rule: resolve_ext [where en = en and m = m and i = i and digest = digest and yes = yes])
        case settled
        then show ?thesis unfolding eq by (intro takes_answered [of s "cm_id ?m"]) (simp_all add: k)
      next
        case (queued s2 q)
        from enqueue_takes [OF queued(1)] queued(2,3) k eq show ?thesis by simp
      qed
    qed (rule simple, subst exec, simp)+
  qed
qed

lemma submit_fresh_takes: "takes_up (cm_key (runtime_envelope c)) s (submit_fresh en c s)"
proof (cases "cm_ownerEpoch (runtime_envelope c) < rt_ownerEpoch s \<or> is_surface_control c \<and> cm_ownerEpoch (runtime_envelope c) \<noteq> rt_ownerEpoch s")
  case True
  have "takes_up (cm_key (runtime_envelope c)) s (terminate_command en c out (request_command c s))" for out
    by (rule command_takes [OF moves_ext [OF ext_refl] ext_refl])
  with True show ?thesis by (simp add: submit_fresh_def Let_def reject_stale_owner_epoch_def)
next
  case False
  note fresh = submit_fresh_def [of en c s, unfolded Let_def, unfolded if_not_P [OF False]]
  show ?thesis
    unfolding fresh
    by (cases c) (simp_all add: surface_takes delegate_takes takeover_takes enqueue_pane_takes immediate_takes)
qed

lemma taken_iff:
  "jm_ok (rt_queues s) \<Longrightarrow> taken k s \<longleftrightarrow> journal_outcome k s \<noteq> None \<or> k \<in> set (pending_keys s)"
  unfolding taken_def answered_outcome [symmetric] by (simp only: pending_waits)

text \<open>Submitting a key that was taken up executes nothing.\<close>

lemma submit_taken:
  assumes "runtime_ok sha s" and "taken (cm_key (runtime_envelope c)) s"
  shows "submit en c s = prune_inactive_resource_queues s \<or>
    (\<exists>k out. submit en c s = remember_outcome k out (prune_inactive_resource_queues s))"
proof -
  let ?s = "prune_inactive_resource_queues s"
  have "jm_ok (rt_queues s)" "jm_ok (rt_queues ?s)"
    using runtime_okD(2) [OF assms(1)] runtime_okD(2) [OF runtime_ok_prune [OF assms(1)]] by (simp_all add: queues_ok_def)
  with assms(2) moves_prune_inactive have "taken (cm_key (runtime_envelope c)) ?s" by (auto simp: moves_on_def)
  with \<open>jm_ok (rt_queues ?s)\<close> have "journal_outcome (cm_key (runtime_envelope c)) ?s \<noteq> None \<or>
      cm_key (runtime_envelope c) \<in> set (pending_keys ?s)" by (simp add: taken_iff)
  then show ?thesis by (auto simp: submit_def Let_def split: option.split)
qed

lemma submit_moves:
  assumes "runtime_ok sha s"
  shows "moves_on s (submit en c s) \<or>
    \<not> taken (cm_key (runtime_envelope c)) (prune_inactive_resource_queues s) \<and>
    takes_up (cm_key (runtime_envelope c)) (prune_inactive_resource_queues s) (submit en c s)"
proof -
  let ?s = "prune_inactive_resource_queues s"
  let ?k = "cm_key (runtime_envelope c)"
  have ok: "jm_ok (rt_queues s)" "jm_ok (rt_queues ?s)"
    using runtime_okD(2) [OF assms(1)] runtime_okD(2) [OF runtime_ok_prune [OF assms(1)]] by (simp_all add: queues_ok_def)
  have m: "moves_on s ?s" by (rule moves_prune_inactive [OF ok(1)])
  have idle: ?thesis if "submit en c s = ?s \<or> (\<exists>k out. submit en c s = remember_outcome k out ?s)"
  proof -
    have "moves_on ?s (submit en c s)" using that by (elim disjE exE) (simp_all add: moves_ext ext_def)
    with moves_trans [OF m] show ?thesis by blast
  qed
  show ?thesis
  proof (cases "taken ?k ?s")
    case True
    then have "journal_outcome ?k ?s \<noteq> None \<or> ?k \<in> set (pending_keys ?s)" using ok(2) by (simp add: taken_iff)
    then have "submit en c s = ?s \<or> (\<exists>k out. submit en c s = remember_outcome k out ?s)"
      by (auto simp: submit_def Let_def split: option.split)
    then show ?thesis by (rule idle)
  next
    case False
    show ?thesis
    proof (cases "submit en c s = submit_fresh en c ?s")
      case True
      with False submit_fresh_takes [of c ?s en] show ?thesis by simp
    next
      case other: False
      then have "submit en c s = ?s \<or> (\<exists>k out. submit en c s = remember_outcome k out ?s)"
        by (auto simp: submit_def Let_def split: option.splits if_splits)
      then show ?thesis by (rule idle)
    qed
  qed
qed

lemma snapshot_moves: "moves_on s (snd (rt_snapshot en s))"
proof -
  obtain ls cs where c: "cap_snapshot (en_clock en 0 0) (rt_leases s) = (ls, cs)" by fastforce
  let ?s1 = "refresh_with en 0 1 ls (s\<lparr>rt_leases := cs\<rparr>)"
  obtain h cs2 where h: "cap_history (en_clock en 0 3 0) (rt_leases ?s1) = (h, cs2)" by fastforce
  have "ext (rt_journal s) (rt_queues s) ?s1" by (rule ext_refresh_with) simp
  then have "moves_on s (?s1\<lparr>rt_leases := cs2\<rparr>)" by (intro moves_ext) simp
  moreover have "snd (rt_snapshot en s) = ?s1\<lparr>rt_leases := cs2\<rparr>" using c h by (simp add: rt_snapshot_def Let_def)
  ultimately show ?thesis by simp
qed

lemma run_queue_moves_on: "runtime_ok sha s \<Longrightarrow> moves_on s (run_queue en k s)"
  by (cases rule: run_queue_cases [of en k s]) (auto intro: run_effect_moves_on run_item_moves_on moves_ext)

lemma replay_step:
  assumes "runtime_ok sha s" "replay_ok s"
  shows "replay_ok (runtime_exec en st s)"
proof (cases st)
  case (Submit c)
  have ok: "jm_ok (rt_queues s)" using runtime_okD(2) [OF assms(1)] by (simp add: queues_ok_def)
  have "replay_ok (prune_inactive_resource_queues s)" by (rule replay_moves [OF assms(2) moves_prune_inactive [OF ok]])
  with submit_moves [OF assms(1), of en c] Submit assms(2) show ?thesis by (auto intro: replay_moves replay_takes)
next
  case (RunQueue k)
  with replay_moves [OF assms(2) run_queue_moves_on [OF assms(1)]] show ?thesis by simp
next
  case TakeSnapshot
  with replay_moves [OF assms(2) snapshot_moves] show ?thesis by simp
next
  case (SurfaceChange op)
  with replay_moves [OF assms(2) moves_ext] show ?thesis by simp
qed

lemma runtime_run_replay: "runtime_run sha s tr s' \<Longrightarrow> runtime_ok sha s \<Longrightarrow> replay_ok s \<Longrightarrow> replay_ok s'"
  by (induction rule: runtime_run.induct) (auto intro: runtime_ok_step replay_step)

lemma replay_ok_init: "replay_ok (runtime_init epoch)"
  by (simp add: replay_ok_def requests_def runtime_init_def)

section \<open>At most once\<close>

text \<open>
  C8. Over every run from the start, a command key is taken up at most once, and what is taken up is
  never lost: its command has an outcome in the journal or waits in a queue. Submitting any command
  with that key again executes nothing: the journal, the stores and the three effect logs stay as
  they are.
\<close>
theorem command_taken_up_once:
  assumes "runtime_run sha (runtime_init epoch) tr s"
  shows "length (filter (\<lambda>e. requested_key e = Some k) (rt_journal s)) \<le> 1 \<and>
    ((\<exists>i. EvRequested i k \<in> set (rt_journal s)) \<longrightarrow>
       (journal_outcome k s \<noteq> None \<or> k \<in> set (pending_keys s)) \<and>
       (cm_key (runtime_envelope c) = k \<longrightarrow> (let s' = submit en c s in
          rt_journal s' = rt_journal s \<and> rt_leases s' = rt_leases s \<and> rt_approvals s' = rt_approvals s \<and>
          rt_lanes s' = rt_lanes s \<and> rt_surfaces s' = rt_surfaces s \<and> rt_effects s' = rt_effects s \<and>
          rt_paneEffects s' = rt_paneEffects s \<and> rt_immediateEffects s' = rt_immediateEffects s)))"
proof -
  have ok: "runtime_ok sha s" using assms runtime_ok_init by (rule runtime_run_ok)
  have replay: "replay_ok s" using assms runtime_ok_init replay_ok_init by (rule runtime_run_replay)
  have jm: "jm_ok (rt_queues s)" using runtime_okD(2) [OF ok] by (simp add: queues_ok_def)
  have "taken k s" if "EvRequested i k \<in> set (rt_journal s)" for i
  proof -
    have "EvRequested i k \<in> set (filter (\<lambda>e. requested_key e = Some k) (rt_journal s))" using that by simp
    then have "0 < requests k (rt_journal s)" unfolding requests_def by (metis length_pos_if_in_set)
    with replay show ?thesis by (simp add: replay_ok_def)
  qed
  moreover have "requests k (rt_journal s) \<le> 1" using replay by (simp add: replay_ok_def)
  moreover have "let s' = submit en c s in
          rt_journal s' = rt_journal s \<and> rt_leases s' = rt_leases s \<and> rt_approvals s' = rt_approvals s \<and>
          rt_lanes s' = rt_lanes s \<and> rt_surfaces s' = rt_surfaces s \<and> rt_effects s' = rt_effects s \<and>
          rt_paneEffects s' = rt_paneEffects s \<and> rt_immediateEffects s' = rt_immediateEffects s"
    if "taken k s" "cm_key (runtime_envelope c) = k"
  proof -
    have "taken (cm_key (runtime_envelope c)) s" using that by simp
    from submit_taken [OF ok this, of en] show ?thesis
      by (elim disjE exE) (simp_all add: Let_def prune_frame remember_outcome_def)
  qed
  ultimately show ?thesis by (auto simp: taken_iff [OF jm] requests_def)
qed

text \<open>The first command submitted to a fresh runtime is taken up.\<close>

lemma demo_start: "pf_sha (en_platform demo_env) = demo_sha" "fresh_env demo_env (runtime_init 3)"
  by (simp_all add: fresh_env_def demo_env_def cap_init_def approval_uses_def queue_uses_def runtime_init_def)

lemma demo_first:
  "\<exists>i. EvRequested i (cm_key (runtime_envelope c)) \<in> set (rt_journal (runtime_exec demo_env (Submit c) (runtime_init 3)))"
proof -
  let ?start = "runtime_init 3"
  have p: "prune_inactive_resource_queues ?start = ?start"
    by (simp add: prune_inactive_resource_queues_def prune_retired_pane_barriers_def runtime_init_def)
  have "pending_keys ?start = []" "journal_outcome k ?start = None" "jm_get (rt_outcomes ?start) k = None" for k
    by (simp_all add: pending_keys_def journal_outcome_def runtime_init_def)
  then have "runtime_exec demo_env (Submit c) ?start = submit_fresh demo_env c ?start"
    unfolding runtime_exec.simps submit_def Let_def p by (simp add: AGENT_CONTROL_LIMITS_def)
  with submit_fresh_takes [of c ?start demo_env] show ?thesis by (auto simp: takes_up_def extends_def)
qed

lemma command_taken_up_once_witness:
  "rt_journal (submit demo_env (TakeoverCommand demo_operator ''p1'')
      (runtime_exec demo_env (Submit (TakeoverCommand demo_operator ''p1'')) (runtime_init 3))) =
   rt_journal (runtime_exec demo_env (Submit (TakeoverCommand demo_operator ''p1'')) (runtime_init 3))"
  using command_taken_up_once [OF run_step [OF demo_start run_done], where c = "TakeoverCommand demo_operator ''p1''" and en = demo_env]
    demo_first [of "TakeoverCommand demo_operator ''p1''"]
  by (auto simp only: Let_def)

section \<open>The queues drain\<close>

definition entry_count :: "(string, resource_queue) jsmap \<Rightarrow> nat" where
  "entry_count m = (\<Sum>(k, q) \<leftarrow> m. length (rq_entries q))"

text \<open>A scheduler: while some queue has an entry, the first such queue gets a turn, the \<open>n\<close>-th one in environment \<open>f n\<close>.\<close>

fun drain :: "nat \<Rightarrow> (nat \<Rightarrow> rt_env) \<Rightarrow> runtime \<Rightarrow> runtime" where
  "drain 0 f s = s"
| "drain (Suc n) f s =
     (case find (\<lambda>(k, q). rq_entries q \<noteq> []) (rt_queues s) of
        None \<Rightarrow> s
      | Some (k, q) \<Rightarrow> drain n (\<lambda>i. f (Suc i)) (run_queue (f 0) k s))"

lemma entry_count_set:
  "jm_get m k = Some q \<Longrightarrow> entry_count (jm_set k q' m) + length (rq_entries q) = entry_count m + length (rq_entries q')"
  by (induction m) (auto simp: entry_count_def)

lemma entry_count_delete: "entry_count (jm_delete k m) \<le> entry_count m"
  by (induction m) (auto simp: entry_count_def)

lemma leave_count:
  assumes "jm_get (rt_queues s) k = Some q" "rq_entries q = e # rest" "rq_entries q' = rest"
  shows "entry_count (rt_queues (prune_resource_queue k (set_queue k q' s))) < entry_count (rt_queues s)"
proof -
  have "entry_count (rt_queues (prune_resource_queue k s')) \<le> entry_count (rt_queues s')" for s'
    using entry_count_delete by (auto simp: prune_resource_queue_def split: option.split)
  from this [of "set_queue k q' s"] entry_count_set [OF assms(1), of q'] assms(2,3) show ?thesis
    by (simp add: set_queue_def)
qed

lemma leave_queue_count:
  "jm_get (rt_queues s) k = Some q \<Longrightarrow> rq_entries q = e # rest \<Longrightarrow> entry_count (rt_queues (leave_queue k b s)) < entry_count (rt_queues s)"
  unfolding leave_queue_def by simp (rule leave_count, assumption+, simp)

lemma leave_pane_count:
  "jm_get (rt_queues s) k = Some q \<Longrightarrow> rq_entries q = e # rest \<Longrightarrow> entry_count (rt_queues (leave_pane_queue k s)) < entry_count (rt_queues s)"
  unfolding leave_pane_queue_def by simp (rule leave_count, assumption+, simp)

lemma run_queue_count:
  assumes ok: "runtime_ok sha s" and q: "jm_get (rt_queues s) k = Some q" and ne: "rq_entries q \<noteq> []"
  shows "entry_count (rt_queues (run_queue en k s)) < entry_count (rt_queues s)"
proof (cases "rq_entries q")
  case Nil
  with ne show ?thesis ..
next
  case (Cons x rest)
  show ?thesis
  proof (cases x)
    case (EffectEntry e)
    with q Cons have run: "run_queue en k s = run_surface_effect en e s" by (simp add: run_queue_def)
    have "queue_ok k q" by (rule queues_okD [OF runtime_okD(2) [OF ok] q])
    then have key: "resource_key (cx_target (qe_context e)) = k" using Cons EffectEntry by (auto simp: queue_ok_def)
    have f: "rt_queues (finish_effect en e rc a) = rt_queues a" for rc a
      using ext_finish [of "rt_journal a" "rt_queues a" a en e rc] by (simp add: ext_def)
    show ?thesis unfolding run
    proof (cases rule: run_surface_effect_cases [of en e s])
      case (refused y s1 r)
      have "ext (rt_journal s) (rt_queues s) s1" by (rule ext_revalidate [OF refused(1) ext_refl])
      then have "rt_queues s1 = rt_queues s" by (simp add: ext_def)
      with leave_queue_count [of s1 k q] q Cons refused(2) key f
      show "entry_count (rt_queues (run_surface_effect en e s)) < entry_count (rt_queues s)" by simp
    next
      case (executed u r b)
      with leave_queue_count [of "s\<lparr>rt_effects := rt_effects s @ [e]\<rparr>" k q] q Cons key f
      show "entry_count (rt_queues (run_surface_effect en e s)) < entry_count (rt_queues s)" by simp
    qed
  next
    case (PaneEntry item)
    with q Cons have run: "run_queue en k s = run_queued_item en k item s" by (simp add: run_queue_def)
    obtain s1 where "run_queued_item en k item s = leave_pane_queue k s1" "rt_queues s1 = rt_queues s"
      by (rule run_item_cases [of en k item s undefined]) (auto dest: calm_frame(4))
    with leave_pane_count [of s1 k q] q Cons run show ?thesis by simp
  qed
qed

lemma runtime_ok_run_queue: "runtime_ok sha s \<Longrightarrow> runtime_ok sha (run_queue en k s)"
  by (cases rule: run_queue_cases [of en k s]) (auto intro: runtime_ok_run_effect runtime_ok_run_item)

lemma drain_empties:
  "runtime_ok sha s \<Longrightarrow> entry_count (rt_queues s) \<le> n \<Longrightarrow>
     list_all (\<lambda>(k, q). rq_entries q = []) (rt_queues (drain n f s)) \<and> moves_on s (drain n f s)"
proof (induction n arbitrary: f s)
  case 0
  then have "list_all (\<lambda>(k, q). rq_entries q = []) (rt_queues s)"
    by (auto simp: entry_count_def list_all_iff)
  then show ?case by (simp add: moves_ext)
next
  case (Suc n)
  show ?case
  proof (cases "find (\<lambda>(k, q). rq_entries q \<noteq> []) (rt_queues s)")
    case None
    then have "list_all (\<lambda>(k, q). rq_entries q = []) (rt_queues s)" by (auto simp: find_None_iff list_all_iff)
    with None show ?thesis by (simp add: moves_ext)
  next
    case (Some kq)
    obtain k q where kq: "kq = (k, q)" by fastforce
    with Some obtain i where "i < length (rt_queues s)" "rt_queues s ! i = (k, q)" "rq_entries q \<noteq> []"
      by (auto simp: find_Some_iff)
    then have "(k, q) \<in> set (rt_queues s)" using nth_mem by fastforce
    moreover have "jm_ok (rt_queues s)" using runtime_okD(2) [OF Suc.prems(1)] by (simp add: queues_ok_def)
    ultimately have q: "jm_get (rt_queues s) k = Some q" by (rule map_of_is_SomeI [rotated])
    note q = q \<open>rq_entries q \<noteq> []\<close>
    let ?s1 = "run_queue (f 0) k s"
    have "runtime_ok sha ?s1" by (rule runtime_ok_run_queue [OF Suc.prems(1)])
    moreover have "entry_count (rt_queues ?s1) \<le> n" using run_queue_count [OF Suc.prems(1) q, of "f 0"] Suc.prems(2) by simp
    ultimately have "list_all (\<lambda>(k, q). rq_entries q = []) (rt_queues (drain n (\<lambda>i. f (Suc i)) ?s1)) \<and>
        moves_on ?s1 (drain n (\<lambda>i. f (Suc i)) ?s1)" by (rule Suc.IH)
    with Some kq moves_trans [OF run_queue_moves_on [OF Suc.prems(1), of "f 0" k], of "drain n (\<lambda>i. f (Suc i)) ?s1"]
    show ?thesis by simp
  qed
qed

text \<open>
  C9. The queues drain: after any run, as many turns as there are entries empty every queue, whatever
  the environment of each turn (its clock, credentials, handlers that throw or time out), and then
  every command that was ever taken up has an outcome in the journal.
\<close>
theorem queues_drain:
  assumes "runtime_run sha (runtime_init epoch) tr s"
  shows "let s' = drain (entry_count (rt_queues s)) f s in
    list_all (\<lambda>(k, q). rq_entries q = []) (rt_queues s') \<and> pending_keys s' = [] \<and>
    (\<forall>i k. EvRequested i k \<in> set (rt_journal s') \<longrightarrow> journal_outcome k s' \<noteq> None)"
proof -
  let ?d = "drain (entry_count (rt_queues s)) f s"
  have ok: "runtime_ok sha s" using assms runtime_ok_init by (rule runtime_run_ok)
  have replay: "replay_ok s" using assms runtime_ok_init replay_ok_init by (rule runtime_run_replay)
  have d: "list_all (\<lambda>(k, q). rq_entries q = []) (rt_queues ?d)" "moves_on s ?d"
    using drain_empties [OF ok le_refl, of f] by auto
  have none: "\<not> waits k (rt_queues ?d)" for k
    using d(1) by (auto simp: waits_def list_all_iff dest!: map_of_SomeD)
  have "pending_keys ?d = []"
    using d(1) by (force simp: pending_keys_def list_all_iff)
  moreover have "journal_outcome k ?d \<noteq> None" if "EvRequested i k \<in> set (rt_journal ?d)" for i k
  proof -
    have "EvRequested i k \<in> set (filter (\<lambda>e. requested_key e = Some k) (rt_journal ?d))" using that by simp
    then have "0 < requests k (rt_journal ?d)" unfolding requests_def by (metis length_pos_if_in_set)
    with replay_moves [OF replay d(2)] none show ?thesis by (simp only: answered_outcome) (simp add: replay_ok_def taken_def)
  qed
  ultimately show ?thesis using d(1) unfolding Let_def by blast
qed

lemma queues_drain_witness:
  "let s = runtime_exec demo_env (Submit (PaneCommand \<lparr>pc_envelope = demo_operator, pc_paneId = ''p1'', pc_kind = OtherPaneCommand\<rparr>)) (runtime_init 3)
   in journal_outcome ''k9'' (drain (entry_count (rt_queues s)) (\<lambda>_. demo_env) s) \<noteq> None"
proof -
  let ?c = "PaneCommand \<lparr>pc_envelope = demo_operator, pc_paneId = ''p1'', pc_kind = OtherPaneCommand\<rparr>"
  let ?s = "runtime_exec demo_env (Submit ?c) (runtime_init 3)"
  let ?d = "drain (entry_count (rt_queues ?s)) (\<lambda>_. demo_env) ?s"
  have key: "cm_key (runtime_envelope ?c) = ''k9''" by (simp add: demo_operator_def)
  have run: "runtime_run demo_sha (runtime_init 3) [(demo_env, Submit ?c)] ?s" by (rule run_step [OF demo_start run_done])
  have "moves_on ?s ?d" using drain_empties [OF runtime_run_ok [OF run runtime_ok_init] le_refl] by blast
  then obtain new where "rt_journal ?d = rt_journal ?s @ new" by (auto simp: moves_on_def extends_def)
  moreover obtain i where "EvRequested i ''k9'' \<in> set (rt_journal ?s)" using demo_first [of ?c] key by auto
  ultimately have "EvRequested i ''k9'' \<in> set (rt_journal ?d)" by simp
  with queues_drain [OF run, of "\<lambda>_. demo_env"] show ?thesis unfolding Let_def by blast
qed
end
