(* ===== verification/TmuxTarget.thy ===== *)
theory TmuxTarget
  imports Json
begin

text \<open>
  Values that are interpolated into tmux command lines (\<open>src/src/utils/tmuxTarget.ts\<close>): pane ids,
  quoted arguments and the single-line check.
\<close>

datatype tmux_error =
    InvalidPaneId string
  | ControlCharacters string
  | MultiLineCommand

definition is_tmux_pane_id :: "string \<Rightarrow> bool" where
  "is_tmux_pane_id value \<longleftrightarrow>
    (case value of [] \<Rightarrow> False
     | c # digits \<Rightarrow> c = CHR ''%'' \<and> 1 \<le> length digits \<and> length digits \<le> 19 \<and> list_all is_digit digits)"

definition assert_tmux_pane_id :: "string \<Rightarrow> string \<Rightarrow> (tmux_error, string) result" where
  "assert_tmux_pane_id label value = throw_if (\<not> is_tmux_pane_id value) (InvalidPaneId label) (Inr value)"

definition is_control :: "char \<Rightarrow> bool" where
  "is_control c \<longleftrightarrow> (let n = (of_char c :: nat) in n \<le> 31 \<or> n = 127)"

definition quote_char :: "char \<Rightarrow> string" where
  "quote_char c = (if c = CHR 0x27 then [CHR 0x27, CHR 0x5C, CHR 0x27, CHR 0x27] else [c])"

definition quote_tmux_argument :: "string \<Rightarrow> string \<Rightarrow> (tmux_error, string) result" where
  "quote_tmux_argument label value =
     throw_if (list_ex is_control value) (ControlCharacters label)
       (Inr (CHR 0x27 # concat (map quote_char value) @ [CHR 0x27]))"

definition assert_single_tmux_command_line :: "string \<Rightarrow> (tmux_error, string) result" where
  "assert_single_tmux_command_line line =
     throw_if (list_ex (\<lambda>c. (of_char c :: nat) \<in> {10, 13}) line) MultiLineCommand (Inr line)"

section \<open>What the quoting achieves\<close>

text \<open>
  How a command line is split at the receiving end: single quotes protect everything up to the next
  single quote, a backslash outside quotes protects one character, white space and \<open>;\<close> outside
  quotes end the word. \<open>read_word quoted acc s\<close> reads one word and returns it with the rest.
\<close>

fun read_word :: "bool \<Rightarrow> string \<Rightarrow> string \<Rightarrow> string \<times> string" where
  "read_word q acc [] = (rev acc, [])"
| "read_word True acc (c # s) = (if c = CHR 0x27 then read_word False acc s else read_word True (c # acc) s)"
| "read_word False acc (c # s) =
    (if c = CHR 0x27 then read_word True acc s
     else if c = CHR 0x5C then (case s of [] \<Rightarrow> (rev acc, []) | d # s' \<Rightarrow> read_word False (d # acc) s')
     else if c = CHR '' '' \<or> c = CHR '';'' \<or> is_control c then (rev acc, c # s)
     else read_word False (c # acc) s)"

lemma read_word_quoted:
  "read_word True acc (concat (map quote_char v) @ CHR 0x27 # s) = read_word False (rev v @ acc) s"
  by (induction v arbitrary: acc) (auto simp: quote_char_def)

text \<open>
  A quoted argument is one word with the original text, whatever follows it, and brings no control
  character into the line, so neither the argument boundary nor the command boundary can be crossed.
\<close>
lemma quote_tmux_argument_roundtrip:
  assumes "quote_tmux_argument label v = Inr q"
  shows "read_word False [] (q @ CHR '' '' # s) = (v, CHR '' '' # s) \<and> \<not> list_ex is_control q \<and>
    assert_single_tmux_command_line q = Inr q"
proof -
  from assms have q: "q = CHR 0x27 # concat (map quote_char v) @ [CHR 0x27]" and v: "\<not> list_ex is_control v"
    by (simp_all add: quote_tmux_argument_def)
  have "\<not> is_control (CHR 0x27)" "\<not> is_control (CHR 0x5C)" by (simp_all add: is_control_def)
  then have quiet: "\<not> list_ex is_control q" using v unfolding q
    by (auto simp: list_ex_iff quote_char_def split: if_splits)
  have "read_word False [] (q @ CHR '' '' # s) = read_word False (rev v) (CHR '' '' # s)"
    using read_word_quoted [of "[]" v "CHR '' '' # s"] by (simp add: q)
  then have "read_word False [] (q @ CHR '' '' # s) = (v, CHR '' '' # s)" by simp
  moreover have "is_control c" if "(of_char c :: nat) \<in> {10, 13}" for c using that by (auto simp: is_control_def)
  with quiet have "assert_single_tmux_command_line q = Inr q"
    unfolding assert_single_tmux_command_line_def list_ex_iff by auto
  ultimately show ?thesis using quiet by blast
qed

lemma quote_tmux_argument_roundtrip_witness:
  "read_word False [] ([CHR 0x27, CHR ''a'', CHR 0x27, CHR 0x5C, CHR 0x27, CHR 0x27, CHR ''b'', CHR 0x27] @ '' x'') =
     ([CHR ''a'', CHR 0x27, CHR ''b''], '' x'')"
proof -
  have "quote_tmux_argument ''arg'' [CHR ''a'', CHR 0x27, CHR ''b''] =
      Inr [CHR 0x27, CHR ''a'', CHR 0x27, CHR 0x5C, CHR 0x27, CHR 0x27, CHR ''b'', CHR 0x27]"
    by (simp add: quote_tmux_argument_def quote_char_def is_control_def)
  from quote_tmux_argument_roundtrip [OF this, of "''x''"] show ?thesis by simp
qed

lemma is_digit_not_control: "is_digit c \<Longrightarrow> \<not> is_control c"
  by (simp add: is_digit_def is_control_def)

lemma tmux_pane_id_tail:
  "is_tmux_pane_id v \<Longrightarrow> v \<noteq> [] \<and> list_all is_digit (tl v)"
  by (cases v) (simp_all add: is_tmux_pane_id_def)

end
