(* ===== verification/PaneLayout.thy ===== *)
theory PaneLayout
  imports TmuxTarget Complex_Main
begin

text \<open>
  The layout tree (\<open>src/src/layout/PaneLayoutTree.ts\<close>) and the choice of where a new pane goes
  (\<open>src/src/layout/PanePlacement.ts\<close>). Trees are immutable in the code as well; where the code
  compares object identity to see whether a subtree changed, the model returns \<open>None\<close> for
  "unchanged". Ratios are rational numbers (the code itself only makes 0.5).
\<close>

datatype split_direction = Horizontal | Vertical

datatype layout_node =
    Leaf (leaf_id: string)
  | Split split_direction rat layout_node layout_node

record pane_layout =
  pl_version :: int
  pl_root :: "layout_node option"

definition PANE_LAYOUT_VERSION :: int where "PANE_LAYOUT_VERSION = 1"

datatype layout_error =
    CannotContainDuplicate string
  | AlreadyContains string
  | NoTarget string
  | NotContains string
  | MetadataMissing string
  | MetadataDuplicate string
  | LayoutDuplicate string
  | MissingBinding string
  | BadTmuxId tmux_error
  | SelectFailed
  | TmuxRejected

definition split_node :: "layout_node \<Rightarrow> layout_node \<Rightarrow> split_direction \<Rightarrow> layout_node" where
  "split_node first second direction = Split direction (1 / 2) first second"

fun leaf_ids :: "layout_node \<Rightarrow> string list" where
  "leaf_ids (Leaf i) = [i]"
| "leaf_ids (Split d r a b) = leaf_ids a @ leaf_ids b"

definition list_leaf_pane_ids :: "layout_node option \<Rightarrow> string list" where
  "list_leaf_pane_ids tree = (case tree of None \<Rightarrow> [] | Some n \<Rightarrow> leaf_ids n)"

fun prune_node :: "(string \<Rightarrow> bool) \<Rightarrow> layout_node \<Rightarrow> layout_node option" where
  "prune_node keep (Leaf i) = (if keep i then Some (Leaf i) else None)"
| "prune_node keep (Split d r a b) =
    (case (prune_node keep a, prune_node keep b) of
       (None, None) \<Rightarrow> None
     | (None, Some b') \<Rightarrow> Some b'
     | (Some a', None) \<Rightarrow> Some a'
     | (Some a', Some b') \<Rightarrow> Some (Split d r a' b'))"

definition prune_root :: "(string \<Rightarrow> bool) \<Rightarrow> layout_node option \<Rightarrow> layout_node option" where
  "prune_root keep tree = Option.bind tree (prune_node keep)"

text \<open>The first loop of \<open>seedPaneLayout\<close>, and of \<open>validateLayoutPaneIds\<close>: the first repeated id.\<close>

fun find_duplicate :: "string list \<Rightarrow> string list \<Rightarrow> string option" where
  "find_duplicate seen [] = None"
| "find_duplicate seen (i # is') = (if i \<in> set seen then Some i else find_duplicate (i # seen) is')"

text \<open>The second loop runs from the last but one id down to the first.\<close>

fun seed_loop :: "string list \<Rightarrow> layout_node \<Rightarrow> layout_node" where
  "seed_loop [] tree = tree"
| "seed_loop (i # rest) tree = seed_loop rest (split_node (Leaf i) tree Horizontal)"

definition seed_pane_layout :: "string list \<Rightarrow> (layout_error, pane_layout) result" where
  "seed_pane_layout paneIds =
    (if paneIds = [] then Inr \<lparr>pl_version = PANE_LAYOUT_VERSION, pl_root = None\<rparr>
     else case find_duplicate [] paneIds of
       Some i \<Rightarrow> Inl (CannotContainDuplicate i)
     | None \<Rightarrow> Inr \<lparr>pl_version = PANE_LAYOUT_VERSION,
                pl_root = Some (seed_loop (rev (butlast paneIds)) (Leaf (last paneIds)))\<rparr>)"

fun insert_node :: "string \<Rightarrow> string \<Rightarrow> split_direction \<Rightarrow> layout_node \<Rightarrow> layout_node option" where
  "insert_node target new direction (Leaf i) =
     (if i \<noteq> target then None else Some (split_node (Leaf i) (Leaf new) direction))"
| "insert_node target new direction (Split d r a b) =
    (case insert_node target new direction a of
       Some a' \<Rightarrow> Some (Split d r a' b)
     | None \<Rightarrow>
        (case insert_node target new direction b of
           Some b' \<Rightarrow> Some (Split d r a b')
         | None \<Rightarrow> None))"

definition insert_pane ::
  "pane_layout \<Rightarrow> string \<Rightarrow> string \<Rightarrow> split_direction \<Rightarrow> (layout_error, pane_layout) result"
where
  "insert_pane layout target new direction =
    (let ids = list_leaf_pane_ids (pl_root layout) in
     throw_if (new \<in> set ids) (AlreadyContains new)
    (throw_if (target \<notin> set ids) (NoTarget target)
    (case Option.bind (pl_root layout) (insert_node target new direction) of
       None \<Rightarrow> Inl (NoTarget target)
     | Some tree \<Rightarrow> Inr \<lparr>pl_version = pl_version layout, pl_root = Some tree\<rparr>)))"

definition remove_pane :: "pane_layout \<Rightarrow> string \<Rightarrow> (layout_error, pane_layout) result" where
  "remove_pane layout i =
     throw_if (i \<notin> set (list_leaf_pane_ids (pl_root layout))) (NotContains i)
       (Inr \<lparr>pl_version = pl_version layout, pl_root = prune_root (\<lambda>j. j \<noteq> i) (pl_root layout)\<rparr>)"

definition visible_pane_layout :: "pane_layout \<Rightarrow> string set \<Rightarrow> layout_node option" where
  "visible_pane_layout layout hidden = prune_root (\<lambda>i. i \<notin> hidden) (pl_root layout)"

definition prune_pane_layout :: "pane_layout \<Rightarrow> string set \<Rightarrow> pane_layout" where
  "prune_pane_layout layout known =
     \<lparr>pl_version = pl_version layout, pl_root = prune_root (\<lambda>i. i \<in> known) (pl_root layout)\<rparr>"

fun adopt_loop ::
  "string list \<Rightarrow> string set \<Rightarrow> pane_layout \<Rightarrow> (layout_error, pane_layout) result"
where
  "adopt_loop [] present layout = Inr layout"
| "adopt_loop (i # rest) present layout =
    (if i \<in> present then adopt_loop rest present layout
     else
       and_then
        (case pl_root layout of
           None \<Rightarrow> Inr \<lparr>pl_version = pl_version layout, pl_root = Some (Leaf i)\<rparr>
         | Some tree \<Rightarrow> insert_pane layout (last (leaf_ids tree)) i Horizontal)
        (\<lambda>layout'. adopt_loop rest (insert i present) layout'))"

definition reconcile_pane_layout :: "pane_layout \<Rightarrow> string list \<Rightarrow> (layout_error, pane_layout) result" where
  "reconcile_pane_layout layout known =
    (let reconciled = prune_pane_layout layout (set known)
     in adopt_loop known (set (list_leaf_pane_ids (pl_root reconciled))) reconciled)"

section \<open>Placement\<close>

record psyche_pane =
  pp_id :: string
  pp_paneId :: string
  pp_hidden :: bool

definition adaptive_split_direction :: "int \<Rightarrow> int \<Rightarrow> split_direction" where
  "adaptive_split_direction width height = (if width \<le> height then Horizontal else Vertical)"

definition resolve_pane_insertion_target ::
  "psyche_pane list \<Rightarrow> pane_layout option \<Rightarrow> string option \<Rightarrow> string option \<Rightarrow> psyche_pane option"
where
  "resolve_pane_insertion_target panes layout focused selected =
    (let visible = filter (\<lambda>p. \<not> pp_hidden p) panes in
     case find (\<lambda>p. Some (pp_paneId p) = focused) visible of
       Some p \<Rightarrow> Some p
     | None \<Rightarrow>
        (case find (\<lambda>p. Some (pp_id p) = selected) visible of
           Some p \<Rightarrow> Some p
         | None \<Rightarrow>
            (let panesById = map_of (rev (map (\<lambda>p. (pp_id p, p)) visible));
                 tree = Option.bind layout pl_root
             in Option.bind (find (\<lambda>i. panesById i \<noteq> None) (list_leaf_pane_ids tree)) panesById)))"

section \<open>Leaves\<close>

text \<open>Every operation is determined, as far as the leaves go, by an operation on the list of leaves.\<close>

lemma leaf_ids_nonempty [simp]: "leaf_ids n \<noteq> []"
  by (induction n) auto

lemma split_node_leaves [simp]: "leaf_ids (split_node a b d) = leaf_ids a @ leaf_ids b"
  by (simp add: split_node_def)

lemma list_leaf_pane_ids_simps [simp]:
  "list_leaf_pane_ids None = []" "list_leaf_pane_ids (Some n) = leaf_ids n"
  by (simp_all add: list_leaf_pane_ids_def)

lemma prune_node_leaves:
  "list_leaf_pane_ids (prune_node keep n) = filter keep (leaf_ids n)"
  by (induction n) (auto split: option.splits)

lemma prune_root_leaves [simp]:
  "list_leaf_pane_ids (prune_root keep tree) = filter keep (list_leaf_pane_ids tree)"
  by (cases tree) (simp_all add: prune_root_def prune_node_leaves)

lemma prune_node_all: "list_all keep (leaf_ids n) \<Longrightarrow> prune_node keep n = Some n"
  by (induction n) auto

lemma find_duplicate_None: "find_duplicate seen xs = None \<longleftrightarrow> distinct xs \<and> set xs \<inter> set seen = {}"
  by (induction xs arbitrary: seen) auto

lemma seed_loop_leaves: "leaf_ids (seed_loop xs tree) = rev xs @ leaf_ids tree"
  by (induction xs arbitrary: tree) auto

lemma insert_node_None: "insert_node target new d n = None \<longleftrightarrow> target \<notin> set (leaf_ids n)"
  by (induction n) (auto split: option.splits)

text \<open>The new leaf goes right after the first occurrence of the target.\<close>

fun insert_after :: "string \<Rightarrow> string \<Rightarrow> string list \<Rightarrow> string list" where
  "insert_after target new [] = []"
| "insert_after target new (i # rest) = (if i = target then i # new # rest else i # insert_after target new rest)"

lemma insert_after_append:
  "insert_after t n (xs @ ys) =
     (if t \<in> set xs then insert_after t n xs @ ys else xs @ insert_after t n ys)"
  by (induction xs) auto

lemma insert_after_set: "t \<in> set xs \<Longrightarrow> set (insert_after t n xs) = insert n (set xs)"
  by (induction xs) auto

lemma insert_after_absent: "t \<notin> set xs \<Longrightarrow> insert_after t n xs = xs"
  by (induction xs) auto

lemma insert_after_distinct: "n \<notin> set xs \<Longrightarrow> distinct xs \<Longrightarrow> distinct (insert_after t n xs)"
proof (induction xs)
  case (Cons x xs)
  have "set (insert_after t n xs) \<subseteq> insert n (set xs)"
    using insert_after_set [of t xs n] by (cases "t \<in> set xs") (auto simp: insert_after_absent)
  with Cons show ?case by auto
qed simp

lemma insert_node_leaves:
  "insert_node target new d n = Some n' \<Longrightarrow> leaf_ids n' = insert_after target new (leaf_ids n)"
proof (induction n arbitrary: n')
  case (Leaf i)
  then show ?case by (auto split: if_splits)
next
  case (Split d' r a b)
  then show ?case using insert_node_None [of target new d a]
    by (auto simp: insert_after_append split: option.splits)
qed

lemma insert_pane_Inr:
  "insert_pane layout target new d = Inr layout' \<longleftrightarrow>
     new \<notin> set (list_leaf_pane_ids (pl_root layout)) \<and> target \<in> set (list_leaf_pane_ids (pl_root layout)) \<and>
     (\<exists>tree tree'. pl_root layout = Some tree \<and> insert_node target new d tree = Some tree' \<and>
        layout' = \<lparr>pl_version = pl_version layout, pl_root = Some tree'\<rparr>)"
  by (cases "pl_root layout") (auto simp: insert_pane_def Let_def split: option.splits)

lemma insert_pane_leaves:
  "insert_pane layout target new d = Inr layout' \<Longrightarrow>
     list_leaf_pane_ids (pl_root layout') = insert_after target new (list_leaf_pane_ids (pl_root layout)) \<and>
     pl_version layout' = pl_version layout"
  by (auto simp: insert_pane_Inr insert_node_leaves)

lemma insert_pane_total:
  assumes "new \<notin> set (list_leaf_pane_ids (pl_root layout))" "target \<in> set (list_leaf_pane_ids (pl_root layout))"
  obtains layout' where "insert_pane layout target new d = Inr layout'"
proof -
  obtain tree where tree: "pl_root layout = Some tree" using assms(2) by (cases "pl_root layout") auto
  with assms(2) obtain tree' where "insert_node target new d tree = Some tree'"
    using insert_node_None [of target new d tree] by auto
  with assms tree that show ?thesis by (simp add: insert_pane_Inr)
qed

lemma insert_after_last: "distinct xs \<Longrightarrow> xs \<noteq> [] \<Longrightarrow> insert_after (last xs) n xs = xs @ [n]"
  by (induction xs) auto

section \<open>Properties\<close>

text \<open>The ids of a list that are not in \<open>seen\<close>, each once, in order.\<close>

fun first_new :: "string set \<Rightarrow> string list \<Rightarrow> string list" where
  "first_new seen [] = []"
| "first_new seen (i # rest) = (if i \<in> seen then first_new seen rest else i # first_new (insert i seen) rest)"

lemma first_new_set: "set (first_new seen xs) = set xs - seen"
  by (induction xs arbitrary: seen) auto

lemma first_new_distinct: "distinct (first_new seen xs)"
  by (induction xs arbitrary: seen) (auto simp: first_new_set)

lemma first_new_cong:
  "(\<And>x. x \<in> set xs \<Longrightarrow> x \<in> A \<longleftrightarrow> x \<in> B) \<Longrightarrow> first_new A xs = first_new B xs"
proof (induction xs arbitrary: A B)
  case (Cons x xs)
  have "first_new A xs = first_new B xs" using Cons.prems by (intro Cons.IH) simp
  moreover have "first_new (insert x A) xs = first_new (insert x B) xs" using Cons.prems by (intro Cons.IH) auto
  ultimately show ?case using Cons.prems [of x] by simp
qed simp

lemma adopt_loop_leaves:
  assumes "distinct (list_leaf_pane_ids (pl_root layout))"
    and "present = set (list_leaf_pane_ids (pl_root layout))"
  obtains layout' where "adopt_loop known present layout = Inr layout'"
    "list_leaf_pane_ids (pl_root layout') = list_leaf_pane_ids (pl_root layout) @ first_new present known"
    "pl_version layout' = pl_version layout"
  using assms
proof (induction known arbitrary: present layout thesis)
  case Nil
  then show ?case by simp
next
  case (Cons i rest)
  show ?case
  proof (cases "i \<in> present")
    case True
    from Cons.IH [OF _ Cons.prems(2,3)] Cons.prems(1) True show ?thesis by auto
  next
    case False
    let ?next = "case pl_root layout of
        None \<Rightarrow> Inr \<lparr>pl_version = pl_version layout, pl_root = Some (Leaf i)\<rparr>
      | Some tree \<Rightarrow> insert_pane layout (last (leaf_ids tree)) i Horizontal"
    obtain mid where mid: "?next = Inr mid"
      "list_leaf_pane_ids (pl_root mid) = list_leaf_pane_ids (pl_root layout) @ [i]"
      "pl_version mid = pl_version layout"
    proof (cases "pl_root layout")
      case None
      with that show ?thesis by simp
    next
      case (Some tree)
      obtain mid where m: "insert_pane layout (last (leaf_ids tree)) i Horizontal = Inr mid"
        by (rule insert_pane_total [of i layout "last (leaf_ids tree)" Horizontal])
          (use False Cons.prems(3) Some in auto)
      with insert_pane_leaves [OF m] Some Cons.prems(2) that show ?thesis
        by (simp add: insert_after_last)
    qed
    from Cons.prems(2,3) mid(2) False have "distinct (list_leaf_pane_ids (pl_root mid))"
      "insert i present = set (list_leaf_pane_ids (pl_root mid))" by auto
    from Cons.IH [OF _ this] obtain layout' where "adopt_loop rest (insert i present) mid = Inr layout'"
      "list_leaf_pane_ids (pl_root layout') = list_leaf_pane_ids (pl_root mid) @ first_new (insert i present) rest"
      "pl_version layout' = pl_version mid" by blast
    with mid False Cons.prems(1) show ?thesis by simp
  qed
qed

lemma reconcile_leaves:
  assumes "distinct (list_leaf_pane_ids (pl_root layout))"
  obtains layout' where "reconcile_pane_layout layout known = Inr layout'"
    "list_leaf_pane_ids (pl_root layout') =
       filter (\<lambda>i. i \<in> set known) (list_leaf_pane_ids (pl_root layout)) @
       first_new (set (list_leaf_pane_ids (pl_root layout))) known"
    "pl_version layout' = pl_version layout"
proof -
  let ?p = "prune_pane_layout layout (set known)"
  have leaves: "list_leaf_pane_ids (pl_root ?p) = filter (\<lambda>i. i \<in> set known) (list_leaf_pane_ids (pl_root layout))"
    by (simp add: prune_pane_layout_def)
  have "first_new (set (list_leaf_pane_ids (pl_root ?p))) ks = first_new (set (list_leaf_pane_ids (pl_root layout))) ks"
    if "set ks \<subseteq> set known" for ks
    using that first_new_cong [of ks "set (list_leaf_pane_ids (pl_root ?p))" "set (list_leaf_pane_ids (pl_root layout))"]
    by (auto simp: leaves)
  moreover have "distinct (list_leaf_pane_ids (pl_root ?p))" using assms leaves by simp
  ultimately show ?thesis
    using adopt_loop_leaves [of ?p _ known] that leaves
    by (fastforce simp: reconcile_pane_layout_def Let_def prune_pane_layout_def)
qed

text \<open>
  Reconciling a layout whose leaves are distinct always succeeds: the leaves that are still known
  keep their order, the known panes that were missing are appended once each in the order given, and
  the result has exactly the known panes as distinct leaves.
\<close>
lemma reconcile_exact:
  assumes "distinct (list_leaf_pane_ids (pl_root layout))"
  shows "\<exists>layout'. reconcile_pane_layout layout known = Inr layout' \<and>
    list_leaf_pane_ids (pl_root layout') =
      filter (\<lambda>i. i \<in> set known) (list_leaf_pane_ids (pl_root layout)) @
      first_new (set (list_leaf_pane_ids (pl_root layout))) known \<and>
    distinct (list_leaf_pane_ids (pl_root layout')) \<and>
    set (list_leaf_pane_ids (pl_root layout')) = set known \<and> pl_version layout' = pl_version layout"
proof -
  obtain layout' where "reconcile_pane_layout layout known = Inr layout'" and
    leaves: "list_leaf_pane_ids (pl_root layout') =
       filter (\<lambda>i. i \<in> set known) (list_leaf_pane_ids (pl_root layout)) @
       first_new (set (list_leaf_pane_ids (pl_root layout))) known" and
    "pl_version layout' = pl_version layout"
    by (rule reconcile_leaves [OF assms])
  moreover have "distinct (list_leaf_pane_ids (pl_root layout'))"
    using assms by (auto simp: leaves first_new_distinct first_new_set)
  moreover have "set (list_leaf_pane_ids (pl_root layout')) = set known" by (auto simp: leaves first_new_set)
  ultimately show ?thesis by blast
qed

lemma reconcile_exact_witness:
  "\<exists>layout'. reconcile_pane_layout \<lparr>pl_version = 1, pl_root = Some (Split Vertical (1/2) (Leaf ''a'') (Leaf ''b''))\<rparr>
      [''c'', ''b''] = Inr layout' \<and> list_leaf_pane_ids (pl_root layout') = [''b'', ''c'']"
  using reconcile_exact [of "\<lparr>pl_version = 1, pl_root = Some (Split Vertical (1/2) (Leaf ''a'') (Leaf ''b''))\<rparr>"
      "[''c'', ''b'']"]
  by auto

text \<open>
  Removing a pane that was just inserted gives back the layout as it was, the directions and
  ratios of every split included.
\<close>
lemma insert_remove_roundtrip:
  assumes "insert_pane layout target new d = Inr layout'"
  shows "remove_pane layout' new = Inr layout"
proof -
  have prune_absent: "prune_node (\<lambda>j. j \<noteq> new) n = Some n" if "new \<notin> set (leaf_ids n)" for n
    using that by (intro prune_node_all) (auto simp: list_all_iff)
  have prune: "prune_node (\<lambda>j. j \<noteq> new) n' = Some n"
    if "insert_node target new d n = Some n'" "new \<notin> set (leaf_ids n)" for n n'
    using that
  proof (induction n arbitrary: n')
    case (Leaf i)
    then show ?case by (auto simp: split_node_def split: if_splits)
  next
    case (Split d' r a b)
    then show ?case by (auto simp: prune_absent split: option.splits)
  qed
  from assms obtain tree tree' where t: "pl_root layout = Some tree" "insert_node target new d tree = Some tree'"
    "new \<notin> set (leaf_ids tree)" "target \<in> set (leaf_ids tree)"
    "layout' = \<lparr>pl_version = pl_version layout, pl_root = Some tree'\<rparr>"
    by (auto simp: insert_pane_Inr)
  moreover have "new \<in> set (leaf_ids tree')"
    using insert_node_leaves [OF t(2)] insert_after_set [OF t(4)] by simp
  ultimately show ?thesis
    using prune [OF t(2,3)] by (cases layout) (simp add: remove_pane_def prune_root_def)
qed

lemma insert_remove_roundtrip_witness:
  "remove_pane \<lparr>pl_version = 1, pl_root = Some (split_node (Leaf ''a'') (Leaf ''b'') Vertical)\<rparr> ''b'' =
     Inr \<lparr>pl_version = 1, pl_root = Some (Leaf ''a'')\<rparr>"
  by (rule insert_remove_roundtrip [where target = "''a''" and d = Vertical]) (simp add: insert_pane_def)

text \<open>
  Seeding lays the panes out in the order given, and fails exactly when an id is repeated.
\<close>
theorem seed_exact:
  "(\<exists>layout. seed_pane_layout paneIds = Inr layout \<and> list_leaf_pane_ids (pl_root layout) = paneIds \<and>
      pl_version layout = PANE_LAYOUT_VERSION \<and> distinct paneIds) \<or>
   (\<exists>i. seed_pane_layout paneIds = Inl (CannotContainDuplicate i) \<and> \<not> distinct paneIds)"
proof (cases "find_duplicate [] paneIds")
  case None
  then have "distinct paneIds" by (simp add: find_duplicate_None)
  moreover have "\<exists>layout. seed_pane_layout paneIds = Inr layout \<and> list_leaf_pane_ids (pl_root layout) = paneIds \<and>
      pl_version layout = PANE_LAYOUT_VERSION"
    unfolding seed_pane_layout_def None by (cases "paneIds = []") (simp_all add: seed_loop_leaves)
  ultimately show ?thesis by blast
next
  case (Some i)
  then have "\<not> distinct paneIds" "paneIds \<noteq> []" using find_duplicate_None [of "[]" paneIds] by auto
  with Some show ?thesis by (simp add: seed_pane_layout_def)
qed

text \<open>
  A new pane is placed next to a pane that is on the screen: the target is never hidden, the focused
  pane is preferred to the selected one and that to the first visible leaf of the layout.
\<close>
theorem insertion_target_visible:
  assumes "resolve_pane_insertion_target panes layout focused selected = Some p"
  shows "p \<in> set panes \<and> \<not> pp_hidden p \<and>
    (Some (pp_paneId p) = focused \<or>
     \<not> list_ex (\<lambda>q. \<not> pp_hidden q \<and> Some (pp_paneId q) = focused) panes \<and>
     (Some (pp_id p) = selected \<or>
      \<not> list_ex (\<lambda>q. \<not> pp_hidden q \<and> Some (pp_id q) = selected) panes \<and>
      pp_id p \<in> set (list_leaf_pane_ids (Option.bind layout pl_root))))"
proof -
  let ?v = "filter (\<lambda>p. \<not> pp_hidden p) panes"
  let ?m = "map_of (rev (map (\<lambda>p. (pp_id p, p)) ?v))"
  have m: "q \<in> set panes \<and> \<not> pp_hidden q \<and> pp_id q = i" if "?m i = Some q" for q i
    using map_of_SomeD [OF that] by auto
  show ?thesis
  proof (cases "find (\<lambda>p. Some (pp_paneId p) = focused) ?v")
    case (Some q)
    with assms show ?thesis by (auto simp: resolve_pane_insertion_target_def find_Some_iff list_ex_iff)
      (metis (mono_tags, lifting) mem_Collect_eq nth_mem set_filter)+
  next
    case None
    then have f: "\<not> list_ex (\<lambda>q. \<not> pp_hidden q \<and> Some (pp_paneId q) = focused) panes"
      by (auto simp: find_None_iff list_ex_iff)
    show ?thesis
    proof (cases "find (\<lambda>p. Some (pp_id p) = selected) ?v")
      case (Some q)
      with None assms have "p = q" by (simp add: resolve_pane_insertion_target_def)
      with Some f show ?thesis by (auto simp: find_Some_iff)
        (metis (mono_tags, lifting) mem_Collect_eq nth_mem set_filter)+
    next
      case none: None
      then have s: "\<not> list_ex (\<lambda>q. \<not> pp_hidden q \<and> Some (pp_id q) = selected) panes"
        by (auto simp: find_None_iff list_ex_iff)
      from assms None none obtain i where
        i: "find (\<lambda>i. ?m i \<noteq> None) (list_leaf_pane_ids (Option.bind layout pl_root)) = Some i" "?m i = Some p"
        by (auto simp: resolve_pane_insertion_target_def Let_def bind_eq_Some_conv)
      then have "i \<in> set (list_leaf_pane_ids (Option.bind layout pl_root))" by (auto simp: find_Some_iff)
      with m [OF i(2)] f s show ?thesis by auto
    qed
  qed
qed

lemma insertion_target_visible_witness:
  "\<not> pp_hidden \<lparr>pp_id = ''b'', pp_paneId = ''%2'', pp_hidden = False\<rparr> \<and>
   resolve_pane_insertion_target [\<lparr>pp_id = ''a'', pp_paneId = ''%1'', pp_hidden = True\<rparr>,
     \<lparr>pp_id = ''b'', pp_paneId = ''%2'', pp_hidden = False\<rparr>] None (Some ''%1'') (Some ''b'') =
     Some \<lparr>pp_id = ''b'', pp_paneId = ''%2'', pp_hidden = False\<rparr>"
proof -
  have r: "resolve_pane_insertion_target [\<lparr>pp_id = ''a'', pp_paneId = ''%1'', pp_hidden = True\<rparr>,
     \<lparr>pp_id = ''b'', pp_paneId = ''%2'', pp_hidden = False\<rparr>] None (Some ''%1'') (Some ''b'') =
     Some \<lparr>pp_id = ''b'', pp_paneId = ''%2'', pp_hidden = False\<rparr>"
    by (simp add: resolve_pane_insertion_target_def)
  from insertion_target_visible [OF r] r show ?thesis by blast
qed

end
