(* ===== verification/LayoutCompiler.thy ===== *)
theory LayoutCompiler
  imports PaneLayout
begin

unbundle bit_operations_syntax

text \<open>
  From a layout tree to a tmux layout string (\<open>src/src/layout/PaneLayoutCompiler.ts\<close>) and the whole
  mutation transaction (\<open>src/src/layout/PaneLayoutController.ts\<close>). Sizes are integers and the product
  with the ratio is taken exactly before it is rounded down. The checksum is a 16-bit word.
\<close>

section \<open>Text\<close>

fun to_hex :: "nat \<Rightarrow> string" where
  "to_hex n = (if n < 16 then [hex_digit n] else to_hex (n div 16) @ [hex_digit (n mod 16)])"

declare to_hex.simps [simp del]

definition pad_start :: "nat \<Rightarrow> char \<Rightarrow> string \<Rightarrow> string" where
  "pad_start n c s = replicate (n - length s) c @ s"

text \<open>One round: rotate the 16-bit sum right by one, add the character, keep 16 bits.\<close>

definition checksum_step :: "char \<Rightarrow> 16 word \<Rightarrow> 16 word" where
  "checksum_step ch checksum =
     (drop_bit 1 checksum + push_bit 15 (checksum AND 1)) + word_of_nat (of_char ch)"

definition calculate_layout_checksum :: "string \<Rightarrow> string" where
  "calculate_layout_checksum layout = pad_start 4 (CHR ''0'') (to_hex (unat (fold checksum_step layout 0)))"

definition show_rect :: "int \<Rightarrow> int \<Rightarrow> int \<Rightarrow> int \<Rightarrow> string" where
  "show_rect width height x y =
     show_int width @ ''x'' @ show_int height @ '','' @ show_int x @ '','' @ show_int y"

section \<open>Rendering\<close>

definition scale :: "int \<Rightarrow> rat \<Rightarrow> int" where
  "scale extent ratio = \<lfloor>of_int (extent - 1) * ratio\<rfloor>"

definition bind_tmux :: "(tmux_error, 'a) result \<Rightarrow> (layout_error, 'a) result" where
  "bind_tmux r = (case r of Inl e \<Rightarrow> Inl (BadTmuxId e) | Inr x \<Rightarrow> Inr x)"

fun render_node ::
  "(string \<Rightarrow> string option) \<Rightarrow> int \<Rightarrow> int \<Rightarrow> int \<Rightarrow> int \<Rightarrow> layout_node \<Rightarrow> (layout_error, string) result"
where
  "render_node panes x y width height (Leaf i) =
    (case truthy_string (panes i) of
       None \<Rightarrow> Inl (MissingBinding i)
     | Some paneId \<Rightarrow>
         and_then (bind_tmux (assert_tmux_pane_id ''pane id'' paneId)) (\<lambda>v.
           Inr (show_rect width height x y @ '','' @ tl v)))"
| "render_node panes x y width height (Split direction ratio first second) =
    (if direction = Horizontal then
       let firstWidth = scale width ratio; secondWidth = width - firstWidth - 1 in
       and_then (render_node panes x y firstWidth height first) (\<lambda>a.
       and_then (render_node panes (x + firstWidth + 1) y secondWidth height second) (\<lambda>b.
         Inr (show_rect width height x y @ ''{'' @ a @ '','' @ b @ ''}'')))
     else
       let firstHeight = scale height ratio; secondHeight = height - firstHeight - 1 in
       and_then (render_node panes x y width firstHeight first) (\<lambda>a.
       and_then (render_node panes x (y + firstHeight + 1) width secondHeight second) (\<lambda>b.
         Inr (show_rect width height x y @ ''['' @ a @ '','' @ b @ '']''))))"

record compile_options =
  co_controlPaneId :: string
  co_root :: "layout_node option"
  co_panes :: "string \<Rightarrow> string option"
  co_sidebarWidth :: int
  co_windowWidth :: int
  co_windowHeight :: int

definition compile_sidebar_pane_layout :: "compile_options \<Rightarrow> (layout_error, string) result" where
  "compile_sidebar_pane_layout opts =
    and_then (bind_tmux (assert_tmux_pane_id ''control pane id'' (co_controlPaneId opts))) (\<lambda>v.
    let sidebarPaneId = tl v in
    (case co_root opts of
       None \<Rightarrow>
         let body = show_rect (co_windowWidth opts) (co_windowHeight opts) 0 0 @ '','' @ sidebarPaneId
         in Inr (calculate_layout_checksum body @ '','' @ body)
     | Some tree \<Rightarrow>
         let contentWidth = co_windowWidth opts - co_sidebarWidth opts - 1;
             contentX = co_sidebarWidth opts + 1;
             sidebar = show_rect (co_sidebarWidth opts) (co_windowHeight opts) 0 0 @ '','' @ sidebarPaneId
         in and_then (render_node (co_panes opts) contentX 0 contentWidth (co_windowHeight opts) tree) (\<lambda>content.
            let body = show_rect (co_windowWidth opts) (co_windowHeight opts) 0 0 @ ''{'' @ sidebar @ '','' @ content @ ''}''
            in Inr (calculate_layout_checksum body @ '','' @ body))))"

section \<open>The mutation transaction\<close>

definition DEFAULT_SIDEBAR_WIDTH :: int where "DEFAULT_SIDEBAR_WIDTH = 40"

datatype layout_mutation =
    MInsert string string split_direction
  | MRemove string
  | MReconcile
  | MBatch "layout_mutation list"

fun pane_map :: "psyche_pane list \<Rightarrow> (string, string) jsmap \<Rightarrow> (layout_error, (string, string) jsmap) result" where
  "pane_map [] panesById = Inr panesById"
| "pane_map (p # ps) panesById =
     throw_if (jm_get panesById (pp_id p) \<noteq> None) (MetadataDuplicate (pp_id p))
       (pane_map ps (jm_set (pp_id p) (pp_paneId p) panesById))"

definition validate_layout_pane_ids :: "pane_layout \<Rightarrow> (layout_error, unit) result" where
  "validate_layout_pane_ids layout =
    (case find_duplicate [] (list_leaf_pane_ids (pl_root layout)) of
       Some i \<Rightarrow> Inl (LayoutDuplicate i) | None \<Rightarrow> Inr ())"

fun inserted_pane_ids :: "layout_mutation \<Rightarrow> string list" where
  "inserted_pane_ids (MInsert i t d) = [i]"
| "inserted_pane_ids (MBatch ms) = concat (map inserted_pane_ids ms)"
| "inserted_pane_ids _ = []"

definition seed_layout_for_mutation ::
  "psyche_pane list \<Rightarrow> layout_mutation \<Rightarrow> (layout_error, pane_layout) result"
where
  "seed_layout_for_mutation panes mutation =
     seed_pane_layout (map pp_id (filter (\<lambda>p. pp_id p \<notin> set (inserted_pane_ids mutation)) panes))"

fun apply_mutation ::
    "string list \<Rightarrow> layout_mutation \<Rightarrow> pane_layout \<Rightarrow> (layout_error, pane_layout) result"
  and apply_mutations ::
    "string list \<Rightarrow> layout_mutation list \<Rightarrow> pane_layout \<Rightarrow> (layout_error, pane_layout) result"
where
  "apply_mutation known (MInsert i target d) layout =
     throw_if (i \<notin> set known) (MetadataMissing i) (insert_pane layout target i d)"
| "apply_mutation known (MRemove i) layout = remove_pane layout i"
| "apply_mutation known MReconcile layout = reconcile_pane_layout layout known"
| "apply_mutation known (MBatch ms) layout = apply_mutations known ms layout"
| "apply_mutations known [] layout = Inr layout"
| "apply_mutations known (m # ms) layout =
     and_then (apply_mutation known m layout) (apply_mutations known ms)"

record mutation_options =
  mo_paneLayout :: "pane_layout option"
  mo_panes :: "psyche_pane list"
  mo_controlPaneId :: string
  mo_terminalWidth :: int
  mo_terminalHeight :: int
  mo_sidebarWidth :: "int option"
  mo_mutation :: layout_mutation

text \<open>
  \<open>selectLayout\<close> is the argument \<open>select\<close>: what tmux answers to a layout string, \<open>None\<close> when the call
  throws.
\<close>

definition apply_pane_layout_mutation ::
  "(string \<Rightarrow> bool option) \<Rightarrow> mutation_options \<Rightarrow> (layout_error, pane_layout) result"
where
  "apply_pane_layout_mutation select opts =
    and_then (pane_map (mo_panes opts) []) (\<lambda>panesById.
    and_then (case mo_paneLayout opts of
                Some layout \<Rightarrow> Inr layout
              | None \<Rightarrow> seed_layout_for_mutation (mo_panes opts) (mo_mutation opts)) (\<lambda>baseLayout.
    and_then (validate_layout_pane_ids baseLayout) (\<lambda>_.
    and_then (apply_mutation (map fst panesById) (mo_mutation opts) baseLayout) (\<lambda>layout.
    let hiddenPaneIds = set (map pp_id (filter pp_hidden (mo_panes opts)));
        projectedRoot = visible_pane_layout layout hiddenPaneIds in
    and_then (compile_sidebar_pane_layout
       \<lparr>co_controlPaneId = mo_controlPaneId opts, co_root = projectedRoot,
        co_panes = jm_get panesById,
        co_sidebarWidth = (case mo_sidebarWidth opts of None \<Rightarrow> DEFAULT_SIDEBAR_WIDTH | Some w \<Rightarrow> w),
        co_windowWidth = mo_terminalWidth opts, co_windowHeight = mo_terminalHeight opts\<rparr>) (\<lambda>compiledLayout.
    (case select compiledLayout of
       None \<Rightarrow> Inl SelectFailed
     | Some accepted \<Rightarrow> throw_if (\<not> accepted) TmuxRejected (Inr layout)))))))"

section \<open>Geometry\<close>

text \<open>The specification: a placed tree with a rectangle at every node, and how it is printed.\<close>

type_synonym rect = "int \<times> int \<times> int \<times> int"

datatype placed = PLeaf rect string | PSplit rect split_direction placed placed

fun place :: "int \<Rightarrow> int \<Rightarrow> int \<Rightarrow> int \<Rightarrow> layout_node \<Rightarrow> placed" where
  "place x y w h (Leaf i) = PLeaf (x, y, w, h) i"
| "place x y w h (Split Horizontal r a b) =
     PSplit (x, y, w, h) Horizontal (place x y (scale w r) h a)
       (place (x + scale w r + 1) y (w - scale w r - 1) h b)"
| "place x y w h (Split Vertical r a b) =
     PSplit (x, y, w, h) Vertical (place x y w (scale h r) a)
       (place x (y + scale h r + 1) w (h - scale h r - 1) b)"

fun print_placed :: "(string \<Rightarrow> string option) \<Rightarrow> placed \<Rightarrow> (layout_error, string) result" where
  "print_placed panes (PLeaf (x, y, w, h) i) =
    (case truthy_string (panes i) of
       None \<Rightarrow> Inl (MissingBinding i)
     | Some paneId \<Rightarrow> and_then (bind_tmux (assert_tmux_pane_id ''pane id'' paneId)) (\<lambda>v.
         Inr (show_rect w h x y @ '','' @ tl v)))"
| "print_placed panes (PSplit (x, y, w, h) d a b) =
    and_then (print_placed panes a) (\<lambda>s. and_then (print_placed panes b) (\<lambda>t.
      Inr (show_rect w h x y @ (if d = Horizontal then ''{'' else ''['') @ s @ '','' @ t @
           (if d = Horizontal then ''}'' else '']''))))"

fun placed_rect :: "placed \<Rightarrow> rect" where
  "placed_rect (PLeaf r i) = r" | "placed_rect (PSplit r d a b) = r"

fun cells :: "placed \<Rightarrow> (string \<times> rect) list" where
  "cells (PLeaf r i) = [(i, r)]" | "cells (PSplit r d a b) = cells a @ cells b"

definition points :: "rect \<Rightarrow> (int \<times> int) set" where
  "points = (\<lambda>(x, y, w, h). {(a, b). x \<le> a \<and> a < x + w \<and> y \<le> b \<and> b < y + h})"

text \<open>The two halves and the separator line between them are exactly the parent, at every split.\<close>

fun tiled :: "placed \<Rightarrow> bool" where
  "tiled (PLeaf r i) = True"
| "tiled (PSplit (x, y, w, h) d a b) \<longleftrightarrow>
    tiled a \<and> tiled b \<and>
    (\<exists>m. if d = Horizontal
         then placed_rect a = (x, y, m, h) \<and> placed_rect b = (x + m + 1, y, w - m - 1, h) \<and> (0 < w \<longrightarrow> 0 \<le> m \<and> m < w)
         else placed_rect a = (x, y, w, m) \<and> placed_rect b = (x, y + m + 1, w, h - m - 1) \<and> (0 < h \<longrightarrow> 0 \<le> m \<and> m < h))"

fun ratios_ok :: "layout_node \<Rightarrow> bool" where
  "ratios_ok (Leaf i) = True"
| "ratios_ok (Split d r a b) \<longleftrightarrow> 0 \<le> r \<and> r \<le> 1 \<and> ratios_ok a \<and> ratios_ok b"

lemma placed_rect_place [simp]: "placed_rect (place x y w h n) = (x, y, w, h)"
  by (cases "(x, y, w, h, n)" rule: place.cases) simp_all

lemma cells_place: "map fst (cells (place x y w h n)) = leaf_ids n"
  by (induction x y w h n rule: place.induct) auto

lemma render_node_prints: "render_node panes x y w h n = print_placed panes (place x y w h n)"
  by (induction x y w h n rule: place.induct) (simp_all add: Let_def)

lemma scale_bounds:
  assumes "0 \<le> r" "r \<le> 1"
  shows "0 < w \<Longrightarrow> 0 \<le> scale w r \<and> scale w r < w" "w \<le> 0 \<Longrightarrow> scale w r \<le> 0 \<and> w - 1 \<le> scale w r"
proof -
  assume "0 < w"
  then have w: "0 \<le> (of_int (w - 1) :: rat)" by simp
  then have "0 \<le> of_int (w - 1) * r" "of_int (w - 1) * r \<le> of_int (w - 1)"
    using assms by (simp_all add: mult_left_le)
  then show "0 \<le> scale w r \<and> scale w r < w"
    unfolding scale_def by (auto simp: floor_less_iff)
next
  assume "w \<le> 0"
  then have w: "(of_int (w - 1) :: rat) \<le> 0" by simp
  then have "of_int (w - 1) * r \<le> 0" "of_int (w - 1) \<le> of_int (w - 1) * r"
    using assms mult_left_mono_neg [of r 1 "of_int (w - 1)"] by (simp_all add: mult_nonpos_nonneg)
  then show "scale w r \<le> 0 \<and> w - 1 \<le> scale w r"
    unfolding scale_def by (auto simp: floor_le_iff le_floor_iff)
qed

lemma place_tiled: "ratios_ok n \<Longrightarrow> tiled (place x y w h n)"
  by (induction x y w h n rule: place.induct) (auto simp: scale_bounds)

lemma cells_inside: "ratios_ok n \<Longrightarrow> (i, r) \<in> set (cells (place x y w h n)) \<Longrightarrow> points r \<subseteq> points (x, y, w, h)"
proof (induction x y w h n rule: place.induct)
  case (2 x y w h r' a b)
  then have sub: "points r \<subseteq> points (x, y, scale w r', h) \<or>
      points r \<subseteq> points (x + scale w r' + 1, y, w - scale w r' - 1, h)" by auto
  have "points (x, y, scale w r', h) \<subseteq> points (x, y, w, h) \<and>
      points (x + scale w r' + 1, y, w - scale w r' - 1, h) \<subseteq> points (x, y, w, h)"
    using scale_bounds [of r' w] "2.prems"(1) by (cases "0 < w") (auto simp: points_def)
  with sub show ?case by blast
next
  case (3 x y w h r' a b)
  then have sub: "points r \<subseteq> points (x, y, w, scale h r') \<or>
      points r \<subseteq> points (x, y + scale h r' + 1, w, h - scale h r' - 1)" by auto
  have "points (x, y, w, scale h r') \<subseteq> points (x, y, w, h) \<and>
      points (x, y + scale h r' + 1, w, h - scale h r' - 1) \<subseteq> points (x, y, w, h)"
    using scale_bounds [of r' h] "3.prems"(1) by (cases "0 < h") (auto simp: points_def)
  with sub show ?case by blast
qed simp

fun disjoint_cells :: "(string \<times> rect) list \<Rightarrow> bool" where
  "disjoint_cells [] = True"
| "disjoint_cells (c # cs) \<longleftrightarrow> (\<forall>d \<in> set cs. points (snd c) \<inter> points (snd d) = {}) \<and> disjoint_cells cs"

lemma disjoint_cells_append:
  "disjoint_cells cs \<Longrightarrow> disjoint_cells ds \<Longrightarrow>
   \<forall>c \<in> set cs. \<forall>d \<in> set ds. points (snd c) \<inter> points (snd d) = {} \<Longrightarrow> disjoint_cells (cs @ ds)"
  by (induction cs) (auto simp del: split_paired_All)

lemma cells_disjoint: "ratios_ok n \<Longrightarrow> disjoint_cells (cells (place x y w h n))"
proof (induction x y w h n rule: place.induct)
  case (1 x y w h i)
  show ?case by simp
next
  case (2 x y w h r' a b)
  have "points (snd c) \<inter> points (snd d) = {}"
    if "c \<in> set (cells (place x y (scale w r') h a))" "d \<in> set (cells (place (x + scale w r' + 1) y (w - scale w r' - 1) h b))" for c d
  proof -
    have "points (snd c) \<subseteq> points (x, y, scale w r', h)"
      "points (snd d) \<subseteq> points (x + scale w r' + 1, y, w - scale w r' - 1, h)"
      using that "2.prems" cells_inside [of a "fst c" "snd c"] cells_inside [of b "fst d" "snd d"] by auto
    then show ?thesis by (fastforce simp: points_def)
  qed
  with 2 show ?case by (simp add: disjoint_cells_append)
next
  case (3 x y w h r' a b)
  have "points (snd c) \<inter> points (snd d) = {}"
    if "c \<in> set (cells (place x y w (scale h r') a))" "d \<in> set (cells (place x (y + scale h r' + 1) w (h - scale h r' - 1) b))" for c d
  proof -
    have "points (snd c) \<subseteq> points (x, y, w, scale h r')"
      "points (snd d) \<subseteq> points (x, y + scale h r' + 1, w, h - scale h r' - 1)"
      using that "3.prems" cells_inside [of a "fst c" "snd c"] cells_inside [of b "fst d" "snd d"] by auto
    then show ?thesis by (fastforce simp: points_def)
  qed
  with 3 show ?case by (simp add: disjoint_cells_append)
qed

text \<open>
  C39. The compiler refines the geometry: what it prints is the placed tree, in which the two parts of every
  split and the separator between them make up the parent exactly; so the panes of a layout lie inside
  the window area, in the order of the leaves, and no two of them overlap.
\<close>
theorem layout_tiles:
  assumes "ratios_ok n"
  shows "render_node panes x y w h n = print_placed panes (place x y w h n) \<and>
    tiled (place x y w h n) \<and> map fst (cells (place x y w h n)) = leaf_ids n \<and>
    (\<Union>c \<in> set (cells (place x y w h n)). points (snd c)) \<subseteq> points (x, y, w, h) \<and>
    disjoint_cells (cells (place x y w h n))"
proof -
  have "points (snd c) \<subseteq> points (x, y, w, h)" if "c \<in> set (cells (place x y w h n))" for c
    using cells_inside [OF assms, of "fst c" "snd c"] that by simp
  then have "(\<Union>c \<in> set (cells (place x y w h n)). points (snd c)) \<subseteq> points (x, y, w, h)" by (rule UN_least)
  with render_node_prints place_tiled [OF assms] cells_place cells_disjoint [OF assms] show ?thesis by blast
qed

lemma layout_tiles_witness:
  "disjoint_cells [(''a'', 41, 0, 19, 24), (''b'', 61, 0, 19, 11), (''c'', 61, 12, 19, 12)]"
proof -
  have "\<lfloor>(19 :: rat)\<rfloor> = 19" "\<lfloor>(23 / 2 :: rat)\<rfloor> = 11" by (simp_all add: floor_eq_iff)
  then have "cells (place 41 0 39 24 (split_node (Leaf ''a'') (split_node (Leaf ''b'') (Leaf ''c'') Vertical) Horizontal)) =
      [(''a'', 41, 0, 19, 24), (''b'', 61, 0, 19, 11), (''c'', 61, 12, 19, 12)]"
    by (simp add: split_node_def scale_def)
  then show ?thesis
    using layout_tiles [of "split_node (Leaf ''a'') (split_node (Leaf ''b'') (Leaf ''c'') Vertical) Horizontal" "\<lambda>_. None" 41 0 39 24]
    by (simp add: split_node_def)
qed

section \<open>The text\<close>

text \<open>The characters a layout string is made of.\<close>

definition layout_char :: "char \<Rightarrow> bool" where
  "layout_char c \<longleftrightarrow> (let n = (of_char c :: nat) in
     is_digit c \<or> 97 \<le> n \<and> n \<le> 102 \<or> n \<in> {45, 120, 44, 123, 125, 91, 93})"

lemma layout_char_digits: "list_all is_digit s \<Longrightarrow> list_all layout_char s"
  by (auto simp: list_all_iff layout_char_def)

lemma layout_char_int: "list_all layout_char (show_int i)"
proof -
  have "list_all layout_char (show_nat n)" for n by (rule layout_char_digits) (simp add: show_nat_digits)
  then show ?thesis by (simp add: show_int_def layout_char_def)
qed

lemma layout_char_punct [simp]:
  "layout_char (CHR ''x'')" "layout_char (CHR '','')" "layout_char (CHR ''{'')" "layout_char (CHR ''}'')"
  "layout_char (CHR ''['')" "layout_char (CHR '']'')" "layout_char (CHR ''0'')"
  by (simp_all add: layout_char_def is_digit_def)

lemma layout_char_rect: "list_all layout_char (show_rect w h x y)"
  by (simp add: show_rect_def layout_char_int)

lemma layout_char_hex_digit: "n < 16 \<Longrightarrow> layout_char (hex_digit n)"
  by (simp add: layout_char_def is_digit_def hex_digit_def)

lemma layout_char_hex: "list_all layout_char (to_hex n)"
proof (induction n rule: to_hex.induct)
  case (1 n)
  then show ?case by (subst to_hex.simps) (simp add: layout_char_hex_digit)
qed

lemma to_hex_length: "n < 16 ^ k \<Longrightarrow> 0 < k \<Longrightarrow> length (to_hex n) \<le> k"
proof (induction n arbitrary: k rule: to_hex.induct)
  case (1 n)
  show ?case
  proof (cases "n < 16")
    case True
    with 1(3) show ?thesis by (subst to_hex.simps) simp
  next
    case False
    from 1(2,3) False obtain m where k: "k = Suc m" "0 < m" by (cases k; cases "k - 1") auto
    with 1(2) have "n div 16 < 16 ^ m" by (simp add: less_mult_imp_div_less mult.commute)
    from "1.IH" [OF False this k(2)] False k show ?thesis by (subst to_hex.simps) simp
  qed
qed

lemma checksum_text:
  "length (calculate_layout_checksum s) = 4" "list_all layout_char (calculate_layout_checksum s)"
proof -
  have "unat w < 16 ^ 4" for w :: "16 word" using unsigned_less [of w] by simp
  from to_hex_length [OF this] have "length (to_hex (unat (fold checksum_step s 0))) \<le> 4" by simp
  then show "length (calculate_layout_checksum s) = 4"
    by (simp add: calculate_layout_checksum_def pad_start_def)
  show "list_all layout_char (calculate_layout_checksum s)"
    by (simp add: calculate_layout_checksum_def pad_start_def layout_char_hex) (simp add: list_all_iff)
qed

lemma assert_tmux_pane_id_Inr:
  "bind_tmux (assert_tmux_pane_id label v) = Inr v' \<longleftrightarrow> is_tmux_pane_id v \<and> v' = v"
  by (auto simp: bind_tmux_def assert_tmux_pane_id_def throw_if_def)

lemma render_node_chars: "render_node panes x y w h n = Inr s \<Longrightarrow> list_all layout_char s"
proof (induction n arbitrary: x y w h s)
  case (Leaf i)
  then show ?case
    by (auto simp: and_then_Inr assert_tmux_pane_id_Inr layout_char_rect layout_char_digits
        dest!: tmux_pane_id_tail split: option.splits)
next
  case (Split d r a b)
  then show ?case
    by (cases d) (force simp: Let_def and_then_Inr layout_char_rect)+
qed

lemma layout_char_quiet: "layout_char c \<Longrightarrow> \<not> is_control c \<and> (of_char c :: nat) \<notin> {10, 13}"
  by (auto simp: layout_char_def is_control_def is_digit_def Let_def)

text \<open>
  A compiled layout is four hexadecimal digits, a comma and a body, made only of digits, hexadecimal
  letters and the punctuation of tmux layouts; it therefore is a single command line whatever the pane
  ids, and its checksum is that of its body.
\<close>
lemma compiled_layout_text:
  assumes "compile_sidebar_pane_layout opts = Inr s"
  shows "\<exists>body. s = calculate_layout_checksum body @ '','' @ body \<and>
    length (calculate_layout_checksum body) = 4 \<and> list_all layout_char s \<and>
    assert_single_tmux_command_line s = Inr s"
proof -
  from assms have id: "is_tmux_pane_id (co_controlPaneId opts)"
    by (auto simp: compile_sidebar_pane_layout_def and_then_Inr assert_tmux_pane_id_Inr)
  then have tail: "list_all layout_char (tl (co_controlPaneId opts))"
    using tmux_pane_id_tail layout_char_digits by blast
  obtain body where body: "s = calculate_layout_checksum body @ '','' @ body" "list_all layout_char body"
  proof (cases "co_root opts")
    case None
    let ?body = "show_rect (co_windowWidth opts) (co_windowHeight opts) 0 0 @ '','' @ tl (co_controlPaneId opts)"
    from None assms have "s = calculate_layout_checksum ?body @ '','' @ ?body"
      by (auto simp: compile_sidebar_pane_layout_def and_then_Inr assert_tmux_pane_id_Inr Let_def)
    moreover have "list_all layout_char ?body" using tail by (simp add: layout_char_rect)
    ultimately show ?thesis by (rule that)
  next
    case (Some n)
    with assms obtain c where
      c: "render_node (co_panes opts) (co_sidebarWidth opts + 1) 0 (co_windowWidth opts - co_sidebarWidth opts - 1)
            (co_windowHeight opts) n = Inr c"
      by (auto simp: compile_sidebar_pane_layout_def and_then_Inr assert_tmux_pane_id_Inr Let_def)
    let ?body = "show_rect (co_windowWidth opts) (co_windowHeight opts) 0 0 @ ''{'' @
      (show_rect (co_sidebarWidth opts) (co_windowHeight opts) 0 0 @ '','' @ tl (co_controlPaneId opts)) @ '','' @ c @ ''}''"
    from Some assms c have "s = calculate_layout_checksum ?body @ '','' @ ?body"
      by (auto simp: compile_sidebar_pane_layout_def and_then_Inr assert_tmux_pane_id_Inr Let_def)
    moreover have "list_all layout_char ?body" using tail render_node_chars [OF c] by (simp add: layout_char_rect)
    ultimately show ?thesis by (rule that)
  qed
  then have chars: "list_all layout_char s" using checksum_text(2) [of body] by simp
  then have "\<not> list_ex (\<lambda>c. (of_char c :: nat) \<in> {10, 13}) s"
    using layout_char_quiet unfolding list_all_iff list_ex_iff by blast
  with body(1) chars checksum_text(1) [of body] show ?thesis
    by (auto simp: assert_single_tmux_command_line_def)
qed

lemma ascii_chars:
  "char_of (48::nat) = CHR ''0''"
  "char_of (49::nat) = CHR ''1''"
  "char_of (50::nat) = CHR ''2''"
  "char_of (51::nat) = CHR ''3''"
  "char_of (52::nat) = CHR ''4''"
  "char_of (53::nat) = CHR ''5''"
  "char_of (54::nat) = CHR ''6''"
  "char_of (55::nat) = CHR ''7''"
  "char_of (56::nat) = CHR ''8''"
  "char_of (57::nat) = CHR ''9''"
  "char_of (97::nat) = CHR ''a''"
  "char_of (98::nat) = CHR ''b''"
  "char_of (99::nat) = CHR ''c''"
  "char_of (100::nat) = CHR ''d''"
  "char_of (101::nat) = CHR ''e''"
  "char_of (102::nat) = CHR ''f''"
  by (simp_all add: char_of_def bit_0)

lemma demo_compiled:
  "compile_sidebar_pane_layout \<lparr>co_controlPaneId = ''%1'', co_root = None, co_panes = (\<lambda>_. None),
     co_sidebarWidth = 40, co_windowWidth = 80, co_windowHeight = 24\<rparr> = Inr ''b25e,80x24,0,0,1''"
  by (simp add: compile_sidebar_pane_layout_def bind_tmux_def assert_tmux_pane_id_def is_tmux_pane_id_def
      is_digit_def show_rect_def show_int_def show_nat.simps calculate_layout_checksum_def checksum_step_def
      pad_start_def to_hex.simps hex_digit_def ascii_chars)

lemma compiled_layout_text_witness:
  "assert_single_tmux_command_line ''b25e,80x24,0,0,1'' = Inr ''b25e,80x24,0,0,1''"
  using compiled_layout_text [OF demo_compiled] by blast

section \<open>The transaction\<close>

lemma pane_map_Inr:
  "pane_map ps m = Inr m' \<longleftrightarrow> distinct (map pp_id ps) \<and> (\<forall>p \<in> set ps. jm_get m (pp_id p) = None) \<and>
     m' = m @ map (\<lambda>p. (pp_id p, pp_paneId p)) ps"
proof (induction ps arbitrary: m)
  case Nil
  then show ?case by auto
next
  case (Cons p ps)
  have new: "jm_set k v m = m @ [(k, v)]" if "jm_get m k = None" for k and v :: string
    using that by (induction m) auto
  show ?case by (auto simp: Cons.IH new throw_if_def map_of_append split: if_splits) (metis imageI)
qed

lemma validate_Inr: "validate_layout_pane_ids layout = Inr u \<longleftrightarrow> distinct (list_leaf_pane_ids (pl_root layout))"
  using find_duplicate_None [of "[]" "list_leaf_pane_ids (pl_root layout)"]
  by (cases "find_duplicate [] (list_leaf_pane_ids (pl_root layout))") (auto simp: validate_layout_pane_ids_def)

lemma insert_pane_distinct:
  assumes "insert_pane layout target new d = Inr layout'" "distinct (list_leaf_pane_ids (pl_root layout))"
  shows "distinct (list_leaf_pane_ids (pl_root layout'))"
  using insert_pane_leaves [OF assms(1)] insert_after_distinct assms by (auto simp: insert_pane_Inr)

lemma remove_pane_leaves:
  "remove_pane layout i = Inr layout' \<Longrightarrow>
     list_leaf_pane_ids (pl_root layout') = filter (\<lambda>j. j \<noteq> i) (list_leaf_pane_ids (pl_root layout))"
  by (auto simp: remove_pane_def)

lemma apply_mutation_distinct:
  "distinct (list_leaf_pane_ids (pl_root layout)) \<Longrightarrow> apply_mutation known m layout = Inr layout' \<Longrightarrow>
     distinct (list_leaf_pane_ids (pl_root layout'))"
  "distinct (list_leaf_pane_ids (pl_root layout)) \<Longrightarrow> apply_mutations known ms layout = Inr layout' \<Longrightarrow>
     distinct (list_leaf_pane_ids (pl_root layout'))"
proof (induction known m layout and known ms layout arbitrary: layout' and layout'
    rule: apply_mutation_apply_mutations.induct)
  case (1 known i target d layout)
  then show ?case by (auto intro: insert_pane_distinct)
next
  case (2 known i layout)
  then show ?case by (auto dest!: remove_pane_leaves)
next
  case (3 known layout)
  with reconcile_exact [of layout known] show ?case by auto
next
  case (6 known m ms layout)
  then show ?case by (auto simp: and_then_Inr)
qed auto

text \<open>The layout string a transaction offers to tmux.\<close>

definition offered_layout :: "mutation_options \<Rightarrow> pane_layout \<Rightarrow> (layout_error, string) result" where
  "offered_layout opts layout = compile_sidebar_pane_layout
     \<lparr>co_controlPaneId = mo_controlPaneId opts,
      co_root = prune_root (\<lambda>i. \<not> list_ex (\<lambda>p. pp_hidden p \<and> pp_id p = i) (mo_panes opts)) (pl_root layout),
      co_panes = map_of (map (\<lambda>p. (pp_id p, pp_paneId p)) (mo_panes opts)),
      co_sidebarWidth = (case mo_sidebarWidth opts of None \<Rightarrow> DEFAULT_SIDEBAR_WIDTH | Some w \<Rightarrow> w),
      co_windowWidth = mo_terminalWidth opts, co_windowHeight = mo_terminalHeight opts\<rparr>"

lemma hidden_ids: "set (map pp_id (filter pp_hidden ps)) = {i. list_ex (\<lambda>p. pp_hidden p \<and> pp_id p = i) ps}"
  by (auto simp: list_ex_iff)

lemma transaction_eq:
  "apply_pane_layout_mutation select opts = Inr layout \<longleftrightarrow>
    distinct (map pp_id (mo_panes opts)) \<and>
    (\<exists>base. (case mo_paneLayout opts of Some l \<Rightarrow> Inr l
              | None \<Rightarrow> seed_layout_for_mutation (mo_panes opts) (mo_mutation opts)) = Inr base \<and>
       distinct (list_leaf_pane_ids (pl_root base)) \<and>
       apply_mutation (map pp_id (mo_panes opts)) (mo_mutation opts) base = Inr layout) \<and>
    (\<exists>text. offered_layout opts layout = Inr text \<and> select text = Some True)"
proof -
  have accepted: "(case select t of None \<Rightarrow> Inl SelectFailed | Some acc \<Rightarrow> throw_if (\<not> acc) TmuxRejected (Inr l)) = Inr layout \<longleftrightarrow>
      select t = Some True \<and> l = layout" for t l
    by (cases "select t") (auto simp: throw_if_def)
  have ids: "map fst (map (\<lambda>p. (pp_id p, pp_paneId p)) ps) = map pp_id ps" for ps by simp
  let ?base = "case mo_paneLayout opts of Some l \<Rightarrow> Inr l
              | None \<Rightarrow> seed_layout_for_mutation (mo_panes opts) (mo_mutation opts)"
  have "apply_pane_layout_mutation select opts = Inr layout \<longleftrightarrow>
    (\<exists>m. (distinct (map pp_id (mo_panes opts)) \<and> (\<forall>p \<in> set (mo_panes opts). jm_get ([] :: (string, string) jsmap) (pp_id p) = None) \<and>
        m = [] @ map (\<lambda>p. (pp_id p, pp_paneId p)) (mo_panes opts)) \<and>
     (\<exists>base. ?base = Inr base \<and> (\<exists>u :: unit. distinct (list_leaf_pane_ids (pl_root base)) \<and>
       (\<exists>l. apply_mutation (map fst m) (mo_mutation opts) base = Inr l \<and>
         (\<exists>text. compile_sidebar_pane_layout
            \<lparr>co_controlPaneId = mo_controlPaneId opts,
             co_root = prune_root (\<lambda>i. i \<notin> {i. list_ex (\<lambda>p. pp_hidden p \<and> pp_id p = i) (mo_panes opts)}) (pl_root l),
             co_panes = jm_get m,
             co_sidebarWidth = (case mo_sidebarWidth opts of None \<Rightarrow> DEFAULT_SIDEBAR_WIDTH | Some w \<Rightarrow> w),
             co_windowWidth = mo_terminalWidth opts, co_windowHeight = mo_terminalHeight opts\<rparr> = Inr text \<and>
           select text = Some True \<and> l = layout)))))"
    unfolding apply_pane_layout_mutation_def and_then_Inr pane_map_Inr validate_Inr Let_def visible_pane_layout_def
      hidden_ids accepted by (rule refl)
  then show ?thesis
    unfolding offered_layout_def mem_Collect_eq append_Nil by (simp add: comp_def) blast
qed

text \<open>
  A layout mutation commits only what tmux accepted: when it returns a layout, the pane metadata and the
  leaves of the result are free of duplicates, and tmux was given, and accepted, the compiled layout of
  exactly the leaves that are not hidden.
\<close>
lemma mutation_commits_accepted:
  assumes "apply_pane_layout_mutation select opts = Inr layout"
  shows "distinct (list_leaf_pane_ids (pl_root layout)) \<and> distinct (map pp_id (mo_panes opts)) \<and>
    (\<exists>text. offered_layout opts layout = Inr text \<and> select text = Some True)"
  using assms apply_mutation_distinct(1) unfolding transaction_eq by blast

lemma render_node_total:
  assumes "\<forall>i \<in> set (leaf_ids n). \<exists>v. panes i = Some v \<and> is_tmux_pane_id v"
  shows "\<exists>s. render_node panes x y w h n = Inr s"
  using assms
proof (induction n arbitrary: x y w h)
  case (Leaf i)
  then obtain v where "panes i = Some v" "is_tmux_pane_id v" by auto
  with tmux_pane_id_tail [of v] show ?case
    by (simp add: truthy_string_def bind_tmux_def assert_tmux_pane_id_def)
next
  case (Split d r a b)
  then have a: "\<exists>s. render_node panes x y w h a = Inr s" and b: "\<exists>s. render_node panes x y w h b = Inr s" for x y w h
    by simp_all
  show ?case
  proof (cases d)
    case Horizontal
    obtain s where "render_node panes x y (scale w r) h a = Inr s" using a by blast
    moreover obtain t where "render_node panes (x + scale w r + 1) y (w - scale w r - 1) h b = Inr t" using b by blast
    ultimately show ?thesis using Horizontal by simp
  next
    case Vertical
    obtain s where "render_node panes x y w (scale h r) a = Inr s" using a by blast
    moreover obtain t where "render_node panes x (y + scale h r + 1) w (h - scale h r - 1) b = Inr t" using b by blast
    ultimately show ?thesis using Vertical by simp
  qed
qed

text \<open>
  C40. Reconciling never gets stuck: with distinct pane metadata, tmux ids that are well formed, a stored
  layout (if any) without duplicates and a tmux that accepts, the transaction returns a layout whose
  leaves are exactly the panes.
\<close>
theorem reconcile_transaction_total:
  assumes "mo_mutation opts = MReconcile" and "distinct (map pp_id (mo_panes opts))"
    and "list_all (\<lambda>p. is_tmux_pane_id (pp_paneId p)) (mo_panes opts)" and "is_tmux_pane_id (mo_controlPaneId opts)"
    and "distinct (list_leaf_pane_ids (Option.bind (mo_paneLayout opts) pl_root))"
  shows "\<exists>layout. apply_pane_layout_mutation (\<lambda>_. Some True) opts = Inr layout \<and>
    set (list_leaf_pane_ids (pl_root layout)) = set (map pp_id (mo_panes opts))"
proof -
  let ?ids = "map pp_id (mo_panes opts)"
  obtain base where base: "(case mo_paneLayout opts of Some l \<Rightarrow> Inr l
      | None \<Rightarrow> seed_layout_for_mutation (mo_panes opts) (mo_mutation opts)) = Inr base"
    "distinct (list_leaf_pane_ids (pl_root base))"
  proof (cases "mo_paneLayout opts")
    case None
    from seed_exact [of ?ids] assms(2) obtain l where "seed_pane_layout ?ids = Inr l" "list_leaf_pane_ids (pl_root l) = ?ids"
      by auto
    with None assms(1,2) that show ?thesis by (simp add: seed_layout_for_mutation_def)
  next
    case (Some l)
    with assms(5) that show ?thesis by simp
  qed
  from reconcile_exact [OF base(2), of ?ids] obtain layout where
    layout: "reconcile_pane_layout base ?ids = Inr layout" "set (list_leaf_pane_ids (pl_root layout)) = set ?ids"
    by blast
  let ?m = "map_of (map (\<lambda>p. (pp_id p, pp_paneId p)) (mo_panes opts))"
  let ?keep = "\<lambda>i. \<not> list_ex (\<lambda>p. pp_hidden p \<and> pp_id p = i) (mo_panes opts)"
  have bound: "\<exists>v. ?m i = Some v \<and> is_tmux_pane_id v" if "i \<in> set ?ids" for i
  proof -
    from that have "i \<in> fst ` set (map (\<lambda>p. (pp_id p, pp_paneId p)) (mo_panes opts))" by force
    then obtain v where "?m i = Some v" by (metis domIff dom_map_of_conv_image_fst option.exhaust)
    with map_of_SomeD [OF this] assms(3) show ?thesis by (auto simp: list_all_iff)
  qed
  have "\<exists>text. offered_layout opts layout = Inr text"
  proof (cases "prune_root ?keep (pl_root layout)")
    case None
    with assms(4) show ?thesis
      by (simp add: offered_layout_def compile_sidebar_pane_layout_def bind_tmux_def assert_tmux_pane_id_def Let_def)
  next
    case (Some n)
    have "set (leaf_ids n) \<subseteq> set ?ids"
      using prune_root_leaves [of ?keep "pl_root layout"] layout(2) unfolding Some by auto
    with bound have ok: "\<forall>i \<in> set (leaf_ids n). \<exists>v. ?m i = Some v \<and> is_tmux_pane_id v" by blast
    let ?sw = "case mo_sidebarWidth opts of None \<Rightarrow> DEFAULT_SIDEBAR_WIDTH | Some w \<Rightarrow> w"
    obtain c where "render_node ?m (?sw + 1) 0 (mo_terminalWidth opts - ?sw - 1) (mo_terminalHeight opts) n = Inr c"
      using render_node_total [OF ok] by blast
    with Some assms(4) show ?thesis
      by (simp add: offered_layout_def compile_sidebar_pane_layout_def bind_tmux_def assert_tmux_pane_id_def Let_def)
  qed
  with base layout assms(1,2) show ?thesis unfolding transaction_eq by auto
qed

definition demo_options :: mutation_options where
  "demo_options = \<lparr>mo_paneLayout = None,
     mo_panes = [\<lparr>pp_id = ''a'', pp_paneId = ''%2'', pp_hidden = False\<rparr>, \<lparr>pp_id = ''b'', pp_paneId = ''%3'', pp_hidden = True\<rparr>],
     mo_controlPaneId = ''%1'', mo_terminalWidth = 80, mo_terminalHeight = 24, mo_sidebarWidth = None,
     mo_mutation = MReconcile\<rparr>"

lemma demo_transaction:
  "\<exists>layout. apply_pane_layout_mutation (\<lambda>_. Some True) demo_options = Inr layout"
    by (simp add: apply_pane_layout_mutation_def demo_options_def seed_layout_for_mutation_def seed_pane_layout_def
        split_node_def validate_layout_pane_ids_def reconcile_pane_layout_def prune_pane_layout_def prune_root_def
        visible_pane_layout_def compile_sidebar_pane_layout_def bind_tmux_def assert_tmux_pane_id_def
        is_tmux_pane_id_def is_digit_def Let_def)

lemma reconcile_transaction_total_witness:
  "\<exists>layout. apply_pane_layout_mutation (\<lambda>_. Some True) demo_options = Inr layout \<and>
    set (list_leaf_pane_ids (pl_root layout)) = {''a'', ''b''}"
  using reconcile_transaction_total [of demo_options]
  by (simp add: demo_options_def is_tmux_pane_id_def is_digit_def)

lemma mutation_commits_accepted_witness:
  "\<exists>layout. distinct (list_leaf_pane_ids (pl_root layout)) \<and>
    (\<exists>text. offered_layout demo_options layout = Inr text)"
  using demo_transaction mutation_commits_accepted [of "\<lambda>_. Some True" demo_options] by blast

end
