(* ===== verification/JsonText.thy ===== *)
theory JsonText
  imports Json
begin

text \<open>
  \<open>JSON.parse\<close> as the control plane uses it, on the byte strings of \<open>Json\<close>: a value between white
  space, strings with their escapes, integers without leading zeros. Two things it reads differently
  from the language: a number with a fraction or an exponent, and the escape of a surrogate, are
  refused here (no value of \<open>json\<close> stands for them). Of two members with the same key the last value
  counts, at the place of the first.
\<close>

section \<open>The parser\<close>

definition is_ws :: "char \<Rightarrow> bool" where
  "is_ws c \<longleftrightarrow> (of_char c :: nat) \<in> {9, 10, 13, 32}"

definition skip_ws :: "string \<Rightarrow> string" where
  "skip_ws = dropWhile is_ws"

definition hex_value :: "char \<Rightarrow> nat option" where
  "hex_value c =
    (let n = (of_char c :: nat) in
     if 48 \<le> n \<and> n < 58 then Some (n - 48)
     else if 97 \<le> n \<and> n < 103 then Some (n - 87)
     else if 65 \<le> n \<and> n < 71 then Some (n - 55) else None)"

definition hex4 :: "char \<Rightarrow> char \<Rightarrow> char \<Rightarrow> char \<Rightarrow> nat option" where
  "hex4 a b c d =
    (case (hex_value a, hex_value b, hex_value c, hex_value d) of
       (Some w, Some x, Some y, Some z) \<Rightarrow> Some (4096 * w + 256 * x + 16 * y + z)
     | _ \<Rightarrow> None)"

text \<open>The UTF-8 bytes of a code point below 65536 that is not a surrogate.\<close>

definition utf8_bytes :: "nat \<Rightarrow> string option" where
  "utf8_bytes n =
    (if n < 128 then Some [char_of n]
     else if n < 2048 then Some [char_of (192 + n div 64), char_of (128 + n mod 64)]
     else if 55296 \<le> n \<and> n < 57344 then None
     else Some [char_of (224 + n div 4096), char_of (128 + n div 64 mod 64), char_of (128 + n mod 64)])"

definition simple_escape :: "char \<Rightarrow> char option" where
  "simple_escape e =
    (if e = CHR ''b'' then Some (char_of (8::nat)) else if e = CHR ''t'' then Some (char_of (9::nat))
     else if e = CHR ''n'' then Some (char_of (10::nat)) else if e = CHR ''f'' then Some (char_of (12::nat))
     else if e = CHR ''r'' then Some (char_of (13::nat))
     else if e = CHR 0x22 \<or> e = CHR 0x5C \<or> e = CHR 0x2F then Some e else None)"

definition prepend :: "string \<Rightarrow> (string \<times> string) option \<Rightarrow> (string \<times> string) option" where
  "prepend xs r = (case r of None \<Rightarrow> None | Some (ys, rest) \<Rightarrow> Some (xs @ ys, rest))"

text \<open>The characters of a string after its opening quote, and what follows the closing one.\<close>

fun read_chars :: "string \<Rightarrow> (string \<times> string) option" where
  "read_chars [] = None"
| "read_chars (c # cs) =
    (if c = CHR 0x22 then Some ([], cs)
     else if c \<noteq> CHR 0x5C then (if (of_char c :: nat) < 32 then None else prepend [c] (read_chars cs))
     else (case cs of
        [] \<Rightarrow> None
      | e # es \<Rightarrow>
          if e \<noteq> CHR ''u'' then (case simple_escape e of None \<Rightarrow> None | Some x \<Rightarrow> prepend [x] (read_chars es))
          else (case es of
             h1 # h2 # h3 # h4 # rest \<Rightarrow>
               (case hex4 h1 h2 h3 h4 of
                  None \<Rightarrow> None
                | Some n \<Rightarrow> (case utf8_bytes n of None \<Rightarrow> None | Some bs \<Rightarrow> prepend bs (read_chars rest)))
           | _ \<Rightarrow> None)))"

definition read_digits :: "string \<Rightarrow> (nat \<times> string) option" where
  "read_digits s =
    (let ds = takeWhile is_digit s; r = dropWhile is_digit s
     in if ds = [] \<or> (1 < length ds \<and> hd ds = CHR ''0'') \<or> (r \<noteq> [] \<and> hd r \<in> {CHR ''.'', CHR ''e'', CHR ''E''})
        then None else Some (nat_value ds, r))"

definition read_number :: "string \<Rightarrow> (json \<times> string) option" where
  "read_number s =
    (if s \<noteq> [] \<and> hd s = CHR ''-'' then map_option (\<lambda>(n, r). (JNum (- int n), r)) (read_digits (tl s))
     else map_option (\<lambda>(n, r). (JNum (int n), r)) (read_digits s))"

definition read_word :: "string \<Rightarrow> json \<Rightarrow> string \<Rightarrow> (json \<times> string) option" where
  "read_word w j s = (if take (length w) s = w then Some (j, drop (length w) s) else None)"

text \<open>The fuel bounds the nesting and the number of members; the length of the text is enough.\<close>

fun read_value :: "nat \<Rightarrow> string \<Rightarrow> (json \<times> string) option"
  and read_items :: "nat \<Rightarrow> string \<Rightarrow> (json list \<times> string) option"
  and read_members :: "nat \<Rightarrow> (string \<times> json) list \<Rightarrow> string \<Rightarrow> ((string \<times> json) list \<times> string) option"
where
  "read_value 0 s = None"
| "read_value (Suc n) s =
    (case skip_ws s of
       [] \<Rightarrow> None
     | c # cs \<Rightarrow>
        if c = CHR ''['' then
          (case skip_ws cs of
             d # ds \<Rightarrow> if d = CHR '']'' then Some (JArr [], ds)
                       else map_option (\<lambda>(xs, r). (JArr xs, r)) (read_items n (d # ds))
           | [] \<Rightarrow> None)
        else if c = CHR ''{'' then
          (case skip_ws cs of
             d # ds \<Rightarrow> if d = CHR ''}'' then Some (JObj [], ds)
                       else map_option (\<lambda>(ms, r). (JObj ms, r)) (read_members n [] (d # ds))
           | [] \<Rightarrow> None)
        else if c = CHR 0x22 then map_option (\<lambda>(t, r). (JStr t, r)) (read_chars cs)
        else if c = CHR ''t'' then read_word ''true'' (JBool True) (c # cs)
        else if c = CHR ''f'' then read_word ''false'' (JBool False) (c # cs)
        else if c = CHR ''n'' then read_word ''null'' JNull (c # cs)
        else read_number (c # cs))"
| "read_items 0 s = None"
| "read_items (Suc n) s =
    (case read_value n s of
       None \<Rightarrow> None
     | Some (x, r) \<Rightarrow>
        (case skip_ws r of
           [] \<Rightarrow> None
         | c # cs \<Rightarrow> if c = CHR '']'' then Some ([x], cs)
                     else if c = CHR '','' then map_option (\<lambda>(xs, t). (x # xs, t)) (read_items n cs)
                     else None))"
| "read_members 0 ms s = None"
| "read_members (Suc n) ms s =
    (case skip_ws s of
       [] \<Rightarrow> None
     | q # qs \<Rightarrow>
        if q \<noteq> CHR 0x22 then None else
        (case read_chars qs of
           None \<Rightarrow> None
         | Some (k, r) \<Rightarrow>
            (case skip_ws r of
               [] \<Rightarrow> None
             | c # cs \<Rightarrow>
                if c \<noteq> CHR '':'' then None else
                (case read_value n cs of
                   None \<Rightarrow> None
                 | Some (v, t) \<Rightarrow>
                    (case skip_ws t of
                       [] \<Rightarrow> None
                     | d # ds \<Rightarrow> if d = CHR ''}'' then Some (AList.update k v ms, ds)
                                 else if d = CHR '','' then read_members n (AList.update k v ms) ds
                                 else None)))))"

definition json_parse :: "string \<Rightarrow> json option" where
  "json_parse s =
    (case read_value (Suc (length s)) s of
       None \<Rightarrow> None
     | Some (j, r) \<Rightarrow> if skip_ws r = [] then Some j else None)"

section \<open>Reading back what was printed\<close>

text \<open>No object has two members with the same key.\<close>

fun wf_json :: "json \<Rightarrow> bool" where
  "wf_json (JArr xs) = list_all wf_json xs"
| "wf_json (JObj ms) = (distinct (map fst ms) \<and> list_all (\<lambda>(k, v). wf_json v) ms)"
| "wf_json j = True"

lemma hex_value_digit: "n < 16 \<Longrightarrow> hex_value (hex_digit n) = Some n"
  by (simp add: hex_value_def hex_digit_def Let_def)

lemma hex4_low: "n < 256 \<Longrightarrow> hex4 (CHR ''0'') (CHR ''0'') (hex_digit (n div 16)) (hex_digit (n mod 16)) = Some n"
proof -
  assume n: "n < 256"
  have "n div 16 < 16" using n by (intro less_mult_imp_div_less) simp
  moreover have "hex_value (CHR ''0'') = Some 0" by (simp add: hex_value_def)
  ultimately show ?thesis by (simp add: hex4_def hex_value_digit)
qed

lemma read_chars_escape: "read_chars (escape_char c @ r) = prepend [c] (read_chars r)"
proof -
  let ?n = "of_char c :: nat"
  have c: "c = char_of ?n" by simp
  show ?thesis
  proof (cases "?n \<in> {8, 9, 10, 12, 13, 34, 92}")
    case True
    then have "c \<in> char_of ` {8::nat, 9, 10, 12, 13, 34, 92}" using c by (metis imageI)
    then consider "c = char_of (8::nat)" | "c = char_of (9::nat)" | "c = char_of (10::nat)"
      | "c = char_of (12::nat)" | "c = char_of (13::nat)" | "c = CHR 0x22" | "c = CHR 0x5C"
      using quote_chars by auto
    then show ?thesis by cases (simp_all add: escape_char_def simple_escape_def)
  next
    case False
    show ?thesis
    proof (cases "?n < 32")
      case True
      with False have e: "escape_char c = [CHR 0x5C, CHR ''u'', CHR ''0'', CHR ''0'', hex_digit (?n div 16), hex_digit (?n mod 16)]"
        by (simp add: escape_char_def Let_def)
      have h: "hex4 (CHR ''0'') (CHR ''0'') (hex_digit (?n div 16)) (hex_digit (?n mod 16)) = Some ?n"
        using True by (intro hex4_low) simp
      have "utf8_bytes ?n = Some [c]" using True c by (simp add: utf8_bytes_def)
      with h show ?thesis unfolding e by simp
    next
      case high: False
      with False have "escape_char c = [c]" by (simp add: escape_char_def Let_def)
      moreover have "c \<noteq> CHR 0x5C" "c \<noteq> CHR 0x22" using False by auto
      ultimately show ?thesis using high by simp
    qed
  qed
qed

lemma read_chars_body: "read_chars (concat (map escape_char s) @ CHR 0x22 # r) = Some (s, r)"
  by (induction s) (simp_all add: read_chars_escape prepend_def)

lemma show_nat_start: "1 < length (show_nat n) \<Longrightarrow> hd (show_nat n) \<noteq> CHR ''0''"
proof (induction n rule: show_nat.induct)
  case (1 n)
  show ?case
  proof (cases "n < 10")
    case True
    with "1.prems" show ?thesis by (simp add: show_nat.simps [of n])
  next
    case False
    then have s: "show_nat n = show_nat (n div 10) @ [char_of (48 + n mod 10)]" by (simp add: show_nat.simps [of n])
    have ne: "show_nat (n div 10) \<noteq> []" using show_nat_digits by blast
    show ?thesis
    proof (cases "1 < length (show_nat (n div 10))")
      case True
      with 1(1) [OF False] s ne show ?thesis by simp
    next
      case short: False
      have "n div 10 < 10"
      proof (rule ccontr)
        assume "\<not> n div 10 < 10"
        then have "show_nat (n div 10) = show_nat (n div 10 div 10) @ [char_of (48 + n div 10 mod 10)]"
          by (simp add: show_nat.simps [of "n div 10"])
        moreover have "show_nat (n div 10 div 10) \<noteq> []" using show_nat_digits by blast
        ultimately show False using short by (cases "show_nat (n div 10 div 10)") simp_all
      qed
      then have "show_nat (n div 10) = [char_of (48 + n div 10)]" by (simp add: show_nat.simps [of "n div 10"])
      moreover have "(char_of (48 + n div 10) :: char) \<noteq> CHR ''0''"
      proof
        assume "(char_of (48 + n div 10) :: char) = CHR ''0''"
        then have "(of_char (char_of (48 + n div 10) :: char) :: nat) = 48" by simp
        with digit_char [of "n div 10"] \<open>n div 10 < 10\<close> False show False by simp
      qed
      ultimately show ?thesis using s by simp
    qed
  qed
qed

lemma read_digits_show:
  assumes "ends_value r"
  shows "read_digits (show_nat n @ r) = Some (n, r)"
proof -
  have d: "list_all is_digit (show_nat n)" "show_nat n \<noteq> []" using show_nat_digits [of n] by auto
  have r: "r = [] \<or> \<not> is_digit (hd r)" by (rule ends_value_digit [OF assms])
  have "takeWhile is_digit (show_nat n @ r) = show_nat n" "dropWhile is_digit (show_nat n @ r) = r"
    using d(1) r by (cases r; auto simp: list_all_iff)+
  moreover have "\<not> (r \<noteq> [] \<and> hd r \<in> {CHR ''.'', CHR ''e'', CHR ''E''})" using assms by (auto simp: ends_value_def)
  ultimately show ?thesis using d(2) show_nat_start [of n] by (auto simp: read_digits_def Let_def nat_value_show)
qed

lemma read_number_show:
  assumes "ends_value r"
  shows "read_number (show_int i @ r) = Some (JNum i, r)"
proof (cases "i < 0")
  case True
  then show ?thesis by (simp add: read_number_def show_int_def read_digits_show [OF assms])
next
  case False
  have "show_nat (nat i) \<noteq> []" "is_digit (hd (show_nat (nat i)))"
    using show_nat_digits [of "nat i"] by (cases "show_nat (nat i)"; simp)+
  then have "hd (show_nat (nat i) @ r) \<noteq> CHR ''-''" by (auto simp: is_digit_def)
  with False show ?thesis by (simp add: read_number_def show_int_def read_digits_show [OF assms])
qed

lemma skip_ws_visible: "s \<noteq> [] \<Longrightarrow> \<not> is_ws (hd s) \<Longrightarrow> skip_ws s = s"
  by (cases s) (simp_all add: skip_ws_def)

lemma skip_ws_simps [simp]:
  "skip_ws (CHR '','' # s) = CHR '','' # s" "skip_ws (CHR '']'' # s) = CHR '']'' # s"
  "skip_ws (CHR ''}'' # s) = CHR ''}'' # s" "skip_ws (CHR '':'' # s) = CHR '':'' # s"
  "skip_ws (CHR 0x22 # s) = CHR 0x22 # s" "skip_ws (CHR ''['' # s) = CHR ''['' # s"
  "skip_ws (CHR ''{'' # s) = CHR ''{'' # s" "skip_ws [] = []"
  by (simp_all add: skip_ws_def is_ws_def)

lemma skip_ws_stringify: "skip_ws (stringify j @ r) = stringify j @ r"
proof (rule skip_ws_visible)
  have k: "char_kind (hd (stringify j @ r)) = value_kind j" using stringify_hd by blast
  show "stringify j @ r \<noteq> []" using stringify_hd by blast
  show "\<not> is_ws (hd (stringify j @ r))"
  proof
    assume "is_ws (hd (stringify j @ r))"
    then have "char_kind (hd (stringify j @ r)) = 6"
      by (auto simp: is_ws_def char_kind_def is_digit_def)
    with k show False by (cases j) (simp_all add: value_kind_def)
  qed
qed

lemma commas_Cons: "commas (x # xs) = x @ (if xs = [] then [] else CHR '','' # commas xs)"
  by (cases xs) (simp_all add: commas_def)

lemma read_items_print:
  assumes "\<And>x n r. x \<in> set xs \<Longrightarrow> length (stringify x) < n \<Longrightarrow> ends_value r \<Longrightarrow> read_value n (stringify x @ r) = Some (x, r)"
    and "xs \<noteq> []" and "Suc (length (commas (map stringify xs))) < n"
  shows "read_items n (commas (map stringify xs) @ CHR '']'' # r) = Some (xs, r)"
  using assms
proof (induction xs arbitrary: n)
  case (Cons x xs)
  obtain m where n: "n = Suc m" using Cons.prems(3) by (cases n) auto
  show ?case
  proof (cases "xs = []")
    case True
    then have "read_value m (stringify x @ CHR '']'' # r) = Some (x, CHR '']'' # r)"
      using Cons.prems n by (intro Cons.prems(1)) (auto simp: commas_Cons ends_value_def)
    with True n show ?thesis by (simp add: commas_Cons)
  next
    case False
    let ?r = "CHR '','' # commas (map stringify xs) @ CHR '']'' # r"
    have "read_value m (stringify x @ ?r) = Some (x, ?r)"
      using Cons.prems n False by (intro Cons.prems(1)) (auto simp: commas_Cons ends_value_def)
    moreover have "read_items m (commas (map stringify xs) @ CHR '']'' # r) = Some (xs, r)"
      using Cons.prems n False by (intro Cons.IH) (auto simp: commas_Cons)
    ultimately show ?thesis using False n by (simp add: commas_Cons)
  qed
qed simp

abbreviation member_text :: "string \<times> json \<Rightarrow> string" where
  "member_text kv \<equiv> (case kv of (k, v) \<Rightarrow> quote k @ CHR '':'' # stringify v)"

lemma update_fresh: "k \<notin> fst ` set ms \<Longrightarrow> AList.update k v ms = ms @ [(k, v)]"
  by (induction ms) auto

lemma read_members_print:
  assumes "\<And>k v n r. (k, v) \<in> set ms \<Longrightarrow> length (stringify v) < n \<Longrightarrow> ends_value r \<Longrightarrow> read_value n (stringify v @ r) = Some (v, r)"
    and "ms \<noteq> []" and "Suc (length (commas (map member_text ms))) < n" and "distinct (map fst (acc @ ms))"
  shows "read_members n acc (commas (map member_text ms) @ CHR ''}'' # r) = Some (acc @ ms, r)"
  using assms
proof (induction ms arbitrary: n acc)
  case (Cons kv ms)
  obtain k v where kv: "kv = (k, v)" by fastforce
  obtain m where n: "n = Suc m" using Cons.prems(3) by (cases n) auto
  have upd: "AList.update k v acc = acc @ [(k, v)]" using Cons.prems(4) kv by (intro update_fresh) auto
  have body: "quote k @ x = CHR 0x22 # concat (map escape_char k) @ CHR 0x22 # x" for x by (simp add: quote_def)
  have len: "length (stringify v) < m" using Cons.prems(3) kv n by (auto simp: commas_Cons quote_def split: if_splits)
  show ?case
  proof (cases "ms = []")
    case True
    have "read_value m (stringify v @ CHR ''}'' # r) = Some (v, CHR ''}'' # r)"
      using kv len by (intro Cons.prems(1)) (auto simp: ends_value_def)
    with True kv n show ?thesis by (simp add: commas_Cons body read_chars_body upd)
  next
    case False
    let ?r = "CHR '','' # commas (map member_text ms) @ CHR ''}'' # r"
    have "read_value m (stringify v @ ?r) = Some (v, ?r)"
      using kv len by (intro Cons.prems(1)) (auto simp: ends_value_def)
    moreover have "read_members m (acc @ [(k, v)]) (commas (map member_text ms) @ CHR ''}'' # r) = Some ((acc @ [(k, v)]) @ ms, r)"
      using Cons.prems kv n False by (intro Cons.IH) (auto simp: commas_Cons)
    ultimately show ?thesis using False kv n by (simp add: commas_Cons body read_chars_body upd)
  qed
qed simp

lemma read_value_print:
  "wf_json j \<Longrightarrow> length (stringify j) < n \<Longrightarrow> ends_value r \<Longrightarrow> read_value n (stringify j @ r) = Some (j, r)"
proof (induction j arbitrary: n r)
  case JNull
  then show ?case by (cases n) (simp_all add: skip_ws_def is_ws_def read_word_def)
next
  case (JBool b)
  then show ?case by (cases n; cases b) (simp_all add: skip_ws_def is_ws_def read_word_def)
next
  case (JNum i)
  obtain m where n: "n = Suc m" using JNum by (cases n) auto
  obtain c cs where c: "show_int i @ r = c # cs" "is_digit c \<or> c = CHR ''-''"
    using show_int_start [of i] by (cases "show_int i") auto
  have "skip_ws (c # cs) = c # cs" using skip_ws_stringify [of "JNum i" r] c(1) by simp
  moreover have "c \<notin> {CHR ''['', CHR ''{'', CHR 0x22, CHR ''t'', CHR ''f'', CHR ''n''}" using c(2) by (auto simp: is_digit_def)
  ultimately show ?case using n c(1) read_number_show [OF JNum(3), of i] by simp
next
  case (JStr s)
  then obtain m where "n = Suc m" by (cases n) auto
  then show ?case by (simp add: quote_def read_chars_body)
next
  case (JArr xs)
  obtain m where n: "n = Suc m" using JArr by (cases n) auto
  show ?case
  proof (cases "xs = []")
    case True
    with n show ?thesis by (simp add: commas_def)
  next
    case False
    have "read_items m (commas (map stringify xs) @ CHR '']'' # r) = Some (xs, r)"
      using JArr False n by (intro read_items_print) (auto simp: list_all_iff)
    moreover obtain d ds where d: "commas (map stringify xs) @ CHR '']'' # r = d # ds" "skip_ws (d # ds) = d # ds" "d \<noteq> CHR '']''"
    proof -
      obtain x ys where xs: "xs = x # ys" using False by (cases xs) auto
      then obtain t where t: "commas (map stringify xs) @ CHR '']'' # r = stringify x @ t" by (simp add: commas_Cons)
      show thesis
        using that [of "hd (stringify x @ t)" "tl (stringify x @ t)"] stringify_hd [of x t] skip_ws_stringify [of x t]
          stringify_no_close [of "CHR '']''" x t] t by simp
    qed
    ultimately show ?thesis using n by simp
  qed
next
  case (JObj ms)
  obtain m where n: "n = Suc m" using JObj by (cases n) auto
  show ?case
  proof (cases "ms = []")
    case True
    with n show ?thesis by (simp add: commas_def)
  next
    case False
    have "read_members m [] (commas (map member_text ms) @ CHR ''}'' # r) = Some ([] @ ms, r)"
    proof (rule read_members_print)
      show "read_value n (stringify v @ r) = Some (v, r)" if "(k, v) \<in> set ms" "length (stringify v) < n" "ends_value r" for k v n r
        using JObj(1) [OF that(1), of v n r] that JObj(2) by (auto simp: list_all_iff snds.simps)
    qed (use JObj n False in auto)
    moreover obtain ds where "commas (map member_text ms) @ CHR ''}'' # r = CHR 0x22 # ds"
      using False by (cases ms) (auto simp: commas_Cons quote_def)
    ultimately show ?thesis using n by simp
  qed
qed

theorem json_parse_stringify: "wf_json j \<Longrightarrow> json_parse (stringify j) = Some j"
  using read_value_print [of j "Suc (length (stringify j))" "[]"] by (simp add: json_parse_def ends_value_def)

end
