(* ===== verification/JournalLines.thy ===== *)
theory JournalLines
  imports JsonText
begin

text \<open>
  The line format of the control journal (\<open>replay\<close> of \<open>src/src/control/journal.ts\<close>): a file is a
  sequence of lines, each closed by a newline before its append counts as committed. A locale states
  what the journal needs of the text of one record; it is interpreted on the printer and the parser
  of \<open>JsonText\<close>.
\<close>

section \<open>Splitting a file into lines\<close>

definition newline :: char where
  "newline = CHR 0x0A"

text \<open>The loop over the bytes: \<open>cur\<close> is \<open>raw.subarray(start, index)\<close>.\<close>

fun segments :: "string \<Rightarrow> string \<Rightarrow> string list" where
  "segments cur [] = (if cur = [] then [] else [cur])"
| "segments cur (c # cs) = (if c = newline then cur # segments [] cs else segments (cur @ [c]) cs)"

definition pop_empty :: "string list \<Rightarrow> string list" where
  "pop_empty segs = rev (dropWhile (\<lambda>s. s = []) (rev segs))"

text \<open>
  The committed lines of a file and what remains of the file: a last segment without its newline is
  cut off.
\<close>

definition committed_lines :: "string \<Rightarrow> string list \<times> string" where
  "committed_lines raw =
    (let segs = pop_empty (segments [] raw)
     in if raw \<noteq> [] \<and> last raw \<noteq> newline \<and> segs \<noteq> []
        then (butlast segs, take (length raw - length (last segs)) raw) else (segs, raw))"

definition lines_text :: "string list \<Rightarrow> string" where
  "lines_text ls = concat (map (\<lambda>l. l @ [newline]) ls)"

lemma lines_text_simps [simp]:
  "lines_text [] = []"
  "lines_text (l # ls) = l @ newline # lines_text ls"
  "lines_text (ls @ ls') = lines_text ls @ lines_text ls'"
  by (simp_all add: lines_text_def)

lemma segments_line: "newline \<notin> set l \<Longrightarrow> segments cur (l @ newline # r) = (cur @ l) # segments [] r"
  by (induction l arbitrary: cur) auto

lemma segments_tail: "newline \<notin> set t \<Longrightarrow> segments cur t = (if cur @ t = [] then [] else [cur @ t])"
  by (induction t arbitrary: cur) auto

lemma segments_lines:
  "(\<And>l. l \<in> set ls \<Longrightarrow> newline \<notin> set l) \<Longrightarrow> newline \<notin> set t \<Longrightarrow>
    segments [] (lines_text ls @ t) = ls @ (if t = [] then [] else [t])"
  by (induction ls) (simp_all add: segments_line segments_tail)

lemma last_lines_text: "ls \<noteq> [] \<Longrightarrow> lines_text ls \<noteq> [] \<and> last (lines_text ls) = newline"
  by (induction ls rule: rev_induct) auto

lemma pop_empty_id: "segs \<noteq> [] \<Longrightarrow> last segs \<noteq> [] \<Longrightarrow> pop_empty segs = segs"
  by (cases segs rule: rev_cases) (auto simp: pop_empty_def)

text \<open>Complete lines are read back, a torn one behind them is dropped.\<close>

lemma committed_lines_text:
  assumes "\<And>l. l \<in> set ls \<Longrightarrow> l \<noteq> [] \<and> newline \<notin> set l" "newline \<notin> set t"
  shows "committed_lines (lines_text ls @ t) = (ls, lines_text ls)"
proof (cases "t = []")
  case True
  have "segments [] (lines_text ls) = ls" using segments_lines [of ls "[]"] assms(1) by simp
  moreover have "pop_empty ls = ls"
  proof (cases "ls = []")
    case False
    then have "last ls \<in> set ls" by simp
    with assms(1) [OF this] False show ?thesis by (simp add: pop_empty_id)
  qed (simp add: pop_empty_def)
  moreover have "lines_text ls \<noteq> [] \<Longrightarrow> last (lines_text ls) = newline" using last_lines_text [of ls] by (cases "ls = []") auto
  ultimately show ?thesis using True by (auto simp: committed_lines_def Let_def)
next
  case False
  have s: "segments [] (lines_text ls @ t) = ls @ [t]" using segments_lines [of ls t] assms False by simp
  moreover have "last t \<noteq> newline" using assms(2) False by (metis last_in_set)
  ultimately show ?thesis using False by (simp add: committed_lines_def Let_def pop_empty_id)
qed

section \<open>The record format\<close>

locale line_codec =
  fixes enc :: "'a \<Rightarrow> string" and dec :: "string \<Rightarrow> 'a option" and ok :: "'a \<Rightarrow> bool"
  assumes dec_enc: "ok x \<Longrightarrow> dec (enc x) = Some x"
    and enc_line: "ok x \<Longrightarrow> enc x \<noteq> [] \<and> newline \<notin> set (enc x)"
begin

lemma read_back:
  assumes "\<And>x. x \<in> set xs \<Longrightarrow> ok x" "newline \<notin> set t"
  shows "committed_lines (lines_text (map enc xs) @ t) = (map enc xs, lines_text (map enc xs))"
  by (rule committed_lines_text) (use assms enc_line in auto)

text \<open>What a partial write of one more record leaves: nothing more, or the whole record.\<close>

lemma torn_record:
  assumes "ok x"
  shows "newline \<notin> set (take k (enc x @ [newline])) \<or> take k (enc x @ [newline]) = enc x @ [newline]"
proof (cases "k \<le> length (enc x)")
  case True
  then show ?thesis using enc_line [OF assms] by (auto dest: in_set_takeD)
qed simp

lemma read_torn:
  assumes "\<And>y. y \<in> set xs \<Longrightarrow> ok y" "ok x"
  shows "committed_lines (lines_text (map enc xs) @ take k (enc x @ [newline])) =
    (if k \<le> length (enc x) then (map enc xs, lines_text (map enc xs))
     else (map enc (xs @ [x]), lines_text (map enc (xs @ [x]))))"
proof (cases "k \<le> length (enc x)")
  case True
  then have "newline \<notin> set (take k (enc x @ [newline]))" using enc_line [OF assms(2)] by (auto dest: in_set_takeD)
  from read_back [OF assms(1) this] True show ?thesis by simp
next
  case False
  have "committed_lines (lines_text (map enc (xs @ [x])) @ []) = (map enc (xs @ [x]), lines_text (map enc (xs @ [x])))"
    by (rule read_back) (use assms in auto)
  then show ?thesis using False by simp
qed

end

text \<open>The printed form of a JSON value is one line: control characters are escaped.\<close>

lemma escape_char_visible: "c' \<in> set (escape_char c) \<Longrightarrow> 32 \<le> (of_char c' :: nat)"
  by (auto simp: escape_char_def Let_def hex_digit_def split: if_split_asm)

lemma newline_code: "of_char newline = (10::nat)"
  by (simp add: newline_def)

lemma digit_visible: "is_digit c \<Longrightarrow> c \<noteq> CHR 0x0A"
  by (auto simp: is_digit_def)

lemma show_int_line: "newline \<notin> set (show_int i)"
  using show_nat_digits [of "nat i"] show_nat_digits [of "nat (- i)"] digit_visible
  by (auto simp: show_int_def list_all_iff newline_def)

lemma quote_line: "newline \<notin> set (quote s)"
proof -
  have "newline \<notin> set (escape_char c)" for c using escape_char_visible [of newline c] newline_code by auto
  then show ?thesis by (auto simp: quote_def newline_def)
qed

lemma commas_line: "(\<And>s. s \<in> set ss \<Longrightarrow> newline \<notin> set s) \<Longrightarrow> newline \<notin> set (commas ss)"
  by (cases ss) (auto simp: commas_def newline_def)

lemma stringify_line: "newline \<notin> set (stringify j)"
proof (induction j)
  case (JArr xs)
  then have "newline \<notin> set (commas (map stringify xs))" by (intro commas_line) auto
  then show ?case by (simp add: newline_def)
next
  case (JObj ms)
  have "newline \<notin> set (quote k @ CHR '':'' # stringify v)" if "(k, v) \<in> set ms" for k v
    using JObj [OF that, of v] quote_line [of k] by (simp add: newline_def snds.simps)
  then have "newline \<notin> set (commas (map (\<lambda>(k, v). quote k @ CHR '':'' # stringify v) ms))" by (intro commas_line) auto
  then show ?case by (simp add: newline_def)
qed (use show_int_line quote_line in \<open>auto simp: newline_def\<close>)

interpretation json_line: line_codec stringify json_parse wf_json
  by unfold_locales (use json_parse_stringify stringify_hd [of _ "[]"] stringify_line in auto)

end
