(* ===== verification/Publication.thy ===== *)
theory Publication
  imports JsonText
begin

text \<open>
  How the control plane replaces a durable file (\<open>replaceRuntimeFile\<close> and \<open>publishOutcome\<close> of
  \<open>src/src/control/journal.ts\<close>): the new content goes to a temporary file of its own, is synced and
  renamed over the destination, with checks of the directory's identity between the steps. A
  directory maps names to regular files; a \<open>pub_env\<close> says which step fails, where the caller's
  guard aborts, and what another process does to the directory between the rename and the check of
  the published file. The result comes with every state the directory went through, which are the
  states a crash can leave behind. Which of the error messages is thrown is left out: an error is the
  step that failed. The hooks for tests are absent, as in production.
\<close>

section \<open>Directories and faults\<close>

record fs_file =
  fl_ino :: nat
  fl_bytes :: string

type_synonym directory = "(string, fs_file) jsmap"

datatype pub_step =
    EnsureDirectory | CheckBefore | OpenTemporary | StatTemporary | CheckOpened | WriteTemporary
  | SyncTemporary | StatSynced | CloseTemporary | CheckClosed | CheckRename | RenameTemporary
  | StatPublished | ForeignPublished | CheckPublished | SyncDirectory | UnlinkFile

record pub_env =
  pe_fails :: "pub_step \<Rightarrow> bool"
  pe_aborts :: "nat \<Rightarrow> bool"
  pe_written :: nat
  pe_ino :: nat
  pe_meddle :: "directory \<Rightarrow> directory"

definition unlink_file :: "pub_env \<Rightarrow> string \<Rightarrow> directory \<Rightarrow> directory" where
  "unlink_file en name d = (if pe_fails en UnlinkFile then d else jm_delete name d)"

text \<open>\<open>removeDurableOutcomePathIfMatching\<close>: only the file that was written here is removed.\<close>

definition remove_if_matching :: "pub_env \<Rightarrow> string \<Rightarrow> nat \<Rightarrow> directory \<Rightarrow> directory" where
  "remove_if_matching en name ino d =
    (case jm_get d name of
       None \<Rightarrow> d
     | Some f \<Rightarrow> if fl_ino f \<noteq> ino then d else unlink_file en name d)"

section \<open>Replacing a file\<close>

definition replace_runtime_file ::
  "pub_env \<Rightarrow> string \<Rightarrow> string \<Rightarrow> string \<Rightarrow> directory \<Rightarrow> (pub_step, bool) result \<times> directory list"
where
  "replace_runtime_file en serialized tmp dest d =
    (let fails = pe_fails en; ino = pe_ino en;
         created = jm_set tmp \<lparr>fl_ino = ino, fl_bytes = []\<rparr> d;
         torn = jm_set tmp \<lparr>fl_ino = ino, fl_bytes = take (pe_written en) serialized\<rparr> created;
         written = jm_set tmp \<lparr>fl_ino = ino, fl_bytes = serialized\<rparr> created;
         renamed = jm_set dest \<lparr>fl_ino = ino, fl_bytes = serialized\<rparr> (jm_delete tmp written);
         seen = pe_meddle en renamed
     in if fails EnsureDirectory then (Inl EnsureDirectory, [d])
        else if fails CheckBefore then (Inl CheckBefore, [d, unlink_file en tmp d])
        else if pe_aborts en 0 then (Inr False, [d])
        else if fails OpenTemporary \<or> jm_get d tmp \<noteq> None then (Inl OpenTemporary, [d, unlink_file en tmp d])
        else if fails StatTemporary then (Inl StatTemporary, [d, created, unlink_file en tmp created])
        else if fails CheckOpened then (Inl CheckOpened, [d, created, remove_if_matching en tmp ino created])
        else if pe_aborts en 1 then (Inr False, [d, created, remove_if_matching en tmp ino created])
        else if fails WriteTemporary
        then (Inl WriteTemporary, [d, created, torn, remove_if_matching en tmp ino torn])
        else (case find fails [SyncTemporary, StatSynced, CloseTemporary, CheckClosed, CheckRename] of
           Some st \<Rightarrow> (Inl st, [d, created, written, remove_if_matching en tmp ino written])
         | None \<Rightarrow>
            if pe_aborts en 2 then (Inr False, [d, created, written, remove_if_matching en tmp ino written])
            else if fails RenameTemporary
            then (Inl RenameTemporary, [d, created, written, remove_if_matching en tmp ino written])
            else if fails StatPublished
            then (Inl StatPublished, [d, created, written, renamed, seen, remove_if_matching en dest ino seen])
            else if map_option fl_ino (jm_get seen dest) \<noteq> Some ino
            then (Inl ForeignPublished, [d, created, written, renamed, seen, remove_if_matching en dest ino seen])
            else if fails CheckPublished
            then (Inl CheckPublished, [d, created, written, renamed, seen, remove_if_matching en dest ino seen])
            else if fails SyncDirectory then (Inl SyncDirectory, [d, created, written, renamed, seen])
            else (Inr True, [d, created, written, renamed, seen])))"

text \<open>The directory in the end.\<close>

definition settled :: "(pub_step, bool) result \<times> directory list \<Rightarrow> directory" where
  "settled r = last (snd r)"

definition undisturbed :: "pub_env \<Rightarrow> bool" where
  "undisturbed en \<longleftrightarrow> pe_meddle en = (\<lambda>d. d)"

section \<open>Atomicity\<close>

lemma get_unlink: "k \<noteq> n \<Longrightarrow> jm_get (unlink_file en n d) k = jm_get d k"
  by (simp add: unlink_file_def)

lemma get_remove: "k \<noteq> n \<Longrightarrow> jm_get (remove_if_matching en n i d) k = jm_get d k"
  by (simp add: remove_if_matching_def get_unlink split: option.splits)

lemma find_first: "find P xs = Some x \<Longrightarrow> P x \<and> x \<in> set xs"
  by (auto simp: find_Some_iff)

definition outcome_kept :: "string \<Rightarrow> directory \<Rightarrow> (pub_step, bool) result \<times> directory list \<Rightarrow> bool" where
  "outcome_kept dest d r \<longleftrightarrow> list_all (\<lambda>x. jm_get x dest = jm_get d dest) (snd r) \<and>
    fst r \<notin> {Inr True, Inl StatPublished, Inl CheckPublished}"

definition outcome_published :: "pub_env \<Rightarrow> string \<Rightarrow> string \<Rightarrow> directory \<Rightarrow> (pub_step, bool) result \<times> directory list \<Rightarrow> bool" where
  "outcome_published en serialized dest d r \<longleftrightarrow>
    list_all (\<lambda>x. jm_get x dest = jm_get d dest \<or> jm_get x dest = Some \<lparr>fl_ino = pe_ino en, fl_bytes = serialized\<rparr>) (snd r) \<and>
    jm_get (settled r) dest = Some \<lparr>fl_ino = pe_ino en, fl_bytes = serialized\<rparr> \<and>
    (fst r = Inr True \<or> fst r = Inl SyncDirectory \<and> pe_fails en SyncDirectory)"

definition outcome_lost :: "pub_env \<Rightarrow> string \<Rightarrow> string \<Rightarrow> directory \<Rightarrow> (pub_step, bool) result \<times> directory list \<Rightarrow> bool" where
  "outcome_lost en serialized dest d r \<longleftrightarrow>
    list_all (\<lambda>x. jm_get x dest = jm_get d dest \<or> jm_get x dest = Some \<lparr>fl_ino = pe_ino en, fl_bytes = serialized\<rparr> \<or>
      jm_get x dest = None) (snd r) \<and>
    jm_get (settled r) dest = (if pe_fails en UnlinkFile then Some \<lparr>fl_ino = pe_ino en, fl_bytes = serialized\<rparr> else None) \<and>
    (\<exists>st \<in> {StatPublished, CheckPublished}. fst r = Inl st \<and> pe_fails en st)"

lemmas outcome_defs = outcome_kept_def outcome_published_def outcome_lost_def settled_def

definition outcome_ok :: "pub_env \<Rightarrow> string \<Rightarrow> string \<Rightarrow> directory \<Rightarrow> (pub_step, bool) result \<times> directory list \<Rightarrow> bool" where
  "outcome_ok en serialized dest d r \<longleftrightarrow>
    outcome_kept dest d r \<or> outcome_published en serialized dest d r \<or> outcome_lost en serialized dest d r"

lemma outcome_okI:
  "outcome_kept dest d r \<Longrightarrow> outcome_ok en serialized dest d r"
  "outcome_published en serialized dest d r \<Longrightarrow> outcome_ok en serialized dest d r"
  "outcome_lost en serialized dest d r \<Longrightarrow> outcome_ok en serialized dest d r"
  by (simp_all add: outcome_ok_def)

lemma outcome_ok_branches:
  "(c \<Longrightarrow> outcome_ok en z dest d r) \<Longrightarrow> (\<not> c \<Longrightarrow> outcome_ok en z dest d r') \<Longrightarrow> outcome_ok en z dest d (if c then r else r')"
  "(v = None \<Longrightarrow> outcome_ok en z dest d r) \<Longrightarrow> (\<And>x. v = Some x \<Longrightarrow> outcome_ok en z dest d (f x)) \<Longrightarrow>
    outcome_ok en z dest d (case v of None \<Rightarrow> r | Some x \<Rightarrow> f x)"
  by (simp_all split: option.split)

lemma publication_outcome:
  assumes "undisturbed en" "tmp \<noteq> dest"
  shows "outcome_ok en serialized dest d (replace_runtime_file en serialized tmp dest d)"
proof -
  have meddle: "pe_meddle en = (\<lambda>d. d)" using assms(1) by (simp add: undisturbed_def)
  define ino where "ino = pe_ino en"
  define created where "created = jm_set tmp \<lparr>fl_ino = ino, fl_bytes = []\<rparr> d"
  define torn where "torn = jm_set tmp \<lparr>fl_ino = ino, fl_bytes = take (pe_written en) serialized\<rparr> created"
  define written where "written = jm_set tmp \<lparr>fl_ino = ino, fl_bytes = serialized\<rparr> created"
  define renamed where "renamed = jm_set dest \<lparr>fl_ino = ino, fl_bytes = serialized\<rparr> (jm_delete tmp written)"
  have kept: "jm_get created dest = jm_get d dest" "jm_get torn dest = jm_get d dest" "jm_get written dest = jm_get d dest"
    using assms(2) by (simp_all add: created_def torn_def written_def)
  have new: "jm_get renamed dest = Some \<lparr>fl_ino = pe_ino en, fl_bytes = serialized\<rparr>" by (simp add: renamed_def ino_def)
  have gone: "jm_get (remove_if_matching en dest ino renamed) dest =
      (if pe_fails en UnlinkFile then Some \<lparr>fl_ino = pe_ino en, fl_bytes = serialized\<rparr> else None)"
    using new by (simp add: remove_if_matching_def unlink_file_def ino_def)
  have other: "jm_get (remove_if_matching en tmp i x) dest = jm_get x dest" "jm_get (unlink_file en tmp x) dest = jm_get x dest" for i x
    using assms(2) by (simp_all add: get_remove get_unlink)
  let ?r = "replace_runtime_file en serialized tmp dest d"
  let ?steps = "find (pe_fails en) [SyncTemporary, StatSynced, CloseTemporary, CheckClosed, CheckRename]"
  have unfold: "?r =
     (if pe_fails en EnsureDirectory then (Inl EnsureDirectory, [d])
      else if pe_fails en CheckBefore then (Inl CheckBefore, [d, unlink_file en tmp d])
      else if pe_aborts en 0 then (Inr False, [d])
      else if pe_fails en OpenTemporary \<or> jm_get d tmp \<noteq> None then (Inl OpenTemporary, [d, unlink_file en tmp d])
      else if pe_fails en StatTemporary then (Inl StatTemporary, [d, created, unlink_file en tmp created])
      else if pe_fails en CheckOpened then (Inl CheckOpened, [d, created, remove_if_matching en tmp ino created])
      else if pe_aborts en 1 then (Inr False, [d, created, remove_if_matching en tmp ino created])
      else if pe_fails en WriteTemporary then (Inl WriteTemporary, [d, created, torn, remove_if_matching en tmp ino torn])
      else (case ?steps of
         Some st \<Rightarrow> (Inl st, [d, created, written, remove_if_matching en tmp ino written])
       | None \<Rightarrow>
          if pe_aborts en 2 then (Inr False, [d, created, written, remove_if_matching en tmp ino written])
          else if pe_fails en RenameTemporary
          then (Inl RenameTemporary, [d, created, written, remove_if_matching en tmp ino written])
          else if pe_fails en StatPublished
          then (Inl StatPublished, [d, created, written, renamed, renamed, remove_if_matching en dest ino renamed])
          else if map_option fl_ino (jm_get renamed dest) \<noteq> Some ino
          then (Inl ForeignPublished, [d, created, written, renamed, renamed, remove_if_matching en dest ino renamed])
          else if pe_fails en CheckPublished
          then (Inl CheckPublished, [d, created, written, renamed, renamed, remove_if_matching en dest ino renamed])
          else if pe_fails en SyncDirectory then (Inl SyncDirectory, [d, created, written, renamed, renamed])
          else (Inr True, [d, created, written, renamed, renamed])))"
    by (simp only: replace_runtime_file_def Let_def meddle ino_def created_def torn_def written_def renamed_def)
  have same_ino: "map_option fl_ino (jm_get renamed dest) = Some ino" using new by (simp add: ino_def)
  show ?thesis
    unfolding unfold
    apply (intro outcome_ok_branches)
                     apply (rule outcome_okI(1), simp add: outcome_kept_def kept other; fail)+
           apply (rule outcome_okI(3), simp add: outcome_lost_def settled_def kept new gone; fail)
          apply (simp add: same_ino; fail)
         apply (rule outcome_okI(3), simp add: outcome_lost_def settled_def kept new gone; fail)
        apply (rule outcome_okI(2), simp add: outcome_published_def settled_def kept new; fail)+
    apply (rule outcome_okI(1), drule find_first, auto simp add: outcome_kept_def kept other)
    done
qed

lemma replace_others:
  assumes "undisturbed en" "k \<noteq> tmp" "k \<noteq> dest"
  shows "\<forall>x \<in> set (snd (replace_runtime_file en serialized tmp dest d)). jm_get x k = jm_get d k"
  using assms
  by (simp add: replace_runtime_file_def Let_def undisturbed_def get_remove get_unlink del: find.simps split: option.split)

lemma replace_states: "snd (replace_runtime_file en serialized tmp dest d) \<noteq> []"
  by (simp add: replace_runtime_file_def Let_def del: find.simps split: option.split)


definition quiet_env :: "nat \<Rightarrow> pub_env" where
  "quiet_env ino = \<lparr>pe_fails = (\<lambda>_. False), pe_aborts = (\<lambda>_. False), pe_written = 0, pe_ino = ino, pe_meddle = (\<lambda>d. d)\<rparr>"


text \<open>
  The exception is real: an identity check that fails after the rename removes the new file, and the
  old one is already gone.
\<close>

lemma late_check_loses_the_file:
  assumes "replace_runtime_file en serialized tmp dest d = (Inl CheckPublished, ds)"
    and "undisturbed en" "tmp \<noteq> dest" "\<not> pe_fails en UnlinkFile"
  shows "jm_get (last ds) dest = None"
  using publication_outcome [OF assms(2,3), of serialized d] assms(1,4)
  by (auto simp: outcome_ok_def outcome_kept_def outcome_published_def outcome_lost_def settled_def)

end
