(* ===== verification/Journal.thy ===== *)
theory Journal
  imports JournalLines Publication
begin

text \<open>
  The control journal (\<open>ControlJournal\<close> of \<open>src/src/control/journal.ts\<close>): opening and replaying the
  file, appending with rollback, compaction, reading, lookup by idempotency key. Events are JSON
  objects, since \<open>replay\<close> takes what it parses as an event and checks only its sequence number.
  Operations run one after another on the append tail, so each is one step on the journal and the
  runtime directory. Every call of the file system can fail; what fails is part of the environment.
  A record of a line is read and written as bytes.
\<close>

section \<open>Events\<close>

datatype journal_error = Corruption nat | TypeFault | TornAppend | IoFault | PublishFault pub_step

text \<open>\<open>x.k\<close> for a JSON value or \<open>undefined\<close> and a member name no primitive value has.\<close>

definition read_member :: "json option \<Rightarrow> string \<Rightarrow> (journal_error, json option) result" where
  "read_member v k =
    (case v of
       None \<Rightarrow> Inl TypeFault
     | Some JNull \<Rightarrow> Inl TypeFault
     | Some (JObj ms) \<Rightarrow> Inr (map_of ms k)
     | Some _ \<Rightarrow> Inr None)"

definition event_member :: "json \<Rightarrow> string \<Rightarrow> json option" where
  "event_member e k = (case e of JObj ms \<Rightarrow> map_of ms k | _ \<Rightarrow> None)"

definition event_sequence :: "json \<Rightarrow> int" where
  "event_sequence e = (case event_member e ''sequence'' of Some (JNum i) \<Rightarrow> i | _ \<Rightarrow> 0)"

definition event_kind :: "json \<Rightarrow> string" where
  "event_kind e = (case event_member e ''kind'' of Some (JStr s) \<Rightarrow> s | _ \<Rightarrow> [])"

definition event_line :: "json \<Rightarrow> string" where
  "event_line e = stringify e @ [newline]"

definition IDEMPOTENCY_INDEXED_KINDS :: "string list" where
  "IDEMPOTENCY_INDEXED_KINDS =
    [''command.requested'', ''command.accepted'', ''command.running'', ''command.succeeded'',
     ''command.failed'', ''command.unknown'', ''command.rejected'']"

text \<open>
  A key that is no string cannot be asked for, so it is not entered. The first read throws when the
  event has no payload.
\<close>

definition index_idempotency :: "json \<Rightarrow> (string, json) jsmap \<Rightarrow> (journal_error, (string, json) jsmap) result" where
  "index_idempotency e ix =
    and_then (read_member (event_member e ''payload'') ''idempotencyKey'') (\<lambda>key.
      (case key of
         Some (JStr k) \<Rightarrow>
           Inr (if k \<noteq> [] \<and> event_kind e \<in> set IDEMPOTENCY_INDEXED_KINDS then jm_set k e ix else ix)
       | _ \<Rightarrow> Inr ix))"

fun index_all :: "json list \<Rightarrow> (string, json) jsmap \<Rightarrow> (journal_error, (string, json) jsmap) result" where
  "index_all [] ix = Inr ix"
| "index_all (e # es) ix = and_then (index_idempotency e ix) (index_all es)"

section \<open>Opening\<close>

record journal =
  jn_ownerEpoch :: int
  jn_currentSequence :: int
  jn_firstRetained :: int
  jn_events :: "json list"
  jn_index :: "(string, json) jsmap"
  jn_listeners :: "string list"
  jn_delivered :: "(string \<times> json) list"
  jn_unrolled :: "nat option"

definition JOURNAL_FILE :: string where "JOURNAL_FILE = ''events.ndjson''"

definition JOURNAL_HEADER_TAG :: string where "JOURNAL_HEADER_TAG = ''psyche.control.journal/v1''"

definition journal_header :: "int \<Rightarrow> json" where
  "journal_header n = JObj [(''journal'', JStr JOURNAL_HEADER_TAG), (''firstSequence'', JNum n)]"

definition parse_journal_header :: "json \<Rightarrow> int option" where
  "parse_journal_header v =
    (if event_member v ''journal'' \<noteq> Some (JStr JOURNAL_HEADER_TAG) then None
     else (case event_member v ''firstSequence'' of
             Some (JNum n) \<Rightarrow> if n < 1 then None else Some n
           | _ \<Rightarrow> None))"

fun replay_events :: "nat \<Rightarrow> int \<Rightarrow> string list \<Rightarrow> (journal_error, json list) result" where
  "replay_events index expected [] = Inr []"
| "replay_events index expected (l # ls) =
    (case json_parse l of
       None \<Rightarrow> Inl (Corruption (index + 1))
     | Some e \<Rightarrow>
        and_then (read_member (Some e) ''sequence'') (\<lambda>n.
          if n \<noteq> Some (JNum expected) then Inl (Corruption (index + 1))
          else and_then (replay_events (index + 1) (expected + 1) ls) (\<lambda>es. Inr (e # es))))"

definition replay_lines :: "string list \<Rightarrow> (journal_error, json list \<times> int) result" where
  "replay_lines ls =
    (let header = (case ls of [] \<Rightarrow> None | l # _ \<Rightarrow> Option.bind (json_parse l) parse_journal_header)
     in case header of
          None \<Rightarrow> and_then (replay_events 0 1 ls) (\<lambda>es. Inr (es, 1))
        | Some n \<Rightarrow> and_then (replay_events 1 n (tl ls)) (\<lambda>es. Inr (es, n)))"

record open_env =
  oe_readFails :: bool
  oe_truncateFails :: bool

definition set_bytes :: "string \<Rightarrow> string \<Rightarrow> directory \<Rightarrow> directory" where
  "set_bytes name bytes d =
    (case jm_get d name of None \<Rightarrow> d | Some f \<Rightarrow> jm_set name (f\<lparr>fl_bytes := bytes\<rparr>) d)"

definition journal_replay :: "open_env \<Rightarrow> directory \<Rightarrow> (journal_error, json list \<times> int) result \<times> directory" where
  "journal_replay en d =
    (if oe_readFails en then (Inl IoFault, d)
     else (case jm_get d JOURNAL_FILE of
        None \<Rightarrow> (Inr ([], 1), d)
      | Some f \<Rightarrow>
         (let raw = fl_bytes f; (ls, kept) = committed_lines raw
          in if kept = raw then (replay_lines ls, d)
             else if oe_truncateFails en then (Inl IoFault, d)
             else (replay_lines ls, set_bytes JOURNAL_FILE kept d))))"

definition new_journal :: "int \<Rightarrow> json list \<Rightarrow> int \<Rightarrow> (journal_error, journal) result" where
  "new_journal ownerEpoch events firstSequence =
    and_then (index_all events []) (\<lambda>ix. Inr
      \<lparr>jn_ownerEpoch = ownerEpoch,
       jn_currentSequence = (if events \<noteq> [] then event_sequence (last events) else firstSequence - 1),
       jn_firstRetained = firstSequence, jn_events = events, jn_index = ix, jn_listeners = [],
       jn_delivered = [], jn_unrolled = None\<rparr>)"

definition journal_open :: "open_env \<Rightarrow> int \<Rightarrow> directory \<Rightarrow> (journal_error, journal) result \<times> directory" where
  "journal_open en ownerEpoch d =
    (case journal_replay en d of
       (Inl e, d1) \<Rightarrow> (Inl e, d1)
     | (Inr (events, firstSequence), d1) \<Rightarrow> (new_journal ownerEpoch events firstSequence, d1))"

section \<open>Appending\<close>

record append_env =
  ae_id :: string
  ae_timestamp :: string
  ae_ino :: nat
  ae_statFails :: bool
  ae_repairFails :: bool
  ae_openFails :: bool
  ae_handleStatFails :: bool
  ae_written :: "nat option"
  ae_syncFails :: bool
  ae_rollbackFails :: bool
  ae_resyncFails :: bool
  ae_closeFails :: bool

definition journal_bytes :: "directory \<Rightarrow> string" where
  "journal_bytes d = (case jm_get d JOURNAL_FILE of None \<Rightarrow> [] | Some f \<Rightarrow> fl_bytes f)"

definition repair_unrolled_append ::
  "append_env \<Rightarrow> journal \<Rightarrow> directory \<Rightarrow> (journal_error, unit) result \<times> journal \<times> directory"
where
  "repair_unrolled_append en j d =
    (case jn_unrolled j of
       None \<Rightarrow> (Inr (), j, d)
     | Some committedLength \<Rightarrow>
        (case (if ae_statFails en then None else map_option (length \<circ> fl_bytes) (jm_get d JOURNAL_FILE)) of
           None \<Rightarrow> (Inl TornAppend, j, d)
         | Some currentLength \<Rightarrow>
            if currentLength < committedLength then (Inl TornAppend, j, d)
            else if currentLength > committedLength \<and> ae_repairFails en then (Inl TornAppend, j, d)
            else (Inr (), j\<lparr>jn_unrolled := None\<rparr>,
                  if currentLength > committedLength
                  then set_bytes JOURNAL_FILE (take committedLength (journal_bytes d)) d else d)))"

definition build_next_event :: "append_env \<Rightarrow> string \<Rightarrow> (string \<times> json) list \<Rightarrow> journal \<Rightarrow> json" where
  "build_next_event en kind payload j = JObj
     [(''sequence'', JNum (jn_currentSequence j + 1)), (''id'', JStr (ae_id en)),
      (''ownerEpoch'', JNum (jn_ownerEpoch j)), (''timestamp'', JStr (ae_timestamp en)),
      (''kind'', JStr kind), (''payload'', JObj payload)]"

text \<open>The rollback of a failed write: when it fails too, the committed length is remembered.\<close>

definition roll_back :: "append_env \<Rightarrow> nat \<Rightarrow> journal \<Rightarrow> directory \<Rightarrow> journal \<times> directory" where
  "roll_back en committedLength j d =
    (if ae_rollbackFails en then (j\<lparr>jn_unrolled := Some committedLength\<rparr>, d)
     else (if ae_resyncFails en then j\<lparr>jn_unrolled := Some committedLength\<rparr> else j,
           set_bytes JOURNAL_FILE (take committedLength (journal_bytes d)) d))"

definition commit_event :: "json \<Rightarrow> journal \<Rightarrow> (journal_error, json) result \<times> journal" where
  "commit_event e j =
    (let j1 = j\<lparr>jn_currentSequence := event_sequence e, jn_events := jn_events j @ [e]\<rparr>
     in case index_idempotency e (jn_index j1) of
          Inl err \<Rightarrow> (Inl err, j1)
        | Inr ix \<Rightarrow> (Inr e, j1\<lparr>jn_index := ix,
            jn_delivered := jn_delivered j1 @ map (\<lambda>l. (l, e)) (jn_listeners j1)\<rparr>))"

definition journal_append ::
  "append_env \<Rightarrow> string \<Rightarrow> (string \<times> json) list \<Rightarrow> journal \<Rightarrow> directory \<Rightarrow>
   (journal_error, json) result \<times> journal \<times> directory"
where
  "journal_append en kind payload j d =
    (case repair_unrolled_append en j d of
       (Inl e, j1, d1) \<Rightarrow> (Inl e, j1, d1)
     | (Inr _, j1, d1) \<Rightarrow>
       (let event = build_next_event en kind payload j1; line = event_line event
        in if ae_openFails en then (Inl IoFault, j1, d1)
           else
             let d2 = (case jm_get d1 JOURNAL_FILE of
                         None \<Rightarrow> jm_set JOURNAL_FILE \<lparr>fl_ino = ae_ino en, fl_bytes = []\<rparr> d1 | Some _ \<Rightarrow> d1);
                 committed = journal_bytes d2
             in if ae_handleStatFails en then (Inl IoFault, j1, d2)
                else (case ae_written en of
                   Some k \<Rightarrow> (Inl IoFault, roll_back en (length committed) j1
                                 (set_bytes JOURNAL_FILE (committed @ take k line) d2))
                 | None \<Rightarrow>
                    let d3 = set_bytes JOURNAL_FILE (committed @ line) d2
                    in if ae_syncFails en then (Inl IoFault, roll_back en (length committed) j1 d3)
                       else if ae_closeFails en then (Inl IoFault, j1, d3)
                       else (let (r, j2) = commit_event event j1 in (r, j2, d3)))))"

section \<open>Reading\<close>

text \<open>\<open>xs.slice(start, end)\<close> for a start inside the array.\<close>

definition js_slice :: "int \<Rightarrow> int option \<Rightarrow> 'a list \<Rightarrow> 'a list" where
  "js_slice start stop xs =
    (case stop of
       None \<Rightarrow> drop (nat start) xs
     | Some e \<Rightarrow>
        (let e' = (if e < 0 then max 0 (int (length xs) + e) else min e (int (length xs)))
         in take (nat (e' - start)) (drop (nat start) xs)))"

definition journal_read :: "int \<Rightarrow> int option \<Rightarrow> journal \<Rightarrow> json list" where
  "journal_read afterSequence limit j =
    (case jn_events j of
       [] \<Rightarrow> []
     | e # _ \<Rightarrow>
        (let offset = afterSequence - event_sequence e + 1; start = max 0 offset
         in if int (length (jn_events j)) \<le> start then []
            else js_slice start (map_option (\<lambda>l. start + l) limit) (jn_events j)))"

definition find_by_idempotency_key :: "string \<Rightarrow> journal \<Rightarrow> json option" where
  "find_by_idempotency_key key j = jm_get (jn_index j) key"

definition journal_subscribe :: "string \<Rightarrow> journal \<Rightarrow> journal" where
  "journal_subscribe l j = (if l \<in> set (jn_listeners j) then j else j\<lparr>jn_listeners := jn_listeners j @ [l]\<rparr>)"

definition journal_unsubscribe :: "string \<Rightarrow> journal \<Rightarrow> journal" where
  "journal_unsubscribe l j = j\<lparr>jn_listeners := remove1 l (jn_listeners j)\<rparr>"

section \<open>Compaction\<close>

definition compacted_text :: "int \<Rightarrow> json list \<Rightarrow> string" where
  "compacted_text firstSequence retained = lines_text (map stringify (journal_header firstSequence # retained))"

definition keep_from :: "int \<Rightarrow> json list \<Rightarrow> nat" where
  "keep_from coveredSequence events = length (takeWhile (\<lambda>e. \<not> event_sequence e > coveredSequence) events)"

definition journal_compact ::
  "pub_env \<Rightarrow> string \<Rightarrow> int \<Rightarrow> journal \<Rightarrow> directory \<Rightarrow> (journal_error, unit) result \<times> journal \<times> directory list"
where
  "journal_compact en tmp coveredSequence j d =
    (let keepFrom = keep_from coveredSequence (jn_events j)
     in if keepFrom = 0 then (Inr (), j, [d])
        else
          let retained = drop keepFrom (jn_events j);
              firstSequence = (case retained of [] \<Rightarrow> jn_currentSequence j + 1 | e # _ \<Rightarrow> event_sequence e)
          in case replace_runtime_file en (compacted_text firstSequence retained) tmp JOURNAL_FILE d of
               (Inl st, ds) \<Rightarrow> (Inl (PublishFault st), j, ds)
             | (Inr replaced, ds) \<Rightarrow>
                if \<not> replaced then (Inr (), j, ds)
                else (Inr (), j\<lparr>jn_events := retained, jn_firstRetained := firstSequence, jn_unrolled := None,
                        jn_index := filter (\<lambda>(k, e). \<not> event_sequence e < firstSequence) (jn_index j)\<rparr>, ds))"

section \<open>What is in memory and in the file\<close>

text \<open>An event with sequence number \<open>n\<close>: a JSON object with a payload, and no header.\<close>

definition event_ok :: "int \<Rightarrow> json \<Rightarrow> bool" where
  "event_ok n e \<longleftrightarrow> wf_json e \<and> (\<exists>ms p. e = JObj ms \<and> map_of ms ''sequence'' = Some (JNum n) \<and>
     map_of ms ''payload'' = Some (JObj p) \<and> map_of ms ''journal'' = None)"

fun events_from :: "int \<Rightarrow> json list \<Rightarrow> bool" where
  "events_from n [] = True"
| "events_from n (e # es) = (event_ok n e \<and> events_from (n + 1) es)"

definition indexed_key :: "json \<Rightarrow> string option" where
  "indexed_key e =
    (case event_member e ''payload'' of
       Some (JObj p) \<Rightarrow>
        (case map_of p ''idempotencyKey'' of
           Some (JStr k) \<Rightarrow> if k \<noteq> [] \<and> event_kind e \<in> set IDEMPOTENCY_INDEXED_KINDS then Some k else None
         | _ \<Rightarrow> None)
     | _ \<Rightarrow> None)"

definition latest_with_key :: "string \<Rightarrow> json list \<Rightarrow> json option" where
  "latest_with_key k es = find (\<lambda>e. indexed_key e = Some k) (rev es)"

lemma event_okD:
  assumes "event_ok n e"
  shows "event_sequence e = n" "wf_json e" "read_member (Some e) ''sequence'' = Inr (Some (JNum n))"
    "parse_journal_header e = None"
  using assms by (auto simp: event_ok_def event_sequence_def event_member_def read_member_def parse_journal_header_def)

lemma index_event:
  assumes "event_ok n e"
  shows "index_idempotency e ix = Inr (case indexed_key e of None \<Rightarrow> ix | Some k \<Rightarrow> jm_set k e ix)"
  using assms
  by (auto simp: event_ok_def index_idempotency_def read_member_def indexed_key_def event_member_def
      split: option.splits json.splits)

lemma events_from_append: "events_from n (xs @ ys) \<longleftrightarrow> events_from n xs \<and> events_from (n + int (length xs)) ys"
  by (induction xs arbitrary: n) (auto simp: algebra_simps)

lemma events_from_drop: "events_from n es \<Longrightarrow> k \<le> length es \<Longrightarrow> events_from (n + int k) (drop k es)"
  using events_from_append [of n "take k es" "drop k es"] by simp

lemma events_from_nth: "events_from n es \<Longrightarrow> i < length es \<Longrightarrow> event_ok (n + int i) (es ! i)"
proof (induction es arbitrary: n i)
  case (Cons e es)
  then show ?case
  proof (cases i)
    case (Suc m)
    with Cons.IH [of "n + 1" m] Cons.prems show ?thesis by (simp add: algebra_simps)
  qed simp
qed simp

lemma events_from_member: "events_from n es \<Longrightarrow> e \<in> set es \<Longrightarrow> n \<le> event_sequence e \<and> event_sequence e < n + int (length es) \<and> wf_json e"
proof -
  assume a: "events_from n es" "e \<in> set es"
  then obtain i where "i < length es" "e = es ! i" by (metis in_set_conv_nth)
  with events_from_nth [OF a(1), of i] show ?thesis by (auto dest: event_okD)
qed

lemma find_append_case: "find P (xs @ ys) = (case find P xs of None \<Rightarrow> find P ys | Some x \<Rightarrow> Some x)"
  by (induction xs) auto

lemma latest_append: "latest_with_key k (es @ [e]) = (if indexed_key e = Some k then Some e else latest_with_key k es)"
  by (simp add: latest_with_key_def)

lemma index_all_events:
  "events_from n es \<Longrightarrow> jm_ok ix \<Longrightarrow>
    \<exists>ix'. index_all es ix = Inr ix' \<and> jm_ok ix' \<and>
      (\<forall>k. jm_get ix' k = (case latest_with_key k es of None \<Rightarrow> jm_get ix k | Some e \<Rightarrow> Some e))"
proof (induction es arbitrary: n ix)
  case (Cons e es)
  let ?ix = "case indexed_key e of None \<Rightarrow> ix | Some k \<Rightarrow> jm_set k e ix"
  have "jm_ok ?ix" using Cons.prems(2) by (auto split: option.splits)
  with Cons.IH [of "n + 1" ?ix] Cons.prems(1) obtain ix' where
    "index_all es ?ix = Inr ix'" "jm_ok ix'"
    "\<And>k. jm_get ix' k = (case latest_with_key k es of None \<Rightarrow> jm_get ?ix k | Some e \<Rightarrow> Some e)" by auto
  moreover have "latest_with_key k (e # es) =
      (case latest_with_key k es of None \<Rightarrow> if indexed_key e = Some k then Some e else None | Some x \<Rightarrow> Some x)" for k
    by (simp add: latest_with_key_def find_append_case split: option.splits)
  moreover have "index_idempotency e ix = Inr ?ix" using index_event [of n e ix] Cons.prems(1) by simp
  ultimately show ?case by (intro exI [of _ ix']) (auto split: option.splits)
qed (simp add: latest_with_key_def)

text \<open>The text of a journal: a header when it was compacted, then one line per event.\<close>

definition journal_text :: "bool \<Rightarrow> int \<Rightarrow> json list \<Rightarrow> string" where
  "journal_text compacted n es = lines_text (map stringify ((if compacted then [journal_header n] else []) @ es))"

lemma journal_text_snoc: "journal_text h n (es @ [e]) = journal_text h n es @ event_line e"
  by (simp add: journal_text_def event_line_def)

lemma replay_events_read:
  "events_from n es \<Longrightarrow>
    replay_events i n (map stringify es @ ls) =
      and_then (replay_events (i + length es) (n + int (length es)) ls) (\<lambda>r. Inr (es @ r))"
proof (induction es arbitrary: i n)
  case Nil
  show ?case by (cases "replay_events i n ls") simp_all
next
  case (Cons e es)
  then have "json_parse (stringify e) = Some e" "read_member (Some e) ''sequence'' = Inr (Some (JNum n))"
    by (auto dest: event_okD intro: json_parse_stringify)
  with Cons show ?case
    by (cases "replay_events (i + length (e # es)) (n + int (length (e # es))) ls") (auto simp: algebra_simps)
qed

lemma header_read: "1 \<le> n \<Longrightarrow> json_parse (stringify (journal_header n)) = Some (journal_header n)"
    "1 \<le> n \<Longrightarrow> parse_journal_header (journal_header n) = Some n"
  using json_parse_stringify [of "journal_header n"]
  by (simp_all add: journal_header_def parse_journal_header_def event_member_def del: stringify.simps)

lemma replay_lines_read:
  assumes "events_from n es" "1 \<le> n" "h \<or> n = 1"
  shows "replay_lines (map stringify ((if h then [journal_header n] else []) @ es)) = Inr (es, n)"
proof (cases h)
  case True
  with assms(1,2) replay_events_read [of n es 1 "[]"] show ?thesis by (simp add: replay_lines_def header_read)
next
  case False
  with assms have n: "n = 1" by simp
  have "replay_events 0 1 (map stringify es) = Inr es" using replay_events_read [of n es 0 "[]"] assms(1) n by simp
  moreover have "Option.bind (json_parse (stringify e)) parse_journal_header = None" if "es = e # r" for e r
    using event_okD(2,4) [of n e] assms(1) that by (simp add: json_parse_stringify)
  ultimately show ?thesis using False by (cases es) (simp_all add: replay_lines_def n)
qed

definition memory_sound :: "journal \<Rightarrow> bool" where
  "memory_sound j \<longleftrightarrow> events_from (jn_firstRetained j) (jn_events j) \<and> 1 \<le> jn_firstRetained j \<and>
    jn_currentSequence j = jn_firstRetained j + int (length (jn_events j)) - 1 \<and> jm_ok (jn_index j) \<and>
    (\<forall>k. jm_get (jn_index j) k = latest_with_key k (jn_events j))"

text \<open>
  The file holds the events of the memory from some point on (an earlier compaction may have reached
  the file only; it dropped nothing beyond \<open>c\<close>), and perhaps the torn line of a failed append, whose
  committed length is then remembered.
\<close>

definition torn_tail :: "journal \<Rightarrow> string \<Rightarrow> bool" where
  "torn_tail j tail \<longleftrightarrow> tail = [] \<or>
    jn_unrolled j \<noteq> None \<and> (\<exists>e m. event_ok (jn_currentSequence j + 1) e \<and> tail = take m (event_line e))"

definition file_sound :: "int \<Rightarrow> journal \<Rightarrow> string \<Rightarrow> bool" where
  "file_sound c j bytes \<longleftrightarrow>
    (\<exists>h k tail. k \<le> length (jn_events j) \<and> (\<forall>e \<in> set (take k (jn_events j)). event_sequence e \<le> c) \<and>
      (h \<or> jn_firstRetained j + int k = 1) \<and>
      bytes = journal_text h (jn_firstRetained j + int k) (drop k (jn_events j)) @ tail \<and>
      (\<forall>n. jn_unrolled j = Some n \<longrightarrow> n = length (journal_text h (jn_firstRetained j + int k) (drop k (jn_events j)))) \<and>
      torn_tail j tail)"

definition journal_sound :: "int \<Rightarrow> journal \<Rightarrow> directory \<Rightarrow> bool" where
  "journal_sound c j d \<longleftrightarrow> memory_sound j \<and> file_sound c j (journal_bytes d) \<and>
    (jn_unrolled j \<noteq> None \<longrightarrow> jm_get d JOURNAL_FILE \<noteq> None)"

lemma file_soundE:
  assumes "file_sound c j bytes"
  obtains h k tail where "k \<le> length (jn_events j)" "\<And>e. e \<in> set (take k (jn_events j)) \<Longrightarrow> event_sequence e \<le> c"
    "h \<or> jn_firstRetained j + int k = 1"
    "bytes = journal_text h (jn_firstRetained j + int k) (drop k (jn_events j)) @ tail"
    "\<And>n. jn_unrolled j = Some n \<Longrightarrow> n = length (journal_text h (jn_firstRetained j + int k) (drop k (jn_events j)))"
    "torn_tail j tail"
  using assms unfolding file_sound_def by blast

lemma file_soundI:
  assumes "k \<le> length (jn_events j)" "\<And>e. e \<in> set (take k (jn_events j)) \<Longrightarrow> event_sequence e \<le> c"
    "h \<or> jn_firstRetained j + int k = 1"
    "bytes = journal_text h (jn_firstRetained j + int k) (drop k (jn_events j)) @ tail"
    "\<And>n. jn_unrolled j = Some n \<Longrightarrow> n = length (journal_text h (jn_firstRetained j + int k) (drop k (jn_events j)))"
    "torn_tail j tail"
  shows "file_sound c j bytes"
  using assms unfolding file_sound_def by blast

lemma set_bytes_get: "jm_get d JOURNAL_FILE \<noteq> None \<Longrightarrow> journal_bytes (set_bytes JOURNAL_FILE b d) = b"
    "jm_get (set_bytes n b d) JOURNAL_FILE = None \<longleftrightarrow> jm_get d JOURNAL_FILE = None"
  by (auto simp: journal_bytes_def set_bytes_def split: option.splits)

section \<open>Reopening\<close>

lemma replay_bytes:
  assumes "\<not> oe_readFails en" "\<not> oe_truncateFails en" "committed_lines (journal_bytes d) = (ls, kept)"
    and "replay_lines ls = Inr (es, n)"
  shows "\<exists>d'. journal_replay en d = (Inr (es, n), d') \<and> journal_bytes d' = kept \<and>
    (jm_get d' JOURNAL_FILE = None \<longleftrightarrow> jm_get d JOURNAL_FILE = None)"
proof (cases "jm_get d JOURNAL_FILE")
  case None
  then have "ls = [] \<and> kept = []" using assms(3) by (simp add: journal_bytes_def committed_lines_def pop_empty_def)
  then show ?thesis using assms(1,4) None by (auto simp: journal_replay_def replay_lines_def journal_bytes_def)
next
  case (Some f)
  then have b: "journal_bytes d = fl_bytes f" by (simp add: journal_bytes_def)
  show ?thesis
    using assms Some b set_bytes_get(1) [of d kept] set_bytes_get(2) [where n = JOURNAL_FILE and b = kept and d = d]
    by (cases "kept = fl_bytes f") (auto simp: journal_replay_def)
qed

lemma option_case_id: "(case x of None \<Rightarrow> None | Some e \<Rightarrow> Some e) = x"
  by (cases x) simp_all

lemma new_journal_sound:
  assumes "events_from n es" "1 \<le> n"
  shows "\<exists>j. new_journal ep es n = Inr j \<and> memory_sound j \<and> jn_events j = es \<and> jn_firstRetained j = n \<and>
    jn_unrolled j = None \<and> jn_ownerEpoch j = ep"
proof -
  obtain ix where ix: "index_all es [] = Inr ix" "jm_ok ix" "\<And>k. jm_get ix k = latest_with_key k es"
    using index_all_events [OF assms(1), of "[]"] by (auto simp: option_case_id cong: option.case_cong)
  have "event_sequence (last es) = n + int (length es) - 1" if "es \<noteq> []"
  proof -
    have "event_sequence (es ! (length es - 1)) = n + int (length es - 1)"
      using events_from_nth [OF assms(1), of "length es - 1"] that by (auto dest: event_okD(1))
    moreover have "int (length es - 1) = int (length es) - 1" using that by (cases es) simp_all
    ultimately show ?thesis using that by (simp add: last_conv_nth)
  qed
  with ix assms show ?thesis by (simp add: new_journal_def memory_sound_def)
qed

text \<open>The first event behind the tail, if the torn line was complete.\<close>

lemma reopen_text:
  assumes "events_from n es" "1 \<le> n" "h \<or> n = 1"
    and "\<not> oe_readFails en" "\<not> oe_truncateFails en" "journal_bytes d = journal_text h n es"
  shows "\<exists>j d'. journal_open en ep d = (Inr j, d') \<and> memory_sound j \<and> jn_events j = es \<and> jn_firstRetained j = n \<and>
    jn_unrolled j = None \<and> journal_bytes d' = journal_text h n es"
proof -
  have ok: "\<And>x. x \<in> set ((if h then [journal_header n] else []) @ es) \<Longrightarrow> wf_json x"
    using events_from_member [OF assms(1)] by (auto simp: journal_header_def)
  have "committed_lines (journal_bytes d) =
      (map stringify ((if h then [journal_header n] else []) @ es), journal_text h n es)"
    using json_line.read_back [where xs = "(if h then [journal_header n] else []) @ es" and t = "[]", OF ok] assms(6)
    by (simp add: journal_text_def)
  from replay_bytes [OF assms(4,5) this replay_lines_read [OF assms(1-3)]] new_journal_sound [OF assms(1,2), of ep]
  show ?thesis by (auto simp: journal_open_def)
qed

lemma reopen_torn:
  assumes "events_from n es" "1 \<le> n" "h \<or> n = 1" "event_ok (n + int (length es)) e"
    and "\<not> oe_readFails en" "\<not> oe_truncateFails en" "journal_bytes d = journal_text h n es @ take m (event_line e)"
  shows "\<exists>j d' es'. journal_open en ep d = (Inr j, d') \<and> memory_sound j \<and> jn_events j = es' \<and> jn_firstRetained j = n \<and>
    jn_unrolled j = None \<and> journal_bytes d' = journal_text h n es' \<and> (es' = es \<or> es' = es @ [e])"
proof -
  let ?hd = "if h then [journal_header n] else []"
  have ok: "\<And>x. x \<in> set (?hd @ es) \<Longrightarrow> wf_json x"
    using events_from_member [OF assms(1)] by (auto simp: journal_header_def)
  have "\<exists>es'. committed_lines (journal_bytes d) = (map stringify (?hd @ es'), journal_text h n es') \<and>
      (es' = es \<or> es' = es @ [e])"
  proof (cases "m \<le> length (stringify e)")
    case True
    then show ?thesis
      using json_line.read_torn [where xs = "?hd @ es" and k = m, OF ok event_okD(2) [OF assms(4)]] assms(7)
      by (intro exI [of _ es]) (simp add: journal_text_def event_line_def)
  next
    case False
    then show ?thesis
      using json_line.read_torn [where xs = "?hd @ es" and k = m, OF ok event_okD(2) [OF assms(4)]] assms(7)
      by (intro exI [of _ "es @ [e]"]) (simp add: journal_text_def event_line_def)
  qed
  then obtain es' where es': "committed_lines (journal_bytes d) = (map stringify (?hd @ es'), journal_text h n es')"
    "es' = es \<or> es' = es @ [e]" by blast
  have "events_from n es'" using es'(2) assms(1,4) by (auto simp: events_from_append)
  from replay_bytes [OF assms(5,6) es'(1) replay_lines_read [OF this assms(2,3)]] new_journal_sound [OF this assms(2), of ep]
  show ?thesis using es'(2) by (auto simp: journal_open_def)
qed

definition reopened :: "int \<Rightarrow> journal \<Rightarrow> journal \<Rightarrow> bool" where
  "reopened c j j' \<longleftrightarrow> (\<exists>k. k \<le> length (jn_events j) \<and> (\<forall>e \<in> set (take k (jn_events j)). event_sequence e \<le> c) \<and>
     jn_firstRetained j' = jn_firstRetained j + int k \<and>
     (jn_events j' = drop k (jn_events j) \<or>
      (\<exists>e. jn_unrolled j \<noteq> None \<and> event_sequence e = jn_currentSequence j + 1 \<and>
           jn_events j' = drop k (jn_events j) @ [e])))"

lemma reopen_sound:
  assumes "memory_sound j" "file_sound c j (journal_bytes d)" "\<not> oe_readFails en" "\<not> oe_truncateFails en"
  shows "\<exists>j' d'. journal_open en ep d = (Inr j', d') \<and> journal_sound c j' d' \<and> reopened c j j'"
proof -
  from assms(2) obtain h k tail where f: "k \<le> length (jn_events j)" "\<And>e. e \<in> set (take k (jn_events j)) \<Longrightarrow> event_sequence e \<le> c"
    "h \<or> jn_firstRetained j + int k = 1"
    "journal_bytes d = journal_text h (jn_firstRetained j + int k) (drop k (jn_events j)) @ tail" "torn_tail j tail"
    by (elim file_soundE) blast
  let ?n = "jn_firstRetained j + int k" and ?es = "drop k (jn_events j)"
  have m: "events_from ?n ?es" "1 \<le> ?n" "jn_currentSequence j + 1 = ?n + int (length ?es)"
    using assms(1) f(1) events_from_drop [of _ "jn_events j" k] by (auto simp: memory_sound_def)
  have "\<exists>j' d' es'. journal_open en ep d = (Inr j', d') \<and> memory_sound j' \<and> jn_events j' = es' \<and> jn_firstRetained j' = ?n \<and>
    jn_unrolled j' = None \<and> journal_bytes d' = journal_text h ?n es' \<and>
    (es' = ?es \<or> (\<exists>e. jn_unrolled j \<noteq> None \<and> event_sequence e = jn_currentSequence j + 1 \<and> es' = ?es @ [e]))"
    using f(5) unfolding torn_tail_def
  proof (elim disjE conjE exE)
    assume "tail = []"
    with reopen_text [OF m(1,2) f(3) assms(3,4), of d ep] f(4) show ?thesis by auto
  next
    fix e p assume e: "jn_unrolled j \<noteq> None" "event_ok (jn_currentSequence j + 1) e" "tail = take p (event_line e)"
    with reopen_torn [OF m(1,2) f(3) _ assms(3,4), of e d p ep] f(4) m(3) event_okD(1) [OF e(2)] show ?thesis by auto
  qed
  then obtain j' d' es' where r: "journal_open en ep d = (Inr j', d')" "memory_sound j'" "jn_events j' = es'"
    "jn_firstRetained j' = ?n" "jn_unrolled j' = None" "journal_bytes d' = journal_text h ?n es'"
    "es' = ?es \<or> (\<exists>e. jn_unrolled j \<noteq> None \<and> event_sequence e = jn_currentSequence j + 1 \<and> es' = ?es @ [e])" by blast
  have "file_sound c j' (journal_bytes d')"
    by (rule file_soundI [of 0 _ _ h _ "[]"]) (use r f(3) in \<open>auto simp: torn_tail_def\<close>)
  with r f(1,2) show ?thesis by (auto simp: journal_sound_def reopened_def)
qed

section \<open>Appending keeps the journal sound\<close>

definition same_memory :: "journal \<Rightarrow> journal \<Rightarrow> bool" where
  "same_memory j j' \<longleftrightarrow> j' = j\<lparr>jn_unrolled := jn_unrolled j'\<rparr>"

lemma same_memoryD:
  assumes "same_memory j j'"
  shows "jn_events j' = jn_events j" "jn_firstRetained j' = jn_firstRetained j"
    "jn_currentSequence j' = jn_currentSequence j" "jn_index j' = jn_index j" "jn_listeners j' = jn_listeners j"
    "jn_delivered j' = jn_delivered j" "jn_ownerEpoch j' = jn_ownerEpoch j" "memory_sound j' = memory_sound j"
proof -
  from assms obtain u where "j' = j\<lparr>jn_unrolled := u\<rparr>" by (auto simp: same_memory_def)
  then show "jn_events j' = jn_events j" "jn_firstRetained j' = jn_firstRetained j"
    "jn_currentSequence j' = jn_currentSequence j" "jn_index j' = jn_index j" "jn_listeners j' = jn_listeners j"
    "jn_delivered j' = jn_delivered j" "jn_ownerEpoch j' = jn_ownerEpoch j" "memory_sound j' = memory_sound j"
    by (simp_all add: memory_sound_def)
qed

lemma same_memory_refl [simp]: "same_memory j j" "same_memory j (j\<lparr>jn_unrolled := u\<rparr>)"
  by (simp_all add: same_memory_def)

lemma same_memory_trans: "same_memory j j1 \<Longrightarrow> same_memory j1 j2 \<Longrightarrow> same_memory j j2"
  unfolding same_memory_def by (cases j; cases j1; cases j2) simp

text \<open>The committed text, up to where earlier compactions of the file have reached.\<close>

definition holds :: "int \<Rightarrow> journal \<Rightarrow> string \<Rightarrow> bool" where
  "holds c j t \<longleftrightarrow> (\<exists>h k. k \<le> length (jn_events j) \<and> (\<forall>e \<in> set (take k (jn_events j)). event_sequence e \<le> c) \<and>
     (h \<or> jn_firstRetained j + int k = 1) \<and> t = journal_text h (jn_firstRetained j + int k) (drop k (jn_events j)))"

lemma file_sound_iff:
  "file_sound c j bytes \<longleftrightarrow>
    (\<exists>t tail. holds c j t \<and> bytes = t @ tail \<and> (\<forall>n. jn_unrolled j = Some n \<longrightarrow> n = length t) \<and> torn_tail j tail)"
  unfolding file_sound_def holds_def by blast

lemma holds_same: "same_memory j j' \<Longrightarrow> holds c j' t = holds c j t"
  by (simp add: holds_def same_memoryD)

lemma holds_commit:
  assumes "holds c j t" "jn_events j' = jn_events j @ [e]" "jn_firstRetained j' = jn_firstRetained j"
  shows "holds c j' (t @ event_line e)"
proof -
  from assms(1) obtain h k where k: "k \<le> length (jn_events j)" "\<forall>e \<in> set (take k (jn_events j)). event_sequence e \<le> c"
    "h \<or> jn_firstRetained j + int k = 1" "t = journal_text h (jn_firstRetained j + int k) (drop k (jn_events j))"
    by (auto simp: holds_def)
  show ?thesis
    unfolding holds_def
    by (rule exI [of _ h], rule exI [of _ k]) (use k assms(2,3) in \<open>simp add: journal_text_snoc\<close>)
qed

lemma sound_clean:
  assumes "memory_sound j" "holds c j (journal_bytes d)" "jn_unrolled j = None"
  shows "journal_sound c j d"
  using assms by (auto simp: journal_sound_def file_sound_iff torn_tail_def)

lemma sound_remembered:
  assumes "memory_sound j" "holds c j t" "jn_unrolled j = Some (length t)" "journal_bytes d = t @ tail"
    "torn_tail j tail" "jm_get d JOURNAL_FILE \<noteq> None"
  shows "journal_sound c j d"
  using assms by (auto simp: journal_sound_def file_sound_iff)

lemma repair_sound:
  assumes "journal_sound c j d" "repair_unrolled_append en j d = (r, j1, d1)"
  shows "journal_sound c j1 d1 \<and> same_memory j j1 \<and>
    (r = Inr () \<longrightarrow> jn_unrolled j1 = None \<and> holds c j1 (journal_bytes d1)) \<and>
    (r \<noteq> Inr () \<longrightarrow> ae_statFails en \<or> ae_repairFails en)"
proof (cases "jn_unrolled j")
  case None
  with assms have e: "r = Inr ()" "j1 = j" "d1 = d" by (simp_all add: repair_unrolled_append_def)
  from assms(1) None have "holds c j (journal_bytes d)" by (auto simp: journal_sound_def file_sound_iff torn_tail_def)
  with assms(1) e None show ?thesis by simp
next
  case (Some n)
  from assms(1) Some obtain f where f: "jm_get d JOURNAL_FILE = Some f" by (auto simp: journal_sound_def)
  then have b: "journal_bytes d = fl_bytes f" by (simp add: journal_bytes_def)
  from assms(1) Some obtain t tail where t: "holds c j t" "fl_bytes f = t @ tail" "n = length t" "torn_tail j tail"
    by (auto simp: journal_sound_def file_sound_iff b)
  let ?j = "j\<lparr>jn_unrolled := None\<rparr>"
  have h: "holds c ?j t" "memory_sound ?j" using t(1) assms(1) by (simp_all add: holds_def journal_sound_def memory_sound_def)
  have trunc: "journal_bytes (set_bytes JOURNAL_FILE t d) = t" using set_bytes_get(1) [of d t] f by simp
  show ?thesis
  proof (cases "ae_statFails en \<or> (tail \<noteq> [] \<and> ae_repairFails en)")
    case True
    then have "r = Inl TornAppend" "j1 = j" "d1 = d"
      using assms(2) Some f t by (auto simp: repair_unrolled_append_def b split: if_splits)
    with assms(1) True show ?thesis by auto
  next
    case False
    then have "r = Inr ()" "j1 = ?j" "d1 = (if tail \<noteq> [] then set_bytes JOURNAL_FILE t d else d)"
      using assms(2) Some f t by (auto simp: repair_unrolled_append_def b split: if_splits)
    moreover have "journal_bytes (if tail \<noteq> [] then set_bytes JOURNAL_FILE t d else d) = t" using trunc t(2) b by simp
    ultimately show ?thesis using h sound_clean [of ?j c d1] by simp
  qed
qed

definition close_ok :: "append_env \<Rightarrow> bool" where
  "close_ok en \<longleftrightarrow> (ae_closeFails en \<longrightarrow> ae_written en \<noteq> None \<or> ae_syncFails en)"

lemma next_event_ok:
  assumes "wf_json (JObj payload)"
  shows "event_ok (jn_currentSequence j + 1) (build_next_event en kind payload j)"
    "event_sequence (build_next_event en kind payload j) = jn_currentSequence j + 1"
  using assms by (auto simp: event_ok_def build_next_event_def event_sequence_def event_member_def)

lemma roll_back_sound:
  assumes "memory_sound j" "holds c j t" "jn_unrolled j = None" "jm_get d JOURNAL_FILE \<noteq> None"
    "event_ok (jn_currentSequence j + 1) e" "journal_bytes d = t @ take m (event_line e)"
    "roll_back en (length t) j d = (j', d')"
  shows "journal_sound c j' d' \<and> same_memory j j'"
proof (cases "ae_rollbackFails en")
  case True
  then have e: "j' = j\<lparr>jn_unrolled := Some (length t)\<rparr>" "d' = d" using assms(7) by (auto simp: roll_back_def)
  have "torn_tail j' (take m (event_line e))" using assms(5) e(1) by (auto simp: torn_tail_def)
  then show ?thesis
    using sound_remembered [of j' c t d' "take m (event_line e)"] assms e
    by (simp add: memory_sound_def holds_def)
next
  case False
  have "take (length t) (journal_bytes d) = t" using assms(6) by simp
  with False assms(7) have e: "j' = (if ae_resyncFails en then j\<lparr>jn_unrolled := Some (length t)\<rparr> else j)"
    "d' = set_bytes JOURNAL_FILE t d" by (auto simp: roll_back_def)
  have b: "journal_bytes d' = t" using set_bytes_get(1) [of d t] assms(4) e(2) by simp
  have g: "jm_get d' JOURNAL_FILE \<noteq> None" using set_bytes_get(2) [where n = JOURNAL_FILE and b = t and d = d] assms(4) e(2) by simp
  show ?thesis
  proof (cases "ae_resyncFails en")
    case True
    with sound_remembered [of j' c t d' "[]"] assms b e g show ?thesis by (simp add: memory_sound_def holds_def torn_tail_def)
  next
    case False
    with sound_clean [of j' c d'] assms b e show ?thesis by simp
  qed
qed

lemma commit_sound:
  assumes "memory_sound j" "event_ok (jn_currentSequence j + 1) e"
  shows "\<exists>j'. commit_event e j = (Inr e, j') \<and> memory_sound j' \<and> jn_events j' = jn_events j @ [e] \<and>
    jn_currentSequence j' = jn_currentSequence j + 1 \<and> jn_firstRetained j' = jn_firstRetained j \<and>
    jn_unrolled j' = jn_unrolled j \<and> jn_listeners j' = jn_listeners j \<and>
    jn_delivered j' = jn_delivered j @ map (\<lambda>l. (l, e)) (jn_listeners j)"
proof -
  have "events_from (jn_firstRetained j) (jn_events j @ [e])"
    using assms by (simp add: memory_sound_def events_from_append)
  with assms index_event [OF assms(2), of "jn_index j"] show ?thesis
    by (cases "indexed_key e") (auto simp: commit_event_def Let_def memory_sound_def latest_append event_okD(1))
qed

definition appended :: "journal \<Rightarrow> journal \<Rightarrow> json \<Rightarrow> bool" where
  "appended j j' e \<longleftrightarrow> event_sequence e = jn_currentSequence j + 1 \<and> jn_currentSequence j' = jn_currentSequence j + 1 \<and>
     jn_events j' = jn_events j @ [e] \<and> jn_firstRetained j' = jn_firstRetained j \<and> jn_listeners j' = jn_listeners j \<and>
     jn_delivered j' = jn_delivered j @ map (\<lambda>l. (l, e)) (jn_listeners j)"

lemma append_sound:
  assumes "journal_sound c j d" "wf_json (JObj payload)" "close_ok en"
    and "journal_append en kind payload j d = (r, j', d')"
  shows "journal_sound c j' d' \<and>
    (case r of Inl err \<Rightarrow> same_memory j j' | Inr e \<Rightarrow> e = build_next_event en kind payload j \<and> appended j j' e \<and> jn_unrolled j' = None)"
proof -
  obtain r1 j1 d1 where rep: "repair_unrolled_append en j d = (r1, j1, d1)" by (metis prod.exhaust)
  from repair_sound [OF assms(1) rep] have s1: "journal_sound c j1 d1" "same_memory j j1"
    "r1 = Inr () \<longrightarrow> jn_unrolled j1 = None \<and> holds c j1 (journal_bytes d1)" by auto
  show ?thesis
  proof (cases r1)
    case (Inl err)
    with assms(4) rep s1 show ?thesis by (auto simp: journal_append_def)
  next
    case (Inr u)
    with s1 have clean: "jn_unrolled j1 = None" "holds c j1 (journal_bytes d1)" by auto
    have m1: "memory_sound j1" using s1(1) by (simp add: journal_sound_def)
    let ?e = "build_next_event en kind payload j1"
    let ?d2 = "case jm_get d1 JOURNAL_FILE of
        None \<Rightarrow> jm_set JOURNAL_FILE \<lparr>fl_ino = ae_ino en, fl_bytes = []\<rparr> d1 | Some _ \<Rightarrow> d1"
    let ?t = "journal_bytes d1"
    have d2: "jm_get ?d2 JOURNAL_FILE \<noteq> None" "journal_bytes ?d2 = ?t"
      by (auto simp: journal_bytes_def split: option.splits)
    have e: "event_ok (jn_currentSequence j1 + 1) ?e" by (rule next_event_ok(1) [OF assms(2)])
    have same_e: "?e = build_next_event en kind payload j"
      using same_memoryD [OF s1(2)] by (simp add: build_next_event_def)
    have wrote: "jm_get (set_bytes JOURNAL_FILE b ?d2) JOURNAL_FILE \<noteq> None"
      "journal_bytes (set_bytes JOURNAL_FILE b ?d2) = b" for b
      using set_bytes_get(1) [OF d2(1), of b] set_bytes_get(2) [where n = JOURNAL_FILE and b = b and d = ?d2] d2(1) by simp_all
    have rolled: ?thesis if "(r, j', d') = (Inl IoFault, roll_back en (length ?t) j1 (set_bytes JOURNAL_FILE (?t @ take m (event_line ?e)) ?d2))" for m
    proof -
      obtain j2 d2' where rb: "roll_back en (length ?t) j1 (set_bytes JOURNAL_FILE (?t @ take m (event_line ?e)) ?d2) = (j2, d2')"
        by (metis prod.exhaust)
      from roll_back_sound [OF m1 clean(2,1) wrote(1) e wrote(2) rb] that rb s1(2) show ?thesis
        by (auto intro: same_memory_trans)
    qed
    consider "ae_openFails en" | "\<not> ae_openFails en" "ae_handleStatFails en"
      | k where "\<not> ae_openFails en" "\<not> ae_handleStatFails en" "ae_written en = Some k"
      | "\<not> ae_openFails en" "\<not> ae_handleStatFails en" "ae_written en = None" "ae_syncFails en"
      | "\<not> ae_openFails en" "\<not> ae_handleStatFails en" "ae_written en = None" "\<not> ae_syncFails en" by blast
    then show ?thesis
    proof cases
      case 1
      with assms(4) rep Inr s1 show ?thesis by (auto simp: journal_append_def Let_def)
    next
      case 2
      with assms(4) rep Inr have "r = Inl IoFault" "j' = j1" "d' = ?d2" by (simp_all add: journal_append_def Let_def)
      with sound_clean [OF m1 _ clean(1), of c ?d2] clean d2 s1(2) show ?thesis by simp
    next
      case (3 k)
      with assms(4) rep Inr d2(2) show ?thesis by (intro rolled [of k]) (simp add: journal_append_def Let_def)
    next
      case 4
      with assms(4) rep Inr d2(2) show ?thesis
        by (intro rolled [of "length (event_line ?e)"]) (simp add: journal_append_def Let_def)
    next
      case 5
      let ?d3 = "set_bytes JOURNAL_FILE (?t @ event_line ?e) ?d2"
      obtain j2 where j2: "commit_event ?e j1 = (Inr ?e, j2)" "memory_sound j2" "jn_events j2 = jn_events j1 @ [?e]"
        "jn_currentSequence j2 = jn_currentSequence j1 + 1" "jn_firstRetained j2 = jn_firstRetained j1"
        "jn_unrolled j2 = jn_unrolled j1" "jn_listeners j2 = jn_listeners j1"
        "jn_delivered j2 = jn_delivered j1 @ map (\<lambda>l. (l, ?e)) (jn_listeners j1)"
        using commit_sound [OF m1 e] by blast
      have res: "r = Inr ?e" "j' = j2" "d' = ?d3"
        using assms(3,4) rep Inr 5 d2(2) j2(1) by (auto simp: journal_append_def Let_def close_ok_def)
      have "holds c j2 (journal_bytes ?d3)" using holds_commit [OF clean(2) j2(3,5)] wrote(2) by simp
      with sound_clean [OF j2(2) this] res j2 clean(1) same_e next_event_ok(2) [OF assms(2), where j = j and en = en and kind = kind] same_memoryD [OF s1(2)]
      show ?thesis by (simp add: appended_def)
    qed
  qed
qed

section \<open>Compaction keeps the journal sound\<close>

text \<open>
  The compactions considered: nobody else writes to the directory, the checks after the rename pass,
  and the directory can be synced, unless no torn tail is remembered.
\<close>

definition compact_ok :: "pub_env \<Rightarrow> string \<Rightarrow> journal \<Rightarrow> bool" where
  "compact_ok en tmp j \<longleftrightarrow> undisturbed en \<and> tmp \<noteq> JOURNAL_FILE \<and> \<not> pe_fails en StatPublished \<and>
     \<not> pe_fails en CheckPublished \<and> (pe_fails en SyncDirectory \<longrightarrow> jn_unrolled j = None)"

lemma take_while_sequence:
  assumes "events_from n es"
  shows "keep_from c es \<le> length es" "\<And>e. e \<in> set (take (keep_from c es) es) \<Longrightarrow> event_sequence e \<le> c"
proof -
  have t: "take (keep_from c es) es = takeWhile (\<lambda>e. \<not> event_sequence e > c) es"
    by (simp add: keep_from_def takeWhile_eq_take [symmetric])
  show "keep_from c es \<le> length es" by (simp add: keep_from_def length_takeWhile_le)
  show "event_sequence e \<le> c" if "e \<in> set (take (keep_from c es) es)" for e
    using that unfolding t by (auto dest: set_takeWhileD)
qed

lemma first_after_drop:
  assumes "memory_sound j" "k \<le> length (jn_events j)"
  shows "(case drop k (jn_events j) of [] \<Rightarrow> jn_currentSequence j + 1 | e # _ \<Rightarrow> event_sequence e) = jn_firstRetained j + int k"
proof (cases "drop k (jn_events j)")
  case Nil
  then show ?thesis using assms by (simp add: memory_sound_def)
next
  case (Cons e es)
  then have "event_sequence e = jn_firstRetained j + int k"
    using events_from_drop [of "jn_firstRetained j" "jn_events j" k] assms by (auto simp: memory_sound_def dest: event_okD(1))
  with Cons show ?thesis by simp
qed

lemma latest_drop:
  assumes "events_from n es" "k \<le> length es"
  shows "latest_with_key key (drop k es) =
    (case latest_with_key key es of None \<Rightarrow> None | Some e \<Rightarrow> if event_sequence e < n + int k then None else Some e)"
proof -
  have es: "es = take k es @ drop k es" by simp
  have l: "latest_with_key key es = (case latest_with_key key (drop k es) of None \<Rightarrow> latest_with_key key (take k es) | Some e \<Rightarrow> Some e)"
    by (subst es, unfold latest_with_key_def rev_append find_append_case, rule refl)
  have "\<not> event_sequence e < n + int k" if "latest_with_key key (drop k es) = Some e" for e
  proof -
    have "e \<in> set (drop k es)" using that by (auto simp: latest_with_key_def dest!: find_first)
    then show ?thesis using events_from_member [OF events_from_drop [OF assms]] by fastforce
  qed
  moreover have "event_sequence e < n + int k" if "latest_with_key key (take k es) = Some e" for e
  proof -
    have "e \<in> set (take k es)" using that by (auto simp: latest_with_key_def dest!: find_first)
    moreover have "events_from n (take k es)" using events_from_append [of n "take k es" "drop k es"] assms by simp
    ultimately show ?thesis using events_from_member [of n "take k es" e] assms(2) by simp
  qed
  ultimately show ?thesis unfolding l by (auto split: option.splits)
qed

text \<open>What is dropped is what was covered; a failed compaction changes nothing in memory.\<close>

definition compacted :: "int \<Rightarrow> journal \<Rightarrow> journal \<Rightarrow> bool" where
  "compacted covered j j' \<longleftrightarrow> jn_events j' = drop (keep_from covered (jn_events j)) (jn_events j) \<and>
     jn_firstRetained j' = jn_firstRetained j + int (keep_from covered (jn_events j)) \<and>
     jn_currentSequence j' = jn_currentSequence j \<and> jn_unrolled j' = None"

lemma sound_directory:
  "journal_sound c j d \<Longrightarrow> jm_get x JOURNAL_FILE = jm_get d JOURNAL_FILE \<Longrightarrow> journal_sound c j x"
  by (simp add: journal_sound_def journal_bytes_def)

lemma compact_sound:
  assumes "journal_sound c j d" "covered \<le> c" "compact_ok en tmp j"
    and "journal_compact en tmp covered j d = (r, j', ds)"
  shows "journal_sound c j' (last ds) \<and> (\<forall>x \<in> set ds. file_sound c j (journal_bytes x) \<or> file_sound c (j\<lparr>jn_unrolled := None\<rparr>) (journal_bytes x)) \<and>
    (j' = j \<or> compacted covered j j' \<and> r = Inr ())"
proof (cases "keep_from covered (jn_events j) = 0")
  case True
  with assms(1,4) show ?thesis by (auto simp: journal_compact_def Let_def journal_sound_def)
next
  case False
  let ?k = "keep_from covered (jn_events j)"
  let ?es = "drop ?k (jn_events j)" and ?n = "jn_firstRetained j + int ?k"
  from assms(1) have m: "memory_sound j" by (simp add: journal_sound_def)
  then have ef: "events_from (jn_firstRetained j) (jn_events j)" by (simp add: memory_sound_def)
  note kept = take_while_sequence [OF ef, where c = covered]
  let ?body = "compacted_text ?n ?es"
  have body: "?body = journal_text True ?n ?es" by (simp add: compacted_text_def journal_text_def)
  obtain res where res: "replace_runtime_file en ?body tmp JOURNAL_FILE d = res" by blast
  obtain b where b: "res = (fst res, snd res)" by simp
  have new: "holds c j ?body"
    unfolding holds_def body
    by (rule exI [of _ True], rule exI [of _ ?k]) (use kept assms(2) in force)
  have out: "outcome_kept JOURNAL_FILE d res \<or> outcome_published en ?body JOURNAL_FILE d res"
    using publication_outcome [of en tmp JOURNAL_FILE ?body d] assms(3) res
    by (auto simp: compact_ok_def outcome_ok_def outcome_lost_def)
  have ne: "snd res \<noteq> []" using replace_states [of en ?body tmp JOURNAL_FILE d] res by simp
  have bytes: "file_sound c j (journal_bytes x)" if "jm_get x JOURNAL_FILE = jm_get d JOURNAL_FILE" for x
    using assms(1) that by (simp add: journal_sound_def journal_bytes_def)
  let ?clean = "j\<lparr>jn_unrolled := None\<rparr>"
  have bytes': "file_sound c ?clean (journal_bytes x)" if "jm_get x JOURNAL_FILE = Some \<lparr>fl_ino = pe_ino en, fl_bytes = ?body\<rparr>" for x
    using new that by (auto simp: file_sound_iff torn_tail_def journal_bytes_def holds_def)
  have states: "\<forall>x \<in> set (snd res). file_sound c j (journal_bytes x) \<or> file_sound c ?clean (journal_bytes x)"
    using out bytes bytes' unfolding outcome_kept_def outcome_published_def list_all_iff by blast
  have first: "(case ?es of [] \<Rightarrow> jn_currentSequence j + 1 | e # _ \<Rightarrow> event_sequence e) = ?n" by (rule first_after_drop [OF m kept(1)])
  have comp: "journal_compact en tmp covered j d =
      (case res of (Inl st, ds) \<Rightarrow> (Inl (PublishFault st), j, ds)
       | (Inr replaced, ds) \<Rightarrow> if \<not> replaced then (Inr (), j, ds)
          else (Inr (), j\<lparr>jn_events := ?es, jn_firstRetained := ?n, jn_unrolled := None,
                jn_index := filter (\<lambda>(k, e). \<not> event_sequence e < ?n) (jn_index j)\<rparr>, ds))"
    unfolding journal_compact_def Let_def first using False res by simp
  show ?thesis
  proof (cases "fst res = Inr True")
    case True
    let ?j = "j\<lparr>jn_events := ?es, jn_firstRetained := ?n, jn_unrolled := None,
                jn_index := filter (\<lambda>(k, e). \<not> event_sequence e < ?n) (jn_index j)\<rparr>"
    have r: "r = Inr ()" "j' = ?j" "ds = snd res" using comp assms(4) True by (auto split: prod.splits)
    have "jm_get (last ds) JOURNAL_FILE = Some \<lparr>fl_ino = pe_ino en, fl_bytes = ?body\<rparr>"
      using out True r(3) by (auto simp: outcome_kept_def outcome_published_def settled_def)
    then have hb: "journal_bytes (last ds) = ?body" by (simp add: journal_bytes_def)
    have "memory_sound ?j"
      using m kept(1) events_from_drop [OF ef kept(1)] latest_drop [OF ef kept(1)]
      by (auto simp: memory_sound_def jm_get_filter split: option.splits)
    moreover have "holds c ?j ?body"
      unfolding holds_def body by (rule exI [of _ True], rule exI [of _ 0]) simp
    ultimately have "journal_sound c ?j (last ds)" using sound_clean [where j = ?j and c = c and d = "last ds"] hb by simp
    then show ?thesis using states r by (simp add: compacted_def)
  next
    case no: False
    have r: "j' = j" "ds = snd res" using comp assms(4) no by (auto split: sum.splits prod.splits if_splits)
    have "journal_sound c j (last ds)"
      using out
    proof
      assume "outcome_kept JOURNAL_FILE d res"
      then have "jm_get (last ds) JOURNAL_FILE = jm_get d JOURNAL_FILE" using ne r(2) by (auto simp: outcome_kept_def list_all_iff)
      with sound_directory [OF assms(1)] show ?thesis .
    next
      assume p: "outcome_published en ?body JOURNAL_FILE d res"
      with no have "pe_fails en SyncDirectory" by (auto simp: outcome_published_def)
      with assms(3) have u: "jn_unrolled j = None" by (simp add: compact_ok_def)
      from p r(2) have "journal_bytes (last ds) = ?body" by (simp add: outcome_published_def settled_def journal_bytes_def)
      with sound_clean [OF m _ u, where c = c and d = "last ds"] new show ?thesis by simp
    qed
    with r states show ?thesis by simp
  qed
qed

end
