(* ===== verification/JournalProperties.thy ===== *)
theory JournalProperties
  imports Journal
begin

text \<open>
  Runs of the control journal over a project's runtime directory: appends and compactions with the
  faults of \<open>append_env\<close> and \<open>pub_env\<close>, restarts at any moment (between two operations, or in any
  state a compaction takes the directory through), and changes of other files in the directory. A
  process that dies during an append leaves what an append leaves whose write and rollback fail. Then
  the properties: what a restart finds, what a failed append leaves, what reading and looking up give,
  what compaction drops, what recovery closes.
\<close>

section \<open>Runs\<close>

text \<open>\<open>c\<close> bounds the sequence numbers that compactions were asked to cover.\<close>

inductive journal_run :: "int \<Rightarrow> journal \<Rightarrow> directory \<Rightarrow> bool" for c :: int where
  run_start: "jm_get d JOURNAL_FILE = None \<Longrightarrow> journal_open en ep d = (Inr j, d') \<Longrightarrow> journal_run c j d'"
| run_append: "journal_run c j d \<Longrightarrow> wf_json (JObj payload) \<Longrightarrow> close_ok en \<Longrightarrow>
    journal_append en kind payload j d = (r, j', d') \<Longrightarrow> journal_run c j' d'"
| run_compact: "journal_run c j d \<Longrightarrow> covered \<le> c \<Longrightarrow> compact_ok en tmp j \<Longrightarrow>
    journal_compact en tmp covered j d = (r, j', ds) \<Longrightarrow> journal_run c j' (last ds)"
| run_restart: "journal_run c j d \<Longrightarrow> journal_open en ep d = (Inr j', d') \<Longrightarrow> journal_run c j' d'"
| run_crash: "journal_run c j d \<Longrightarrow> covered \<le> c \<Longrightarrow> compact_ok en tmp j \<Longrightarrow>
    journal_compact en tmp covered j d = (r, j', ds) \<Longrightarrow> x \<in> set ds \<Longrightarrow>
    journal_open en' ep x = (Inr j'', x') \<Longrightarrow> journal_run c j'' x'"
| run_listener: "journal_run c j d \<Longrightarrow> journal_run c (journal_subscribe l j) d"
| run_silence: "journal_run c j d \<Longrightarrow> journal_run c (journal_unsubscribe l j) d"
| run_other: "journal_run c j d \<Longrightarrow> jm_get d' JOURNAL_FILE = jm_get d JOURNAL_FILE \<Longrightarrow> journal_run c j d'"

lemma open_needs: "journal_open en ep d = (Inr j, d') \<Longrightarrow> \<not> oe_readFails en"
  by (auto simp: journal_open_def journal_replay_def)

text \<open>A truncation that fails refuses the start; one that is not needed cannot matter.\<close>

definition calm_open :: "open_env" where
  "calm_open = \<lparr>oe_readFails = False, oe_truncateFails = False\<rparr>"

lemma open_calm: "journal_open en ep d = (Inr j, d') \<Longrightarrow> journal_open calm_open ep d = (Inr j, d')"
  by (auto simp: journal_open_def journal_replay_def calm_open_def Let_def split: option.splits prod.splits if_splits)

lemma reopen_calm:
  assumes "journal_open en ep d = (Inr j', d')" "memory_sound j" "file_sound c j (journal_bytes d)"
  shows "journal_sound c j' d' \<and> reopened c j j'"
  using reopen_sound [OF assms(2,3), of calm_open ep] open_calm [OF assms(1)] by (simp add: calm_open_def)

lemma sound_listeners:
  "journal_sound c (j\<lparr>jn_listeners := ls\<rparr>) d = journal_sound c j d"
  by (simp add: journal_sound_def memory_sound_def file_sound_iff holds_def torn_tail_def)

lemma run_sound: "journal_run c j d \<Longrightarrow> journal_sound c j d"
proof (induction rule: journal_run.induct)
  case (run_start d en ep j d')
  then have "journal_bytes d = journal_text False 1 []" by (simp add: journal_bytes_def journal_text_def)
  from reopen_text [OF _ _ _ _ _ this, of calm_open ep] open_calm [OF run_start(2)]
  have "memory_sound j \<and> jn_events j = [] \<and> jn_firstRetained j = 1 \<and> jn_unrolled j = None \<and> journal_bytes d' = []"
    by (auto simp: calm_open_def journal_text_def)
  moreover from this have "holds c j (journal_bytes d')"
    unfolding holds_def by (intro exI [of _ False] exI [of _ 0]) (simp add: journal_text_def)
  ultimately show ?case using sound_clean by blast
next
  case (run_append j d payload en kind r j' d')
  then show ?case using append_sound by blast
next
  case (run_compact j d covered en tmp r j' ds)
  then show ?case using compact_sound by blast
next
  case (run_restart j d en ep j' d')
  then show ?case using reopen_calm [of en ep d j' d' j c] by (auto simp: journal_sound_def)
next
  case (run_crash j d covered en tmp r j' ds x en' ep j'' x')
  have m: "memory_sound j" "memory_sound (j\<lparr>jn_unrolled := None\<rparr>)" using run_crash by (auto simp: journal_sound_def memory_sound_def)
  from compact_sound [OF run_crash(7,2,3,4)] run_crash(5)
  have "file_sound c j (journal_bytes x) \<or> file_sound c (j\<lparr>jn_unrolled := None\<rparr>) (journal_bytes x)" by blast
  then show ?case using reopen_calm [OF run_crash(6) m(1)] reopen_calm [OF run_crash(6) m(2)] by blast
next
  case (run_listener j d l)
  then show ?case by (simp add: journal_subscribe_def sound_listeners)
next
  case (run_silence j d l)
  then show ?case by (simp add: journal_unsubscribe_def sound_listeners)
next
  case (run_other j d d')
  then show ?case using sound_directory by blast
qed

section \<open>What a restart finds\<close>

lemma reopened_clean: "reopened c (j\<lparr>jn_unrolled := None\<rparr>) j' \<Longrightarrow> reopened c j j'"
  by (auto simp: reopened_def)

text \<open>What the directory can hold when the process dies: what it holds now, or in the middle of a compaction.\<close>

definition crash_state :: "int \<Rightarrow> journal \<Rightarrow> directory \<Rightarrow> directory \<Rightarrow> bool" where
  "crash_state c j d x \<longleftrightarrow> x = d \<or>
     (\<exists>en tmp covered r j' ds. covered \<le> c \<and> compact_ok en tmp j \<and>
        journal_compact en tmp covered j d = (r, j', ds) \<and> x \<in> set ds)"


section \<open>A failed append\<close>

definition faultless :: "append_env \<Rightarrow> bool" where
  "faultless en \<longleftrightarrow> \<not> ae_statFails en \<and> \<not> ae_repairFails en \<and> \<not> ae_openFails en \<and> \<not> ae_handleStatFails en \<and>
     ae_written en = None \<and> \<not> ae_syncFails en \<and> \<not> ae_closeFails en"

lemma append_succeeds:
  assumes "journal_sound c j d" "faultless en" "wf_json (JObj payload)"
  shows "\<exists>e j' d'. journal_append en kind payload j d = (Inr e, j', d') \<and> appended j j' e"
proof -
  obtain r1 j1 d1 where rep: "repair_unrolled_append en j d = (r1, j1, d1)" by (metis prod.exhaust)
  from repair_sound [OF assms(1) rep] assms(2) have r1: "r1 = Inr ()" "memory_sound j1"
    by (auto simp: faultless_def journal_sound_def)
  obtain j2 where j2: "commit_event (build_next_event en kind payload j1) j1 = (Inr (build_next_event en kind payload j1), j2)"
    using commit_sound [OF r1(2) next_event_ok(1) [OF assms(3)]] by blast
  obtain r j' d' where res: "journal_append en kind payload j d = (r, j', d')" by (metis prod.exhaust)
  have "close_ok en" using assms(2) by (simp add: faultless_def close_ok_def)
  from append_sound [OF assms(1,3) this res] have a: "case r of Inl err \<Rightarrow> True | Inr e \<Rightarrow> appended j j' e"
    by (auto split: sum.splits)
  have "\<exists>e. r = Inr e" using res rep r1(1) j2 assms(2) by (auto simp: journal_append_def faultless_def Let_def)
  with a res show ?thesis by auto
qed


section \<open>Reading and looking up\<close>

lemma read_drop:
  assumes "events_from n es"
  shows "filter (\<lambda>e. a < event_sequence e) es = drop (nat (a - n + 1)) es"
  using assms
proof (induction es arbitrary: n)
  case (Cons e es)
  have e: "event_sequence e = n" using Cons.prems by (auto dest: event_okD)
  show ?case
  proof (cases "a < n")
    case True
    have "filter (\<lambda>e. a < event_sequence e) (e # es) = e # es"
      using events_from_member [OF Cons.prems] True by (intro filter_True) fastforce
    with True show ?thesis by simp
  next
    case False
    then have "nat (a - n + 1) = Suc (nat (a - (n + 1) + 1))" by simp
    with False e Cons.IH [of "n + 1"] Cons.prems show ?thesis by simp
  qed
qed simp

lemma read_filter:
  assumes "memory_sound j"
  shows "journal_read a None j = filter (\<lambda>e. a < event_sequence e) (jn_events j)"
    and "0 \<le> l \<Longrightarrow> journal_read a (Some l) j = take (nat l) (filter (\<lambda>e. a < event_sequence e) (jn_events j))"
proof -
  from assms have ef: "events_from (jn_firstRetained j) (jn_events j)" by (simp add: memory_sound_def)
  note f = read_drop [OF ef, of a]
  consider "jn_events j = []" | e es where "jn_events j = e # es" "event_sequence e = jn_firstRetained j"
    using ef by (cases "jn_events j") (auto dest: event_okD)
  then have "journal_read a None j = drop (nat (a - jn_firstRetained j + 1)) (jn_events j) \<and>
      (0 \<le> l \<longrightarrow> journal_read a (Some l) j = take (nat l) (drop (nat (a - jn_firstRetained j + 1)) (jn_events j)))"
  proof cases
    case 2
    let ?s = "max 0 (a - jn_firstRetained j + 1)"
    have "nat (min (?s + l) (int (length (jn_events j))) - ?s) = min (nat l) (length (jn_events j) - nat ?s)"
      if "0 \<le> l" "\<not> int (length (jn_events j)) \<le> ?s" using that by linarith
    moreover have "take (min (nat l) (length (jn_events j) - nat ?s)) (drop (nat ?s) (jn_events j)) =
        take (nat l) (drop (nat ?s) (jn_events j))" by (simp add: min_def)
    moreover have "nat ?s = nat (a - jn_firstRetained j + 1)" by simp
    moreover have "\<not> ?s + l < 0" if "0 \<le> l" using that by simp
    moreover have "journal_read a v j = (if int (length (jn_events j)) \<le> ?s then []
        else js_slice ?s (map_option (\<lambda>l. ?s + l) v) (jn_events j))" for v
      using 2 by (simp add: journal_read_def Let_def)
    moreover have "drop (nat ?s) (jn_events j) = []" if "int (length (jn_events j)) \<le> ?s" using that by simp
    ultimately show ?thesis by (simp add: js_slice_def Let_def)
  qed (simp add: journal_read_def)
  then show "journal_read a None j = filter (\<lambda>e. a < event_sequence e) (jn_events j)"
    "0 \<le> l \<Longrightarrow> journal_read a (Some l) j = take (nat l) (filter (\<lambda>e. a < event_sequence e) (jn_events j))"
    unfolding f by auto
qed

text \<open>
  Reading is exact: after any run, \<open>read\<close> gives the retained events after the position asked for,
  in order, the first \<open>limit\<close> of them, and the lookup by idempotency key gives the latest retained
  event of the indexed kinds with that key.
\<close>
lemma journal_reads_exact:
  assumes "journal_run c j d" "0 \<le> limit"
  shows "journal_read a None j = filter (\<lambda>e. a < event_sequence e) (jn_events j) \<and>
    journal_read a (Some limit) j = take (nat limit) (filter (\<lambda>e. a < event_sequence e) (jn_events j)) \<and>
    find_by_idempotency_key key j = latest_with_key key (jn_events j) \<and>
    map event_sequence (jn_events j) = [jn_firstRetained j..jn_currentSequence j]"
proof -
  have m: "memory_sound j" using run_sound [OF assms(1)] by (simp add: journal_sound_def)
  have "map event_sequence es = [n..n + int (length es) - 1]" if "events_from n es" for n es
    using that
  proof (induction es arbitrary: n)
    case (Cons e es)
    then show ?case by (auto simp: upto.simps [of n] dest: event_okD(1) simp: algebra_simps)
  qed simp
  with m have "map event_sequence (jn_events j) = [jn_firstRetained j..jn_currentSequence j]"
    by (simp add: memory_sound_def)
  with read_filter [OF m] assms(2) m show ?thesis by (simp add: find_by_idempotency_key_def memory_sound_def)
qed

text \<open>
  Compaction drops what it may and nothing else: it keeps exactly the events after the covered
  sequence number and leaves the numbering alone, a reader at or after the covered position sees no
  difference, a key is forgotten only with its last event, and a compaction that fails or is aborted
  changes nothing in memory.
\<close>
lemma compaction_exact:
  assumes "journal_run c j d" "covered \<le> c" "compact_ok en tmp j"
    and "journal_compact en tmp covered j d = (r, j', ds)" "covered \<le> a"
  shows "journal_read a None j' = journal_read a None j \<and> jn_currentSequence j' = jn_currentSequence j \<and>
    (j' = j \<or> r = Inr () \<and> jn_events j' = filter (\<lambda>e. covered < event_sequence e) (jn_events j) \<and>
      find_by_idempotency_key key j' = (case find_by_idempotency_key key j of
         None \<Rightarrow> None | Some e \<Rightarrow> if event_sequence e \<le> covered then None else Some e))"
proof -
  have s: "journal_sound c j d" by (rule run_sound [OF assms(1)])
  have s': "journal_sound c j' (last ds)" by (rule run_sound [OF run_compact [OF assms(1-4)]])
  from s s' have m: "memory_sound j" "memory_sound j'" by (auto simp: journal_sound_def)
  then have ef: "events_from (jn_firstRetained j) (jn_events j)" by (simp add: memory_sound_def)
  from compact_sound [OF s assms(2-4)] consider "j' = j" | "compacted covered j j'" "r = Inr ()" by blast
  then show ?thesis
  proof cases
    case 2
    let ?k = "keep_from covered (jn_events j)"
    have k: "?k \<le> length (jn_events j)" by (rule take_while_sequence(1) [OF ef])
    have "filter (\<lambda>e. covered < event_sequence e) (drop ?k (jn_events j)) = drop ?k (jn_events j)"
    proof (cases "drop ?k (jn_events j)")
      case (Cons e es)
      have "drop ?k (jn_events j) = dropWhile (\<lambda>e. \<not> event_sequence e > covered) (jn_events j)"
        by (simp add: keep_from_def dropWhile_eq_drop)
      then have "\<not> \<not> event_sequence e > covered" using Cons dropWhile_eq_Cons_conv [of "\<lambda>e. \<not> event_sequence e > covered" "jn_events j" e es] by simp
      moreover have ed: "events_from (jn_firstRetained j + int ?k) (drop ?k (jn_events j))" by (rule events_from_drop [OF ef k])
      ultimately have "covered < jn_firstRetained j + int ?k" using Cons by (auto dest: event_okD(1))
      then show ?thesis using read_drop [OF ed, of covered] by simp
    qed simp
    moreover have "filter (\<lambda>e. covered < event_sequence e) (take ?k (jn_events j)) = []"
      using take_while_sequence(2) [OF ef, where c = covered] by (force simp: filter_empty_conv)
    ultimately have "filter (\<lambda>e. covered < event_sequence e) (take ?k (jn_events j) @ drop ?k (jn_events j)) = drop ?k (jn_events j)"
      unfolding filter_append by simp
    then have split: "filter (\<lambda>e. covered < event_sequence e) (jn_events j) = drop ?k (jn_events j)" by simp
    then have ev: "jn_events j' = filter (\<lambda>e. covered < event_sequence e) (jn_events j)"
      using 2(1) by (simp add: compacted_def)
    have "journal_read a None j' = journal_read a None j"
      using read_filter(1) [OF m(1), of a] read_filter(1) [OF m(2), of a] assms(5)
      by (auto simp: ev intro!: filter_cong)
    moreover have "find_by_idempotency_key key j' = (case find_by_idempotency_key key j of
         None \<Rightarrow> None | Some e \<Rightarrow> if event_sequence e < jn_firstRetained j + int ?k then None else Some e)"
      using latest_drop [OF ef k, of key] m ev split by (simp add: find_by_idempotency_key_def memory_sound_def)
    moreover have "event_sequence e < jn_firstRetained j + int ?k \<longleftrightarrow> event_sequence e \<le> covered"
      if "find_by_idempotency_key key j = Some e" for e
    proof -
      have "e \<in> set (jn_events j)" using that m(1) by (auto simp: find_by_idempotency_key_def memory_sound_def latest_with_key_def dest!: find_first)
      then consider "e \<in> set (take ?k (jn_events j))" | "e \<in> set (drop ?k (jn_events j))"
        by (metis Un_iff append_take_drop_id set_append)
      then show ?thesis
      proof cases
        case 1
        moreover have "events_from (jn_firstRetained j) (take ?k (jn_events j))"
          using events_from_append [of _ "take ?k (jn_events j)" "drop ?k (jn_events j)"] ef by simp
        ultimately show ?thesis
          using take_while_sequence(2) [OF ef, where c = covered, OF 1] events_from_member [of _ "take ?k (jn_events j)" e] k by simp
      next
        case 2
        then have "covered < event_sequence e" using split by (metis (mono_tags, lifting) mem_Collect_eq set_filter)
        with events_from_member [OF events_from_drop [OF ef k] 2] show ?thesis by simp
      qed
    qed
    ultimately show ?thesis using 2 ev by (auto simp: compacted_def split: option.splits)
  qed simp
qed

section \<open>A close that fails after the sync\<close>

text \<open>
  The line is durable but the journal does not know it: the next append repeats its sequence number,
  and the file can no longer be opened.
\<close>

lemma close_fault_corrupts:
  assumes "journal_run c j d" "jn_unrolled j = None" "wf_json (JObj p)" "wf_json (JObj p')"
    and "faultless (en\<lparr>ae_closeFails := False\<rparr>)" "ae_closeFails en" "faultless en'"
  shows "\<exists>d1 e j2 d2 n. journal_append en kind p j d = (Inl IoFault, j, d1) \<and>
    journal_append en' kind' p' j d1 = (Inr e, j2, d2) \<and> fst (journal_open calm_open ep d2) = Inl (Corruption n)"
proof -
  let ?e = "build_next_event en kind p j" and ?e' = "build_next_event en' kind' p' j"
  from run_sound [OF assms(1)] assms(2) have m: "memory_sound j" and h: "holds c j (journal_bytes d)"
    by (auto simp: journal_sound_def file_sound_iff torn_tail_def)
  from h obtain hd k where t: "k \<le> length (jn_events j)" "hd \<or> jn_firstRetained j + int k = 1"
    "journal_bytes d = journal_text hd (jn_firstRetained j + int k) (drop k (jn_events j))" by (auto simp: holds_def)
  let ?n = "jn_firstRetained j + int k" and ?es = "drop k (jn_events j)"
  have ef: "events_from ?n (?es @ [?e])" "jn_currentSequence j + 1 = ?n + int (length ?es)"
    using m t(1) events_from_drop [of _ "jn_events j" k] next_event_ok(1) [OF assms(3), of j en kind]
    by (auto simp: memory_sound_def events_from_append)
  define d0 where "d0 = (case jm_get d JOURNAL_FILE of
      None \<Rightarrow> jm_set JOURNAL_FILE \<lparr>fl_ino = ae_ino en, fl_bytes = []\<rparr> d | Some _ \<Rightarrow> d)"
  have g0: "jm_get d0 JOURNAL_FILE \<noteq> None" "journal_bytes d0 = journal_bytes d"
    by (auto simp: d0_def journal_bytes_def split: option.splits)
  define d1 where "d1 = set_bytes JOURNAL_FILE (journal_bytes d @ event_line ?e) d0"
  define d2 where "d2 = set_bytes JOURNAL_FILE (journal_bytes d @ event_line ?e @ event_line ?e') d1"
  have g1: "jm_get d1 JOURNAL_FILE \<noteq> None" "journal_bytes d1 = journal_bytes d @ event_line ?e"
    using set_bytes_get(1) [OF g0(1)] set_bytes_get(2) [where n = JOURNAL_FILE and d = d0] g0(1) by (simp_all add: d1_def)
  then obtain f1 where f1: "jm_get d1 JOURNAL_FILE = Some f1" by blast
  have b2: "journal_bytes d2 = journal_bytes d @ event_line ?e @ event_line ?e'"
    using set_bytes_get(1) [OF g1(1)] by (simp add: d2_def)
  have a1: "journal_append en kind p j d = (Inl IoFault, j, d1)"
    using assms(2,5,6) g0(2) by (simp add: journal_append_def repair_unrolled_append_def faultless_def Let_def d0_def [symmetric] d1_def)
  obtain j2 where "commit_event ?e' j = (Inr ?e', j2)" using commit_sound [OF m next_event_ok(1) [OF assms(4)]] by blast
  then have a2: "journal_append en' kind' p' j d1 = (Inr ?e', j2, d2)"
    using assms(2,7) f1 g1(2) by (simp add: journal_append_def repair_unrolled_append_def faultless_def Let_def d2_def)
  let ?hd = "if hd then [journal_header ?n] else []"
  have ok: "wf_json x" if "x \<in> set (?hd @ ?es @ [?e, ?e'])" for x
  proof -
    have "x = journal_header ?n \<or> x \<in> set (?es @ [?e]) \<or> x = ?e'" using that by (auto split: if_splits)
    then show ?thesis
      using events_from_member [OF ef(1)] event_okD(2) [OF next_event_ok(1) [OF assms(4), of j en' kind']]
      by (auto simp: journal_header_def)
  qed
  have cl: "committed_lines (journal_bytes d2) = (map stringify (?hd @ ?es @ [?e, ?e']), journal_bytes d2)"
    using json_line.read_back [where xs = "?hd @ ?es @ [?e, ?e']" and t = "[]", OF ok] b2 t(3)
    by (simp add: journal_text_def event_line_def)
  have bad: "replay_events i ?n (map stringify (?es @ [?e]) @ [stringify ?e']) = Inl (Corruption (i + length (?es @ [?e]) + 1))" for i
  proof -
    have "read_member (Some ?e') ''sequence'' = Inr (Some (JNum (?n + int (length ?es))))"
      using event_okD(3) [OF next_event_ok(1) [OF assms(4), of j en' kind']] ef(2) by simp
    moreover have "json_parse (stringify ?e') = Some ?e'" using ok [of ?e'] by (intro json_parse_stringify) simp
    ultimately show ?thesis by (simp only: replay_events_read [OF ef(1)] replay_events.simps) simp
  qed
  let ?L = "map stringify (?es @ [?e]) @ [stringify ?e']"
  have lines: "map stringify (?hd @ ?es @ [?e, ?e']) = map stringify ?hd @ ?L" by simp
  have "\<exists>n. replay_lines (map stringify (?hd @ ?es @ [?e, ?e'])) = Inl (Corruption n)"
  proof (cases hd)
    case True
    have "1 \<le> ?n" using m by (simp add: memory_sound_def)
    with True bad [of 1] show ?thesis by (simp add: replay_lines_def header_read)
  next
    case False
    with t(2) have n1: "?n = 1" by simp
    obtain x xs where xs: "?es @ [?e] = x # xs" by (cases "?es @ [?e]") auto
    then have "parse_journal_header x = None" "wf_json x"
      using ef(1) by (auto dest: event_okD(2,4))
    then have "Option.bind (json_parse (stringify x)) parse_journal_header = None" by (simp add: json_parse_stringify)
    moreover have L: "?L = stringify x # map stringify xs @ [stringify ?e']" by (subst xs) simp
    ultimately have "replay_lines ?L = and_then (replay_events 0 1 ?L) (\<lambda>es. Inr (es, 1))"
      unfolding L by (simp add: replay_lines_def)
    then show ?thesis using bad [of 0] n1 lines False by simp
  qed
  then obtain n where "replay_lines (map stringify (?hd @ ?es @ [?e, ?e'])) = Inl (Corruption n)" by blast
  moreover have "\<exists>f. jm_get d2 JOURNAL_FILE = Some f \<and> fl_bytes f = journal_bytes d2"
    using f1 by (simp add: d2_def set_bytes_def journal_bytes_def)
  ultimately have "fst (journal_open calm_open ep d2) = Inl (Corruption n)"
    using cl by (auto simp: journal_open_def journal_replay_def calm_open_def)
  with a1 a2 show ?thesis by blast
qed

section \<open>Witnesses\<close>

definition demo_journal :: journal where
  "demo_journal = \<lparr>jn_ownerEpoch = 1, jn_currentSequence = 0, jn_firstRetained = 1, jn_events = [], jn_index = [],
     jn_listeners = [], jn_delivered = [], jn_unrolled = None\<rparr>"

definition demo_append :: append_env where
  "demo_append = \<lparr>ae_id = ''u'', ae_timestamp = ''t'', ae_ino = 1, ae_statFails = False, ae_repairFails = False,
     ae_openFails = False, ae_handleStatFails = False, ae_written = None, ae_syncFails = False,
     ae_rollbackFails = False, ae_resyncFails = False, ae_closeFails = False\<rparr>"

definition demo_torn :: append_env where
  "demo_torn = demo_append\<lparr>ae_written := Some 5, ae_rollbackFails := True\<rparr>"

lemma demo_run: "journal_run c demo_journal []"
  by (rule run_start [where d = "[]" and en = calm_open and ep = 1])
    (simp_all add: journal_open_def journal_replay_def calm_open_def new_journal_def demo_journal_def)

lemma demo_faultless: "faultless demo_append" "close_ok demo_append" "close_ok demo_torn"
  by (simp_all add: faultless_def close_ok_def demo_append_def demo_torn_def)

lemma demo_appended:
  obtains e j' d' where "journal_append demo_append ''k'' [] demo_journal [] = (Inr e, j', d')" "journal_run c j' d'"
    "jn_events j' = [e]" "event_sequence e = 1"
proof -
  have wf: "wf_json (JObj [])" by simp
  from append_succeeds [OF run_sound [OF demo_run] demo_faultless(1) wf] obtain e j' d' where
    a: "journal_append demo_append ''k'' [] demo_journal [] = (Inr e, j', d')" "appended demo_journal j' e" by blast
  show thesis
    by (rule that [OF a(1) run_append [OF demo_run wf demo_faultless(2) a(1)]])
      (use a(2) in \<open>simp_all add: appended_def demo_journal_def\<close>)
qed



lemma journal_reads_exact_witness:
  "let (r, j, d) = journal_append demo_append ''k'' [] demo_journal []
   in map event_sequence (journal_read 0 (Some 4) j) = [1] \<and> journal_read 1 (Some 4) j = []"
proof -
  obtain e j d where a: "journal_append demo_append ''k'' [] demo_journal [] = (Inr e, j, d)" "journal_run 0 j d"
    "jn_events j = [e]" "event_sequence e = 1" by (rule demo_appended)
  have "journal_read 0 (Some 4) j = take 4 (filter (\<lambda>e. 0 < event_sequence e) (jn_events j))"
    "journal_read 1 (Some 4) j = take 4 (filter (\<lambda>e. 1 < event_sequence e) (jn_events j))"
    using journal_reads_exact [OF a(2), of 4] by simp_all
  with a show ?thesis by simp
qed

lemma compaction_exact_witness:
  "let (r, j, d) = journal_append demo_append ''k'' [] demo_journal [];
       (r', j', ds) = journal_compact (quiet_env 9) ''t'' 1 j d
   in journal_read 1 None j' = [] \<and> jn_currentSequence j' = 1"
proof -
  obtain e j d where a: "journal_append demo_append ''k'' [] demo_journal [] = (Inr e, j, d)" "journal_run 1 j d"
    "jn_events j = [e]" "event_sequence e = 1" by (rule demo_appended)
  obtain r' j' ds where c: "journal_compact (quiet_env 9) ''t'' 1 j d = (r', j', ds)" by (metis prod.exhaust)
  have ok: "compact_ok (quiet_env 9) ''t'' j" by (simp add: compact_ok_def undisturbed_def quiet_env_def JOURNAL_FILE_def)
  have "journal_read 1 None j' = journal_read 1 None j \<and> jn_currentSequence j' = jn_currentSequence j"
    using compaction_exact [OF a(2) order.refl ok c order.refl] by blast
  moreover have m: "memory_sound j" using run_sound [OF a(2)] by (simp add: journal_sound_def)
  moreover have "jn_currentSequence j = 1"
    using m a(3,4) by (auto simp: memory_sound_def dest: event_okD(1))
  ultimately show ?thesis using a c read_filter(1) [OF m, of 1] by simp
qed

end
