(* ===== verification/JournalRecovery.thy ===== *)
theory JournalRecovery
  imports JournalProperties
begin

text \<open>
  Closing what a crash left open (\<open>recoverNonterminalCommands\<close> of \<open>src/src/control/journal.ts\<close>): every
  command that was requested and has no terminal event gets one, \<open>command.unknown\<close>. Open commands come
  from the events of the journal and from the snapshot that replaced the compacted ones. Command ids
  and keys in the payload of an event are strings.
\<close>

section \<open>The scan\<close>

record open_transaction =
  ot_sequence :: int
  ot_commandId :: string
  ot_key :: string
  ot_kind :: string

definition TERMINAL_KINDS :: "string list" where
  "TERMINAL_KINDS = [''command.succeeded'', ''command.failed'', ''command.unknown'', ''command.rejected'']"

definition OPEN_KINDS :: "string list" where
  "OPEN_KINDS = [''command.requested'', ''command.accepted'', ''command.running'']"

definition command_transaction_key :: "string \<Rightarrow> string \<Rightarrow> string" where
  "command_transaction_key commandId key = stringify (JArr [JStr commandId, JStr key])"

definition payload_string :: "json \<Rightarrow> string \<Rightarrow> string option" where
  "payload_string e k =
    (case event_member e ''payload'' of
       Some (JObj p) \<Rightarrow> (case map_of p k of Some (JStr s) \<Rightarrow> Some s | _ \<Rightarrow> None)
     | _ \<Rightarrow> None)"

definition scan_event ::
  "json \<Rightarrow> string list \<times> (string, open_transaction) jsmap \<Rightarrow> string list \<times> (string, open_transaction) jsmap"
where
  "scan_event e st =
    (case (payload_string e ''commandId'', payload_string e ''idempotencyKey'') of
       (Some commandId, Some key) \<Rightarrow>
         if commandId = [] \<or> key = [] then st
         else let tx = command_transaction_key commandId key; (terminals, unclosed) = st
              in if event_kind e \<in> set TERMINAL_KINDS then (List.insert tx terminals, jm_delete tx unclosed)
                 else if event_kind e \<in> set OPEN_KINDS
                 then (terminals, jm_set tx \<lparr>ot_sequence = event_sequence e, ot_commandId = commandId, ot_key = key,
                                             ot_kind = event_kind e\<rparr> unclosed)
                 else st
     | _ \<Rightarrow> st)"

definition restored_transactions :: "open_transaction list \<Rightarrow> (string, open_transaction) jsmap" where
  "restored_transactions restored =
    fold (\<lambda>t m. jm_set (command_transaction_key (ot_commandId t) (ot_key t)) t m) restored []"

definition scan_events :: "open_transaction list \<Rightarrow> json list \<Rightarrow> string list \<times> (string, open_transaction) jsmap" where
  "scan_events restored events = fold scan_event events ([], restored_transactions restored)"

section \<open>The appends\<close>

definition closed_by :: "open_transaction \<Rightarrow> json \<Rightarrow> bool" where
  "closed_by t e \<longleftrightarrow> event_kind e \<in> set TERMINAL_KINDS \<and> payload_string e ''commandId'' = Some (ot_commandId t) \<and>
     payload_string e ''idempotencyKey'' = Some (ot_key t)"

definition exact_command_outcome_digest :: "(string \<Rightarrow> string) \<Rightarrow> json \<Rightarrow> string" where
  "exact_command_outcome_digest sha j = sha (stringify (sort_object_keys j))"

definition recovered_nonterminal_outcome :: json where
  "recovered_nonterminal_outcome = JObj [(''status'', JStr ''unknown''), (''code'', JStr ''recovered-nonterminal''),
     (''message'', JStr ''command outcome is unknown'')]"

definition recovered_payload :: "(string \<Rightarrow> string) \<Rightarrow> open_transaction \<Rightarrow> (string \<times> json) list" where
  "recovered_payload sha t =
    [(''commandId'', JStr (ot_commandId t)), (''idempotencyKey'', JStr (ot_key t)),
     (''reason'', JStr ''recovered-nonterminal''),
     (''outcomeDigest'', JStr (exact_command_outcome_digest sha recovered_nonterminal_outcome))]"

text \<open>The loop; \<open>ens n\<close> is the environment of the append number \<open>n\<close>.\<close>

fun recover_loop ::
  "(nat \<Rightarrow> append_env) \<Rightarrow> (string \<Rightarrow> string) \<Rightarrow> string list \<Rightarrow> (string \<times> open_transaction) list \<Rightarrow> nat \<Rightarrow>
   journal \<Rightarrow> directory \<Rightarrow> (journal_error, json list) result \<times> journal \<times> directory"
where
  "recover_loop ens sha terminals [] n j d = (Inr [], j, d)"
| "recover_loop ens sha terminals ((tx, t) # rest) n j d =
    (if tx \<in> set terminals then recover_loop ens sha terminals rest n j d
     else if list_ex (closed_by t) (jn_events j) then recover_loop ens sha terminals rest n j d
     else (case journal_append (ens n) ''command.unknown'' (recovered_payload sha t) j d of
        (Inl err, j1, d1) \<Rightarrow> (Inl err, j1, d1)
      | (Inr e, j1, d1) \<Rightarrow>
         (case recover_loop ens sha terminals rest (Suc n) j1 d1 of
            (Inl err, s) \<Rightarrow> (Inl err, s)
          | (Inr es, s) \<Rightarrow> (Inr (e # es), s))))"

definition recover_nonterminal_commands ::
  "(nat \<Rightarrow> append_env) \<Rightarrow> (string \<Rightarrow> string) \<Rightarrow> open_transaction list \<Rightarrow> journal \<Rightarrow> directory \<Rightarrow>
   (journal_error, json list) result \<times> journal \<times> directory"
where
  "recover_nonterminal_commands ens sha restored j d =
    (let (terminals, unclosed) = scan_events restored (jn_events j)
     in recover_loop ens sha terminals (sort_key (\<lambda>(tx, t). ot_sequence t) unclosed) 0 j d)"

section \<open>What the scan finds\<close>

definition opens :: "json \<Rightarrow> open_transaction \<Rightarrow> bool" where
  "opens e t \<longleftrightarrow> event_kind e \<in> set OPEN_KINDS \<and> ot_commandId t \<noteq> [] \<and> ot_key t \<noteq> [] \<and>
     payload_string e ''commandId'' = Some (ot_commandId t) \<and> payload_string e ''idempotencyKey'' = Some (ot_key t)"

definition tx_of :: "open_transaction \<Rightarrow> string" where
  "tx_of t = command_transaction_key (ot_commandId t) (ot_key t)"

lemma command_transaction_key_inj:
  "command_transaction_key a b = command_transaction_key a' b' \<longleftrightarrow> a = a' \<and> b = b'"
proof
  assume "command_transaction_key a b = command_transaction_key a' b'"
  then have "JArr [JStr a, JStr b] = JArr [JStr a', JStr b']"
    using stringify_unique [of "JArr [JStr a, JStr b]" "[]" "JArr [JStr a', JStr b']" "[]"]
    by (simp add: command_transaction_key_def ends_value_def del: stringify.simps)
  then show "a = a' \<and> b = b'" by simp
qed simp

definition same_transaction :: "open_transaction \<Rightarrow> open_transaction \<Rightarrow> bool" where
  "same_transaction t t' \<longleftrightarrow> ot_commandId t = ot_commandId t' \<and> ot_key t = ot_key t'"

lemma same_transaction_iff: "tx_of t = tx_of t' \<longleftrightarrow> same_transaction t t'"
  by (simp add: tx_of_def command_transaction_key_inj same_transaction_def)

lemma closed_by_same: "same_transaction t t' \<Longrightarrow> closed_by t e = closed_by t' e"
  by (simp add: closed_by_def same_transaction_def)

text \<open>
  The invariant of the scan: what is open is open for a reason, and everything opened is there still
  or was closed.
\<close>

definition scanned :: "open_transaction list \<Rightarrow> json list \<Rightarrow> string list \<times> (string, open_transaction) jsmap \<Rightarrow> bool" where
  "scanned restored es st \<longleftrightarrow> jm_ok (snd st) \<and>
     (\<forall>tx t. jm_get (snd st) tx = Some t \<longrightarrow> tx = tx_of t \<and> (t \<in> set restored \<or> (\<exists>e \<in> set es. opens e t))) \<and>
     (\<forall>t. t \<in> set restored \<or> (\<exists>e \<in> set es. opens e t) \<longrightarrow>
        jm_get (snd st) (tx_of t) \<noteq> None \<or> (\<exists>e \<in> set es. closed_by t e)) \<and>
     (\<forall>tx \<in> set (fst st). \<exists>t. tx = tx_of t \<and> (\<exists>e \<in> set es. closed_by t e))"

lemma restored_fold:
  "jm_ok m \<Longrightarrow> jm_ok (fold (\<lambda>t m. jm_set (command_transaction_key (ot_commandId t) (ot_key t)) t m) ts m) \<and>
    (\<forall>k t. jm_get (fold (\<lambda>t m. jm_set (command_transaction_key (ot_commandId t) (ot_key t)) t m) ts m) k = Some t \<longrightarrow>
      (k = tx_of t \<and> t \<in> set ts) \<or> jm_get m k = Some t) \<and>
    (\<forall>k. k \<in> tx_of ` set ts \<or> jm_get m k \<noteq> None \<longrightarrow>
      jm_get (fold (\<lambda>t m. jm_set (command_transaction_key (ot_commandId t) (ot_key t)) t m) ts m) k \<noteq> None)"
proof (induction ts arbitrary: m)
  case (Cons t ts)
  from Cons.IH [OF jm_ok_set [OF Cons.prems], of "command_transaction_key (ot_commandId t) (ot_key t)" t]
  show ?case by (simp add: tx_of_def split: if_splits) blast
qed simp

lemma scanned_start: "scanned restored [] ([], restored_transactions restored)"
  using restored_fold [of "[]" restored] by (auto simp: scanned_def restored_transactions_def)

lemma kinds_disjoint: "k \<in> set TERMINAL_KINDS \<Longrightarrow> k \<notin> set OPEN_KINDS"
  by (auto simp: TERMINAL_KINDS_def OPEN_KINDS_def)

lemma opens_not_closes: "opens e t \<Longrightarrow> \<not> closed_by t' e"
  using kinds_disjoint by (auto simp: opens_def closed_by_def)

lemma scan_cases:
  obtains (close) t where "closed_by t e" "scan_event e st = (List.insert (tx_of t) (fst st), jm_delete (tx_of t) (snd st))"
    | (start) t where "opens e t" "scan_event e st = (fst st, jm_set (tx_of t) t (snd st))"
    | (skip) "scan_event e st = st" "\<And>t. \<not> opens e t"
proof (cases "\<exists>c k. payload_string e ''commandId'' = Some c \<and> payload_string e ''idempotencyKey'' = Some k \<and> c \<noteq> [] \<and> k \<noteq> []")
  case True
  then obtain c k where ck: "payload_string e ''commandId'' = Some c" "payload_string e ''idempotencyKey'' = Some k"
    "c \<noteq> []" "k \<noteq> []" by blast
  let ?t = "\<lparr>ot_sequence = event_sequence e, ot_commandId = c, ot_key = k, ot_kind = event_kind e\<rparr>"
  consider "event_kind e \<in> set TERMINAL_KINDS" | "event_kind e \<notin> set TERMINAL_KINDS" "event_kind e \<in> set OPEN_KINDS"
    | "event_kind e \<notin> set TERMINAL_KINDS" "event_kind e \<notin> set OPEN_KINDS" by blast
  then show thesis
  proof cases
    case 1
    then show thesis using ck by (intro close [of ?t]) (simp_all add: closed_by_def scan_event_def tx_of_def Let_def case_prod_beta)
  next
    case 2
    then show thesis using ck by (intro start [of ?t]) (simp_all add: opens_def scan_event_def tx_of_def Let_def case_prod_beta)
  next
    case 3
    then show thesis using ck by (intro skip) (simp_all add: opens_def scan_event_def Let_def case_prod_beta)
  qed
next
  case False
  have "scan_event e st = st" using False unfolding scan_event_def by (auto split: option.split)
  moreover have "\<not> opens e t" for t using False by (auto simp: opens_def)
  ultimately show thesis by (rule skip)
qed

lemma closed_by_ids: "closed_by t e \<Longrightarrow> closed_by t' e \<Longrightarrow> tx_of t' = tx_of t"
  by (simp add: closed_by_def tx_of_def)

lemma opens_ids: "opens e t \<Longrightarrow> opens e t' \<Longrightarrow> tx_of t' = tx_of t"
  by (simp add: opens_def tx_of_def)

lemma closed_by_tx: "tx_of t = tx_of t' \<Longrightarrow> closed_by t e = closed_by t' e"
  by (rule closed_by_same) (simp add: same_transaction_iff)

lemma scanned_step:
  assumes "scanned restored es st"
  shows "scanned restored (es @ [e]) (scan_event e st)"
proof (cases rule: scan_cases [where e = e and st = st])
  case (close t)
  have "\<And>t'. \<not> opens e t'" using close(1) opens_not_closes by blast
  moreover have "closed_by t' e" if "tx_of t' = tx_of t" for t' using close(1) closed_by_tx that by blast
  ultimately show ?thesis
    using assms close(1) unfolding scanned_def close(2) by (auto split: if_splits; blast)
next
  case (start t)
  from assms have a: "jm_ok (snd st)"
    "\<And>tx t. jm_get (snd st) tx = Some t \<Longrightarrow> tx = tx_of t \<and> (t \<in> set restored \<or> (\<exists>e \<in> set es. opens e t))"
    "\<And>t. t \<in> set restored \<or> (\<exists>e \<in> set es. opens e t) \<Longrightarrow> jm_get (snd st) (tx_of t) \<noteq> None \<or> (\<exists>e \<in> set es. closed_by t e)"
    "\<And>tx. tx \<in> set (fst st) \<Longrightarrow> \<exists>t. tx = tx_of t \<and> (\<exists>e \<in> set es. closed_by t e)"
    unfolding scanned_def by blast+
  show ?thesis
    unfolding scanned_def start(2) fst_conv snd_conv
  proof (intro conjI allI impI ballI)
    show "jm_ok (jm_set (tx_of t) t (snd st))" using a(1) by simp
  next
    fix tx t' assume "jm_get (jm_set (tx_of t) t (snd st)) tx = Some t'"
    then have "tx = tx_of t \<and> t' = t \<or> jm_get (snd st) tx = Some t'" by (simp split: if_splits)
    then show "tx = tx_of t'" "t' \<in> set restored \<or> (\<exists>e \<in> set (es @ [e]). opens e t')" using a(2) start(1) by auto
  next
    fix t' assume "t' \<in> set restored \<or> (\<exists>e \<in> set (es @ [e]). opens e t')"
    then have "tx_of t' = tx_of t \<or> t' \<in> set restored \<or> (\<exists>e \<in> set es. opens e t')" using opens_ids [OF start(1)] by auto
    then show "jm_get (jm_set (tx_of t) t (snd st)) (tx_of t') \<noteq> None \<or> (\<exists>e \<in> set (es @ [e]). closed_by t' e)"
      using a(3) [of t'] by auto
  next
    fix tx assume "tx \<in> set (fst st)"
    from a(4) [OF this] show "\<exists>t. tx = tx_of t \<and> (\<exists>e \<in> set (es @ [e]). closed_by t e)" by auto
  qed
next
  case skip
  show ?thesis using assms skip(2) unfolding scanned_def skip(1) by (auto; blast)
qed

lemma scanned_fold: "scanned restored es st \<Longrightarrow> scanned restored (es @ es') (fold scan_event es' st)"
proof (induction es' arbitrary: es st)
  case (Cons e es')
  from Cons.IH [OF scanned_step [OF Cons.prems, of e]] show ?case by simp
qed simp

lemma scan_events_scanned: "scanned restored es (scan_events restored es)"
  using scanned_fold [OF scanned_start, of restored es] by (simp add: scan_events_def)

section \<open>Every open command is closed once\<close>

definition transaction_ids :: "json \<Rightarrow> string option \<times> string option" where
  "transaction_ids e = (payload_string e ''commandId'', payload_string e ''idempotencyKey'')"

lemma built_event:
  "closed_by t (build_next_event en ''command.unknown'' (recovered_payload sha t) j)"
  "event_kind (build_next_event en ''command.unknown'' (recovered_payload sha t) j) = ''command.unknown''"
  by (simp_all add: closed_by_def build_next_event_def event_kind_def event_member_def payload_string_def
      recovered_payload_def TERMINAL_KINDS_def)

lemma recovered_payload_wf: "wf_json (JObj (recovered_payload sha t))"
  by (simp add: recovered_payload_def)

lemma closed_by_transfer: "closed_by t e \<Longrightarrow> closed_by t' e' \<Longrightarrow> transaction_ids e = transaction_ids e' \<Longrightarrow> closed_by t' e"
  by (simp add: closed_by_def transaction_ids_def)

text \<open>\<open>closing L j es\<close>: the events \<open>es\<close> close transactions of \<open>L\<close>, each once, none closed before.\<close>

definition closing :: "(string \<times> open_transaction) list \<Rightarrow> json list \<Rightarrow> json list \<Rightarrow> bool" where
  "closing L before es \<longleftrightarrow> distinct (map transaction_ids es) \<and>
     (\<forall>e \<in> set es. event_kind e = ''command.unknown'' \<and>
        (\<exists>t \<in> snd ` set L. closed_by t e \<and> (\<forall>x \<in> set before. \<not> closed_by t x)))"

lemma closing_mono: "closing L before es \<Longrightarrow> closing (p # L) before es"
  by (auto simp: closing_def)

lemma closing_Cons:
  assumes "closing L (before @ [e]) es" "closed_by t e" "event_kind e = ''command.unknown''" "\<forall>x \<in> set before. \<not> closed_by t x"
  shows "closing ((tx, t) # L) before (e # es)"
proof -
  have "transaction_ids e \<noteq> transaction_ids x" if x: "x \<in> set es" for x
  proof
    assume eq: "transaction_ids e = transaction_ids x"
    from assms(1) x obtain t' where "closed_by t' x" "\<not> closed_by t' e" by (auto simp: closing_def)
    with closed_by_transfer [OF assms(2) _ eq] show False by blast
  qed
  with assms show ?thesis by (auto simp: closing_def)
qed

lemma recover_loop_closes:
  assumes "journal_run c j d" "\<And>n. faultless (ens n)"
  shows "\<exists>es j' d'. recover_loop ens sha terminals L n j d = (Inr es, j', d') \<and> journal_run c j' d' \<and>
    jn_events j' = jn_events j @ es \<and> closing L (jn_events j) es \<and>
    (\<forall>p \<in> set L. fst p \<in> set terminals \<or> (\<exists>x \<in> set (jn_events j'). closed_by (snd p) x))"
  using assms(1)
proof (induction L arbitrary: n j d)
  case Nil
  then show ?case by (simp add: closing_def)
next
  case (Cons p L)
  obtain tx t where p: "p = (tx, t)" by (cases p)
  show ?case
  proof (cases "tx \<in> set terminals \<or> list_ex (closed_by t) (jn_events j)")
    case True
    then have loop: "recover_loop ens sha terminals (p # L) n j d = recover_loop ens sha terminals L n j d" using p by auto
    from Cons.IH [OF Cons.prems, of n] obtain es j' d' where r: "recover_loop ens sha terminals L n j d = (Inr es, j', d')"
      "journal_run c j' d'" "jn_events j' = jn_events j @ es" "closing L (jn_events j) es"
      "\<forall>p \<in> set L. fst p \<in> set terminals \<or> (\<exists>x \<in> set (jn_events j'). closed_by (snd p) x)" by blast
    moreover have "fst p \<in> set terminals \<or> (\<exists>x \<in> set (jn_events j'). closed_by (snd p) x)"
      using True r(3) p by (auto simp: list_ex_iff)
    ultimately show ?thesis using closing_mono loop by simp
  next
    case False
    from append_succeeds [OF run_sound [OF Cons.prems] assms(2) [of n] recovered_payload_wf, of "''command.unknown''" sha t]
    obtain e j1 d1 where a: "journal_append (ens n) ''command.unknown'' (recovered_payload sha t) j d = (Inr e, j1, d1)"
      "appended j j1 e" by blast
    have co: "close_ok (ens n)" using assms(2) [of n] by (simp add: faultless_def close_ok_def)
    have e: "e = build_next_event (ens n) ''command.unknown'' (recovered_payload sha t) j"
      using append_sound [OF run_sound [OF Cons.prems] recovered_payload_wf co a(1)] by simp
    have ev: "jn_events j1 = jn_events j @ [e]" using a(2) by (simp add: appended_def)
    from Cons.IH [OF run_append [OF Cons.prems recovered_payload_wf co a(1)], of "Suc n"] obtain es j' d' where
      r: "recover_loop ens sha terminals L (Suc n) j1 d1 = (Inr es, j', d')" "journal_run c j' d'"
      "jn_events j' = jn_events j1 @ es" "closing L (jn_events j1) es"
      "\<forall>p \<in> set L. fst p \<in> set terminals \<or> (\<exists>x \<in> set (jn_events j'). closed_by (snd p) x)" by blast
    have loop: "recover_loop ens sha terminals (p # L) n j d = (Inr (e # es), j', d')" using False p a(1) r(1) by simp
    have "closing (p # L) (jn_events j) (e # es)"
      unfolding p
      by (rule closing_Cons) (use r(4) ev e built_event False in \<open>auto simp: list_ex_iff\<close>)
    moreover have "\<exists>x \<in> set (jn_events j'). closed_by (snd p) x" using r(3) ev e built_event(1) p by auto
    ultimately show ?thesis using loop r ev by auto
  qed
qed

lemma recover_loop_nothing:
  "(\<And>p. p \<in> set L \<Longrightarrow> fst p \<in> set terminals \<or> (\<exists>x \<in> set (jn_events j). closed_by (snd p) x)) \<Longrightarrow>
    recover_loop ens sha terminals L n j d = (Inr [], j, d)"
proof (induction L)
  case (Cons p L)
  then have "fst p \<in> set terminals \<or> list_ex (closed_by (snd p)) (jn_events j)" by (auto simp: list_ex_iff)
  with Cons show ?case by (cases p) auto
qed simp

text \<open>
  C13. Recovery closes every command that a crash left open, exactly once. Without a fault it returns
  the events it appended; afterwards every command that was requested in the journal or restored from
  the snapshot has a terminal event; the appended events are \<open>command.unknown\<close> for different commands,
  none of which had a terminal event before; and recovering again appends nothing.
\<close>
theorem recovery_closes_all:
  assumes "journal_run c j d" "\<forall>n. faultless (ens n)"
  shows "\<exists>es j' d'. recover_nonterminal_commands ens sha restored j d = (Inr es, j', d') \<and> journal_run c j' d' \<and>
    jn_events j' = jn_events j @ es \<and>
    (\<forall>t. t \<in> set restored \<or> (\<exists>e \<in> set (jn_events j). opens e t) \<longrightarrow> (\<exists>x \<in> set (jn_events j'). closed_by t x)) \<and>
    (\<forall>e \<in> set es. event_kind e = ''command.unknown'' \<and> (\<forall>t. closed_by t e \<longrightarrow> (\<forall>x \<in> set (jn_events j). \<not> closed_by t x))) \<and>
    distinct (map transaction_ids es) \<and>
    (\<forall>ens'. recover_nonterminal_commands ens' sha restored j' d' = (Inr [], j', d'))"
proof -
  obtain terminals unclosed where st: "scan_events restored (jn_events j) = (terminals, unclosed)" by (metis prod.exhaust)
  let ?L = "sort_key (\<lambda>(tx, t). ot_sequence t) unclosed"
  have sc: "scanned restored (jn_events j) (terminals, unclosed)" using scan_events_scanned st by metis
  obtain es j' d' where r: "recover_loop ens sha terminals ?L 0 j d = (Inr es, j', d')" "journal_run c j' d'"
    "jn_events j' = jn_events j @ es" "closing ?L (jn_events j) es"
    "\<forall>p \<in> set ?L. fst p \<in> set terminals \<or> (\<exists>x \<in> set (jn_events j'). closed_by (snd p) x)"
    using recover_loop_closes [OF assms(1), of ens sha terminals ?L 0] assms(2) by blast
  have rec: "recover_nonterminal_commands ens sha restored j d = (Inr es, j', d')"
    using r(1) st by (simp add: recover_nonterminal_commands_def)
  have closed_tx: "\<exists>x \<in> set (jn_events j'). closed_by t x" if "tx_of t \<in> set terminals" for t
  proof -
    from sc that obtain t' e where "tx_of t = tx_of t'" "e \<in> set (jn_events j)" "closed_by t' e"
      unfolding scanned_def fst_conv by blast
    then have "closed_by t e" "e \<in> set (jn_events j')" using closed_by_tx [of t t' e] r(3) by simp_all
    then show ?thesis by blast
  qed
  have all: "\<exists>x \<in> set (jn_events j'). closed_by t x" if t: "t \<in> set restored \<or> (\<exists>e \<in> set (jn_events j). opens e t)" for t
  proof -
    from sc t have "jm_get unclosed (tx_of t) \<noteq> None \<or> (\<exists>e \<in> set (jn_events j). closed_by t e)"
      unfolding scanned_def snd_conv by blast
    then show ?thesis
    proof
      assume "jm_get unclosed (tx_of t) \<noteq> None"
      then obtain t' where g: "jm_get unclosed (tx_of t) = Some t'" by blast
      then have "tx_of t = tx_of t'" using sc unfolding scanned_def snd_conv by blast
      moreover have "(tx_of t, t') \<in> set ?L" using map_of_SomeD [OF g] by simp
      ultimately have "tx_of t \<in> set terminals \<or> (\<exists>x \<in> set (jn_events j'). closed_by t' x)" using r(5) by fastforce
      then show ?thesis using closed_tx [of t] closed_by_tx [OF \<open>tx_of t = tx_of t'\<close>] by blast
    next
      assume "\<exists>e \<in> set (jn_events j). closed_by t e"
      then show ?thesis using r(3) by auto
    qed
  qed
  have fresh: "\<forall>x \<in> set (jn_events j). \<not> closed_by t x" if "e \<in> set es" "closed_by t e" for e t
  proof -
    from r(4) that(1) obtain t' where "closed_by t' e" "\<forall>x \<in> set (jn_events j). \<not> closed_by t' x" by (auto simp: closing_def)
    with closed_by_tx [OF closed_by_ids [OF that(2)]] show ?thesis by blast
  qed
  have "recover_nonterminal_commands ens' sha restored j' d' = (Inr [], j', d')" for ens'
  proof -
    obtain ts nt where st': "scan_events restored (jn_events j') = (ts, nt)" by (metis prod.exhaust)
    have sc': "scanned restored (jn_events j') (ts, nt)" using scan_events_scanned st' by metis
    have "fst p \<in> set ts \<or> (\<exists>x \<in> set (jn_events j'). closed_by (snd p) x)" if "p \<in> set (sort_key (\<lambda>(tx, t). ot_sequence t) nt)" for p
    proof -
      have "jm_ok nt" using sc' unfolding scanned_def by simp
      moreover have "(fst p, snd p) \<in> set nt" using that by simp
      ultimately have "jm_get nt (fst p) = Some (snd p)" by (rule map_of_is_SomeI)
      then have "snd p \<in> set restored \<or> (\<exists>e \<in> set (jn_events j'). opens e (snd p))"
        using sc' unfolding scanned_def snd_conv by blast
      moreover have "\<not> opens e (snd p)" if "e \<in> set es" for e
        using r(4) that by (auto simp: closing_def opens_def OPEN_KINDS_def)
      ultimately have "snd p \<in> set restored \<or> (\<exists>e \<in> set (jn_events j). opens e (snd p))" using r(3) by auto
      from all [OF this] show ?thesis ..
    qed
    then show ?thesis
      using recover_loop_nothing [of "sort_key (\<lambda>(tx, t). ot_sequence t) nt" ts j' ens' sha 0 d'] st'
      by (simp add: recover_nonterminal_commands_def)
  qed
  with rec r all fresh show ?thesis by (auto simp: closing_def)
qed

lemma recovery_closes_all_witness:
  "\<exists>es j' d'. recover_nonterminal_commands (\<lambda>_. demo_append) id
      [\<lparr>ot_sequence = 1, ot_commandId = ''c'', ot_key = ''k'', ot_kind = ''command.requested''\<rparr>] demo_journal [] = (Inr es, j', d') \<and>
    (\<exists>x \<in> set es. event_kind x = ''command.unknown'' \<and> transaction_ids x = (Some ''c'', Some ''k''))"
proof -
  let ?t = "\<lparr>ot_sequence = 1, ot_commandId = ''c'', ot_key = ''k'', ot_kind = ''command.requested''\<rparr>"
  have "\<forall>n::nat. faultless ((\<lambda>_. demo_append) n)" by (simp add: demo_faultless)
  from recovery_closes_all [OF demo_run [of 0] this, of id "[?t]"] obtain es j' d' where
    r: "recover_nonterminal_commands (\<lambda>_. demo_append) id [?t] demo_journal [] = (Inr es, j', d')"
    "jn_events j' = jn_events demo_journal @ es" "\<forall>e \<in> set es. event_kind e = ''command.unknown''"
    "\<forall>t. t \<in> set [?t] \<or> (\<exists>e \<in> set (jn_events demo_journal). opens e t) \<longrightarrow> (\<exists>x \<in> set (jn_events j'). closed_by t x)" by blast
  then obtain x where x: "x \<in> set es" "closed_by ?t x" by (auto simp: demo_journal_def)
  with r(1,3) show ?thesis by (auto simp: closed_by_def transaction_ids_def intro!: bexI [OF _ x(1)])
qed

end
