(* ===== verification/OutcomeFiles.thy ===== *)
theory OutcomeFiles
  imports JournalRecovery ControlTypes
begin

text \<open>
  The sidecar of exact outcomes (\<open>loadOutcome\<close>, \<open>storeOutcome\<close> and \<open>replaceOutcomeIfMatches\<close> of
  \<open>src/src/control/journal.ts\<close>): one file per idempotency key, named by the SHA-256 of the key, holding
  the key and the outcome of its command. Publications of one key are serialised, so each operation is
  one step. The checks of paths and identities around a read appear as a fault before the file is
  opened or after it was read; the read loop fills the buffer or fails.
\<close>

section \<open>Records\<close>

datatype outcome_error =
    OutcomeChanged | UnsafePath | OutcomeIo | OutcomeTooLarge | OutcomeCorrupt | InvalidRecord
  | OutcomeKeyMismatch | InvalidShape | OutcomePublish pub_step

definition DURABLE_OUTCOME_RECORD_MAX_BYTES :: int where
  "DURABLE_OUTCOME_RECORD_MAX_BYTES =
    int (screenshotBytes AGENT_CONTROL_LIMITS * 2 + scriptResultBytes AGENT_CONTROL_LIMITS +
         paneOutputBytes AGENT_CONTROL_LIMITS + 64 * 1024)"

definition has_only_keys :: "(string \<times> json) list \<Rightarrow> string list \<Rightarrow> bool" where
  "has_only_keys ms allowed \<longleftrightarrow> list_all (\<lambda>k. k \<in> set allowed) (map fst ms)"

fun is_json_string :: "json option \<Rightarrow> bool" where
  "is_json_string (Some (JStr s)) = True"
| "is_json_string _ = False"

definition is_stored_command_outcome :: "json \<Rightarrow> bool" where
  "is_stored_command_outcome v =
    (case v of
       JObj ms \<Rightarrow>
        (if map_of ms ''status'' = Some (JStr ''succeeded'')
         then has_only_keys ms [''status'', ''value''] \<and> map_of ms ''code'' = None \<and> map_of ms ''message'' = None
         else if map_of ms ''status'' \<in> {Some (JStr ''failed''), Some (JStr ''unknown''), Some (JStr ''rejected'')}
         then has_only_keys ms [''status'', ''code'', ''message''] \<and> is_json_string (map_of ms ''code'') \<and>
              is_json_string (map_of ms ''message'') \<and> map_of ms ''value'' = None
         else False)
     | _ \<Rightarrow> False)"

definition assert_stored_outcome_record :: "json \<Rightarrow> string \<Rightarrow> (outcome_error, json) result" where
  "assert_stored_outcome_record v expectedKey =
    (case v of
       JObj ms \<Rightarrow>
        (case map_of ms ''idempotencyKey'' of
           Some (JStr k) \<Rightarrow>
             throw_if (k \<noteq> expectedKey) OutcomeKeyMismatch
              (case map_of ms ''outcome'' of
                 Some out \<Rightarrow> throw_if (\<not> is_stored_command_outcome out) InvalidShape (Inr out)
               | None \<Rightarrow> Inl InvalidShape)
         | _ \<Rightarrow> Inl InvalidRecord)
     | _ \<Rightarrow> Inl InvalidRecord)"

definition stored_outcome_record :: "string \<Rightarrow> json \<Rightarrow> json" where
  "stored_outcome_record key out = JObj [(''idempotencyKey'', JStr key), (''outcome'', out)]"

definition parse_stored_outcome :: "string \<Rightarrow> string \<Rightarrow> (outcome_error, json) result" where
  "parse_stored_outcome raw expectedKey =
    (case json_parse raw of
       None \<Rightarrow> Inl OutcomeCorrupt
     | Some v \<Rightarrow> assert_stored_outcome_record v expectedKey)"

definition serialize_stored_outcome_record :: "string \<Rightarrow> json \<Rightarrow> (outcome_error, string) result" where
  "serialize_stored_outcome_record key out =
    and_then (assert_stored_outcome_record (stored_outcome_record key out) key) (\<lambda>out'.
      let serialized = stringify (stored_outcome_record key out')
      in throw_if (int (length serialized) > DURABLE_OUTCOME_RECORD_MAX_BYTES) OutcomeTooLarge (Inr serialized))"

section \<open>Operations\<close>

record load_env =
  le_absent :: bool
  le_early :: "outcome_error option"
  le_late :: "outcome_error option"

definition load_outcome :: "load_env \<Rightarrow> (string \<Rightarrow> string) \<Rightarrow> string \<Rightarrow> directory \<Rightarrow> (outcome_error, json option) result" where
  "load_outcome en sha key d =
    (if le_absent en then Inr None
     else (case le_early en of
       Some e \<Rightarrow> Inl e
     | None \<Rightarrow>
        (case jm_get d (sha key) of
           None \<Rightarrow> Inr None
         | Some f \<Rightarrow>
            if int (length (fl_bytes f)) > DURABLE_OUTCOME_RECORD_MAX_BYTES then Inl OutcomeTooLarge
            else (case le_late en of
               Some e \<Rightarrow> Inl e
             | None \<Rightarrow> and_then (parse_stored_outcome (fl_bytes f) key) (\<lambda>out. Inr (Some out))))))"

definition store_outcome ::
  "pub_env \<Rightarrow> (string \<Rightarrow> string) \<Rightarrow> string \<Rightarrow> string \<Rightarrow> json \<Rightarrow> directory \<Rightarrow> (outcome_error, unit) result \<times> directory list"
where
  "store_outcome en sha tmp key out d =
    (case serialize_stored_outcome_record key out of
       Inl e \<Rightarrow> (Inl e, [d])
     | Inr serialized \<Rightarrow>
        (case replace_runtime_file (en\<lparr>pe_aborts := (\<lambda>_. False)\<rparr>) serialized tmp (sha key) d of
           (Inl st, ds) \<Rightarrow> (Inl (OutcomePublish st), ds)
         | (Inr _, ds) \<Rightarrow> (Inr (), ds)))"

definition replace_outcome_if_matches ::
  "load_env \<Rightarrow> pub_env \<Rightarrow> (string \<Rightarrow> string) \<Rightarrow> string \<Rightarrow> string \<Rightarrow> string \<Rightarrow> json \<Rightarrow> directory \<Rightarrow>
   (outcome_error, bool) result \<times> directory list"
where
  "replace_outcome_if_matches le en sha tmp key expectedDigest replacement d =
    (case load_outcome le sha key d of
       Inl e \<Rightarrow> (Inl e, [d])
     | Inr None \<Rightarrow> (Inr False, [d])
     | Inr (Some current) \<Rightarrow>
        if exact_command_outcome_digest sha current \<noteq> expectedDigest then (Inr False, [d])
        else if exact_command_outcome_digest sha replacement = expectedDigest then (Inr True, [d])
        else (case store_outcome en sha tmp key replacement d of
           (Inl e, ds) \<Rightarrow> (Inl e, ds)
         | (Inr _, ds) \<Rightarrow> (Inr True, ds)))"

section \<open>Round trip\<close>

lemma assert_stored_valid: "assert_stored_outcome_record v key = Inr out \<Longrightarrow> is_stored_command_outcome out"
  by (simp add: assert_stored_outcome_record_def result_simps split: json.split_asm option.split_asm)

lemma load_outcome_valid:
  assumes "load_outcome en sha key d = Inr (Some out)"
  shows "is_stored_command_outcome out"
proof -
  from assms have "\<exists>raw v. json_parse raw = Some v \<and> assert_stored_outcome_record v key = Inr out"
    by (auto simp: load_outcome_def parse_stored_outcome_def result_simps split: if_splits option.splits)
  then show ?thesis using assert_stored_valid by blast
qed

lemma serialize_parse:
  assumes "serialize_stored_outcome_record key out = Inr s" "wf_json out"
  shows "parse_stored_outcome s key = Inr out" "int (length s) \<le> DURABLE_OUTCOME_RECORD_MAX_BYTES"
proof -
  from assms(1) have s: "s = stringify (stored_outcome_record key out)" "is_stored_command_outcome out"
    "int (length s) \<le> DURABLE_OUTCOME_RECORD_MAX_BYTES"
    by (auto simp: serialize_stored_outcome_record_def stored_outcome_record_def assert_stored_outcome_record_def
        result_simps Let_def simp del: stringify.simps)
  have "wf_json (stored_outcome_record key out)" using assms(2) by (simp add: stored_outcome_record_def)
  with s show "parse_stored_outcome s key = Inr out"
    by (simp add: parse_stored_outcome_def json_parse_stringify)
      (simp add: stored_outcome_record_def assert_stored_outcome_record_def)
  show "int (length s) \<le> DURABLE_OUTCOME_RECORD_MAX_BYTES" by (rule s(3))
qed

definition calm_load :: load_env where
  "calm_load = \<lparr>le_absent = False, le_early = None, le_late = None\<rparr>"

lemma load_written:
  assumes "serialize_stored_outcome_record key out = Inr s" "wf_json out" "map_option fl_bytes (jm_get d (sha key)) = Some s"
  shows "load_outcome calm_load sha key d = Inr (Some out)"
  using serialize_parse [OF assms(1,2)] assms(3) by (auto simp: load_outcome_def calm_load_def)

lemma load_same: "jm_get d' (sha key) = jm_get d (sha key) \<Longrightarrow> load_outcome en sha key d' = load_outcome en sha key d"
  unfolding load_outcome_def by (erule ssubst) (rule refl)

lemma store_states:
  assumes "store_outcome en sha tmp key out d = (r, ds)" "undisturbed en" "tmp \<notin> range sha" "wf_json out"
    and "\<not> pe_fails en StatPublished" "\<not> pe_fails en CheckPublished"
  shows "(\<forall>x \<in> set ds. jm_get x (sha key) = jm_get d (sha key) \<or> load_outcome calm_load sha key x = Inr (Some out)) \<and>
    (r = Inr () \<longrightarrow> load_outcome calm_load sha key (last ds) = Inr (Some out)) \<and>
    (\<forall>k. sha k \<noteq> sha key \<longrightarrow> (\<forall>x \<in> set ds. jm_get x (sha k) = jm_get d (sha k)))"
proof (cases "serialize_stored_outcome_record key out")
  case (Inl e)
  then show ?thesis using assms(1) by (auto simp: store_outcome_def)
next
  case (Inr s)
  let ?en = "en\<lparr>pe_aborts := (\<lambda>_. False)\<rparr>"
  obtain res where res: "replace_runtime_file ?en s tmp (sha key) d = res" by blast
  have ds: "ds = snd res" "r = Inr () \<longleftrightarrow> (\<exists>b. fst res = Inr b)"
    using assms(1) Inr res by (auto simp: store_outcome_def split: prod.splits sum.splits)
  have und: "undisturbed ?en" using assms(2) by (simp add: undisturbed_def)
  have tmp: "tmp \<noteq> sha k" for k using assms(3) by blast
  have w: "load_outcome calm_load sha key x = Inr (Some out)"
    if "jm_get x (sha key) = Some \<lparr>fl_ino = pe_ino ?en, fl_bytes = s\<rparr>" for x
    using load_written [OF Inr assms(4), of x sha] that by simp
  have others: "\<forall>k. sha k \<noteq> sha key \<longrightarrow> (\<forall>x \<in> set ds. jm_get x (sha k) = jm_get d (sha k))"
    using replace_others [OF und tmp [symmetric], where dest = "sha key" and serialized = s and d = d] res ds(1) by simp
  have no_abort: "fst res \<noteq> Inr False"
    using res by (auto simp: replace_runtime_file_def Let_def split: if_splits option.splits simp del: find.simps)
  have "outcome_kept (sha key) d res \<or> outcome_published ?en s (sha key) d res"
    using publication_outcome [OF und tmp [of key], where serialized = s and d = d] res assms(5,6) by (auto simp: outcome_ok_def outcome_lost_def)
  then show ?thesis
  proof
    assume k: "outcome_kept (sha key) d res"
    then have "r \<noteq> Inr ()" using no_abort ds(2) by (cases "fst res") (auto simp: outcome_kept_def)
    with k others show ?thesis by (simp add: outcome_kept_def list_all_iff ds(1))
  next
    assume p: "outcome_published ?en s (sha key) d res"
    then have "jm_get (last ds) (sha key) = Some \<lparr>fl_ino = pe_ino ?en, fl_bytes = s\<rparr>"
      by (simp add: outcome_published_def settled_def ds(1))
    with p others w show ?thesis unfolding outcome_published_def list_all_iff ds(1) by blast
  qed
qed


definition demo_outcome :: json where
  "demo_outcome = JObj [(''status'', JStr ''succeeded'')]"


section \<open>Compare and replace\<close>

text \<open>
  The replacement happens exactly when the stored outcome has the expected digest; afterwards the
  outcome is the replacement (or already had its digest), and a refusal changes nothing.
\<close>

lemma replace_if_matches:
  assumes "replace_outcome_if_matches calm_load en sha tmp key expected out d = (r, ds)" "undisturbed en"
    and "tmp \<notin> range sha" "wf_json out" "\<not> pe_fails en StatPublished" "\<not> pe_fails en CheckPublished"
  shows "(\<forall>x \<in> set ds. load_outcome calm_load sha key x \<in> {load_outcome calm_load sha key d, Inr (Some out)}) \<and>
    (\<forall>x \<in> set ds. load_outcome calm_load sha key x \<noteq> load_outcome calm_load sha key d \<longrightarrow>
       (\<exists>current. load_outcome calm_load sha key d = Inr (Some current) \<and>
          exact_command_outcome_digest sha current = expected)) \<and>
    (\<forall>k. sha k \<noteq> sha key \<longrightarrow> (\<forall>x \<in> set ds. load_outcome calm_load sha k x = load_outcome calm_load sha k d)) \<and>
    (r = Inr True \<longrightarrow> (\<exists>stored. load_outcome calm_load sha key (last ds) = Inr (Some stored) \<and>
       exact_command_outcome_digest sha stored = exact_command_outcome_digest sha out))"
proof (cases "load_outcome calm_load sha key d")
  case (Inl e)
  then show ?thesis using assms(1) by (auto simp: replace_outcome_if_matches_def)
next
  case (Inr v)
  show ?thesis
  proof (cases v)
    case None
    then show ?thesis using assms(1) Inr by (auto simp: replace_outcome_if_matches_def)
  next
    case (Some current)
    consider "exact_command_outcome_digest sha current \<noteq> expected"
      | "exact_command_outcome_digest sha current = expected" "exact_command_outcome_digest sha out = expected"
      | "exact_command_outcome_digest sha current = expected" "exact_command_outcome_digest sha out \<noteq> expected" by blast
    then show ?thesis
    proof cases
      case 3
      obtain r1 ds1 where st: "store_outcome en sha tmp key out d = (r1, ds1)" by (metis prod.exhaust)
      have r: "ds = ds1" "r = Inr True \<longrightarrow> r1 = Inr ()"
        using assms(1) 3 Inr Some st by (auto simp: replace_outcome_if_matches_def split: sum.splits)
      note s = store_states [OF st assms(2-6)]
      have "load_outcome calm_load sha key x \<in> {load_outcome calm_load sha key d, Inr (Some out)}" if "x \<in> set ds" for x
        using s that load_same [of x sha key d calm_load] r(1) by blast
      moreover have "load_outcome calm_load sha k x = load_outcome calm_load sha k d" if "sha k \<noteq> sha key" "x \<in> set ds" for k x
        using s that load_same [of x sha k d calm_load] r(1) by blast
      ultimately show ?thesis using s r Inr Some 3(1) by blast
    qed (use assms(1) Inr Some in \<open>auto simp: replace_outcome_if_matches_def\<close>)
  qed
qed

end
