(* ===== verification/DurableState.thy ===== *)
theory DurableState
  imports OutcomeFiles JsValues "HOL-Library.Multiset"
begin

text \<open>
  What of the runtime outlives a compaction (\<open>src/src/control/runtime.ts\<close>, with the receipt guards of
  \<open>types.ts\<close> and the snapshot file of \<open>journal.ts\<close>): the projections of the events onto open and
  completed transactions and receipts, the snapshot file that holds them, and the outcomes that
  terminal events stand for. The members of a record read from the snapshot beyond the declared ones
  are dropped here; the code carries them along unread.
\<close>

section \<open>Receipts in the journal\<close>

definition optional_string :: "json option \<Rightarrow> bool" where
  "optional_string v \<longleftrightarrow> v = None \<or> is_json_string v"

definition json_safe_integer :: "json option \<Rightarrow> bool" where
  "json_safe_integer v = (case v of Some (JNum i) \<Rightarrow> \<bar>i\<bar> \<le> MAX_SAFE_INTEGER | _ \<Rightarrow> False)"

definition json_at_least :: "int \<Rightarrow> json option \<Rightarrow> bool" where
  "json_at_least n v = (case v of Some (JNum i) \<Rightarrow> n \<le> i | _ \<Rightarrow> False)"

definition optional_positive_integer :: "json option \<Rightarrow> bool" where
  "optional_positive_integer v \<longleftrightarrow> v = None \<or> (json_safe_integer v \<and> json_at_least 1 v)"

definition optional_non_negative_integer :: "json option \<Rightarrow> bool" where
  "optional_non_negative_integer v \<longleftrightarrow> v = None \<or> (json_safe_integer v \<and> json_at_least 0 v)"

text \<open>Numbers of \<open>json\<close> are finite.\<close>

definition optional_non_negative_number :: "json option \<Rightarrow> bool" where
  "optional_non_negative_number v \<longleftrightarrow> v = None \<or> json_at_least 0 v"

definition is_action_receipt_state :: "json option \<Rightarrow> bool" where
  "is_action_receipt_state v \<longleftrightarrow>
    v \<in> Some ` JStr ` {''queued'', ''running'', ''approval_required'', ''succeeded'', ''failed'', ''denied'', ''expired'', ''unknown''}"

definition is_sha256_digest :: "string \<Rightarrow> bool" where
  "is_sha256_digest s \<longleftrightarrow> length s = 64 \<and>
     list_all (\<lambda>c. (48 \<le> (of_char c :: nat) \<and> (of_char c :: nat) \<le> 57) \<or> (97 \<le> (of_char c :: nat) \<and> (of_char c :: nat) \<le> 102)) s"

definition is_journal_receipt_resource :: "json option \<Rightarrow> bool" where
  "is_journal_receipt_resource v =
    (case v of
       Some (JObj ms) \<Rightarrow>
        (case map_of ms ''idDigest'' of Some (JStr s) \<Rightarrow> is_sha256_digest s | _ \<Rightarrow> False) \<and>
        (if map_of ms ''kind'' = Some (JStr ''project'') then map_of ms ''generation'' = None
         else map_of ms ''kind'' \<in> {Some (JStr ''pane''), Some (JStr ''browser_tab'')} \<and>
              json_safe_integer (map_of ms ''generation'') \<and> json_at_least 1 (map_of ms ''generation''))
     | _ \<Rightarrow> False)"

definition is_journal_action_receipt :: "json option \<Rightarrow> bool" where
  "is_journal_action_receipt v =
    (case v of
       Some (JObj ms) \<Rightarrow>
        map_of ms ''schema'' = Some (JStr ''psyche.control.receipt/v1'') \<and>
        is_json_string (map_of ms ''actionId'') \<and> is_action_receipt_state (map_of ms ''state'') \<and>
        is_json_string (map_of ms ''createdAt'') \<and> is_journal_receipt_resource (map_of ms ''resource'') \<and>
        optional_string (map_of ms ''taskId'') \<and> optional_string (map_of ms ''actorId'') \<and>
        optional_string (map_of ms ''leaseId'') \<and> optional_positive_integer (map_of ms ''leaseRevision'') \<and>
        optional_string (map_of ms ''completedAt'') \<and> optional_string (map_of ms ''code'') \<and>
        optional_string (map_of ms ''sourceDigest'') \<and> optional_non_negative_integer (map_of ms ''sourceBytes'') \<and>
        optional_non_negative_integer (map_of ms ''resultBytes'') \<and>
        optional_non_negative_number (map_of ms ''durationMs'') \<and>
        map_of ms ''message'' = None \<and> map_of ms ''value'' = None
     | _ \<Rightarrow> False)"

definition payload_member :: "json \<Rightarrow> string \<Rightarrow> json option" where
  "payload_member e k = (case event_member e ''payload'' of Some (JObj p) \<Rightarrow> map_of p k | _ \<Rightarrow> None)"

text \<open>The receipt of an event, if it has a well-formed one.\<close>

definition durable_journal_receipt_payload :: "json \<Rightarrow> json option" where
  "durable_journal_receipt_payload e =
    (let receipt = payload_member e ''receipt'' in if is_journal_action_receipt receipt then receipt else None)"

definition json_string_member :: "json \<Rightarrow> string \<Rightarrow> string option" where
  "json_string_member j k = (case event_member j k of Some (JStr s) \<Rightarrow> Some s | _ \<Rightarrow> None)"

definition receipt_action_id :: "json \<Rightarrow> string" where
  "receipt_action_id r = (case json_string_member r ''actionId'' of Some s \<Rightarrow> s | None \<Rightarrow> [])"

section \<open>Projections of the events\<close>

record completed_transaction =
  ct_sequence :: int
  ct_commandId :: string
  ct_key :: string

record receipt_record =
  dr_sequence :: int
  dr_commandId :: string
  dr_key :: string
  dr_receipt :: json

definition MAX_DURABLE_RECORDS :: nat where "MAX_DURABLE_RECORDS = 1000"

text \<open>\<open>xs.slice(-n)\<close> for \<open>n > 0\<close>.\<close>

definition last_n :: "nat \<Rightarrow> 'a list \<Rightarrow> 'a list" where
  "last_n n xs = drop (length xs - n) xs"

text \<open>The pattern of the projections: a \<open>Map\<close> filled in order, its values sorted by sequence.\<close>

definition fill_map :: "('r \<Rightarrow> 'k) \<Rightarrow> 'r list \<Rightarrow> ('k, 'r) jsmap \<Rightarrow> ('k, 'r) jsmap" where
  "fill_map key rs m = fold (\<lambda>r. jm_set (key r) r) rs m"

definition completed_tx :: "completed_transaction \<Rightarrow> string" where
  "completed_tx t = command_transaction_key (ct_commandId t) (ct_key t)"

definition terminal_ids :: "json \<Rightarrow> (string \<times> string) option" where
  "terminal_ids e =
    (if event_kind e \<notin> set TERMINAL_KINDS then None
     else (case (payload_string e ''commandId'', payload_string e ''idempotencyKey'') of
       (Some commandId, Some key) \<Rightarrow> if commandId = [] \<or> key = [] then None else Some (commandId, key)
     | _ \<Rightarrow> None))"

definition completed_of :: "json \<Rightarrow> completed_transaction option" where
  "completed_of e = map_option (\<lambda>(c, k). \<lparr>ct_sequence = event_sequence e, ct_commandId = c, ct_key = k\<rparr>) (terminal_ids e)"

definition durable_completed_transactions :: "completed_transaction list \<Rightarrow> json list \<Rightarrow> completed_transaction list" where
  "durable_completed_transactions restored events =
    last_n MAX_DURABLE_RECORDS (sort_key ct_sequence
      (jm_values (fill_map completed_tx (List.map_filter completed_of events) (fill_map completed_tx restored []))))"

definition receipt_of :: "json \<Rightarrow> receipt_record option" where
  "receipt_of e =
    (case (durable_journal_receipt_payload e, terminal_ids e) of
       (Some r, Some (c, k)) \<Rightarrow> Some \<lparr>dr_sequence = event_sequence e, dr_commandId = c, dr_key = k, dr_receipt = r\<rparr>
     | _ \<Rightarrow> None)"

definition receipt_key :: "receipt_record \<Rightarrow> string" where
  "receipt_key r = receipt_action_id (dr_receipt r)"

definition latest_durable_receipt_records :: "json list \<Rightarrow> receipt_record list" where
  "latest_durable_receipt_records events =
    sort_key dr_sequence (jm_values (fill_map receipt_key (List.map_filter receipt_of events) []))"

definition merge_durable_receipt_records :: "receipt_record list \<Rightarrow> receipt_record list \<Rightarrow> receipt_record list" where
  "merge_durable_receipt_records restored replayed =
    sort_key dr_sequence (jm_values (fill_map receipt_key replayed (fill_map receipt_key restored [])))"

definition open_step :: "json \<Rightarrow> (string, open_transaction) jsmap \<Rightarrow> (string, open_transaction) jsmap" where
  "open_step e m =
    (case (payload_string e ''commandId'', payload_string e ''idempotencyKey'') of
       (Some commandId, Some key) \<Rightarrow>
         if commandId = [] \<or> key = [] then m
         else let tx = command_transaction_key commandId key
              in if event_kind e \<in> set TERMINAL_KINDS then jm_delete tx m
                 else if event_kind e \<in> set OPEN_KINDS
                 then jm_set tx \<lparr>ot_sequence = event_sequence e, ot_commandId = commandId, ot_key = key,
                                  ot_kind = event_kind e\<rparr> m
                 else m
     | _ \<Rightarrow> m)"

definition open_transactions :: "open_transaction list \<Rightarrow> json list \<Rightarrow> (string, open_transaction) jsmap" where
  "open_transactions restored events = fold open_step events (fill_map tx_of restored [])"

text \<open>\<open>None\<close>: the capacity of durable open transactions is exhausted, and the compaction fails.\<close>

definition durable_open_transactions :: "open_transaction list \<Rightarrow> json list \<Rightarrow> open_transaction list option" where
  "durable_open_transactions restored events =
    (let opn = open_transactions restored events
     in if length opn > pendingCommands AGENT_CONTROL_LIMITS then None else Some (sort_key ot_sequence (jm_values opn)))"

section \<open>A map whose values carry their keys\<close>

definition keyed :: "('r \<Rightarrow> 'k) \<Rightarrow> ('k, 'r) jsmap \<Rightarrow> bool" where
  "keyed key m \<longleftrightarrow> jm_ok m \<and> (\<forall>k r. jm_get m k = Some r \<longrightarrow> key r = k)"

lemma keyed_empty [simp]: "keyed key []"
  by (simp add: keyed_def)

lemma keyed_set: "keyed key m \<Longrightarrow> keyed key (jm_set (key r) r m)"
  by (auto simp: keyed_def split: if_splits)

lemma keyed_delete: "keyed key m \<Longrightarrow> keyed key (jm_delete k m)"
  by (auto simp: keyed_def split: if_splits)

lemma keyed_fill: "keyed key m \<Longrightarrow> keyed key (fill_map key rs m)"
  by (induction rs arbitrary: m) (auto simp: fill_map_def keyed_set)

lemma fill_map_append: "fill_map key (rs @ rs') m = fill_map key rs' (fill_map key rs m)"
  by (simp add: fill_map_def)

definition last_of :: "('r \<Rightarrow> 'k) \<Rightarrow> 'r list \<Rightarrow> 'k \<Rightarrow> 'r option" where
  "last_of key rs k = find (\<lambda>r. key r = k) (rev rs)"

lemma get_fill: "jm_get (fill_map key rs m) k = (case last_of key rs k of None \<Rightarrow> jm_get m k | Some r \<Rightarrow> Some r)"
proof (induction rs arbitrary: m)
  case (Cons r rs)
  have "last_of key (r # rs) k = (case last_of key rs k of None \<Rightarrow> if key r = k then Some r else None | Some x \<Rightarrow> Some x)"
    by (simp add: last_of_def find_append_case split: option.split)
  with Cons [of "jm_set (key r) r m"] show ?case by (auto simp: fill_map_def split: option.split)
qed (simp add: fill_map_def last_of_def)

lemma keyed_values:
  assumes "keyed key m"
  shows "r \<in> set (jm_values m) \<longleftrightarrow> jm_get m (key r) = Some r" "distinct (map key (jm_values m))" "distinct (jm_values m)"
proof -
  from assms have ok: "jm_ok m" and k: "\<And>k r. jm_get m k = Some r \<Longrightarrow> key r = k" by (auto simp: keyed_def)
  show "r \<in> set (jm_values m) \<longleftrightarrow> jm_get m (key r) = Some r"
    using jm_values_iff [OF ok] k by metis
  have eq: "map key (jm_values m) = map fst m"
  proof (rule nth_equalityI)
    fix i assume "i < length (map key (jm_values m))"
    then have i: "i < length m" by simp
    then have "jm_get m (fst (m ! i)) = Some (snd (m ! i))"
      using ok by (intro map_of_is_SomeI) (simp_all add: prod_eq_iff)
    from k [OF this] show "map key (jm_values m) ! i = map fst m ! i" using i by simp
  qed simp
  show d: "distinct (map key (jm_values m))" unfolding eq by (rule ok)
  then show "distinct (jm_values m)" unfolding distinct_map [of key] by (rule conjunct1)
qed

lemma sorted_values_unique:
  assumes "distinct xs" "distinct ys" "set xs = set ys" "inj_on sq (set xs)" "sorted (map sq ys)"
  shows "sort_key sq xs = ys"
proof (rule sort_key_inj_key_eq)
  show "mset xs = mset ys" using assms(1-3) by (simp add: set_eq_iff_mset_eq_distinct)
qed (use assms in auto)

text \<open>The values of a map are those of any map with the same entries.\<close>

lemma same_values:
  assumes "keyed key m" "keyed key m'" "\<And>k. jm_get m k = jm_get m' k"
  shows "set (jm_values m) = set (jm_values m')"
proof (rule set_eqI)
  fix r show "r \<in> set (jm_values m) \<longleftrightarrow> r \<in> set (jm_values m')"
    unfolding keyed_values(1) [OF assms(1)] keyed_values(1) [OF assms(2)] assms(3) ..
qed

lemma same_sorted_values:
  assumes "keyed key m" "keyed key m'" "\<And>k. jm_get m k = jm_get m' k" "inj_on sq (set (jm_values m))"
  shows "sort_key sq (jm_values m) = sort_key sq (jm_values m')"
  by (rule sorted_values_unique)
    (use keyed_values(3) [OF assms(1)] keyed_values(3) [OF assms(2)] same_values [OF assms(1-3)] assms(4) in simp_all)

text \<open>Filling a map with the values of another, in any order, gives its entries.\<close>

lemma get_refill:
  assumes "keyed key m" "set vs = set (jm_values m)" "distinct (map key vs)"
  shows "jm_get (fill_map key vs []) k = jm_get m k"
proof -
  have "last_of key vs k = jm_get m k"
  proof (cases "jm_get m k")
    case None
    have "key r \<noteq> k" if "r \<in> set vs" for r
      using keyed_values(1) [OF assms(1), of r] that assms(2) None by auto
    then show ?thesis using None by (auto simp: last_of_def find_None_iff)
  next
    case (Some r)
    then have r: "r \<in> set vs" "key r = k" using keyed_values(1) [OF assms(1), of r] assms(1,2) by (auto simp: keyed_def)
    obtain x where x: "last_of key vs k = Some x" using r by (cases "last_of key vs k") (auto simp: last_of_def find_None_iff)
    then have "x \<in> set vs" "key x = k" by (auto simp: last_of_def dest!: find_first)
    with r have "x = r" using assms(3) by (metis (full_types) distinct_map inj_on_eq_iff)
    with x Some show ?thesis by simp
  qed
  then show ?thesis by (cases "jm_get m k") (simp_all add: get_fill)
qed

lemma refill_sorted:
  assumes "keyed key m"
  shows "jm_get (fill_map key (sort_key sq (jm_values m)) []) k = jm_get m k"
proof (rule get_refill [OF assms])
  have "mset (map key (sort_key sq (jm_values m))) = mset (map key (jm_values m))"
    by (simp only: mset_map mset_sort)
  then show "distinct (map key (sort_key sq (jm_values m)))"
    using keyed_values(2) [OF assms] mset_eq_imp_distinct_iff by blast
qed simp

section \<open>Projecting in two steps\<close>

text \<open>The last \<open>N\<close> of the records, one per key, the later one winning.\<close>

definition latest_records :: "nat \<Rightarrow> ('r \<Rightarrow> 'k) \<Rightarrow> ('r \<Rightarrow> int) \<Rightarrow> 'r list \<Rightarrow> 'r list" where
  "latest_records N key sq rs = last_n N (sort_key sq (jm_values (fill_map key rs [])))"

lemma last_n_append: "last_n n (xs @ ys) = last_n (n - length ys) xs @ last_n n ys"
  by (cases "n \<le> length ys") (simp_all add: last_n_def)

lemma last_n_suffix: "n \<le> length ys \<Longrightarrow> last_n n (xs @ ys) = last_n n ys"
  by (simp add: last_n_def)

lemma last_n_split: "xs = take (length xs - n) xs @ last_n n xs"
  by (simp add: last_n_def)

lemma last_n_filter:
  assumes "m + length (filter (\<lambda>x. \<not> P x) (last_n N xs)) \<le> N"
  shows "last_n m (filter P (last_n N xs)) = last_n m (filter P xs)"
proof (cases "length xs \<le> N")
  case True
  then show ?thesis by (simp add: last_n_def)
next
  case False
  let ?D = "take (length xs - N) xs"
  have "length (last_n N xs) = N" using False by (simp add: last_n_def)
  moreover have "length (filter P (last_n N xs)) + length (filter (\<lambda>x. \<not> P x) (last_n N xs)) = length (last_n N xs)"
    by (rule sum_length_filter_compl)
  ultimately have "m \<le> length (filter P (last_n N xs))" using assms by simp
  then have "last_n m (filter P ?D @ filter P (last_n N xs)) = last_n m (filter P (last_n N xs))" by (rule last_n_suffix)
  moreover have "filter P xs = filter P ?D @ filter P (last_n N xs)"
    by (subst last_n_split [of xs N]) (rule filter_append)
  ultimately show ?thesis by simp
qed

lemma fill_values:
  assumes "r \<in> set (jm_values (fill_map key rs m))" "keyed key m"
  shows "r \<in> set rs \<or> r \<in> set (jm_values m)"
proof -
  have "jm_get (fill_map key rs m) (key r) = Some r" using keyed_values(1) [OF keyed_fill [OF assms(2)]] assms(1) by blast
  then show ?thesis
    using keyed_values(1) [OF assms(2), of r]
    by (auto simp: get_fill last_of_def split: option.splits dest!: find_first)
qed

lemma latest_split:
  assumes "distinct (map sq (rs1 @ rs2))" "\<And>r r'. r \<in> set rs1 \<Longrightarrow> r' \<in> set rs2 \<Longrightarrow> sq r < sq r'"
  shows "sort_key sq (jm_values (fill_map key (rs1 @ rs2) [])) =
    filter (\<lambda>r. key r \<notin> key ` set rs2) (sort_key sq (jm_values (fill_map key rs1 []))) @
    sort_key sq (jm_values (fill_map key rs2 []))" (is "sort_key sq (jm_values ?M) = filter ?P (sort_key sq (jm_values ?M1)) @ sort_key sq (jm_values ?U)")
proof (rule sorted_values_unique)
  have k: "keyed key ?M" "keyed key ?M1" "keyed key ?U" by (rule keyed_fill, simp)+
  have v1: "r \<in> set rs1" if "r \<in> set (jm_values ?M1)" for r using fill_values [OF that] by simp
  have v2: "r \<in> set rs2" if "r \<in> set (jm_values ?U)" for r using fill_values [OF that] by simp
  have v: "r \<in> set rs1 \<union> set rs2" if "r \<in> set (jm_values ?M)" for r using fill_values [OF that] by simp
  show "distinct (jm_values ?M)" by (rule keyed_values(3) [OF k(1)])
  show "distinct (filter ?P (sort_key sq (jm_values ?M1)) @ sort_key sq (jm_values ?U))"
    using keyed_values(3) [OF k(2)] keyed_values(3) [OF k(3)] v2 by (auto simp del: set_map)
  have none: "last_of key rs2 k = None \<longleftrightarrow> k \<notin> key ` set rs2" for k
    by (auto simp: last_of_def find_None_iff)
  show "set (jm_values ?M) = set (filter ?P (sort_key sq (jm_values ?M1)) @ sort_key sq (jm_values ?U))"
  proof (rule set_eqI)
    fix r
    have "r \<in> set (jm_values ?M) \<longleftrightarrow> jm_get ?M (key r) = Some r" by (rule keyed_values(1) [OF k(1)])
    also have "\<dots> \<longleftrightarrow> (case last_of key rs2 (key r) of None \<Rightarrow> jm_get ?M1 (key r) | Some x \<Rightarrow> Some x) = Some r"
      by (simp only: fill_map_append get_fill [of key rs2])
    also have "\<dots> \<longleftrightarrow> (key r \<notin> key ` set rs2 \<and> jm_get ?M1 (key r) = Some r) \<or> jm_get ?U (key r) = Some r"
    proof (cases "last_of key rs2 (key r)")
      case None
      then show ?thesis using none [of "key r"] by (simp add: get_fill)
    next
      case (Some x)
      then have "key r \<in> key ` set rs2" using none [of "key r"] by simp
      then show ?thesis using Some by (simp only: get_fill) simp
    qed
    also have "\<dots> \<longleftrightarrow> r \<in> set (filter ?P (sort_key sq (jm_values ?M1)) @ sort_key sq (jm_values ?U))"
      using keyed_values(1) [OF k(2), of r] keyed_values(1) [OF k(3), of r] by (auto simp del: set_map)
    finally show "r \<in> set (jm_values ?M) \<longleftrightarrow> r \<in> set (filter ?P (sort_key sq (jm_values ?M1)) @ sort_key sq (jm_values ?U))" .
  qed
  have "inj_on sq (set (rs1 @ rs2))" using assms(1) unfolding distinct_map [of sq] by (rule conjunct2)
  then show "inj_on sq (set (jm_values ?M))" by (rule inj_on_subset) (use v in auto)
  show "sorted (map sq (filter ?P (sort_key sq (jm_values ?M1)) @ sort_key sq (jm_values ?U)))"
  proof -
    define A B where "A = filter ?P (sort_key sq (jm_values ?M1))" and "B = sort_key sq (jm_values ?U)"
    have "set A \<subseteq> set (jm_values ?M1)" "set B = set (jm_values ?U)" by (auto simp: A_def B_def simp del: set_map)
    then have "sq r \<le> sq r'" if "r \<in> set A" "r' \<in> set B" for r r'
      using assms(2) [OF v1 [of r] v2 [of r']] that by (blast intro: less_imp_le)
    moreover have "sorted (map sq A)" "sorted (map sq B)" by (simp_all add: A_def B_def sorted_filter)
    ultimately have "sorted (map sq (A @ B))" by (auto simp: sorted_append)
    then show ?thesis by (simp only: A_def B_def)
  qed
qed

text \<open>Projecting what a projection kept, with newer records, gives what projecting everything gives.\<close>

lemma latest_records_incremental:
  assumes "distinct (map sq (rs1 @ rs2))" "\<And>r r'. r \<in> set rs1 \<Longrightarrow> r' \<in> set rs2 \<Longrightarrow> sq r < sq r'"
  shows "latest_records N key sq (latest_records N key sq rs1 @ rs2) = latest_records N key sq (rs1 @ rs2)"
proof -
  let ?M1 = "fill_map key rs1 []" and ?S = "sort_key sq (jm_values (fill_map key rs1 []))"
  let ?C = "last_n N ?S" and ?U = "sort_key sq (jm_values (fill_map key rs2 []))"
  let ?P = "\<lambda>r. key r \<notin> key ` set rs2"
  have k: "keyed key ?M1" "keyed key (fill_map key rs2 [])" by (rule keyed_fill, simp)+
  have sub: "set ?C \<subseteq> set rs1"
    using fill_values [where m = "[]" and key = key and rs = rs1] by (auto simp: last_n_def dest!: in_set_dropD)
  have dk: "distinct (map key ?S)"
    using keyed_values(2) [OF k(1)] mset_eq_imp_distinct_iff [of "map key ?S" "map key (jm_values ?M1)"] by (simp only: mset_map mset_sort)
  then have dC: "distinct (map key ?C)" by (simp add: last_n_def drop_map [symmetric])
  have inj: "inj_on sq (set (rs1 @ rs2))" using assms(1) unfolding distinct_map [of sq] by (rule conjunct2)
  have dCk: "distinct ?C" using dC unfolding distinct_map [of key] by (rule conjunct1)
  have "sort_key sq (jm_values (fill_map key ?C [])) = ?C"
  proof (rule sorted_values_unique)
    have kC: "keyed key (fill_map key ?C [])" by (rule keyed_fill) simp
    show "distinct (jm_values (fill_map key ?C []))" by (rule keyed_values(3) [OF kC])
    show "distinct ?C" by (rule dCk)
    show eq: "set (jm_values (fill_map key ?C [])) = set ?C"
    proof (rule set_eqI)
      fix r
      have "last_of key ?C (key r) = Some r \<longleftrightarrow> r \<in> set ?C"
      proof
        assume "last_of key ?C (key r) = Some r"
        then show "r \<in> set ?C" by (auto simp: last_of_def dest!: find_first)
      next
        assume r: "r \<in> set ?C"
        then obtain x where x: "last_of key ?C (key r) = Some x" by (cases "last_of key ?C (key r)") (auto simp: last_of_def find_None_iff)
        then have "x \<in> set ?C" "key x = key r" by (auto simp: last_of_def dest!: find_first)
        with dC r have "x = r" unfolding distinct_map [of key] by (meson inj_onD)
        with x show "last_of key ?C (key r) = Some r" by simp
      qed
      then show "r \<in> set (jm_values (fill_map key ?C [])) \<longleftrightarrow> r \<in> set ?C"
        unfolding keyed_values(1) [OF kC] by (cases "last_of key ?C (key r)") (simp_all add: get_fill)
    qed
    show "inj_on sq (set (jm_values (fill_map key ?C [])))"
      unfolding eq by (rule inj_on_subset [OF inj]) (use sub in auto)
    have "sorted (map sq ?S)" by simp
    then show "sorted (map sq ?C)" by (simp add: last_n_def drop_map [symmetric] sorted_wrt_drop)
  qed
  moreover have lt: "sq r < sq r'" if "r \<in> set ?C" "r' \<in> set rs2" for r r' using assms(2) sub that by blast
  moreover have "distinct (map sq (?C @ rs2))"
  proof -
    have "distinct (map sq ?C)" unfolding distinct_map [of sq] using dCk inj_on_subset [OF inj, of "set ?C"] sub by auto
    moreover have "distinct (map sq rs2)" using assms(1) by simp
    moreover have "sq ` set ?C \<inter> sq ` set rs2 = {}" using lt by fastforce
    ultimately show ?thesis by simp
  qed
  ultimately have "sort_key sq (jm_values (fill_map key (?C @ rs2) [])) = filter ?P ?C @ ?U"
    using latest_split [of sq ?C rs2 key] by simp
  moreover have "sort_key sq (jm_values (fill_map key (rs1 @ rs2) [])) = filter ?P ?S @ ?U"
    by (rule latest_split [OF assms])
  moreover have "last_n (N - length ?U) (filter ?P ?C) = last_n (N - length ?U) (filter ?P ?S)" if "length ?U \<le> N"
  proof (rule last_n_filter)
    have "length (filter (\<lambda>r. \<not> ?P r) ?C) = length (map key (filter (\<lambda>r. \<not> ?P r) ?C))" by simp
    also have "\<dots> = card (set (map key (filter (\<lambda>r. \<not> ?P r) ?C)))"
      by (rule distinct_card [symmetric]) (use dC in \<open>simp add: distinct_map_filter\<close>)
    also have "\<dots> \<le> card (key ` set rs2)" by (rule card_mono) auto
    also have "\<dots> \<le> length ?U"
    proof -
      have "key ` set rs2 \<subseteq> set (map fst (fill_map key rs2 []))"
      proof
        fix x assume "x \<in> key ` set rs2"
        then have "jm_get (fill_map key rs2 []) x \<noteq> None" by (auto simp: get_fill last_of_def find_None_iff split: option.split)
        then show "x \<in> set (map fst (fill_map key rs2 []))" by (simp add: map_of_eq_None_iff)
      qed
      then have "card (key ` set rs2) \<le> card (set (map fst (fill_map key rs2 [])))" by (intro card_mono) simp_all
      also have "\<dots> \<le> length (map fst (fill_map key rs2 []))" by (rule card_length)
      finally show ?thesis by simp
    qed
    finally show "N - length ?U + length (filter (\<lambda>x. \<not> ?P x) ?C) \<le> N" using that by simp
  qed
  ultimately show ?thesis
    by (cases "length ?U \<le> N") (simp_all add: latest_records_def last_n_append, simp add: last_n_def)
qed

section \<open>Open commands\<close>

definition opened_of :: "json \<Rightarrow> open_transaction option" where
  "opened_of e =
    (case (payload_string e ''commandId'', payload_string e ''idempotencyKey'') of
       (Some commandId, Some key) \<Rightarrow>
         if commandId = [] \<or> key = [] \<or> event_kind e \<in> set TERMINAL_KINDS \<or> event_kind e \<notin> set OPEN_KINDS then None
         else Some \<lparr>ot_sequence = event_sequence e, ot_commandId = commandId, ot_key = key, ot_kind = event_kind e\<rparr>
     | _ \<Rightarrow> None)"

text \<open>What one event does to the entry of a transaction, if anything.\<close>

definition open_effect :: "json \<Rightarrow> string \<Rightarrow> open_transaction option option" where
  "open_effect e tx =
    (case terminal_ids e of
       Some (c, k) \<Rightarrow> if command_transaction_key c k = tx then Some None else None
     | None \<Rightarrow> (case opened_of e of
         Some t \<Rightarrow> if tx_of t = tx then Some (Some t) else None
       | None \<Rightarrow> None))"

lemma open_step_cases:
  "open_step e m =
    (case terminal_ids e of
       Some (c, k) \<Rightarrow> jm_delete (command_transaction_key c k) m
     | None \<Rightarrow> (case opened_of e of Some t \<Rightarrow> jm_set (tx_of t) t m | None \<Rightarrow> m))"
  by (simp add: open_step_def terminal_ids_def opened_of_def tx_of_def Let_def split: option.split)

lemma get_open_step: "jm_get (open_step e m) tx = (case open_effect e tx of None \<Rightarrow> jm_get m tx | Some v \<Rightarrow> v)"
  by (simp add: open_step_cases open_effect_def split: option.split prod.split)

fun last_effect :: "json list \<Rightarrow> string \<Rightarrow> open_transaction option option" where
  "last_effect [] tx = None"
| "last_effect (e # es) tx = (case last_effect es tx of None \<Rightarrow> open_effect e tx | Some v \<Rightarrow> Some v)"

lemma last_effect_append:
  "last_effect (xs @ ys) tx = (case last_effect ys tx of None \<Rightarrow> last_effect xs tx | Some v \<Rightarrow> Some v)"
  by (induction xs) (auto split: option.split)

lemma get_open_fold: "jm_get (fold open_step es m) tx = (case last_effect es tx of None \<Rightarrow> jm_get m tx | Some v \<Rightarrow> v)"
  by (induction es arbitrary: m) (auto simp: get_open_step split: option.split)

lemma keyed_open: "keyed tx_of m \<Longrightarrow> keyed tx_of (fold open_step es m)"
  by (induction es arbitrary: m)
    (auto simp: open_step_cases keyed_set keyed_delete split: option.split prod.split)

lemma keyed_transactions: "keyed tx_of (open_transactions restored es)"
  by (simp add: open_transactions_def keyed_open keyed_fill)

lemma scan_is_open: "snd (scan_events restored es) = open_transactions restored es"
proof -
  have "snd (scan_event e st) = open_step e (snd st)" for e st
    by (cases st) (simp add: scan_event_def open_step_def Let_def split: option.split)
  then have "snd (fold scan_event es st) = fold open_step es (snd st)" for st
    by (induction es arbitrary: st) simp_all
  then show ?thesis
    by (simp add: scan_events_def open_transactions_def restored_transactions_def fill_map_def tx_of_def)
qed

text \<open>
  A snapshot taken after \<open>a @ b\<close> together with a journal that still holds \<open>b\<close> and goes on with \<open>c\<close>: the
  overlap is replayed without harm.
\<close>

lemma open_overlap:
  assumes "durable_open_transactions restored (a @ b) = Some opn"
  shows "jm_get (open_transactions opn (b @ c)) tx = jm_get (open_transactions restored (a @ b @ c)) tx"
proof -
  let ?m = "open_transactions restored (a @ b)"
  have "opn = sort_key ot_sequence (jm_values ?m)"
    using assms by (simp add: durable_open_transactions_def Let_def split: if_splits)
  then have "jm_get (fill_map tx_of opn []) tx = jm_get ?m tx"
    using refill_sorted [OF keyed_transactions] by simp
  then show ?thesis
    by (simp add: open_transactions_def get_open_fold last_effect_append split: option.split)
qed

section \<open>Projections are incremental\<close>

lemma extracted_sequences:
  assumes "events_from n es" "\<And>e r. f e = Some r \<Longrightarrow> sq r = event_sequence e"
  shows "distinct (map sq (List.map_filter f es)) \<and> (\<forall>r \<in> set (List.map_filter f es). n \<le> sq r \<and> sq r < n + int (length es))"
  using assms(1)
proof (induction es arbitrary: n)
  case (Cons e es)
  then have e: "event_sequence e = n" by (auto dest: event_okD(1))
  note IH = Cons.IH [of "n + 1"] Cons.prems
  show ?case
  proof (cases "f e")
    case None
    with IH show ?thesis by (fastforce simp: List.map_filter_simps)
  next
    case (Some r)
    with IH e assms(2) [OF Some] show ?thesis by (fastforce simp: List.map_filter_simps)
  qed
qed (simp add: List.map_filter_simps)

text \<open>Records restored from a snapshot: one sequence number each, all before the events.\<close>

definition restored_before :: "int \<Rightarrow> ('r \<Rightarrow> int) \<Rightarrow> 'r list \<Rightarrow> bool" where
  "restored_before n sq rs \<longleftrightarrow> distinct (map sq rs) \<and> list_all (\<lambda>r. sq r < n) rs"

lemma extracted_after:
  assumes "events_from n (es1 @ es2)" "\<And>e r. f e = Some r \<Longrightarrow> sq r = event_sequence e" "restored_before n sq rs"
  defines "A \<equiv> rs @ List.map_filter f es1" and "B \<equiv> List.map_filter f es2"
  shows "distinct (map sq (A @ B)) \<and> (\<forall>r \<in> set A. \<forall>r' \<in> set B. sq r < sq r')"
proof -
  have e: "events_from n es1" "events_from (n + int (length es1)) es2" using assms(1) by (simp_all add: events_from_append)
  note x1 = extracted_sequences [where f = f and sq = sq, OF e(1) assms(2)]
  note x2 = extracted_sequences [where f = f and sq = sq, OF e(2) assms(2)]
  have r: "distinct (map sq rs)" "\<And>x. x \<in> set rs \<Longrightarrow> sq x < n" using assms(3) by (auto simp: restored_before_def list_all_iff)
  have "\<forall>r \<in> set A. sq r < n + int (length es1)"
    using x1 r(2) by (fastforce simp: A_def)
  then have lt: "\<forall>r \<in> set A. \<forall>r' \<in> set B. sq r < sq r'" using x2 by (fastforce simp: B_def)
  have "distinct (map sq A)" using x1 r by (fastforce simp: A_def)
  moreover have "distinct (map sq B)" using x2 by (simp add: B_def)
  moreover have "sq ` set A \<inter> sq ` set B = {}" using lt by fastforce
  ultimately show ?thesis using lt by simp
qed

lemma map_filter_append: "List.map_filter f (xs @ ys) = List.map_filter f xs @ List.map_filter f ys"
  by (simp add: List.map_filter_def)

lemma completed_is_latest:
  "durable_completed_transactions restored es = latest_records MAX_DURABLE_RECORDS completed_tx ct_sequence (restored @ List.map_filter completed_of es)"
  by (simp add: durable_completed_transactions_def latest_records_def fill_map_append)

definition durable_receipts :: "receipt_record list \<Rightarrow> json list \<Rightarrow> receipt_record list" where
  "durable_receipts restored events =
    last_n MAX_DURABLE_RECORDS (merge_durable_receipt_records restored (latest_durable_receipt_records events))"

lemma last_of_sorted: "last_of key (sort_key sq (jm_values (fill_map key rs []))) k = last_of key rs k"
proof -
  have k: "keyed key (fill_map key rs [])" by (rule keyed_fill) simp
  have "jm_get (fill_map key (sort_key sq (jm_values (fill_map key rs []))) []) k = jm_get (fill_map key rs []) k"
    by (rule refill_sorted [OF k])
  then show ?thesis by (simp only: get_fill map_of.simps option_case_id)
qed

lemma receipts_are_latest:
  assumes "distinct (map dr_sequence (restored @ List.map_filter receipt_of es))"
  shows "durable_receipts restored es = latest_records MAX_DURABLE_RECORDS receipt_key dr_sequence (restored @ List.map_filter receipt_of es)"
proof -
  let ?rs = "List.map_filter receipt_of es"
  let ?m = "fill_map receipt_key (sort_key dr_sequence (jm_values (fill_map receipt_key ?rs []))) (fill_map receipt_key restored [])"
  let ?m' = "fill_map receipt_key (restored @ ?rs) []"
  have k: "keyed receipt_key ?m" "keyed receipt_key ?m'" by (intro keyed_fill keyed_empty)+
  have same: "jm_get ?m x = jm_get ?m' x" for x
    by (simp only: fill_map_append get_fill [of receipt_key ?rs] get_fill [of receipt_key "sort_key _ _"] last_of_sorted)
  have "inj_on dr_sequence (set (restored @ ?rs))" using assms unfolding distinct_map [of dr_sequence] by (rule conjunct2)
  moreover have "set (jm_values ?m') \<subseteq> set (restored @ ?rs)" using fill_values [where m = "[]" and key = receipt_key] by force
  ultimately have inj: "inj_on dr_sequence (set (jm_values ?m'))" by (rule inj_on_subset)
  have "sort_key dr_sequence (jm_values ?m) = sort_key dr_sequence (jm_values ?m')"
    by (rule same_sorted_values [OF k same]) (use inj same_values [OF k same] in simp)
  then show ?thesis
    by (simp add: durable_receipts_def merge_durable_receipt_records_def latest_durable_receipt_records_def latest_records_def)
qed

lemma latest_records_distinct:
  assumes "distinct (map sq (rs1 @ rs2))"
  shows "distinct (map sq (latest_records N key sq rs1 @ rs2))"
proof -
  let ?S = "sort_key sq (jm_values (fill_map key rs1 []))"
  have k: "keyed key (fill_map key rs1 [])" by (rule keyed_fill) simp
  have inj: "inj_on sq (set (rs1 @ rs2))" using assms unfolding distinct_map [of sq] by (rule conjunct2)
  have sub: "set (last_n N ?S) \<subseteq> set rs1"
    using fill_values [where m = "[]" and key = key and rs = rs1] by (auto simp: last_n_def dest!: in_set_dropD)
  have "distinct ?S" using keyed_values(3) [OF k] by simp
  then have "distinct (last_n N ?S)" by (simp add: last_n_def)
  then have "distinct (map sq (last_n N ?S))"
    unfolding distinct_map [of sq] using inj_on_subset [OF inj, of "set (last_n N ?S)"] sub by auto
  moreover have "sq ` set rs1 \<inter> sq ` set rs2 = {}" "distinct (map sq rs2)" using assms by auto
  ultimately show ?thesis using sub by (auto simp: latest_records_def)
qed

lemma open_values:
  assumes "t \<in> set (jm_values (open_transactions restored es))"
  shows "t \<in> set (restored @ List.map_filter opened_of es)"
proof -
  have g: "jm_get (open_transactions restored es) (tx_of t) = Some t"
    using keyed_values(1) [OF keyed_transactions] assms by blast
  have ef: "\<exists>e \<in> set es. opened_of e = Some t" if "last_effect es tx = Some (Some t)" for tx
    using that
    by (induction es) (auto simp: open_effect_def split: option.splits prod.splits if_splits)
  show ?thesis
  proof (cases "last_effect es (tx_of t)")
    case None
    then have "jm_get (fill_map tx_of restored []) (tx_of t) = Some t"
      using g by (simp add: open_transactions_def get_open_fold)
    then show ?thesis by (auto simp: get_fill last_of_def split: option.splits dest!: find_first)
  next
    case (Some v)
    then have "v = Some t" using g by (simp add: open_transactions_def get_open_fold)
    with ef Some obtain e where "e \<in> set es" "opened_of e = Some t" by blast
    then show ?thesis by (force simp: List.map_filter_def)
  qed
qed

text \<open>
  C16. The durable state can be projected piece by piece. Projecting the events since the last snapshot
  onto the open transactions, completed transactions and receipts that snapshot holds gives exactly
  what projecting the whole history gives, the caps of a thousand records and of the pending commands
  included.
\<close>
theorem projections_incremental:
  assumes "events_from n (es1 @ es2)" and "restored_before n ot_sequence opens0"
    and "restored_before n ct_sequence done0" and "restored_before n dr_sequence receipts0"
    and "durable_open_transactions opens0 es1 = Some opn"
  shows "durable_open_transactions opn es2 = durable_open_transactions opens0 (es1 @ es2) \<and>
    durable_completed_transactions (durable_completed_transactions done0 es1) es2 = durable_completed_transactions done0 (es1 @ es2) \<and>
    durable_receipts (durable_receipts receipts0 es1) es2 = durable_receipts receipts0 (es1 @ es2)"
proof (intro conjI)
  let ?m = "open_transactions opn es2" and ?m' = "open_transactions opens0 (es1 @ es2)"
  have same: "jm_get ?m tx = jm_get ?m' tx" for tx using open_overlap [of opens0 es1 "[]" opn es2 tx] assms(5) by simp
  note k = keyed_transactions [of opn es2] keyed_transactions [of opens0 "es1 @ es2"]
  have sq: "\<And>e t. opened_of e = Some t \<Longrightarrow> ot_sequence t = event_sequence e"
    by (auto simp: opened_of_def split: option.splits if_splits)
  have "distinct (map ot_sequence (opens0 @ List.map_filter opened_of (es1 @ es2)))"
    using extracted_after [of n "es1 @ es2" "[]", OF _ sq assms(2)] assms(1) by (simp add: List.map_filter_simps)
  then have inj: "inj_on ot_sequence (set (jm_values ?m'))"
    unfolding distinct_map [of ot_sequence] using open_values inj_on_subset by (metis subsetI)
  have sorted: "sort_key ot_sequence (jm_values ?m) = sort_key ot_sequence (jm_values ?m')"
    by (rule same_sorted_values [OF k same]) (use inj same_values [OF k same] in simp)
  moreover have "length ?m = length ?m'"
    using arg_cong [OF sorted, of length] by (simp only: length_sort length_map)
  ultimately show "durable_open_transactions opn es2 = durable_open_transactions opens0 (es1 @ es2)"
    by (simp add: durable_open_transactions_def)
next
  have sq: "\<And>e t. completed_of e = Some t \<Longrightarrow> ct_sequence t = event_sequence e"
    by (auto simp: completed_of_def)
  note x = extracted_after [where f = completed_of, OF assms(1) sq assms(3)]
  show "durable_completed_transactions (durable_completed_transactions done0 es1) es2 = durable_completed_transactions done0 (es1 @ es2)"
    using latest_records_incremental [where ?rs1.0 = "done0 @ List.map_filter completed_of es1" and ?rs2.0 = "List.map_filter completed_of es2"
        and sq = ct_sequence and key = completed_tx and N = MAX_DURABLE_RECORDS] x
    by (simp add: completed_is_latest map_filter_append)
next
  have sq: "\<And>e t. receipt_of e = Some t \<Longrightarrow> dr_sequence t = event_sequence e"
    by (auto simp: receipt_of_def split: option.splits)
  note x = extracted_after [where f = receipt_of, OF assms(1) sq assms(4)]
  let ?A = "receipts0 @ List.map_filter receipt_of es1" and ?B = "List.map_filter receipt_of es2"
  have inc: "latest_records MAX_DURABLE_RECORDS receipt_key dr_sequence (latest_records MAX_DURABLE_RECORDS receipt_key dr_sequence ?A @ ?B)
      = latest_records MAX_DURABLE_RECORDS receipt_key dr_sequence (?A @ ?B)"
    by (rule latest_records_incremental) (use x in auto)
  have d1: "durable_receipts receipts0 es1 = latest_records MAX_DURABLE_RECORDS receipt_key dr_sequence ?A"
    by (rule receipts_are_latest) (use x in \<open>auto simp: Int_Un_distrib\<close>)
  have "distinct (map dr_sequence (latest_records MAX_DURABLE_RECORDS receipt_key dr_sequence ?A @ ?B))"
    by (rule latest_records_distinct) (use x in auto)
  then show "durable_receipts (durable_receipts receipts0 es1) es2 = durable_receipts receipts0 (es1 @ es2)"
    using receipts_are_latest inc d1 receipts_are_latest [of receipts0 "es1 @ es2"] x
    by (simp add: map_filter_append)
qed

section \<open>The snapshot file\<close>

record snapshot_file =
  sf_ownerEpoch :: int
  sf_sequence :: int
  sf_coveredSequence :: int
  sf_outcomes :: "(string, json) jsmap"
  sf_receipts :: "receipt_record list"
  sf_open :: "open_transaction list"
  sf_completed :: "completed_transaction list"

definition safe_at_least :: "int \<Rightarrow> json option \<Rightarrow> int option" where
  "safe_at_least n v = (case v of Some (JNum i) \<Rightarrow> if \<bar>i\<bar> \<le> MAX_SAFE_INTEGER \<and> n \<le> i then Some i else None | _ \<Rightarrow> None)"

definition nonempty_string :: "json option \<Rightarrow> string option" where
  "nonempty_string v = (case v of Some (JStr s) \<Rightarrow> if s \<noteq> [] then Some s else None | _ \<Rightarrow> None)"

definition parse_durable_control_snapshot :: "json option \<Rightarrow> (int \<times> int) option" where
  "parse_durable_control_snapshot v =
    (case v of
       Some (JObj ms) \<Rightarrow>
        (case (safe_at_least 0 (map_of ms ''ownerEpoch''), safe_at_least 0 (map_of ms ''sequence'')) of
           (Some a, Some b) \<Rightarrow> Some (a, b) | _ \<Rightarrow> None)
     | _ \<Rightarrow> None)"

text \<open>Assigning the key \<open>__proto__\<close> sets the prototype of the new object, not a member.\<close>

definition parse_legacy_snapshot_outcomes :: "json option \<Rightarrow> (string, json) jsmap option" where
  "parse_legacy_snapshot_outcomes v =
    (case v of
       None \<Rightarrow> Some []
     | Some (JObj ms) \<Rightarrow>
        if length ms > MAX_DURABLE_RECORDS then None
        else if list_ex (\<lambda>(k, out). k = [] \<or> \<not> is_stored_command_outcome out) ms then None
        else Some (fold (\<lambda>(k, out) m. if k = ''__proto__'' then m else jm_set k out m) ms [])
     | _ \<Rightarrow> None)"

definition parse_list :: "nat \<Rightarrow> (json \<Rightarrow> 'a option) \<Rightarrow> json option \<Rightarrow> 'a list option" where
  "parse_list limit item v =
    (case v of
       None \<Rightarrow> Some []
     | Some (JArr xs) \<Rightarrow> if length xs > limit then None else those (map item xs)
     | _ \<Rightarrow> None)"

definition parse_durable_receipt_record :: "json \<Rightarrow> receipt_record option" where
  "parse_durable_receipt_record v =
    (case v of
       JObj ms \<Rightarrow>
        (case (safe_at_least 1 (map_of ms ''sequence''), nonempty_string (map_of ms ''commandId''),
               nonempty_string (map_of ms ''idempotencyKey''), map_of ms ''receipt'') of
           (Some n, Some c, Some k, Some r) \<Rightarrow>
             if is_journal_action_receipt (Some r)
             then Some \<lparr>dr_sequence = n, dr_commandId = c, dr_key = k, dr_receipt = r\<rparr> else None
         | _ \<Rightarrow> None)
     | _ \<Rightarrow> None)"

definition parse_durable_open_transaction :: "json \<Rightarrow> open_transaction option" where
  "parse_durable_open_transaction v =
    (case v of
       JObj ms \<Rightarrow>
        (case (safe_at_least 1 (map_of ms ''sequence''), nonempty_string (map_of ms ''commandId''),
               nonempty_string (map_of ms ''idempotencyKey''), nonempty_string (map_of ms ''kind'')) of
           (Some n, Some c, Some k, Some kind) \<Rightarrow>
             if kind \<in> set OPEN_KINDS
             then Some \<lparr>ot_sequence = n, ot_commandId = c, ot_key = k, ot_kind = kind\<rparr> else None
         | _ \<Rightarrow> None)
     | _ \<Rightarrow> None)"

definition parse_durable_completed_transaction :: "json \<Rightarrow> completed_transaction option" where
  "parse_durable_completed_transaction v =
    (case v of
       JObj ms \<Rightarrow>
        (case (safe_at_least 1 (map_of ms ''sequence''), nonempty_string (map_of ms ''commandId''),
               nonempty_string (map_of ms ''idempotencyKey'')) of
           (Some n, Some c, Some k) \<Rightarrow> Some \<lparr>ct_sequence = n, ct_commandId = c, ct_key = k\<rparr>
         | _ \<Rightarrow> None)
     | _ \<Rightarrow> None)"

definition parse_journal_snapshot_file :: "json \<Rightarrow> snapshot_file option" where
  "parse_journal_snapshot_file v =
    (case v of
       JObj ms \<Rightarrow>
        Option.bind (safe_at_least 0 (map_of ms ''coveredSequence'')) (\<lambda>covered.
        Option.bind (parse_durable_control_snapshot (map_of ms ''snapshot'')) (\<lambda>(epoch, sequence).
        Option.bind (parse_legacy_snapshot_outcomes (map_of ms ''outcomes'')) (\<lambda>outs.
        Option.bind (parse_list MAX_DURABLE_RECORDS parse_durable_receipt_record (map_of ms ''receiptRecords'')) (\<lambda>rs.
        Option.bind (parse_list (pendingCommands AGENT_CONTROL_LIMITS) parse_durable_open_transaction
                       (map_of ms ''openTransactions'')) (\<lambda>os.
        Option.bind (parse_list MAX_DURABLE_RECORDS parse_durable_completed_transaction
                       (map_of ms ''completedTransactions'')) (\<lambda>cs.
          Some \<lparr>sf_ownerEpoch = epoch, sf_sequence = sequence, sf_coveredSequence = covered, sf_outcomes = outs,
                sf_receipts = rs, sf_open = os, sf_completed = cs\<rparr>))))))
     | _ \<Rightarrow> None)"

text \<open>What is written.\<close>

definition open_json :: "open_transaction \<Rightarrow> json" where
  "open_json t = JObj [(''sequence'', JNum (ot_sequence t)), (''commandId'', JStr (ot_commandId t)),
     (''idempotencyKey'', JStr (ot_key t)), (''kind'', JStr (ot_kind t))]"

definition completed_json :: "completed_transaction \<Rightarrow> json" where
  "completed_json t = JObj [(''sequence'', JNum (ct_sequence t)), (''commandId'', JStr (ct_commandId t)),
     (''idempotencyKey'', JStr (ct_key t))]"

definition receipt_json :: "receipt_record \<Rightarrow> json" where
  "receipt_json r = JObj [(''sequence'', JNum (dr_sequence r)), (''commandId'', JStr (dr_commandId r)),
     (''idempotencyKey'', JStr (dr_key r)), (''receipt'', dr_receipt r)]"

definition snapshot_json :: "snapshot_file \<Rightarrow> json" where
  "snapshot_json f = JObj
     [(''snapshot'', JObj [(''ownerEpoch'', JNum (sf_ownerEpoch f)), (''sequence'', JNum (sf_sequence f))]),
      (''coveredSequence'', JNum (sf_coveredSequence f)), (''outcomes'', JObj (sf_outcomes f)),
      (''receiptRecords'', JArr (map receipt_json (sf_receipts f))),
      (''openTransactions'', JArr (map open_json (sf_open f))),
      (''completedTransactions'', JArr (map completed_json (sf_completed f)))]"

definition SNAPSHOT_FILE :: string where "SNAPSHOT_FILE = ''snapshot.json''"

datatype snapshot_error = SnapshotUnreadable | SnapshotCorruption

definition load_snapshot :: "bool \<Rightarrow> directory \<Rightarrow> (snapshot_error, snapshot_file option) result" where
  "load_snapshot readFails d =
    (if readFails then Inl SnapshotUnreadable
     else (case jm_get d SNAPSHOT_FILE of
       None \<Rightarrow> Inr None
     | Some f \<Rightarrow> (case Option.bind (json_parse (fl_bytes f)) parse_journal_snapshot_file of
         None \<Rightarrow> Inl SnapshotCorruption
       | Some s \<Rightarrow> Inr (Some s))))"

definition write_snapshot ::
  "pub_env \<Rightarrow> string \<Rightarrow> snapshot_file \<Rightarrow> directory \<Rightarrow> (pub_step, bool) result \<times> directory list"
where
  "write_snapshot en tmp f d = replace_runtime_file en (stringify (snapshot_json f)) tmp SNAPSHOT_FILE d"

section \<open>Reading the snapshot back\<close>

definition safe_from :: "int \<Rightarrow> int \<Rightarrow> bool" where
  "safe_from n i \<longleftrightarrow> n \<le> i \<and> \<bar>i\<bar> \<le> MAX_SAFE_INTEGER"

definition open_ok :: "open_transaction \<Rightarrow> bool" where
  "open_ok t \<longleftrightarrow> safe_from 1 (ot_sequence t) \<and> ot_commandId t \<noteq> [] \<and> ot_key t \<noteq> [] \<and> ot_kind t \<in> set OPEN_KINDS"

definition completed_ok :: "completed_transaction \<Rightarrow> bool" where
  "completed_ok t \<longleftrightarrow> safe_from 1 (ct_sequence t) \<and> ct_commandId t \<noteq> [] \<and> ct_key t \<noteq> []"

definition receipt_ok :: "receipt_record \<Rightarrow> bool" where
  "receipt_ok r \<longleftrightarrow> safe_from 1 (dr_sequence r) \<and> dr_commandId r \<noteq> [] \<and> dr_key r \<noteq> [] \<and>
     is_journal_action_receipt (Some (dr_receipt r)) \<and> wf_json (dr_receipt r)"

definition snapshot_ok :: "snapshot_file \<Rightarrow> bool" where
  "snapshot_ok f \<longleftrightarrow> safe_from 0 (sf_ownerEpoch f) \<and> safe_from 0 (sf_sequence f) \<and> safe_from 0 (sf_coveredSequence f) \<and>
     sf_outcomes f = [] \<and> length (sf_receipts f) \<le> MAX_DURABLE_RECORDS \<and> list_all receipt_ok (sf_receipts f) \<and>
     length (sf_open f) \<le> pendingCommands AGENT_CONTROL_LIMITS \<and> list_all open_ok (sf_open f) \<and>
     length (sf_completed f) \<le> MAX_DURABLE_RECORDS \<and> list_all completed_ok (sf_completed f)"

lemma safe_read [simp]: "safe_at_least n (Some (JNum i)) = (if safe_from n i then Some i else None)"
  by (auto simp: safe_at_least_def safe_from_def)

lemma string_read [simp]: "nonempty_string (Some (JStr s)) = (if s \<noteq> [] then Some s else None)"
  by (simp add: nonempty_string_def)

lemma those_map: "(\<And>x. x \<in> set xs \<Longrightarrow> f (g x) = Some x) \<Longrightarrow> those (map f (map g xs)) = Some xs"
  by (induction xs) auto

lemma parse_list_print:
  "length xs \<le> n \<Longrightarrow> (\<And>x. x \<in> set xs \<Longrightarrow> item (print x) = Some x) \<Longrightarrow> parse_list n item (Some (JArr (map print xs))) = Some xs"
  using those_map [of xs item print] by (simp add: parse_list_def)

lemma open_read: "open_ok t \<Longrightarrow> parse_durable_open_transaction (open_json t) = Some t"
  by (auto simp: open_ok_def parse_durable_open_transaction_def open_json_def OPEN_KINDS_def)

lemma completed_read: "completed_ok t \<Longrightarrow> parse_durable_completed_transaction (completed_json t) = Some t"
  by (simp add: completed_ok_def parse_durable_completed_transaction_def completed_json_def)

lemma receipt_read: "receipt_ok r \<Longrightarrow> parse_durable_receipt_record (receipt_json r) = Some r"
  by (simp add: receipt_ok_def parse_durable_receipt_record_def receipt_json_def)

lemma snapshot_read:
  assumes "snapshot_ok f"
  shows "parse_journal_snapshot_file (snapshot_json f) = Some f" "wf_json (snapshot_json f)"
proof -
  have "parse_list MAX_DURABLE_RECORDS parse_durable_receipt_record (Some (JArr (map receipt_json (sf_receipts f)))) = Some (sf_receipts f)"
    by (rule parse_list_print) (use assms in \<open>auto simp: snapshot_ok_def list_all_iff intro: receipt_read\<close>)
  moreover have "parse_list (pendingCommands AGENT_CONTROL_LIMITS) parse_durable_open_transaction (Some (JArr (map open_json (sf_open f)))) = Some (sf_open f)"
    by (rule parse_list_print) (use assms in \<open>auto simp: snapshot_ok_def list_all_iff intro: open_read\<close>)
  moreover have "parse_list MAX_DURABLE_RECORDS parse_durable_completed_transaction (Some (JArr (map completed_json (sf_completed f)))) = Some (sf_completed f)"
    by (rule parse_list_print) (use assms in \<open>auto simp: snapshot_ok_def list_all_iff intro: completed_read\<close>)
  ultimately show "parse_journal_snapshot_file (snapshot_json f) = Some f"
    using assms by (simp add: parse_journal_snapshot_file_def snapshot_json_def snapshot_ok_def
        parse_durable_control_snapshot_def parse_legacy_snapshot_outcomes_def)
  show "wf_json (snapshot_json f)"
    using assms by (auto simp: snapshot_json_def snapshot_ok_def list_all_iff receipt_json_def open_json_def completed_json_def receipt_ok_def)
qed

text \<open>
  A snapshot can be read back. What the runtime writes loads again as the very same snapshot, and
  in every state on the way, and after any failure, loading gives the previous answer or the new
  snapshot; a failed check after the rename excepted. The journal beside it is not touched.
\<close>
lemma snapshot_round_trip:
  assumes "snapshot_ok f" "write_snapshot en tmp f d = (r, ds)" "undisturbed en"
    and "tmp \<noteq> SNAPSHOT_FILE" "tmp \<noteq> JOURNAL_FILE" "\<not> pe_fails en StatPublished" "\<not> pe_fails en CheckPublished"
  shows "(r = Inr True \<longrightarrow> load_snapshot False (last ds) = Inr (Some f)) \<and>
    (\<forall>x \<in> set ds. load_snapshot False x \<in> {load_snapshot False d, Inr (Some f)} \<and>
       jm_get x JOURNAL_FILE = jm_get d JOURNAL_FILE)"
proof -
  let ?s = "stringify (snapshot_json f)"
  obtain res where res: "replace_runtime_file en ?s tmp SNAPSHOT_FILE d = res" by blast
  with assms(2) have ds: "fst res = r" "snd res = ds" by (auto simp: write_snapshot_def)
  have read: "load_snapshot False x = Inr (Some f)" if "jm_get x SNAPSHOT_FILE = Some \<lparr>fl_ino = pe_ino en, fl_bytes = ?s\<rparr>" for x
    using that snapshot_read [OF assms(1)] by (simp add: load_snapshot_def json_parse_stringify)
  have same: "load_snapshot False x = load_snapshot False d" if "jm_get x SNAPSHOT_FILE = jm_get d SNAPSHOT_FILE" for x
    unfolding load_snapshot_def that ..
  have files: "SNAPSHOT_FILE \<noteq> JOURNAL_FILE" by (simp add: SNAPSHOT_FILE_def JOURNAL_FILE_def)
  have other: "\<forall>x \<in> set ds. jm_get x JOURNAL_FILE = jm_get d JOURNAL_FILE"
    using replace_others [OF assms(3) assms(5) [symmetric] files [symmetric], of ?s d] res ds by simp
  have "outcome_kept SNAPSHOT_FILE d res \<or> outcome_published en ?s SNAPSHOT_FILE d res"
    using publication_outcome [OF assms(3,4), of ?s d] res assms(6,7) by (auto simp: outcome_ok_def outcome_lost_def)
  then show ?thesis
  proof
    assume k: "outcome_kept SNAPSHOT_FILE d res"
    have "load_snapshot False x = load_snapshot False d" if "x \<in> set ds" for x
      by (rule same) (use k ds that in \<open>simp add: outcome_kept_def list_all_iff\<close>)
    moreover have "r \<noteq> Inr True" using k ds by (simp add: outcome_kept_def)
    ultimately show ?thesis using other by simp
  next
    assume p: "outcome_published en ?s SNAPSHOT_FILE d res"
    have "load_snapshot False x \<in> {load_snapshot False d, Inr (Some f)}" if "x \<in> set ds" for x
    proof -
      have "jm_get x SNAPSHOT_FILE = jm_get d SNAPSHOT_FILE \<or> jm_get x SNAPSHOT_FILE = Some \<lparr>fl_ino = pe_ino en, fl_bytes = ?s\<rparr>"
        using p ds that by (simp add: outcome_published_def list_all_iff)
      then show ?thesis using same read by blast
    qed
    moreover have "load_snapshot False (last ds) = Inr (Some f)"
      by (rule read) (use p ds in \<open>simp add: outcome_published_def settled_def\<close>)
    ultimately show ?thesis using other by simp
  qed
qed

section \<open>Witnesses\<close>

definition demo_request :: json where
  "demo_request = JObj [(''sequence'', JNum 1), (''kind'', JStr ''command.requested''),
     (''payload'', JObj [(''commandId'', JStr ''c''), (''idempotencyKey'', JStr ''k'')])]"

definition demo_terminal :: json where
  "demo_terminal = JObj [(''sequence'', JNum 2), (''kind'', JStr ''command.succeeded''),
     (''payload'', JObj [(''commandId'', JStr ''c''), (''idempotencyKey'', JStr ''k'')])]"

definition demo_open :: open_transaction where
  "demo_open = \<lparr>ot_sequence = 1, ot_commandId = ''c'', ot_key = ''k'', ot_kind = ''command.requested''\<rparr>"

lemma demo_members:
  "payload_string demo_request ''commandId'' = Some ''c''" "payload_string demo_request ''idempotencyKey'' = Some ''k''"
  "event_kind demo_request = ''command.requested''" "event_sequence demo_request = 1"
  "payload_string demo_terminal ''commandId'' = Some ''c''" "payload_string demo_terminal ''idempotencyKey'' = Some ''k''"
  "event_kind demo_terminal = ''command.succeeded''" "event_sequence demo_terminal = 2"
  by (simp_all add: payload_string_def event_member_def event_kind_def event_sequence_def demo_request_def demo_terminal_def)

lemma demo_projected: "durable_open_transactions [] [demo_request] = Some [demo_open]"
  by (simp add: durable_open_transactions_def open_transactions_def fill_map_def open_step_def demo_members
      TERMINAL_KINDS_def OPEN_KINDS_def AGENT_CONTROL_LIMITS_def demo_open_def Let_def)

lemma projections_incremental_witness:
  "durable_open_transactions [demo_open] [demo_terminal] = durable_open_transactions [] [demo_request, demo_terminal] \<and>
   durable_completed_transactions (durable_completed_transactions [] [demo_request]) [demo_terminal] =
     durable_completed_transactions [] [demo_request, demo_terminal]"
proof -
  have "events_from 1 ([demo_request] @ [demo_terminal])"
    by (simp add: event_ok_def demo_request_def demo_terminal_def)
  then show ?thesis
    using projections_incremental [of 1 "[demo_request]" "[demo_terminal]" "[]" "[]" "[]" "[demo_open]"] demo_projected
    by (simp add: restored_before_def)
qed

end
