(* ===== verification/Compaction.thy ===== *)
theory Compaction
  imports DurableState
begin

text \<open>
  The compaction of the control runtime (\<open>performCompaction\<close> and what it calls in
  \<open>src/src/control/runtime.ts\<close>): dirty outcomes are flushed to the sidecar, the outcomes the covered
  events stand for are verified there, the snapshot is written, the exact outcomes are replaced by
  markers, and only then the journal is cut. One compaction runs at a time. What other tasks do
  meanwhile is seen through the guard: an outcome that becomes dirty, or one that cannot be read,
  invalidates the attempt for good. The model returns every state of the two directories, in order.
\<close>

section \<open>What a terminal event stands for\<close>

definition json_or :: "json option \<Rightarrow> string \<Rightarrow> json" where
  "json_or v s = (case v of Some j \<Rightarrow> j | None \<Rightarrow> JStr s)"

definition first_some :: "'a option list \<Rightarrow> 'a option" where
  "first_some vs = (case filter (\<lambda>v. v \<noteq> None) vs of [] \<Rightarrow> None | v # _ \<Rightarrow> v)"

definition string_payload :: "json \<Rightarrow> string \<Rightarrow> json option" where
  "string_payload e k = map_option JStr (payload_string e k)"

definition failure_outcome :: "string \<Rightarrow> json \<Rightarrow> json \<Rightarrow> json" where
  "failure_outcome status code message = JObj [(''status'', JStr status), (''code'', code), (''message'', message)]"

text \<open>\<open>None\<close>: not a terminal command event.\<close>

definition outcome_from_event :: "json \<Rightarrow> json option" where
  "outcome_from_event e =
    (let receipt = durable_journal_receipt_payload e;
         receiptCode = Option.bind receipt (\<lambda>r. event_member r ''code'');
         said = (\<lambda>withReceipt fallback. if receipt \<noteq> None then JStr withReceipt else json_or (string_payload e ''message'') fallback)
     in if event_kind e = ''command.succeeded''
        then Some (case (receipt, payload_member e ''value'') of
               (None, Some v) \<Rightarrow> JObj [(''status'', JStr ''succeeded''), (''value'', v)]
             | _ \<Rightarrow> JObj [(''status'', JStr ''succeeded'')])
        else if event_kind e = ''command.rejected''
        then Some (failure_outcome ''rejected'' (json_or (first_some [receiptCode, string_payload e ''code'']) ''command_rejected'')
               (said ''surface action was rejected'' ''command was rejected''))
        else if event_kind e = ''command.failed''
        then Some (failure_outcome ''failed'' (json_or (first_some [receiptCode, string_payload e ''code'']) ''command_failed'')
               (said ''surface effect failed'' ''command failed''))
        else if event_kind e = ''command.unknown''
        then Some (failure_outcome ''unknown''
               (json_or (first_some [receiptCode, string_payload e ''code'', string_payload e ''reason'']) ''command_unknown'')
               (said ''surface effect outcome is unknown'' ''command outcome is unknown''))
        else None)"

definition is_recovered_nonterminal_retained_outcome :: "json \<Rightarrow> bool" where
  "is_recovered_nonterminal_retained_outcome e \<longleftrightarrow> event_kind e = ''command.unknown'' \<and>
     payload_string e ''reason'' = Some ''recovered-nonterminal'' \<and>
     (case payload_string e ''outcomeDigest'' of Some s \<Rightarrow> is_sha256_digest s | None \<Rightarrow> False) \<and>
     durable_journal_receipt_payload e = None"

definition RETAINED_NON_SURFACE_KINDS :: "string list" where
  "RETAINED_NON_SURFACE_KINDS =
    [''orchestration.execute'', ''pane.spawn'', ''pane.prompt'', ''pane.interrupt'', ''pane.delegate'', ''pane.takeover'',
     ''pane.input'', ''pane.terminal.open'', ''pane.resize'', ''pane.focus'', ''pane.kill'', ''pane.respawn'',
     ''pane.conflict.open'', ''pane.option.update'', ''pane.meta.update'', ''ritual.launch'', ''coven.session.launch'',
     ''coven.session.open'', ''coven.desktop.action'', ''coven.capability.execute'']"

definition reconstruct_retained_outcome :: "json \<Rightarrow> string option \<Rightarrow> json option" where
  "reconstruct_retained_outcome e commandKind =
    (if is_recovered_nonterminal_retained_outcome e then outcome_from_event e
     else if commandKind \<notin> Some ` set RETAINED_NON_SURFACE_KINDS \<or> durable_journal_receipt_payload e \<noteq> None then None
     else outcome_from_event e)"

definition terminal_outcome_digest_for_verification ::
  "(string \<Rightarrow> string) \<Rightarrow> json \<Rightarrow> string option \<Rightarrow> string option \<Rightarrow> string option"
where
  "terminal_outcome_digest_for_verification sha e commandKind attestedDigest =
    (case payload_member e ''outcomeDigest'' of
       Some v \<Rightarrow> (case v of JStr s \<Rightarrow> if is_sha256_digest s then Some s else None | _ \<Rightarrow> None)
     | None \<Rightarrow>
        (case attestedDigest of
           Some s \<Rightarrow> if is_sha256_digest s then Some s else None
         | None \<Rightarrow> map_option (exact_command_outcome_digest sha) (reconstruct_retained_outcome e commandKind)))"

definition verify_exact_outcome :: "(string \<Rightarrow> string) \<Rightarrow> json \<Rightarrow> json \<Rightarrow> string option \<Rightarrow> string option \<Rightarrow> bool" where
  "verify_exact_outcome sha out e commandKind attestedDigest \<longleftrightarrow>
    terminal_outcome_digest_for_verification sha e commandKind attestedDigest = Some (exact_command_outcome_digest sha out)"

definition COMPACTED_OUTCOME_CODE :: string where "COMPACTED_OUTCOME_CODE = ''idempotency_outcome_compacted''"

definition compacted_command_outcome :: json where
  "compacted_command_outcome = failure_outcome ''unknown'' (JStr COMPACTED_OUTCOME_CODE)
     (JStr ''command completed; exact outcome was compacted'')"

definition is_compacted_command_outcome :: "json \<Rightarrow> bool" where
  "is_compacted_command_outcome out \<longleftrightarrow> event_member out ''status'' = Some (JStr ''unknown'') \<and>
     event_member out ''code'' = Some (JStr COMPACTED_OUTCOME_CODE)"

section \<open>The covered terminal events\<close>

definition nonempty_ids :: "json \<Rightarrow> (string \<times> string) option" where
  "nonempty_ids e =
    (case (payload_string e ''commandId'', payload_string e ''idempotencyKey'') of
       (Some commandId, Some key) \<Rightarrow> if commandId = [] \<or> key = [] then None else Some (commandId, key)
     | _ \<Rightarrow> None)"

definition retained_command_kinds :: "json list \<Rightarrow> (string, string) jsmap" where
  "retained_command_kinds events =
    fold (\<lambda>e m. if event_kind e \<noteq> ''command.requested'' then m
      else (case (nonempty_ids e, payload_string e ''kind'') of
         (Some (c, k), Some kind) \<Rightarrow> if kind = [] then m else jm_set (command_transaction_key c k) kind m
       | _ \<Rightarrow> m)) events []"

definition COMMAND_OUTCOME_ATTESTED_KIND :: string where
  "COMMAND_OUTCOME_ATTESTED_KIND = ''command.outcome.attested''"

definition retained_outcome_attestations :: "json list \<Rightarrow> (string, string) jsmap" where
  "retained_outcome_attestations events =
    fold (\<lambda>e m. if event_kind e \<noteq> COMMAND_OUTCOME_ATTESTED_KIND then m
      else (case (nonempty_ids e, payload_string e ''outcomeDigest'') of
         (Some (c, k), Some s) \<Rightarrow> if is_sha256_digest s then jm_set (command_transaction_key c k) s m else m
       | _ \<Rightarrow> m)) events []"

record covered_terminal =
  cv_event :: json
  cv_commandKind :: "string option"
  cv_attested :: "string option"

definition covered_terminals :: "json list \<Rightarrow> int \<Rightarrow> (string \<times> covered_terminal) list" where
  "covered_terminals events coveredSequence =
    (let kinds = retained_command_kinds events; attestations = retained_outcome_attestations events;
         latest = fold (\<lambda>e m. if event_kind e \<notin> set TERMINAL_KINDS then m
                    else (case payload_string e ''idempotencyKey'' of
                       Some k \<Rightarrow> if k = [] then m else jm_set k e m | None \<Rightarrow> m)) events []
     in map (\<lambda>(k, e).
          let tx = (case payload_string e ''commandId'' of
                      Some c \<Rightarrow> if c = [] then None else Some (command_transaction_key c k) | None \<Rightarrow> None)
          in (k, \<lparr>cv_event = e, cv_commandKind = Option.bind tx (jm_get kinds),
                  cv_attested = Option.bind tx (jm_get attestations)\<rparr>))
        (filter (\<lambda>(k, e). \<not> event_sequence e > coveredSequence) latest))"

section \<open>One compaction\<close>

record dirty_outcome =
  dy_sequence :: int
  dy_outcome :: "json option"

record compaction_env =
  ce_sha :: "string \<Rightarrow> string"
  ce_aborts :: "nat \<Rightarrow> bool"
  ce_flush :: "string \<Rightarrow> pub_env"
  ce_verify :: "string \<Rightarrow> load_env"
  ce_check :: "string \<Rightarrow> load_env"
  ce_mark :: "string \<Rightarrow> pub_env"
  ce_tmp :: "string \<Rightarrow> string"
  ce_snapshotUnreadable :: bool
  ce_snapshot :: pub_env
  ce_snapshotTmp :: string
  ce_journal :: pub_env
  ce_journalTmp :: string

text \<open>
  The environment of the code: the guard of the attempt aborts for good once it was invalidated. The
  checks are numbered in the order they are made: after the flush, while verifying, the three of the
  snapshot, after the snapshot, one before each batch and one after it, the three of the journal, and
  the last one.
\<close>

definition has_dirty_through :: "int \<Rightarrow> (string, dirty_outcome) jsmap \<Rightarrow> bool" where
  "has_dirty_through c dirty \<longleftrightarrow> list_ex (\<lambda>d. dy_sequence d \<le> c) (jm_values dirty)"

definition clear_dirty :: "string \<Rightarrow> int \<Rightarrow> (string, dirty_outcome) jsmap \<Rightarrow> (string, dirty_outcome) jsmap" where
  "clear_dirty key sequence dirty =
    (case jm_get dirty key of
       None \<Rightarrow> dirty
     | Some prior \<Rightarrow> if dy_sequence prior \<le> sequence then jm_delete key dirty else dirty)"

fun flush_dirty ::
  "compaction_env \<Rightarrow> int \<Rightarrow> (string \<times> dirty_outcome) list \<Rightarrow> (string, dirty_outcome) jsmap \<times> directory list \<Rightarrow>
   (string, dirty_outcome) jsmap \<times> directory list"
where
  "flush_dirty en c [] s = s"
| "flush_dirty en c ((key, d) # rest) (dirty, ods) =
    (if dy_sequence d > c then flush_dirty en c rest (dirty, ods)
     else (case dy_outcome d of
       None \<Rightarrow> flush_dirty en c rest (dirty, ods)
     | Some out \<Rightarrow>
        (case store_outcome (ce_flush en key) (ce_sha en) (ce_tmp en key) key out (last ods) of
           (Inl e, ds) \<Rightarrow> flush_dirty en c rest (dirty, ods @ ds)
         | (Inr _, ds) \<Rightarrow> flush_dirty en c rest (clear_dirty key (dy_sequence d) dirty, ods @ ds))))"

fun verify_covered :: "compaction_env \<Rightarrow> directory \<Rightarrow> (string \<times> covered_terminal) list \<Rightarrow> (string \<times> string) list option" where
  "verify_covered en od [] = (if ce_aborts en 1 then None else Some [])"
| "verify_covered en od ((key, cv) # rest) =
    (if ce_aborts en 1 then None
     else (case load_outcome (ce_verify en key) (ce_sha en) key od of
       Inr (Some stored) \<Rightarrow>
         if is_compacted_command_outcome stored \<or>
            verify_exact_outcome (ce_sha en) stored (cv_event cv) (cv_commandKind cv) (cv_attested cv)
         then map_option (\<lambda>vs. (key, exact_command_outcome_digest (ce_sha en) stored) # vs) (verify_covered en od rest)
         else None
     | _ \<Rightarrow> None))"

definition OUTCOME_COMPACTION_BATCH_SIZE :: nat where "OUTCOME_COMPACTION_BATCH_SIZE = 32"

function batches :: "nat \<Rightarrow> 'a list \<Rightarrow> 'a list list" where
  "batches n xs = (if xs = [] \<or> n = 0 then [] else take n xs # batches n (drop n xs))"
  by auto
termination by (relation "measure (\<lambda>(n, xs). length xs)") auto

declare batches.simps [simp del]

fun mark_batch :: "compaction_env \<Rightarrow> (string \<times> string) list \<Rightarrow> directory list \<Rightarrow> bool \<times> directory list" where
  "mark_batch en [] ods = (True, ods)"
| "mark_batch en ((key, digest) # rest) ods =
    (let (r, ds) = replace_outcome_if_matches (ce_check en key) (ce_mark en key) (ce_sha en) (ce_tmp en key) key digest
                     compacted_command_outcome (last ods);
         (oks, ods') = mark_batch en rest (ods @ ds)
     in (r = Inr True \<and> oks, ods'))"

fun compact_outcomes :: "compaction_env \<Rightarrow> nat \<Rightarrow> (string \<times> string) list list \<Rightarrow> directory list \<Rightarrow> bool \<times> directory list" where
  "compact_outcomes en n [] ods = (True, ods)"
| "compact_outcomes en n (b # bs) ods =
    (if ce_aborts en n then (False, ods)
     else (case mark_batch en b ods of
       (False, ods') \<Rightarrow> (False, ods')
     | (True, ods') \<Rightarrow> if ce_aborts en (n + 1) then (False, ods') else compact_outcomes en (n + 2) bs ods'))"

definition JOURNAL_RETAINED_EVENTS :: int where "JOURNAL_RETAINED_EVENTS = 1000"

definition next_snapshot :: "snapshot_file option \<Rightarrow> int \<Rightarrow> journal \<Rightarrow> snapshot_file option" where
  "next_snapshot previous coveredSequence j =
    (let since = filter (\<lambda>e. event_sequence e \<le> coveredSequence)
                   (journal_read (case previous of None \<Rightarrow> 0 | Some p \<Rightarrow> sf_coveredSequence p) None j)
     in map_option (\<lambda>opn.
          \<lparr>sf_ownerEpoch = jn_ownerEpoch j, sf_sequence = jn_currentSequence j, sf_coveredSequence = coveredSequence,
           sf_outcomes = [],
           sf_receipts = last_n MAX_DURABLE_RECORDS (merge_durable_receipt_records
             (case previous of None \<Rightarrow> [] | Some p \<Rightarrow> sf_receipts p) (latest_durable_receipt_records since)),
           sf_open = opn,
           sf_completed = durable_completed_transactions (case previous of None \<Rightarrow> [] | Some p \<Rightarrow> sf_completed p) since\<rparr>)
        (durable_open_transactions (case previous of None \<Rightarrow> [] | Some p \<Rightarrow> sf_open p) since))"

text \<open>The result: is the runtime blocked by durability, the journal, the dirty outcomes, the states.\<close>

definition guarded :: "compaction_env \<Rightarrow> nat \<Rightarrow> pub_env \<Rightarrow> pub_env" where
  "guarded en n pe = pe\<lparr>pe_aborts := (\<lambda>i. ce_aborts en (n + i))\<rparr>"

definition perform_compaction ::
  "compaction_env \<Rightarrow> journal \<Rightarrow> directory \<Rightarrow> directory \<Rightarrow> (string, dirty_outcome) jsmap \<Rightarrow>
   bool \<times> journal \<times> (string, dirty_outcome) jsmap \<times> (directory \<times> directory) list"
where
  "perform_compaction en j rd od dirty =
    (let covered = jn_currentSequence j - JOURNAL_RETAINED_EVENTS in
     if covered < jn_firstRetained j then (False, j, dirty, [(rd, od)])
     else
       let (dirty1, ods1) = flush_dirty en covered dirty (dirty, [od]); od1 = last ods1;
           flushed = map (Pair rd) ods1
       in if ce_aborts en 0 \<or> has_dirty_through covered dirty1 then (True, j, dirty1, flushed)
          else (case verify_covered en od1 (covered_terminals (journal_read 0 None j) covered) of
             None \<Rightarrow> (True, j, dirty1, flushed)
           | Some digests \<Rightarrow>
              (case load_snapshot (ce_snapshotUnreadable en) rd of
                 Inl _ \<Rightarrow> (True, j, dirty1, flushed)
               | Inr previous \<Rightarrow>
                  (case next_snapshot previous covered j of
                     None \<Rightarrow> (True, j, dirty1, flushed)
                   | Some snap \<Rightarrow>
                      let (w, rds) = write_snapshot (guarded en 2 (ce_snapshot en)) (ce_snapshotTmp en) snap rd;
                          written = flushed @ map (\<lambda>x. (x, od1)) rds; rd1 = last rds
                      in if \<not> is_ok w \<or> ce_aborts en 5 then (True, j, dirty1, written)
                         else
                           let bs = batches OUTCOME_COMPACTION_BATCH_SIZE digests;
                               (oks, ods2) = compact_outcomes en 6 bs [od1]; od2 = last ods2;
                               marked = written @ map (Pair rd1) ods2; n = 6 + 2 * length bs
                           in if \<not> oks then (True, j, dirty1, marked)
                              else
                                let (r, j', rds2) = journal_compact (guarded en n (ce_journal en)) (ce_journalTmp en) covered j rd1
                                in (\<not> is_ok r \<or> ce_aborts en (n + 3), j', dirty1, marked @ map (\<lambda>x. (x, od2)) rds2)))))"

section \<open>A restart finds the open commands of the whole history\<close>

definition snapshot_open :: "snapshot_file option \<Rightarrow> open_transaction list" where
  "snapshot_open sn = (case sn of None \<Rightarrow> [] | Some s \<Rightarrow> sf_open s)"

definition recovers :: "json list \<Rightarrow> directory \<Rightarrow> bool" where
  "recovers H x \<longleftrightarrow> (\<forall>ep. \<exists>sn j' d'. load_snapshot False x = Inr sn \<and> journal_open calm_open ep x = (Inr j', d') \<and>
     (\<forall>tx. jm_get (snd (scan_events (snapshot_open sn) (jn_events j'))) tx = jm_get (snd (scan_events [] H)) tx))"

text \<open>A snapshot stands for the first \<open>p\<close> events of the history.\<close>

definition covers :: "json list \<Rightarrow> nat \<Rightarrow> open_transaction list \<Rightarrow> bool" where
  "covers H p opn \<longleftrightarrow> (\<forall>tx. jm_get (fill_map tx_of opn []) tx = jm_get (open_transactions [] (take p H)) tx)"

lemma get_open: "jm_get (open_transactions restored es) tx =
    (case last_effect es tx of None \<Rightarrow> jm_get (fill_map tx_of restored []) tx | Some v \<Rightarrow> v)"
  by (simp add: open_transactions_def get_open_fold)

lemma covers_restart:
  assumes "covers H p opn" "k \<le> p"
  shows "jm_get (open_transactions opn (drop k H)) tx = jm_get (open_transactions [] H) tx"
proof -
  have split: "drop k H = drop k (take p H) @ drop p H"
    using assms(2) by (metis append_take_drop_id drop_drop le_add_diff_inverse2 take_drop add.commute)
  have whole: "H = take k H @ drop k H" by simp
  have part: "take p H = take k H @ drop k (take p H)"
    using assms(2) by (metis append_take_drop_id min_absorb1 take_take)
  have c: "jm_get (fill_map tx_of opn []) tx = (case last_effect (take p H) tx of None \<Rightarrow> jm_get (fill_map tx_of [] []) tx | Some v \<Rightarrow> v)"
    using assms(1) by (simp add: covers_def get_open)
  have "last_effect (take p H) tx = (case last_effect (drop k (take p H)) tx of None \<Rightarrow> last_effect (take k H) tx | Some v \<Rightarrow> Some v)"
    by (subst part) (rule last_effect_append)
  moreover have "last_effect H tx = (case last_effect (drop k H) tx of None \<Rightarrow> last_effect (take k H) tx | Some v \<Rightarrow> Some v)"
    by (subst whole) (rule last_effect_append)
  moreover have "last_effect (drop k H) tx = (case last_effect (drop p H) tx of None \<Rightarrow> last_effect (drop k (take p H)) tx | Some v \<Rightarrow> Some v)"
    by (subst split) (rule last_effect_append)
  ultimately show ?thesis using c by (simp add: get_open split: option.split)
qed

lemma covers_extend:
  assumes "covers H p opn" "p \<le> q" "durable_open_transactions opn (drop p (take q H)) = Some opn'"
  shows "covers H q opn'"
  unfolding covers_def
proof
  fix tx
  have split: "take q H = take p H @ drop p (take q H)"
    using assms(2) by (metis append_take_drop_id min_absorb1 take_take)
  have "jm_get (fill_map tx_of opn' []) tx = jm_get (open_transactions opn (drop p (take q H))) tx"
    using open_overlap [of opn "drop p (take q H)" "[]" opn' "[]" tx] assms(3) by (simp add: get_open)
  also have "\<dots> = jm_get (open_transactions [] (take p H @ drop p (take q H))) tx"
    using assms(1) by (simp add: get_open covers_def last_effect_append split: option.split)
  finally show "jm_get (fill_map tx_of opn' []) tx = jm_get (open_transactions [] (take q H)) tx"
    using split by simp
qed

text \<open>The journal in memory and its file, of which a snapshot may cover more than was dropped.\<close>

definition history_journal :: "json list \<Rightarrow> nat \<Rightarrow> journal \<Rightarrow> bool" where
  "history_journal H m j \<longleftrightarrow> memory_sound j \<and> jn_unrolled j = None \<and> m \<le> length H \<and> jn_events j = drop m H \<and>
     jn_firstRetained j = 1 + int m \<and> events_from 1 H"

definition snapshot_covers :: "json list \<Rightarrow> nat \<Rightarrow> snapshot_file option \<Rightarrow> bool" where
  "snapshot_covers H p sn \<longleftrightarrow> covers H p (snapshot_open sn) \<and> p \<le> length H \<and>
     (case sn of None \<Rightarrow> p = 0 | Some s \<Rightarrow> snapshot_ok s \<and> sf_coveredSequence s = int p)"

lemma history_recovers:
  assumes "history_journal H m j" "m \<le> p" "file_sound (int p) j (journal_bytes x)"
    and "load_snapshot False x = Inr sn" "snapshot_covers H p sn"
  shows "recovers H x"
  unfolding recovers_def
proof
  fix ep
  have m: "memory_sound j" using assms(1) by (simp add: history_journal_def)
  from reopen_sound [OF m assms(3), of calm_open ep] obtain j' d' where o: "journal_open calm_open ep x = (Inr j', d')" "reopened (int p) j j'"
    by (auto simp: calm_open_def)
  then obtain k where k: "k \<le> length (jn_events j)" "\<forall>e \<in> set (take k (jn_events j)). event_sequence e \<le> int p"
    "jn_events j' = drop k (jn_events j)"
    using assms(1) by (auto simp: reopened_def history_journal_def)
  have kp: "m + k \<le> p"
  proof (cases k)
    case (Suc i)
    then have "jn_events j ! i \<in> set (take k (jn_events j))" using k(1) by (auto simp: in_set_conv_nth intro!: exI [of _ i])
    moreover have "event_sequence (jn_events j ! i) = jn_firstRetained j + int i"
      using events_from_nth [of "jn_firstRetained j" "jn_events j" i] m k(1) Suc
      by (simp add: memory_sound_def event_okD(1))
    ultimately show ?thesis using k(2) Suc assms(1) by (auto simp: history_journal_def)
  qed (use assms(2) in simp)
  have "jn_events j' = drop (m + k) H" using k(3) assms(1) by (simp add: history_journal_def add.commute)
  with covers_restart [of H p "snapshot_open sn" "m + k"] kp assms(5)
  have "jm_get (snd (scan_events (snapshot_open sn) (jn_events j'))) tx = jm_get (snd (scan_events [] H)) tx" for tx
    by (simp add: scan_is_open snapshot_covers_def)
  then show "\<exists>sn j' d'. load_snapshot False x = Inr sn \<and> journal_open calm_open ep x = (Inr j', d') \<and>
      (\<forall>tx. jm_get (snd (scan_events (snapshot_open sn) (jn_events j'))) tx = jm_get (snd (scan_events [] H)) tx)"
    using o(1) assms(4) by blast
qed

section \<open>The next snapshot\<close>

lemma filter_upto:
  assumes "events_from n es"
  shows "filter (\<lambda>e. event_sequence e \<le> a) es = take (nat (a - n + 1)) es"
  using assms
proof (induction es arbitrary: n)
  case (Cons e es)
  have e: "event_sequence e = n" using Cons.prems by (auto dest: event_okD)
  show ?case
  proof (cases "n \<le> a")
    case True
    then have "nat (a - n + 1) = Suc (nat (a - (n + 1) + 1))" by simp
    with Cons.IH [of "n + 1"] Cons.prems e True show ?thesis by simp
  next
    case False
    then have "nat (a - n + 1) = 0" "nat (a - (n + 1) + 1) = 0" by simp_all
    with Cons.IH [of "n + 1"] Cons.prems e False show ?thesis by simp
  qed
qed simp

lemma events_since:
  assumes "history_journal H m j" "m \<le> p" "p \<le> q" "q \<le> length H"
  shows "filter (\<lambda>e. event_sequence e \<le> int q) (journal_read (int p) None j) = drop p (take q H)"
proof -
  have m: "memory_sound j" and ev: "jn_events j = drop m H" and ef: "events_from 1 H"
    and f: "jn_firstRetained j = 1 + int m" using assms(1) by (simp_all add: history_journal_def)
  have e: "events_from (1 + int m) (drop m H)" using m ev f by (simp add: memory_sound_def)
  have "journal_read (int p) None j = drop (nat (int p - (1 + int m) + 1)) (drop m H)"
    using read_filter(1) [OF m] read_drop [OF e] ev by simp
  also have "\<dots> = drop p H" using assms(2) by (simp add: nat_diff_distrib)
  finally have r: "journal_read (int p) None j = drop p H" .
  have "events_from (1 + int p) (drop p H)" using events_from_drop [OF ef] assms(3,4) by simp
  from filter_upto [OF this, of "int q"] r
  have "filter (\<lambda>e. event_sequence e \<le> int q) (journal_read (int p) None j) = take (nat (int q - (1 + int p) + 1)) (drop p H)" by simp
  also have "nat (int q - (1 + int p) + 1) = q - p" by simp
  finally show ?thesis by (simp only: drop_take)
qed

lemma wf_member: "wf_json e \<Longrightarrow> event_member e k = Some v \<Longrightarrow> wf_json v"
  by (cases e) (fastforce simp: event_member_def list_all_iff dest: map_of_SomeD)+

lemma payload_member_wf: "wf_json e \<Longrightarrow> payload_member e k = Some v \<Longrightarrow> wf_json v"
proof -
  assume wf: "wf_json e" and v: "payload_member e k = Some v"
  then obtain ms where ms: "event_member e ''payload'' = Some (JObj ms)" "map_of ms k = Some v"
    by (auto simp: payload_member_def split: option.splits json.splits)
  have "event_member (JObj ms) k = Some v" using ms(2) by (simp add: event_member_def)
  with wf_member [OF wf ms(1)] show "wf_json v" by (rule wf_member)
qed

definition safe_events :: "json list \<Rightarrow> bool" where
  "safe_events es \<longleftrightarrow> (\<forall>e \<in> set es. safe_from 1 (event_sequence e) \<and> wf_json e)"

lemma opened_ok: "safe_events es \<Longrightarrow> e \<in> set es \<Longrightarrow> opened_of e = Some t \<Longrightarrow> open_ok t"
  by (auto simp: safe_events_def opened_of_def open_ok_def split: option.splits if_splits)

lemma completed_ok_of: "safe_events es \<Longrightarrow> e \<in> set es \<Longrightarrow> completed_of e = Some t \<Longrightarrow> completed_ok t"
  by (auto simp: safe_events_def completed_of_def terminal_ids_def completed_ok_def split: option.splits if_splits)

lemma receipt_ok_of: "safe_events es \<Longrightarrow> e \<in> set es \<Longrightarrow> receipt_of e = Some r \<Longrightarrow> receipt_ok r"
  by (auto simp: safe_events_def receipt_of_def terminal_ids_def receipt_ok_def durable_journal_receipt_payload_def Let_def
      split: option.splits if_splits intro: payload_member_wf)

lemma map_filter_member: "x \<in> set (List.map_filter f xs) \<longleftrightarrow> (\<exists>y \<in> set xs. f y = Some x)"
  by (force simp: List.map_filter_def)

lemma last_n_subset: "set (last_n n xs) \<subseteq> set xs"
  by (auto simp: last_n_def dest: in_set_dropD)

lemma last_n_length: "length (last_n n xs) \<le> n"
  by (simp add: last_n_def)

lemma fill_subset: "set (jm_values (fill_map key rs (fill_map key rs' []))) \<subseteq> set rs \<union> set rs'"
  using fill_values [where m = "fill_map key rs' []" and key = key and rs = rs]
    fill_values [where m = "[]" and key = key and rs = rs'] keyed_fill [OF keyed_empty] by fastforce

lemma next_open_ok:
  assumes "durable_open_transactions restored es = Some opn" "list_all open_ok restored" "safe_events es"
  shows "length opn \<le> pendingCommands AGENT_CONTROL_LIMITS \<and> list_all open_ok opn"
proof -
  have opn: "opn = sort_key ot_sequence (jm_values (open_transactions restored es))"
    "length (open_transactions restored es) \<le> pendingCommands AGENT_CONTROL_LIMITS"
    using assms(1) by (auto simp: durable_open_transactions_def Let_def split: if_splits)
  then have "open_ok t" if "t \<in> set opn" for t
    using open_values [of t restored es] that assms(2) opened_ok [OF assms(3)] by (auto simp: list_all_iff map_filter_member simp del: set_map)
  then show ?thesis using opn by (simp add: list_all_iff)
qed

lemma next_completed_ok:
  assumes "list_all completed_ok restored" "safe_events es"
  shows "length (durable_completed_transactions restored es) \<le> MAX_DURABLE_RECORDS \<and>
    list_all completed_ok (durable_completed_transactions restored es)"
proof -
  have "completed_ok t" if "t \<in> set (durable_completed_transactions restored es)" for t
  proof -
    from that have "t \<in> set (List.map_filter completed_of es) \<union> set restored"
      unfolding durable_completed_transactions_def
      using last_n_subset fill_subset [of completed_tx] by (metis (no_types, lifting) set_sort subsetD)
    then show ?thesis using assms completed_ok_of [OF assms(2)] by (auto simp: list_all_iff map_filter_member)
  qed
  then show ?thesis by (simp add: list_all_iff durable_completed_transactions_def last_n_length)
qed

lemma next_receipts_ok:
  assumes "list_all receipt_ok restored" "safe_events es"
  shows "length (durable_receipts restored es) \<le> MAX_DURABLE_RECORDS \<and> list_all receipt_ok (durable_receipts restored es)"
proof -
  have "receipt_ok r" if "r \<in> set (durable_receipts restored es)" for r
  proof -
    from that have "r \<in> set (latest_durable_receipt_records es) \<union> set restored"
      unfolding durable_receipts_def merge_durable_receipt_records_def
      using last_n_subset fill_subset [of receipt_key] by (metis (no_types, lifting) set_sort subsetD)
    moreover have "set (latest_durable_receipt_records es) \<subseteq> set (List.map_filter receipt_of es)"
      using fill_subset [of receipt_key "List.map_filter receipt_of es" "[]"]
      by (simp add: latest_durable_receipt_records_def fill_map_def)
    ultimately have "r \<in> set restored \<or> r \<in> set (List.map_filter receipt_of es)" by blast
    then show ?thesis using assms(1) receipt_ok_of [OF assms(2)] by (auto simp: list_all_iff map_filter_member)
  qed
  then show ?thesis by (simp add: list_all_iff durable_receipts_def last_n_length)
qed

lemma next_snapshot_covers:
  assumes "history_journal H m j" "m \<le> p" "p \<le> q" "q \<le> length H" "snapshot_covers H p previous"
    and "safe_from 0 (jn_ownerEpoch j)" "safe_events H" "next_snapshot previous (int q) j = Some snap"
  shows "snapshot_covers H q (Some snap)"
proof -
  have p: "(case previous of None \<Rightarrow> 0 | Some s \<Rightarrow> sf_coveredSequence s) = int p"
    using assms(5) by (auto simp: snapshot_covers_def split: option.splits)
  let ?since = "drop p (take q H)"
  let ?receipts = "case previous of None \<Rightarrow> [] | Some s \<Rightarrow> sf_receipts s"
  let ?done = "case previous of None \<Rightarrow> [] | Some s \<Rightarrow> sf_completed s"
  have safe: "safe_events ?since" using assms(7) by (auto simp: safe_events_def dest!: in_set_dropD in_set_takeD)
  obtain opn where opn: "durable_open_transactions (snapshot_open previous) ?since = Some opn"
    and snap: "snap = \<lparr>sf_ownerEpoch = jn_ownerEpoch j, sf_sequence = jn_currentSequence j, sf_coveredSequence = int q,
       sf_outcomes = [], sf_receipts = durable_receipts ?receipts ?since, sf_open = opn,
       sf_completed = durable_completed_transactions ?done ?since\<rparr>"
    using assms(8) events_since [OF assms(1-4)]
    by (auto simp: next_snapshot_def p snapshot_open_def durable_receipts_def Let_def)
  have prev: "list_all open_ok (snapshot_open previous)" "list_all receipt_ok ?receipts" "list_all completed_ok ?done"
    using assms(5) by (auto simp: snapshot_covers_def snapshot_ok_def snapshot_open_def split: option.splits)
  have cur: "safe_from 0 (jn_currentSequence j) \<and> safe_from 0 (int q)"
  proof (cases "length H")
    case 0
    with assms(1,4) show ?thesis by (simp add: history_journal_def memory_sound_def safe_from_def MAX_SAFE_INTEGER_def)
  next
    case (Suc n)
    have "event_sequence (H ! n) = 1 + int n"
      using events_from_nth [of 1 H n] assms(1) Suc by (simp add: history_journal_def event_okD(1))
    moreover have "safe_from 1 (event_sequence (H ! n))" using assms(7) Suc by (simp add: safe_events_def)
    ultimately show ?thesis using assms(1,4) Suc by (simp add: history_journal_def memory_sound_def safe_from_def)
  qed
  have "snapshot_ok snap"
    using next_open_ok [OF opn prev(1) safe] next_receipts_ok [OF prev(2) safe] next_completed_ok [OF prev(3) safe] cur assms(6)
    by (simp add: snap snapshot_ok_def)
  moreover have "covers H q opn"
    by (rule covers_extend [OF _ assms(3) opn]) (use assms(5) in \<open>simp add: snapshot_covers_def\<close>)
  ultimately show ?thesis using assms(4) by (simp add: snapshot_covers_def snapshot_open_def snap)
qed

section \<open>The stages of a compaction\<close>

definition compaction_sound :: "json list \<Rightarrow> nat \<Rightarrow> nat \<Rightarrow> snapshot_file option \<Rightarrow> journal \<Rightarrow> directory \<Rightarrow> bool" where
  "compaction_sound H m p sn j rd \<longleftrightarrow> history_journal H m j \<and> m \<le> p \<and> file_sound (int p) j (journal_bytes rd) \<and>
     load_snapshot False rd = Inr sn \<and> snapshot_covers H p sn \<and>
     (p = 0 \<or> int p + JOURNAL_RETAINED_EVENTS \<le> int (length H)) \<and> safe_events H \<and> safe_from 0 (jn_ownerEpoch j)"

lemma sound_recovers: "compaction_sound H m p sn j rd \<Longrightarrow> recovers H rd"
  using history_recovers [of H m j p rd sn] by (simp add: compaction_sound_def)

lemma file_sound_mono:
  assumes "file_sound c j b" "c \<le> c'"
  shows "file_sound c' j b"
proof -
  obtain h k tail where f: "k \<le> length (jn_events j)" "\<And>e. e \<in> set (take k (jn_events j)) \<Longrightarrow> event_sequence e \<le> c"
    "h \<or> jn_firstRetained j + int k = 1" "b = journal_text h (jn_firstRetained j + int k) (drop k (jn_events j)) @ tail"
    "\<And>n. jn_unrolled j = Some n \<Longrightarrow> n = length (journal_text h (jn_firstRetained j + int k) (drop k (jn_events j)))"
    "torn_tail j tail"
    using assms(1) by (elim file_soundE) blast
  show ?thesis by (rule file_soundI [OF f(1) _ f(3-6)]) (use f(2) assms(2) in fastforce)
qed

lemma sound_current: "compaction_sound H m p sn j rd \<Longrightarrow> jn_currentSequence j = int (length H)"
proof -
  assume "compaction_sound H m p sn j rd"
  then have "memory_sound j" "m \<le> length H" "jn_events j = drop m H" "jn_firstRetained j = 1 + int m"
    by (simp_all add: compaction_sound_def history_journal_def)
  then show ?thesis by (simp add: memory_sound_def of_nat_diff)
qed

lemma sound_last: "compaction_sound H m p sn j rd \<Longrightarrow> int p \<le> jn_currentSequence j - JOURNAL_RETAINED_EVENTS \<or> p = 0"
  using sound_current [of H m p sn j rd] by (auto simp: compaction_sound_def)

definition quiet_publication :: "pub_env \<Rightarrow> bool" where
  "quiet_publication en \<longleftrightarrow> undisturbed en \<and> \<not> pe_fails en StatPublished \<and> \<not> pe_fails en CheckPublished"

lemma write_stage:
  assumes "compaction_sound H m p sn j rd" "covered = jn_currentSequence j - JOURNAL_RETAINED_EVENTS" "1 \<le> covered"
    and "next_snapshot sn covered j = Some snap" "write_snapshot en tmp snap rd = (w, rds)" "quiet_publication en"
    and "tmp \<noteq> SNAPSHOT_FILE" "tmp \<noteq> JOURNAL_FILE"
  shows "rds \<noteq> []" "sf_coveredSequence snap = covered"
    "\<And>x. x \<in> set rds \<Longrightarrow> \<exists>p' sn'. compaction_sound H m p' sn' j x"
    "w = Inr True \<Longrightarrow> compaction_sound H m (nat covered) (Some snap) j (last rds)"
proof -
  obtain q where q: "covered = int q" using assms(3) nonneg_int_cases [of covered] by auto
  have h: "history_journal H m j" "m \<le> p" "snapshot_covers H p sn" "safe_from 0 (jn_ownerEpoch j)" "safe_events H"
    using assms(1) by (simp_all add: compaction_sound_def)
  have pq: "p \<le> q" using sound_last [OF assms(1)] assms(2) q by auto
  have qH: "int q + JOURNAL_RETAINED_EVENTS \<le> int (length H)" using sound_current [OF assms(1)] assms(2) q by simp
  then have "q \<le> length H" by (simp add: JOURNAL_RETAINED_EVENTS_def)
  from next_snapshot_covers [OF h(1,2) pq this h(3-5)] assms(4) q
  have new: "snapshot_covers H q (Some snap)" by simp
  then have ok: "snapshot_ok snap" "sf_coveredSequence snap = covered" using q by (simp_all add: snapshot_covers_def)
  show "sf_coveredSequence snap = covered" by (rule ok(2))
  from replace_states [of en "stringify (snapshot_json snap)" tmp SNAPSHOT_FILE rd] assms(5)
  show ne: "rds \<noteq> []" by (simp add: write_snapshot_def)
  have st: "(w = Inr True \<longrightarrow> load_snapshot False (last rds) = Inr (Some snap)) \<and>
    (\<forall>x \<in> set rds. load_snapshot False x \<in> {load_snapshot False rd, Inr (Some snap)} \<and> jm_get x JOURNAL_FILE = jm_get rd JOURNAL_FILE)"
    by (rule snapshot_round_trip [OF ok(1) assms(5)]) (use assms(6-8) in \<open>simp_all add: quiet_publication_def\<close>)
  have jfile: "file_sound (int q) j (journal_bytes x)" if "x \<in> set rds" for x
    using assms(1) st that pq by (auto simp: compaction_sound_def journal_bytes_def intro: file_sound_mono)
  have old: "file_sound (int p) j (journal_bytes x)" if "x \<in> set rds" for x
    using assms(1) st that by (simp add: compaction_sound_def journal_bytes_def)
  have written: "compaction_sound H m q (Some snap) j x" if "x \<in> set rds" "load_snapshot False x = Inr (Some snap)" for x
    using jfile [OF that(1)] that(2) h new pq qH by (simp add: compaction_sound_def)
  show "\<exists>p' sn'. compaction_sound H m p' sn' j x" if "x \<in> set rds" for x
  proof (cases "load_snapshot False x = Inr (Some snap)")
    case True
    with written that show ?thesis by blast
  next
    case False
    then have "load_snapshot False x = load_snapshot False rd" using st that by auto
    then have "compaction_sound H m p sn j x" using assms(1) old [OF that] by (simp add: compaction_sound_def)
    then show ?thesis by blast
  qed
  show "compaction_sound H m (nat covered) (Some snap) j (last rds)" if "w = Inr True"
    using written [of "last rds"] st that ne q by simp
qed

lemma compact_states:
  assumes "journal_compact en tmp covered j d = (r, j', ds)"
  shows "ds = [d] \<or> (\<exists>s. ds = snd (replace_runtime_file en s tmp JOURNAL_FILE d))"
proof (cases "keep_from covered (jn_events j) = 0")
  case False
  let ?es = "drop (keep_from covered (jn_events j)) (jn_events j)"
  let ?s = "compacted_text (case ?es of [] \<Rightarrow> jn_currentSequence j + 1 | e # x \<Rightarrow> event_sequence e) ?es"
  have "ds = snd (replace_runtime_file en ?s tmp JOURNAL_FILE d)"
    using assms False by (cases "replace_runtime_file en ?s tmp JOURNAL_FILE d")
      (auto simp: journal_compact_def Let_def split: sum.splits if_splits)
  then show ?thesis by blast
qed (use assms in \<open>auto simp: journal_compact_def Let_def\<close>)

lemma compact_stage:
  assumes "compaction_sound H m (nat covered) (Some snap) j rd" "1 \<le> covered" "quiet_publication en"
    and "tmp \<noteq> SNAPSHOT_FILE" "tmp \<noteq> JOURNAL_FILE" "journal_compact en tmp covered j rd = (r, j', ds)"
  shows "ds \<noteq> []" "\<And>x. x \<in> set ds \<Longrightarrow> load_snapshot False x = Inr (Some snap)"
    "\<And>x. x \<in> set ds \<Longrightarrow> compaction_sound H m (nat covered) (Some snap) j x"
    "\<exists>m'. compaction_sound H m' (nat covered) (Some snap) j' (last ds)"
proof -
  have c: "int (nat covered) = covered" using assms(2) by simp
  have h: "history_journal H m j" "load_snapshot False rd = Inr (Some snap)"
    "file_sound covered j (journal_bytes rd)" using assms(1) c by (simp_all add: compaction_sound_def)
  have u: "jn_unrolled j = None" "memory_sound j" using h(1) by (simp_all add: history_journal_def)
  have js: "journal_sound covered j rd" using u h(3) by (simp add: journal_sound_def)
  have ok: "compact_ok en tmp j" using assms(3,5) u by (simp add: compact_ok_def quiet_publication_def)
  note cs = compact_sound [OF js order.refl ok assms(6)]
  have "j\<lparr>jn_unrolled := None\<rparr> = j" using u(1) by (cases j) simp
  with cs have jfile: "file_sound covered j (journal_bytes x)" if "x \<in> set ds" for x using that by auto
  have files: "SNAPSHOT_FILE \<noteq> JOURNAL_FILE" by (simp add: SNAPSHOT_FILE_def JOURNAL_FILE_def)
  have other: "ds \<noteq> [] \<and> (\<forall>x \<in> set ds. jm_get x SNAPSHOT_FILE = jm_get rd SNAPSHOT_FILE)"
    using compact_states [OF assms(6)]
  proof
    assume "\<exists>s. ds = snd (replace_runtime_file en s tmp JOURNAL_FILE rd)"
    then obtain s where "ds = snd (replace_runtime_file en s tmp JOURNAL_FILE rd)" ..
    with replace_others [OF _ assms(4) [symmetric] files, of en s rd] replace_states [of en s tmp JOURNAL_FILE rd] assms(3)
    show ?thesis by (simp add: quiet_publication_def)
  qed simp
  then show ne: "ds \<noteq> []" by blast
  show snap: "load_snapshot False x = Inr (Some snap)" if "x \<in> set ds" for x
  proof -
    have "jm_get x SNAPSHOT_FILE = jm_get rd SNAPSHOT_FILE" using other that by blast
    then show ?thesis using h(2) unfolding load_snapshot_def by simp
  qed
  show sound: "compaction_sound H m (nat covered) (Some snap) j x" if "x \<in> set ds" for x
    using assms(1) jfile [OF that] snap [OF that] c by (simp add: compaction_sound_def)
  have "j' = j \<or> compacted covered j j' \<and> jn_ownerEpoch j' = jn_ownerEpoch j"
    using cs assms(6) by (auto simp: journal_compact_def Let_def split: prod.splits sum.splits if_splits)
  then show "\<exists>m'. compaction_sound H m' (nat covered) (Some snap) j' (last ds)"
  proof
    assume "j' = j"
    then show ?thesis using sound [of "last ds"] ne by auto
  next
    assume e: "compacted covered j j' \<and> jn_ownerEpoch j' = jn_ownerEpoch j"
    let ?k = "keep_from covered (jn_events j)"
    have js': "journal_sound covered j' (last ds)" using cs by blast
    have ef: "events_from (jn_firstRetained j) (jn_events j)" using u(2) by (simp add: memory_sound_def)
    note kf = take_while_sequence [OF ef, where c = covered]
    have "m + ?k \<le> nat covered"
    proof (cases ?k)
      case 0
      with assms(1) show ?thesis by (simp add: compaction_sound_def)
    next
      case (Suc i)
      then have "jn_events j ! i \<in> set (take ?k (jn_events j))" using kf(1) by (auto simp: in_set_conv_nth intro!: exI [of _ i])
      moreover have "event_sequence (jn_events j ! i) = jn_firstRetained j + int i"
        using events_from_nth [OF ef, of i] kf(1) Suc by (simp add: event_okD(1))
      ultimately show ?thesis using kf(2) [of "jn_events j ! i"] Suc h(1) by (simp add: history_journal_def)
    qed
    moreover have "history_journal H (m + ?k) j'"
      using h(1) e js' kf(1) by (auto simp: history_journal_def compacted_def journal_sound_def add.commute)
    ultimately have "compaction_sound H (m + ?k) (nat covered) (Some snap) j' (last ds)"
      using assms(1) js' c e snap [of "last ds"] ne by (simp add: compaction_sound_def journal_sound_def)
    then show ?thesis by blast
  qed
qed

section \<open>What happens to the outcomes\<close>

text \<open>\<open>outcome_at sha k\<close>: what a fault-free load of key \<open>k\<close> answers.\<close>

abbreviation outcome_at :: "(string \<Rightarrow> string) \<Rightarrow> string \<Rightarrow> directory \<Rightarrow> (outcome_error, json option) result" where
  "outcome_at sha k d \<equiv> load_outcome calm_load sha k d"

lemma store_keeps:
  assumes "store_outcome en sha tmp key out d = (r, ds)" "quiet_publication en" "tmp \<notin> range sha" "wf_json out"
    and "inj_on sha K" "key \<in> K" "k \<in> K" "outcome_at sha k d \<in> A" "k = key \<Longrightarrow> Inr (Some out) \<in> A" "y \<in> set ds"
  shows "outcome_at sha k y \<in> A"
proof -
  have q: "undisturbed en" "\<not> pe_fails en StatPublished" "\<not> pe_fails en CheckPublished"
    using assms(2) by (simp_all add: quiet_publication_def)
  note s = store_states [OF assms(1) q(1) assms(3,4) q(2,3)]
  show ?thesis
  proof (cases "k = key")
    case True
    with s assms(8-10) load_same [of y sha key d calm_load] show ?thesis by auto
  next
    case False
    then have "sha k \<noteq> sha key" using assms(5-7) by (auto dest: inj_onD)
    with s assms(8,10) load_same [of y sha k d calm_load] show ?thesis by auto
  qed
qed

lemma replace_keeps:
  assumes "replace_outcome_if_matches le en sha tmp key digest out d = (r, ds)" "quiet_publication en" "tmp \<notin> range sha" "wf_json out"
    and "inj_on sha K" "key \<in> K" "k \<in> K" "outcome_at sha k d \<in> A" "k = key \<Longrightarrow> Inr (Some out) \<in> A" "y \<in> set ds"
  shows "outcome_at sha k y \<in> A"
proof -
  have "ds = [d] \<or> (\<exists>r'. store_outcome en sha tmp key out d = (r', ds))"
    using assms(1) by (auto simp: replace_outcome_if_matches_def split: sum.splits option.splits if_splits prod.splits)
  then show ?thesis using store_keeps [OF _ assms(2-10)] assms(8,10) by auto
qed

definition compaction_ok :: "compaction_env \<Rightarrow> bool" where
  "compaction_ok en \<longleftrightarrow> (\<forall>m n. m \<le> n \<longrightarrow> ce_aborts en m \<longrightarrow> ce_aborts en n) \<and>
     quiet_publication (ce_snapshot en) \<and> quiet_publication (ce_journal en) \<and>
     (\<forall>k. quiet_publication (ce_flush en k) \<and> quiet_publication (ce_mark en k) \<and> ce_tmp en k \<notin> range (ce_sha en)) \<and>
     ce_snapshotTmp en \<notin> {SNAPSHOT_FILE, JOURNAL_FILE} \<and> ce_journalTmp en \<notin> {SNAPSHOT_FILE, JOURNAL_FILE}"

lemma flush_keeps:
  assumes "compaction_ok en" "inj_on (ce_sha en) K" "k \<in> K"
    and "\<And>key d out. (key, d) \<in> set L \<Longrightarrow> dy_outcome d = Some out \<Longrightarrow> key \<in> K \<and> wf_json out"
    and "\<And>d out. (k, d) \<in> set L \<Longrightarrow> dy_outcome d = Some out \<Longrightarrow> Inr (Some out) \<in> A"
    and "ods \<noteq> []" "\<forall>y \<in> set ods. outcome_at (ce_sha en) k y \<in> A" "flush_dirty en c L (dirty, ods) = (dirty', ods')"
  shows "ods' \<noteq> [] \<and> (\<forall>y \<in> set ods'. outcome_at (ce_sha en) k y \<in> A)"
  using assms(4-8)
proof (induction L arbitrary: dirty ods)
  case (Cons x L)
  obtain key d where x: "x = (key, d)" by (cases x)
  show ?case
  proof (cases "dy_sequence d > c \<or> dy_outcome d = None")
    case True
    then have f: "flush_dirty en c L (dirty, ods) = (dirty', ods')"
      using Cons.prems(5) x by (auto split: if_splits option.splits)
    show ?thesis by (rule Cons.IH [OF _ _ Cons.prems(3,4) f]) (use Cons.prems(1,2) in \<open>meson list.set_intros(2)\<close>)+
  next
    case False
    then obtain out where out: "dy_outcome d = Some out" by blast
    obtain r ds where st: "store_outcome (ce_flush en key) (ce_sha en) (ce_tmp en key) key out (last ods) = (r, ds)" by (metis prod.exhaust)
    have "outcome_at (ce_sha en) k y \<in> A" if "y \<in> set ds" for y
      by (rule store_keeps [OF st _ _ _ assms(2) _ assms(3) _ _ that])
        (use Cons.prems(1) [of key d out] Cons.prems(2) [of d out] Cons.prems(3,4) x out assms(1) in \<open>auto simp: compaction_ok_def\<close>)
    then have "\<forall>y \<in> set (ods @ ds). outcome_at (ce_sha en) k y \<in> A" "ods @ ds \<noteq> []" using Cons.prems(3,4) by auto
    moreover have "\<exists>dirty1. flush_dirty en c L (dirty1, ods @ ds) = (dirty', ods')"
      using Cons.prems(5) x False out st by (auto split: sum.splits)
    ultimately show ?thesis using Cons.IH [of "ods @ ds"] Cons.prems(1,2) by (metis list.set_intros(2))
  qed
qed simp

lemma flush_nonempty: "flush_dirty en c L (dirty, ods) = (dirty', ods') \<Longrightarrow> ods \<noteq> [] \<Longrightarrow> ods' \<noteq> []"
  by (induction L arbitrary: dirty ods) (fastforce split: if_splits option.splits sum.splits prod.splits)+

lemma mark_nonempty: "mark_batch en b ods = (oks, ods') \<Longrightarrow> ods \<noteq> [] \<Longrightarrow> ods' \<noteq> []"
  by (induction b arbitrary: ods oks) (fastforce split: prod.splits)+

lemma compact_nonempty: "compact_outcomes en n bs ods = (oks, ods') \<Longrightarrow> ods \<noteq> [] \<Longrightarrow> ods' \<noteq> []"
  by (induction bs arbitrary: n ods) (auto dest: mark_nonempty split: if_splits prod.splits bool.splits)

lemma marker_wf: "wf_json compacted_command_outcome"
  by (simp add: compacted_command_outcome_def failure_outcome_def)

lemma mark_keeps:
  assumes "compaction_ok en" "inj_on (ce_sha en) K" "k \<in> K" "fst ` set b \<subseteq> K"
    and "k \<in> fst ` set b \<Longrightarrow> Inr (Some compacted_command_outcome) \<in> A"
    and "ods \<noteq> []" "\<forall>y \<in> set ods. outcome_at (ce_sha en) k y \<in> A" "mark_batch en b ods = (oks, ods')"
  shows "ods' \<noteq> [] \<and> (\<forall>y \<in> set ods'. outcome_at (ce_sha en) k y \<in> A)"
  using assms(4-8)
proof (induction b arbitrary: ods oks)
  case (Cons x b)
  obtain key digest where x: "x = (key, digest)" by (cases x)
  obtain r ds where st: "replace_outcome_if_matches (ce_check en key) (ce_mark en key) (ce_sha en) (ce_tmp en key) key digest
      compacted_command_outcome (last ods) = (r, ds)" by (metis prod.exhaust)
  have "outcome_at (ce_sha en) k y \<in> A" if "y \<in> set ds" for y
    by (rule replace_keeps [OF st _ _ marker_wf assms(2) _ assms(3) _ _ that])
      (use Cons.prems x assms(1) in \<open>auto simp: compaction_ok_def\<close>)
  then have "\<forall>y \<in> set (ods @ ds). outcome_at (ce_sha en) k y \<in> A" "ods @ ds \<noteq> []" using Cons.prems(3,4) by auto
  moreover obtain oks' where "mark_batch en b (ods @ ds) = (oks', ods')"
    using Cons.prems(5) x st by (auto split: prod.splits)
  ultimately show ?case using Cons.IH [of "ods @ ds" oks'] Cons.prems(1,2) by auto
qed simp

lemma compact_keeps:
  assumes "compaction_ok en" "inj_on (ce_sha en) K" "k \<in> K" "\<forall>b \<in> set bs. fst ` set b \<subseteq> K"
    and "\<And>b. b \<in> set bs \<Longrightarrow> k \<in> fst ` set b \<Longrightarrow> Inr (Some compacted_command_outcome) \<in> A"
    and "ods \<noteq> []" "\<forall>y \<in> set ods. outcome_at (ce_sha en) k y \<in> A" "compact_outcomes en n bs ods = (oks, ods')"
  shows "ods' \<noteq> [] \<and> (\<forall>y \<in> set ods'. outcome_at (ce_sha en) k y \<in> A)"
  using assms(4-8)
proof (induction bs arbitrary: ods n)
  case (Cons b bs)
  obtain oks1 ods1 where m: "mark_batch en b ods = (oks1, ods1)" by (metis prod.exhaust)
  have k: "ods1 \<noteq> [] \<and> (\<forall>y \<in> set ods1. outcome_at (ce_sha en) k y \<in> A)"
    by (rule mark_keeps [OF assms(1-3) _ _ Cons.prems(3,4) m]) (use Cons.prems(1,2) in auto)
  consider "ods' = ods" | "ods' = ods1" | "compact_outcomes en (n + 2) bs ods1 = (oks, ods')"
    using Cons.prems(5) m by (cases oks1) (auto split: if_splits)
  then show ?case
  proof cases
    case 3
    from Cons.IH [OF _ _ _ _ 3] k Cons.prems(1,2) show ?thesis by auto
  qed (use k Cons.prems(3,4) in auto)
qed simp

lemma batches_concat: "concat (batches n xs) = (if n = 0 then [] else xs)"
proof (induction n xs rule: batches.induct)
  case (1 n xs)
  then show ?case by (subst batches.simps) simp
qed

lemma batch_keys:
  assumes "b \<in> set (batches n xs)"
  shows "fst ` set b \<subseteq> fst ` set xs"
proof -
  have "set b \<subseteq> set (concat (batches n xs))" using assms by auto
  then have "set b \<subseteq> set xs" by (cases "n = 0") (simp_all add: batches_concat)
  then show ?thesis by blast
qed

lemma verified_keys: "verify_covered en od L = Some vs \<Longrightarrow> map fst vs = map fst L"
  by (induction L arbitrary: vs) (auto split: if_splits sum.splits option.splits)

section \<open>A compaction is safe at every moment\<close>

definition known_outcome ::
  "(string \<Rightarrow> string) \<Rightarrow> directory \<Rightarrow> (string, dirty_outcome) jsmap \<Rightarrow> string \<Rightarrow> (outcome_error, json option) result set"
where
  "known_outcome sha od dirty k =
    insert (outcome_at sha k od) {Inr (Some out) |out d. (k, d) \<in> set dirty \<and> dy_outcome d = Some out}"

definition safe_state ::
  "compaction_env \<Rightarrow> json list \<Rightarrow> string set \<Rightarrow> journal \<Rightarrow> directory \<Rightarrow> (string, dirty_outcome) jsmap \<Rightarrow> directory \<times> directory \<Rightarrow> bool"
where
  "safe_state en H K j od dirty s \<longleftrightarrow> recovers H (fst s) \<and>
    (\<forall>k \<in> K. outcome_at (ce_sha en) k (snd s) \<in> known_outcome (ce_sha en) od dirty k \<or>
       outcome_at (ce_sha en) k (snd s) = Inr (Some compacted_command_outcome) \<and>
       k \<in> fst ` set (covered_terminals (journal_read 0 None j) (jn_currentSequence j - JOURNAL_RETAINED_EVENTS)) \<and>
       (\<exists>sn. load_snapshot False (fst s) = Inr (Some sn) \<and> sf_coveredSequence sn = jn_currentSequence j - JOURNAL_RETAINED_EVENTS))"

definition safe_states ::
  "compaction_env \<Rightarrow> json list \<Rightarrow> string set \<Rightarrow> journal \<Rightarrow> directory \<Rightarrow> (string, dirty_outcome) jsmap \<Rightarrow>
   journal \<Rightarrow> (directory \<times> directory) list \<Rightarrow> bool"
where
  "safe_states en H K j od dirty j' states \<longleftrightarrow> states \<noteq> [] \<and> (\<forall>s \<in> set states. safe_state en H K j od dirty s) \<and>
    (\<exists>m p sn. compaction_sound H m p sn j' (fst (last states)))"

lemma safe_known:
  assumes "\<And>k. k \<in> K \<Longrightarrow> outcome_at (ce_sha en) k (snd s) \<in> known_outcome (ce_sha en) od dirty k" "recovers H (fst s)"
  shows "safe_state en H K j od dirty s"
  using assms by (simp add: safe_state_def)

lemma aborts_later: "compaction_ok en \<Longrightarrow> ce_aborts en m \<Longrightarrow> m \<le> n \<Longrightarrow> ce_aborts en n"
  unfolding compaction_ok_def by blast

lemma quiet_guarded [simp]: "quiet_publication (guarded en n pe) = quiet_publication pe"
  by (simp add: quiet_publication_def guarded_def undisturbed_def)

lemma write_true:
  assumes "write_snapshot (guarded en n pe) tmp f d = (w, ds)" "is_ok w" "compaction_ok en" "\<not> ce_aborts en (n + 3)"
  shows "w = Inr True"
proof -
  have no: "\<not> ce_aborts en (n + i)" if "i \<le> 3" for i
    using aborts_later [OF assms(3), of "n + i" "n + 3"] that assms(4) by auto
  have "\<not> pe_aborts (guarded en n pe) 0" "\<not> pe_aborts (guarded en n pe) 1" "\<not> pe_aborts (guarded en n pe) 2"
    using no [of 0] no [of 1] no [of 2] by (simp_all add: guarded_def)
  then have "w \<noteq> Inr False"
    using assms(1) by (auto simp: write_snapshot_def replace_runtime_file_def Let_def split: if_splits option.splits simp del: find.simps)
  then show ?thesis using assms(2) by (cases w) auto
qed

lemma safe_extend:
  assumes "safe_states en H K j od dirty j1 states" "later \<noteq> []" "\<And>s. s \<in> set later \<Longrightarrow> safe_state en H K j od dirty s"
    and "compaction_sound H m p sn j' (fst (last later))"
  shows "safe_states en H K j od dirty j' (states @ later)"
  using assms by (auto simp: safe_states_def)

text \<open>After the snapshot is durable, the marks are allowed.\<close>

lemma mark_stage:
  assumes ok: "compaction_ok en" and inj: "inj_on (ce_sha en) K"
    and c: "c = jn_currentSequence j - JOURNAL_RETAINED_EVENTS"
    and keys: "fst ` set (covered_terminals (journal_read 0 None j) c) \<subseteq> K"
    and ver: "verify_covered en od1 (covered_terminals (journal_read 0 None j) c) = Some digests"
    and co: "compact_outcomes en n (batches size_limit digests) [od1] = (oks, ods2)"
    and known: "\<And>k. k \<in> K \<Longrightarrow> outcome_at (ce_sha en) k od1 \<in> known_outcome (ce_sha en) od dirty k"
    and x: "recovers H x" "load_snapshot False x = Inr (Some snap)" "sf_coveredSequence snap = c" and y: "y \<in> set ods2"
  shows "safe_state en H K j od dirty (x, y)"
proof -
  let ?covered = "fst ` set (covered_terminals (journal_read 0 None j) c)" and ?bs = "batches size_limit digests"
  let ?B = "\<lambda>k. known_outcome (ce_sha en) od dirty k \<union> (if k \<in> ?covered then {Inr (Some compacted_command_outcome)} else {})"
  have dig: "fst ` set digests = ?covered" using verified_keys [OF ver] by (metis set_map)
  have bk: "fst ` set b \<subseteq> ?covered" if "b \<in> set ?bs" for b using batch_keys [OF that] dig by simp
  have bK: "\<forall>b \<in> set ?bs. fst ` set b \<subseteq> K" using bk keys by blast
  have marker: "Inr (Some compacted_command_outcome) \<in> ?B k" if "b \<in> set ?bs" "k \<in> fst ` set b" for b k
    using bk [OF that(1)] that(2) by auto
  have keep: "outcome_at (ce_sha en) k y \<in> ?B k" if "k \<in> K" for k
  proof -
    have "ods2 \<noteq> [] \<and> (\<forall>y \<in> set ods2. outcome_at (ce_sha en) k y \<in> ?B k)"
      by (rule compact_keeps [OF ok inj that bK marker _ _ co]) (use known [OF that] in auto)
    with y show ?thesis by blast
  qed
  show ?thesis
    unfolding safe_state_def fst_conv snd_conv
  proof (intro conjI ballI)
    show "recovers H x" by (rule x(1))
    fix k assume "k \<in> K"
    from keep [OF this] x c
    show "outcome_at (ce_sha en) k y \<in> known_outcome (ce_sha en) od dirty k \<or>
        outcome_at (ce_sha en) k y = Inr (Some compacted_command_outcome) \<and>
        k \<in> fst ` set (covered_terminals (journal_read 0 None j) (jn_currentSequence j - JOURNAL_RETAINED_EVENTS)) \<and>
        (\<exists>sn. load_snapshot False x = Inr (Some sn) \<and> sf_coveredSequence sn = jn_currentSequence j - JOURNAL_RETAINED_EVENTS)"
      by (auto split: if_splits)
  qed
qed


text \<open>A journal of 1002 events, of which two are covered.\<close>

definition demo_history :: "nat \<Rightarrow> json list" where
  "demo_history n = map (\<lambda>i. JObj [(''sequence'', JNum (1 + int i)), (''payload'', JObj [])]) [0..<n]"

lemma demo_history_from: "events_from 1 (demo_history n)"
proof (induction n)
  case (Suc n)
  have "event_ok (1 + int n) (JObj [(''sequence'', JNum (1 + int n)), (''payload'', JObj [])])"
    by (simp add: event_ok_def)
  with Suc show ?case by (simp add: demo_history_def events_from_append)
qed (simp add: demo_history_def)

lemma demo_history_event:
  assumes "e \<in> set (demo_history n)"
  shows "1 \<le> event_sequence e \<and> event_sequence e \<le> int n \<and> wf_json e \<and> indexed_key e = None \<and> event_kind e = []"
  using assms by (auto simp: demo_history_def event_sequence_def event_member_def indexed_key_def event_kind_def)

definition demo_long :: journal where
  "demo_long = \<lparr>jn_ownerEpoch = 1, jn_currentSequence = 1002, jn_firstRetained = 1, jn_events = demo_history 1002,
     jn_index = [], jn_listeners = [], jn_delivered = [], jn_unrolled = None\<rparr>"

definition demo_long_files :: directory where
  "demo_long_files = [(JOURNAL_FILE, \<lparr>fl_ino = 1, fl_bytes = journal_text False 1 (demo_history 1002)\<rparr>)]"

definition demo_compaction :: compaction_env where
  "demo_compaction = \<lparr>ce_sha = (\<lambda>k. CHR ''h'' # k), ce_aborts = (\<lambda>_. False), ce_flush = (\<lambda>_. quiet_env 5),
     ce_verify = (\<lambda>_. calm_load), ce_check = (\<lambda>_. calm_load), ce_mark = (\<lambda>_. quiet_env 6), ce_tmp = (\<lambda>_. ''t''),
     ce_snapshotUnreadable = False, ce_snapshot = quiet_env 7, ce_snapshotTmp = ''t1'', ce_journal = quiet_env 8,
     ce_journalTmp = ''t2''\<rparr>"

lemma demo_long_sound: "compaction_sound (demo_history 1002) 0 0 None demo_long demo_long_files"
proof -
  have len: "length (demo_history 1002) = 1002" by (simp add: demo_history_def)
  have none: "latest_with_key k (demo_history 1002) = None" for k
    using demo_history_event by (auto simp: latest_with_key_def find_None_iff)
  have "history_journal (demo_history 1002) 0 demo_long"
    using demo_history_from [of 1002] len none
    by (simp add: history_journal_def memory_sound_def demo_long_def)
  moreover have "file_sound 0 demo_long (journal_bytes demo_long_files)"
    by (rule file_soundI [of 0 _ _ False _ "[]"]) (simp_all add: demo_long_def demo_long_files_def journal_bytes_def torn_tail_def)
  moreover have "load_snapshot False demo_long_files = Inr None"
    by (simp add: load_snapshot_def demo_long_files_def SNAPSHOT_FILE_def JOURNAL_FILE_def)
  moreover have "snapshot_covers (demo_history 1002) 0 None"
    by (simp add: snapshot_covers_def covers_def snapshot_open_def open_transactions_def)
  moreover have "safe_events (demo_history 1002)"
    using demo_history_event [of _ 1002] by (fastforce simp: safe_events_def safe_from_def MAX_SAFE_INTEGER_def)
  ultimately show ?thesis
    by (simp add: compaction_sound_def demo_long_def safe_from_def MAX_SAFE_INTEGER_def)
qed

lemma demo_covered: "covered_terminals (demo_history n) c = []"
proof -
  have "fold (\<lambda>e m. if event_kind e \<notin> set TERMINAL_KINDS then m
      else (case payload_string e ''idempotencyKey'' of Some k \<Rightarrow> if k = [] then m else jm_set k e m | None \<Rightarrow> m)) es m = m"
    if "\<forall>e \<in> set es. event_kind e = []" for es m
    using that by (induction es) (simp_all add: TERMINAL_KINDS_def)
  then show ?thesis using demo_history_event by (simp add: covered_terminals_def)
qed


end
