(* ===== verification/ControlProtocol.thy ===== *)
theory ControlProtocol
  imports DurableState BoundedJson ApprovalProperties
begin

text \<open>
  The wire protocol of the control plane (\<open>src/src/control/protocol.ts\<close>): encoding a message with its
  keys sorted, decoding a request and checking its shape. \<open>Date.parse\<close> accepts more formats than the
  ISO one, depending on the engine, so \<open>date_ok s\<close> (its result is finite) is a parameter. As in
  \<open>Json\<close>, numbers are integers and no member name is an array index.
\<close>

section \<open>Decoding\<close>

datatype protocol_error =
    InvalidJson | InvalidEnvelope | UnsupportedVersion | InvalidHello | InvalidSubmit | InvalidStateGet
  | InvalidEventsRead | InvalidRegistration | InvalidResource | InvalidRemoval | InvalidEffectResult
  | UnsupportedType | InvalidAuthorization | InvalidScriptArguments

definition CONTROL_PROTOCOL_VERSION :: int where "CONTROL_PROTOCOL_VERSION = 1"

definition encode_control_message :: "json \<Rightarrow> string" where
  "encode_control_message message = stringify (sort_object_keys message)"

definition is_bounded_string :: "nat \<Rightarrow> json option \<Rightarrow> bool" where
  "is_bounded_string limit v = (case v of Some (JStr s) \<Rightarrow> s \<noteq> [] \<and> length s \<le> limit | _ \<Rightarrow> False)"

text \<open>\<open>typeof v === 'string' && v.length <= limit\<close>.\<close>

definition is_short_string :: "nat \<Rightarrow> json option \<Rightarrow> bool" where
  "is_short_string limit v = (case v of Some (JStr s) \<Rightarrow> length s \<le> limit | _ \<Rightarrow> False)"

definition is_generation :: "json option \<Rightarrow> bool" where
  "is_generation v \<longleftrightarrow> safe_at_least 1 v \<noteq> None"

definition is_json_boolean :: "json option \<Rightarrow> bool" where
  "is_json_boolean v = (case v of Some (JBool b) \<Rightarrow> True | _ \<Rightarrow> False)"

definition is_json_number :: "json option \<Rightarrow> bool" where
  "is_json_number v = (case v of Some (JNum i) \<Rightarrow> True | _ \<Rightarrow> False)"

definition plain_object :: "json option \<Rightarrow> (string \<times> json) list option" where
  "plain_object v = (case v of Some (JObj ms) \<Rightarrow> Some ms | _ \<Rightarrow> None)"

definition is_browser_tab_resource :: "json option \<Rightarrow> bool" where
  "is_browser_tab_resource v =
    (case plain_object v of
       None \<Rightarrow> False
     | Some ms \<Rightarrow>
        map_of ms ''kind'' = Some (JStr ''browser_tab'') \<and>
        is_bounded_string 256 (map_of ms ''id'') \<and> is_generation (map_of ms ''generation'') \<and>
        is_bounded_string 256 (map_of ms ''providerId'') \<and> is_bounded_string 256 (map_of ms ''webviewLabel'') \<and>
        is_bounded_string 4096 (map_of ms ''projectRoot'') \<and> is_bounded_string 4096 (map_of ms ''worktreeRoot'') \<and>
        is_short_string 16384 (map_of ms ''url'') \<and> is_short_string 4096 (map_of ms ''title'') \<and>
        is_json_boolean (map_of ms ''loading'') \<and>
        (case plain_object (map_of ms ''viewport'') of
           None \<Rightarrow> False
         | Some vp \<Rightarrow> safe_at_least 0 (map_of vp ''width'') \<noteq> None \<and> safe_at_least 0 (map_of vp ''height'') \<noteq> None))"

definition exact_keys :: "(string \<times> json) list \<Rightarrow> string list \<Rightarrow> bool" where
  "exact_keys ms allowed \<longleftrightarrow> length (map fst ms) = length allowed \<and> list_all (\<lambda>k. k \<in> set allowed) (map fst ms)"

definition bounded_payload :: "nat \<Rightarrow> json \<Rightarrow> bool" where
  "bounded_payload maxBytes v = is_ok (canonicalize_bounded_json maxBytes () () (raw_of v))"

definition optional_bounded :: "nat \<Rightarrow> json option \<Rightarrow> bool" where
  "optional_bounded limit v \<longleftrightarrow> v = None \<or> is_bounded_string limit v"

definition is_provider_effect_result :: "json option \<Rightarrow> bool" where
  "is_provider_effect_result v =
    (case plain_object v of
       None \<Rightarrow> False
     | Some ms \<Rightarrow>
        is_bounded_string 256 (map_of ms ''actionId'') \<and>
        (if map_of ms ''status'' = Some (JStr ''succeeded'')
         then (case map_of ms ''value'' of
                 None \<Rightarrow> exact_keys ms [''actionId'', ''status'']
               | Some x \<Rightarrow> exact_keys ms [''actionId'', ''status'', ''value''] \<and> bounded_payload (4 * 1024 * 1024) x)
         else if map_of ms ''status'' = Some (JStr ''failed'')
         then exact_keys ms [''actionId'', ''status'', ''code'', ''message''] \<and>
              is_bounded_string 256 (map_of ms ''code'') \<and> is_bounded_string 4096 (map_of ms ''message'')
         else if map_of ms ''status'' = Some (JStr ''unknown'')
         then exact_keys ms ([''actionId'', ''status''] @ (if map_of ms ''code'' = None then [] else [''code'']) @
                (if map_of ms ''message'' = None then [] else [''message''])) \<and>
              optional_bounded 256 (map_of ms ''code'') \<and> optional_bounded 4096 (map_of ms ''message'')
         else False))"

definition has_task_lease_authorization :: "(string \<times> json) list \<Rightarrow> bool" where
  "has_task_lease_authorization p \<longleftrightarrow> nonempty_string (map_of p ''taskId'') \<noteq> None \<and>
     nonempty_string (map_of p ''leaseId'') \<noteq> None \<and> safe_at_least 1 (map_of p ''leaseRevision'') \<noteq> None"

definition SURFACE_ACTION_KINDS :: "string list" where
  "SURFACE_ACTION_KINDS = [''pane.observe'', ''pane.action'', ''browser.inspect'', ''browser.action'', ''browser.script'']"

definition creates_pane :: "string \<Rightarrow> (string \<times> json) list \<Rightarrow> bool" where
  "creates_pane kind p \<longleftrightarrow> kind = ''pane.action'' \<and>
     (case plain_object (map_of p ''action'') of None \<Rightarrow> False | Some a \<Rightarrow> map_of a ''kind'' = Some (JStr ''create''))"

definition validate_surface_authorization :: "string \<Rightarrow> (string \<times> json) list \<Rightarrow> (protocol_error, unit) result" where
  "validate_surface_authorization kind p =
    (if kind = ''lease.release'' \<or> kind = ''orchestration.execute''
     then throw_if (\<not> has_task_lease_authorization p) InvalidAuthorization (Inr ())
     else if kind \<notin> set SURFACE_ACTION_KINDS then Inr ()
     else throw_if (\<not> has_task_lease_authorization p) InvalidAuthorization
       (if creates_pane kind p then throw_if (\<not> is_json_string (map_of p ''projectId'')) InvalidAuthorization (Inr ())
        else throw_if (safe_at_least 1 (map_of p ''generation'') = None) InvalidAuthorization
          (throw_if (\<not> is_json_string (map_of p (if kind = ''pane.observe'' \<or> kind = ''pane.action'' then ''paneId'' else ''tabId'')))
             InvalidAuthorization
             (case map_of p ''args'' of
                None \<Rightarrow> Inr ()
              | Some x \<Rightarrow> throw_if (kind = ''browser.script'' \<and> \<not> bounded_payload (scriptResultBytes AGENT_CONTROL_LIMITS) x)
                  InvalidScriptArguments (Inr ())))))"

definition is_date :: "(string \<Rightarrow> bool) \<Rightarrow> json option \<Rightarrow> bool" where
  "is_date date_ok v = (case v of Some (JStr s) \<Rightarrow> date_ok s | _ \<Rightarrow> False)"

definition check_submit :: "(string \<Rightarrow> bool) \<Rightarrow> (string \<times> json) list \<Rightarrow> (protocol_error, unit) result" where
  "check_submit date_ok ms =
    (case plain_object (map_of ms ''command'') of
       None \<Rightarrow> Inl InvalidSubmit
     | Some c \<Rightarrow>
        (case (plain_object (map_of c ''payload''), map_of c ''kind'') of
           (Some p, Some (JStr kind)) \<Rightarrow>
             throw_if (\<not> is_json_string (map_of c ''id'') \<or> \<not> is_json_string (map_of c ''idempotencyKey'') \<or>
                 \<not> is_json_string (map_of c ''projectRoot'') \<or> \<not> is_date date_ok (map_of c ''createdAt'') \<or>
                 (map_of c ''expiresAt'' \<noteq> None \<and> \<not> is_date date_ok (map_of c ''expiresAt'')))
               InvalidSubmit (validate_surface_authorization kind p)
         | _ \<Rightarrow> Inl InvalidSubmit))"

definition check_request :: "(string \<Rightarrow> bool) \<Rightarrow> string \<Rightarrow> (string \<times> json) list \<Rightarrow> (protocol_error, unit) result" where
  "check_request date_ok ty ms =
    (if ty = ''hello''
     then throw_if (\<not> is_json_string (map_of ms ''token'') \<or> \<not> is_json_string (map_of ms ''clientName'') \<or>
            \<not> is_json_string (map_of ms ''projectRoot'')) InvalidHello (Inr ())
     else if ty = ''command.submit'' then check_submit date_ok ms
     else if ty = ''state.get'' then throw_if (\<not> optional_bounded 4096 (map_of ms ''taskId'')) InvalidStateGet (Inr ())
     else if ty = ''events.read''
     then throw_if (\<not> json_at_least 0 (map_of ms ''afterSequence'') \<or>
            (map_of ms ''limit'' \<noteq> None \<and> \<not> is_json_number (map_of ms ''limit'')) \<or>
            \<not> optional_bounded 4096 (map_of ms ''taskId'')) InvalidEventsRead (Inr ())
     else if ty = ''provider.register'' then throw_if (\<not> is_bounded_string 4096 (map_of ms ''providerId'')) InvalidRegistration (Inr ())
     else if ty = ''provider.resource.upsert''
     then throw_if (\<not> is_browser_tab_resource (map_of ms ''resource'')) InvalidResource (Inr ())
     else if ty = ''provider.resource.remove''
     then throw_if (\<not> is_bounded_string 4096 (map_of ms ''id'') \<or> \<not> is_generation (map_of ms ''generation'')) InvalidRemoval (Inr ())
     else if ty = ''provider.effect.result''
     then throw_if (\<not> is_provider_effect_result (map_of ms ''result'')) InvalidEffectResult (Inr ())
     else Inl UnsupportedType)"

definition decode_control_request :: "(string \<Rightarrow> bool) \<Rightarrow> string \<Rightarrow> (protocol_error, json) result" where
  "decode_control_request date_ok raw =
    (case json_parse raw of
       None \<Rightarrow> Inl InvalidJson
     | Some v \<Rightarrow>
        (case v of
           JObj ms \<Rightarrow>
             throw_if (map_of ms ''version'' \<noteq> Some (JNum CONTROL_PROTOCOL_VERSION)) UnsupportedVersion
              (case (map_of ms ''type'', map_of ms ''requestId'') of
                 (Some (JStr ty), Some (JStr r)) \<Rightarrow> and_then (check_request date_ok ty ms) (\<lambda>_. Inr v)
               | _ \<Rightarrow> Inl InvalidEnvelope)
         | _ \<Rightarrow> Inl InvalidEnvelope))"

section \<open>The declared types\<close>

text \<open>TypeScript types as far as the protocol uses them; a field is required or optional.\<close>

datatype ts_type =
    TString | TNumber | TBoolean | TUnknown | TLiteral json
  | TObject "(string \<times> bool \<times> ts_type) list" | TUnion "ts_type list"

fun has_type :: "ts_type \<Rightarrow> json \<Rightarrow> bool" where
  "has_type TString v = (case v of JStr s \<Rightarrow> True | _ \<Rightarrow> False)"
| "has_type TNumber v = (case v of JNum i \<Rightarrow> True | _ \<Rightarrow> False)"
| "has_type TBoolean v = (case v of JBool b \<Rightarrow> True | _ \<Rightarrow> False)"
| "has_type TUnknown v = True"
| "has_type (TLiteral l) v = (v = l)"
| "has_type (TObject fs) v =
    (case v of
       JObj ms \<Rightarrow> list_all (\<lambda>(k, required, t). case map_of ms k of None \<Rightarrow> \<not> required | Some x \<Rightarrow> has_type t x) fs
     | _ \<Rightarrow> False)"
| "has_type (TUnion ts) v = list_ex (\<lambda>t. has_type t v) ts"

definition browser_tab_type :: ts_type where
  "browser_tab_type = TObject
    [(''id'', True, TString), (''kind'', True, TLiteral (JStr ''browser_tab'')), (''generation'', True, TNumber),
     (''projectRoot'', True, TString), (''worktreeRoot'', True, TString), (''providerId'', True, TString),
     (''webviewLabel'', True, TString), (''url'', True, TString), (''title'', True, TString), (''loading'', True, TBoolean),
     (''viewport'', True, TObject [(''width'', True, TNumber), (''height'', True, TNumber)])]"

definition provider_effect_result_type :: ts_type where
  "provider_effect_result_type = TUnion
    [TObject [(''actionId'', True, TString), (''status'', True, TLiteral (JStr ''succeeded'')), (''value'', False, TUnknown)],
     TObject [(''actionId'', True, TString), (''status'', True, TLiteral (JStr ''failed'')), (''code'', True, TString),
       (''message'', True, TString)],
     TObject [(''actionId'', True, TString), (''status'', True, TLiteral (JStr ''unknown'')), (''code'', False, TString),
       (''message'', False, TString)]]"

definition agent_surface_authorization :: "(string \<times> bool \<times> ts_type) list" where
  "agent_surface_authorization = [(''taskId'', True, TString), (''leaseId'', True, TString), (''leaseRevision'', True, TNumber)]"

definition pane_authorization :: "(string \<times> bool \<times> ts_type) list" where
  "pane_authorization = agent_surface_authorization @ [(''paneId'', True, TString), (''generation'', True, TNumber)]"

definition browser_authorization :: "(string \<times> bool \<times> ts_type) list" where
  "browser_authorization = agent_surface_authorization @ [(''tabId'', True, TString), (''generation'', True, TNumber)]"

text \<open>What the declared command types say of the authority in the payload of a kind.\<close>

definition payload_authority_type :: "string \<Rightarrow> ts_type" where
  "payload_authority_type kind =
    (if kind = ''lease.release'' \<or> kind = ''orchestration.execute'' then TObject agent_surface_authorization
     else if kind = ''pane.observe'' then TObject pane_authorization
     else if kind = ''pane.action''
     then TUnion [TObject pane_authorization,
       TObject (agent_surface_authorization @ [(''projectId'', True, TString),
         (''action'', True, TObject [(''kind'', True, TLiteral (JStr ''create''))])])]
     else if kind = ''browser.inspect'' \<or> kind = ''browser.action'' \<or> kind = ''browser.script'' then TObject browser_authorization
     else TObject [])"

definition command_input_type :: "string \<Rightarrow> ts_type" where
  "command_input_type kind = TObject
    [(''id'', True, TString), (''idempotencyKey'', True, TString), (''kind'', True, TLiteral (JStr kind)),
     (''projectRoot'', True, TString), (''createdAt'', True, TString), (''expiresAt'', False, TString),
     (''payload'', True, payload_authority_type kind)]"

definition frame :: "string \<Rightarrow> (string \<times> bool \<times> ts_type) list \<Rightarrow> ts_type" where
  "frame ty members = TObject ([(''version'', True, TLiteral (JNum 1)), (''type'', True, TLiteral (JStr ty)),
     (''requestId'', True, TString)] @ members)"

text \<open>\<open>ControlRequest\<close>; the declared literal \<open>requestId: 'hello'\<close> of a hello is a string here.\<close>

definition control_request_type :: "string \<Rightarrow> ts_type" where
  "control_request_type kind = TUnion
    [frame ''hello'' [(''token'', True, TString), (''clientName'', True, TString), (''projectRoot'', True, TString)],
     frame ''command.submit'' [(''command'', True, command_input_type kind)],
     frame ''state.get'' [(''taskId'', False, TString)],
     frame ''events.read'' [(''afterSequence'', True, TNumber), (''limit'', False, TNumber), (''taskId'', False, TString)],
     frame ''provider.register'' [(''providerId'', True, TString)],
     frame ''provider.resource.upsert'' [(''resource'', True, browser_tab_type)],
     frame ''provider.resource.remove'' [(''id'', True, TString), (''generation'', True, TNumber)],
     frame ''provider.effect.result'' [(''result'', True, provider_effect_result_type)]]"

section \<open>Decoded requests have their declared type\<close>

definition submitted_command :: "json \<Rightarrow> (string \<times> json) list option" where
  "submitted_command v = plain_object (event_member v ''command'')"

definition submitted_kind :: "json \<Rightarrow> string" where
  "submitted_kind v =
    (case submitted_command v of
       None \<Rightarrow> []
     | Some c \<Rightarrow> (case map_of c ''kind'' of Some (JStr kind) \<Rightarrow> kind | _ \<Rightarrow> []))"

definition submitted_payload :: "json \<Rightarrow> (string \<times> json) list" where
  "submitted_payload v =
    (case submitted_command v of
       None \<Rightarrow> []
     | Some c \<Rightarrow> (case plain_object (map_of c ''payload'') of None \<Rightarrow> [] | Some p \<Rightarrow> p))"

text \<open>A member of an object with a field of an object type.\<close>

definition has_member :: "(string \<times> json) list \<Rightarrow> string \<times> bool \<times> ts_type \<Rightarrow> bool" where
  "has_member ms f = (case f of (k, required, t) \<Rightarrow> (case map_of ms k of None \<Rightarrow> \<not> required | Some x \<Rightarrow> has_type t x))"

lemma json_string_iff: "is_json_string v \<longleftrightarrow> (\<exists>s. v = Some (JStr s))"
  by (cases v rule: is_json_string.cases) auto

lemma bounded_string_iff: "is_bounded_string n v \<longleftrightarrow> (\<exists>s. v = Some (JStr s) \<and> s \<noteq> [] \<and> length s \<le> n)"
  by (auto simp: is_bounded_string_def split: option.splits json.splits)

lemma short_string_iff: "is_short_string n v \<longleftrightarrow> (\<exists>s. v = Some (JStr s) \<and> length s \<le> n)"
  by (auto simp: is_short_string_def split: option.splits json.splits)

lemma optional_bounded_iff: "optional_bounded n v \<longleftrightarrow> (\<forall>x. v = Some x \<longrightarrow> (\<exists>s. x = JStr s \<and> s \<noteq> [] \<and> length s \<le> n))"
  by (cases v) (auto simp: optional_bounded_def bounded_string_iff)

lemma safe_at_least_iff: "safe_at_least n v = Some i \<longleftrightarrow> v = Some (JNum i) \<and> n \<le> i \<and> \<bar>i\<bar> \<le> MAX_SAFE_INTEGER"
  by (auto simp: safe_at_least_def split: option.splits json.splits)

lemma nonempty_string_iff: "nonempty_string v = Some s \<longleftrightarrow> v = Some (JStr s) \<and> s \<noteq> []"
  by (auto simp: nonempty_string_def split: option.splits json.splits)

lemma plain_object_iff: "plain_object v = Some ms \<longleftrightarrow> v = Some (JObj ms)"
  by (auto simp: plain_object_def split: option.splits json.splits)

lemma json_boolean_iff: "is_json_boolean v \<longleftrightarrow> (\<exists>b. v = Some (JBool b))"
  by (auto simp: is_json_boolean_def split: option.splits json.splits)

lemma json_number_iff: "is_json_number v \<longleftrightarrow> (\<exists>i. v = Some (JNum i))"
  by (auto simp: is_json_number_def split: option.splits json.splits)

lemma at_least_iff: "json_at_least n v \<longleftrightarrow> (\<exists>i. v = Some (JNum i) \<and> n \<le> i)"
  by (auto simp: json_at_least_def split: option.splits json.splits)

lemma is_date_iff: "is_date date_ok v \<longleftrightarrow> (\<exists>s. v = Some (JStr s) \<and> date_ok s)"
  by (auto simp: is_date_def split: option.splits json.splits)

lemmas check_iffs = json_string_iff bounded_string_iff short_string_iff optional_bounded_iff safe_at_least_iff
  nonempty_string_iff plain_object_iff json_boolean_iff json_number_iff at_least_iff is_date_iff

lemma typed_object: "has_type (TObject fs) (JObj ms) \<longleftrightarrow> list_all (has_member ms) fs"
  by (induction fs) (auto simp: has_member_def)

lemma typed_object_nil: "has_type (TObject []) (JObj ms)"
  by simp

lemma typed_object_cons: "has_member ms f \<Longrightarrow> has_type (TObject fs) (JObj ms) \<Longrightarrow> has_type (TObject (f # fs)) (JObj ms)"
  by (simp add: typed_object del: has_type.simps)

lemma typed_append: "has_type (TObject (fs @ gs)) (JObj p) \<longleftrightarrow> has_type (TObject fs) (JObj p) \<and> has_type (TObject gs) (JObj p)"
  by (simp add: typed_object del: has_type.simps)

lemma member_string:
  "is_bounded_string n (map_of ms k) \<Longrightarrow> has_member ms (k, r, TString)"
  "is_short_string n (map_of ms k) \<Longrightarrow> has_member ms (k, r, TString)"
  "is_json_string (map_of ms k) \<Longrightarrow> has_member ms (k, r, TString)"
  "nonempty_string (map_of ms k) \<noteq> None \<Longrightarrow> has_member ms (k, r, TString)"
  "is_date date_ok (map_of ms k) \<Longrightarrow> has_member ms (k, r, TString)"
  "optional_bounded n (map_of ms k) \<Longrightarrow> has_member ms (k, False, TString)"
  "map_of ms k = None \<or> is_date date_ok (map_of ms k) \<Longrightarrow> has_member ms (k, False, TString)"
  by (auto simp: has_member_def check_iffs split: option.split)

lemma member_number:
  "is_generation (map_of ms k) \<Longrightarrow> has_member ms (k, r, TNumber)"
  "safe_at_least n (map_of ms k) \<noteq> None \<Longrightarrow> has_member ms (k, r, TNumber)"
  "json_at_least n (map_of ms k) \<Longrightarrow> has_member ms (k, r, TNumber)"
  "map_of ms k = None \<or> is_json_number (map_of ms k) \<Longrightarrow> has_member ms (k, False, TNumber)"
  by (auto simp: has_member_def is_generation_def check_iffs split: option.split)

lemma member_other:
  "is_json_boolean (map_of ms k) \<Longrightarrow> has_member ms (k, r, TBoolean)"
  "map_of ms k = Some l \<Longrightarrow> has_member ms (k, r, TLiteral l)"
  "map_of ms k = Some v \<Longrightarrow> has_type t v \<Longrightarrow> has_member ms (k, r, t)"
  "has_member ms (k, False, TUnknown)"
  by (auto simp: has_member_def check_iffs split: option.split)

lemmas member_intros = typed_object_nil typed_object_cons member_string member_number member_other

lemma browser_tab_typed:
  assumes "is_browser_tab_resource v" shows "\<exists>x. v = Some x \<and> has_type browser_tab_type x"
proof -
  from assms obtain ms where v: "v = Some (JObj ms)"
    by (cases "plain_object v") (auto simp: is_browser_tab_resource_def plain_object_iff)
  with assms obtain vp where vp: "plain_object (map_of ms ''viewport'') = Some vp"
    by (cases "plain_object (map_of ms ''viewport'')") (simp_all add: is_browser_tab_resource_def plain_object_def)
  note a = assms [unfolded v is_browser_tab_resource_def vp option.case plain_object_def [of "Some (JObj ms)"] json.case]
  have "has_type (TObject [(''width'', True, TNumber), (''height'', True, TNumber)]) (JObj vp)"
    using a by (elim conjE) (intro member_intros(1,2) member_number(2), assumption+)
  with a have "has_type browser_tab_type (JObj ms)"
    unfolding browser_tab_type_def
    by (elim conjE) (intro member_intros(1,2), (erule member_string member_number member_other(1,2))+,
      rule member_other(3) [OF vp [unfolded plain_object_iff]])
  with v show ?thesis by blast
qed

lemma effect_result_typed:
  assumes "is_provider_effect_result v" shows "\<exists>x. v = Some x \<and> has_type provider_effect_result_type x"
proof -
  from assms obtain ms where v: "v = Some (JObj ms)"
    by (cases "plain_object v") (simp_all add: is_provider_effect_result_def plain_object_iff)
  note a = assms [unfolded v is_provider_effect_result_def option.case plain_object_def [of "Some (JObj ms)"] json.case]
  from a have i: "is_bounded_string 256 (map_of ms ''actionId'')" by (rule conjunct1)
  from conjunct2 [OF a] consider "map_of ms ''status'' = Some (JStr ''succeeded'')"
    | "map_of ms ''status'' = Some (JStr ''failed'')" "is_bounded_string 256 (map_of ms ''code'')"
      "is_bounded_string 4096 (map_of ms ''message'')"
    | "map_of ms ''status'' = Some (JStr ''unknown'')" "optional_bounded 256 (map_of ms ''code'')"
      "optional_bounded 4096 (map_of ms ''message'')"
    by (simp only: split: if_split_asm)
  then have "has_type provider_effect_result_type (JObj ms)"
  proof cases
    case 1
    show ?thesis
      unfolding provider_effect_result_type_def has_type.simps(7) list_ex_Cons_iff list_ex_Nil_iff
      by (intro disjI1 member_intros(1,2) member_string(1) [OF i] member_other(2) [OF 1] member_other(4))
  next
    case 2
    show ?thesis
      unfolding provider_effect_result_type_def has_type.simps(7) list_ex_Cons_iff list_ex_Nil_iff
      by (rule disjI2, rule disjI1) (intro member_intros(1,2) member_string(1) [OF i] member_other(2) [OF 2(1)]
        member_string(1) [OF 2(2)] member_string(1) [OF 2(3)])
  next
    case 3
    show ?thesis
      unfolding provider_effect_result_type_def has_type.simps(7) list_ex_Cons_iff list_ex_Nil_iff
      by (rule disjI2, rule disjI2, rule disjI1) (intro member_intros(1,2) member_string(1) [OF i] member_other(2) [OF 3(1)]
        member_string(6) [OF 3(2)] member_string(6) [OF 3(3)])
  qed
  with v show ?thesis by blast
qed

lemma task_lease_typed:
  "has_task_lease_authorization p \<Longrightarrow> has_type (TObject agent_surface_authorization) (JObj p)"
  unfolding has_task_lease_authorization_def agent_surface_authorization_def
  by (elim conjE) (intro member_intros(1,2), (erule member_string(4) member_number(2))+)

lemma creates_pane_iff: "creates_pane kind p \<longleftrightarrow>
    kind = ''pane.action'' \<and> (\<exists>a. map_of p ''action'' = Some (JObj a) \<and> map_of a ''kind'' = Some (JStr ''create''))"
  by (auto simp: creates_pane_def plain_object_def split: option.splits json.splits)

definition authorized_kinds :: "string list" where
  "authorized_kinds = ''lease.release'' # ''orchestration.execute'' # SURFACE_ACTION_KINDS"

lemma authority_types:
  "payload_authority_type ''lease.release'' = TObject agent_surface_authorization"
  "payload_authority_type ''orchestration.execute'' = TObject agent_surface_authorization"
  "payload_authority_type ''pane.observe'' = TObject pane_authorization"
  "payload_authority_type ''browser.inspect'' = TObject browser_authorization"
  "payload_authority_type ''browser.action'' = TObject browser_authorization"
  "payload_authority_type ''browser.script'' = TObject browser_authorization"
  by (simp_all add: payload_authority_type_def)

lemma pane_action_types:
  "has_type (payload_authority_type ''pane.action'') v \<longleftrightarrow>
    has_type (TObject pane_authorization) v \<or>
    has_type (TObject (agent_surface_authorization @ [(''projectId'', True, TString),
         (''action'', True, TObject [(''kind'', True, TLiteral (JStr ''create''))])])) v"
  by (simp add: payload_authority_type_def)

lemma unauthorized_type: "kind \<notin> set authorized_kinds \<Longrightarrow> payload_authority_type kind = TObject []"
  by (simp add: payload_authority_type_def authorized_kinds_def SURFACE_ACTION_KINDS_def)

lemma pane_typed:
  assumes "has_task_lease_authorization p" "safe_at_least 1 (map_of p ''generation'') \<noteq> None" "is_json_string (map_of p ''paneId'')"
  shows "has_type (TObject pane_authorization) (JObj p)"
  unfolding pane_authorization_def typed_append
  using assms by (intro conjI task_lease_typed member_intros(1,2) member_string(3) member_number(2))

lemma browser_typed:
  assumes "has_task_lease_authorization p" "safe_at_least 1 (map_of p ''generation'') \<noteq> None" "is_json_string (map_of p ''tabId'')"
  shows "has_type (TObject browser_authorization) (JObj p)"
  unfolding browser_authorization_def typed_append
  using assms by (intro conjI task_lease_typed member_intros(1,2) member_string(3) member_number(2))

lemma create_typed:
  assumes "has_task_lease_authorization p" "creates_pane kind p" "is_json_string (map_of p ''projectId'')"
  shows "has_type (payload_authority_type kind) (JObj p)"
proof -
  from assms(2) obtain a where k: "kind = ''pane.action''" and a: "map_of p ''action'' = Some (JObj a)"
    "map_of a ''kind'' = Some (JStr ''create'')" by (auto simp: creates_pane_iff)
  have "has_type (TObject [(''kind'', True, TLiteral (JStr ''create''))]) (JObj a)"
    by (intro member_intros(1,2) member_other(2) a)
  with a(1) have "has_member p (''action'', True, TObject [(''kind'', True, TLiteral (JStr ''create''))])" by (rule member_other(3))
  then show ?thesis unfolding k pane_action_types typed_append
    by (intro disjI2 conjI task_lease_typed assms(1) member_intros(1,2) member_string(3) assms(3))
qed

lemma accepted_authorized:
  assumes "validate_surface_authorization kind p = Inr ()" "kind \<in> set authorized_kinds"
  shows "has_task_lease_authorization p"
proof (cases "kind \<in> set SURFACE_ACTION_KINDS")
  case True
  then have "\<not> (kind = ''lease.release'' \<or> kind = ''orchestration.execute'')" by (auto simp: SURFACE_ACTION_KINDS_def)
  with True show ?thesis using assms(1) by (simp add: validate_surface_authorization_def)
next
  case False
  with assms(2) have "kind = ''lease.release'' \<or> kind = ''orchestration.execute''" by (simp add: authorized_kinds_def)
  then show ?thesis using assms(1) by (simp add: validate_surface_authorization_def)
qed

lemma surface_kind_accepted:
  assumes "validate_surface_authorization kind p = Inr ()" "kind \<in> set SURFACE_ACTION_KINDS" "\<not> creates_pane kind p"
  shows "safe_at_least 1 (map_of p ''generation'') \<noteq> None"
    "is_json_string (map_of p (if kind = ''pane.observe'' \<or> kind = ''pane.action'' then ''paneId'' else ''tabId''))"
proof -
  have "\<not> (kind = ''lease.release'' \<or> kind = ''orchestration.execute'')" using assms(2) by (auto simp: SURFACE_ACTION_KINDS_def)
  note * = assms(1) [unfolded validate_surface_authorization_def if_not_P [OF this]]
  show "safe_at_least 1 (map_of p ''generation'') \<noteq> None" using * assms(2,3) by simp
  show "is_json_string (map_of p (if kind = ''pane.observe'' \<or> kind = ''pane.action'' then ''paneId'' else ''tabId''))"
    using * assms(2,3) by simp
qed

lemma surface_kinds_cases:
  assumes "kind \<in> set SURFACE_ACTION_KINDS"
  obtains "kind = ''pane.observe''" | "kind = ''pane.action''"
    | "kind = ''browser.inspect''" | "kind = ''browser.action''" | "kind = ''browser.script''"
proof -
  from assms have "kind = ''pane.observe'' \<or> kind = ''pane.action'' \<or> kind = ''browser.inspect'' \<or>
      kind = ''browser.action'' \<or> kind = ''browser.script''"
    by (simp only: SURFACE_ACTION_KINDS_def list.set insert_iff empty_iff simp_thms)
  then show thesis by (elim disjE) (erule that)+
qed

lemma surface_kind_typed:
  assumes v: "validate_surface_authorization kind p = Inr ()" and s: "kind \<in> set SURFACE_ACTION_KINDS" and c: "\<not> creates_pane kind p"
  shows "has_type (payload_authority_type kind) (JObj p)"
proof -
  have a: "has_task_lease_authorization p" using accepted_authorized [OF v] s by (simp add: authorized_kinds_def)
  note g = surface_kind_accepted [OF v s c]
  from s show ?thesis
  proof (cases rule: surface_kinds_cases)
    case 1 then show ?thesis using pane_typed [OF a g(1)] g(2) by (simp add: authority_types del: has_type.simps)
  next
    case 2 then show ?thesis using pane_typed [OF a g(1)] g(2) by (simp add: pane_action_types del: has_type.simps)
  next
    case 3 then show ?thesis using browser_typed [OF a g(1)] g(2) by (simp add: authority_types del: has_type.simps)
  next
    case 4 then show ?thesis using browser_typed [OF a g(1)] g(2) by (simp add: authority_types del: has_type.simps)
  next
    case 5 then show ?thesis using browser_typed [OF a g(1)] g(2) by (simp add: authority_types del: has_type.simps)
  qed
qed

lemma authorization_accepted:
  assumes v: "validate_surface_authorization kind p = Inr ()"
  shows "has_type (payload_authority_type kind) (JObj p)"
proof (cases "kind \<in> set SURFACE_ACTION_KINDS")
  case s: True
  show ?thesis
  proof (cases "creates_pane kind p")
    case c: True
    have "\<not> (kind = ''lease.release'' \<or> kind = ''orchestration.execute'')" using s by (auto simp: SURFACE_ACTION_KINDS_def)
    then have "is_json_string (map_of p ''projectId'')" using v s c by (simp add: validate_surface_authorization_def)
    with c show ?thesis using create_typed accepted_authorized [OF v] s by (simp add: authorized_kinds_def del: has_type.simps)
  next
    case False then show ?thesis by (rule surface_kind_typed [OF v s])
  qed
next
  case s: False
  show ?thesis
  proof (cases "kind \<in> set authorized_kinds")
    case True
    with s have "kind = ''lease.release'' \<or> kind = ''orchestration.execute''" by (simp add: authorized_kinds_def)
    then show ?thesis using task_lease_typed [OF accepted_authorized [OF v True]]
      by (elim disjE) (simp_all add: authority_types del: has_type.simps)
  next
    case False then show ?thesis by (simp add: unauthorized_type)
  qed
qed
lemma submit_accepted:
  assumes "check_submit date_ok ms = Inr ()"
  obtains c p kind where "map_of ms ''command'' = Some (JObj c)" "map_of c ''payload'' = Some (JObj p)"
    "map_of c ''kind'' = Some (JStr kind)" "is_json_string (map_of c ''id'')" "is_json_string (map_of c ''idempotencyKey'')"
    "is_json_string (map_of c ''projectRoot'')" "is_date date_ok (map_of c ''createdAt'')"
    "map_of c ''expiresAt'' = None \<or> is_date date_ok (map_of c ''expiresAt'')"
    "validate_surface_authorization kind p = Inr ()"
proof -
  from assms obtain c where c: "plain_object (map_of ms ''command'') = Some c"
    by (cases "plain_object (map_of ms ''command'')") (simp_all add: check_submit_def)
  note s = assms [unfolded check_submit_def c option.case]
  from s obtain p where p: "plain_object (map_of c ''payload'') = Some p"
    by (cases "plain_object (map_of c ''payload'')") simp_all
  from s p obtain kind where k: "map_of c ''kind'' = Some (JStr kind)"
    by (auto split: option.splits json.splits)
  note s' = s [unfolded p k option.case prod.case json.case]
  from s' c p k show thesis
    by (intro that [of c p kind]) (simp_all add: plain_object_iff)
qed

lemma command_typed:
  assumes "check_submit date_ok ms = Inr ()" "map_of ms ''command'' = Some c"
  shows "\<exists>d p kind. c = JObj d \<and> map_of d ''kind'' = Some (JStr kind) \<and> map_of d ''payload'' = Some (JObj p) \<and>
    has_type (command_input_type kind) c \<and> (kind \<in> set authorized_kinds \<longrightarrow> has_task_lease_authorization p)"
proof (rule submit_accepted [OF assms(1)])
  fix d p kind
  assume d: "map_of ms ''command'' = Some (JObj d)" and p: "map_of d ''payload'' = Some (JObj p)"
    and k: "map_of d ''kind'' = Some (JStr kind)"
    and i: "is_json_string (map_of d ''id'')" and ik: "is_json_string (map_of d ''idempotencyKey'')"
    and r: "is_json_string (map_of d ''projectRoot'')" and t: "is_date date_ok (map_of d ''createdAt'')"
    and e: "map_of d ''expiresAt'' = None \<or> is_date date_ok (map_of d ''expiresAt'')"
    and v: "validate_surface_authorization kind p = Inr ()"
  have "has_type (command_input_type kind) (JObj d)"
    unfolding command_input_type_def
    by (intro member_intros(1,2) member_string(3) [OF i] member_string(3) [OF ik] member_string(3) [OF r]
        member_string(5) [OF t] member_string(7) [OF e] member_other(2) [OF k] member_other(3) [OF p authorization_accepted [OF v]])
  with d assms(2) p k accepted_authorized [OF v] show ?thesis by auto
qed
lemma union_hd: "has_type t v \<Longrightarrow> has_type (TUnion (t # ts)) v"
  by simp

lemma union_tl: "has_type (TUnion ts) v \<Longrightarrow> has_type (TUnion (t # ts)) v"
  by simp

lemma if_okE: "\<lbrakk>(if c then a else b) = Inr x; \<lbrakk>c; a = Inr x\<rbrakk> \<Longrightarrow> P; \<lbrakk>\<not> c; b = Inr x\<rbrakk> \<Longrightarrow> P\<rbrakk> \<Longrightarrow> P"
  by (simp split: if_split_asm)

lemma throw_okE: "\<lbrakk>throw_if b e r = Inr x; \<lbrakk>\<not> b; r = Inr x\<rbrakk> \<Longrightarrow> P\<rbrakk> \<Longrightarrow> P"
  by (cases b) simp_all

lemma inl_okE: "Inl e = Inr x \<Longrightarrow> P"
  by simp

lemma check_request_cases:
  assumes "check_request date_ok ty ms = Inr ()"
  obtains
    "ty = ''hello''" "is_json_string (map_of ms ''token'')" "is_json_string (map_of ms ''clientName'')"
      "is_json_string (map_of ms ''projectRoot'')"
  | "ty = ''command.submit''" "check_submit date_ok ms = Inr ()"
  | "ty = ''state.get''" "optional_bounded 4096 (map_of ms ''taskId'')"
  | "ty = ''events.read''" "json_at_least 0 (map_of ms ''afterSequence'')"
      "map_of ms ''limit'' = None \<or> is_json_number (map_of ms ''limit'')" "optional_bounded 4096 (map_of ms ''taskId'')"
  | "ty = ''provider.register''" "is_bounded_string 4096 (map_of ms ''providerId'')"
  | "ty = ''provider.resource.upsert''" "is_browser_tab_resource (map_of ms ''resource'')"
  | "ty = ''provider.resource.remove''" "is_bounded_string 4096 (map_of ms ''id'')" "is_generation (map_of ms ''generation'')"
  | "ty = ''provider.effect.result''" "is_provider_effect_result (map_of ms ''result'')"
  using assms unfolding check_request_def
  by (elim if_okE throw_okE; (elim inl_okE)?; (simp only: de_Morgan_disj de_Morgan_conj not_not)?; (elim conjE)?; rule that; assumption)
lemma decode_request_cases:
  assumes "decode_control_request date_ok raw = Inr v"
  obtains ms ty r where "json_parse raw = Some v" "v = JObj ms" "map_of ms ''version'' = Some (JNum 1)"
    "map_of ms ''type'' = Some (JStr ty)" "map_of ms ''requestId'' = Some (JStr r)" "check_request date_ok ty ms = Inr ()"
proof -
  from assms obtain w where w: "json_parse raw = Some w" by (cases "json_parse raw") (simp_all add: decode_control_request_def)
  note a = assms [unfolded decode_control_request_def w option.case]
  from a obtain ms where ms: "w = JObj ms" by (cases w) simp_all
  note a = a [unfolded ms json.case]
  from a have ver: "map_of ms ''version'' = Some (JNum 1)" by (rule throw_okE) (simp add: CONTROL_PROTOCOL_VERSION_def)
  from a obtain ty r where t: "map_of ms ''type'' = Some (JStr ty)" "map_of ms ''requestId'' = Some (JStr r)"
    by (auto split: option.splits json.splits elim!: throw_okE)
  from a have "check_request date_ok ty ms = Inr () \<and> v = JObj ms"
    by (cases "check_request date_ok ty ms") (simp_all add: t ver CONTROL_PROTOCOL_VERSION_def)
  with w ms ver t show thesis by (intro that [of ms ty r]) simp_all
qed

lemma frame_typed:
  assumes "map_of ms ''version'' = Some (JNum 1)" "map_of ms ''type'' = Some (JStr ty)" "map_of ms ''requestId'' = Some (JStr r)"
    "has_type (TObject members) (JObj ms)"
  shows "has_type (frame ty members) (JObj ms)"
  unfolding frame_def typed_append
  by (intro conjI member_intros(1,2) member_other(2) [OF assms(1)] member_other(2) [OF assms(2)] assms(4)
      member_string(3)) (simp add: assms(3))

lemma submitted_simps:
  assumes "map_of ms ''command'' = Some (JObj c)" "map_of c ''kind'' = Some (JStr kind)" "map_of c ''payload'' = Some (JObj p)"
  shows "submitted_kind (JObj ms) = kind" "submitted_payload (JObj ms) = p"
  using assms by (simp_all add: submitted_kind_def submitted_payload_def submitted_command_def event_member_def plain_object_def)

lemma request_typed:
  assumes d: "decode_control_request date_ok raw = Inr v"
  shows "has_type (control_request_type (submitted_kind v)) v"
proof (rule decode_request_cases [OF d])
  fix ms ty r
  assume v: "v = JObj ms" and ver: "map_of ms ''version'' = Some (JNum 1)" and ty: "map_of ms ''type'' = Some (JStr ty)"
    and r: "map_of ms ''requestId'' = Some (JStr r)" and c: "check_request date_ok ty ms = Inr ()"
  note f = frame_typed [OF ver ty r]
  show ?thesis
    using c
  proof (cases rule: check_request_cases)
    case 1
    show ?thesis unfolding v control_request_type_def
      by (rule union_hd, rule f [unfolded 1(1)])
        (intro member_intros(1,2) member_string(3) 1)
  next
    case 2
    then obtain d p kind where c: "map_of ms ''command'' = Some (JObj d)" "map_of d ''kind'' = Some (JStr kind)"
      "map_of d ''payload'' = Some (JObj p)" "has_type (command_input_type kind) (JObj d)"
      using command_typed [OF 2(2)] submit_accepted [OF 2(2)] by metis
    show ?thesis unfolding v control_request_type_def submitted_simps [OF c(1-3)]
      by (rule union_tl, rule union_hd, rule f [unfolded 2(1)])
        (intro member_intros(1,2) member_other(3) [OF c(1,4)])
  next
    case 3
    show ?thesis unfolding v control_request_type_def
      by (rule union_tl, rule union_tl, rule union_hd, rule f [unfolded 3(1)])
        (intro member_intros(1,2) member_string(6) [OF 3(2)])
  next
    case 4
    show ?thesis unfolding v control_request_type_def
      by (rule union_tl, rule union_tl, rule union_tl, rule union_hd, rule f [unfolded 4(1)])
        (intro member_intros(1,2) member_number(3) [OF 4(2)] member_number(4) [OF 4(3)] member_string(6) [OF 4(4)])
  next
    case 5
    show ?thesis unfolding v control_request_type_def
      by (rule union_tl, rule union_tl, rule union_tl, rule union_tl, rule union_hd, rule f [unfolded 5(1)])
        (intro member_intros(1,2) member_string(1) [OF 5(2)])
  next
    case 6
    from browser_tab_typed [OF 6(2)] obtain x where x: "map_of ms ''resource'' = Some x" "has_type browser_tab_type x" by blast
    show ?thesis unfolding v control_request_type_def
      by (rule union_tl, rule union_tl, rule union_tl, rule union_tl, rule union_tl, rule union_hd, rule f [unfolded 6(1)])
        (intro member_intros(1,2) member_other(3) [OF x])
  next
    case 7
    show ?thesis unfolding v control_request_type_def
      by (rule union_tl, rule union_tl, rule union_tl, rule union_tl, rule union_tl, rule union_tl, rule union_hd, rule f [unfolded 7(1)])
        (intro member_intros(1,2) member_string(1) [OF 7(2)] member_number(1) [OF 7(3)])
  next
    case 8
    from effect_result_typed [OF 8(2)] obtain x where x: "map_of ms ''result'' = Some x" "has_type provider_effect_result_type x" by blast
    show ?thesis unfolding v control_request_type_def
      by (rule union_tl, rule union_tl, rule union_tl, rule union_tl, rule union_tl, rule union_tl, rule union_tl, rule union_hd, rule f [unfolded 8(1)])
        (intro member_intros(1,2) member_other(3) [OF x])
  qed
qed

lemma submitted_authorized:
  assumes d: "decode_control_request date_ok raw = Inr v" and t: "event_member v ''type'' = Some (JStr ''command.submit'')"
    and k: "submitted_kind v \<in> set authorized_kinds"
  shows "has_task_lease_authorization (submitted_payload v)"
proof (rule decode_request_cases [OF d])
  fix ms ty r
  assume v: "v = JObj ms" and ty: "map_of ms ''type'' = Some (JStr ty)" and c: "check_request date_ok ty ms = Inr ()"
  have "ty = ''command.submit''" using t ty by (simp add: v event_member_def)
  with c have s: "check_submit date_ok ms = Inr ()" by (simp add: check_request_def)
  then obtain c where "map_of ms ''command'' = Some c" by (rule submit_accepted)
  with command_typed [OF s this] show ?thesis using k submitted_simps unfolding v by metis
qed


definition sample_request :: json where
  "sample_request = JObj [(''version'', JNum 1), (''type'', JStr ''state.get''), (''requestId'', JStr ''r1''), (''taskId'', JStr ''t1'')]"

section \<open>Encoding what was decoded\<close>

lemma update_members_wf:
  assumes "wf_json (JObj ms)" "wf_json v" shows "wf_json (JObj (AList.update k v ms))"
proof -
  have "x \<in> set (AList.update k v ms) \<Longrightarrow> x = (k, v) \<or> x \<in> set ms" for x
    by (induction ms) (auto split: if_split_asm)
  then show ?thesis using assms by (fastforce simp: list_all_iff distinct_update)
qed

lemma read_word_wf: "read_word w j s = Some (x, r) \<Longrightarrow> wf_json j \<Longrightarrow> wf_json x"
  by (simp add: read_word_def split: if_split_asm)

lemma read_number_wf: "read_number s = Some (x, r) \<Longrightarrow> wf_json x"
  by (auto simp: read_number_def split: if_split_asm)

lemma read_wf:
  "(\<forall>s v r. read_value n s = Some (v, r) \<longrightarrow> wf_json v) \<and>
   (\<forall>s xs r. read_items n s = Some (xs, r) \<longrightarrow> list_all wf_json xs) \<and>
   (\<forall>s ms ms' r. read_members n ms s = Some (ms', r) \<longrightarrow> wf_json (JObj ms) \<longrightarrow> wf_json (JObj ms'))"
proof (induction n)
  case (Suc n)
  note v = Suc.IH [THEN conjunct1, rule_format]
    and i = Suc.IH [THEN conjunct2, THEN conjunct1, rule_format]
    and m = Suc.IH [THEN conjunct2, THEN conjunct2, rule_format]
  show ?case
  proof (intro conjI allI impI)
    show "wf_json x" if "read_value (Suc n) s = Some (x, r)" for s x r
      using that by (auto simp del: wf_json.simps(2) split: list.splits if_split_asm dest: read_number_wf read_word_wf i)
        (auto dest: m)
    show "list_all wf_json xs" if "read_items (Suc n) s = Some (xs, r)" for s xs r
      using that by (auto split: list.splits option.splits if_split_asm) (blast dest: v i)+
    show "wf_json (JObj ms')" if "read_members (Suc n) ms s = Some (ms', r)" "wf_json (JObj ms)" for s ms ms' r
      using that by (auto simp del: wf_json.simps(2) split: list.splits option.splits if_split_asm)
        (blast intro: update_members_wf dest: v m)+
  qed
qed simp

lemma json_parse_wf: "json_parse s = Some v \<Longrightarrow> wf_json v"
  using read_wf by (fastforce simp: json_parse_def simp del: read_value.simps split: option.splits if_split_asm)
text \<open>Sorting the members changes no text length, no depth and no count.\<close>

lemma wf_sorted: "wf_json j \<Longrightarrow> wf_json (sort_object_keys j)"
proof (induction j)
  case (JObj ms)
  have "distinct (map fst (sort_key fst (map (\<lambda>(k, v). (k, sort_object_keys v)) ms)))"
    using JObj.prems by (simp add: distinct_map inj_on_def split_beta) (metis prod.collapse)
  then show ?case using JObj by (fastforce simp: list_all_iff)
qed (auto simp: list_all_iff)

lemma commas_length: "length (commas ss) = sum_list (map length ss) + (length ss - 1)"
  by (cases ss) (simp_all add: commas_def length_concat comp_def sum_list_Suc)

lemma sum_sorted: "sum_list (map f (sort_key g xs)) = (sum_list (map f xs) :: nat)"
  by (metis mset_map mset_sort sum_mset_sum_list)

lemma sorted_length: "length (stringify (sort_object_keys j)) = length (stringify j)"
proof (induction j)
  case (JArr xs)
  then show ?case by (simp add: commas_length comp_def cong: map_cong)
next
  case (JObj ms)
  have "\<forall>x \<in> set ms. length (stringify (sort_object_keys (snd x))) = length (stringify (snd x))"
    using JObj by (force simp: snds.simps)
  then show ?case by (simp add: commas_length comp_def sum_sorted split_beta cong: map_cong)
qed simp_all

lemma sorted_nodes: "json_nodes (sort_object_keys j) = json_nodes j"
proof (induction j)
  case (JArr xs)
  then show ?case by (simp add: comp_def cong: map_cong)
next
  case (JObj ms)
  have "\<forall>x \<in> set ms. json_nodes (sort_object_keys (snd x)) = json_nodes (snd x)"
    using JObj by (force simp: snds.simps)
  then show ?case by (simp add: comp_def sum_sorted split_beta cong: map_cong)
qed simp_all

lemma sorted_within: "json_within d (sort_object_keys j) = json_within d j"
proof (induction j arbitrary: d)
  case (JArr xs)
  then show ?case by (simp add: list_all_iff)
next
  case (JObj ms)
  have "(\<forall>x \<in> set ms. json_within (d - 1) (sort_object_keys (snd x))) = (\<forall>x \<in> set ms. json_within (d - 1) (snd x))"
    using JObj by (intro ball_cong refl) (auto simp: snds.simps)
  moreover have "sort_key fst (map (\<lambda>(k, v). (k, sort_object_keys v)) ms) = [] \<longleftrightarrow> ms = []"
    by (metis length_0_conv length_map length_sort)
  ultimately show ?case by (simp add: list_all_iff split_beta)
qed simp_all

lemma is_ok_canonical:
  "is_ok (canonicalize_bounded_json n e e' (raw_of j)) \<longleftrightarrow> json_nodes j \<le> 100000 \<and> json_within 64 j \<and> length (stringify j) \<le> n"
proof -
  have inj: "raw_of i = raw_of j \<longleftrightarrow> i = j" for i j by (metis plain_raw)
  have "is_ok r \<longleftrightarrow> (\<exists>i k. r = Inr (i, k))" for r :: "('a, json \<times> nat) result"
    by (cases r) auto
  then show ?thesis by (auto simp: canonicalize_iff inj)
qed

lemma bounded_payload_sorted: "bounded_payload n (sort_object_keys j) = bounded_payload n j"
  by (simp add: bounded_payload_def is_ok_canonical sorted_nodes sorted_within sorted_length)
definition sorted_members :: "(string \<times> json) list \<Rightarrow> (string \<times> json) list" where
  "sorted_members ms = sort_key fst (map (\<lambda>(k, v). (k, sort_object_keys v)) ms)"

lemma sort_object: "sort_object_keys (JObj ms) = JObj (sorted_members ms)"
  by (simp add: sorted_members_def)

lemma sorted_scalar:
  "map_option sort_object_keys v = None \<longleftrightarrow> v = None"
  "map_option sort_object_keys v = Some (JStr s) \<longleftrightarrow> v = Some (JStr s)"
  "map_option sort_object_keys v = Some (JNum i) \<longleftrightarrow> v = Some (JNum i)"
  "map_option sort_object_keys v = Some (JBool b) \<longleftrightarrow> v = Some (JBool b)"
  by (cases v; cases "the v"; simp)+

lemma sorted_checks:
  "is_json_string (map_option sort_object_keys v) = is_json_string v"
  "is_bounded_string n (map_option sort_object_keys v) = is_bounded_string n v"
  "is_short_string n (map_option sort_object_keys v) = is_short_string n v"
  "is_json_boolean (map_option sort_object_keys v) = is_json_boolean v"
  "is_json_number (map_option sort_object_keys v) = is_json_number v"
  "json_at_least i (map_option sort_object_keys v) = json_at_least i v"
  "is_date date_ok (map_option sort_object_keys v) = is_date date_ok v"
  "safe_at_least i (map_option sort_object_keys v) = safe_at_least i v"
  "nonempty_string (map_option sort_object_keys v) = nonempty_string v"
  "is_generation (map_option sort_object_keys v) = is_generation v"
  "optional_bounded n (map_option sort_object_keys v) = optional_bounded n v"
  "plain_object (map_option sort_object_keys v) = map_option sorted_members (plain_object v)"
  by (cases v; cases "the v"; simp add: is_bounded_string_def is_short_string_def is_json_boolean_def is_json_number_def
      json_at_least_def is_date_def safe_at_least_def nonempty_string_def is_generation_def optional_bounded_def
      plain_object_def sorted_members_def)+

lemma sorted_member: "wf_json (JObj ms) \<Longrightarrow> map_of (sorted_members ms) k = map_option sort_object_keys (map_of ms k)"
  by (simp add: sorted_members_def map_of_sorted_members)

lemma member_wf: "wf_json (JObj ms) \<Longrightarrow> map_of ms k = Some v \<Longrightarrow> wf_json v"
  by (auto simp: list_all_iff dest!: map_of_SomeD)

lemma plain_member_wf: "wf_json (JObj ms) \<Longrightarrow> plain_object (map_of ms k) = Some ns \<Longrightarrow> wf_json (JObj ns)"
  unfolding plain_object_iff by (rule member_wf)

lemma sorted_keys: "mset (map fst (sorted_members ms)) = mset (map fst ms)"
  by (simp add: sorted_members_def split_beta comp_def multiset.map_comp)

lemma exact_keys_sorted: "exact_keys (sorted_members ms) ks = exact_keys ms ks"
  using mset_eq_length [OF sorted_keys [of ms]] mset_eq_setD [OF sorted_keys [of ms]] by (simp only: exact_keys_def list_all_iff)

lemma browser_tab_sorted:
  assumes "\<And>x. v = Some x \<Longrightarrow> wf_json x"
  shows "is_browser_tab_resource (map_option sort_object_keys v) = is_browser_tab_resource v"
proof (cases "plain_object v")
  case None then show ?thesis by (simp add: is_browser_tab_resource_def sorted_checks)
next
  case (Some ms)
  then have w: "wf_json (JObj ms)" using assms by (simp add: plain_object_iff)
  have vp: "wf_json (JObj vp)" if "plain_object (map_of ms ''viewport'') = Some vp" for vp using w that by (rule plain_member_wf)
  show ?thesis
    unfolding is_browser_tab_resource_def sorted_checks Some option.map option.case sorted_member [OF w] sorted_scalar
    by (cases "plain_object (map_of ms ''viewport'')") (simp_all add: sorted_member [OF vp] sorted_checks)
qed

lemma effect_result_sorted:
  assumes "\<And>x. v = Some x \<Longrightarrow> wf_json x"
  shows "is_provider_effect_result (map_option sort_object_keys v) = is_provider_effect_result v"
proof (cases "plain_object v")
  case None then show ?thesis by (simp add: is_provider_effect_result_def sorted_checks)
next
  case (Some ms)
  then have w: "wf_json (JObj ms)" using assms by (simp add: plain_object_iff)
  show ?thesis
    unfolding is_provider_effect_result_def sorted_checks Some option.map option.case sorted_member [OF w] sorted_scalar
      exact_keys_sorted
    by (cases "map_of ms ''value''") (simp_all add: bounded_payload_sorted)
qed

lemma authorization_sorted:
  assumes w: "wf_json (JObj p)"
  shows "validate_surface_authorization kind (sorted_members p) = validate_surface_authorization kind p"
proof -
  have t: "has_task_lease_authorization (sorted_members p) = has_task_lease_authorization p"
    by (simp add: has_task_lease_authorization_def sorted_member [OF w] sorted_checks)
  have c: "creates_pane kind (sorted_members p) = creates_pane kind p"
  proof (cases "plain_object (map_of p ''action'')")
    case None then show ?thesis by (simp add: creates_pane_def sorted_member [OF w] sorted_checks)
  next
    case (Some a)
    then have wa: "wf_json (JObj a)" by (rule plain_member_wf [OF w])
    show ?thesis
      unfolding creates_pane_def sorted_member [OF w] sorted_checks Some option.map option.case sorted_member [OF wa] sorted_scalar
      by (rule refl)
  qed
  show ?thesis
    unfolding validate_surface_authorization_def t c sorted_member [OF w] sorted_checks
    by (cases "map_of p ''args''") (simp_all only: option.map option.case bounded_payload_sorted)
qed

lemma check_submit_sorted:
  assumes w: "wf_json (JObj ms)"
  shows "check_submit date_ok (sorted_members ms) = check_submit date_ok ms"
proof (cases "plain_object (map_of ms ''command'')")
  case None then show ?thesis by (simp add: check_submit_def sorted_member [OF w] sorted_checks)
next
  case (Some c)
  then have wc: "wf_json (JObj c)" by (rule plain_member_wf [OF w])
  show ?thesis
  proof (cases "plain_object (map_of c ''payload'')")
    case None then show ?thesis by (simp add: check_submit_def sorted_member [OF w] sorted_member [OF wc] sorted_checks Some)
  next
    case p: (Some p)
    then have "wf_json (JObj p)" by (rule plain_member_wf [OF wc])
    note a = authorization_sorted [OF this]
    show ?thesis
      unfolding check_submit_def sorted_member [OF w] sorted_checks Some p option.map option.case sorted_member [OF wc] sorted_scalar
      by (cases "map_of c ''kind''"; cases "the (map_of c ''kind'')") (simp_all add: a)
  qed
qed

lemma check_request_sorted:
  assumes w: "wf_json (JObj ms)"
  shows "check_request date_ok ty (sorted_members ms) = check_request date_ok ty ms"
proof -
  have "is_browser_tab_resource (map_option sort_object_keys (map_of ms k)) = is_browser_tab_resource (map_of ms k)"
    "is_provider_effect_result (map_option sort_object_keys (map_of ms k)) = is_provider_effect_result (map_of ms k)" for k
    by (rule browser_tab_sorted effect_result_sorted, erule member_wf [OF w])+
  then show ?thesis
    unfolding check_request_def check_submit_sorted [OF w] sorted_member [OF w] sorted_checks sorted_scalar by (simp only:)
qed

text \<open>
  C26. Encoding a decoded request and decoding it again gives the request with the members of every object in order of their names:
  the encoding loses nothing, and no check depends on the order of members or on the size of their text before sorting.
\<close>
theorem request_encoding_round_trip:
  assumes "decode_control_request date_ok raw = Inr v"
  shows "decode_control_request date_ok (encode_control_message v) = Inr (sort_object_keys v)"
proof (rule decode_request_cases [OF assms])
  fix ms ty r
  assume p: "json_parse raw = Some v" and v: "v = JObj ms" and ver: "map_of ms ''version'' = Some (JNum 1)"
    and ty: "map_of ms ''type'' = Some (JStr ty)" and r: "map_of ms ''requestId'' = Some (JStr r)"
    and c: "check_request date_ok ty ms = Inr ()"
  have w: "wf_json (JObj ms)" using json_parse_wf [OF p] v by simp
  have "json_parse (encode_control_message v) = Some (JObj (sorted_members ms))"
    using json_parse_stringify [OF wf_sorted [OF w]] by (simp only: encode_control_message_def v sort_object)
  then show ?thesis
    using ver ty r c by (simp add: decode_control_request_def v sort_object sorted_member [OF w] check_request_sorted [OF w]
        CONTROL_PROTOCOL_VERSION_def del: sort_object_keys.simps(2))
qed

lemma request_encoding_round_trip_witness:
  "decode_control_request (\<lambda>s. True) (encode_control_message sample_request) = Inr (sort_object_keys sample_request) \<and>
   sort_object_keys sample_request \<noteq> sample_request"
proof -
  have "decode_control_request (\<lambda>s. True) (stringify sample_request) = Inr sample_request" by code_simp
  from request_encoding_round_trip [OF this] show ?thesis
    by (intro conjI) (assumption, code_simp)
qed
end
