(* ===== verification/ProviderBroker.thy ===== *)
theory ProviderBroker
  imports Surfaces Json JsValues "HOL-Library.Multiset"
begin

text \<open>
  The browser provider broker (\<open>src/src/control/browserProviderBroker.ts\<close>): desktop providers register, publish
  their tabs and carry out effects on them. A registration is a number (the object \<open>ProviderState\<close> the code compares by
  identity); the promise of a dispatched effect is a ticket, and \<open>br_settled\<close> lists the calls of its \<open>resolve\<close>
  and \<open>reject\<close>. What the callbacks of the options answer, whether \<open>send\<close> throws, and when a timer fires are events.
  Resource changes run one at a time under the lock \<open>all-resources\<close>: \<open>br_queue\<close> holds the waiting ones, its head has
  the lock, and other events may come between its steps.
\<close>

declare map_of_eq_Some_iff [simp del]
declare Some_eq_map_of_iff [simp del]

section \<open>State\<close>

record tab_resource =
  tr_kind :: string
  tr_generation :: int
  tr_tab :: browser_input

definition tr_id :: "tab_resource \<Rightarrow> string" where "tr_id r = bi_id (tr_tab r)"

definition tr_providerId :: "tab_resource \<Rightarrow> string" where "tr_providerId r = bi_providerId (tr_tab r)"

datatype browser_operation = Inspect "bool option" | SemanticAction "string option" json | RunScript string "json option"

datatype effect_answer =
    EffectSucceeded (effect_action: string) "json option"
  | EffectFailed (effect_action: string) string string
  | EffectUnknown (effect_action: string) "string option" "string option"

record provider_push =
  pp_actionId :: string
  pp_tabId :: string
  pp_generation :: int
  pp_operation :: browser_operation

datatype broker_error =
    BrokerBadRequest | AlreadyRegistered | ProviderLimit | ProviderUnavailable | TabReplaced | DuplicateAction | ProviderBusy
  | ScopeMismatch | ResourceLimit | EffectNotPending | CallbackFailed

datatype settlement = Resolved effect_answer | RejectedUnknown

record provider_state =
  ps_id :: string
  ps_connected :: bool
  ps_disconnected :: bool

record pending_effect =
  pe_actionId :: string
  pe_providerId :: string
  pe_tabId :: string
  pe_generation :: int
  pe_ticket :: nat

record effect_timer =
  et_ticket :: nat
  et_actionId :: string
  et_delay :: int

datatype broker_job = UpsertJob nat tab_resource | RemoveJob nat string int | CleanupJob nat

text \<open>Where the job that has the lock stands: not started, waiting for a callback, or removing the rest of a provider's tabs.\<close>

datatype job_phase = JobWaiting | JobCalled | CleanupEach "tab_resource list" bool | CleanupAll "tab_resource list"

datatype job_result = JobFailed broker_error | JobGave tab_resource | JobDone

record broker_options =
  bo_upsertResource :: bool
  bo_removeResource :: bool
  bo_removeProviderResources :: bool
  bo_maxProviders :: nat
  bo_maxPending :: nat
  bo_maxTimeoutMs :: int
  bo_maxResources :: nat
  bo_maxResourcesPerProvider :: nat

definition default_broker_options :: broker_options where
  "default_broker_options =
    \<lparr>bo_upsertResource = False, bo_removeResource = False, bo_removeProviderResources = False, bo_maxProviders = 8,
     bo_maxPending = 128, bo_maxTimeoutMs = 60000, bo_maxResources = 256, bo_maxResourcesPerProvider = 64\<rparr>"

record broker =
  br_states :: "provider_state list"
  br_providers :: "(string, nat) jsmap"
  br_resources :: "(string, tab_resource) jsmap"
  br_pending :: "(string, pending_effect) jsmap"
  br_pendingByTab :: "(string, string) jsmap"
  br_timers :: "effect_timer list"
  br_queue :: "broker_job list"
  br_phase :: job_phase
  br_issued :: nat
  br_sent :: "(nat \<times> provider_push) list"
  br_settled :: "(nat \<times> settlement) list"
  br_results :: "(broker_job \<times> job_result) list"

definition broker_init :: broker where
  "broker_init = \<lparr>br_states = [], br_providers = [], br_resources = [], br_pending = [], br_pendingByTab = [], br_timers = [],
     br_queue = [], br_phase = JobWaiting, br_issued = 0, br_sent = [], br_settled = [], br_results = []\<rparr>"

section \<open>Operations\<close>

definition require_bounded_id :: "string \<Rightarrow> (broker_error, unit) result" where
  "require_bounded_id s = throw_if (s = [] \<or> 256 < length s) BrokerBadRequest (Inr ())"

definition require_generation :: "int \<Rightarrow> (broker_error, unit) result" where
  "require_generation g = throw_if (\<bar>g\<bar> > MAX_SAFE_INTEGER \<or> g < 1) BrokerBadRequest (Inr ())"

definition state_of :: "broker \<Rightarrow> nat \<Rightarrow> provider_state" where
  "state_of s t = (if t < length (br_states s) then br_states s ! t else \<lparr>ps_id = [], ps_connected = False, ps_disconnected = True\<rparr>)"

definition require_live_registration :: "broker \<Rightarrow> nat \<Rightarrow> bool \<Rightarrow> (broker_error, unit) result" where
  "require_live_registration s t disconnected =
     throw_if (disconnected \<or> \<not> ps_connected (state_of s t) \<or> jm_get (br_providers s) (ps_id (state_of s t)) \<noteq> Some t)
       ProviderUnavailable (Inr ())"

definition register :: "broker_options \<Rightarrow> string \<Rightarrow> broker \<Rightarrow> (broker_error, nat) result \<times> broker" where
  "register opts providerId s =
    (if \<not> is_ok (require_bounded_id providerId) then (Inl BrokerBadRequest, s)
     else if jm_get (br_providers s) providerId \<noteq> None then (Inl AlreadyRegistered, s)
     else if bo_maxProviders opts \<le> length (br_providers s) then (Inl ProviderLimit, s)
     else (let t = length (br_states s) in
       (Inr t, s\<lparr>br_states := br_states s @ [\<lparr>ps_id = providerId, ps_connected = True, ps_disconnected = False\<rparr>],
                br_providers := jm_set providerId t (br_providers s)\<rparr>)))"

definition settle :: "string \<Rightarrow> broker \<Rightarrow> broker" where
  "settle actionId s =
    (case jm_get (br_pending s) actionId of
       None \<Rightarrow> s
     | Some p \<Rightarrow>
        s\<lparr>br_timers := filter (\<lambda>t. et_ticket t \<noteq> pe_ticket p) (br_timers s),
          br_pending := jm_delete actionId (br_pending s),
          br_pendingByTab := (if jm_get (br_pendingByTab s) (pe_tabId p) = Some actionId
             then jm_delete (pe_tabId p) (br_pendingByTab s) else br_pendingByTab s)\<rparr>)"

definition answer_ticket :: "nat \<Rightarrow> settlement \<Rightarrow> broker \<Rightarrow> broker" where
  "answer_ticket n r s = s\<lparr>br_settled := br_settled s @ [(n, r)]\<rparr>"

record dispatch_input =
  di_actionId :: string
  di_tabId :: string
  di_generation :: int
  di_operation :: browser_operation
  di_timeoutMs :: int

definition pending_for :: "dispatch_input \<Rightarrow> string \<Rightarrow> nat \<Rightarrow> pending_effect" where
  "pending_for i pid n = \<lparr>pe_actionId = di_actionId i, pe_providerId = pid, pe_tabId = di_tabId i,
     pe_generation = di_generation i, pe_ticket = n\<rparr>"

definition issue_effect :: "broker_options \<Rightarrow> dispatch_input \<Rightarrow> string \<Rightarrow> broker \<Rightarrow> broker" where
  "issue_effect opts i pid s =
    s\<lparr>br_issued := Suc (br_issued s),
      br_timers := br_timers s @ [\<lparr>et_ticket = br_issued s, et_actionId = di_actionId i,
        et_delay = max 1 (min (di_timeoutMs i) (bo_maxTimeoutMs opts))\<rparr>],
      br_pending := jm_set (di_actionId i) (pending_for i pid (br_issued s)) (br_pending s),
      br_pendingByTab := jm_set (di_tabId i) (di_actionId i) (br_pendingByTab s)\<rparr>"

text \<open>\<open>Inl\<close> is a throw or a promise rejected at once; \<open>Inr n\<close> is the pending promise of ticket \<open>n\<close>.\<close>

definition dispatch :: "broker_options \<Rightarrow> dispatch_input \<Rightarrow> bool \<Rightarrow> broker \<Rightarrow> (broker_error, nat) result \<times> broker" where
  "dispatch opts i send_ok s =
    (if \<not> is_ok (require_bounded_id (di_actionId i)) \<or> \<not> is_ok (require_bounded_id (di_tabId i)) then (Inl BrokerBadRequest, s)
     else case jm_get (br_resources s) (di_tabId i) of
       None \<Rightarrow> (Inl ProviderUnavailable, s)
     | Some r \<Rightarrow>
        if tr_generation r \<noteq> di_generation i then (Inl TabReplaced, s)
        else case jm_get (br_providers s) (tr_providerId r) of
          None \<Rightarrow> (Inl ProviderUnavailable, s)
        | Some t \<Rightarrow>
           if \<not> ps_connected (state_of s t) then (Inl ProviderUnavailable, s)
           else if jm_get (br_pending s) (di_actionId i) \<noteq> None then (Inl DuplicateAction, s)
           else if jm_get (br_pendingByTab s) (di_tabId i) \<noteq> None then (Inl ProviderBusy, s)
           else if bo_maxPending opts \<le> length (br_pending s) then (Inl ProviderBusy, s)
           else
             let s' = issue_effect opts i (ps_id (state_of s t)) s
             in (Inr (br_issued s),
                 if send_ok then s'\<lparr>br_sent := br_sent s' @ [(t, \<lparr>pp_actionId = di_actionId i, pp_tabId = di_tabId i,
                      pp_generation = di_generation i, pp_operation = di_operation i\<rparr>)]\<rparr>
                 else answer_ticket (br_issued s) RejectedUnknown (settle (di_actionId i) s')))"

text \<open>The callback of \<open>setTimeout\<close>; a timer that fires is no longer armed.\<close>

definition timer_fires :: "nat \<Rightarrow> broker \<Rightarrow> broker" where
  "timer_fires n s =
    (case find (\<lambda>t. et_ticket t = n) (br_timers s) of
       None \<Rightarrow> s
     | Some t \<Rightarrow> answer_ticket n RejectedUnknown
         (settle (et_actionId t) (s\<lparr>br_timers := filter (\<lambda>t. et_ticket t \<noteq> n) (br_timers s)\<rparr>)))"

definition complete_effect :: "nat \<Rightarrow> effect_answer \<Rightarrow> broker \<Rightarrow> (broker_error, unit) result \<times> broker" where
  "complete_effect t result s =
    (if \<not> is_ok (require_live_registration s t (ps_disconnected (state_of s t))) then (Inl ProviderUnavailable, s)
     else if \<not> is_ok (require_bounded_id (effect_action result)) then (Inl BrokerBadRequest, s)
     else case jm_get (br_pending s) (effect_action result) of
       None \<Rightarrow> (Inl EffectNotPending, s)
     | Some p \<Rightarrow>
        if pe_providerId p \<noteq> ps_id (state_of s t) then (Inl EffectNotPending, s)
        else (Inr (), answer_ticket (pe_ticket p) (Resolved result) (settle (effect_action result) s)))"

definition enqueue :: "broker_job \<Rightarrow> broker \<Rightarrow> broker" where
  "enqueue j s = s\<lparr>br_queue := br_queue s @ [j]\<rparr>"

definition request_job :: "nat \<Rightarrow> broker_job \<Rightarrow> broker \<Rightarrow> broker" where
  "request_job t j s =
    (if is_ok (require_live_registration s t (ps_disconnected (state_of s t))) then enqueue j s
     else s\<lparr>br_results := br_results s @ [(j, JobFailed ProviderUnavailable)]\<rparr>)"

fun reject_pending :: "string \<Rightarrow> pending_effect list \<Rightarrow> broker \<Rightarrow> broker" where
  "reject_pending pid [] s = s"
| "reject_pending pid (p # ps) s =
     reject_pending pid ps (if pe_providerId p \<noteq> pid then s
       else answer_ticket (pe_ticket p) RejectedUnknown (settle (pe_actionId p) s))"

definition disconnect :: "nat \<Rightarrow> broker \<Rightarrow> broker" where
  "disconnect t s =
    (if length (br_states s) \<le> t \<or> ps_disconnected (state_of s t) then s
     else let s' = s\<lparr>br_states := (br_states s)[t := (state_of s t)\<lparr>ps_connected := False, ps_disconnected := True\<rparr>]\<rparr>
       in enqueue (CleanupJob t) (reject_pending (ps_id (state_of s t)) (jm_values (br_pending s)) s'))"

definition ready :: "broker \<Rightarrow> broker" where
  "ready s = fold (\<lambda>t. enqueue (CleanupJob t)) (filter (\<lambda>t. \<not> ps_connected (state_of s t)) (jm_values (br_providers s))) s"
section \<open>Resource changes under the lock\<close>

datatype callback_answer = CallbackThrew | CallbackVoid | CallbackGave tab_resource

definition finish_job :: "job_result \<Rightarrow> broker \<Rightarrow> broker" where
  "finish_job r s =
    (case br_queue s of
       [] \<Rightarrow> s
     | j # js \<Rightarrow> s\<lparr>br_queue := js, br_phase := JobWaiting, br_results := br_results s @ [(j, r)]\<rparr>)"

definition owned_resources :: "string \<Rightarrow> broker \<Rightarrow> tab_resource list" where
  "owned_resources pid s = filter (\<lambda>r. tr_providerId r = pid) (jm_values (br_resources s))"

definition upsert_before :: "broker_options \<Rightarrow> nat \<Rightarrow> tab_resource \<Rightarrow> broker \<Rightarrow> broker" where
  "upsert_before opts t resource s =
    (let pid = ps_id (state_of s t); current = jm_get (br_resources s) (tr_id resource) in
     if tr_kind resource \<noteq> ''browser_tab'' \<or> tr_providerId resource \<noteq> pid then finish_job (JobFailed ScopeMismatch) s
     else if \<not> is_ok (require_generation (tr_generation resource)) then finish_job (JobFailed BrokerBadRequest) s
     else if (case current of None \<Rightarrow> False | Some c \<Rightarrow> tr_providerId c \<noteq> pid) then finish_job (JobFailed ScopeMismatch) s
     else if current = None \<and> bo_maxResources opts \<le> length (br_resources s) then finish_job (JobFailed ResourceLimit) s
     else if current = None \<and> bo_maxResourcesPerProvider opts \<le> length (owned_resources pid s)
       then finish_job (JobFailed ResourceLimit) s
     else s\<lparr>br_phase := JobCalled\<rparr>)"

definition upsert_after :: "broker_options \<Rightarrow> nat \<Rightarrow> tab_resource \<Rightarrow> callback_answer \<Rightarrow> broker \<Rightarrow> broker" where
  "upsert_after opts t resource answer s =
    (let pid = ps_id (state_of s t) in
     case (if bo_upsertResource opts then answer else CallbackVoid) of
       CallbackThrew \<Rightarrow> finish_job (JobFailed CallbackFailed) s
     | other \<Rightarrow>
        let canonical = (case other of CallbackGave c \<Rightarrow> c | _ \<Rightarrow> resource) in
        if tr_id canonical \<noteq> tr_id resource \<or> tr_providerId canonical \<noteq> pid then finish_job (JobFailed ScopeMismatch) s
        else if (case jm_get (br_resources s) (tr_id resource) of None \<Rightarrow> False | Some a \<Rightarrow> tr_providerId a \<noteq> pid)
        then finish_job (JobFailed ScopeMismatch) s
        else
          let s' = s\<lparr>br_resources := jm_set (tr_id canonical) canonical (br_resources s)\<rparr> in
          if is_ok (require_live_registration s' t False) then finish_job (JobGave canonical) s'
          else finish_job (JobFailed ProviderUnavailable) s')"

definition remove_before :: "nat \<Rightarrow> string \<Rightarrow> int \<Rightarrow> broker \<Rightarrow> broker" where
  "remove_before t tab generation s =
    (if \<not> is_ok (require_bounded_id tab) \<or> \<not> is_ok (require_generation generation) then finish_job (JobFailed BrokerBadRequest) s
     else case jm_get (br_resources s) tab of
       None \<Rightarrow> finish_job (JobFailed ScopeMismatch) s
     | Some r \<Rightarrow>
        if tr_providerId r \<noteq> ps_id (state_of s t) then finish_job (JobFailed ScopeMismatch) s
        else if tr_generation r \<noteq> generation then finish_job (JobFailed TabReplaced) s
        else s\<lparr>br_phase := JobCalled\<rparr>)"

definition remove_after :: "broker_options \<Rightarrow> string \<Rightarrow> callback_answer \<Rightarrow> broker \<Rightarrow> broker" where
  "remove_after opts tab answer s =
    (if bo_removeResource opts \<and> answer = CallbackThrew then finish_job (JobFailed CallbackFailed) s
     else finish_job JobDone (s\<lparr>br_resources := jm_delete tab (br_resources s)\<rparr>))"

definition drop_resource :: "tab_resource \<Rightarrow> broker \<Rightarrow> broker" where
  "drop_resource r s =
    (if jm_get (br_resources s) (tr_id r) = Some r then s\<lparr>br_resources := jm_delete (tr_id r) (br_resources s)\<rparr> else s)"

definition finish_cleanup :: "nat \<Rightarrow> bool \<Rightarrow> broker \<Rightarrow> broker" where
  "finish_cleanup t failed s =
    (if failed then finish_job (JobFailed CallbackFailed) s
     else finish_job JobDone (s\<lparr>br_providers := jm_delete (ps_id (state_of s t)) (br_providers s)\<rparr>))"

definition cleanup_before :: "broker_options \<Rightarrow> nat \<Rightarrow> broker \<Rightarrow> broker" where
  "cleanup_before opts t s =
    (let owned = owned_resources (ps_id (state_of s t)) s in
     if bo_removeResource opts then (if owned = [] then finish_cleanup t False s else s\<lparr>br_phase := CleanupEach owned False\<rparr>)
     else s\<lparr>br_phase := CleanupAll owned\<rparr>)"

fun cleanup_after :: "broker_options \<Rightarrow> nat \<Rightarrow> job_phase \<Rightarrow> callback_answer \<Rightarrow> broker \<Rightarrow> broker" where
  "cleanup_after opts t (CleanupEach (r # rs) failed) answer s =
    (let failed' = (failed \<or> answer = CallbackThrew);
         s' = (if answer = CallbackThrew then s else drop_resource r s)
     in if rs = [] then finish_cleanup t failed' s' else s'\<lparr>br_phase := CleanupEach rs failed'\<rparr>)"
| "cleanup_after opts t (CleanupAll owned) answer s =
    (if bo_removeProviderResources opts \<and> answer = CallbackThrew then finish_cleanup t True s
     else finish_cleanup t False (fold drop_resource owned s))"
| "cleanup_after opts t p answer s = s"

definition job_starts :: "broker_options \<Rightarrow> broker \<Rightarrow> broker" where
  "job_starts opts s =
    (if br_phase s \<noteq> JobWaiting then s
     else case br_queue s of
       [] \<Rightarrow> s
     | UpsertJob t r # _ \<Rightarrow> upsert_before opts t r s
     | RemoveJob t tab g # _ \<Rightarrow> remove_before t tab g s
     | CleanupJob t # _ \<Rightarrow> cleanup_before opts t s)"

definition job_answered :: "broker_options \<Rightarrow> callback_answer \<Rightarrow> broker \<Rightarrow> broker" where
  "job_answered opts answer s =
    (if br_phase s = JobWaiting then s
     else case br_queue s of
       [] \<Rightarrow> s
     | UpsertJob t r # _ \<Rightarrow> upsert_after opts t r answer s
     | RemoveJob t tab g # _ \<Rightarrow> remove_after opts tab answer s
     | CleanupJob t # _ \<Rightarrow> cleanup_after opts t (br_phase s) answer s)"

section \<open>Runs\<close>

datatype broker_event =
    Register string | Dispatch dispatch_input bool | Upsert nat tab_resource | Remove nat string int | Complete nat effect_answer
  | Disconnect nat | TimerFires nat | Ready | JobStarts | JobAnswered callback_answer

fun broker_step :: "broker_options \<Rightarrow> broker_event \<Rightarrow> broker \<Rightarrow> broker" where
  "broker_step opts (Register pid) s = snd (register opts pid s)"
| "broker_step opts (Dispatch i send_ok) s = snd (dispatch opts i send_ok s)"
| "broker_step opts (Upsert t r) s = request_job t (UpsertJob t r) s"
| "broker_step opts (Remove t tab g) s = request_job t (RemoveJob t tab g) s"
| "broker_step opts (Complete t result) s = snd (complete_effect t result s)"
| "broker_step opts (Disconnect t) s = disconnect t s"
| "broker_step opts (TimerFires n) s = timer_fires n s"
| "broker_step opts Ready s = ready s"
| "broker_step opts JobStarts s = job_starts opts s"
| "broker_step opts (JobAnswered a) s = job_answered opts a s"

definition broker_run :: "broker_options \<Rightarrow> broker_event list \<Rightarrow> broker" where
  "broker_run opts es = fold (broker_step opts) es broker_init"
section \<open>Every effect settles once\<close>

lemma mset_values_delete:
  "jm_ok m \<Longrightarrow> jm_get m k = Some v \<Longrightarrow> mset (jm_values m) = add_mset v (mset (jm_values (jm_delete k m)))"
  by (induction m) (auto simp: jm_delete_absent map_of_eq_None_iff delete_id)

lemma mset_values_insert: "jm_get m k = None \<Longrightarrow> mset (jm_values (jm_set k v m)) = add_mset v (mset (jm_values m))"
  by (induction m) (auto split: if_splits)

definition effect_part :: "broker \<Rightarrow> (string, pending_effect) jsmap \<times> (string, string) jsmap \<times> effect_timer list \<times> nat \<times> (nat \<times> settlement) list" where
  "effect_part s = (br_pending s, br_pendingByTab s, br_timers s, br_issued s, br_settled s)"

text \<open>The tables of pending effects, their timers and the tickets agree.\<close>

definition effects_ok :: "broker_options \<Rightarrow> broker \<Rightarrow> bool" where
  "effects_ok opts s \<longleftrightarrow>
    jm_ok (br_pending s) \<and> jm_ok (br_pendingByTab s) \<and>
    (\<forall>a p. jm_get (br_pending s) a = Some p \<longrightarrow> pe_actionId p = a \<and> jm_get (br_pendingByTab s) (pe_tabId p) = Some a) \<and>
    (\<forall>tab a. jm_get (br_pendingByTab s) tab = Some a \<longrightarrow> (\<exists>p. jm_get (br_pending s) a = Some p \<and> pe_tabId p = tab)) \<and>
    mset (map (\<lambda>t. (et_ticket t, et_actionId t)) (br_timers s)) = mset (map (\<lambda>p. (pe_ticket p, pe_actionId p)) (jm_values (br_pending s))) \<and>
    (\<forall>t \<in> set (br_timers s). 1 \<le> et_delay t \<and> et_delay t \<le> max 1 (bo_maxTimeoutMs opts)) \<and>
    mset (map pe_ticket (jm_values (br_pending s)) @ map fst (br_settled s)) = mset [0..<br_issued s] \<and>
    length (br_pending s) \<le> bo_maxPending opts"

lemma effects_ok_cong: "effect_part s = effect_part s' \<Longrightarrow> effects_ok opts s = effects_ok opts s'"
  by (simp add: effects_ok_def effect_part_def)

lemma effects_init: "effects_ok opts broker_init"
  by (simp add: effects_ok_def broker_init_def)

lemma effects_tickets:
  assumes "effects_ok opts s"
  shows "distinct (map pe_ticket (jm_values (br_pending s)) @ map fst (br_settled s))"
    "set (map pe_ticket (jm_values (br_pending s)) @ map fst (br_settled s)) = {..<br_issued s}"
  using assms mset_eq_imp_distinct_iff [of "map pe_ticket (jm_values (br_pending s)) @ map fst (br_settled s)" "[0..<br_issued s]"]
    mset_eq_setD [of "map pe_ticket (jm_values (br_pending s)) @ map fst (br_settled s)" "[0..<br_issued s]"]
  by (auto simp: effects_ok_def)

lemma ticket_inj:
  assumes "effects_ok opts s" "jm_get (br_pending s) a = Some p" "jm_get (br_pending s) a' = Some p'" "pe_ticket p = pe_ticket p'"
  shows "a = a'"
proof -
  have d: "distinct (map (pe_ticket \<circ> snd) (br_pending s))" using effects_tickets(1) [OF assms(1)] by simp
  have "(a, p) = (a', p')"
    using inj_onD [OF conjunct2 [OF d [unfolded distinct_map]], of "(a, p)" "(a', p')"] assms(2-4) by (auto dest: map_of_SomeD)
  then show ?thesis by simp
qed

lemma filter_mset_all: "(\<And>x. x \<in># M \<Longrightarrow> P x) \<Longrightarrow> filter_mset P M = M"
  by (induction M) auto

text \<open>Settling a pending effect and answering its promise, the way timers, answers and disconnects do it.\<close>

lemma settled_effects:
  assumes ok: "effects_ok opts s" and p: "jm_get (br_pending s) a = Some p"
  shows "effects_ok opts (answer_ticket (pe_ticket p) r (settle a s))"
proof -
  let ?P = "jm_values (br_pending s)" and ?Q = "jm_values (jm_delete a (br_pending s))"
  have m: "mset ?P = add_mset p (mset ?Q)" using ok p by (intro mset_values_delete) (simp_all add: effects_ok_def)
  have pa: "pe_actionId p = a" "jm_get (br_pendingByTab s) (pe_tabId p) = Some a" using ok p by (auto simp: effects_ok_def)
  have mp: "mset (map pe_ticket ?P) = mset (pe_ticket p # map pe_ticket ?Q)"
    using arg_cong [OF m, of "image_mset pe_ticket"] by (simp only: mset_map image_mset_add_mset mset.simps list.map)
  have q: "pe_ticket x \<noteq> pe_ticket p" if "x \<in> set ?Q" for x
  proof -
    have "distinct (map pe_ticket ?P)" using effects_tickets(1) [OF ok] by (simp only: distinct_append)
    then have "distinct (pe_ticket p # map pe_ticket ?Q)" using mp by (metis mset_eq_imp_distinct_iff)
    with that show ?thesis by (metis distinct.simps(2) image_eqI list.set_map)
  qed
  have fq: "filter_mset (\<lambda>x. pe_ticket x \<noteq> pe_ticket p) (mset ?Q) = mset ?Q"
    by (rule filter_mset_all) (use q in \<open>simp only: set_mset_mset not_False_eq_True\<close>)
  let ?t = "\<lambda>t. (et_ticket t, et_actionId t)" and ?u = "\<lambda>p. (pe_ticket p, pe_actionId p)"
  have "mset (map ?t (filter (\<lambda>t. et_ticket t \<noteq> pe_ticket p) (br_timers s))) =
      filter_mset (\<lambda>x. fst x \<noteq> pe_ticket p) (mset (map ?t (br_timers s)))"
    by (simp add: mset_filter filter_mset_image_mset comp_def)
  also have "\<dots> = filter_mset (\<lambda>x. fst x \<noteq> pe_ticket p) (image_mset ?u (mset ?P))"
    using ok by (simp add: effects_ok_def multiset.map_comp)
  also have "\<dots> = image_mset ?u (mset ?Q)"
    unfolding m by (simp add: filter_mset_image_mset fq del: mset_map)
  finally have timers: "mset (map ?t (filter (\<lambda>t. et_ticket t \<noteq> pe_ticket p) (br_timers s))) = mset (map ?u ?Q)" by (simp only: mset_map)
  have tickets: "mset (map pe_ticket ?Q @ map fst (br_settled s @ [(pe_ticket p, r)])) = mset [0..<br_issued s]"
  proof -
    have "mset (map pe_ticket ?P) + mset (map fst (br_settled s)) = mset [0..<br_issued s]"
      using ok unfolding effects_ok_def mset_append by blast
    moreover have "mset (xs @ map fst (l @ [(t, r)])) = mset (t # xs) + mset (map fst l)" for xs t and l :: "(nat \<times> settlement) list"
      by simp
    ultimately show ?thesis by (simp only: mp)
  qed
  have len: "length (jm_delete a (br_pending s)) \<le> bo_maxPending opts"
    using jm_delete_length_le [of a "br_pending s"] ok by (simp add: effects_ok_def)
  let ?s = "answer_ticket (pe_ticket p) r (settle a s)"
  have fields: "br_pending ?s = jm_delete a (br_pending s)" "br_pendingByTab ?s = jm_delete (pe_tabId p) (br_pendingByTab s)"
    "br_timers ?s = filter (\<lambda>t. et_ticket t \<noteq> pe_ticket p) (br_timers s)" "br_issued ?s = br_issued s"
    "br_settled ?s = br_settled s @ [(pe_ticket p, r)]"
    using p pa by (simp_all add: settle_def answer_ticket_def)
  note o = ok [unfolded effects_ok_def]
  have other: "pe_tabId x \<noteq> pe_tabId p" if "b \<noteq> a" "jm_get (br_pending s) b = Some x" for b x
    using o that pa(2) by (metis option.inject)
  show ?thesis
    unfolding effects_ok_def fields
  proof (intro conjI)
    show "jm_ok (jm_delete a (br_pending s))" "jm_ok (jm_delete (pe_tabId p) (br_pendingByTab s))" using o by (simp_all only: jm_ok_delete)
    show "\<forall>b x. jm_get (jm_delete a (br_pending s)) b = Some x \<longrightarrow>
        pe_actionId x = b \<and> jm_get (jm_delete (pe_tabId p) (br_pendingByTab s)) (pe_tabId x) = Some b"
      using o other by (metis jm_get_delete option.distinct(1))
    show "\<forall>tab b. jm_get (jm_delete (pe_tabId p) (br_pendingByTab s)) tab = Some b \<longrightarrow>
        (\<exists>x. jm_get (jm_delete a (br_pending s)) b = Some x \<and> pe_tabId x = tab)"
      using o p by (metis jm_get_delete option.distinct(1) option.inject)
    show "\<forall>t \<in> set (filter (\<lambda>t. et_ticket t \<noteq> pe_ticket p) (br_timers s)). 1 \<le> et_delay t \<and> et_delay t \<le> max 1 (bo_maxTimeoutMs opts)"
      using o by (metis (no_types, lifting) filter_is_subset subsetD)
  qed (rule timers tickets len)+
qed
lemma settle_fields [simp]:
  "br_issued (settle a s) = br_issued s" "br_settled (settle a s) = br_settled s" "br_states (settle a s) = br_states s"
  "br_providers (settle a s) = br_providers s" "br_resources (settle a s) = br_resources s" "br_queue (settle a s) = br_queue s"
  "br_phase (settle a s) = br_phase s" "br_results (settle a s) = br_results s" "br_sent (settle a s) = br_sent s"
  "state_of (settle a s) = state_of s"
  by (auto simp: settle_def state_of_def split: option.split)

lemma answer_fields [simp]:
  "br_issued (answer_ticket n r s) = br_issued s" "br_settled (answer_ticket n r s) = br_settled s @ [(n, r)]"
  "br_states (answer_ticket n r s) = br_states s" "br_pending (answer_ticket n r s) = br_pending s"
  "br_providers (answer_ticket n r s) = br_providers s" "br_resources (answer_ticket n r s) = br_resources s"
  "br_queue (answer_ticket n r s) = br_queue s" "br_phase (answer_ticket n r s) = br_phase s"
  "br_pendingByTab (answer_ticket n r s) = br_pendingByTab s" "br_timers (answer_ticket n r s) = br_timers s"
  "state_of (answer_ticket n r s) = state_of s"
  by (auto simp: answer_ticket_def state_of_def)

lemma settle_pending [simp]: "jm_get (br_pending (settle a s)) b = (if b = a then None else jm_get (br_pending s) b)"
  by (auto simp: settle_def split: option.split)

lemma finish_parts [simp]:
  "effect_part (finish_job r s) = effect_part s" "br_states (finish_job r s) = br_states s"
  "br_resources (finish_job r s) = br_resources s" "br_providers (finish_job r s) = br_providers s"
  "state_of (finish_job r s) = state_of s" "br_pending (finish_job r s) = br_pending s"
  by (auto simp: finish_job_def effect_part_def state_of_def split: list.split)

lemma drop_effects [simp]: "effect_part (fold drop_resource rs s) = effect_part s" "effect_part (drop_resource r s) = effect_part s"
  by (induction rs arbitrary: s) (simp_all add: drop_resource_def effect_part_def)

lemma finish_cleanup_effects [simp]: "effect_part (finish_cleanup t b s) = effect_part s"
  by (simp add: finish_cleanup_def effect_part_def [of "s\<lparr>br_providers := x\<rparr>" for x]) (simp add: effect_part_def)

lemma cleanup_after_effects: "effect_part (cleanup_after opts t p a s) = effect_part s"
  by (induction opts t p a s rule: cleanup_after.induct)
    (simp_all add: Let_def, simp_all add: effect_part_def [of "s\<lparr>br_phase := x\<rparr>" for s x] effect_part_def [symmetric])

lemma job_effects:
  "effect_part (job_starts opts s) = effect_part s" "effect_part (job_answered opts a s) = effect_part s"
  "effect_part (request_job t j s) = effect_part s" "effect_part (ready s) = effect_part s"
  "effect_part (snd (register opts pid s)) = effect_part s"
proof -
  have phase: "effect_part (s\<lparr>br_phase := x\<rparr>) = effect_part s" and res: "effect_part (s\<lparr>br_resources := y\<rparr>) = effect_part s" for s x y
    by (simp_all add: effect_part_def)
  show "effect_part (job_starts opts s) = effect_part s"
    by (auto simp: job_starts_def upsert_before_def remove_before_def cleanup_before_def Let_def phase split: list.split broker_job.split option.split)
  show "effect_part (job_answered opts a s) = effect_part s"
    by (auto simp: job_answered_def upsert_after_def remove_after_def cleanup_after_effects Let_def res
        split: list.split broker_job.split option.split callback_answer.split)
  show "effect_part (request_job t j s) = effect_part s"
    by (simp add: request_job_def enqueue_def effect_part_def)
  have "effect_part (fold (\<lambda>t. enqueue (CleanupJob t)) ts s) = effect_part s" for ts
    by (induction ts arbitrary: s) (simp_all add: enqueue_def effect_part_def)
  then show "effect_part (ready s) = effect_part s" by (simp add: ready_def)
  show "effect_part (snd (register opts pid s)) = effect_part s"
    by (simp add: register_def Let_def effect_part_def)
qed
text \<open>A new pending effect.\<close>

lemma issued_effects:
  assumes ok: "effects_ok opts s" and a: "jm_get (br_pending s) (pe_actionId p) = None" and t: "jm_get (br_pendingByTab s) (pe_tabId p) = None"
    and l: "length (br_pending s) < bo_maxPending opts" and n: "pe_ticket p = br_issued s"
    and d: "1 \<le> delay" "delay \<le> max 1 (bo_maxTimeoutMs opts)"
    and fields: "br_pending s' = jm_set (pe_actionId p) p (br_pending s)"
      "br_pendingByTab s' = jm_set (pe_tabId p) (pe_actionId p) (br_pendingByTab s)"
      "br_timers s' = br_timers s @ [\<lparr>et_ticket = pe_ticket p, et_actionId = pe_actionId p, et_delay = delay\<rparr>]"
      "br_issued s' = Suc (br_issued s)" "br_settled s' = br_settled s"
  shows "effects_ok opts s'"
proof -
  note o = ok [unfolded effects_ok_def]
  let ?P = "jm_values (br_pending s)" and ?Q = "jm_values (jm_set (pe_actionId p) p (br_pending s))"
  note m = mset_values_insert [OF a, of p]
  have mf: "mset (map f ?Q) = add_mset (f p) (mset (map f ?P))" for f :: "pending_effect \<Rightarrow> 'x"
    unfolding mset_map [of f] m by simp
  show ?thesis
    unfolding effects_ok_def fields
  proof (intro conjI)
    show "jm_ok (jm_set (pe_actionId p) p (br_pending s))" "jm_ok (jm_set (pe_tabId p) (pe_actionId p) (br_pendingByTab s))"
      using o by (simp_all only: jm_ok_set)
    show "\<forall>b x. jm_get (jm_set (pe_actionId p) p (br_pending s)) b = Some x \<longrightarrow>
        pe_actionId x = b \<and> jm_get (jm_set (pe_tabId p) (pe_actionId p) (br_pendingByTab s)) (pe_tabId x) = Some b"
      using o t by (metis jm_get_set option.distinct(1) option.inject)
    show "\<forall>tab b. jm_get (jm_set (pe_tabId p) (pe_actionId p) (br_pendingByTab s)) tab = Some b \<longrightarrow>
        (\<exists>x. jm_get (jm_set (pe_actionId p) p (br_pending s)) b = Some x \<and> pe_tabId x = tab)"
      using o a by (metis jm_get_set option.distinct(1) option.inject)
    show "mset (map (\<lambda>t. (et_ticket t, et_actionId t)) (br_timers s @ [\<lparr>et_ticket = pe_ticket p, et_actionId = pe_actionId p, et_delay = delay\<rparr>])) =
        mset (map (\<lambda>p. (pe_ticket p, pe_actionId p)) ?Q)"
      unfolding mf using o by (simp only: map_append mset_append list.map effect_timer.simps mset.simps) simp
    show "\<forall>t \<in> set (br_timers s @ [\<lparr>et_ticket = pe_ticket p, et_actionId = pe_actionId p, et_delay = delay\<rparr>]).
        1 \<le> et_delay t \<and> et_delay t \<le> max 1 (bo_maxTimeoutMs opts)"
      using o d by simp
    have "mset (map pe_ticket ?P @ map fst (br_settled s)) = mset [0..<br_issued s]" using o by blast
    then show "mset (map pe_ticket ?Q @ map fst (br_settled s)) = mset [0..<Suc (br_issued s)]"
      unfolding mset_append mf n by simp
    show "length (jm_set (pe_actionId p) p (br_pending s)) \<le> bo_maxPending opts"
      using l a by (metis Suc_leI length_map m mset_map size_add_mset size_mset)
  qed
qed

lemma issue_fields [simp]:
  "br_states (issue_effect opts i pid s) = br_states s" "br_providers (issue_effect opts i pid s) = br_providers s"
  "br_resources (issue_effect opts i pid s) = br_resources s" "br_queue (issue_effect opts i pid s) = br_queue s"
  "br_phase (issue_effect opts i pid s) = br_phase s" "br_settled (issue_effect opts i pid s) = br_settled s"
  "state_of (issue_effect opts i pid s) = state_of s" "br_issued (issue_effect opts i pid s) = Suc (br_issued s)"
  "br_pending (issue_effect opts i pid s) = jm_set (di_actionId i) (pending_for i pid (br_issued s)) (br_pending s)"
  by (auto simp: issue_effect_def state_of_def)

lemma issue_effects:
  assumes "effects_ok opts s" "jm_get (br_pending s) (di_actionId i) = None" "jm_get (br_pendingByTab s) (di_tabId i) = None"
    "\<not> bo_maxPending opts \<le> length (br_pending s)"
  shows "effects_ok opts (issue_effect opts i pid s)"
  by (rule issued_effects [where p = "pending_for i pid (br_issued s)" and s = s
      and delay = "max 1 (min (di_timeoutMs i) (bo_maxTimeoutMs opts))", OF assms(1)])
    (use assms(2-4) in \<open>simp_all add: pending_for_def issue_effect_def\<close>)

lemma dispatch_effects:
  assumes ok: "effects_ok opts s" shows "effects_ok opts (snd (dispatch opts i send_ok s))"
proof -
  have sent: "effects_ok opts (x\<lparr>br_sent := y\<rparr>) = effects_ok opts x" for x y
    by (rule effects_ok_cong) (simp add: effect_part_def)
  have "effects_ok opts (answer_ticket (br_issued s) RejectedUnknown (settle (di_actionId i) (issue_effect opts i pid s)))"
    if "effects_ok opts (issue_effect opts i pid s)" for pid
    using settled_effects [OF that, of "di_actionId i" "pending_for i pid (br_issued s)"] by (simp add: pending_for_def)
  then show ?thesis
    unfolding dispatch_def using ok issue_effects [OF ok] by (simp add: Let_def sent split: option.split)
qed

lemma timer_effects:
  assumes ok: "effects_ok opts s" shows "effects_ok opts (timer_fires n s)"
proof (cases "find (\<lambda>t. et_ticket t = n) (br_timers s)")
  case None then show ?thesis using ok by (simp add: timer_fires_def)
next
  case (Some t)
  then have t: "t \<in> set (br_timers s)" "et_ticket t = n" by (auto simp: find_Some_iff)
  have "(n, et_actionId t) \<in># mset (map (\<lambda>p. (pe_ticket p, pe_actionId p)) (jm_values (br_pending s)))"
    using ok t(1) unfolding effects_ok_def t(2) [symmetric] by (metis (mono_tags, lifting) image_eqI list.set_map set_mset_mset)
  then obtain p where p: "p \<in> set (jm_values (br_pending s))" "pe_ticket p = n" "pe_actionId p = et_actionId t"
    unfolding set_mset_mset list.set_map [of "\<lambda>p. (pe_ticket p, pe_actionId p)"] by (elim imageE) simp
  then have g: "jm_get (br_pending s) (et_actionId t) = Some p"
    using ok by (metis effects_ok_def jm_values_iff)
  have "settle (et_actionId t) (s\<lparr>br_timers := filter (\<lambda>t. et_ticket t \<noteq> n) (br_timers s)\<rparr>) = settle (et_actionId t) s"
    using g p(2) by (simp add: settle_def)
  then show ?thesis using settled_effects [OF ok g, of RejectedUnknown] Some p(2) by (simp add: timer_fires_def)
qed

lemma complete_effects:
  assumes "effects_ok opts s" shows "effects_ok opts (snd (complete_effect t r s))"
  using assms settled_effects [OF assms] by (simp add: complete_effect_def split: option.split)

lemma reject_effects:
  assumes "effects_ok opts s" "distinct (map pe_actionId ps)" "\<forall>p \<in> set ps. jm_get (br_pending s) (pe_actionId p) = Some p"
  shows "effects_ok opts (reject_pending pid ps s)"
  using assms
proof (induction ps arbitrary: s)
  case (Cons p ps)
  then have "effects_ok opts (answer_ticket (pe_ticket p) RejectedUnknown (settle (pe_actionId p) s))"
    by (intro settled_effects) simp_all
  moreover have "\<forall>x \<in> set ps. pe_actionId x \<noteq> pe_actionId p" using Cons.prems(2) by (metis distinct.simps(2) image_eqI list.set_map list.simps(9))
  ultimately show ?case using Cons by simp
qed simp

lemma pending_values:
  assumes "effects_ok opts s"
  shows "distinct (map pe_actionId (jm_values (br_pending s)))"
    "\<forall>p \<in> set (jm_values (br_pending s)). jm_get (br_pending s) (pe_actionId p) = Some p"
proof -
  have ok: "jm_ok (br_pending s)" and key: "\<And>a p. jm_get (br_pending s) a = Some p \<Longrightarrow> pe_actionId p = a"
    using assms unfolding effects_ok_def by blast+
  show all: "\<forall>p \<in> set (jm_values (br_pending s)). jm_get (br_pending s) (pe_actionId p) = Some p"
    using ok key by (metis jm_values_iff)
  have "pe_actionId p = a" if "(a, p) \<in> set (br_pending s)" for a p using key that jm_in_set_iff [OF ok] by blast
  then have "map pe_actionId (jm_values (br_pending s)) = map fst (br_pending s)" by auto
  then show "distinct (map pe_actionId (jm_values (br_pending s)))" using ok by (simp only:)
qed

lemma disconnect_effects:
  assumes "effects_ok opts s" shows "effects_ok opts (disconnect t s)"
proof -
  have "effects_ok opts (s\<lparr>br_states := x\<rparr>)" for x
    by (rule iffD1 [OF effects_ok_cong assms]) (simp add: effect_part_def)
  then have "effects_ok opts (reject_pending pid (jm_values (br_pending s)) (s\<lparr>br_states := x\<rparr>))" for x pid
    using pending_values [OF assms] by (intro reject_effects) simp_all
  moreover have "effects_ok opts (enqueue j x) = effects_ok opts x" for j x
    by (rule effects_ok_cong) (simp add: enqueue_def effect_part_def)
  ultimately show ?thesis using assms by (simp add: disconnect_def Let_def)
qed

lemma step_effects: "effects_ok opts s \<Longrightarrow> effects_ok opts (broker_step opts e s)"
  by (cases e) (simp_all add: dispatch_effects timer_effects complete_effects disconnect_effects effects_ok_cong [OF job_effects(1)]
    effects_ok_cong [OF job_effects(2)] effects_ok_cong [OF job_effects(3)] effects_ok_cong [OF job_effects(4)]
    effects_ok_cong [OF job_effects(5)])

lemma run_invariant:
  assumes "P broker_init" "\<And>e s. P s \<Longrightarrow> P (broker_step opts e s)" shows "P (broker_run opts es)"
proof -
  have "P s \<Longrightarrow> P (fold (broker_step opts) es s)" for s by (induction es arbitrary: s) (simp_all add: assms(2))
  with assms(1) show ?thesis by (simp add: broker_run_def)
qed

lemma run_effects: "effects_ok opts (broker_run opts es)"
  by (rule run_invariant) (auto simp: effects_init step_effects)
section \<open>Registrations, tabs and their limits\<close>

definition registry_core :: "broker_options \<Rightarrow> broker \<Rightarrow> bool" where
  "registry_core opts s \<longleftrightarrow>
    jm_ok (br_providers s) \<and> jm_ok (br_resources s) \<and>
    (\<forall>pid t. jm_get (br_providers s) pid = Some t \<longrightarrow> t < length (br_states s) \<and> ps_id (br_states s ! t) = pid) \<and>
    (\<forall>k r. jm_get (br_resources s) k = Some r \<longrightarrow> tr_id r = k) \<and>
    length (br_providers s) \<le> bo_maxProviders opts \<and> length (br_resources s) \<le> bo_maxResources opts \<and>
    (\<forall>pid. count_values (\<lambda>r. tr_providerId r = pid) (br_resources s) \<le> bo_maxResourcesPerProvider opts)"

fun job_token :: "broker_job \<Rightarrow> nat" where
  "job_token (UpsertJob t r) = t"
| "job_token (RemoveJob t tab g) = t"
| "job_token (CleanupJob t) = t"

definition queue_ok :: "broker \<Rightarrow> bool" where
  "queue_ok s \<longleftrightarrow> (\<forall>j \<in> set (br_queue s). job_token j < length (br_states s))"

text \<open>Only the job at the head is under way, and while an upsert waits for its callback there is room for its tab.\<close>

definition room_for :: "broker_options \<Rightarrow> string \<Rightarrow> string \<Rightarrow> (string, tab_resource) jsmap \<Rightarrow> bool" where
  "room_for opts pid tab m =
    (case jm_get m tab of
       None \<Rightarrow> length m < bo_maxResources opts \<and> count_values (\<lambda>r. tr_providerId r = pid) m < bo_maxResourcesPerProvider opts
     | Some c \<Rightarrow> tr_providerId c = pid)"

definition phase_ok :: "broker_options \<Rightarrow> broker \<Rightarrow> bool" where
  "phase_ok opts s \<longleftrightarrow> (br_queue s = [] \<longrightarrow> br_phase s = JobWaiting) \<and> (\<forall>t r js. br_phase s \<noteq> JobWaiting \<and> br_queue s = UpsertJob t r # js \<longrightarrow>
     room_for opts (ps_id (state_of s t)) (tr_id r) (br_resources s))"

definition registry_ok :: "broker_options \<Rightarrow> broker \<Rightarrow> bool" where
  "registry_ok opts s \<longleftrightarrow> registry_core opts s \<and> queue_ok s \<and> phase_ok opts s"

definition registry_part :: "broker \<Rightarrow> provider_state list \<times> (string, nat) jsmap \<times> (string, tab_resource) jsmap \<times> broker_job list \<times> job_phase" where
  "registry_part s = (br_states s, br_providers s, br_resources s, br_queue s, br_phase s)"

lemma registry_ok_cong: "registry_part s = registry_part s' \<Longrightarrow> registry_ok opts s = registry_ok opts s'"
  by (simp add: registry_ok_def registry_core_def queue_ok_def phase_ok_def registry_part_def state_of_def)

lemma registry_init: "registry_ok opts broker_init"
  by (simp add: registry_ok_def registry_core_def queue_ok_def phase_ok_def broker_init_def)

lemma reject_fields [simp]:
  "br_states (reject_pending pid ps s) = br_states s" "br_providers (reject_pending pid ps s) = br_providers s"
  "br_resources (reject_pending pid ps s) = br_resources s" "br_queue (reject_pending pid ps s) = br_queue s"
  "br_phase (reject_pending pid ps s) = br_phase s" "state_of (reject_pending pid ps s) = state_of s"
  by (induction ps arbitrary: s) simp_all

lemma effect_steps_registry:
  "registry_part (snd (dispatch opts i send_ok s)) = registry_part s"
  "registry_part (timer_fires n s) = registry_part s" "registry_part (snd (complete_effect t r s)) = registry_part s"
  "registry_part (reject_pending pid ps s) = registry_part s"
  by (auto simp: dispatch_def timer_fires_def complete_effect_def registry_part_def Let_def split: option.split)

lemma finish_registry: "registry_core opts s \<Longrightarrow> queue_ok s \<Longrightarrow> registry_ok opts s \<or> br_queue s \<noteq> [] \<Longrightarrow> registry_ok opts (finish_job r s)"
  by (auto simp: finish_job_def registry_ok_def registry_core_def queue_ok_def phase_ok_def split: list.split)

lemma finish_ok: "registry_ok opts s \<Longrightarrow> registry_ok opts (finish_job r s)"
  by (rule finish_registry) (simp_all add: registry_ok_def)

lemma phase_change: "registry_ok opts s \<Longrightarrow> br_queue s \<noteq> [] \<Longrightarrow> (\<And>t r js. br_queue s \<noteq> UpsertJob t r # js) \<Longrightarrow> registry_ok opts (s\<lparr>br_phase := p\<rparr>)"
  by (simp add: registry_ok_def registry_core_def queue_ok_def phase_ok_def)

lemma core_delete: "registry_core opts s \<Longrightarrow> registry_core opts (s\<lparr>br_resources := jm_delete k (br_resources s)\<rparr>)"
proof -
  assume c: "registry_core opts s"
  have "count_values P (jm_delete k m) \<le> count_values P m" if "jm_ok m" for P and m :: "(string, tab_resource) jsmap"
    using count_values_delete [OF that, of k _ P] by (cases "jm_get m k") (auto simp: jm_delete_absent)
  then have "\<forall>pid. count_values (\<lambda>r. tr_providerId r = pid) (jm_delete k (br_resources s)) \<le> bo_maxResourcesPerProvider opts"
    using c unfolding registry_core_def by (meson order_trans)
  then show ?thesis
    using c jm_delete_length_le [of k "br_resources s"] by (auto simp: registry_core_def)
qed

lemma core_insert:
  assumes c: "registry_core opts s" and r: "room_for opts (tr_providerId c) (tr_id c) (br_resources s)"
  shows "registry_core opts (s\<lparr>br_resources := jm_set (tr_id c) c (br_resources s)\<rparr>)"
proof -
  let ?m = "br_resources s"
  have l: "length m = count_values (\<lambda>_. True) m" for m :: "(string, tab_resource) jsmap" by (simp add: count_values_def)
  have "length (jm_set (tr_id c) c ?m) \<le> bo_maxResources opts \<and>
      (\<forall>pid. count_values (\<lambda>r. tr_providerId r = pid) (jm_set (tr_id c) c ?m) \<le> bo_maxResourcesPerProvider opts)"
  proof (cases "jm_get ?m (tr_id c)")
    case None
    show ?thesis
      using None r c unfolding l [of "jm_set (tr_id c) c ?m"]
      by (auto simp: count_values_insert room_for_def registry_core_def l)
  next
    case (Some old)
    then have p: "tr_providerId old = tr_providerId c" using r by (simp add: room_for_def)
    have "length (jm_set (tr_id c) c ?m) = length ?m" 
      using count_values_replace [OF Some, of "\<lambda>_. True" c] by (simp add: l)
    moreover have "count_values (\<lambda>r. tr_providerId r = pid) (jm_set (tr_id c) c ?m) = count_values (\<lambda>r. tr_providerId r = pid) ?m" for pid
      using count_values_replace [OF Some, of "\<lambda>r. tr_providerId r = pid" c] by (simp add: p)
    ultimately show ?thesis using c by (simp add: registry_core_def)
  qed
  then show ?thesis using c by (auto simp: registry_core_def)
qed
lemma owned_count: "length (owned_resources pid s) = count_values (\<lambda>r. tr_providerId r = pid) (br_resources s)"
  by (simp add: owned_resources_def count_values_def)

lemma finish_parts_registry: "registry_core opts s \<Longrightarrow> queue_ok s \<Longrightarrow> br_queue s \<noteq> [] \<Longrightarrow> registry_ok opts (finish_job r s)"
  by (rule finish_registry) simp_all

lemma upsert_before_registry:
  assumes "registry_ok opts s" "br_queue s = UpsertJob t r # js" shows "registry_ok opts (upsert_before opts t r s)"
proof -
  have "registry_ok opts (s\<lparr>br_phase := JobCalled\<rparr>)" if "room_for opts (ps_id (state_of s t)) (tr_id r) (br_resources s)"
    using assms that by (simp add: registry_ok_def registry_core_def queue_ok_def phase_ok_def state_of_def)
  then show ?thesis
    using finish_ok [OF assms(1)]
    by (auto simp: upsert_before_def Let_def room_for_def owned_count not_le split: option.split)
qed

lemma upsert_after_registry:
  assumes ok: "registry_ok opts s" and q: "br_queue s = UpsertJob t r # js" and p: "br_phase s \<noteq> JobWaiting"
  shows "registry_ok opts (upsert_after opts t r a s)"
proof -
  have room: "room_for opts (ps_id (state_of s t)) (tr_id r) (br_resources s)"
    using ok q p unfolding registry_ok_def phase_ok_def by blast
  have set: "registry_ok opts (finish_job x (s\<lparr>br_resources := jm_set (tr_id c) c (br_resources s)\<rparr>))"
    if "tr_id c = tr_id r" "tr_providerId c = ps_id (state_of s t)" for c x
    by (rule finish_parts_registry [OF core_insert])
      (use that ok q room in \<open>simp_all add: registry_ok_def queue_ok_def\<close>)
  show ?thesis
    using finish_ok [OF ok] set
    by (simp add: upsert_after_def Let_def split: callback_answer.split if_split)
qed

lemma remove_registry:
  assumes "registry_ok opts s" "br_queue s = RemoveJob t tab g # js"
  shows "registry_ok opts (remove_before t tab g s)" "registry_ok opts (remove_after opts tab a s)"
proof -
  show "registry_ok opts (remove_before t tab g s)"
    using finish_ok [OF assms(1)] phase_change [OF assms(1)] assms(2) by (simp add: remove_before_def split: option.split)
  have "registry_ok opts (finish_job x (s\<lparr>br_resources := jm_delete tab (br_resources s)\<rparr>))" for x
    by (rule finish_parts_registry [OF core_delete]) (use assms in \<open>simp_all add: registry_ok_def queue_ok_def\<close>)
  then show "registry_ok opts (remove_after opts tab a s)"
    using finish_ok [OF assms(1)] by (simp add: remove_after_def)
qed

lemma drop_fields [simp]:
  "br_queue (drop_resource r s) = br_queue s" "br_states (drop_resource r s) = br_states s"
  "br_providers (drop_resource r s) = br_providers s" "br_phase (drop_resource r s) = br_phase s"
  "state_of (drop_resource r s) = state_of s"
  by (auto simp: drop_resource_def state_of_def)

lemma drop_registry: "registry_core opts s \<Longrightarrow> registry_core opts (drop_resource r s)"
  by (simp add: drop_resource_def core_delete)

lemma drops_fields [simp]:
  "br_queue (fold drop_resource rs s) = br_queue s" "br_states (fold drop_resource rs s) = br_states s"
  by (induction rs arbitrary: s) simp_all

lemma drops_registry: "registry_core opts s \<Longrightarrow> registry_core opts (fold drop_resource rs s)"
  by (induction rs arbitrary: s) (simp_all add: drop_registry)

lemma finish_cleanup_registry:
  assumes "registry_core opts s" "queue_ok s" "br_queue s \<noteq> []" shows "registry_ok opts (finish_cleanup t b s)"
proof -
  have "registry_core opts (s\<lparr>br_providers := jm_delete k (br_providers s)\<rparr>)" for k
    using assms(1) jm_delete_length_le [of k "br_providers s"] by (auto simp: registry_core_def split: if_split_asm)
  then show ?thesis
    using assms by (auto simp: finish_cleanup_def queue_ok_def intro!: finish_parts_registry)
qed

lemma cleanup_registry:
  assumes "registry_ok opts s" "br_queue s = CleanupJob t # js"
  shows "registry_ok opts (cleanup_before opts t s)" "registry_ok opts (cleanup_after opts t p a s)"
proof -
  have c: "registry_core opts s" "queue_ok s" using assms(1) by (simp_all add: registry_ok_def)
  show "registry_ok opts (cleanup_before opts t s)"
    using finish_cleanup_registry [OF c] phase_change [OF assms(1)] assms(2) by (simp add: cleanup_before_def Let_def)
  have ok: "registry_ok opts (drop_resource r s)" for r
    using assms(2) c drop_registry [OF c(1)] by (simp add: registry_ok_def queue_ok_def phase_ok_def)
  have fin: "registry_ok opts (finish_cleanup t b (drop_resource r s))" "registry_ok opts (finish_cleanup t b s)"
      "registry_ok opts (finish_cleanup t b (fold drop_resource rs s))" for b r rs
    using assms(2) c by (auto intro!: finish_cleanup_registry drop_registry drops_registry simp: queue_ok_def)
  show "registry_ok opts (cleanup_after opts t p a s)"
    using fin assms(1) phase_change [OF ok] phase_change [OF assms(1)] assms(2)
    by (cases "(opts, t, p, a, s)" rule: cleanup_after.cases) (simp_all add: Let_def)
qed

lemma job_registry:
  assumes "registry_ok opts s"
  shows "registry_ok opts (job_starts opts s)" "registry_ok opts (job_answered opts a s)"
  using assms upsert_before_registry [OF assms] upsert_after_registry [OF assms] remove_registry [OF assms] cleanup_registry [OF assms]
  by (auto simp: job_starts_def job_answered_def split: list.split broker_job.split)

lemma live_registration: "is_ok (require_live_registration s t b) \<longleftrightarrow>
    \<not> b \<and> ps_connected (state_of s t) \<and> jm_get (br_providers s) (ps_id (state_of s t)) = Some t"
  by (cases "b \<or> \<not> ps_connected (state_of s t) \<or> jm_get (br_providers s) (ps_id (state_of s t)) \<noteq> Some t")
    (auto simp: require_live_registration_def)

lemma enqueue_registry: "registry_ok opts s \<Longrightarrow> job_token j < length (br_states s) \<Longrightarrow> registry_ok opts (enqueue j s)"
  by (cases "br_queue s") (auto simp: enqueue_def registry_ok_def registry_core_def queue_ok_def phase_ok_def state_of_def)


lemma request_registry: "registry_ok opts s \<Longrightarrow> job_token j = t \<Longrightarrow> registry_ok opts (request_job t j s)"
proof -
  assume a: "registry_ok opts s" "job_token j = t"
  have "registry_ok opts (s\<lparr>br_results := x\<rparr>)" for x
    by (rule iffD1 [OF registry_ok_cong a(1)]) (simp add: registry_part_def)
  then show ?thesis
    using a enqueue_registry [OF a(1), of j]
    by (auto simp: request_job_def live_registration registry_ok_def registry_core_def)
qed

lemma ready_registry: assumes "registry_ok opts s" shows "registry_ok opts (ready s)"
proof -
  have "registry_ok opts (fold (\<lambda>t. enqueue (CleanupJob t)) ts x)"
    if "registry_ok opts x" "\<forall>t \<in> set ts. t < length (br_states x)" for ts x
    using that
  proof (induction ts arbitrary: x)
    case (Cons t ts)
    then show ?case using enqueue_registry [of opts x "CleanupJob t"] by (simp add: enqueue_def)
  qed simp
  moreover have "\<forall>t \<in> set (jm_values (br_providers s)). t < length (br_states s)"
    using assms unfolding registry_ok_def registry_core_def by (metis jm_values_iff)
  ultimately show ?thesis using assms unfolding ready_def by (metis (no_types, lifting) filter_is_subset subsetD)
qed

lemma register_registry: assumes "registry_ok opts s" shows "registry_ok opts (snd (register opts pid s))"
proof -
  have "length (jm_set pid t m) = Suc (length m)" if "jm_get m pid = None" for m and t :: nat
    using that by (induction m) (auto split: if_split_asm)
  then show ?thesis
    using assms by (auto simp: register_def Let_def registry_ok_def registry_core_def queue_ok_def phase_ok_def state_of_def
        nth_append less_Suc_eq split: if_split_asm)
qed

lemma disconnect_registry: assumes "registry_ok opts s" shows "registry_ok opts (disconnect t s)"
proof (cases "length (br_states s) \<le> t \<or> ps_disconnected (state_of s t)")
  case True then show ?thesis using assms by (auto simp: disconnect_def)
next
  case False
  let ?s = "s\<lparr>br_states := (br_states s)[t := (state_of s t)\<lparr>ps_connected := False, ps_disconnected := True\<rparr>]\<rparr>"
  have i: "ps_id ((br_states s)[t := (br_states s ! t)\<lparr>ps_connected := False, ps_disconnected := True\<rparr>] ! u) = ps_id (br_states s ! u)" for u
    using False by (cases "u = t") simp_all
  have "registry_ok opts ?s"
    using assms False by (auto simp: registry_ok_def registry_core_def queue_ok_def phase_ok_def state_of_def i)
  then have "registry_ok opts (reject_pending pid ps ?s)" for pid ps
    by (rule iffD1 [OF registry_ok_cong, rotated]) (simp add: effect_steps_registry)
  then show ?thesis using False by (simp add: disconnect_def Let_def enqueue_registry)
qed

lemma step_registry: "registry_ok opts s \<Longrightarrow> registry_ok opts (broker_step opts e s)"
  by (cases e) (simp_all add: register_registry request_registry disconnect_registry ready_registry job_registry
    registry_ok_cong [OF effect_steps_registry(1)] registry_ok_cong [OF effect_steps_registry(2)] registry_ok_cong [OF effect_steps_registry(3)])

lemma run_registry: "registry_ok opts (broker_run opts es)"
  by (rule run_invariant) (auto simp: registry_init step_registry)
section \<open>Connections\<close>

text \<open>A provider that is no longer connected has no effect pending.\<close>

definition connections_ok :: "broker \<Rightarrow> bool" where
  "connections_ok s \<longleftrightarrow> (\<forall>pid t. jm_get (br_providers s) pid = Some t \<and> \<not> ps_connected (state_of s t) \<longrightarrow>
     (\<forall>a p. jm_get (br_pending s) a = Some p \<longrightarrow> pe_providerId p \<noteq> pid))"

lemma connections_mono:
  assumes "connections_ok s" "\<And>a p. jm_get (br_pending s') a = Some p \<Longrightarrow> jm_get (br_pending s) a = Some p"
    "\<And>pid t. jm_get (br_providers s') pid = Some t \<Longrightarrow> \<not> ps_connected (state_of s' t) \<Longrightarrow>
       jm_get (br_providers s) pid = Some t \<and> \<not> ps_connected (state_of s t)"
  shows "connections_ok s'"
  using assms unfolding connections_ok_def by blast

lemma rejected_pending:
  "jm_get (br_pending (reject_pending pid ps s)) a =
     (if \<exists>p \<in> set ps. pe_providerId p = pid \<and> pe_actionId p = a then None else jm_get (br_pending s) a)"
  by (induction ps arbitrary: s) auto

lemma rejected_settled:
  "set (br_settled (reject_pending pid ps s)) =
     set (br_settled s) \<union> {(pe_ticket p, RejectedUnknown) | p. p \<in> set ps \<and> pe_providerId p = pid}"
  by (induction ps arbitrary: s) auto

lemma disconnect_pending:
  assumes ok: "effects_ok opts s" and t: "t < length (br_states s)" "\<not> ps_disconnected (state_of s t)"
  shows "jm_get (br_pending (disconnect t s)) a =
    (case jm_get (br_pending s) a of None \<Rightarrow> None | Some p \<Rightarrow> if pe_providerId p = ps_id (state_of s t) then None else Some p)"
proof -
  have "(\<exists>p \<in> set (jm_values (br_pending s)). pe_providerId p = pid \<and> pe_actionId p = a) \<longleftrightarrow>
      (\<exists>p. jm_get (br_pending s) a = Some p \<and> pe_providerId p = pid)" for pid
    using pending_values(2) [OF ok] ok unfolding effects_ok_def by (metis jm_values_iff)
  then show ?thesis
    using t by (auto simp: disconnect_def Let_def enqueue_def rejected_pending simp del: set_map split: option.split)
qed

lemma disconnect_settled:
  assumes ok: "effects_ok opts s" and t: "t < length (br_states s)" "\<not> ps_disconnected (state_of s t)"
    and p: "jm_get (br_pending s) a = Some p" "pe_providerId p = ps_id (state_of s t)"
  shows "(pe_ticket p, RejectedUnknown) \<in> set (br_settled (disconnect t s))"
proof -
  have "p \<in> set (jm_values (br_pending s))" using p(1) ok unfolding effects_ok_def by (metis jm_values_iff)
  then show ?thesis using t p(2) by (auto simp: disconnect_def Let_def enqueue_def rejected_settled simp del: set_map)
qed

lemma disconnect_states:
  assumes "t < length (br_states s)" "\<not> ps_disconnected (state_of s t)"
  shows "br_states (disconnect t s) = (br_states s)[t := (state_of s t)\<lparr>ps_connected := False, ps_disconnected := True\<rparr>]"
    "br_providers (disconnect t s) = br_providers s"
  using assms by (simp_all add: disconnect_def Let_def enqueue_def)

lemma disconnect_connections:
  assumes ok: "effects_ok opts s" "registry_ok opts s" "connections_ok s" shows "connections_ok (disconnect t s)"
proof (cases "length (br_states s) \<le> t \<or> ps_disconnected (state_of s t)")
  case True then show ?thesis using ok by (auto simp: disconnect_def)
next
  case False
  then have t: "t < length (br_states s)" "\<not> ps_disconnected (state_of s t)" by auto
  show ?thesis
    unfolding connections_ok_def
  proof (intro allI impI, elim conjE)
    fix pid u a p
    assume u: "jm_get (br_providers (disconnect t s)) pid = Some u" "\<not> ps_connected (state_of (disconnect t s) u)"
      and p: "jm_get (br_pending (disconnect t s)) a = Some p"
    from u(1) have up: "jm_get (br_providers s) pid = Some u" by (simp add: disconnect_states [OF t])
    with ok(2) have v: "u < length (br_states s)" "ps_id (br_states s ! u) = pid"
      unfolding registry_ok_def registry_core_def by blast+
    from p have q: "jm_get (br_pending s) a = Some p" "pe_providerId p \<noteq> ps_id (state_of s t)"
      by (simp_all add: disconnect_pending [OF ok(1) t] split: option.splits if_split_asm)
    show "pe_providerId p \<noteq> pid"
    proof (cases "u = t")
      case True then show ?thesis using q(2) v by (simp add: state_of_def)
    next
      case False
      then have "\<not> ps_connected (state_of s u)" using u(2) v by (simp add: state_of_def disconnect_states [OF t])
      with up q(1) ok(3) show ?thesis unfolding connections_ok_def by blast
    qed
  qed
qed

lemma dispatch_connections:
  assumes r: "registry_ok opts s" and c: "connections_ok s" shows "connections_ok (snd (dispatch opts i send_ok s))"
proof -
  have issue: "connections_ok (issue_effect opts i (ps_id (state_of s t)) s)"
    if "jm_get (br_providers s) pid = Some t" "ps_connected (state_of s t)" for pid t
    unfolding connections_ok_def
  proof (intro allI impI, elim conjE)
    fix pid' u a p
    assume u: "jm_get (br_providers (issue_effect opts i (ps_id (state_of s t)) s)) pid' = Some u"
        "\<not> ps_connected (state_of (issue_effect opts i (ps_id (state_of s t)) s) u)"
      and p: "jm_get (br_pending (issue_effect opts i (ps_id (state_of s t)) s)) a = Some p"
    have "t < length (br_states s) \<and> ps_id (br_states s ! t) = pid"
      using r that(1) unfolding registry_ok_def registry_core_def by blast
    then have "ps_id (state_of s t) = pid" by (simp add: state_of_def)
    moreover have "jm_get (br_providers s) pid' = Some u" "\<not> ps_connected (state_of s u)" using u by simp_all
    moreover have "pe_providerId p = ps_id (state_of s t) \<or> jm_get (br_pending s) a = Some p"
      using p by (simp add: pending_for_def split: if_split_asm) auto
    ultimately show "pe_providerId p \<noteq> pid'" using c that unfolding connections_ok_def by (metis option.inject)
  qed
  have fail: "connections_ok (answer_ticket n x (settle a s'))" if "connections_ok s'" for n x a s'
    by (rule connections_mono [OF that]) (auto split: if_split_asm)
  have sent: "connections_ok (x\<lparr>br_sent := y\<rparr>) = connections_ok x" for x y
    by (simp add: connections_ok_def state_of_def)
  show ?thesis
    using c by (auto simp: dispatch_def Let_def sent intro: issue fail split: option.split)
qed

text \<open>Jobs only take registrations away.\<close>

definition loses :: "broker \<Rightarrow> broker \<Rightarrow> bool" where
  "loses s s' \<longleftrightarrow> br_states s' = br_states s \<and>
     (\<forall>pid t. jm_get (br_providers s') pid = Some t \<longrightarrow> jm_get (br_providers s) pid = Some t)"

lemma loses_refl [simp]: "loses s s"
  by (simp add: loses_def)

lemma loses_finish: "loses s s' \<Longrightarrow> loses s (finish_job r s')"
  by (simp add: loses_def)

lemma loses_update:
  "loses s s' \<Longrightarrow> loses s (s'\<lparr>br_phase := p\<rparr>)" "loses s s' \<Longrightarrow> loses s (s'\<lparr>br_resources := m\<rparr>)"
  "loses s s' \<Longrightarrow> loses s (drop_resource r s')" "loses s s' \<Longrightarrow> loses s (fold drop_resource rs s')"
  "loses s s' \<Longrightarrow> loses s (s'\<lparr>br_providers := jm_delete pid (br_providers s')\<rparr>)"
proof -
  show drop: "loses s s' \<Longrightarrow> loses s (drop_resource r s')" for r s' by (simp add: loses_def drop_resource_def)
  show "loses s s' \<Longrightarrow> loses s (fold drop_resource rs s')" by (induction rs arbitrary: s') (simp_all add: drop)
qed (auto simp: loses_def split: if_split_asm)

lemma loses_cleanup: "loses s s' \<Longrightarrow> loses s (finish_cleanup t b s')"
  by (simp add: finish_cleanup_def loses_finish loses_update)

lemmas loses_intros = loses_refl loses_finish loses_update loses_cleanup

lemma job_loses: "loses s (job_starts opts s)" "loses s (job_answered opts a s)"
proof -
  have b: "loses s (upsert_before opts t r s)" "loses s (remove_before t tab g s)" "loses s (cleanup_before opts t s)" for t r tab g
    by (auto simp: upsert_before_def remove_before_def cleanup_before_def Let_def intro!: loses_intros split: option.split)
  have a: "loses s (upsert_after opts t r a s)" "loses s (remove_after opts tab a s)" for t r tab
    by (auto simp: upsert_after_def remove_after_def Let_def intro!: loses_intros split: callback_answer.split if_split)
  have c: "loses s (cleanup_after opts t p a s)" for t p
    by (cases "(opts, t, p, a, s)" rule: cleanup_after.cases) (auto simp: Let_def intro!: loses_intros)
  show "loses s (job_starts opts s)" using b by (simp add: job_starts_def split: list.split broker_job.split)
  show "loses s (job_answered opts a s)" using a c by (simp add: job_answered_def split: list.split broker_job.split)
qed

lemma loses_connections:
  assumes "connections_ok s" "loses s s'" "\<And>a p. jm_get (br_pending s') a = Some p \<Longrightarrow> jm_get (br_pending s) a = Some p"
  shows "connections_ok s'"
  using assms(1) by (rule connections_mono) (use assms(2,3) in \<open>auto simp: loses_def state_of_def\<close>)

lemma register_connections:
  assumes "connections_ok s" "registry_ok opts s" shows "connections_ok (snd (register opts pid s))"
  using assms(1)
proof (rule connections_mono)
  show "jm_get (br_pending (snd (register opts pid s))) a = Some p \<Longrightarrow> jm_get (br_pending s) a = Some p" for a p
    by (simp add: register_def Let_def split: if_split_asm)
  show "jm_get (br_providers s) q = Some t \<and> \<not> ps_connected (state_of s t)"
    if "jm_get (br_providers (snd (register opts pid s))) q = Some t" "\<not> ps_connected (state_of (snd (register opts pid s)) t)" for q t
    using that assms(2) by (auto simp: register_def Let_def state_of_def nth_append registry_ok_def registry_core_def split: if_split_asm)
qed

lemma step_connections:
  assumes ok: "effects_ok opts s" "registry_ok opts s" "connections_ok s"
  shows "connections_ok (broker_step opts e s)"
proof -
  have pend: "jm_get (br_pending x) a = Some p \<Longrightarrow> jm_get (br_pending y) a = Some p" if "effect_part x = effect_part y" for x y a p
    using that by (simp add: effect_part_def)
  have "loses s (request_job t j s)" for t j by (simp add: request_job_def enqueue_def loses_def)
  moreover have "loses s (ready s)"
  proof -
    have "br_states (fold (\<lambda>t. enqueue (CleanupJob t)) ts x) = br_states x \<and>
        br_providers (fold (\<lambda>t. enqueue (CleanupJob t)) ts x) = br_providers x" for ts x
      by (induction ts arbitrary: x) (simp_all add: enqueue_def)
    then show ?thesis by (simp add: loses_def ready_def)
  qed
  moreover have "loses s (snd (complete_effect t r s))" "loses s (timer_fires n s)" for t r n
    using effect_steps_registry(2) [of n s] effect_steps_registry(3) [of t r s] by (simp_all add: loses_def registry_part_def)
  moreover have "jm_get (br_pending (snd (complete_effect t r s))) a = Some p \<Longrightarrow> jm_get (br_pending s) a = Some p"
    "jm_get (br_pending (timer_fires n s)) a = Some p \<Longrightarrow> jm_get (br_pending s) a = Some p" for t r n a p
    by (auto simp: complete_effect_def timer_fires_def split: option.splits if_split_asm)
  moreover note same = loses_connections [OF ok(3)]
  ultimately show ?thesis
  proof (cases e)
    case (Upsert t r)
    then show ?thesis using \<open>\<And>t j. loses s (request_job t j s)\<close> by (auto intro: same pend [OF job_effects(3)])
  next
    case (Remove t tab g)
    then show ?thesis using \<open>\<And>t j. loses s (request_job t j s)\<close> by (auto intro: same pend [OF job_effects(3)])
  next
    case Ready
    then show ?thesis using \<open>loses s (ready s)\<close> by (auto intro: same pend [OF job_effects(4)])
  next
    case JobStarts
    then show ?thesis by (auto intro: same job_loses(1) pend [OF job_effects(1)])
  next
    case (JobAnswered a)
    then show ?thesis by (auto intro: same job_loses(2) pend [OF job_effects(2)])
  qed (auto intro: same register_connections [OF ok(3,2)] disconnect_connections [OF ok] dispatch_connections [OF ok(2,3)])
qed

lemma run_invariants: "effects_ok opts (broker_run opts es) \<and> registry_ok opts (broker_run opts es) \<and> connections_ok (broker_run opts es)"
proof (rule run_invariant)
  show "effects_ok opts broker_init \<and> registry_ok opts broker_init \<and> connections_ok broker_init"
    using effects_init registry_init by (simp add: connections_ok_def broker_init_def)
qed (blast intro: step_effects step_registry step_connections)
lemma disconnected_stays:
  assumes "t < length (br_states s) \<and> ps_disconnected (br_states s ! t)"
  shows "t < length (br_states (broker_step opts e s)) \<and> ps_disconnected (br_states (broker_step opts e s) ! t)"
proof -
  have part: "br_states x = br_states y" if "registry_part x = registry_part y" for x y using that by (simp add: registry_part_def)
  show ?thesis
  proof (cases e)
    case (Disconnect u)
    show ?thesis
      using assms disconnect_states(1) [of u s] unfolding Disconnect
      by (cases "length (br_states s) \<le> u \<or> ps_disconnected (state_of s u)")
        (auto simp: nth_list_update state_of_def, auto simp: disconnect_def state_of_def)
  next
    case Ready
    have "br_states (fold (\<lambda>t. enqueue (CleanupJob t)) ts x) = br_states x" for ts x
      by (induction ts arbitrary: x) (simp_all add: enqueue_def)
    then show ?thesis using assms Ready by (simp add: ready_def)
  qed (use assms job_loses [of s opts] part [OF effect_steps_registry(1)] part [OF effect_steps_registry(2)] part [OF effect_steps_registry(3)]
      in \<open>auto simp: register_def Let_def nth_append request_job_def enqueue_def loses_def\<close>)
qed

lemma disconnected_forever:
  "t < length (br_states s) \<and> ps_disconnected (br_states s ! t) \<Longrightarrow>
   t < length (br_states (fold (broker_step opts) es s)) \<and> ps_disconnected (br_states (fold (broker_step opts) es s) ! t)"
proof (induction es arbitrary: s)
  case (Cons e es)
  from Cons.IH [OF disconnected_stays [OF Cons.prems]] show ?case by simp
qed simp

lemma timer_settles:
  assumes ok: "effects_ok opts s" and p: "jm_get (br_pending s) a = Some p"
  shows "\<exists>t \<in> set (br_timers s). et_ticket t = pe_ticket p \<and> et_actionId t = a \<and> 1 \<le> et_delay t \<and> et_delay t \<le> max 1 (bo_maxTimeoutMs opts)"
    "br_settled (timer_fires (pe_ticket p) s) = br_settled s @ [(pe_ticket p, RejectedUnknown)]"
    "jm_get (br_pending (timer_fires (pe_ticket p) s)) a = None"
proof -
  have pa: "pe_actionId p = a" using ok p unfolding effects_ok_def by blast
  have "p \<in> set (jm_values (br_pending s))" using p ok unfolding effects_ok_def by (metis jm_values_iff)
  then have "(pe_ticket p, a) \<in># mset (map (\<lambda>p. (pe_ticket p, pe_actionId p)) (jm_values (br_pending s)))"
    using pa by (force simp del: map_map)
  then have "(pe_ticket p, a) \<in># mset (map (\<lambda>t. (et_ticket t, et_actionId t)) (br_timers s))"
    using ok unfolding effects_ok_def by simp
  then obtain t where t: "t \<in> set (br_timers s)" "et_ticket t = pe_ticket p" "et_actionId t = a" by auto
  with ok show "\<exists>t \<in> set (br_timers s). et_ticket t = pe_ticket p \<and> et_actionId t = a \<and> 1 \<le> et_delay t \<and> et_delay t \<le> max 1 (bo_maxTimeoutMs opts)"
    unfolding effects_ok_def by blast
  have one: "et_actionId u = a" if in_timers: "u \<in> set (br_timers s)" and same: "et_ticket u = pe_ticket p" for u
  proof -
    have "(et_ticket u, et_actionId u) \<in># mset (map (\<lambda>p. (pe_ticket p, pe_actionId p)) (jm_values (br_pending s)))"
      using ok in_timers unfolding effects_ok_def by (metis (mono_tags, lifting) image_eqI list.set_map set_mset_mset)
    then obtain q where q: "q \<in> set (jm_values (br_pending s))" "pe_ticket q = pe_ticket p" "pe_actionId q = et_actionId u"
      unfolding set_mset_mset list.set_map [of "\<lambda>p. (pe_ticket p, pe_actionId p)"] using same by (elim imageE) simp
    then have "jm_get (br_pending s) (et_actionId u) = Some q" using pending_values(2) [OF ok] by auto
    then show ?thesis using ticket_inj [OF ok p _ ] q(2) by metis
  qed
  obtain u where u: "find (\<lambda>t. et_ticket t = pe_ticket p) (br_timers s) = Some u"
    using t(1,2) by (cases "find (\<lambda>t. et_ticket t = pe_ticket p) (br_timers s)") (auto simp: find_None_iff)
  then have "et_actionId u = a" using one by (auto simp: find_Some_iff)
  then show "br_settled (timer_fires (pe_ticket p) s) = br_settled s @ [(pe_ticket p, RejectedUnknown)]"
    "jm_get (br_pending (timer_fires (pe_ticket p) s)) a = None"
    using u by (simp_all add: timer_fires_def)
qed

text \<open>
  C22. However registrations, dispatches, answers, timers, disconnects and the callbacks of resource changes interleave, the
  promise of a dispatched effect is resolved or rejected at most once, and every effect issued is either settled or pending; a
  pending effect has an armed timer of at most the configured delay, and when it fires the promise is rejected as unknown.
\<close>
theorem effects_settle_once:
  "let s = broker_run opts es in
     distinct (map fst (br_settled s)) \<and>
     (\<forall>n. n < br_issued s \<longleftrightarrow> n \<in> fst ` set (br_settled s) \<or> (\<exists>a p. jm_get (br_pending s) a = Some p \<and> pe_ticket p = n)) \<and>
     (\<forall>a p. jm_get (br_pending s) a = Some p \<longrightarrow> pe_ticket p \<notin> fst ` set (br_settled s) \<and>
        (\<exists>t \<in> set (br_timers s). et_ticket t = pe_ticket p \<and> et_delay t \<le> max 1 (bo_maxTimeoutMs opts)) \<and>
        br_settled (timer_fires (pe_ticket p) s) = br_settled s @ [(pe_ticket p, RejectedUnknown)])"
proof -
  let ?s = "broker_run opts es"
  have ok: "effects_ok opts ?s" using run_invariants by blast
  note t = effects_tickets [OF ok]
  have vals: "p \<in> set (jm_values (br_pending ?s)) \<longleftrightarrow> (\<exists>a. jm_get (br_pending ?s) a = Some p)" for p
    using ok unfolding effects_ok_def by (intro jm_values_iff) blast
  have "pe_ticket p \<notin> fst ` set (br_settled ?s)" if "jm_get (br_pending ?s) a = Some p" for a p
  proof -
    have "pe_ticket p \<in> set (map pe_ticket (jm_values (br_pending ?s)))"
      using vals that unfolding list.set_map [of pe_ticket] by blast
    with t(1) show ?thesis unfolding distinct_append list.set_map [of fst] by blast
  qed
  moreover have "n < br_issued ?s \<longleftrightarrow> n \<in> fst ` set (br_settled ?s) \<or> (\<exists>a p. jm_get (br_pending ?s) a = Some p \<and> pe_ticket p = n)" for n
  proof -
    have "n \<in> pe_ticket ` set (jm_values (br_pending ?s)) \<longleftrightarrow> (\<exists>a p. jm_get (br_pending ?s) a = Some p \<and> pe_ticket p = n)"
      using vals by blast
    with t(2) show ?thesis unfolding set_append list.set_map [of pe_ticket] list.set_map [of fst] by blast
  qed
  moreover have "distinct (map fst (br_settled ?s))" using t(1) by simp
  moreover have "\<exists>t \<in> set (br_timers ?s). et_ticket t = pe_ticket p \<and> et_delay t \<le> max 1 (bo_maxTimeoutMs opts)"
    if "jm_get (br_pending ?s) a = Some p" for a p using timer_settles(1) [OF ok that] by blast
  moreover note timer_settles(2) [OF ok]
  ultimately show ?thesis unfolding Let_def by (intro conjI allI impI)
qed

definition demo_tab :: tab_resource where
  "demo_tab = \<lparr>tr_kind = ''browser_tab'', tr_generation = 1, tr_tab = \<lparr>bi_id = ''t'', bi_projectRoot = ''/p'', bi_worktreeRoot = ''/p'',
     bi_providerId = ''d'', bi_webviewLabel = ''w'', bi_url = ''u'', bi_title = ''t'', bi_loading = False, bi_viewport = (1, 1)\<rparr>\<rparr>"

definition demo_dispatch :: "string \<Rightarrow> dispatch_input" where
  "demo_dispatch a = \<lparr>di_actionId = a, di_tabId = ''t'', di_generation = 1, di_operation = Inspect None, di_timeoutMs = 100000\<rparr>"

definition demo_events :: "broker_event list" where
  "demo_events = [Register ''d'', Upsert 0 demo_tab, JobStarts, JobAnswered CallbackVoid,
     Dispatch (demo_dispatch ''a'') True, Complete 0 (EffectSucceeded ''a'' None), Dispatch (demo_dispatch ''b'') True]"

definition demo_run :: broker where
  "demo_run = broker_run default_broker_options demo_events"

lemma demo_run_effects:
  "br_settled demo_run = [(0, Resolved (EffectSucceeded ''a'' None))] \<and> br_issued demo_run = 2 \<and>
   map_option pe_ticket (jm_get (br_pending demo_run) ''b'') = Some 1 \<and>
   map_option pe_providerId (jm_get (br_pending demo_run) ''b'') = Some ''d'' \<and>
   map_option et_delay (List.find (\<lambda>t. et_ticket t = 1) (br_timers demo_run)) = Some 60000 \<and>
   length (br_states demo_run) = 1 \<and> \<not> ps_disconnected (state_of demo_run 0) \<and> ps_id (state_of demo_run 0) = ''d''"
  by code_simp

lemma effects_settle_once_witness:
  "br_settled (timer_fires 1 demo_run) = [(0, Resolved (EffectSucceeded ''a'' None)), (1, RejectedUnknown)]"
proof -
  obtain p where p: "jm_get (br_pending demo_run) ''b'' = Some p" "pe_ticket p = 1"
    using demo_run_effects by (cases "jm_get (br_pending demo_run) ''b''") auto
  have "\<forall>a p. jm_get (br_pending demo_run) a = Some p \<longrightarrow>
      br_settled (timer_fires (pe_ticket p) demo_run) = br_settled demo_run @ [(pe_ticket p, RejectedUnknown)]"
    using effects_settle_once [of default_broker_options demo_events, folded demo_run_def] unfolding Let_def by blast
  with p demo_run_effects show ?thesis by (metis append.simps(1,2))
qed

text \<open>
  C23. In every run the tables of the broker agree and keep their limits: the tab table lists exactly the pending effects by
  their tab, so a tab has at most one effect in flight; registrations, tabs (in all and per provider) and pending effects
  stay within the configured numbers although other events come between an upsert's check and its insertion; and a
  registered provider that is no longer connected has no effect pending.
\<close>
theorem broker_tables_agree:
  "let s = broker_run opts es in
     (\<forall>tab a. jm_get (br_pendingByTab s) tab = Some a \<longleftrightarrow> (\<exists>p. jm_get (br_pending s) a = Some p \<and> pe_tabId p = tab)) \<and>
     length (br_providers s) \<le> bo_maxProviders opts \<and> length (br_pending s) \<le> bo_maxPending opts \<and>
     length (br_resources s) \<le> bo_maxResources opts \<and>
     (\<forall>pid. length (owned_resources pid s) \<le> bo_maxResourcesPerProvider opts) \<and>
     (\<forall>pid t a p. jm_get (br_providers s) pid = Some t \<and> \<not> ps_connected (state_of s t) \<and> jm_get (br_pending s) a = Some p \<longrightarrow>
        pe_providerId p \<noteq> pid)"
proof -
  let ?s = "broker_run opts es"
  have e: "effects_ok opts ?s" and r: "registry_core opts ?s" and c: "connections_ok ?s"
    using run_invariants unfolding registry_ok_def by blast+
  have "jm_get (br_pendingByTab ?s) tab = Some a \<longleftrightarrow> (\<exists>p. jm_get (br_pending ?s) a = Some p \<and> pe_tabId p = tab)" for tab a
    using e unfolding effects_ok_def by blast
  moreover have "length (br_pending ?s) \<le> bo_maxPending opts" using e unfolding effects_ok_def by blast
  ultimately show ?thesis
    using r c unfolding Let_def registry_core_def connections_ok_def owned_count by blast
qed

lemma broker_tables_agree_witness:
  "jm_get (br_pendingByTab demo_run) ''t'' = Some ''b''"
proof -
  obtain p where p: "jm_get (br_pending demo_run) ''b'' = Some p"
    using demo_run_effects by (cases "jm_get (br_pending demo_run) ''b''") auto
  moreover have "map_option pe_tabId (jm_get (br_pending demo_run) ''b'') = Some ''t''" by code_simp
  ultimately show ?thesis
    using broker_tables_agree [of default_broker_options demo_events, folded demo_run_def] unfolding Let_def by simp
qed

text \<open>
  C24. When a registration disconnects, every effect pending for its provider is rejected as unknown at once and the effects of
  other providers stay pending; whatever happens afterwards, an answer through that registration is refused and changes nothing.
\<close>
theorem disconnect_settles_and_silences:
  assumes "s = broker_run opts es" "t < length (br_states s)" "\<not> ps_disconnected (state_of s t)"
  shows "(\<forall>a p. jm_get (br_pending s) a = Some p \<longrightarrow>
      (if pe_providerId p = ps_id (state_of s t)
       then jm_get (br_pending (disconnect t s)) a = None \<and> (pe_ticket p, RejectedUnknown) \<in> set (br_settled (disconnect t s))
       else jm_get (br_pending (disconnect t s)) a = Some p)) \<and>
    (\<forall>es' answer. complete_effect t answer (fold (broker_step opts) es' (disconnect t s)) =
       (Inl ProviderUnavailable, fold (broker_step opts) es' (disconnect t s)))"
proof (intro conjI allI impI)
  have ok: "effects_ok opts s" using run_invariants assms(1) by blast
  fix a p assume p: "jm_get (br_pending s) a = Some p"
  show "if pe_providerId p = ps_id (state_of s t)
       then jm_get (br_pending (disconnect t s)) a = None \<and> (pe_ticket p, RejectedUnknown) \<in> set (br_settled (disconnect t s))
       else jm_get (br_pending (disconnect t s)) a = Some p"
    using disconnect_pending [OF ok assms(2,3), of a] disconnect_settled [OF ok assms(2,3) p] p by simp
next
  fix es' answer
  have "t < length (br_states (disconnect t s)) \<and> ps_disconnected (br_states (disconnect t s) ! t)"
    using assms(2) by (simp add: disconnect_states [OF assms(2,3)])
  from disconnected_forever [OF this, of opts es']
  have "ps_disconnected (state_of (fold (broker_step opts) es' (disconnect t s)) t)" by (simp add: state_of_def)
  then show "complete_effect t answer (fold (broker_step opts) es' (disconnect t s)) =
      (Inl ProviderUnavailable, fold (broker_step opts) es' (disconnect t s))"
    by (simp add: complete_effect_def live_registration)
qed

lemma disconnect_settles_and_silences_witness:
  "(1, RejectedUnknown) \<in> set (br_settled (disconnect 0 demo_run)) \<and> jm_get (br_pending (disconnect 0 demo_run)) ''b'' = None"
proof -
  obtain p where p: "jm_get (br_pending demo_run) ''b'' = Some p" "pe_ticket p = 1" "pe_providerId p = ps_id (state_of demo_run 0)"
    using demo_run_effects by (cases "jm_get (br_pending demo_run) ''b''") auto
  have "0 < length (br_states demo_run)" "\<not> ps_disconnected (state_of demo_run 0)" using demo_run_effects by auto
  from disconnect_settles_and_silences [OF demo_run_def this] p show ?thesis by metis
qed

text \<open>
  A cleanup removes the registration of its provider by name. When two cleanups of one registration are queued (its disconnect,
  and \<open>ready\<close>, which every control request awaits), a registration of the same name that comes between them is
  removed by the second one while it is connected.
\<close>

lemma stale_cleanup_removes_registration:
  "let s = broker_run (default_broker_options\<lparr>bo_removeResource := True\<rparr>)
       [Register ''d'', Disconnect 0, Ready, JobStarts, Register ''d'', JobStarts]
   in ps_connected (state_of s 1) \<and> \<not> ps_disconnected (state_of s 1) \<and> ps_id (state_of s 1) = ''d'' \<and> jm_get (br_providers s) ''d'' = None"
  by code_simp
end
