(* ===== verification/OwnerLock.thy ===== *)
theory OwnerLock
  imports Prelude
begin

text \<open>
  The lock that makes one process the owner of a project's control plane (\<open>src/src/control/ownerLock.ts\<close>). Processes
  run \<open>acquireOwnerLock\<close> concurrently on a shared directory; each of their file operations is one step, so a state
  is what the directory holds, where each process stands, and which processes have died. The random nonce of a process is the
  process itself. \<open>isProcessAlive\<close> and \<open>isReusedPid\<close> are environment: they may call a record stale only if the process
  that wrote it has died. \<open>rm\<close> of the lock directory is taken as one step, and the epoch file is read back as written
  (it is replaced atomically).
\<close>

section \<open>State and steps\<close>

record owner_record =
  ow_pid :: int
  ow_nonce :: nat
  ow_epoch :: nat

text \<open>The next operation of a process, with the locals it still needs.\<close>

datatype contender =
    MakesCandidate | WritesCandidate | RenamesCandidate | RemovesCandidate | ReadsRecord
  | MovesStale owner_record | RemovesStale
  | ReadsEpoch | WritesEpoch nat | WritesRecord nat | PublishesRecord nat | ReapsOrphans nat
  | Owns nat | ReleasesLock nat | Released | GaveUp

record lock_world =
  lw_lock :: "owner_record option"
  lw_candidates :: "nat set"
  lw_epoch :: "nat option"
  lw_dead :: "nat set"
  lw_at :: "nat \<Rightarrow> contender"
  lw_epochs :: "nat list"

text \<open>
  How an operation that depends on more than the directory turns out: it works, it fails with an error other than those
  the code expects, or the record that was read is judged stale.
\<close>

datatype turnout = Works | Fails | JudgedStale

definition goes :: "nat \<Rightarrow> contender \<Rightarrow> lock_world \<Rightarrow> lock_world" where
  "goes p c w = w\<lparr>lw_at := (lw_at w)(p := c)\<rparr>"

text \<open>The record a process with its own lock writes: the candidate's has epoch 0.\<close>

definition own_record :: "(nat \<Rightarrow> int) \<Rightarrow> nat \<Rightarrow> nat \<Rightarrow> owner_record" where
  "own_record pid_of p epoch = \<lparr>ow_pid = pid_of p, ow_nonce = p, ow_epoch = epoch\<rparr>"

definition acquire_failed :: "nat \<Rightarrow> lock_world \<Rightarrow> lock_world" where
  "acquire_failed p w = goes p GaveUp (w\<lparr>lw_lock := None\<rparr>)"

text \<open>\<open>careful\<close> restricts the runs to those in which nobody moves a lock other than the one whose record it read.\<close>

fun operate :: "bool \<Rightarrow> (nat \<Rightarrow> int) \<Rightarrow> nat \<Rightarrow> contender \<Rightarrow> turnout \<Rightarrow> lock_world \<Rightarrow> lock_world option" where
  "operate careful pid_of p MakesCandidate how w =
     (if how = Fails then Some (goes p GaveUp w)
      else Some (goes p WritesCandidate (w\<lparr>lw_candidates := insert p (lw_candidates w)\<rparr>)))"
| "operate careful pid_of p WritesCandidate how w =
     (if how = Fails \<or> p \<notin> lw_candidates w then Some (goes p GaveUp w) else Some (goes p RenamesCandidate w))"
| "operate careful pid_of p RenamesCandidate how w =
     (if how = Fails then Some (goes p GaveUp w)
      else if p \<notin> lw_candidates w then Some (goes p MakesCandidate w)
      else case lw_lock w of
        None \<Rightarrow> Some (goes p ReadsEpoch (w\<lparr>lw_lock := Some (own_record pid_of p 0), lw_candidates := lw_candidates w - {p}\<rparr>))
      | Some _ \<Rightarrow> Some (goes p RemovesCandidate w))"
| "operate careful pid_of p RemovesCandidate how w =
     (if how = Fails then Some (goes p GaveUp w)
      else Some (goes p ReadsRecord (w\<lparr>lw_candidates := lw_candidates w - {p}\<rparr>)))"
| "operate careful pid_of p ReadsRecord how w =
     (case lw_lock w of
        None \<Rightarrow> Some (goes p GaveUp w)
      | Some r \<Rightarrow>
         if how = JudgedStale then (if ow_nonce r \<in> lw_dead w then Some (goes p (MovesStale r) w) else None)
         else Some (goes p GaveUp w))"
| "operate careful pid_of p (MovesStale r) how w =
     (if how = Fails then Some (goes p GaveUp w)
      else case lw_lock w of
        None \<Rightarrow> Some (goes p MakesCandidate w)
      | Some r' \<Rightarrow>
         if careful \<and> ow_nonce r' \<noteq> ow_nonce r then None
         else Some (goes p RemovesStale (w\<lparr>lw_lock := None\<rparr>)))"
| "operate careful pid_of p RemovesStale how w =
     (if how = Fails then Some (goes p GaveUp w) else Some (goes p MakesCandidate w))"
| "operate careful pid_of p ReadsEpoch how w =
     Some (goes p (WritesEpoch (case lw_epoch w of None \<Rightarrow> 0 | Some n \<Rightarrow> n)) w)"
| "operate careful pid_of p (WritesEpoch n) how w =
     (if how = Fails then Some (acquire_failed p w)
      else Some (goes p (WritesRecord (Suc n)) (w\<lparr>lw_epoch := Some (Suc n), lw_epochs := lw_epochs w @ [Suc n]\<rparr>)))"
| "operate careful pid_of p (WritesRecord n) how w =
     (if how = Fails \<or> lw_lock w = None then Some (acquire_failed p w) else Some (goes p (PublishesRecord n) w))"
| "operate careful pid_of p (PublishesRecord n) how w =
     (case lw_lock w of
        None \<Rightarrow> Some (acquire_failed p w)
      | Some r \<Rightarrow>
         if how = Fails \<or> ow_nonce r \<noteq> p then Some (acquire_failed p w)
         else Some (goes p (ReapsOrphans n) (w\<lparr>lw_lock := Some (own_record pid_of p n)\<rparr>)))"
| "operate careful pid_of p (ReapsOrphans n) how w =
     (if how = Fails then Some (goes p GaveUp w)
      else Some (goes p (Owns n) (w\<lparr>lw_candidates := lw_candidates w \<inter> {p}\<rparr>)))"
| "operate careful pid_of p (Owns n) how w =
     (case lw_lock w of
        None \<Rightarrow> Some (goes p Released w)
      | Some r \<Rightarrow> Some (goes p (if how \<noteq> Fails \<and> ow_nonce r = p then ReleasesLock n else Released) w))"
| "operate careful pid_of p (ReleasesLock n) how w = Some (goes p Released (w\<lparr>lw_lock := None\<rparr>))"
| "operate careful pid_of p Released how w = None"
| "operate careful pid_of p GaveUp how w = None"
text \<open>A run starts without a lock or with the lock of a process that died.\<close>

inductive lock_run :: "bool \<Rightarrow> (nat \<Rightarrow> int) \<Rightarrow> lock_world \<Rightarrow> bool" for careful pid_of where
  run_start: "\<lbrakk>lw_at w = (\<lambda>p. MakesCandidate); lw_epochs w = []; \<forall>r. lw_lock w = Some r \<longrightarrow> ow_nonce r \<in> lw_dead w\<rbrakk>
    \<Longrightarrow> lock_run careful pid_of w"
| run_operate: "\<lbrakk>lock_run careful pid_of w; p \<notin> lw_dead w; operate careful pid_of p (lw_at w p) how w = Some w'\<rbrakk>
    \<Longrightarrow> lock_run careful pid_of w'"
| run_dies: "lock_run careful pid_of w \<Longrightarrow> lock_run careful pid_of (w\<lparr>lw_dead := insert p (lw_dead w)\<rparr>)"

text \<open>From the rename that wins until the lock is given up; \<open>epoch_at\<close> once it has its epoch.\<close>

fun holds_lock :: "contender \<Rightarrow> bool" where
  "holds_lock ReadsEpoch = True"
| "holds_lock (WritesEpoch n) = True"
| "holds_lock (WritesRecord n) = True"
| "holds_lock (PublishesRecord n) = True"
| "holds_lock (ReapsOrphans n) = True"
| "holds_lock (Owns n) = True"
| "holds_lock (ReleasesLock n) = True"
| "holds_lock c = False"

fun epoch_at :: "contender \<Rightarrow> nat option" where
  "epoch_at (WritesRecord n) = Some n"
| "epoch_at (PublishesRecord n) = Some n"
| "epoch_at (ReapsOrphans n) = Some n"
| "epoch_at (Owns n) = Some n"
| "epoch_at (ReleasesLock n) = Some n"
| "epoch_at c = None"

definition lock_inv :: "lock_world \<Rightarrow> bool" where
  "lock_inv w \<longleftrightarrow>
    (\<forall>p. p \<notin> lw_dead w \<and> holds_lock (lw_at w p) \<longrightarrow> (\<exists>r. lw_lock w = Some r \<and> ow_nonce r = p)) \<and>
    (\<forall>p r. lw_at w p = MovesStale r \<longrightarrow> ow_nonce r \<in> lw_dead w)"

definition epoch_inv :: "lock_world \<Rightarrow> bool" where
  "epoch_inv w \<longleftrightarrow>
    sorted_wrt (<) (lw_epochs w) \<and> (lw_epochs w \<noteq> [] \<longrightarrow> lw_epoch w = Some (last (lw_epochs w))) \<and>
    (\<forall>p n. p \<notin> lw_dead w \<and> lw_at w p = WritesEpoch n \<longrightarrow> n = (case lw_epoch w of None \<Rightarrow> 0 | Some m \<Rightarrow> m)) \<and>
    (\<forall>p n. p \<notin> lw_dead w \<and> epoch_at (lw_at w p) = Some n \<longrightarrow> lw_epochs w \<noteq> [] \<and> n = last (lw_epochs w))"

lemma goes_fields [simp]:
  "lw_lock (goes p c w) = lw_lock w" "lw_candidates (goes p c w) = lw_candidates w" "lw_epoch (goes p c w) = lw_epoch w"
  "lw_dead (goes p c w) = lw_dead w" "lw_epochs (goes p c w) = lw_epochs w" "lw_at (goes p c w) q = (if q = p then c else lw_at w q)"
  by (simp_all add: goes_def)

lemma acquire_failed_fields [simp]:
  "lw_lock (acquire_failed p w) = None" "lw_epoch (acquire_failed p w) = lw_epoch w" "lw_dead (acquire_failed p w) = lw_dead w"
  "lw_epochs (acquire_failed p w) = lw_epochs w" "lw_at (acquire_failed p w) q = (if q = p then GaveUp else lw_at w q)"
  by (simp_all add: acquire_failed_def)

text \<open>A step by which the lock stays, or is taken when free, or is given up by its owner or taken from a dead one.\<close>

lemma one_holder:
  assumes "lock_inv w" "p \<notin> lw_dead w" "q \<notin> lw_dead w" "holds_lock (lw_at w p)" "holds_lock (lw_at w q)" shows "p = q"
  using assms unfolding lock_inv_def by (metis option.inject)

lemma moves_inv:
  assumes i: "lock_inv w" and p: "p \<notin> lw_dead w"
    and e: "lw_dead w' = lw_dead w" "\<And>q. lw_at w' q = (if q = p then c else lw_at w q)"
    and s: "\<And>r. c = MovesStale r \<Longrightarrow> ow_nonce r \<in> lw_dead w"
    and l: "lw_lock w' = lw_lock w \<and> (holds_lock c \<longrightarrow> holds_lock (lw_at w p)) \<or>
       (\<exists>r. lw_lock w' = Some r \<and> ow_nonce r = p) \<and> (lw_lock w = None \<or> holds_lock (lw_at w p)) \<or>
       lw_lock w' = None \<and> \<not> holds_lock c \<and> (holds_lock (lw_at w p) \<or> (\<exists>r. lw_lock w = Some r \<and> ow_nonce r \<in> lw_dead w))"
  shows "lock_inv w'"
proof -
  have stale: "ow_nonce r \<in> lw_dead w'" if "lw_at w' q = MovesStale r" for q r
    using that i s e unfolding lock_inv_def by (metis (full_types))
  have "\<exists>r. lw_lock w' = Some r \<and> ow_nonce r = q" if q: "q \<notin> lw_dead w" "holds_lock (lw_at w' q)" for q
  proof (cases "q = p")
    case True
    then have "holds_lock c" using q(2) e(2) by simp
    with l i p show ?thesis unfolding lock_inv_def True by metis
  next
    case False
    then have h: "holds_lock (lw_at w q)" using q(2) e(2) by simp
    then obtain r where "lw_lock w = Some r" "ow_nonce r = q" using i q(1) unfolding lock_inv_def by blast
    with l one_holder [OF i q(1) p h] False q(1) show ?thesis by auto
  qed
  with stale e(1) show ?thesis unfolding lock_inv_def by blast
qed

lemma operate_lock_inv:
  assumes i: "lock_inv w" and p: "p \<notin> lw_dead w" and o: "operate True pid_of p (lw_at w p) how w = Some w'"
  shows "lock_inv w'"
proof -
  note m = moves_inv [OF i p]
  have own: "\<exists>r. lw_lock w = Some r \<and> ow_nonce r = p" if "holds_lock (lw_at w p)" using that i p unfolding lock_inv_def by blast
  show ?thesis
  proof (cases "lw_at w p")
    case (MovesStale r)
    then have d: "ow_nonce r \<in> lw_dead w" using i unfolding lock_inv_def by blast
    show ?thesis
      using o d unfolding MovesStale
      by (auto split: if_split_asm option.splits intro!: m)
  qed (use o own in \<open>auto simp: own_record_def split: if_split_asm option.splits intro!: m\<close>)
qed
lemma sorted_last: "sorted_wrt (<) xs \<Longrightarrow> x \<in> set xs \<Longrightarrow> x \<le> (last xs :: nat)"
  by (induction xs) (auto simp: less_imp_le dest: last_in_set)

lemma epochs_kept:
  assumes e: "epoch_inv w" and p: "p \<notin> lw_dead w"
    and c: "lw_dead w' = lw_dead w" "lw_epochs w' = lw_epochs w" "lw_epoch w' = lw_epoch w"
      "\<And>q. lw_at w' q = (if q = p then c else lw_at w q)" "epoch_at c = None \<or> epoch_at c = epoch_at (lw_at w p)"
      "\<And>n. c = WritesEpoch n \<Longrightarrow> n = (case lw_epoch w of None \<Rightarrow> 0 | Some m \<Rightarrow> m)"
  shows "epoch_inv w'"
  unfolding epoch_inv_def
proof (intro conjI allI impI)
  show "sorted_wrt (<) (lw_epochs w')" "lw_epochs w' \<noteq> [] \<Longrightarrow> lw_epoch w' = Some (last (lw_epochs w'))"
    using c(2,3) e unfolding epoch_inv_def by simp_all
  show "n = (case lw_epoch w' of None \<Rightarrow> 0 | Some m \<Rightarrow> m)" if "q \<notin> lw_dead w' \<and> lw_at w' q = WritesEpoch n" for q n
    using that c e unfolding epoch_inv_def by (cases "q = p") auto
  fix q n assume q: "q \<notin> lw_dead w' \<and> epoch_at (lw_at w' q) = Some n"
  then have "q \<notin> lw_dead w \<and> epoch_at (lw_at w q) = Some n" using c by (cases "q = p") auto
  then show "lw_epochs w' \<noteq> []" "n = last (lw_epochs w')" using c(2) e unfolding epoch_inv_def by auto
qed

lemma operate_epoch_inv:
  assumes i: "lock_inv w" and e: "epoch_inv w" and p: "p \<notin> lw_dead w"
    and o: "operate careful pid_of p (lw_at w p) how w = Some w'"
  shows "epoch_inv w'"
proof -
  note same = epochs_kept [OF e p]
  show ?thesis
  proof (cases "\<exists>n. lw_at w p = WritesEpoch n \<and> how \<noteq> Fails")
    case True
    then obtain n where n: "lw_at w p = WritesEpoch n" "how \<noteq> Fails" by blast
    then have w': "w' = goes p (WritesRecord (Suc n)) (w\<lparr>lw_epoch := Some (Suc n), lw_epochs := lw_epochs w @ [Suc n]\<rparr>)" using o by simp
    have alone: "\<not> holds_lock (lw_at w q)" if "q \<noteq> p" "q \<notin> lw_dead w" for q
      using one_holder [OF i that(2) p] that(1) n(1) by auto
    have h: "\<not> holds_lock c \<Longrightarrow> epoch_at c = None \<and> (\<forall>m. c \<noteq> WritesEpoch m)" for c by (cases c) simp_all
    have "n = (case lw_epoch w of None \<Rightarrow> 0 | Some m \<Rightarrow> m)" using e n(1) p unfolding epoch_inv_def by blast
    then have "lw_epochs w \<noteq> [] \<longrightarrow> n = last (lw_epochs w)" using e unfolding epoch_inv_def by auto
    moreover have "\<forall>x \<in> set (lw_epochs w). x \<le> last (lw_epochs w)"
      using sorted_last e unfolding epoch_inv_def by blast
    ultimately have "sorted_wrt (<) (lw_epochs w @ [Suc n])"
      using e unfolding epoch_inv_def by (auto simp: sorted_wrt_append le_imp_less_Suc)
    then show ?thesis using alone h p unfolding w' epoch_inv_def by auto
  next
    case False
    show ?thesis
      using o False by (cases "lw_at w p") (auto split: if_split_asm option.splits intro!: same)
  qed
qed

lemma lock_run_inv: "lock_run True pid_of w \<Longrightarrow> lock_inv w \<and> epoch_inv w"
proof (induction rule: lock_run.induct)
  case (run_start w)
  then show ?case by (auto simp: lock_inv_def epoch_inv_def)
next
  case (run_operate w p how w')
  then show ?case using operate_lock_inv operate_epoch_inv by blast
next
  case (run_dies w p)
  then show ?case unfolding lock_inv_def epoch_inv_def by simp blast
qed


text \<open>Driving the processes: the steps of a run as a list.\<close>

fun drive :: "bool \<Rightarrow> (nat \<Rightarrow> int) \<Rightarrow> (nat \<times> turnout) list \<Rightarrow> lock_world \<Rightarrow> lock_world option" where
  "drive careful pid_of [] w = Some w"
| "drive careful pid_of ((p, how) # xs) w =
     (if p \<in> lw_dead w then None
      else case operate careful pid_of p (lw_at w p) how w of None \<Rightarrow> None | Some w' \<Rightarrow> drive careful pid_of xs w')"

lemma drive_run: "lock_run careful pid_of w \<Longrightarrow> drive careful pid_of xs w = Some w' \<Longrightarrow> lock_run careful pid_of w'"
  by (induction xs arbitrary: w) (auto split: if_split_asm option.splits, metis run_operate)

text \<open>A lock that its owner, process 0, left behind when it died.\<close>

definition abandoned_lock :: lock_world where
  "abandoned_lock = \<lparr>lw_lock = Some (own_record int 0 7), lw_candidates = {}, lw_epoch = Some 7, lw_dead = {0},
     lw_at = (\<lambda>p. MakesCandidate), lw_epochs = []\<rparr>"

lemma abandoned_run: "lock_run careful pid_of abandoned_lock"
  by (rule run_start) (simp_all add: abandoned_lock_def own_record_def)

definition finds_stale :: "nat \<Rightarrow> (nat \<times> turnout) list" where
  "finds_stale p = [(p, Works), (p, Works), (p, Works), (p, Works), (p, JudgedStale)]"

definition takes_over :: "nat \<Rightarrow> (nat \<times> turnout) list" where
  "takes_over p = replicate 10 (p, Works)"


text \<open>
  Without the restriction it fails: two processes read the record of the dead owner, the first takes the lock over, and the
  second then moves the first one's lock away as the stale one.
\<close>

lemma stale_takeover_race:
  "\<exists>w. lock_run False int w \<and> 1 \<notin> lw_dead w \<and> 2 \<notin> lw_dead w \<and> lw_at w 1 = Owns 8 \<and> lw_at w 2 = Owns 9"
proof -
  obtain w where w: "drive False int (finds_stale 1 @ finds_stale 2 @ takes_over 1 @ takes_over 2) abandoned_lock = Some w"
      and o: "lw_at w 1 = Owns 8 \<and> lw_at w 2 = Owns 9 \<and> 1 \<notin> lw_dead w \<and> 2 \<notin> lw_dead w"
    by (simp add: finds_stale_def takes_over_def abandoned_lock_def own_record_def goes_def eval_nat_numeral)
  with drive_run [OF abandoned_run w] show ?thesis by blast
qed
end
