(* ===== verification/OrchestrationPlan.thy ===== *)
theory OrchestrationPlan
  imports OperationIdentity
begin

text \<open>
  Planning an orchestration task (\<open>src/src/orchestration/planner.ts\<close>): the request is an untrusted value, the plan holds
  what the lanes run with. The file system and \<open>git\<close> are an environment: what \<open>realpath\<close> gives, which paths are
  directories, and what the \<open>git\<close> commands answer. Errors are their codes.
\<close>

section \<open>Paths\<close>

text \<open>\<open>path.resolve\<close> and \<open>path.relative\<close> of the POSIX flavour, on the segments between slashes.\<close>

definition path_segments :: "string \<Rightarrow> string list" where
  "path_segments p = filter (\<lambda>s. s \<noteq> []) (split_on (CHR ''/'') p)"

definition join_slash :: "string list \<Rightarrow> string" where
  "join_slash ss = (case ss of [] \<Rightarrow> [] | s # ss' \<Rightarrow> s @ concat (map (\<lambda>t. CHR ''/'' # t) ss'))"

fun normalize_segments :: "string list \<Rightarrow> string list \<Rightarrow> string list" where
  "normalize_segments acc [] = acc"
| "normalize_segments acc (s # ss) =
     (if s = ''.'' then normalize_segments acc ss
      else if s = ''..'' then normalize_segments (butlast acc) ss
      else normalize_segments (acc @ [s]) ss)"

definition is_absolute :: "string \<Rightarrow> bool" where
  "is_absolute p \<longleftrightarrow> p \<noteq> [] \<and> hd p = CHR ''/''"

definition resolved_segments :: "string \<Rightarrow> string \<Rightarrow> string list" where
  "resolved_segments cwd p =
    normalize_segments [] (if is_absolute p then path_segments p else path_segments cwd @ path_segments p)"

definition path_resolve :: "string \<Rightarrow> string \<Rightarrow> string" where
  "path_resolve cwd p = CHR ''/'' # join_slash (resolved_segments cwd p)"

definition path_resolve_from :: "string \<Rightarrow> string \<Rightarrow> string \<Rightarrow> string" where
  "path_resolve_from cwd root p = path_resolve (path_resolve cwd root) p"

fun drop_common :: "'a list \<Rightarrow> 'a list \<Rightarrow> 'a list \<times> 'a list" where
  "drop_common (x # xs) (y # ys) = (if x = y then drop_common xs ys else (x # xs, y # ys))"
| "drop_common xs ys = (xs, ys)"

definition path_relative :: "string \<Rightarrow> string \<Rightarrow> string \<Rightarrow> string" where
  "path_relative cwd from_path to_path =
    (case drop_common (resolved_segments cwd from_path) (resolved_segments cwd to_path) of
       (up, down) \<Rightarrow> join_slash (map (\<lambda>_. ''..'') up @ down))"

section \<open>The environment and the plan\<close>

record plan_env =
  pe_cwd :: string
  pe_realpath :: "string \<Rightarrow> string option"
  pe_is_directory :: "string \<Rightarrow> bool"
  pe_git_branch_name :: "string \<Rightarrow> bool"
  pe_git_commit_exists :: "string \<Rightarrow> string \<Rightarrow> bool"
  pe_worktree_list :: "string \<Rightarrow> string option"
  pe_worktree_branch :: "string \<Rightarrow> string option"

datatype lane_mode = IsolatedWorktree | SharedWorktree | TerminalMode | CovenSession

record existing_worktree =
  ew_slug :: string
  ew_worktreePath :: string
  ew_branchName :: string

record merge_target =
  mt_branchName :: string
  mt_displayName :: "string option"
  mt_slug :: "string option"
  mt_worktreePath :: "string option"

record task_fields =
  tf_taskId :: string
  tf_traceId :: string
  tf_operationId :: string
  tf_projectRoot :: string
  tf_cwd :: string
  tf_prompt :: string
  tf_title :: "string option"
  tf_startPointBranch :: "string option"
  tf_mergeTargetChain :: "merge_target list option"

record lane_plan =
  lp_id :: string
  lp_mode :: lane_mode
  lp_agent :: "string option"
  lp_harness :: "string option"
  lp_existingWorktree :: "existing_worktree option"
  lp_permissionMode :: "string option"
  lp_index :: nat
  lp_task :: task_fields

record task_plan =
  tp_task :: task_fields
  tp_concurrency :: nat
  tp_lanes :: "lane_plan list"

section \<open>Normalising a request\<close>

type_synonym 'a planned = "(orchestration_error, 'a) result"

abbreviation invalid_request :: "'a planned" where
  "invalid_request \<equiv> Inl InvalidOrchestrationRequest"

text \<open>\<open>value?.key\<close> of a data value.\<close>

definition js_prop :: "'b jsval \<Rightarrow> string \<Rightarrow> 'b jsval" where
  "js_prop v k = (case v of JsObj ms \<Rightarrow> js_get ms k | _ \<Rightarrow> JsUndef)"

definition normalize_required_string :: "'b jsval \<Rightarrow> string planned" where
  "normalize_required_string v =
    (case v of JsStr s \<Rightarrow> (if js_trim s = [] then invalid_request else Inr (js_trim s)) | _ \<Rightarrow> invalid_request)"

definition normalize_optional_string :: "'b jsval \<Rightarrow> string option planned" where
  "normalize_optional_string v =
    (case v of
       JsUndef \<Rightarrow> Inr None
     | JsStr s \<Rightarrow> Inr (if js_trim s = [] then None else Some (js_trim s))
     | _ \<Rightarrow> invalid_request)"

definition normalize_request_trace_id :: "'b jsval \<Rightarrow> string \<Rightarrow> string planned" where
  "normalize_request_trace_id v taskId =
    (case v of
       JsUndef \<Rightarrow> Inr taskId
     | JsStr s \<Rightarrow> Inr (if js_trim s = [] then taskId else js_trim s)
     | _ \<Rightarrow> invalid_request)"

definition MAX_ORCHESTRATION_CONCURRENCY :: nat where "MAX_ORCHESTRATION_CONCURRENCY = 4"

definition normalize_concurrency :: "'b jsval \<Rightarrow> nat \<Rightarrow> nat planned" where
  "normalize_concurrency v laneCount =
    (case v of
       JsUndef \<Rightarrow> (if laneCount = 0 then invalid_request else Inr (min laneCount MAX_ORCHESTRATION_CONCURRENCY))
     | JsInt i \<Rightarrow> (if i \<le> 0 then invalid_request else Inr (min (nat i) (min laneCount MAX_ORCHESTRATION_CONCURRENCY)))
     | _ \<Rightarrow> invalid_request)"

definition safe_branch_char :: "char \<Rightarrow> bool" where
  "safe_branch_char c \<longleftrightarrow> (let n = (of_char c :: nat) in
     48 \<le> n \<and> n \<le> 57 \<or> 65 \<le> n \<and> n \<le> 90 \<or> 97 \<le> n \<and> n \<le> 122) \<or> c \<in> set ''._/-''"

definition is_valid_branch_name :: "string \<Rightarrow> bool" where
  "is_valid_branch_name s \<longleftrightarrow> s = [] \<or> list_all safe_branch_char s \<and> \<not> sublist ''..'' s"

definition validate_branch_name :: "plan_env \<Rightarrow> string \<Rightarrow> string planned" where
  "validate_branch_name env s = throw_if (\<not> is_valid_branch_name s \<or> \<not> pe_git_branch_name env s) InvalidOrchestrationRequest (Inr s)"

definition normalize_required_branch_name :: "plan_env \<Rightarrow> 'b jsval \<Rightarrow> string planned" where
  "normalize_required_branch_name env v = and_then (normalize_required_string v) (validate_branch_name env)"

definition normalize_optional_branch_name :: "plan_env \<Rightarrow> 'b jsval \<Rightarrow> string option planned" where
  "normalize_optional_branch_name env v = and_then (normalize_optional_string v)
     (\<lambda>s. case s of None \<Rightarrow> Inr None | Some b \<Rightarrow> and_then (validate_branch_name env b) (\<lambda>b. Inr (Some b)))"

definition resolve_existing_directory_path :: "plan_env \<Rightarrow> string \<Rightarrow> string planned" where
  "resolve_existing_directory_path env p =
    (case pe_realpath env p of
       None \<Rightarrow> invalid_request
     | Some canonical \<Rightarrow> throw_if (\<not> pe_is_directory env canonical) InvalidOrchestrationRequest (Inr canonical))"

definition is_path_inside_or_equal :: "string \<Rightarrow> string \<Rightarrow> string \<Rightarrow> bool" where
  "is_path_inside_or_equal cwd parent child \<longleftrightarrow>
    (let relative = path_relative cwd parent child in relative = [] \<or> \<not> prefix ''..'' relative \<and> \<not> is_absolute relative)"

definition resolve_project_contained_path :: "plan_env \<Rightarrow> string \<Rightarrow> string \<Rightarrow> string planned" where
  "resolve_project_contained_path env root p =
    and_then (resolve_existing_directory_path env (path_resolve_from (pe_cwd env) root p)) (\<lambda>canonical.
      throw_if (\<not> is_path_inside_or_equal (pe_cwd env) root canonical) ProjectScopeViolation (Inr canonical))"

definition normalize_project_root :: "plan_env \<Rightarrow> 'b jsval \<Rightarrow> string planned" where
  "normalize_project_root env v = and_then (normalize_required_string v)
     (\<lambda>s. resolve_existing_directory_path env (path_resolve (pe_cwd env) s))"

definition resolve_scoped_cwd :: "plan_env \<Rightarrow> string \<Rightarrow> 'b jsval \<Rightarrow> string planned" where
  "resolve_scoped_cwd env root v = and_then (normalize_optional_string v)
     (\<lambda>s. case s of None \<Rightarrow> Inr root | Some p \<Rightarrow> resolve_project_contained_path env root p)"
section \<open>Worktrees, lanes and the plan\<close>

text \<open>\<open>execFileSync\<close> gives the output of \<open>git worktree list\<close>; a path that cannot be resolved any more is kept as listed.\<close>

definition worktree_prefix :: string where "worktree_prefix = ''worktree ''"

definition canonical_git_worktree_paths :: "plan_env \<Rightarrow> string \<Rightarrow> string list planned" where
  "canonical_git_worktree_paths env root =
    (case pe_worktree_list env root of
       None \<Rightarrow> invalid_request
     | Some raw \<Rightarrow>
        Inr (concat (map (\<lambda>line.
          if \<not> prefix worktree_prefix line then []
          else let listed = js_trim (drop (length worktree_prefix) line) in
            if listed = [] then []
            else [case pe_realpath env listed of None \<Rightarrow> path_resolve (pe_cwd env) listed | Some p \<Rightarrow> p])
         (split_on (CHR 0x0A) raw))))"

definition assert_existing_worktree_branch :: "plan_env \<Rightarrow> string \<Rightarrow> string \<Rightarrow> string \<Rightarrow> unit planned" where
  "assert_existing_worktree_branch env root worktreePath branchName =
    and_then (canonical_git_worktree_paths env root) (\<lambda>paths.
      throw_if (worktreePath \<notin> set paths) InvalidOrchestrationRequest
        (case pe_worktree_branch env worktreePath of
           None \<Rightarrow> invalid_request
         | Some out \<Rightarrow> throw_if (js_trim out \<noteq> branchName) InvalidOrchestrationRequest (Inr ())))"

text \<open>\<open>!value || typeof value !== 'object'\<close>: an array passes and has none of the members.\<close>

definition is_object_value :: "'b jsval \<Rightarrow> bool" where
  "is_object_value v = (case v of JsObj ms \<Rightarrow> True | JsArr xs \<Rightarrow> True | _ \<Rightarrow> False)"

definition normalize_existing_worktree_ref :: "plan_env \<Rightarrow> string \<Rightarrow> 'b jsval \<Rightarrow> existing_worktree option planned" where
  "normalize_existing_worktree_ref env root v =
    (case v of
       JsUndef \<Rightarrow> Inr None
     | _ \<Rightarrow>
        throw_if (\<not> is_object_value v) InvalidOrchestrationRequest
        (and_then (normalize_required_branch_name env (js_prop v ''branchName'')) (\<lambda>branch.
         and_then (normalize_required_string (js_prop v ''worktreePath'')) (\<lambda>raw.
         and_then (resolve_project_contained_path env root raw) (\<lambda>path.
         and_then (assert_existing_worktree_branch env root path branch) (\<lambda>_.
         and_then (normalize_required_string (js_prop v ''slug'')) (\<lambda>slug.
           Inr (Some \<lparr>ew_slug = slug, ew_worktreePath = path, ew_branchName = branch\<rparr>))))))))"

definition SUPPORTED_PERMISSION_MODES :: "string list" where
  "SUPPORTED_PERMISSION_MODES = [[], ''plan'', ''acceptEdits'', ''bypassPermissions'']"

definition normalize_permission_mode :: "'b jsval \<Rightarrow> string option planned" where
  "normalize_permission_mode v =
    (case v of
       JsUndef \<Rightarrow> Inr None
     | JsStr s \<Rightarrow> throw_if (js_trim s \<notin> set SUPPORTED_PERMISSION_MODES) InvalidOrchestrationRequest (Inr (Some (js_trim s)))
     | _ \<Rightarrow> invalid_request)"

definition normalize_merge_target_reference :: "plan_env \<Rightarrow> string \<Rightarrow> 'b jsval \<Rightarrow> merge_target planned" where
  "normalize_merge_target_reference env root v =
    throw_if (\<not> is_object_value v) InvalidOrchestrationRequest
     (and_then (normalize_required_string (js_prop v ''branchName'')) (\<lambda>branch.
      and_then (normalize_optional_string (js_prop v ''displayName'')) (\<lambda>display.
      and_then (normalize_optional_string (js_prop v ''slug'')) (\<lambda>slug.
      and_then (normalize_optional_string (js_prop v ''worktreePath'')) (\<lambda>raw.
      and_then (validate_branch_name env branch) (\<lambda>branch.
      and_then (case raw of None \<Rightarrow> Inr None
          | Some p \<Rightarrow> and_then (resolve_project_contained_path env root p) (\<lambda>q. Inr (Some q))) (\<lambda>path.
        Inr \<lparr>mt_branchName = branch, mt_displayName = display, mt_slug = slug, mt_worktreePath = path\<rparr>)))))))"

definition normalize_merge_target_chain :: "plan_env \<Rightarrow> string \<Rightarrow> 'b jsval \<Rightarrow> merge_target list option planned" where
  "normalize_merge_target_chain env root v =
    (case v of
       JsUndef \<Rightarrow> Inr None
     | JsArr xs \<Rightarrow> and_then (traverse (normalize_merge_target_reference env root) xs) (\<lambda>ts. Inr (Some ts))
     | _ \<Rightarrow> invalid_request)"

definition AGENT_IDS :: "string list" where
  "AGENT_IDS = [''coven-code'', ''claude'', ''opencode'', ''codex'', ''cline'', ''gemini'', ''qwen'', ''amp'', ''pi'',
     ''cursor'', ''copilot'', ''crush'']"

definition normalize_agent :: "'b jsval \<Rightarrow> string option planned" where
  "normalize_agent v =
    (case v of
       JsUndef \<Rightarrow> Inr None
     | _ \<Rightarrow> and_then (normalize_required_string v) (\<lambda>a. throw_if (a \<notin> set AGENT_IDS) UnsupportedAgent (Inr (Some a))))"

definition lane_modes :: "(string \<times> lane_mode) list" where
  "lane_modes = [(''isolated-worktree'', IsolatedWorktree), (''shared-worktree'', SharedWorktree),
     (''terminal'', TerminalMode), (''coven-session'', CovenSession)]"

definition normalize_lane_mode :: "'b jsval \<Rightarrow> lane_mode planned" where
  "normalize_lane_mode v = and_then (normalize_required_string v)
     (\<lambda>mode. case map_of lane_modes mode of None \<Rightarrow> Inl UnsupportedLaneMode | Some m \<Rightarrow> Inr m)"

definition normalize_lane_plan :: "plan_env \<Rightarrow> task_fields \<Rightarrow> nat \<Rightarrow> 'b jsval \<Rightarrow> lane_plan planned" where
  "normalize_lane_plan env tf index lane =
    (and_then (normalize_required_string (js_prop lane ''id'')) (\<lambda>laneId.
     and_then (normalize_lane_mode (js_prop lane ''mode'')) (\<lambda>mode.
     and_then (normalize_agent (js_prop lane ''agent'')) (\<lambda>agent.
     and_then (normalize_optional_string (js_prop lane ''harness'')) (\<lambda>harness.
     and_then (normalize_existing_worktree_ref env (tf_projectRoot tf) (js_prop lane ''existingWorktree'')) (\<lambda>existing.
     and_then (normalize_permission_mode (js_prop lane ''permissionMode'')) (\<lambda>permission.
     throw_if (mode = SharedWorktree \<and> existing = None) InvalidOrchestrationRequest
     (throw_if (mode = CovenSession \<and> harness = None) InvalidOrchestrationRequest
       (Inr \<lparr>lp_id = laneId, lp_mode = mode, lp_agent = agent, lp_harness = harness, lp_existingWorktree = existing,
          lp_permissionMode = permission, lp_index = index, lp_task = tf\<rparr>)))))))))"

fun plan_lanes :: "plan_env \<Rightarrow> task_fields \<Rightarrow> nat \<Rightarrow> string list \<Rightarrow> 'b jsval list \<Rightarrow> lane_plan list planned" where
  "plan_lanes env tf index seen [] = Inr []"
| "plan_lanes env tf index seen (lane # lanes) =
     and_then (normalize_lane_plan env tf index lane) (\<lambda>plan.
       throw_if (lp_id plan \<in> set seen) InvalidOrchestrationRequest
         (and_then (plan_lanes env tf (Suc index) (lp_id plan # seen) lanes) (\<lambda>plans. Inr (plan # plans))))"

definition assert_git_commit_ref_exists :: "plan_env \<Rightarrow> string \<Rightarrow> string option \<Rightarrow> unit planned" where
  "assert_git_commit_ref_exists env root ref_name =
    (case ref_name of None \<Rightarrow> Inr ()
     | Some r \<Rightarrow> throw_if (\<not> pe_git_commit_exists env root r) InvalidOrchestrationRequest (Inr ()))"

definition plan_orchestration_task :: "plan_env \<Rightarrow> 'b jsval \<Rightarrow> task_plan planned" where
  "plan_orchestration_task env req =
    (and_then (normalize_required_string (js_prop req ''taskId'')) (\<lambda>taskId.
     and_then (normalize_request_trace_id (js_prop req ''traceId'') taskId) (\<lambda>traceId.
     and_then (normalize_orchestration_operation_id (js_prop req ''operationId'')) (\<lambda>operationId.
     and_then (normalize_project_root env (js_prop req ''projectRoot'')) (\<lambda>root.
     and_then (resolve_scoped_cwd env root (js_prop req ''cwd'')) (\<lambda>cwd.
     and_then (normalize_required_string (js_prop req ''prompt'')) (\<lambda>prompt.
     and_then (normalize_optional_string (js_prop req ''title'')) (\<lambda>title.
     and_then (normalize_optional_branch_name env (js_prop req ''startPointBranch'')) (\<lambda>start.
     and_then (assert_git_commit_ref_exists env root start) (\<lambda>_.
     and_then (normalize_merge_target_chain env root (js_prop req ''mergeTargetChain'')) (\<lambda>chain.
     case js_prop req ''lanes'' of
       JsArr xs \<Rightarrow>
         throw_if (xs = []) InvalidOrchestrationRequest
         (let tf = \<lparr>tf_taskId = taskId, tf_traceId = traceId, tf_operationId = operationId, tf_projectRoot = root, tf_cwd = cwd,
                tf_prompt = prompt, tf_title = title, tf_startPointBranch = start, tf_mergeTargetChain = chain\<rparr>
          in and_then (plan_lanes env tf 0 [] xs) (\<lambda>lanes.
             and_then (normalize_concurrency (js_prop req ''concurrency'') (length lanes)) (\<lambda>c.
               Inr \<lparr>tp_task = tf, tp_concurrency = c, tp_lanes = lanes\<rparr>)))
     | _ \<Rightarrow> invalid_request)))))))))))"
section \<open>What a plan guarantees\<close>

lemma drop_common_split: "drop_common xs ys = (u, d) \<Longrightarrow> \<exists>c. xs = c @ u \<and> ys = c @ d"
proof (induction xs ys rule: drop_common.induct)
  case (1 x xs y ys)
  show ?case
  proof (cases "x = y")
    case True
    with 1 obtain c where "xs = c @ u" "ys = c @ d" by auto
    with True show ?thesis by (intro exI [of _ "y # c"]) simp
  next
    case False with 1 show ?thesis by simp
  qed
qed auto

definition inside_root :: "string \<Rightarrow> string \<Rightarrow> string \<Rightarrow> bool" where
  "inside_root cwd root p \<longleftrightarrow> prefix (resolved_segments cwd root) (resolved_segments cwd p)"

lemma inside_or_equal_prefix: "is_path_inside_or_equal cwd root p \<Longrightarrow> inside_root cwd root p"
proof -
  assume a: "is_path_inside_or_equal cwd root p"
  obtain u d where ud: "drop_common (resolved_segments cwd root) (resolved_segments cwd p) = (u, d)" by (metis prod.exhaust)
  have "u = []"
  proof (rule ccontr)
    assume "u \<noteq> []"
    then have "prefix ''..'' (join_slash (map (\<lambda>_. ''..'') u @ d))" "join_slash (map (\<lambda>_. ''..'') u @ d) \<noteq> []"
      by (cases u; simp add: join_slash_def)+
    with a ud show False by (simp add: is_path_inside_or_equal_def path_relative_def)
  qed
  with drop_common_split [OF ud] show ?thesis by (auto simp: inside_root_def)
qed

definition scoped_path :: "plan_env \<Rightarrow> string \<Rightarrow> string \<Rightarrow> bool" where
  "scoped_path env root p \<longleftrightarrow> inside_root (pe_cwd env) root p \<and> pe_is_directory env p \<and> (\<exists>q. pe_realpath env q = Some p)"

definition checked_branch :: "plan_env \<Rightarrow> string \<Rightarrow> bool" where
  "checked_branch env b \<longleftrightarrow> is_valid_branch_name b \<and> pe_git_branch_name env b"

lemma contained_scoped: "resolve_project_contained_path env root p = Inr q \<Longrightarrow> scoped_path env root q"
  by (auto simp: resolve_project_contained_path_def resolve_existing_directory_path_def scoped_path_def result_simps
      intro: inside_or_equal_prefix split: option.splits)

lemma root_scoped: "normalize_project_root env v = Inr root \<Longrightarrow> scoped_path env root root"
  by (auto simp: normalize_project_root_def resolve_existing_directory_path_def scoped_path_def result_simps inside_root_def split: option.splits)

lemma cwd_scoped: "scoped_path env root root \<Longrightarrow> resolve_scoped_cwd env root v = Inr q \<Longrightarrow> scoped_path env root q"
  by (auto simp: resolve_scoped_cwd_def result_simps dest: contained_scoped split: option.splits)

lemma branch_checked:
  "validate_branch_name env s = Inr b \<Longrightarrow> b = s \<and> checked_branch env b"
  "normalize_required_branch_name env v = Inr b \<Longrightarrow> checked_branch env b"
  "normalize_optional_branch_name env v = Inr (Some b) \<Longrightarrow> checked_branch env b"
  by (auto simp: validate_branch_name_def checked_branch_def normalize_required_branch_name_def normalize_optional_branch_name_def
      result_simps split: option.splits)

definition target_ok :: "plan_env \<Rightarrow> string \<Rightarrow> merge_target \<Rightarrow> bool" where
  "target_ok env root t \<longleftrightarrow> checked_branch env (mt_branchName t) \<and> (\<forall>p. mt_worktreePath t = Some p \<longrightarrow> scoped_path env root p)"

lemma target_planned: "normalize_merge_target_reference env root v = Inr t \<Longrightarrow> target_ok env root t"
  by (auto simp: normalize_merge_target_reference_def target_ok_def result_simps split: option.splits
      dest!: branch_checked(1)) (rule contained_scoped)

lemma chain_planned:
  fixes v :: "'a jsval"
  shows "normalize_merge_target_chain env root v = Inr (Some ts) \<Longrightarrow> \<forall>t \<in> set ts. target_ok env root t"
proof -
  assume "normalize_merge_target_chain env root v = Inr (Some ts)"
  then obtain xs :: "'a jsval list" where "traverse (normalize_merge_target_reference env root) xs = Inr ts"
    by (auto simp: normalize_merge_target_chain_def result_simps split: jsval.splits)
  then show ?thesis by (induction xs arbitrary: ts) (auto simp: result_simps dest: target_planned)
qed

text \<open>The worktree of a lane is a worktree of the repository, inside the root, with the named branch checked out.\<close>

definition worktree_ok :: "plan_env \<Rightarrow> string \<Rightarrow> existing_worktree \<Rightarrow> bool" where
  "worktree_ok env root w \<longleftrightarrow> scoped_path env root (ew_worktreePath w) \<and> checked_branch env (ew_branchName w) \<and>
     (\<exists>paths out. canonical_git_worktree_paths env root = Inr paths \<and> ew_worktreePath w \<in> set paths \<and>
        pe_worktree_branch env (ew_worktreePath w) = Some out \<and> js_trim out = ew_branchName w)"

lemma worktree_planned: "normalize_existing_worktree_ref env root v = Inr (Some w) \<Longrightarrow> worktree_ok env root w"
  by (cases v) (auto simp: normalize_existing_worktree_ref_def is_object_value_def worktree_ok_def assert_existing_worktree_branch_def
      result_simps split: option.splits, (rule contained_scoped branch_checked(2), assumption)+)

definition lane_ok :: "plan_env \<Rightarrow> task_fields \<Rightarrow> lane_plan \<Rightarrow> bool" where
  "lane_ok env tf p \<longleftrightarrow> lp_task p = tf \<and> lp_id p \<noteq> [] \<and>
     (\<forall>w. lp_existingWorktree p = Some w \<longrightarrow> worktree_ok env (tf_projectRoot tf) w) \<and>
     (lp_mode p = SharedWorktree \<longrightarrow> lp_existingWorktree p \<noteq> None) \<and> (lp_mode p = CovenSession \<longrightarrow> lp_harness p \<noteq> None) \<and>
     (\<forall>a. lp_agent p = Some a \<longrightarrow> a \<in> set AGENT_IDS)"

lemma lane_planned: "normalize_lane_plan env tf i v = Inr p \<Longrightarrow> lane_ok env tf p \<and> lp_index p = i"
  by (auto simp: normalize_lane_plan_def lane_ok_def normalize_required_string_def normalize_agent_def result_simps
      intro: worktree_planned split: jsval.splits if_split_asm)

lemma lanes_planned:
  "plan_lanes env tf i seen xs = Inr ps \<Longrightarrow>
    (\<forall>p \<in> set ps. lane_ok env tf p) \<and> map lp_index ps = [i..<i + length xs] \<and> length ps = length xs \<and>
    distinct (map lp_id ps) \<and> set (map lp_id ps) \<inter> set seen = {}"
proof (induction xs arbitrary: i seen ps)
  case (Cons x xs)
  then obtain p qs where p: "normalize_lane_plan env tf i x = Inr p" "lp_id p \<notin> set seen"
    "plan_lanes env tf (Suc i) (lp_id p # seen) xs = Inr qs" "ps = p # qs" by (auto simp: result_simps)
  from Cons.IH [OF p(3)] lane_planned [OF p(1)] p(2,4) show ?case by (auto simp: upt_conv_Cons simp del: upt_Suc)
qed simp

lemma concurrency_planned: "normalize_concurrency v n = Inr c \<Longrightarrow> 1 \<le> n \<Longrightarrow> 1 \<le> c \<and> c \<le> n \<and> c \<le> 4"
  by (auto simp: normalize_concurrency_def MAX_ORCHESTRATION_CONCURRENCY_def split: jsval.splits if_split_asm)
text \<open>
  C20. Whatever the request, what it becomes is in scope: the root, the working directory and every worktree and merge target path
  of a plan are existing directories, resolved, and equal to the root or below it segment by segment; an existing worktree
  is one \<open>git\<close> lists for the root, with the named branch checked out; branch names are checked; lane ids are present and
  distinct, a shared lane has its worktree and a Coven lane its harness; and the concurrency is between one and four and at
  most the number of lanes.
\<close>
theorem plan_in_scope:
  fixes req :: "'a jsval"
  assumes "plan_orchestration_task env req = Inr plan"
  shows "let tf = tp_task plan; root = tf_projectRoot tf; lanes = tp_lanes plan in
    scoped_path env root root \<and> scoped_path env root (tf_cwd tf) \<and>
    (\<forall>b. tf_startPointBranch tf = Some b \<longrightarrow> checked_branch env b \<and> pe_git_commit_exists env root b) \<and>
    (\<forall>ts. tf_mergeTargetChain tf = Some ts \<longrightarrow> (\<forall>t \<in> set ts. target_ok env root t)) \<and>
    lanes \<noteq> [] \<and> (\<forall>p \<in> set lanes. lane_ok env tf p) \<and> map lp_index lanes = [0..<length lanes] \<and> distinct (map lp_id lanes) \<and>
    1 \<le> tp_concurrency plan \<and> tp_concurrency plan \<le> length lanes \<and> tp_concurrency plan \<le> 4"
proof -
  have "\<exists>xs. js_prop req ''lanes'' = JsArr xs"
    using assms by (cases "js_prop req ''lanes''") (simp_all add: plan_orchestration_task_def result_simps)
  then obtain xs where arr: "js_prop req ''lanes'' = JsArr xs" by blast
  from assms [unfolded plan_orchestration_task_def arr jsval.case] obtain taskId traceId operationId root cwd prompt title start chain lanes c
    where r: "normalize_project_root env (js_prop req ''projectRoot'') = Inr root"
      and cwd: "resolve_scoped_cwd env root (js_prop req ''cwd'') = Inr cwd"
      and st: "normalize_optional_branch_name env (js_prop req ''startPointBranch'') = Inr start"
        "assert_git_commit_ref_exists env root start = Inr ()"
      and ch: "normalize_merge_target_chain env root (js_prop req ''mergeTargetChain'') = Inr chain"
      and xs: "xs \<noteq> []"
      and lanes: "plan_lanes env \<lparr>tf_taskId = taskId, tf_traceId = traceId, tf_operationId = operationId, tf_projectRoot = root,
          tf_cwd = cwd, tf_prompt = prompt, tf_title = title, tf_startPointBranch = start, tf_mergeTargetChain = chain\<rparr> 0 [] xs = Inr lanes"
      and c: "normalize_concurrency (js_prop req ''concurrency'') (length lanes) = Inr c"
      and plan: "plan = \<lparr>tp_task = \<lparr>tf_taskId = taskId, tf_traceId = traceId, tf_operationId = operationId, tf_projectRoot = root,
          tf_cwd = cwd, tf_prompt = prompt, tf_title = title, tf_startPointBranch = start, tf_mergeTargetChain = chain\<rparr>,
          tp_concurrency = c, tp_lanes = lanes\<rparr>"
    by (auto simp: Let_def result_simps)
  note root = root_scoped [OF r]
  have "scoped_path env root cwd" by (rule cwd_scoped [OF root cwd])
  moreover have "checked_branch env b \<and> pe_git_commit_exists env root b" if "start = Some b" for b
    using st branch_checked(3) that by (auto simp: assert_git_commit_ref_exists_def)
  moreover have "\<forall>t \<in> set ts. target_ok env root t" if "chain = Some ts" for ts using chain_planned ch that by blast
  moreover note l = lanes_planned [OF lanes]
  moreover have "1 \<le> length lanes" using l xs by (cases xs) simp_all
  ultimately show ?thesis using root concurrency_planned [OF c] unfolding plan Let_def by auto
qed

definition demo_plan_env :: plan_env where
  "demo_plan_env = \<lparr>pe_cwd = ''/'', pe_realpath = Some, pe_is_directory = (\<lambda>p. True), pe_git_branch_name = (\<lambda>b. True),
     pe_git_commit_exists = (\<lambda>r b. True), pe_worktree_list = (\<lambda>r. Some (''worktree /p/w'' @ [CHR 0x0A])),
     pe_worktree_branch = (\<lambda>p. Some (''main'' @ [CHR 0x0A]))\<rparr>"

definition demo_plan_request :: "unit jsval" where
  "demo_plan_request = JsObj [(''taskId'', JsStr ''t''), (''operationId'', JsStr ''o''), (''projectRoot'', JsStr ''/p''), (''cwd'', JsStr ''src''),
     (''prompt'', JsStr ''do''), (''lanes'', JsArr [
       JsObj [(''id'', JsStr ''a''), (''mode'', JsStr ''terminal'')],
       JsObj [(''id'', JsStr ''b''), (''mode'', JsStr ''shared-worktree''), (''existingWorktree'',
         JsObj [(''slug'', JsStr ''w''), (''worktreePath'', JsStr ''x/../w''), (''branchName'', JsStr ''main'')])]])]"

lemma plan_in_scope_witness:
  "\<exists>plan. plan_orchestration_task demo_plan_env demo_plan_request = Inr plan \<and> length (tp_lanes plan) = 2 \<and>
     scoped_path demo_plan_env ''/p'' (tf_cwd (tp_task plan)) \<and> tf_cwd (tp_task plan) = ''/p/src'' \<and> tp_concurrency plan = 2"
proof -
  have "(case plan_orchestration_task demo_plan_env demo_plan_request of Inl e \<Rightarrow> False | Inr plan \<Rightarrow>
      length (tp_lanes plan) = 2 \<and> tf_projectRoot (tp_task plan) = ''/p'' \<and> tf_cwd (tp_task plan) = ''/p/src'' \<and> tp_concurrency plan = 2)"
    by code_simp
  then obtain plan where p: "plan_orchestration_task demo_plan_env demo_plan_request = Inr plan" and
    "length (tp_lanes plan) = 2" "tf_projectRoot (tp_task plan) = ''/p''" "tf_cwd (tp_task plan) = ''/p/src''" "tp_concurrency plan = 2"
    by (auto split: sum.splits)
  with plan_in_scope [OF p] show ?thesis unfolding Let_def by auto
qed
end
