(* ===== verification/Orchestrator.thy ===== *)
theory Orchestrator
  imports OrchestrationPlan "HOL-Library.Multiset"
begin

text \<open>
  The coordinator of orchestration lanes (\<open>src/src/orchestration/orchestrator.ts\<close>): workers take the lanes of a plan in
  order, authorizations happen one at a time in that order, lanes run side by side, and results are kept by index. A step is
  what a worker does between two awaits; the answers of \<open>beforeLaneEffect\<close> and of the lane backend are events.
\<close>

declare map_of_eq_Some_iff [simp del]
declare Some_eq_map_of_iff [simp del]

section \<open>State\<close>

text \<open>What was thrown: whether it is an \<open>OrchestrationError\<close>, its \<open>code\<close> when that is a string, its message.\<close>

record thrown_error =
  th_orchestration :: bool
  th_code :: "string option"
  th_message :: string

type_synonym warning = "string \<times> string"

record lane_output =
  lo_pane :: "json option"
  lo_sessionId :: "string option"
  lo_warnings :: "warning list option"

datatype lane_status =
    LaneCompleted "json option" "string option" "warning list option"
  | LaneFailed string string

record lane_result =
  lr_id :: string
  lr_status :: lane_status
  lr_startedAt :: string
  lr_completedAt :: string

datatype task_status = TaskCompleted | TaskPartial | TaskFailed

record task_result =
  tr_taskId :: string
  tr_traceId :: string
  tr_status :: task_status
  tr_startedAt :: string
  tr_completedAt :: string
  tr_lanes :: "lane_result list"

text \<open>Where a worker stands; a lane that runs keeps the time it started.\<close>

datatype worker = Looking | Queued nat | Authorizing nat | Executing nat string | Finished

record orchestration =
  oc_cursor :: nat
  oc_workers :: "worker list"
  oc_queue :: "nat list"
  oc_failure :: "thrown_error option"
  oc_results :: "lane_result option list"
  oc_started :: "nat list"
  oc_reads :: nat

datatype worker_event = Proceeds | Authorized | Denied thrown_error | Yields lane_output | Throws thrown_error

section \<open>Steps\<close>

definition orchestration_start :: "nat \<Rightarrow> nat \<Rightarrow> orchestration" where
  "orchestration_start lanes concurrency =
    \<lparr>oc_cursor = 0, oc_workers = replicate concurrency Looking, oc_queue = [], oc_failure = None,
     oc_results = replicate lanes None, oc_started = [], oc_reads = 1\<rparr>"

definition becomes :: "nat \<Rightarrow> worker \<Rightarrow> orchestration \<Rightarrow> orchestration" where
  "becomes w x s = s\<lparr>oc_workers := (oc_workers s)[w := x]\<rparr>"

text \<open>\<open>runLane\<close> up to the call of the backend.\<close>

definition start_lane :: "(nat \<Rightarrow> string) \<Rightarrow> nat \<Rightarrow> nat \<Rightarrow> orchestration \<Rightarrow> orchestration" where
  "start_lane clock w i s = becomes w (Executing i (clock (oc_reads s)))
     (s\<lparr>oc_reads := Suc (oc_reads s), oc_started := oc_started s @ [i]\<rparr>)"

definition truthy_text :: "string option \<Rightarrow> string option" where
  "truthy_text v = (if v = Some [] then None else v)"

definition lane_completed :: "lane_plan \<Rightarrow> string \<Rightarrow> string \<Rightarrow> lane_output \<Rightarrow> lane_result" where
  "lane_completed p startedAt completedAt out =
    \<lparr>lr_id = lp_id p, lr_status = LaneCompleted (lo_pane out) (truthy_text (lo_sessionId out)) (lo_warnings out),
     lr_startedAt = startedAt, lr_completedAt = completedAt\<rparr>"

definition lane_failed :: "lane_plan \<Rightarrow> string \<Rightarrow> string \<Rightarrow> thrown_error \<Rightarrow> lane_result" where
  "lane_failed p startedAt completedAt e =
    \<lparr>lr_id = lp_id p,
     lr_status = LaneFailed (case th_code e of
         Some c \<Rightarrow> if th_orchestration e then c else ''lane_execution_failed'' | None \<Rightarrow> ''lane_execution_failed'') (th_message e),
     lr_startedAt = startedAt, lr_completedAt = completedAt\<rparr>"

definition lane_ends :: "(nat \<Rightarrow> string) \<Rightarrow> nat \<Rightarrow> nat \<Rightarrow> (string \<Rightarrow> lane_result) \<Rightarrow> orchestration \<Rightarrow> orchestration" where
  "lane_ends clock w i result s = becomes w Looking
     (s\<lparr>oc_reads := Suc (oc_reads s), oc_results := (oc_results s)[i := Some (result (clock (oc_reads s)))]\<rparr>)"

definition step_worker ::
  "lane_plan list \<Rightarrow> bool \<Rightarrow> (nat \<Rightarrow> string) \<Rightarrow> nat \<Rightarrow> worker_event \<Rightarrow> orchestration \<Rightarrow> orchestration option"
where
  "step_worker lanes authorizes clock w e s =
    (if length (oc_workers s) \<le> w then None
     else case (oc_workers s ! w, e) of
       (Looking, Proceeds) \<Rightarrow>
         if oc_cursor s < length lanes \<and> oc_failure s = None then
           (let i = oc_cursor s; s' = s\<lparr>oc_cursor := Suc i\<rparr> in
            if authorizes then Some (becomes w (Queued i) (s'\<lparr>oc_queue := oc_queue s @ [i]\<rparr>))
            else Some (start_lane clock w i s'))
         else Some (becomes w Finished s)
     | (Queued i, Proceeds) \<Rightarrow>
         if oc_queue s = [] \<or> hd (oc_queue s) \<noteq> i then None
         else if oc_failure s \<noteq> None then Some (becomes w Finished (s\<lparr>oc_queue := tl (oc_queue s)\<rparr>))
         else Some (becomes w (Authorizing i) s)
     | (Authorizing i, Authorized) \<Rightarrow> Some (start_lane clock w i (s\<lparr>oc_queue := tl (oc_queue s)\<rparr>))
     | (Authorizing i, Denied err) \<Rightarrow>
         Some (becomes w Finished (s\<lparr>oc_queue := tl (oc_queue s),
           oc_failure := (case oc_failure s of None \<Rightarrow> Some err | Some f \<Rightarrow> Some f)\<rparr>))
     | (Executing i t, Yields out) \<Rightarrow> Some (lane_ends clock w i (\<lambda>now. lane_completed (lanes ! i) t now out) s)
     | (Executing i t, Throws err) \<Rightarrow> Some (lane_ends clock w i (\<lambda>now. lane_failed (lanes ! i) t now err) s)
     | _ \<Rightarrow> None)"

definition all_finished :: "orchestration \<Rightarrow> bool" where
  "all_finished s \<longleftrightarrow> list_all (\<lambda>w. w = Finished) (oc_workers s)"

section \<open>The result\<close>

definition normalize_authorization_failure :: "thrown_error \<Rightarrow> lane_status" where
  "normalize_authorization_failure e = LaneFailed
     (case th_code e of
        Some c \<Rightarrow> if c \<in> set [''lease_missing'', ''lease_expired'', ''lease_revision_mismatch''] then c else ''effect_unknown''
      | None \<Rightarrow> ''effect_unknown'') (th_message e)"

fun fill_results :: "(nat \<Rightarrow> string) \<Rightarrow> lane_status \<Rightarrow> nat \<Rightarrow> lane_plan list \<Rightarrow> lane_result option list \<Rightarrow> lane_result list" where
  "fill_results clock failure reads (p # ps) (r # rs) =
     (case r of
        Some x \<Rightarrow> x # fill_results clock failure reads ps rs
      | None \<Rightarrow> \<lparr>lr_id = lp_id p, lr_status = failure, lr_startedAt = clock reads, lr_completedAt = clock reads\<rparr> #
          fill_results clock failure (Suc reads) ps rs)"
| "fill_results clock failure reads ps rs = []"

definition has_completed :: "lane_result \<Rightarrow> bool" where
  "has_completed r = (case lr_status r of LaneCompleted p i w \<Rightarrow> True | LaneFailed c m \<Rightarrow> False)"

definition has_unknown_effect :: "lane_result \<Rightarrow> bool" where
  "has_unknown_effect r =
    (case lr_status r of LaneCompleted p i (Some ws) \<Rightarrow> list_ex (\<lambda>(code, m). code = ''effect_unknown'') ws | _ \<Rightarrow> False)"

definition overall_status :: "lane_result list \<Rightarrow> task_status" where
  "overall_status lanes =
    (let completed = length (filter has_completed lanes) in
     if completed = length lanes \<and> \<not> list_ex has_unknown_effect lanes then TaskCompleted
     else if completed = 0 then TaskFailed else TaskPartial)"

text \<open>What \<open>execute\<close> answers when every worker has finished; \<open>now\<close> is the last reading of the clock.\<close>

definition orchestration_result ::
  "task_plan \<Rightarrow> (nat \<Rightarrow> string) \<Rightarrow> string \<Rightarrow> orchestration \<Rightarrow> (thrown_error, task_result) result"
where
  "orchestration_result plan clock now s =
    (let answer = (\<lambda>lanes. \<lparr>tr_taskId = tf_taskId (tp_task plan), tr_traceId = tf_traceId (tp_task plan),
           tr_status = overall_status lanes, tr_startedAt = clock 0, tr_completedAt = now, tr_lanes = lanes\<rparr>)
     in case oc_failure s of
       Some e \<Rightarrow>
         if \<not> list_ex (\<lambda>r. r \<noteq> None) (oc_results s) then Inl e
         else Inr (answer (fill_results clock (normalize_authorization_failure e) (oc_reads s) (tp_lanes plan) (oc_results s)))
     | None \<Rightarrow> Inr (answer (map the (oc_results s))))"
section \<open>Runs\<close>

inductive orchestration_run :: "lane_plan list \<Rightarrow> bool \<Rightarrow> (nat \<Rightarrow> string) \<Rightarrow> nat \<Rightarrow> nat \<Rightarrow> orchestration \<Rightarrow> bool"
  for lanes authorizes clock concurrency where
  oc_start: "orchestration_run lanes authorizes clock concurrency 0 (orchestration_start (length lanes) concurrency)"
| oc_step: "\<lbrakk>orchestration_run lanes authorizes clock concurrency n s; step_worker lanes authorizes clock w e s = Some s'\<rbrakk>
    \<Longrightarrow> orchestration_run lanes authorizes clock concurrency (Suc n) s'"

fun waiting_lane :: "worker \<Rightarrow> nat list" where
  "waiting_lane (Queued i) = [i]"
| "waiting_lane (Authorizing i) = [i]"
| "waiting_lane _ = []"

fun running_lane :: "worker \<Rightarrow> nat list" where
  "running_lane (Executing i t) = [i]"
| "running_lane _ = []"

definition lanes_of :: "(worker \<Rightarrow> nat list) \<Rightarrow> worker list \<Rightarrow> nat multiset" where
  "lanes_of f ws = sum_list (map (\<lambda>w. mset (f w)) ws)"

lemma lanes_of_update:
  "w < length ws \<Longrightarrow> lanes_of f (ws[w := x]) + mset (f (ws ! w)) = lanes_of f ws + mset (f x)"
proof (induction ws arbitrary: w)
  case (Cons y ws)
  then show ?case by (cases w) (simp_all add: lanes_of_def ac_simps)
qed simp

lemma lanes_of_member: "i \<in># lanes_of f ws \<longleftrightarrow> (\<exists>w \<in> set ws. i \<in> set (f w))"
  by (induction ws) (auto simp: lanes_of_def)

text \<open>
  \<open>m\<close> lanes have started. The lanes \<open>d, \<dots>, cursor - 1\<close> wait for their authorization; without a failure
  that is every lane taken and not started.
\<close>

definition orchestration_inv :: "lane_plan list \<Rightarrow> bool \<Rightarrow> nat \<Rightarrow> nat \<Rightarrow> orchestration \<Rightarrow> bool" where
  "orchestration_inv lanes authorizes m d s \<longleftrightarrow>
    (\<not> authorizes \<longrightarrow> m = oc_cursor s) \<and>
    oc_cursor s \<le> length lanes \<and> length (oc_results s) = length lanes \<and>
    oc_started s = [0..<m] \<and> m \<le> d \<and> d \<le> oc_cursor s \<and> (oc_failure s = None \<longleftrightarrow> m = d) \<and> oc_queue s = [d..<oc_cursor s] \<and>
    lanes_of waiting_lane (oc_workers s) = mset (oc_queue s) \<and>
    (\<forall>i. Authorizing i \<in> set (oc_workers s) \<longrightarrow> oc_failure s = None \<and> i = d) \<and>
    lanes_of running_lane (oc_workers s) = mset (filter (\<lambda>i. oc_results s ! i = None) [0..<m]) \<and>
    (\<forall>i < length lanes. m \<le> i \<longrightarrow> oc_results s ! i = None) \<and>
    (\<forall>i r. i < length lanes \<and> oc_results s ! i = Some r \<longrightarrow> lr_id r = lp_id (lanes ! i)) \<and>
    (Finished \<in> set (oc_workers s) \<longrightarrow> oc_cursor s = length lanes \<or> oc_failure s \<noteq> None)"

lemma start_inv: "orchestration_inv lanes authorizes 0 0 (orchestration_start (length lanes) c)"
proof -
  have "lanes_of f (replicate c Looking) = {#}" if "f Looking = []" for f by (induction c) (simp_all add: lanes_of_def that)
  then show ?thesis by (auto simp: orchestration_inv_def orchestration_start_def)
qed

lemma becomes_fields [simp]:
  "oc_cursor (becomes w x s) = oc_cursor s" "oc_queue (becomes w x s) = oc_queue s" "oc_failure (becomes w x s) = oc_failure s"
  "oc_results (becomes w x s) = oc_results s" "oc_started (becomes w x s) = oc_started s"
  "oc_workers (becomes w x s) = (oc_workers s)[w := x]" "oc_reads (becomes w x s) = oc_reads s"
  by (simp_all add: becomes_def)

text \<open>What a change of one worker does to the two tables of lanes.\<close>

lemma worker_moves:
  assumes "w < length ws" "mset (f (ws ! w)) = A" "mset (f x) = B" "lanes_of f ws = A + M" "N = B + M"
  shows "lanes_of f (ws[w := x]) = N"
  using lanes_of_update [OF assms(1), of f x] assms(2-5) by (simp add: ac_simps)

lemma worker_stays:
  assumes "w < length ws" "mset (f x) = mset (f (ws ! w))" shows "lanes_of f (ws[w := x]) = lanes_of f ws"
  using lanes_of_update [OF assms(1), of f x] assms(2) by simp

lemma set_list_update: "y \<in> set (xs[w := x]) \<Longrightarrow> y = x \<or> y \<in> set xs"
  using set_update_subset_insert [of xs w x] by blast
lemma inv_parts:
  assumes "orchestration_inv lanes authorizes m d s"
  shows "\<not> authorizes \<Longrightarrow> m = oc_cursor s" "oc_cursor s \<le> length lanes" "length (oc_results s) = length lanes"
    "oc_started s = [0..<m]" "m \<le> d" "d \<le> oc_cursor s" "oc_failure s = None \<longleftrightarrow> m = d" "oc_queue s = [d..<oc_cursor s]"
    "lanes_of waiting_lane (oc_workers s) = mset (oc_queue s)"
    "\<And>i. Authorizing i \<in> set (oc_workers s) \<Longrightarrow> oc_failure s = None \<and> i = d"
    "lanes_of running_lane (oc_workers s) = mset (filter (\<lambda>i. oc_results s ! i = None) [0..<m])"
    "\<And>i. i < length lanes \<Longrightarrow> m \<le> i \<Longrightarrow> oc_results s ! i = None"
    "\<And>i r. i < length lanes \<Longrightarrow> oc_results s ! i = Some r \<Longrightarrow> lr_id r = lp_id (lanes ! i)"
    "Finished \<in> set (oc_workers s) \<Longrightarrow> oc_cursor s = length lanes \<or> oc_failure s \<noteq> None"
  using assms unfolding orchestration_inv_def by blast+

lemma inv_intro:
  assumes "\<not> authorizes \<Longrightarrow> m = oc_cursor s" "oc_cursor s \<le> length lanes" "length (oc_results s) = length lanes"
    "oc_started s = [0..<m]" "m \<le> d" "d \<le> oc_cursor s" "oc_failure s = None \<longleftrightarrow> m = d" "oc_queue s = [d..<oc_cursor s]"
    "lanes_of waiting_lane (oc_workers s) = mset [d..<oc_cursor s]"
    "\<And>i. Authorizing i \<in> set (oc_workers s) \<Longrightarrow> m = d \<and> i = d"
    "lanes_of running_lane (oc_workers s) = mset (filter (\<lambda>i. oc_results s ! i = None) [0..<m])"
    "\<And>i. i < length lanes \<Longrightarrow> m \<le> i \<Longrightarrow> oc_results s ! i = None"
    "\<And>i r. i < length lanes \<Longrightarrow> oc_results s ! i = Some r \<Longrightarrow> lr_id r = lp_id (lanes ! i)"
    "Finished \<in> set (oc_workers s) \<Longrightarrow> oc_cursor s = length lanes \<or> oc_failure s \<noteq> None"
  shows "orchestration_inv lanes authorizes m d s"
  unfolding orchestration_inv_def
proof (intro conjI)
  show "\<forall>i. Authorizing i \<in> set (oc_workers s) \<longrightarrow> oc_failure s = None \<and> i = d" using assms(7,10) by simp
  show "\<forall>i r. i < length lanes \<and> oc_results s ! i = Some r \<longrightarrow> lr_id r = lp_id (lanes ! i)" using assms(13) by blast
qed (use assms(1-9,11,12,14) in simp_all)

lemma queues_inv:
  assumes inv: "orchestration_inv lanes True m d s" and w: "w < length (oc_workers s)" "oc_workers s ! w = Looking"
    and g: "oc_cursor s < length lanes" "oc_failure s = None"
  shows "orchestration_inv lanes True m d (becomes w (Queued (oc_cursor s)) (s\<lparr>oc_cursor := Suc (oc_cursor s), oc_queue := oc_queue s @ [oc_cursor s]\<rparr>))"
proof -
  note p = inv_parts [OF inv]
  have "lanes_of waiting_lane ((oc_workers s)[w := Queued (oc_cursor s)]) = mset [d..<Suc (oc_cursor s)]"
    by (rule worker_moves [OF w(1), where A = "{#}" and B = "{#oc_cursor s#}" and M = "mset (oc_queue s)"])
      (use w(2) p(6,8,9) in simp_all)
  moreover have "lanes_of running_lane ((oc_workers s)[w := Queued (oc_cursor s)]) = lanes_of running_lane (oc_workers s)"
    by (rule worker_stays) (use w in simp_all)
  ultimately show ?thesis using p g by (intro inv_intro) (auto dest!: set_list_update)
qed

lemma none_authorizing: "lanes_of waiting_lane ws = {#} \<Longrightarrow> Authorizing i \<notin> set ws"
  using lanes_of_member [of i waiting_lane ws] by force

lemma starts_inv:
  assumes inv: "orchestration_inv lanes False m d s" and w: "w < length (oc_workers s)" "oc_workers s ! w = Looking"
    and g: "oc_cursor s < length lanes" "oc_failure s = None"
  shows "orchestration_inv lanes False (Suc m) (Suc d) (start_lane clock w (oc_cursor s) (s\<lparr>oc_cursor := Suc (oc_cursor s)\<rparr>))"
proof -
  note p = inv_parts [OF inv]
  have c: "m = oc_cursor s" "d = m" using p(1,5,6) by auto
  let ?x = "Executing (oc_cursor s) (clock (oc_reads s))"
  have "lanes_of waiting_lane ((oc_workers s)[w := ?x]) = lanes_of waiting_lane (oc_workers s)"
    by (rule worker_stays) (use w in simp_all)
  moreover have "lanes_of running_lane ((oc_workers s)[w := ?x]) = mset (filter (\<lambda>i. oc_results s ! i = None) [0..<Suc m])"
    by (rule worker_moves [OF w(1), where A = "{#}" and B = "{#m#}" and M = "mset (filter (\<lambda>i. oc_results s ! i = None) [0..<m])"])
      (use w(2) p(11,12) c g in simp_all)
  moreover have "Authorizing i \<notin> set (oc_workers s)" for i using p(8,9) c by (intro none_authorizing) simp
  ultimately show ?thesis using p g c by (intro inv_intro) (auto simp: start_lane_def dest!: set_list_update)
qed

lemma finishes_inv:
  assumes inv: "orchestration_inv lanes a m d s" and w: "w < length (oc_workers s)" "oc_workers s ! w = Looking"
    and g: "\<not> (oc_cursor s < length lanes \<and> oc_failure s = None)"
  shows "orchestration_inv lanes a m d (becomes w Finished s)"
proof -
  note p = inv_parts [OF inv]
  have "lanes_of f ((oc_workers s)[w := Finished]) = lanes_of f (oc_workers s)" if "f Finished = []" "f Looking = []" for f
    by (rule worker_stays) (use w that in simp_all)
  then show ?thesis using p g by (intro inv_intro) (auto dest!: set_list_update)
qed

lemma head_of_queue: "orchestration_inv lanes a m d s \<Longrightarrow> oc_queue s \<noteq> [] \<Longrightarrow> hd (oc_queue s) = d \<and> d < oc_cursor s \<and> tl (oc_queue s) = [Suc d..<oc_cursor s]"
  using inv_parts(8) [of lanes a m d s] by (cases "d < oc_cursor s") (simp_all add: upt_conv_Cons del: upt_Suc)

lemma waiting_leaves:
  assumes inv: "orchestration_inv lanes a m d s" and w: "w < length (oc_workers s)" and x: "waiting_lane x = []"
    and d: "waiting_lane (oc_workers s ! w) = [d]"
  shows "d < oc_cursor s" "tl (oc_queue s) = [Suc d..<oc_cursor s]"
    "lanes_of waiting_lane ((oc_workers s)[w := x]) = mset [Suc d..<oc_cursor s]"
    "Authorizing i \<notin> set ((oc_workers s)[w := x])"
proof -
  note p = inv_parts [OF inv]
  have "d \<in># lanes_of waiting_lane (oc_workers s)" unfolding lanes_of_member using w d by (metis list.set_intros(1) nth_mem)
  then show c: "d < oc_cursor s" unfolding p(9) p(8) by simp
  then show "tl (oc_queue s) = [Suc d..<oc_cursor s]" unfolding p(8) by (simp add: upt_conv_Cons del: upt_Suc)
  show l: "lanes_of waiting_lane ((oc_workers s)[w := x]) = mset [Suc d..<oc_cursor s]"
    by (rule worker_moves [OF w, where A = "{#d#}" and B = "{#}" and M = "mset [Suc d..<oc_cursor s]"])
      (use d x p(8,9) c in \<open>simp_all add: upt_conv_Cons del: upt_Suc\<close>)
  show "Authorizing i \<notin> set ((oc_workers s)[w := x])"
  proof
    assume i: "Authorizing i \<in> set ((oc_workers s)[w := x])"
    then have "i \<in># lanes_of waiting_lane ((oc_workers s)[w := x])" unfolding lanes_of_member by force
    then have "Suc d \<le> i" unfolding l by simp
    moreover have "x \<noteq> Authorizing i" using x by auto
    ultimately show False using set_list_update [OF i] p(10) by auto
  qed
qed
lemma worker_of: "w < length ws \<Longrightarrow> ws ! w = x \<Longrightarrow> x \<in> set ws"
  by auto

lemma authorizing_d:
  assumes inv: "orchestration_inv lanes a m d s" and w: "w < length (oc_workers s)" "oc_workers s ! w = Authorizing i"
  shows "i = d \<and> m = d \<and> oc_failure s = None"
  using inv_parts(10) [OF inv worker_of [OF w]] inv_parts(7) [OF inv] by simp

lemma lane_ends_fields [simp]:
  "oc_cursor (lane_ends clock w i f s) = oc_cursor s" "oc_queue (lane_ends clock w i f s) = oc_queue s"
  "oc_failure (lane_ends clock w i f s) = oc_failure s" "oc_started (lane_ends clock w i f s) = oc_started s"
  "oc_results (lane_ends clock w i f s) = (oc_results s)[i := Some (f (clock (oc_reads s)))]"
  "oc_workers (lane_ends clock w i f s) = (oc_workers s)[w := Looking]"
  by (simp_all add: lane_ends_def)

lemma skips_inv:
  assumes inv: "orchestration_inv lanes True m d s" and w: "w < length (oc_workers s)" "oc_workers s ! w = Queued d"
    and g: "oc_failure s \<noteq> None"
  shows "orchestration_inv lanes True m (Suc d) (becomes w Finished (s\<lparr>oc_queue := tl (oc_queue s)\<rparr>))"
proof -
  note p = inv_parts [OF inv] and l = waiting_leaves [OF inv w(1), of Finished, simplified w(2)]
  have "lanes_of running_lane ((oc_workers s)[w := Finished]) = lanes_of running_lane (oc_workers s)"
    by (rule worker_stays) (use w in simp_all)
  then show ?thesis using p l g by (intro inv_intro) auto
qed

lemma authorizes_inv:
  assumes inv: "orchestration_inv lanes True m d s" and w: "w < length (oc_workers s)" "oc_workers s ! w = Queued d"
    and g: "oc_failure s = None"
  shows "orchestration_inv lanes True m d (becomes w (Authorizing d) s)"
proof -
  note p = inv_parts [OF inv]
  have "lanes_of f ((oc_workers s)[w := Authorizing d]) = lanes_of f (oc_workers s)" if "f (Queued d) = f (Authorizing d)" for f
    by (rule worker_stays) (use w that in simp_all)
  then show ?thesis using p g by (intro inv_intro) (auto dest!: set_list_update)
qed

lemma authorized_inv:
  assumes inv: "orchestration_inv lanes True m d s" and w: "w < length (oc_workers s)" "oc_workers s ! w = Authorizing i"
  shows "orchestration_inv lanes True (Suc m) (Suc d) (start_lane clock w i (s\<lparr>oc_queue := tl (oc_queue s)\<rparr>))"
proof -
  note p = inv_parts [OF inv] and i = authorizing_d [OF inv w]
  note l = waiting_leaves [OF inv w(1), of "Executing i (clock (oc_reads s))", simplified w(2), simplified i, simplified]
  have "lanes_of running_lane ((oc_workers s)[w := Executing i (clock (oc_reads s))]) = mset (filter (\<lambda>i. oc_results s ! i = None) [0..<Suc m])"
    by (rule worker_moves [OF w(1), where A = "{#}" and B = "{#m#}" and M = "mset (filter (\<lambda>i. oc_results s ! i = None) [0..<m])"])
      (use w(2) p(2,11,12) l(1) i in simp_all)
  moreover have "Finished \<notin> set (oc_workers s) \<or> oc_cursor s = length lanes" using p(14) i by auto
  ultimately show ?thesis using p l i by (intro inv_intro) (auto simp: start_lane_def dest!: set_list_update)
qed

lemma denied_inv:
  assumes inv: "orchestration_inv lanes True m d s" and w: "w < length (oc_workers s)" "oc_workers s ! w = Authorizing i"
  shows "orchestration_inv lanes True m (Suc d) (becomes w Finished (s\<lparr>oc_queue := tl (oc_queue s), oc_failure := Some e\<rparr>))"
proof -
  note p = inv_parts [OF inv] and i = authorizing_d [OF inv w]
  note l = waiting_leaves [OF inv w(1), of Finished, simplified w(2), simplified i, simplified]
  have "lanes_of running_lane ((oc_workers s)[w := Finished]) = lanes_of running_lane (oc_workers s)"
    by (rule worker_stays) (use w in simp_all)
  then show ?thesis using p l i by (intro inv_intro) auto
qed

lemma filter_remove:
  assumes "distinct xs" "i \<in> set xs" "P i"
  shows "mset (filter P xs) = add_mset i (mset (filter (\<lambda>j. P j \<and> j \<noteq> i) xs))"
proof -
  have "mset (filter P xs) = mset (i # filter (\<lambda>j. P j \<and> j \<noteq> i) xs)"
    by (subst set_eq_iff_mset_eq_distinct [symmetric]) (use assms in auto)
  then show ?thesis by simp
qed

lemma ends_inv:
  assumes inv: "orchestration_inv lanes a m d s" and w: "w < length (oc_workers s)" "oc_workers s ! w = Executing i t"
    and r: "\<And>now. lr_id (result now) = lp_id (lanes ! i)"
  shows "orchestration_inv lanes a m d (lane_ends clock w i result s)"
proof -
  note p = inv_parts [OF inv]
  have "i \<in># lanes_of running_lane (oc_workers s)" unfolding lanes_of_member using w by (metis list.set_intros(1) nth_mem running_lane.simps(1))
  then have i: "i < m" "oc_results s ! i = None" unfolding p(11) by auto
  have il: "i < length lanes" using i p(2,5,6) by linarith
  have "filter (\<lambda>j. (oc_results s)[i := Some x] ! j = None) [0..<m] = filter (\<lambda>j. oc_results s ! j = None \<and> j \<noteq> i) [0..<m]" for x
    using il p(3) by (intro filter_cong refl) (auto simp: nth_list_update)
  moreover have "mset (filter (\<lambda>j. oc_results s ! j = None) [0..<m]) = add_mset i (mset (filter (\<lambda>j. oc_results s ! j = None \<and> j \<noteq> i) [0..<m]))"
    using i by (intro filter_remove) simp_all
  ultimately have "lanes_of running_lane ((oc_workers s)[w := Looking]) = mset (filter (\<lambda>j. (oc_results s)[i := Some x] ! j = None) [0..<m])" for x
    by (intro worker_moves [OF w(1), where A = "{#i#}" and B = "{#}" and
      M = "mset (filter (\<lambda>j. oc_results s ! j = None \<and> j \<noteq> i) [0..<m])"]) (use w(2) p(11) in simp_all)
  moreover have "lanes_of waiting_lane ((oc_workers s)[w := Looking]) = lanes_of waiting_lane (oc_workers s)"
    by (rule worker_stays) (use w in simp_all)
  moreover have "lr_id y = lp_id (lanes ! j)" if "j < length lanes" "(oc_results s)[i := Some (result now)] ! j = Some y" for j y now
    using that p(3,13) r il by (cases "j = i") auto
  moreover have "Authorizing j \<in> set ((oc_workers s)[w := Looking]) \<Longrightarrow> m = d \<and> j = d" for j
    using p(7,10) set_list_update [of "Authorizing j" "oc_workers s" w Looking] by auto
  moreover have "Finished \<in> set ((oc_workers s)[w := Looking]) \<Longrightarrow> oc_cursor s = length lanes \<or> oc_failure s \<noteq> None"
    using p(14) set_list_update [of Finished "oc_workers s" w Looking] by auto
  ultimately show ?thesis using p(1-9,12) i(1) by (intro inv_intro) simp_all
qed

lemma lane_ids: "lr_id (lane_completed p t now out) = lp_id p" "lr_id (lane_failed p t now err) = lp_id p"
  by (simp_all add: lane_completed_def lane_failed_def)

lemma step_inv:
  assumes inv: "orchestration_inv lanes a m d s" and st: "step_worker lanes a clock w e s = Some s'"
  shows "\<exists>m' d'. orchestration_inv lanes a m' d' s'"
proof -
  from st have w: "w < length (oc_workers s)" by (simp add: step_worker_def split: if_split_asm)
  have "\<not> length (oc_workers s) \<le> w" using w by simp
  note st = st [unfolded step_worker_def if_not_P [OF this]]
  have auth: a if "waiting_lane (oc_workers s ! w) = [i]" for i
  proof (rule ccontr)
    assume "\<not> a"
    then have "oc_queue s = []" using inv_parts(1,5,6,8) [OF inv] by simp
    moreover have "i \<in># lanes_of waiting_lane (oc_workers s)" unfolding lanes_of_member using w that by (metis list.set_intros(1) nth_mem)
    ultimately show False unfolding inv_parts(9) [OF inv] by simp
  qed
  show ?thesis
  proof (cases "oc_workers s ! w")
    case Looking
    then show ?thesis
      using st queues_inv [of lanes m d s w] starts_inv [of lanes m d s w clock] finishes_inv [of lanes a m d s w] inv w
      by (cases e) (auto simp: Let_def split: if_split_asm)
  next
    case (Queued i)
    have a using auth Queued by simp
    then show ?thesis
      using st Queued inv w skips_inv [of lanes m d s w] authorizes_inv [of lanes m d s w] head_of_queue [OF inv]
      by (cases e) (auto split: if_split_asm)
  next
    case (Authorizing i)
    have a using auth Authorizing by simp
    then show ?thesis
      using st Authorizing inv w authorized_inv [of lanes m d s w i clock] denied_inv [of lanes m d s w i] authorizing_d [OF inv w Authorizing]
      by (cases e) auto
  next
    case (Executing i t)
    then show ?thesis
      using st ends_inv [OF inv w Executing, where result = "\<lambda>now. lane_completed (lanes ! i) t now _"]
        ends_inv [OF inv w Executing, where result = "\<lambda>now. lane_failed (lanes ! i) t now _"] lane_ids
      by (cases e) (simp_all, blast+)
  next
    case Finished
    then show ?thesis using st by (cases e) simp_all
  qed
qed

lemma step_workers:
  assumes "step_worker lanes a clock w e s = Some s'" shows "length (oc_workers s') = length (oc_workers s)"
proof -
  from assms have "\<not> length (oc_workers s) \<le> w" by (simp add: step_worker_def split: if_split_asm)
  note st = assms [unfolded step_worker_def if_not_P [OF this]]
  then show ?thesis
    by (cases "oc_workers s ! w"; cases e)
      (auto simp: Let_def start_lane_def lane_ends_def split: if_split_asm)
qed

lemma run_inv: "orchestration_run lanes a clock c n s \<Longrightarrow> (\<exists>m d. orchestration_inv lanes a m d s) \<and> length (oc_workers s) = c"
proof (induction rule: orchestration_run.induct)
  case oc_start
  then show ?case using start_inv [of lanes a c] by (auto simp only: orchestration_start_def orchestration.simps length_replicate)
next
  case (oc_step n s w e s')
  then have "length (oc_workers s') = length (oc_workers s)" by (intro step_workers)
  with oc_step step_inv show ?case by metis
qed
section \<open>Properties\<close>

lemma step_cases:
  assumes "step_worker lanes a clock w e s = Some s'"
  shows "w < length (oc_workers s) \<and>
    (oc_started s' \<noteq> oc_started s \<longrightarrow> (oc_workers s ! w = Looking \<and> \<not> a \<and> oc_failure s = None) \<or>
       (e = Authorized \<and> (\<exists>i. oc_workers s ! w = Authorizing i)))"
proof -
  from assms have w: "w < length (oc_workers s)" by (simp add: step_worker_def split: if_split_asm)
  then have "\<not> length (oc_workers s) \<le> w" by simp
  note st = assms [unfolded step_worker_def if_not_P [OF this]]
  then show ?thesis using w
    by (cases "oc_workers s ! w"; cases e) (auto simp: Let_def split: if_split_asm)
qed

lemma running_size: "size (lanes_of running_lane ws) \<le> length ws"
proof (induction ws)
  case (Cons w ws)
  then show ?case by (cases w) (simp_all add: lanes_of_def)
qed (simp add: lanes_of_def)

text \<open>
  C17. Lanes start in the order of the request, each at most once, at most \<open>concurrency\<close> of them at a time; and a
  lane is started only while no authorization has failed and, when there is a check, by that lane's own successful one.
\<close>
theorem lanes_start_in_order:
  assumes "orchestration_run lanes a clock c n s"
  shows "oc_started s = [0..<length (oc_started s)] \<and> length (oc_started s) \<le> length lanes \<and>
    size (lanes_of running_lane (oc_workers s)) \<le> c \<and>
    (\<forall>w e s'. step_worker lanes a clock w e s = Some s' \<and> oc_started s' \<noteq> oc_started s \<longrightarrow>
       oc_failure s = None \<and> (a \<longrightarrow> e = Authorized \<and> oc_workers s ! w = Authorizing (length (oc_started s))))"
proof -
  from run_inv [OF assms] obtain m d where inv: "orchestration_inv lanes a m d s" and c: "length (oc_workers s) = c" by blast
  note p = inv_parts [OF inv]
  have "oc_failure s = None \<and> (a \<longrightarrow> e = Authorized \<and> oc_workers s ! w = Authorizing m)"
    if st: "step_worker lanes a clock w e s = Some s'" "oc_started s' \<noteq> oc_started s" for w e s'
    using step_cases [OF st(1)] st(2) authorizing_d [OF inv, of w] by auto
  then show ?thesis using p(2,4-6) running_size [of "oc_workers s"] c by auto
qed

fun worker_weight :: "worker \<Rightarrow> nat" where
  "worker_weight Looking = 1"
| "worker_weight (Queued i) = 4"
| "worker_weight (Authorizing i) = 3"
| "worker_weight (Executing i t) = 2"
| "worker_weight Finished = 0"

definition work_left :: "lane_plan list \<Rightarrow> orchestration \<Rightarrow> nat" where
  "work_left lanes s = sum_list (map worker_weight (oc_workers s)) + 4 * (length lanes - oc_cursor s)"

lemma weight_update:
  "w < length ws \<Longrightarrow> sum_list (map worker_weight (ws[w := x])) + worker_weight (ws ! w) = sum_list (map worker_weight ws) + worker_weight x"
proof (induction ws arbitrary: w)
  case (Cons y ws) then show ?case by (cases w) simp_all
qed simp

lemma work_shrinks: assumes "step_worker lanes a clock w e s = Some s'" shows "work_left lanes s' < work_left lanes s"
proof -
  from assms have w: "w < length (oc_workers s)" by (simp add: step_worker_def split: if_split_asm)
  then have n: "\<not> length (oc_workers s) \<le> w" by simp
  note st = assms [unfolded step_worker_def if_not_P [OF n]]
  note u = weight_update [OF w]
  show ?thesis
  proof (cases "oc_workers s ! w")
    case Looking
    show ?thesis
      using st Looking u [of Finished] u [of "Queued (oc_cursor s)"] u [of "Executing (oc_cursor s) (clock (oc_reads s))"]
      by (cases e) (auto simp: Let_def work_left_def start_lane_def split: if_split_asm)
  next
    case (Queued i)
    show ?thesis using st Queued u [of Finished] u [of "Authorizing i"] by (cases e) (auto simp: work_left_def split: if_split_asm)
  next
    case (Authorizing i)
    show ?thesis
      using st Authorizing u [of Finished] u [of "Executing i (clock (oc_reads s))"]
      by (cases e) (auto simp: work_left_def start_lane_def)
  next
    case (Executing i t)
    show ?thesis using st Executing u [of Looking] by (cases e) (auto simp: work_left_def)
  next
    case Finished then show ?thesis using st by (cases e) simp_all
  qed
qed

lemma run_work: "orchestration_run lanes a clock c n s \<Longrightarrow> n + work_left lanes s \<le> c + 4 * length lanes"
proof (induction rule: orchestration_run.induct)
  case oc_start
  show ?case by (simp add: work_left_def orchestration_start_def sum_list_replicate)
next
  case (oc_step n s w e s')
  from work_shrinks [OF oc_step.hyps(2)] oc_step.IH show ?case by simp
qed

lemma some_worker_can_move:
  assumes inv: "orchestration_inv lanes a m d s" and f: "\<not> all_finished s"
  shows "\<exists>w e s'. step_worker lanes a clock w e s = Some s'"
proof -
  from f obtain w where w: "w < length (oc_workers s)" "oc_workers s ! w \<noteq> Finished"
    by (auto simp: all_finished_def list_all_length)
  have move: "\<exists>e s'. step_worker lanes a clock v e s = Some s'"
    if "v < length (oc_workers s)" "oc_workers s ! v \<noteq> Finished" "\<And>i. oc_workers s ! v = Queued i \<Longrightarrow> i = d" for v
  proof (cases "oc_workers s ! v")
    case Looking then show ?thesis using that(1) by (intro exI [of _ Proceeds]) (simp add: step_worker_def Let_def)
  next
    case (Queued i)
    then have "waiting_lane (oc_workers s ! v) = [d]" using that(3) by simp
    from waiting_leaves(1) [OF inv that(1) _ this, of Finished] have "oc_queue s \<noteq> []" using inv_parts(8) [OF inv] by simp
    then show ?thesis
      using Queued that(1,3) head_of_queue [OF inv] by (intro exI [of _ Proceeds]) (simp add: step_worker_def)
  next
    case (Authorizing i) then show ?thesis using that(1) by (intro exI [of _ Authorized]) (simp add: step_worker_def)
  next
    case (Executing i t) then show ?thesis using that(1) by (intro exI [of _ "Yields \<lparr>lo_pane = None, lo_sessionId = None, lo_warnings = None\<rparr>"]) (simp add: step_worker_def)
  next
    case Finished then show ?thesis using that(2) by simp
  qed
  show ?thesis
  proof (cases "\<exists>i. oc_workers s ! w = Queued i")
    case False then show ?thesis using move [OF w] by blast
  next
    case True
    then obtain i where "i \<in># lanes_of waiting_lane (oc_workers s)"
      unfolding lanes_of_member using w(1) by (metis list.set_intros(1) nth_mem waiting_lane.simps(1))
    then have "d \<in># lanes_of waiting_lane (oc_workers s)" unfolding inv_parts(9) [OF inv] inv_parts(8) [OF inv] by simp
    then obtain v where v: "v < length (oc_workers s)" "d \<in> set (waiting_lane (oc_workers s ! v))"
      unfolding lanes_of_member by (metis in_set_conv_nth)
    then have "oc_workers s ! v \<noteq> Finished" "\<And>i. oc_workers s ! v = Queued i \<Longrightarrow> i = d" by auto
    with move [OF v(1)] show ?thesis by blast
  qed
qed

text \<open>
  C19. An orchestration ends: no run is longer than four steps for each lane and one for each worker, and until every worker has
  finished some worker can go on, provided the authorization checks and the lanes it waits for answer.
\<close>
theorem orchestration_terminates:
  assumes "orchestration_run lanes a clock c n s"
  shows "n \<le> c + 4 * length lanes \<and> (all_finished s \<or> (\<exists>w e s'. step_worker lanes a clock w e s = Some s'))"
  using run_work [OF assms] run_inv [OF assms] some_worker_can_move by fastforce
lemma fill_results_nth:
  assumes "length ps = length rs"
  shows "length (fill_results clock f reads ps rs) = length rs \<and>
    (\<forall>i < length rs. case rs ! i of
       Some r \<Rightarrow> fill_results clock f reads ps rs ! i = r
     | None \<Rightarrow> lr_id (fill_results clock f reads ps rs ! i) = lp_id (ps ! i) \<and> lr_status (fill_results clock f reads ps rs ! i) = f)"
  using assms
proof (induction ps rs arbitrary: reads rule: list_induct2)
  case (Cons p ps r rs)
  show ?case
  proof (cases r)
    case None
    with Cons.IH [of "Suc reads"] show ?thesis by (auto simp: less_Suc_eq_0_disj split: option.splits)
  next
    case (Some x)
    with Cons.IH [of reads] show ?thesis by (auto simp: less_Suc_eq_0_disj split: option.splits)
  qed
qed simp

lemma finished_state:
  assumes inv: "orchestration_inv lanes a m d s" and f: "all_finished s" and c: "oc_workers s \<noteq> []"
  shows "\<And>i. i < length lanes \<Longrightarrow> (oc_results s ! i = None \<longleftrightarrow> m \<le> i)" "oc_failure s = None \<Longrightarrow> m = length lanes"
proof -
  note p = inv_parts [OF inv]
  have e: "lanes_of g (oc_workers s) = {#}" if "g Finished = []" for g
  proof -
    have "list_all (\<lambda>w. w = Finished) ws \<Longrightarrow> lanes_of g ws = {#}" for ws by (induction ws) (simp_all add: lanes_of_def that)
    then show ?thesis using f by (simp add: all_finished_def)
  qed
  have "oc_queue s = []" using p(9) e [of waiting_lane] by simp
  then have q: "d = oc_cursor s" using p(6,8) by (cases "oc_cursor s = 0") simp_all
  have r: "oc_results s ! i \<noteq> None" if "i < m" for i
  proof
    assume "oc_results s ! i = None"
    then have "i \<in># mset (filter (\<lambda>i. oc_results s ! i = None) [0..<m])" using that by simp
    moreover have "mset (filter (\<lambda>i. oc_results s ! i = None) [0..<m]) = {#}" using p(11) e [of running_lane] by (simp only: running_lane.simps)
    ultimately show False by (simp only: empty_iff set_mset_empty)
  qed
  show "oc_results s ! i = None \<longleftrightarrow> m \<le> i" if "i < length lanes" for i
    using r [of i] p(12) [OF that] by (cases "m \<le> i") auto
  have "Finished \<in> set (oc_workers s)" using f c unfolding all_finished_def by (cases "oc_workers s") simp_all
  then show "oc_failure s = None \<Longrightarrow> m = length lanes" using p(7,14) q by auto
qed


section \<open>A run\<close>

fun drive_workers ::
  "lane_plan list \<Rightarrow> bool \<Rightarrow> (nat \<Rightarrow> string) \<Rightarrow> (nat \<times> worker_event) list \<Rightarrow> orchestration \<Rightarrow> orchestration option"
where
  "drive_workers lanes a clock [] s = Some s"
| "drive_workers lanes a clock ((w, e) # es) s =
     (case step_worker lanes a clock w e s of None \<Rightarrow> None | Some s' \<Rightarrow> drive_workers lanes a clock es s')"

lemma drive_workers_run:
  "orchestration_run lanes a clock c n s \<Longrightarrow> drive_workers lanes a clock es s = Some s' \<Longrightarrow>
   orchestration_run lanes a clock c (n + length es) s'"
proof (induction es arbitrary: n s)
  case (Cons x es)
  obtain w e where x: "x = (w, e)" by (cases x)
  with Cons.prems obtain s1 where s1: "step_worker lanes a clock w e s = Some s1" "drive_workers lanes a clock es s1 = Some s'"
    by (auto split: option.splits)
  from Cons.IH [OF oc_step [OF Cons.prems(1) s1(1)] s1(2)] show ?case by simp
qed simp

definition demo_fields :: task_fields where
  "demo_fields = \<lparr>tf_taskId = ''t'', tf_traceId = ''t'', tf_operationId = ''o'', tf_projectRoot = ''/p'', tf_cwd = ''/p'',
     tf_prompt = ''do'', tf_title = None, tf_startPointBranch = None, tf_mergeTargetChain = None\<rparr>"

definition demo_lane :: "string \<Rightarrow> nat \<Rightarrow> lane_plan" where
  "demo_lane laneId index = \<lparr>lp_id = laneId, lp_mode = TerminalMode, lp_agent = None, lp_harness = None, lp_existingWorktree = None,
     lp_permissionMode = None, lp_index = index, lp_task = demo_fields\<rparr>"

definition demo_plan :: task_plan where
  "demo_plan = \<lparr>tp_task = demo_fields, tp_concurrency = 2, tp_lanes = [demo_lane ''a'' 0, demo_lane ''b'' 1, demo_lane ''c'' 2]\<rparr>"

text \<open>The second lane is refused while the first one runs; the third is not started.\<close>

definition demo_turns :: "(nat \<times> worker_event) list" where
  "demo_turns = [(0, Proceeds), (1, Proceeds), (0, Proceeds), (0, Authorized), (1, Proceeds),
     (1, Denied \<lparr>th_orchestration = False, th_code = Some ''lease_expired'', th_message = ''late''\<rparr>),
     (0, Yields \<lparr>lo_pane = None, lo_sessionId = Some ''s'', lo_warnings = None\<rparr>), (0, Proceeds)]"

definition demo_end :: orchestration where
  "demo_end = the (drive_workers (tp_lanes demo_plan) True (\<lambda>n. ''now'') demo_turns (orchestration_start 3 2))"

lemma demo_end_run: "orchestration_run (tp_lanes demo_plan) True (\<lambda>n. ''now'') 2 8 demo_end"
proof -
  have "drive_workers (tp_lanes demo_plan) True (\<lambda>n. ''now'') demo_turns (orchestration_start 3 2) \<noteq> None" by code_simp
  then have d: "drive_workers (tp_lanes demo_plan) True (\<lambda>n. ''now'') demo_turns (orchestration_start 3 2) = Some demo_end"
    by (auto simp: demo_end_def)
  have "length (tp_lanes demo_plan) = 3" by (simp add: demo_plan_def)
  with oc_start [of "tp_lanes demo_plan" True "\<lambda>n. ''now''" 2] have
    "orchestration_run (tp_lanes demo_plan) True (\<lambda>n. ''now'') 2 0 (orchestration_start 3 2)" by simp
  from drive_workers_run [OF this d] show ?thesis by (simp add: demo_turns_def eval_nat_numeral)
qed

lemma demo_end_facts: "all_finished demo_end \<and> oc_started demo_end = [0] \<and> is_ok (orchestration_result demo_plan (\<lambda>n. ''now'') ''now'' demo_end)"
  by code_simp

lemma lanes_start_in_order_witness: "oc_started demo_end = [0..<length (oc_started demo_end)] \<and> length (oc_started demo_end) = 1"
  using lanes_start_in_order [OF demo_end_run] demo_end_facts by simp

lemma orchestration_terminates_witness: "8 \<le> 2 + 4 * length (tp_lanes demo_plan)"
  using orchestration_terminates [OF demo_end_run] by (rule conjunct1)

end
