(* ===== verification/Spec2Isabelle.thy ===== *)
theory Spec2Isabelle
  imports LaneLeases CapabilityLeases Surfaces ApprovalProperties Redaction BoundedJson Policy RuntimeReplay LayoutCompiler Compaction ControlProtocol ProviderBroker OwnerLock Orchestrator
begin

text \<open>
  Root of the development.
\<close>

end
